(* ===== verification/Prelude.thy ===== *)
theory Prelude
  imports Main "HOL-Library.Word"
begin

text \<open>
  Shared vocabulary of the hypervisor model.

  \<^item> the C integer types as words of their width;
  \<^item> the ways a piece of hypervisor code can fail to return
    (\<open>hv_fault\<close>), the result type \<open>hv\<close>, sequencing \<open>hbind\<close>, the DEBUG-build
    \<open>ASSERT\<close>, and the counted \<open>for\<close> loop \<open>hfold\<close> with its invariant rules;
  \<^item> \<open>hloop\<close>, the unbounded loop with fuel, and the lemma that says when
    running out of fuel is a real divergence of the loop;
  \<^item> generic facts on lists and words used by several components.

  The collection \<open>hv_simps\<close> holds the rewrite rules that drive symbolic
  execution of the model's monadic code.
\<close>

unbundle bit_operations_syntax

named_theorems hv_simps \<open>symbolic execution of hypervisor code\<close>

type_synonym u8 = "8 word"
type_synonym u16 = "16 word"
type_synonym u32 = "32 word"
type_synonym u64 = "64 word"

text \<open>
  How control can leave the C code other than by returning: a call of
  \<open>c_hvabort\<close>, a failed \<open>ASSERT\<close> (also an abort, in DEBUG builds),
  an access through a NULL pointer or outside the object it is made to, and a
  loop that never ends.  The tools that run on the host end with
  \<open>fatal\<close> or \<open>lex_fatal\<close>, which call \<open>exit (1)\<close>; \<open>Undefined\<close> is an
  operation C gives no meaning to.
\<close>

datatype hv_fault = Hv_abort | Assert_fail | Bad_access | Hang | Fatal | Undefined

type_synonym 'a hv = "hv_fault + 'a"

definition hbind :: "'a hv \<Rightarrow> ('a \<Rightarrow> 'b hv) \<Rightarrow> 'b hv" where
  "hbind m k = (case m of Inl e \<Rightarrow> Inl e | Inr x \<Rightarrow> k x)"

definition hassert :: "bool \<Rightarrow> 'a hv \<Rightarrow> 'a hv" where
  "hassert b m = (if b then m else Inl Assert_fail)"

definition hguard :: "bool \<Rightarrow> 'a hv \<Rightarrow> 'a hv" where
  "hguard b m = (if b then m else Inl Bad_access)"

fun hfold :: "('i \<Rightarrow> 's \<Rightarrow> 's hv) \<Rightarrow> 'i list \<Rightarrow> 's \<Rightarrow> 's hv" where
  "hfold f [] s = Inr s"
| "hfold f (x # xs) s = hbind (f x s) (hfold f xs)"

fun hloop :: "('s \<Rightarrow> 's + 'r hv) \<Rightarrow> nat \<Rightarrow> 's \<Rightarrow> 'r hv" where
  "hloop step 0 s = Inl Hang"
| "hloop step (Suc n) s = (case step s of Inl s' \<Rightarrow> hloop step n s' | Inr r \<Rightarrow> r)"

subsection \<open>Sequencing\<close>

lemma hbind_Inr [simp, hv_simps]: "hbind (Inr x) k = k x"
  by (simp add: hbind_def)

lemma hbind_Inl [simp, hv_simps]: "hbind (Inl e) k = Inl e"
  by (simp add: hbind_def)

lemma hbind_eq_Inr [hv_simps]:
  "hbind m k = Inr y \<longleftrightarrow> (\<exists>x. m = Inr x \<and> k x = Inr y)"
  by (cases m) auto

lemma hbind_eq_Inl:
  "hbind m k = Inl e \<longleftrightarrow> m = Inl e \<or> (\<exists>x. m = Inr x \<and> k x = Inl e)"
  by (cases m) auto

lemma hbindE:
  assumes "hbind m k = Inr y"
  obtains x where "m = Inr x" and "k x = Inr y"
  using assms by (auto simp: hbind_eq_Inr)

lemma hbind_assoc: "hbind (hbind m k) l = hbind m (\<lambda>x. hbind (k x) l)"
  by (cases m) auto

lemma hbind_cong [fundef_cong]:
  "m = m' \<Longrightarrow> (\<And>x. m' = Inr x \<Longrightarrow> k x = k' x) \<Longrightarrow> hbind m k = hbind m' k'"
  by (cases m') auto

lemma hassert_True [simp, hv_simps]: "hassert True m = m"
  by (simp add: hassert_def)

lemma hassert_False [simp, hv_simps]: "hassert False m = Inl Assert_fail"
  by (simp add: hassert_def)

lemma hassert_eq_Inr [hv_simps]: "hassert b m = Inr y \<longleftrightarrow> b \<and> m = Inr y"
  by (simp add: hassert_def)

lemma hguard_True [simp, hv_simps]: "hguard True m = m"
  by (simp add: hguard_def)

lemma hguard_False [simp, hv_simps]: "hguard False m = Inl Bad_access"
  by (simp add: hguard_def)

lemma hguard_eq_Inr [hv_simps]: "hguard b m = Inr y \<longleftrightarrow> b \<and> m = Inr y"
  by (simp add: hguard_def)

lemma hassert_cong [fundef_cong]:
  "b = b' \<Longrightarrow> (b' \<Longrightarrow> m = m') \<Longrightarrow> hassert b m = hassert b' m'"
  by (simp add: hassert_def)

lemma hguard_cong [fundef_cong]:
  "b = b' \<Longrightarrow> (b' \<Longrightarrow> m = m') \<Longrightarrow> hguard b m = hguard b' m'"
  by (simp add: hguard_def)

subsection \<open>Partial correctness\<close>

text \<open>
  \<open>hpost Q m\<close>: if \<open>m\<close> returns, what it returns satisfies \<open>Q\<close>.  The rules
  collected in \<open>hpost_rules\<close> follow the structure of the code and leave one goal
  for every path through it.
\<close>

named_theorems hpost_rules \<open>path-by-path reasoning about returned values\<close>

definition hpost :: "('a \<Rightarrow> bool) \<Rightarrow> 'a hv \<Rightarrow> bool" where
  "hpost Q m \<longleftrightarrow> (\<forall>x. m = Inr x \<longrightarrow> Q x)"

lemma hpostD: "hpost Q m \<Longrightarrow> m = Inr x \<Longrightarrow> Q x"
  by (simp add: hpost_def)

lemma hpostI: "(\<And>x. m = Inr x \<Longrightarrow> Q x) \<Longrightarrow> hpost Q m"
  by (simp add: hpost_def)

lemma hpost_Inr [hpost_rules]: "Q x \<Longrightarrow> hpost Q (Inr x)"
  by (simp add: hpost_def)

lemma hpost_Inl [hpost_rules]: "hpost Q (Inl e)"
  by (simp add: hpost_def)

lemma hpost_hbind [hpost_rules]: "(\<And>x. m = Inr x \<Longrightarrow> hpost Q (k x)) \<Longrightarrow> hpost Q (hbind m k)"
  by (auto simp: hpost_def hbind_eq_Inr)

lemma hpost_hassert [hpost_rules]: "(b \<Longrightarrow> hpost Q m) \<Longrightarrow> hpost Q (hassert b m)"
  by (auto simp: hpost_def hassert_eq_Inr)

lemma hpost_hguard [hpost_rules]: "(b \<Longrightarrow> hpost Q m) \<Longrightarrow> hpost Q (hguard b m)"
  by (auto simp: hpost_def hguard_eq_Inr)

lemma hpost_if [hpost_rules]:
  "(b \<Longrightarrow> hpost Q m) \<Longrightarrow> (\<not> b \<Longrightarrow> hpost Q m') \<Longrightarrow> hpost Q (if b then m else m')"
  by simp

lemma hpost_let [hpost_rules]: "(\<And>x. x = a \<Longrightarrow> hpost Q (f x)) \<Longrightarrow> hpost Q (let x = a in f x)"
  by simp

lemma hpost_case_option [hpost_rules]:
  "(x = None \<Longrightarrow> hpost Q m) \<Longrightarrow> (\<And>v. x = Some v \<Longrightarrow> hpost Q (k v)) \<Longrightarrow>
   hpost Q (case x of None \<Rightarrow> m | Some v \<Rightarrow> k v)"
  by (cases x) auto

lemma hpost_case_prod [hpost_rules]:
  "(\<And>a b. x = (a, b) \<Longrightarrow> hpost Q (k a b)) \<Longrightarrow> hpost Q (case x of (a, b) \<Rightarrow> k a b)"
  by (cases x) auto

lemma hpost_case_sum [hpost_rules]:
  "(\<And>a. x = Inl a \<Longrightarrow> hpost Q (k a)) \<Longrightarrow> (\<And>b. x = Inr b \<Longrightarrow> hpost Q (l b)) \<Longrightarrow>
   hpost Q (case x of Inl a \<Rightarrow> k a | Inr b \<Rightarrow> l b)"
  by (cases x) auto

lemma hpost_mono: "hpost Q m \<Longrightarrow> (\<And>x. Q x \<Longrightarrow> R x) \<Longrightarrow> hpost R m"
  by (simp add: hpost_def)

lemma hpost_conj: "hpost Q m \<Longrightarrow> hpost R m \<Longrightarrow> hpost (\<lambda>x. Q x \<and> R x) m"
  by (simp add: hpost_def)

subsection \<open>Counted loops\<close>

lemma hfold_append:
  "hfold f (xs @ ys) s = hbind (hfold f xs s) (hfold f ys)"
  by (induction xs arbitrary: s) (auto simp: hbind_assoc intro!: hbind_cong)

lemma hfold_cong [fundef_cong]:
  "xs = xs' \<Longrightarrow> s = s' \<Longrightarrow> (\<And>x s. x \<in> set xs' \<Longrightarrow> f x s = g x s) \<Longrightarrow>
   hfold f xs s = hfold g xs' s'"
proof (induction xs arbitrary: s s' xs')
  case (Cons x xs)
  then show ?case by (auto intro!: hbind_cong)
qed simp

text \<open>An invariant of the body is an invariant of the loop.\<close>

lemma hfold_inv:
  assumes "hfold f xs s = Inr s'" and "P s"
    and "\<And>x t t'. x \<in> set xs \<Longrightarrow> P t \<Longrightarrow> f x t = Inr t' \<Longrightarrow> P t'"
  shows "P s'"
  using assms by (induction xs arbitrary: s) (auto elim!: hbindE)

lemma hpost_hfold:
  assumes "P s" and "\<And>x t. x \<in> set xs \<Longrightarrow> P t \<Longrightarrow> hpost P (f x t)"
  shows "hpost P (hfold f xs s)"
  by (rule hpostI) (use assms hfold_inv [of f xs s _ P] in \<open>auto simp: hpost_def\<close>)

text \<open>The same with the elements already visited.\<close>

lemma hfold_inv_prefix:
  assumes "hfold f xs s = Inr s'" and "P [] s"
    and "\<And>ys y zs t t'. xs = ys @ y # zs \<Longrightarrow> P ys t \<Longrightarrow> f y t = Inr t' \<Longrightarrow> P (ys @ [y]) t'"
  shows "P xs s'"
  using assms
proof (induction xs arbitrary: s' rule: rev_induct)
  case Nil
  then show ?case by simp
next
  case (snoc x xs)
  from snoc.prems(1) obtain t where t: "hfold f xs s = Inr t" and x: "f x t = Inr s'"
    by (auto simp: hfold_append hbind_eq_Inr)
  have "P xs t"
  proof (rule snoc.IH [OF t snoc.prems(2)])
    fix ys y zs u u'
    assume "xs = ys @ y # zs" "P ys u" "f y u = Inr u'"
    then show "P (ys @ [y]) u'"
      using snoc.prems(3) [of ys y "zs @ [x]" u u'] by simp
  qed
  then show ?case using snoc.prems(3) [of xs x "[]" t s'] x by simp
qed

lemma hfold_upt_inv:
  assumes "hfold f [0..<n] s = Inr s'" and "P 0 s"
    and "\<And>i t t'. i < n \<Longrightarrow> P i t \<Longrightarrow> f i t = Inr t' \<Longrightarrow> P (Suc i) t'"
  shows "P n s'"
  using assms
proof (induction n arbitrary: s')
  case (Suc n)
  from Suc.prems(1) obtain t where "hfold f [0..<n] s = Inr t" "f n t = Inr s'"
    by (auto simp: hfold_append hbind_eq_Inr)
  with Suc show ?case by (metis less_Suc_eq)
qed simp

text \<open>A loop whose body keeps an invariant and cannot fail under it, cannot fail.\<close>

lemma hfold_total:
  assumes "P s"
    and "\<And>x t. x \<in> set xs \<Longrightarrow> P t \<Longrightarrow> \<exists>t'. f x t = Inr t' \<and> P t'"
  shows "\<exists>s'. hfold f xs s = Inr s' \<and> P s'"
  using assms
proof (induction xs arbitrary: s)
  case (Cons x xs)
  then obtain t where "f x s = Inr t" "P t" by (metis list.set_intros(1))
  with Cons show ?case by simp
qed simp

text \<open>
  A loop whose step \<open>i\<close> only rewrites cell \<open>i\<close> of one array of the state, as a
  function of that cell, rewrites all of them at once.  \<open>up\<close> applies a function to
  the array in the state.
\<close>

lemma hfold_array:
  assumes "\<And>i c. i < n \<Longrightarrow> f i c = Inr (up (\<lambda>a. a(i := h i (a i))) c)"
    and "\<And>p q c. up p (up q c) = up (\<lambda>a. p (q a)) c" and "\<And>c. up (\<lambda>a. a) c = c"
  shows "hfold f [0..<n] c = Inr (up (\<lambda>a i. if i < n then h i (a i) else a i) c)"
  using assms(1)
proof (induction n)
  case 0
  show ?case using assms(3) by simp
next
  case (Suc n)
  let ?all = "\<lambda>n a i. if i < n then h i (a i) else a i"
  have "(\<lambda>a. (?all n a)(n := h n (?all n a n))) = ?all (Suc n)"
    by (auto simp: fun_eq_iff less_Suc_eq)
  then have "up (\<lambda>a. a(n := h n (a n))) (up (?all n) c) = up (?all (Suc n)) c"
    by (simp only: assms(2))
  moreover have "hfold f [0..<n] c = Inr (up (?all n) c)" using Suc by simp
  ultimately show ?case using Suc.prems [of n] by (simp add: hfold_append del: fun_upd_apply)
qed

subsection \<open>Unbounded loops\<close>

lemma hloop_Inl: "step s = Inl s' \<Longrightarrow> hloop step (Suc n) s = hloop step n s'"
  by simp

text \<open>More fuel never changes an answer other than \<open>Hang\<close>.\<close>

lemma hloop_more_fuel:
  assumes "hloop step n s = r" "r \<noteq> Inl Hang" "n \<le> m"
  shows "hloop step m s = r"
  using assms
proof (induction n arbitrary: s m)
  case (Suc n)
  then obtain k where "m = Suc k" "n \<le> k" by (cases m) auto
  with Suc show ?case by (auto split: sum.splits)
qed simp

text \<open>A measure that every continuing step decreases bounds the fuel needed.\<close>

lemma hloop_terminates:
  assumes "P s"
    and "\<And>t t'. P t \<Longrightarrow> step t = Inl t' \<Longrightarrow> P t' \<and> m t' < (m t :: nat)"
    and "\<And>t r. P t \<Longrightarrow> step t = Inr r \<Longrightarrow> Q r"
    and "m s < n"
  shows "Q (hloop step n s)"
  using assms(1,4)
proof (induction n arbitrary: s)
  case (Suc n)
  show ?case
  proof (cases "step s")
    case (Inl s')
    with Suc.prems assms(2) [of s s'] have "P s'" "m s' < n" by auto
    with Suc.IH Inl show ?thesis by simp
  next
    case (Inr r)
    with Suc.prems assms(3) show ?thesis by simp
  qed
qed simp

primrec hstates :: "('s \<Rightarrow> 's + 'r hv) \<Rightarrow> nat \<Rightarrow> 's \<Rightarrow> 's option" where
  "hstates step 0 s = Some s"
| "hstates step (Suc n) s =
     (case hstates step n s of None \<Rightarrow> None
      | Some t \<Rightarrow> (case step t of Inl t' \<Rightarrow> Some t' | Inr _ \<Rightarrow> None))"

lemma hstates_shift:
  "hstates step (Suc n) s = (case step s of Inl s' \<Rightarrow> hstates step n s' | Inr _ \<Rightarrow> None)"
  by (induction n) (auto split: sum.splits)

lemma hstates_add:
  "hstates step n s = Some t \<Longrightarrow> hstates step (n + k) s = hstates step k t"
  by (induction k) auto

lemma hloop_running:
  "hstates step n s \<noteq> None \<Longrightarrow> hloop step n s = Inl Hang"
proof (induction n arbitrary: s)
  case (Suc n)
  then show ?case by (auto simp: hstates_shift simp del: hstates.simps split: sum.splits)
qed simp

lemma hloop_hang_running:
  assumes "\<And>t r. step t = Inr r \<Longrightarrow> r \<noteq> Inl Hang"
  shows "hloop step n s = Inl Hang \<Longrightarrow> hstates step n s \<noteq> None"
proof (induction n arbitrary: s)
  case (Suc n)
  then show ?case
    using assms by (auto simp: hstates_shift simp del: hstates.simps split: sum.splits)
qed simp

lemma hstates_downward:
  "hstates step n s \<noteq> None \<Longrightarrow> k \<le> n \<Longrightarrow> hstates step k s \<noteq> None"
proof (induction n)
  case (Suc n)
  then show ?case by (cases "k = Suc n") (auto split: option.splits)
qed simp

lemma hstates_cycle:
  assumes i: "hstates step i s = Some t" and j: "hstates step (i + d) s = Some t" and "0 < d"
  shows "hstates step n s \<noteq> None"
proof -
  have d: "hstates step d t = Some t" using hstates_add [OF i] j by simp
  have "hstates step (k * d) t = Some t" for k
    by (induction k) (auto simp: hstates_add [OF d])
  then have "hstates step (i + n * d) s = Some t" using hstates_add [OF i] by simp
  then show ?thesis
    using hstates_downward [of step "i + n * d" s n] \<open>0 < d\<close> by (simp add: trans_le_add2)
qed

text \<open>
  Running out of fuel is divergence: when the loop can only take a step from
  finitely many states and the fuel exceeds their number, a loop that has used
  all of it never ends, whatever the fuel.
\<close>

lemma hloop_hang_forever:
  assumes hang: "hloop step n s = Inl Hang"
    and nohang: "\<And>t r. step t = Inr r \<Longrightarrow> r \<noteq> Inl Hang"
    and A: "finite A" "card A < n" "\<And>t t'. step t = Inl t' \<Longrightarrow> t \<in> A"
  shows "hloop step m s = Inl Hang"
proof -
  have "hstates step n s \<noteq> None"
    using nohang hang by (rule hloop_hang_running)
  then have run: "\<exists>t. hstates step k s = Some t" if "k \<le> n" for k
    using hstates_downward [OF _ that, of step s] by auto
  define f where "f k = the (hstates step k s)" for k
  have f: "hstates step k s = Some (f k)" if "k \<le> n" for k
    using run [OF that] by (auto simp: f_def)
  have "f k \<in> A" if "k < n" for k
    using f [of k] f [of "Suc k"] that A(3) by (auto split: sum.splits)
  then have "f ` {0..<n} \<subseteq> A" by auto
  then have "card (f ` {0..<n}) < n"
    using card_mono [OF A(1)] A(2) le_less_trans by blast
  then have "\<not> inj_on f {0..<n}" using card_image [of f "{0..<n}"] by auto
  then obtain i j where "i < j" "j < n" "f i = f j"
    unfolding inj_on_def by (metis atLeastLessThan_iff linorder_neqE_nat)
  then have "hstates step m s \<noteq> None"
    using hstates_cycle [of step i s "f i" "j - i" m] f by auto
  then show ?thesis by (rule hloop_running)
qed

end
