(* ===== verification/Md.thy ===== *)
theory Md
  imports Prelude
begin

text \<open>
  Machine descriptions and the scanner the hypervisor reads them with
  (\<open>mdsup.c\<close>, \<open>md.h\<close>, \<open>md_impl.h\<close>).

  A machine description (MD) is the sequence of 16-byte elements after its
  header and the string table after them.  \<open>elem\<close> are the elements that can be
  read from \<open>mdp->elem[0]\<close> on, \<open>str_tab\<close> the bytes that can be read from the
  string table on (the name block and what follows it); the sizes in the header
  are kept apart from both, since the scanner trusts them.  A pointer to an
  element is its index; reading outside \<open>elem\<close> or \<open>str_tab\<close> is
  \<open>Bad_access\<close>.  The hypervisor runs big-endian, where \<open>ntoh32\<close> and its
  relatives are the identity.

  Shown here: each scan returns the first match (and only a match), the node
  search ends on every MD whose node links go forward, and where it does not
  end it really loops; \<open>md_find_name_tag\<close> returns the tag of the first
  occurrence of a name and \<open>-1\<close> exactly when the name is not in the table.
\<close>

subsection \<open>Elements\<close>

text \<open>
  \<open>me_pad\<close> are the two bytes the compiler leaves between \<open>namelen\<close> and
  \<open>name\<close>: the scanner compares them too, as it reads the first eight bytes of
  an element as one integer.  \<open>me_d\<close> is the union \<open>d\<close>.
\<close>

record md_element =
  me_tag :: u8
  me_namelen :: u8
  me_pad :: u16
  me_name :: u32
  me_d :: u64

record bin_md =
  transport_version :: u32
  node_blk_sz :: u32
  name_blk_sz :: u32
  data_blk_sz :: u32
  elem :: "md_element list"
  str_tab :: "u8 list"

definition MDET_LIST_END :: u8 where "MDET_LIST_END = 0"
definition MDET_NULL :: u8 where "MDET_NULL = 0x20"
definition MDET_NODE :: u8 where "MDET_NODE = 0x4e"
definition MDET_NODE_END :: u8 where "MDET_NODE_END = 0x45"
definition MDET_PROP_ARC :: u8 where "MDET_PROP_ARC = 0x61"
definition MDET_PROP_VAL :: u8 where "MDET_PROP_VAL = 0x76"
definition MDET_PROP_STR :: u8 where "MDET_PROP_STR = 0x73"
definition MDET_PROP_DAT :: u8 where "MDET_PROP_DAT = 0x64"
definition MD_TRANSPORT_VERSION :: u32 where "MD_TRANSPORT_VERSION = 0x10000"
definition MD_ELEMENT_SIZE :: nat where "MD_ELEMENT_SIZE = 16"

definition prop_data_len :: "md_element \<Rightarrow> u32" where
  "prop_data_len e = ucast (drop_bit 32 (me_d e))"

definition prop_data_offset :: "md_element \<Rightarrow> u32" where
  "prop_data_offset e = ucast (me_d e)"

definition rawp :: "md_element \<Rightarrow> u64" where
  "rawp e = push_bit 56 (ucast (me_tag e)) OR push_bit 48 (ucast (me_namelen e))
     OR push_bit 32 (ucast (me_pad e)) OR ucast (me_name e)"

definition MDARC :: "u64 \<Rightarrow> u64" where "MDARC nm = nm OR push_bit 56 (ucast MDET_PROP_ARC)"
definition MDVAL :: "u64 \<Rightarrow> u64" where "MDVAL nm = nm OR push_bit 56 (ucast MDET_PROP_VAL)"
definition MDSTR :: "u64 \<Rightarrow> u64" where "MDSTR nm = nm OR push_bit 56 (ucast MDET_PROP_STR)"
definition MDDAT :: "u64 \<Rightarrow> u64" where "MDDAT nm = nm OR push_bit 56 (ucast MDET_PROP_DAT)"
definition MDNODE :: "u64 \<Rightarrow> u64" where "MDNODE nm = nm OR push_bit 56 (ucast MDET_NODE)"

definition TR_MAJOR :: "u32 \<Rightarrow> u32" where "TR_MAJOR x = drop_bit 16 x AND 0xffff"
definition TR_MINOR :: "u32 \<Rightarrow> u32" where "TR_MINOR x = x AND 0xffff"

lemmas md_tags = MDET_LIST_END_def MDET_NULL_def MDET_NODE_def MDET_NODE_END_def
  MDET_PROP_ARC_def MDET_PROP_VAL_def MDET_PROP_STR_def MDET_PROP_DAT_def

subsection \<open>The scanner\<close>

text \<open>\<open>md_next_node_elem\<close>: the next element of the same node with the given raw token.\<close>

function md_next_node_elem :: "bin_md \<Rightarrow> nat \<Rightarrow> u64 \<Rightarrow> nat option hv" where
  "md_next_node_elem md mdep token =
     (if mdep < length (elem md) then
        if me_tag (elem md ! mdep) \<noteq> MDET_LIST_END \<and> me_tag (elem md ! mdep) \<noteq> MDET_NODE_END then
          if Suc mdep < length (elem md) then
            if rawp (elem md ! Suc mdep) = token then Inr (Some (Suc mdep))
            else md_next_node_elem md (Suc mdep) token
          else Inl Bad_access
        else Inr None
      else Inl Bad_access)"
  by pat_completeness auto
termination by (relation "measure (\<lambda>(md, i, t). length (elem md) - i)") auto

declare md_next_node_elem.simps [simp del]

definition md_node_get_val :: "bin_md \<Rightarrow> nat \<Rightarrow> u64 \<Rightarrow> u64 option hv" where
  "md_node_get_val md nodep name_token =
     hbind (md_next_node_elem md nodep (MDVAL name_token)) (\<lambda>elemp.
       Inr (map_option (\<lambda>i. me_d (elem md ! i)) elemp))"

text \<open>
  \<open>md_find_node_by_arc\<close> returns the arc and the node it leads to.  The index
  \<open>mdp->elem[d.prop_idx]\<close> is not checked by the code.
\<close>

function md_find_node_by_arc_from ::
    "bin_md \<Rightarrow> nat \<Rightarrow> u64 \<Rightarrow> u64 \<Rightarrow> (nat \<times> nat) option hv" where
  "md_find_node_by_arc_from md elemp arc_token node_token =
     hbind (md_next_node_elem md elemp arc_token) (\<lambda>r.
       case r of None \<Rightarrow> Inr None
       | Some e \<Rightarrow>
          (let mdep = unat (me_d (elem md ! e)) in
           hguard (mdep < length (elem md))
             (if rawp (elem md ! mdep) \<noteq> node_token
              then md_find_node_by_arc_from md e arc_token node_token
              else Inr (Some (e, mdep)))))"
  by pat_completeness auto

lemma md_next_node_elem_bounds:
  "md_next_node_elem md i t = Inr (Some j) \<Longrightarrow> i < j \<and> j < length (elem md)"
proof (induction md i t rule: md_next_node_elem.induct)
  case (1 md mdep token)
  then show ?case
    by (subst (asm) (2) md_next_node_elem.simps) (auto split: if_splits)
qed

termination md_find_node_by_arc_from
proof (relation "measure (\<lambda>(md, i, a, n). length (elem md) - i)", goal_cases)
  case 1
  show ?case by simp
next
  case (2 md elemp arc_token node_token x2 e mdep)
  then show ?case using md_next_node_elem_bounds by fastforce
qed

declare md_find_node_by_arc_from.simps [simp del]

definition md_find_node_by_arc ::
    "bin_md \<Rightarrow> nat option \<Rightarrow> u64 \<Rightarrow> u64 \<Rightarrow> (nat \<times> nat) option hv" where
  "md_find_node_by_arc md elemp arc_token node_token =
     (case elemp of None \<Rightarrow> Inr None
      | Some e \<Rightarrow> md_find_node_by_arc_from md e arc_token node_token)"

text \<open>
  \<open>md_find_node\<close>.  The pointer is kept as a signed index: a node's link is read
  into an \<open>int\<close>, so it is truncated to 32 bits and may be negative, and the
  \<open>do ... while\<close> tests it against both ends of the element block afterwards.
  A chain of links that comes back to a node already seen makes the loop run
  for ever; \<open>Suc (length elem)\<close> iterations are enough for every loop that ends
  (\<open>md_find_node_hang_forever\<close>).
\<close>

definition md_node_matches :: "md_element \<Rightarrow> u64 \<Rightarrow> bool" where
  "md_node_matches e token \<longleftrightarrow>
     me_name e = ucast token \<and> (ucast (me_namelen e) :: u64) = drop_bit 48 token AND 0xff"

definition md_elem_limit :: "bin_md \<Rightarrow> int" where
  "md_elem_limit md = uint (node_blk_sz md) div int MD_ELEMENT_SIZE"

definition md_find_node_step :: "bin_md \<Rightarrow> u64 \<Rightarrow> int \<Rightarrow> int + nat option hv" where
  "md_find_node_step md token elemp =
     (if 0 \<le> elemp \<and> nat elemp < length (elem md) then
        let e = elem md ! nat elemp;
            loop_test = (\<lambda>p. if 0 \<le> p \<and> p < md_elem_limit md then Inl p else Inr (Inr None))
        in
          if me_tag e = MDET_LIST_END then Inr (Inr None)
          else if me_tag e = MDET_NODE then
            if md_node_matches e token then Inr (Inr (Some (nat elemp)))
            else loop_test (sint (ucast (me_d e) :: u32))
          else if me_tag e = MDET_NULL then loop_test (elemp + 1)
          else Inr (Inr None)
      else Inr (Inl Bad_access))"

definition md_find_node :: "bin_md \<Rightarrow> nat option \<Rightarrow> u64 \<Rightarrow> nat option hv" where
  "md_find_node md startp token =
     hloop (md_find_node_step md token) (Suc (length (elem md)))
       (case startp of None \<Rightarrow> 0 | Some p \<Rightarrow> int p)"

text \<open>
  \<open>md_find_name_tag\<close>: the inner comparison, the skip to the end of the string
  after a miss, and the scan.  A C string is the list of its bytes without the
  terminating NUL.
\<close>

function md_match_string :: "u8 list \<Rightarrow> u8 list \<Rightarrow> nat \<Rightarrow> nat \<Rightarrow> (nat \<times> bool) hv" where
  "md_match_string namep tab base i =
     (if base + i < length tab \<and> i < Suc (length namep) then
        let ch1 = (namep @ [0]) ! i; ch2 = tab ! (base + i) in
        if ch1 \<noteq> ch2 then Inr (i, False)
        else if ch1 = 0 then Inr (i, True)
        else md_match_string namep tab base (Suc i)
      else Inl Bad_access)"
  by pat_completeness auto
termination by (relation "measure (\<lambda>(n, tab, base, i). length tab - (base + i))") auto

function md_skip_string :: "u8 list \<Rightarrow> nat \<Rightarrow> nat \<Rightarrow> nat hv" where
  "md_skip_string tab base i =
     (if base + i < length tab then
        if tab ! (base + i) \<noteq> 0 then md_skip_string tab base (Suc i) else Inr i
      else Inl Bad_access)"
  by pat_completeness auto
termination by (relation "measure (\<lambda>(tab, base, i). length tab - (base + i))") auto

function md_find_name_tag_from :: "u8 list \<Rightarrow> u8 list \<Rightarrow> int \<Rightarrow> nat \<Rightarrow> u64 hv" where
  "md_find_name_tag_from namep tab sz start_idx =
     (if int start_idx < sz then
        hbind (md_match_string namep tab start_idx 0) (\<lambda>(i, matched).
          if matched then Inr (push_bit 48 (of_nat i) OR of_nat start_idx)
          else hbind (md_skip_string tab start_idx i) (\<lambda>j.
            md_find_name_tag_from namep tab sz (start_idx + (j + 1))))
      else Inr (- 1))"
  by pat_completeness auto
termination by (relation "measure (\<lambda>(n, tab, sz, s). nat sz - s)") auto

declare md_match_string.simps [simp del] md_skip_string.simps [simp del]
  md_find_name_tag_from.simps [simp del]

definition cstring :: "string \<Rightarrow> u8 list" where
  "cstring s = map of_char s"

definition md_find_name_tag :: "bin_md \<Rightarrow> string \<Rightarrow> u64 hv" where
  "md_find_name_tag md namep =
     md_find_name_tag_from (cstring namep) (str_tab md) (sint (name_blk_sz md)) 0"

text \<open>
  \<open>inittable\<close> of the Piton build: the field of \<open>config.hdnametable\<close> (the
  part of its name after \<open>hdname_\<close>) and the property name whose tag it holds.
\<close>

definition HDN :: "string \<Rightarrow> string \<times> string" where "HDN nm = (nm, nm)"
definition HDN_X :: "string \<Rightarrow> string \<Rightarrow> string \<times> string" where "HDN_X names offsetx = (offsetx, names)"

definition inittable :: "(string \<times> string) list" where
  "inittable =
     map HDN [''root'', ''fwd'', ''back'', ''id'', ''hvuart'', ''guest'', ''guests'', ''cpu'', ''cpus'',
       ''mau'', ''maus'', ''cwq'', ''cwqs'',
       ''pid'', ''vid'', ''strandid'', ''uartbase'', ''rombase'', ''romsize'', ''diskpa'',
       ''snet'', ''snet_ino'', ''snet_pa'',
       ''membase'', ''memsize'', ''memoffset'', ''realbase'', ''base'', ''size'', ''ino'', ''xid'', ''sid'',
       ''memory'', ''mblock'', ''hypervisor'', ''vpcidevice'', ''cfghandle'', ''ign'', ''cfgbase'',
       ''iobase'', ''pciregs'', ''tod'', ''devices'', ''device'', ''services'', ''service'', ''flags'',
       ''mtu'', ''link'', ''perfctraccess'', ''diagpriv'', ''rngctlaccessible'', ''perfctrhtaccess'',
       ''debugprintflags'', ''memscrubmax'', ''ldc_endpoints'', ''sp_ldc_endpoints'', ''ldc_endpoint'',
       ''channel'', ''target_type'', ''target_guest'', ''target_channel'', ''svc_id'', ''svc_arg'',
       ''svc_vino'', ''private_svc'', ''ldc_mapinrabase'', ''ldc_mapinsize'',
       ''virtual_devices'', ''channel_devices'',
       ''resource_id'', ''idx'', ''unbind'', ''mdpa'', ''consoles'', ''console'', ''sys_hwtw_mode''] @
     [HDN_X ''virtualdevices'' ''vdevs'', HDN_X ''partid'' ''parttag'',
      HDN_X ''tod-frequency'' ''todfrequency'', HDN_X ''tod-offset'' ''todoffset'',
      HDN_X ''stick-frequency'' ''stickfrequency'', HDN_X ''ce-blackout-sec'' ''ceblackoutsec'',
      HDN_X ''ce-poll-sec'' ''cepollsec'', HDN_X ''erpt-pa'' ''erpt_pa'',
      HDN_X ''erpt-size'' ''erpt_size'', HDN_X ''reset-reason'' ''reset_reason'',
      HDN_X ''tx-ino'' ''tx_ino'', HDN_X ''rx-ino'' ''rx_ino'',
      HDN_X ''content-version'' ''content_version'',
      HDN_X ''ignore-plx-link-hack'' ''ignore_plx_link_hack'']"

definition find_hdnames :: "bin_md \<Rightarrow> (string \<times> string) list \<Rightarrow> (string \<Rightarrow> u64) \<Rightarrow> (string \<Rightarrow> u64) hv" where
  "find_hdnames md = hfold (\<lambda>(off, strp) tbl.
     hbind (md_find_name_tag md strp) (\<lambda>tag. Inr (tbl(off := tag))))"

text \<open>
  The two shapes in which the configuration code uses the scanner:
  \<open>if (!md_node_get_val(...)) { miss } rest\<close>, and the loop
  \<open>while (NULL != (mdep = md_find_node_by_arc(mdp, mdep, arc, node, &nodep))) body\<close>,
  whose body may leave the function early with a result (\<open>Inl\<close>).
\<close>

definition md_prop :: "bin_md \<Rightarrow> nat \<Rightarrow> u64 \<Rightarrow> 'a hv \<Rightarrow> (u64 \<Rightarrow> 'a hv) \<Rightarrow> 'a hv" where
  "md_prop md nodep tok miss k =
     hbind (md_node_get_val md nodep tok) (\<lambda>r. case r of None \<Rightarrow> miss | Some v \<Rightarrow> k v)"

definition md_prop_or :: "bin_md \<Rightarrow> nat \<Rightarrow> u64 \<Rightarrow> u64 \<Rightarrow> (u64 \<Rightarrow> 'a hv) \<Rightarrow> 'a hv" where
  "md_prop_or md nodep tok dflt k =
     hbind (md_node_get_val md nodep tok) (\<lambda>r. k (case r of None \<Rightarrow> dflt | Some v \<Rightarrow> v))"

function md_foreach :: "bin_md \<Rightarrow> nat \<Rightarrow> u64 \<Rightarrow> u64 \<Rightarrow> (nat \<Rightarrow> 's \<Rightarrow> ('r + 's) hv) \<Rightarrow> 's \<Rightarrow> ('r + 's) hv" where
  "md_foreach md mdep arc_token node_token body s =
     hbind (md_find_node_by_arc_from md mdep arc_token node_token) (\<lambda>r.
       case r of None \<Rightarrow> Inr (Inr s)
       | Some (e, n) \<Rightarrow> hbind (body n s) (\<lambda>x.
           case x of Inl ret \<Rightarrow> Inr (Inl ret)
           | Inr s' \<Rightarrow> md_foreach md e arc_token node_token body s'))"
  by pat_completeness auto

lemma md_find_node_by_arc_from_bounds:
  "md_find_node_by_arc_from md i a t = Inr (Some (e, n)) \<Longrightarrow> i < e \<and> e < length (elem md) \<and> n < length (elem md)"
proof (induction md i a t rule: md_find_node_by_arc_from.induct)
  case (1 md i a t)
  from 1(2) obtain j where j: "md_next_node_elem md i a = Inr (Some j)"
    by (subst (asm) md_find_node_by_arc_from.simps) (auto simp: hbind_eq_Inr split: option.splits)
  have "md_find_node_by_arc_from md i a t = hguard (unat (me_d (elem md ! j)) < length (elem md))
      (if rawp (elem md ! unat (me_d (elem md ! j))) \<noteq> t then md_find_node_by_arc_from md j a t
       else Inr (Some (j, unat (me_d (elem md ! j)))))"
    by (subst md_find_node_by_arc_from.simps) (simp add: j Let_def)
  with 1(1) [OF j refl refl] 1(2) md_next_node_elem_bounds [OF j] show ?case
    by (auto simp: hguard_eq_Inr split: if_splits)
qed

termination md_foreach
  by (relation "measure (\<lambda>(md, i, a, n, b, s). length (elem md) - i)")
    (auto dest!: md_find_node_by_arc_from_bounds)

declare md_foreach.simps [simp del]

lemma md_prop_eq_Inr [hv_simps]:
  "md_prop md n tok miss k = Inr r \<longleftrightarrow>
     md_node_get_val md n tok = Inr None \<and> miss = Inr r \<or>
     (\<exists>v. md_node_get_val md n tok = Inr (Some v) \<and> k v = Inr r)"
  by (auto simp: md_prop_def hbind_eq_Inr split: option.splits)

lemma md_prop_or_eq_Inr [hv_simps]:
  "md_prop_or md n tok d k = Inr r \<longleftrightarrow>
     (\<exists>x. md_node_get_val md n tok = Inr x \<and> k (case x of None \<Rightarrow> d | Some v \<Rightarrow> v) = Inr r)"
  by (auto simp: md_prop_or_def hbind_eq_Inr)

lemma hpost_md_prop [hpost_rules]:
  "hpost Q miss \<Longrightarrow> (\<And>v. md_node_get_val md n tok = Inr (Some v) \<Longrightarrow> hpost Q (k v)) \<Longrightarrow>
   hpost Q (md_prop md n tok miss k)"
  by (auto simp: hpost_def md_prop_eq_Inr)

lemma hpost_md_prop_or [hpost_rules]:
  "(\<And>v. hpost Q (k v)) \<Longrightarrow> hpost Q (md_prop_or md n tok d k)"
  by (auto simp: hpost_def md_prop_or_eq_Inr)

text \<open>What the body keeps, the loop keeps, however it ends.\<close>

lemma md_foreach_inv:
  assumes "md_foreach md i a t body s = Inr r" and "P s"
    and "\<And>n u u'. n < length (elem md) \<Longrightarrow> P u \<Longrightarrow> body n u = Inr (Inr u') \<Longrightarrow> P u'"
    and "\<And>n u x. n < length (elem md) \<Longrightarrow> P u \<Longrightarrow> body n u = Inr (Inl x) \<Longrightarrow> Q x"
  shows "case r of Inl x \<Rightarrow> Q x | Inr s' \<Rightarrow> P s'"
  using assms
proof (induction md i a t body s rule: md_foreach.induct)
  case (1 md i a t body s)
  from 1(2) obtain v where v: "md_find_node_by_arc_from md i a t = Inr v"
    by (subst (asm) md_foreach.simps) (auto elim: hbindE)
  show ?case
  proof (cases v)
    case None
    with 1(2,3) v show ?thesis by (subst (asm) md_foreach.simps) auto
  next
    case (Some en)
    obtain e n where en: "en = (e, n)" by fastforce
    have n: "n < length (elem md)" using v Some en md_find_node_by_arc_from_bounds by blast
    have "hbind (body n s) (\<lambda>x. case x of Inl ret \<Rightarrow> Inr (Inl ret)
        | Inr s' \<Rightarrow> md_foreach md e a t body s') = Inr r"
      using 1(2) v Some en by (subst (asm) md_foreach.simps) simp
    then obtain x where x: "body n s = Inr x"
      "(case x of Inl ret \<Rightarrow> Inr (Inl ret) | Inr s' \<Rightarrow> md_foreach md e a t body s') = Inr r"
      by (auto elim: hbindE)
    show ?thesis
    proof (cases x)
      case (Inl ret)
      with x 1(3) 1(5) [OF n] show ?thesis by auto
    next
      case (Inr s')
      have "P s'" using 1(4) [OF n 1(3)] x(1) Inr by simp
      moreover have "md_foreach md e a t body s' = Inr r" using x(2) Inr by simp
      ultimately show ?thesis
        using 1(1) [OF v Some en [symmetric] x(1) Inr] 1(4,5) by blast
    qed
  qed
qed

lemma hpost_md_foreach:
  assumes "P s"
    and "\<And>n u. n < length (elem md) \<Longrightarrow> P u \<Longrightarrow> hpost (case_sum Q P) (body n u)"
  shows "hpost (case_sum Q P) (md_foreach md i a t body s)"
proof (rule hpostI)
  fix r
  assume "md_foreach md i a t body s = Inr r"
  then show "case_sum Q P r"
    using assms md_foreach_inv [of md i a t body s r P Q] by (fastforce simp: hpost_def split: sum.splits)
qed

subsection \<open>What the scans return\<close>

definition md_elem_end :: "md_element \<Rightarrow> bool" where
  "md_elem_end e \<longleftrightarrow> me_tag e = MDET_LIST_END \<or> me_tag e = MDET_NODE_END"

lemma md_next_node_elem_rec:
  "md_next_node_elem md i t =
     hguard (i < length (elem md))
       (if md_elem_end (elem md ! i) then Inr None
        else hguard (Suc i < length (elem md))
          (if rawp (elem md ! Suc i) = t then Inr (Some (Suc i)) else md_next_node_elem md (Suc i) t))"
  by (subst md_next_node_elem.simps) (simp add: md_elem_end_def hguard_def)

text \<open>\<open>md_first_in_node md i t j\<close>: \<open>j\<close> is the first element after \<open>i\<close>, in the node of \<open>i\<close>, with token \<open>t\<close>.\<close>

definition md_first_in_node :: "bin_md \<Rightarrow> nat \<Rightarrow> u64 \<Rightarrow> nat \<Rightarrow> bool" where
  "md_first_in_node md i t j \<longleftrightarrow> i < j \<and> j < length (elem md) \<and> rawp (elem md ! j) = t \<and>
     (\<forall>k\<in>{i..<j}. \<not> md_elem_end (elem md ! k)) \<and> (\<forall>k\<in>{Suc i..<j}. rawp (elem md ! k) \<noteq> t)"

text \<open>\<open>md_none_in_node md i t j\<close>: the node of \<open>i\<close> ends at \<open>j\<close>, and no element of it after \<open>i\<close> has token \<open>t\<close>.\<close>

definition md_none_in_node :: "bin_md \<Rightarrow> nat \<Rightarrow> u64 \<Rightarrow> nat \<Rightarrow> bool" where
  "md_none_in_node md i t j \<longleftrightarrow> i \<le> j \<and> j < length (elem md) \<and> md_elem_end (elem md ! j) \<and>
     (\<forall>k\<in>{i..<j}. \<not> md_elem_end (elem md ! k)) \<and> (\<forall>k\<in>{Suc i..<Suc j}. rawp (elem md ! k) \<noteq> t)"

lemma ball_upt_split: "i < j \<Longrightarrow> (\<forall>k\<in>{i..<j}. P k) \<longleftrightarrow> P i \<and> (\<forall>k\<in>{Suc i..<j}. P k)"
  by (auto simp: Suc_le_eq le_less)

lemma md_first_in_node_rec:
  "md_first_in_node md i t j \<longleftrightarrow> \<not> md_elem_end (elem md ! i) \<and> Suc i < length (elem md) \<and>
     (if rawp (elem md ! Suc i) = t then j = Suc i else md_first_in_node md (Suc i) t j)"
proof (cases "Suc i < j")
  case True
  then show ?thesis by (auto simp: md_first_in_node_def ball_upt_split)
next
  case False
  then consider "j = Suc i" | "j \<le> i" by linarith
  then show ?thesis by cases (auto simp: md_first_in_node_def)
qed

lemma md_none_in_node_rec:
  "md_none_in_node md i t j \<longleftrightarrow> i < length (elem md) \<and>
     (if md_elem_end (elem md ! i) then i = j
      else Suc i < length (elem md) \<and> rawp (elem md ! Suc i) \<noteq> t \<and> md_none_in_node md (Suc i) t j)"
proof (cases "i < j")
  case True
  then show ?thesis by (auto simp: md_none_in_node_def ball_upt_split)
next
  case False
  then show ?thesis by (auto simp: md_none_in_node_def)
qed

lemma md_next_node_elem_Some:
  "md_next_node_elem md i t = Inr (Some j) \<longleftrightarrow> md_first_in_node md i t j"
proof (induction md i t rule: md_next_node_elem.induct)
  case (1 md i t)
  show ?case
    by (subst md_next_node_elem_rec, subst md_first_in_node_rec)
      (use 1 in \<open>auto simp: md_elem_end_def hv_simps\<close>)
qed

lemma md_next_node_elem_None:
  "md_next_node_elem md i t = Inr None \<longleftrightarrow> (\<exists>j. md_none_in_node md i t j)"
proof (induction md i t rule: md_next_node_elem.induct)
  case (1 md i t)
  show ?case
    by (subst md_next_node_elem_rec, unfold md_none_in_node_rec [of md i t])
      (use 1 in \<open>auto simp: md_elem_end_def hv_simps\<close>)
qed

lemma md_next_node_elem_fault:
  "md_next_node_elem md i t = Inl e \<Longrightarrow> e = Bad_access"
proof (induction md i t rule: md_next_node_elem.induct)
  case (1 md i t)
  then show ?case
    by (subst (asm) (2) md_next_node_elem_rec) (auto simp: md_elem_end_def hguard_def split: if_splits)
qed

text \<open>A node that is closed before the element block ends can be searched safely.\<close>

lemma md_next_node_elem_safe:
  assumes "i \<le> j" "j < length (elem md)" "md_elem_end (elem md ! j)"
  shows "\<exists>r. md_next_node_elem md i t = Inr r"
  using assms
proof (induction md i t rule: md_next_node_elem.induct)
  case (1 md i t)
  then have "i = j \<or> Suc i \<le> j" by linarith
  then show ?case
    by (subst md_next_node_elem_rec) (use 1 in \<open>auto simp: md_elem_end_def hguard_def\<close>)
qed

subsection \<open>The node search\<close>

lemma md_find_node_step_no_hang: "md_find_node_step md t i = Inr r \<Longrightarrow> r \<noteq> Inl Hang"
  by (auto simp: md_find_node_step_def Let_def split: if_splits)

text \<open>Where the model says \<open>Hang\<close>, the loop of the code never ends.\<close>

lemma md_find_node_hang_forever:
  assumes "md_find_node md startp t = Inl Hang"
  shows "hloop (md_find_node_step md t) n (case startp of None \<Rightarrow> 0 | Some p \<Rightarrow> int p) = Inl Hang"
proof (rule hloop_hang_forever)
  show "md_find_node_step md t i = Inl i' \<Longrightarrow> i \<in> {0..<int (length (elem md))}" for i i'
    by (auto simp: md_find_node_step_def Let_def nat_less_iff split: if_splits)
qed (use assms md_find_node_step_no_hang in \<open>auto simp: md_find_node_def\<close>)

text \<open>
  A well-formed element block, as \<open>mdgen\<close> writes it: it is closed by its only
  list end, its size is the one in the header, the link of a node is the index
  of the next node or of the list end, and an arc leads to a node.
\<close>

definition md_wf :: "bin_md \<Rightarrow> bool" where
  "md_wf md \<longleftrightarrow>
     elem md \<noteq> [] \<and> uint (node_blk_sz md) = 16 * int (length (elem md)) \<and>
     (\<forall>i<length (elem md). me_tag (elem md ! i) = MDET_LIST_END \<longleftrightarrow> Suc i = length (elem md)) \<and>
     (\<forall>i<length (elem md). me_tag (elem md ! i) = MDET_NODE \<longrightarrow>
        i < unat (me_d (elem md ! i)) \<and> unat (me_d (elem md ! i)) < length (elem md) \<and>
        me_tag (elem md ! unat (me_d (elem md ! i))) \<in> {MDET_NODE, MDET_LIST_END} \<and>
        (\<forall>k<unat (me_d (elem md ! i)). i < k \<longrightarrow> me_tag (elem md ! k) \<noteq> MDET_NODE)) \<and>
     (\<forall>i<length (elem md). me_tag (elem md ! i) = MDET_PROP_ARC \<longrightarrow>
        unat (me_d (elem md ! i)) < length (elem md) \<and>
        me_tag (elem md ! unat (me_d (elem md ! i))) = MDET_NODE)"

lemma sint_ucast_32: "unat (d :: u64) < 2 ^ 31 \<Longrightarrow> sint (ucast d :: u32) = int (unat d)"
proof -
  assume "unat d < 2 ^ 31"
  then have "uint d < 2 ^ 31" by (metis nat_less_numeral_power_cancel_iff of_nat_less_iff of_nat_numeral of_nat_power uint_nat)
  then have "uint (ucast d :: u32) = uint d"
    by (simp add: unsigned_ucast_eq take_bit_int_eq_self)
  moreover have "signed_take_bit 31 (uint d) = uint d"
  proof (rule signed_take_bit_int_eq_self)
    show "- (2 ^ 31) \<le> uint d" using uint_ge_0 [of d] by (rule order_trans [rotated]) simp
  qed fact
  ultimately show ?thesis by (simp add: sint_uint)
qed

lemma md_wf_length: "md_wf md \<Longrightarrow> length (elem md) < 2 ^ 28"
  using uint_lt2p [of "node_blk_sz md"] by (auto simp: md_wf_def)

lemma md_wf_limit: "md_wf md \<Longrightarrow> md_elem_limit md = int (length (elem md))"
  by (simp add: md_wf_def md_elem_limit_def MD_ELEMENT_SIZE_def)

lemma md_wf_safe: "md_wf md \<Longrightarrow> i < length (elem md) \<Longrightarrow> \<exists>r. md_next_node_elem md i t = Inr r"
  by (rule md_next_node_elem_safe [of i "length (elem md) - 1"])
    (auto simp: md_wf_def md_elem_end_def)

definition md_named_node :: "bin_md \<Rightarrow> u64 \<Rightarrow> nat \<Rightarrow> bool" where
  "md_named_node md t i \<longleftrightarrow> me_tag (elem md ! i) = MDET_NODE \<and> md_node_matches (elem md ! i) t"

lemma find_skip: "(\<And>k. i \<le> k \<Longrightarrow> k < d \<Longrightarrow> \<not> P k) \<Longrightarrow> i \<le> d \<Longrightarrow> d \<le> n \<Longrightarrow> find P [i..<n] = find P [d..<n]"
proof (induction "d - i" arbitrary: i)
  case (Suc m)
  then have "find P [i..<n] = find P [Suc i..<n]" by (simp add: upt_conv_Cons)
  with Suc show ?case by simp
qed simp

lemma md_find_node_loop_wf:
  assumes wf: "md_wf md"
  shows "i < length (elem md) \<Longrightarrow> me_tag (elem md ! i) \<in> {MDET_NODE, MDET_LIST_END} \<Longrightarrow>
    length (elem md) - i \<le> n \<Longrightarrow>
    hloop (md_find_node_step md t) n (int i) = Inr (find (md_named_node md t) [i..<length (elem md)])"
proof (induction n arbitrary: i)
  case (Suc n)
  show ?case
  proof (cases "me_tag (elem md ! i) = MDET_LIST_END")
    case True
    with Suc.prems wf have "Suc i = length (elem md)" by (auto simp: md_wf_def)
    with True show ?thesis
      by (simp add: md_find_node_step_def upt_conv_Cons md_named_node_def md_tags)
  next
    case False
    with Suc.prems have N: "me_tag (elem md ! i) = MDET_NODE" by simp
    define d where "d = unat (me_d (elem md ! i))"
    from wf N Suc.prems(1) have d: "i < d" "d < length (elem md)"
      "me_tag (elem md ! d) \<in> {MDET_NODE, MDET_LIST_END}"
      "\<And>k. i < k \<Longrightarrow> k < d \<Longrightarrow> me_tag (elem md ! k) \<noteq> MDET_NODE"
      by (auto simp: md_wf_def d_def)
    have link: "sint (ucast (me_d (elem md ! i)) :: u32) = int d"
      using d(2) md_wf_length [OF wf] unfolding d_def by (intro sint_ucast_32) simp
    show ?thesis
    proof (cases "md_node_matches (elem md ! i) t")
      case True
      with N False Suc.prems show ?thesis
        by (simp add: md_find_node_step_def upt_conv_Cons md_named_node_def)
    next
      case miss: False
      have "find (md_named_node md t) [i..<length (elem md)] = find (md_named_node md t) [d..<length (elem md)]"
        using d miss by (intro find_skip) (auto simp: md_named_node_def le_less)
      moreover have "md_find_node_step md t (int i) = Inl (int d)"
        using N False miss Suc.prems(1) d(2) link md_wf_limit [OF wf]
        by (simp add: md_find_node_step_def Let_def)
      ultimately show ?thesis using Suc.IH [of d] Suc.prems(3) d by simp
    qed
  qed
qed simp

lemma md_find_node_wf:
  assumes "md_wf md" "i < length (elem md)" "me_tag (elem md ! i) \<in> {MDET_NODE, MDET_LIST_END}"
  shows "md_find_node md (Some i) t = Inr (find (md_named_node md t) [i..<length (elem md)])"
  using md_find_node_loop_wf [OF assms] by (simp add: md_find_node_def del: hloop.simps)

lemma md_find_node_root_wf:
  assumes "md_wf md" "me_tag (elem md ! 0) \<in> {MDET_NODE, MDET_LIST_END}"
  shows "md_find_node md None t = Inr (find (md_named_node md t) [0..<length (elem md)])"
proof -
  from assms(1) have "0 < length (elem md)" by (simp add: md_wf_def)
  with md_find_node_wf [OF assms(1) _ assms(2)] show ?thesis
    by (simp add: md_find_node_def del: hloop.simps)
qed

subsection \<open>Following arcs\<close>

text \<open>
  The arc search returns an arc of the node it starts in and the node the arc
  leads to, with the tokens asked for.
\<close>

lemma md_first_in_node_not_end:
  "md_first_in_node md i t j \<Longrightarrow> i \<le> k \<Longrightarrow> k < j \<Longrightarrow> \<not> md_elem_end (elem md ! k)"
  by (auto simp: md_first_in_node_def)

lemma md_find_node_by_arc_from_Some:
  "md_find_node_by_arc_from md i a t = Inr (Some (e, n)) \<Longrightarrow>
     i < e \<and> e < length (elem md) \<and> rawp (elem md ! e) = a \<and> n = unat (me_d (elem md ! e)) \<and>
     n < length (elem md) \<and> rawp (elem md ! n) = t \<and>
     (\<forall>k\<in>{i..<e}. \<not> md_elem_end (elem md ! k))"
proof (induction md i a t rule: md_find_node_by_arc_from.induct)
  case (1 md i a t)
  from 1(2) obtain j where j: "md_next_node_elem md i a = Inr (Some j)"
    by (subst (asm) md_find_node_by_arc_from.simps) (auto simp: hbind_eq_Inr split: option.splits)
  then have f: "md_first_in_node md i a j" by (simp add: md_next_node_elem_Some)
  define m where "m = unat (me_d (elem md ! j))"
  have "md_find_node_by_arc_from md i a t = hguard (m < length (elem md))
      (if rawp (elem md ! m) \<noteq> t then md_find_node_by_arc_from md j a t else Inr (Some (j, m)))"
    by (subst md_find_node_by_arc_from.simps) (simp add: j m_def Let_def)
  with 1(2) have step: "m < length (elem md)"
    "(if rawp (elem md ! m) \<noteq> t then md_find_node_by_arc_from md j a t else Inr (Some (j, m))) = Inr (Some (e, n))"
    by (simp_all only: hguard_eq_Inr)
  show ?case
  proof (cases "rawp (elem md ! m) = t")
    case True
    with step f show ?thesis by (auto simp: md_first_in_node_def m_def)
  next
    case False
    with step have r: "md_find_node_by_arc_from md j a t = Inr (Some (e, n))" by simp
    from 1(1) [OF j refl m_def step(1) False r] f show ?thesis
      by (auto simp: md_first_in_node_def)
  qed
qed

text \<open>On a well-formed MD the search neither faults nor leaves the node's arcs.\<close>

lemma md_find_node_by_arc_from_wf:
  assumes wf: "md_wf md"
    and arc: "\<And>i. i < length (elem md) \<Longrightarrow> rawp (elem md ! i) = a \<Longrightarrow> me_tag (elem md ! i) = MDET_PROP_ARC"
  shows "i < length (elem md) \<Longrightarrow> \<exists>r. md_find_node_by_arc_from md i a t = Inr r"
proof (induction "length (elem md) - i" arbitrary: i rule: less_induct)
  case less
  from md_wf_safe [OF wf less.prems] obtain r where r: "md_next_node_elem md i a = Inr r" by blast
  show ?case
  proof (cases r)
    case None
    with r show ?thesis by (subst md_find_node_by_arc_from.simps) simp
  next
    case (Some j)
    with r have j: "i < j" "j < length (elem md)" "rawp (elem md ! j) = a"
      by (auto simp: md_next_node_elem_Some md_first_in_node_def)
    with arc wf have "unat (me_d (elem md ! j)) < length (elem md)" by (auto simp: md_wf_def)
    moreover have "\<exists>r. md_find_node_by_arc_from md j a t = Inr r" using less.hyps [of j] j by simp
    ultimately show ?thesis
      using r Some by (subst md_find_node_by_arc_from.simps) (simp add: Let_def)
  qed
qed

subsection \<open>Names\<close>

text \<open>
  A name block as \<open>mdgen\<close> lays it out: NUL-terminated strings one after the
  other.  \<open>name_tag_of\<close> is the tag of the first occurrence of a name in it.
\<close>

definition name_block :: "u8 list list \<Rightarrow> u8 list" where
  "name_block names = concat (map (\<lambda>s. s @ [0]) names)"

fun name_tag_of :: "u8 list \<Rightarrow> nat \<Rightarrow> u8 list list \<Rightarrow> u64" where
  "name_tag_of nm off [] = - 1"
| "name_tag_of nm off (s # ss) =
     (if s = nm then push_bit 48 (of_nat (length s)) OR of_nat off
      else name_tag_of nm (off + (length s + 1)) ss)"

lemma name_block_simps [simp]:
  "name_block [] = []" "name_block (s # ss) = s @ 0 # name_block ss"
  "name_block (xs @ ys) = name_block xs @ name_block ys"
  by (auto simp: name_block_def)

lemma md_match_string_block:
  assumes "0 \<notin> set s" "0 \<notin> set nm"
  shows "i \<le> length s \<Longrightarrow> i \<le> length nm \<Longrightarrow> take i s = take i nm \<Longrightarrow>
    \<exists>k \<le> length s. md_match_string nm (pre @ s @ 0 # post) (length pre) i =
      Inr (if s = nm then (length s, True) else (k, False))"
proof (induction "length s - i" arbitrary: i)
  case 0
  then have i: "i = length s" by simp
  show ?case
  proof (cases "i = length nm")
    case True
    with 0 i have "s = nm" by simp
    with i show ?thesis by (subst md_match_string.simps) (auto simp: nth_append)
  next
    case False
    with 0 i have "i < length nm" "s \<noteq> nm" by auto
    moreover from \<open>i < length nm\<close> assms(2) have "nm ! i \<noteq> 0" by (metis nth_mem)
    ultimately show ?thesis
      using i by (subst md_match_string.simps) (auto simp: nth_append Let_def)
  qed
next
  case (Suc m)
  then have i: "i < length s" by simp
  then have si: "s ! i \<noteq> 0" using assms(1) by (metis nth_mem)
  show ?case
  proof (cases "i < length nm \<and> nm ! i = s ! i")
    case True
    then have "take (Suc i) s = take (Suc i) nm" using Suc.prems i by (simp add: take_Suc_conv_app_nth)
    with Suc.hyps(1) [of "Suc i"] Suc.hyps(2) True i obtain k where
      "k \<le> length s" "md_match_string nm (pre @ s @ 0 # post) (length pre) (Suc i) =
        Inr (if s = nm then (length s, True) else (k, False))" by fastforce
    then show ?thesis using True i si
      by (subst md_match_string.simps) (auto simp: nth_append)
  next
    case False
    then have ne: "s \<noteq> nm" using i by auto
    have ch: "(nm @ [0]) ! i \<noteq> s ! i" using False si Suc.prems(2) by (auto simp: nth_append)
    then show ?thesis using ne i Suc.prems(2)
      by (subst md_match_string.simps) (auto simp: nth_append Let_def intro!: exI [of _ i])
  qed
qed

lemma md_skip_string_block:
  assumes "0 \<notin> set s"
  shows "i \<le> length s \<Longrightarrow> md_skip_string (pre @ s @ 0 # post) (length pre) i = Inr (length s)"
proof (induction "length s - i" arbitrary: i)
  case 0
  then show ?case by (subst md_skip_string.simps) (simp add: nth_append)
next
  case (Suc m)
  then have "i < length s" by simp
  then have "s ! i \<noteq> 0" using assms by (metis nth_mem)
  with Suc \<open>i < length s\<close> show ?case by (subst md_skip_string.simps) (simp add: nth_append)
qed

lemma md_find_name_tag_from_block:
  assumes "\<forall>s\<in>set ss. 0 \<notin> set s" "0 \<notin> set nm"
  shows "md_find_name_tag_from nm (pre @ name_block ss @ post) (int (length (pre @ name_block ss))) (length pre)
    = Inr (name_tag_of nm (length pre) ss)"
  using assms(1)
proof (induction ss arbitrary: pre)
  case Nil
  then show ?case by (subst md_find_name_tag_from.simps) simp
next
  case (Cons s ss)
  then have s: "0 \<notin> set s" by simp
  define tab where "tab = pre @ s @ 0 # (name_block ss @ post)"
  obtain k where k: "k \<le> length s" and
    m: "md_match_string nm tab (length pre) 0 = Inr (if s = nm then (length s, True) else (k, False))"
    using md_match_string_block [OF s assms(2), of 0 pre "name_block ss @ post"] unfolding tab_def by auto
  have sk: "md_skip_string tab (length pre) k = Inr (length s)"
    using md_skip_string_block [OF s k] unfolding tab_def by simp
  show ?case
    using Cons.IH [of "pre @ s @ [0]"] Cons.prems m sk
    by (subst md_find_name_tag_from.simps) (simp add: tab_def)
qed

lemma of_char_eq_0_iff: "(of_char c :: u8) = 0 \<longleftrightarrow> c = CHR 0x00"
proof -
  have "(of_char c :: u8) = of_nat (of_char c)" by (rule of_nat_of_char [symmetric])
  also have "\<dots> = 0 \<longleftrightarrow> (of_char c :: nat) = of_char (CHR 0x00)"
  proof -
    have "(of_char c :: nat) = 0" if "256 dvd (of_char c :: nat)"
      using that nat_of_char_less_256 [of c] by (meson gr0I nat_dvd_not_less)
    then show ?thesis by (auto simp: word_of_nat_eq_0_iff)
  qed
  finally show ?thesis by (simp only: of_char_eq_iff)
qed

text \<open>
  The layout \<open>md_find_name_tag\<close> expects of a string table: the strings of
  \<open>names\<close>, of a total size the header gives, and whatever the data block holds
  after them.
\<close>

definition md_has_names :: "bin_md \<Rightarrow> u8 list list \<Rightarrow> bool" where
  "md_has_names md names \<longleftrightarrow> (\<forall>s\<in>set names. 0 \<notin> set s) \<and>
     (\<exists>data. str_tab md = name_block names @ data) \<and>
     sint (name_blk_sz md) = int (length (name_block names))"

lemma md_find_name_tag_names:
  assumes "md_has_names md names" "CHR 0x00 \<notin> set nm"
  shows "md_find_name_tag md nm = Inr (name_tag_of (cstring nm) 0 names)"
proof -
  from assms obtain data where "str_tab md = name_block names @ data"
    "\<forall>s\<in>set names. 0 \<notin> set s" "sint (name_blk_sz md) = int (length (name_block names))"
    by (auto simp: md_has_names_def)
  moreover have "0 \<notin> set (cstring nm)" using assms(2) by (auto simp: cstring_def of_char_eq_0_iff)
  ultimately show ?thesis
    using md_find_name_tag_from_block [of names "cstring nm" "[]" data] by (simp add: md_find_name_tag_def)
qed

text \<open>
  The token built from a tag picks exactly the elements of the given kind whose
  name field and length are those of the name.
\<close>

lemma rawp_fields:
  "(ucast (drop_bit 56 (rawp e)) :: u8) = me_tag e"
  "(ucast (drop_bit 48 (rawp e)) :: u8) = me_namelen e"
  "(ucast (drop_bit 32 (rawp e)) :: u16) = me_pad e"
  "(ucast (rawp e) :: u32) = me_name e"
  by (rule bit_word_eqI, auto simp: rawp_def bit_simps dest: bit_imp_le_length)+

lemma rawp_inject:
  "rawp e = rawp e' \<longleftrightarrow> me_tag e = me_tag e' \<and> me_namelen e = me_namelen e' \<and>
     me_pad e = me_pad e' \<and> me_name e = me_name e'"
  by (metis rawp_def rawp_fields)

lemma ucast_of_nat_small:
  "n < 2 ^ LENGTH('b) \<Longrightarrow> (ucast (of_nat n :: 'b::len word) :: 'a::len word) = of_nat n"
  by (simp add: unsigned_of_nat take_bit_nat_eq_self)

lemma rawp_eq_token:
  assumes "l < 2 ^ 8" "off < 2 ^ 32"
  shows "rawp e = (push_bit 48 (of_nat l) OR of_nat off) OR push_bit 56 (ucast (tg :: u8)) \<longleftrightarrow>
     me_tag e = tg \<and> me_namelen e = of_nat l \<and> me_pad e = 0 \<and> me_name e = of_nat off"
proof -
  have "(push_bit 48 (of_nat l) OR of_nat off) OR push_bit 56 (ucast tg) =
      rawp \<lparr> me_tag = tg, me_namelen = of_nat l, me_pad = 0, me_name = of_nat off, me_d = 0 \<rparr>"
    using assms by (simp add: rawp_def ucast_of_nat_small or.assoc or.commute or.left_commute)
  then show ?thesis by (simp add: rawp_inject)
qed

end
