(* ===== verification/Hv_State.thy ===== *)
theory Hv_State
  imports Md
begin

text \<open>
  The state the hypervisor's C code works on: one record per C structure
  (\<open>guest.h\<close>, \<open>vcpu.h\<close>, \<open>memory.h\<close>, \<open>segments.h\<close>, \<open>ldc.h\<close>, \<open>vdev_console.h\<close>,
  \<open>vdev_intr.h\<close>, \<open>mau.h\<close>, \<open>strand.h\<close>, \<open>config.h\<close>) with the fields the modelled
  code reads or writes, at their C widths.  Field names carry a prefix that
  says which structure they belong to, \<open>pip\<close> structures (what a machine
  description asks for, before it is committed) are records of their own.

  Arrays are functions on indices; the operations check the index wherever the
  C code takes it from data it has not validated.  A pointer into one of the
  global arrays is the index of its target, NULL is \<open>None\<close>.
  \<open>config\<close> is the one global \<open>config\<close> together with the arrays it points to
  and what the assembler layer is asked to send.
\<close>

subsection \<open>Constants\<close>

definition NSTRANDS :: nat where "NSTRANDS = 32"
definition NSTRANDS_PER_CORE :: nat where "NSTRANDS_PER_CORE = 4"
definition NGUESTS :: nat where "NGUESTS = 32"
definition NVCPUS :: nat where "NVCPUS = 32"
definition NMAUS :: nat where "NMAUS = 8"
definition MAX_LDC_CHANNELS :: nat where "MAX_LDC_CHANNELS = 256"
definition MAX_LDC_INOS :: nat where "MAX_LDC_INOS = 512"
definition MAX_HV_LDC_CHANNELS :: nat where "MAX_HV_LDC_CHANNELS = 1"
definition LDC_NUM_MAPINS :: nat where "LDC_NUM_MAPINS = 4096"
definition RA2PA_SHIFT :: nat where "RA2PA_SHIFT = 34"
definition NUM_RA2PA_SEGMENTS :: nat where "NUM_RA2PA_SEGMENTS = 64"
definition NMBLOCKS :: nat where "NMBLOCKS = NUM_RA2PA_SEGMENTS * NGUESTS"
definition NDEVIDS :: nat where "NDEVIDS = 32"
definition NINOSPERDEV :: nat where "NINOSPERDEV = 64"
definition NVINOS :: nat where "NVINOS = NINOSPERDEV * NDEVIDS"
definition NUM_VINTRS :: nat where "NUM_VINTRS = 64"
definition DEVCFGPA_SHIFT :: nat where "DEVCFGPA_SHIFT = 6"
definition NUM_API_GROUPS :: nat where "NUM_API_GROUPS = 12"
definition NUM_API_CALLS :: nat where "NUM_API_CALLS = 0x205"

lemmas hv_sizes = NSTRANDS_def NSTRANDS_PER_CORE_def NGUESTS_def NVCPUS_def NMAUS_def
  MAX_LDC_CHANNELS_def MAX_LDC_INOS_def MAX_HV_LDC_CHANNELS_def LDC_NUM_MAPINS_def
  RA2PA_SHIFT_def NUM_RA2PA_SEGMENTS_def NMBLOCKS_def NDEVIDS_def NINOSPERDEV_def NVINOS_def
  NUM_VINTRS_def DEVCFGPA_SHIFT_def

definition RESF_Noop :: u8 where "RESF_Noop = 0"
definition RESF_Unconfig :: u8 where "RESF_Unconfig = 1"
definition RESF_Config :: u8 where "RESF_Config = 2"
definition RESF_Rebind :: u8 where "RESF_Rebind = 3"
definition RESF_Modify :: u8 where "RESF_Modify = 4"

lemmas resf_defs = RESF_Noop_def RESF_Unconfig_def RESF_Config_def RESF_Rebind_def RESF_Modify_def

lemma resf_distinct [simp]:
  "RESF_Noop \<noteq> RESF_Unconfig" "RESF_Noop \<noteq> RESF_Config" "RESF_Noop \<noteq> RESF_Rebind" "RESF_Noop \<noteq> RESF_Modify"
  "RESF_Unconfig \<noteq> RESF_Noop" "RESF_Unconfig \<noteq> RESF_Config" "RESF_Unconfig \<noteq> RESF_Rebind" "RESF_Unconfig \<noteq> RESF_Modify"
  "RESF_Config \<noteq> RESF_Noop" "RESF_Config \<noteq> RESF_Unconfig" "RESF_Config \<noteq> RESF_Rebind" "RESF_Config \<noteq> RESF_Modify"
  "RESF_Rebind \<noteq> RESF_Noop" "RESF_Rebind \<noteq> RESF_Unconfig" "RESF_Rebind \<noteq> RESF_Config" "RESF_Rebind \<noteq> RESF_Modify"
  "RESF_Modify \<noteq> RESF_Noop" "RESF_Modify \<noteq> RESF_Unconfig" "RESF_Modify \<noteq> RESF_Config" "RESF_Modify \<noteq> RESF_Rebind"
  by (simp_all add: resf_defs)

definition GUEST_STATE_STOPPED :: u32 where "GUEST_STATE_STOPPED = 0"
definition GUEST_STATE_RESETTING :: u32 where "GUEST_STATE_RESETTING = 1"
definition GUEST_STATE_NORMAL :: u32 where "GUEST_STATE_NORMAL = 2"
definition GUEST_STATE_SUSPENDED :: u32 where "GUEST_STATE_SUSPENDED = 3"
definition GUEST_STATE_EXITING :: u32 where "GUEST_STATE_EXITING = 4"
definition GUEST_STATE_UNCONFIGURED :: u32 where "GUEST_STATE_UNCONFIGURED = 0xff"

lemmas guest_states = GUEST_STATE_STOPPED_def GUEST_STATE_RESETTING_def GUEST_STATE_NORMAL_def
  GUEST_STATE_SUSPENDED_def GUEST_STATE_EXITING_def GUEST_STATE_UNCONFIGURED_def

definition CPU_STATE_INVALID :: u64 where "CPU_STATE_INVALID = 0"
definition CPU_STATE_STOPPED :: u64 where "CPU_STATE_STOPPED = 1"
definition CPU_STATE_RUNNING :: u64 where "CPU_STATE_RUNNING = 2"
definition CPU_STATE_ERROR :: u64 where "CPU_STATE_ERROR = 3"
definition CPU_STATE_SUSPENDED :: u64 where "CPU_STATE_SUSPENDED = 4"
definition CPU_STATE_UNCONFIGURED :: u64 where "CPU_STATE_UNCONFIGURED = 5"
definition CPU_STATE_STOPPING :: u64 where "CPU_STATE_STOPPING = 6"
definition CPU_STATE_STARTING :: u64 where "CPU_STATE_STARTING = 7"

lemmas cpu_states = CPU_STATE_INVALID_def CPU_STATE_STOPPED_def CPU_STATE_RUNNING_def
  CPU_STATE_ERROR_def CPU_STATE_SUSPENDED_def CPU_STATE_UNCONFIGURED_def
  CPU_STATE_STOPPING_def CPU_STATE_STARTING_def

definition MBLOCK_STATE_UNCONFIGURED :: u32 where "MBLOCK_STATE_UNCONFIGURED = 0"
definition MBLOCK_STATE_CONFIGURED :: u32 where "MBLOCK_STATE_CONFIGURED = 1"
definition INVALID_SEGMENT :: u8 where "INVALID_SEGMENT = 0"
definition MEM_SEGMENT :: u8 where "MEM_SEGMENT = 1"
definition IO_SEGMENT :: u8 where "IO_SEGMENT = 2"
definition INVALID_CFGHANDLE :: u64 where "INVALID_CFGHANDLE = 0xdeadbeef"
definition INVALID_GID :: u64 where "INVALID_GID = - 1"
definition DEVOPS_RESERVED :: u8 where "DEVOPS_RESERVED = 0"
definition DEVOPS_VDEV :: u8 where "DEVOPS_VDEV = 9"
definition DEVOPS_CDEV :: u8 where "DEVOPS_CDEV = 10"
definition CONS_TYPE_UNCONFIG :: u8 where "CONS_TYPE_UNCONFIG = 0"
definition CONS_TYPE_LDC :: u8 where "CONS_TYPE_LDC = 1"
definition CONS_TYPE_UART :: u8 where "CONS_TYPE_UART = 2"
definition LDC_GUEST_ENDPOINT :: u64 where "LDC_GUEST_ENDPOINT = 0"
definition LDC_HV_ENDPOINT :: u64 where "LDC_HV_ENDPOINT = 1"
definition LDC_SP_ENDPOINT :: u64 where "LDC_SP_ENDPOINT = 2"
definition LDC_HVCTL_SVC :: u64 where "LDC_HVCTL_SVC = 1"
definition LDC_CONSOLE_SVC :: u64 where "LDC_CONSOLE_SVC = 2"
definition MAU_STATE_UNCONFIGURED :: u64 where "MAU_STATE_UNCONFIGURED = 0"
definition MAU_STATE_RUNNING :: u64 where "MAU_STATE_RUNNING = 1"
definition MAU_STATE_ERROR :: u64 where "MAU_STATE_ERROR = 0xF"

subsection \<open>Memory\<close>

record ra2pa_segment =
  seg_base :: u64
  seg_limit :: u64
  seg_offset :: u64
  seg_flags :: u8

record mblock_pip =
  mbp_flags :: u8
  mbp_guestid :: u32
  mbp_membase :: u64
  mbp_memsize :: u64
  mbp_realbase :: u64

record mblock =
  mb_pip :: mblock_pip
  mb_membase :: u64
  mb_memsize :: u64
  mb_realbase :: u64
  mb_guestid :: u32
  mb_state :: u32

subsection \<open>LDC endpoints, consoles, interrupt mapping registers\<close>

record ldce_parse =
  lp_flags :: u8
  lp_svc_id :: u8
  lp_is_private :: u8
  lp_target_type :: u8
  lp_target_channel :: u16
  lp_channel :: u16
  lp_tx_ino :: u16
  lp_rx_ino :: u16
  lp_target_guestp :: "nat option"

text \<open>\<open>le_tx_ino\<close> and \<open>le_rx_ino\<close> are the \<open>ino\<close> fields of \<open>tx_mapreg\<close> and \<open>rx_mapreg\<close>, \<open>le_rx_pcpup\<close> is
  the vcpu \<open>rx_mapreg.pcpup\<close> points to.\<close>

record ldc_endpoint =
  le_channel_idx :: u8
  le_is_live :: u8
  le_is_private :: u8
  le_svc_id :: u8
  le_rx_updated :: u8
  le_tx_qbase_ra :: u64
  le_tx_qbase_pa :: u64
  le_tx_qsize :: u64
  le_tx_qhead :: u32
  le_tx_qtail :: u32
  le_tx_ino :: u64
  le_rx_qbase_ra :: u64
  le_rx_qbase_pa :: u64
  le_rx_qsize :: u64
  le_rx_qhead :: u32
  le_rx_qtail :: u32
  le_rx_cb_hvctl :: bool
  le_rx_ino :: u64
  le_rx_pcpup :: "nat option"
  le_rx_vintr_cookie :: "nat option"
  le_target_type :: u8
  le_target_guest :: "nat option"
  le_target_channel :: u64
  le_pip :: ldce_parse

text \<open>
  An entry of \<open>ldc_ino2endpoint\<close>: the channel its endpoint has, and the mapping
  register, which is the transmit or the receive register of a channel.
\<close>

datatype ldc_mapreg_ref = Tx_mapreg nat | Rx_mapreg nat

record ldc_ino2endpoint =
  ie_endpointp :: "nat option"
  ie_mapregp :: "ldc_mapreg_ref option"

record ldc_mapin =
  mi_pa :: u64
  mi_perms :: u8

record vdev_mapreg =
  mr_state :: u8
  mr_valid :: u8
  mr_ino :: u8

record console_pip =
  cp_flags :: u8
  cp_type :: u8
  cp_ino :: u8
  cp_ldc_channel :: "32 word"
  cp_uartbase :: u64

record console =
  cons_type :: u8
  cons_pip :: console_pip
  cons_uartbase :: u64
  cons_status :: u8
  cons_endpt :: u64
  cons_in_head :: u64
  cons_in_tail :: u64
  cons_vintr_mapreg :: "nat option"

subsection \<open>Guests\<close>

record guest_parse_info =
  gp_flags :: u8
  gp_rom_base :: u64
  gp_rom_size :: u64
  gp_real_base :: u64
  gp_md_pa :: u64
  gp_uartbase :: u64
  gp_diskpa :: u64
  gp_snet_pa :: u64
  gp_snet_ino :: u64
  gp_reset_reason :: u64
  gp_perfreg_accessible :: u64
  gp_diagpriv :: u64
  gp_tod_offset :: u64
  gp_vdev_cfghandle :: u64
  gp_cdev_cfghandle :: u64
  gp_real_limit :: u64
  gp_mem_offset :: u64

record guest =
  g_guestid :: u64
  g_state :: u32
  g_soft_state :: u8
  g_soft_state_str :: "nat \<Rightarrow> u8"
  g_real_base :: u64
  g_real_limit :: u64
  g_mem_offset :: u64
  g_ra2pa_segment :: "nat \<Rightarrow> ra2pa_segment"
  g_ldc_mapin_basera :: u64
  g_ldc_mapin_size :: u64
  g_perm_mappings :: "nat \<Rightarrow> u64 \<times> u64"
  g_console :: console
  g_tod_offset :: u64
  g_vcpus :: "nat \<Rightarrow> nat option"
  g_maus :: "nat \<Rightarrow> nat option"
  g_api_version_num :: "nat \<Rightarrow> u64"
  g_hcall_table :: u64
  g_dev2inst :: "nat \<Rightarrow> u8"
  g_vino2inst :: "nat \<Rightarrow> u8"
  g_mapreg :: "nat \<Rightarrow> vdev_mapreg"
  g_md_pa :: u64
  g_md_size :: u64
  g_entry :: u64
  g_rom_base :: u64
  g_rom_size :: u64
  g_perfreg_accessible :: u64
  g_diagpriv :: u64
  g_reset_reason :: u64
  g_perfreght_accessible :: u64
  g_rng_ctl_accessible :: u64
  g_disk_pa :: u64
  g_disk_size :: u64
  g_snet_ino :: u64
  g_snet_pa :: u64
  g_ldc_max_channel_idx :: u64
  g_ldc_mapin_free_idx :: u64
  g_ldc_endpoint :: "nat \<Rightarrow> ldc_endpoint"
  g_ldc_mapin :: "nat \<Rightarrow> ldc_mapin"
  g_ldc_ino2endpoint :: "nat \<Rightarrow> ldc_ino2endpoint"
  g_pip :: guest_parse_info
  g_async_busy :: "nat \<Rightarrow> u8"
  g_async_buf_op :: u16
  g_start_stick :: u64
  g_stick_last :: u64
  g_vdev_cfghandle :: u64
  g_cdev_cfghandle :: u64

subsection \<open>Virtual cpus\<close>

record trapstate =
  ts_tpc :: u64
  ts_tnpc :: u64
  ts_tstate :: u64
  ts_tt :: u64
  ts_htstate :: u64

record vcpustate =
  vs_tl :: u64
  vs_trapstack :: "nat \<Rightarrow> trapstate"
  vs_gl :: u64
  vs_tba :: u64
  vs_asi :: u64
  vs_softint :: u64
  vs_pil :: u64
  vs_cwp :: u64
  vs_wstate :: u64
  vs_cansave :: u64
  vs_canrestore :: u64
  vs_otherwin :: u64
  vs_cleanwin :: u64

text \<open>The \<open>int\<close> fields of \<open>vcpu_parse_info_t\<close> are 32-bit words.\<close>

record vcpu_parse_info =
  vp_flags :: u8
  vp_strand_id :: u32
  vp_vid :: u32
  vp_guestid :: u32
  vp_parttag :: u32

record vcpu_util =
  vu_stick_last :: u64
  vu_yield_count :: u64
  vu_yield_start :: u64
  vu_last_yield_count_guest :: u64
  vu_last_yield_count_vcpu :: u64

record vcpu =
  v_guest :: "nat option"
  v_strand :: "nat option"
  v_res_id :: u32
  v_strand_slot :: u8
  v_vid :: u8
  v_parttag :: u8
  v_status :: u64
  v_pip :: vcpu_parse_info
  v_command :: u64
  v_start_pc :: u64
  v_start_arg :: u64
  v_rtba :: u64
  v_mmu_area :: u64
  v_mmu_area_ra :: u64
  v_cpuq_size :: u64
  v_cpuq_base_ra :: u64
  v_devq_size :: u64
  v_devq_base_ra :: u64
  v_devq_lock :: u64
  v_errqnr_size :: u64
  v_errqnr_base_ra :: u64
  v_errqr_size :: u64
  v_errqr_base_ra :: u64
  v_ttrace_buf_size :: u64
  v_ttrace_buf_ra :: u64
  v_ntsbs_ctx0 :: u64
  v_ntsbs_ctxn :: u64
  v_mmustat_area :: u64
  v_mmustat_area_ra :: u64
  v_maup :: "nat option"
  v_cwqp :: "nat option"
  v_state_save_area :: vcpustate
  v_launch_with_retry :: u8
  v_start_stick :: u64
  v_util :: vcpu_util

subsection \<open>Crypto units\<close>

record mau_parse_info =
  mp_flags :: u8
  mp_pid :: u32
  mp_ino :: u32
  mp_guestid :: u32
  mp_cpuset :: u64

record mau_queue =
  mq_base_ra :: u64
  mq_base :: u64
  mq_end :: u64
  mq_head :: u64
  mq_tail :: u64
  mq_nentries :: u64
  mq_busy :: u64

record mau =
  mau_pid :: u64
  mau_state :: u64
  mau_handle :: u64
  mau_ino :: u64
  mau_cpuset :: u64
  mau_cpu_active :: "nat \<Rightarrow> u8"
  mau_queue :: mau_queue
  mau_guest :: "nat option"
  mau_res_id :: u32
  mau_pip :: mau_parse_info

subsection \<open>Strands, messages and the global configuration\<close>

record sched_slot =
  sl_action :: u64
  sl_arg :: "nat option"

definition SLOT_ACTION_NOP :: u64 where "SLOT_ACTION_NOP = 0"
definition SLOT_ACTION_RUN_VCPU :: u64 where "SLOT_ACTION_RUN_VCPU = 1"

record strand =
  st_id :: u8
  st_current_slot :: u16
  st_slot :: "nat \<Rightarrow> sched_slot"
  st_err_seq_no :: u64
  st_io_prot :: u64
  st_io_error :: u64

text \<open>The cross-call messages between strands, with the vcpu or guest they are about.\<close>

datatype hvm =
    HXCMD_SCHED_VCPU nat
  | HXCMD_STOP_VCPU nat
  | HXCMD_GUEST_PANIC nat
  | HXCMD_STOP_GUEST nat

text \<open>
  A hypervisor control message: the header, and the payload union as its
  32-bit cells, every member of which starts at a cell boundary.
\<close>

record hvctl_msg =
  m_op :: u16
  m_seqn :: u16
  m_chksum :: u16
  m_status :: u16
  m_body :: "nat \<Rightarrow> u32"

text \<open>What \<open>config_basics\<close> reads from the root node of the machine description.\<close>

record hv_basics =
  hb_hvuart_addr :: u64
  hb_tod :: u64
  hb_todfrequency :: u64
  hb_stickfrequency :: u64
  hb_cyclic_maxd :: u64
  hb_sys_hwtw_mode :: u64
  hb_ce_poll_time :: u64
  hb_ce_blackout :: u64
  hb_guests_dtnode :: "nat option"
  hb_cpus_dtnode :: "nat option"
  hb_hv_ldcs_dtnode :: "nat option"
  hb_devs_dtnode :: "nat option"
  hb_erpt_pa :: u64
  hb_erpt_size :: u64
  hb_ignore_plx_link_hack :: u64
  hb_memscrub_max :: u64
  hb_debug_flags :: u64

text \<open>
  \<open>cfg_md_mem\<close> is the memory that holds machine descriptions, by address;
  \<open>cfg_hcall_tables\<close> and \<open>cfg_cons_queues\<close> are the addresses the linker gives to
  the arrays of these names, \<open>cfg_herr_badtrap\<close> that of the routine, and
  \<open>cfg_hcall_mem\<close> the memory of the hypercall tables.  \<open>cfg_mondo_log\<close> and
  \<open>cfg_ldc_log\<close> are the messages handed to \<open>c_hvmondo_send\<close> and
  \<open>c_hvldc_send\<close>, oldest first.
\<close>

record config =
  cfg_membase :: u64
  cfg_memsize :: u64
  cfg_active_hvmd :: u64
  cfg_parse_hvmd :: u64
  cfg_md_mem :: "u64 \<Rightarrow> bin_md option"
  cfg_hdnametable :: "string \<Rightarrow> u64"
  cfg_guests :: "nat \<Rightarrow> guest"
  cfg_mblocks :: "nat \<Rightarrow> mblock"
  cfg_vcpus :: "nat \<Rightarrow> vcpu"
  cfg_strands :: "nat \<Rightarrow> strand"
  cfg_hv_ldcs :: "nat \<Rightarrow> ldc_endpoint"
  cfg_maus :: "nat \<Rightarrow> mau"
  cfg_strand_startset :: u64
  cfg_strand_active :: u64
  cfg_hvctl_state :: u8
  cfg_hvctl_hv_seq :: u16
  cfg_hvctl_zeus_seq :: u16
  cfg_hvctl_rand_num :: u64
  cfg_hvctl_obuf :: hvctl_msg
  cfg_hvctl_ldc :: u64
  cfg_del_reconf_gid :: u64
  cfg_del_reconf_lock :: bool
  cfg_basics :: hv_basics
  cfg_hcall_tables :: u64
  cfg_herr_badtrap :: u64
  cfg_hcall_mem :: "u64 \<Rightarrow> u64"
  cfg_cons_queues :: u64
  cfg_mondo_log :: "(nat \<times> hvm) list"
  cfg_ldc_log :: "(u64 \<times> hvctl_msg) list"

text \<open>\<open>MDNAME\<close>: the tag the last \<open>preparse_hvmd\<close> found for a name.\<close>

abbreviation MDNAME :: "config \<Rightarrow> string \<Rightarrow> u64" where
  "MDNAME c nm \<equiv> cfg_hdnametable c nm"

subsection \<open>Updating one element of a global array\<close>

definition upd_guest :: "nat \<Rightarrow> (guest \<Rightarrow> guest) \<Rightarrow> config \<Rightarrow> config" where
  "upd_guest i f c = c\<lparr> cfg_guests := (cfg_guests c)(i := f (cfg_guests c i)) \<rparr>"

definition upd_mblock :: "nat \<Rightarrow> (mblock \<Rightarrow> mblock) \<Rightarrow> config \<Rightarrow> config" where
  "upd_mblock i f c = c\<lparr> cfg_mblocks := (cfg_mblocks c)(i := f (cfg_mblocks c i)) \<rparr>"

definition upd_vcpu :: "nat \<Rightarrow> (vcpu \<Rightarrow> vcpu) \<Rightarrow> config \<Rightarrow> config" where
  "upd_vcpu i f c = c\<lparr> cfg_vcpus := (cfg_vcpus c)(i := f (cfg_vcpus c i)) \<rparr>"

definition upd_strand :: "nat \<Rightarrow> (strand \<Rightarrow> strand) \<Rightarrow> config \<Rightarrow> config" where
  "upd_strand i f c = c\<lparr> cfg_strands := (cfg_strands c)(i := f (cfg_strands c i)) \<rparr>"

definition upd_hv_ldc :: "nat \<Rightarrow> (ldc_endpoint \<Rightarrow> ldc_endpoint) \<Rightarrow> config \<Rightarrow> config" where
  "upd_hv_ldc i f c = c\<lparr> cfg_hv_ldcs := (cfg_hv_ldcs c)(i := f (cfg_hv_ldcs c i)) \<rparr>"

definition upd_mau :: "nat \<Rightarrow> (mau \<Rightarrow> mau) \<Rightarrow> config \<Rightarrow> config" where
  "upd_mau i f c = c\<lparr> cfg_maus := (cfg_maus c)(i := f (cfg_maus c i)) \<rparr>"

definition upd_ldc :: "nat \<Rightarrow> (ldc_endpoint \<Rightarrow> ldc_endpoint) \<Rightarrow> guest \<Rightarrow> guest" where
  "upd_ldc j f g = g\<lparr> g_ldc_endpoint := (g_ldc_endpoint g)(j := f (g_ldc_endpoint g j)) \<rparr>"

lemmas upd_defs = upd_guest_def upd_mblock_def upd_vcpu_def upd_strand_def upd_hv_ldc_def
  upd_mau_def upd_ldc_def

lemma upd_as_map:
  "upd_guest i f = cfg_guests_update (\<lambda>a. a(i := f (a i)))"
  "upd_mblock i f' = cfg_mblocks_update (\<lambda>a. a(i := f' (a i)))"
  "upd_vcpu i h = cfg_vcpus_update (\<lambda>a. a(i := h (a i)))"
  "upd_hv_ldc i h' = cfg_hv_ldcs_update (\<lambda>a. a(i := h' (a i)))"
  "upd_mau i k = cfg_maus_update (\<lambda>a. a(i := k (a i)))"
  by (simp_all add: upd_defs fun_eq_iff)

lemma update_compose:
  "cfg_guests_update p (cfg_guests_update q c) = cfg_guests_update (\<lambda>a. p (q a)) c"
  "cfg_mblocks_update p' (cfg_mblocks_update q' c) = cfg_mblocks_update (\<lambda>a. p' (q' a)) c"
  "cfg_vcpus_update h (cfg_vcpus_update j c) = cfg_vcpus_update (\<lambda>a. h (j a)) c"
  "cfg_hv_ldcs_update h' (cfg_hv_ldcs_update j' c) = cfg_hv_ldcs_update (\<lambda>a. h' (j' a)) c"
  "cfg_maus_update k (cfg_maus_update l c) = cfg_maus_update (\<lambda>a. k (l a)) c"
  "cfg_guests_update (\<lambda>a. a) c = c" "cfg_mblocks_update (\<lambda>a. a) c = c" "cfg_vcpus_update (\<lambda>a. a) c = c"
  "cfg_hv_ldcs_update (\<lambda>a. a) c = c" "cfg_maus_update (\<lambda>a. a) c = c"
  by (cases c; simp)+

subsection \<open>Zeroed structures, as \<open>c_bzero\<close> leaves them\<close>

definition ra2pa_segment_zero :: ra2pa_segment where
  "ra2pa_segment_zero = \<lparr> seg_base = 0, seg_limit = 0, seg_offset = 0, seg_flags = 0 \<rparr>"

definition ldce_parse_zero :: ldce_parse where
  "ldce_parse_zero = \<lparr> lp_flags = 0, lp_svc_id = 0, lp_is_private = 0, lp_target_type = 0,
     lp_target_channel = 0, lp_channel = 0, lp_tx_ino = 0, lp_rx_ino = 0, lp_target_guestp = None \<rparr>"

definition ldc_endpoint_zero :: ldc_endpoint where
  "ldc_endpoint_zero = \<lparr> le_channel_idx = 0, le_is_live = 0, le_is_private = 0, le_svc_id = 0,
     le_rx_updated = 0, le_tx_qbase_ra = 0, le_tx_qbase_pa = 0, le_tx_qsize = 0, le_tx_qhead = 0,
     le_tx_qtail = 0, le_tx_ino = 0, le_rx_qbase_ra = 0, le_rx_qbase_pa = 0, le_rx_qsize = 0,
     le_rx_qhead = 0, le_rx_qtail = 0, le_rx_cb_hvctl = False, le_rx_ino = 0, le_rx_pcpup = None,
     le_rx_vintr_cookie = None, le_target_type = 0, le_target_guest = None, le_target_channel = 0,
     le_pip = ldce_parse_zero \<rparr>"

definition console_zero :: console where
  "console_zero = \<lparr> cons_type = 0,
     cons_pip = \<lparr> cp_flags = 0, cp_type = 0, cp_ino = 0, cp_ldc_channel = 0, cp_uartbase = 0 \<rparr>,
     cons_uartbase = 0, cons_status = 0, cons_endpt = 0, cons_in_head = 0, cons_in_tail = 0,
     cons_vintr_mapreg = None \<rparr>"

definition guest_parse_info_zero :: guest_parse_info where
  "guest_parse_info_zero = \<lparr> gp_flags = 0, gp_rom_base = 0, gp_rom_size = 0, gp_real_base = 0,
     gp_md_pa = 0, gp_uartbase = 0, gp_diskpa = 0, gp_snet_pa = 0, gp_snet_ino = 0,
     gp_reset_reason = 0, gp_perfreg_accessible = 0, gp_diagpriv = 0, gp_tod_offset = 0,
     gp_vdev_cfghandle = 0, gp_cdev_cfghandle = 0, gp_real_limit = 0, gp_mem_offset = 0 \<rparr>"

definition guest_zero :: guest where
  "guest_zero = \<lparr> g_guestid = 0, g_state = 0, g_soft_state = 0, g_soft_state_str = (\<lambda>_. 0),
     g_real_base = 0, g_real_limit = 0, g_mem_offset = 0,
     g_ra2pa_segment = (\<lambda>_. ra2pa_segment_zero), g_ldc_mapin_basera = 0, g_ldc_mapin_size = 0,
     g_perm_mappings = (\<lambda>_. (0, 0)), g_console = console_zero, g_tod_offset = 0,
     g_vcpus = (\<lambda>_. None), g_maus = (\<lambda>_. None), g_api_version_num = (\<lambda>_. 0), g_hcall_table = 0,
     g_dev2inst = (\<lambda>_. 0), g_vino2inst = (\<lambda>_. 0),
     g_mapreg = (\<lambda>_. \<lparr> mr_state = 0, mr_valid = 0, mr_ino = 0 \<rparr>), g_md_pa = 0, g_md_size = 0,
     g_entry = 0, g_rom_base = 0, g_rom_size = 0, g_perfreg_accessible = 0, g_diagpriv = 0,
     g_reset_reason = 0, g_perfreght_accessible = 0, g_rng_ctl_accessible = 0, g_disk_pa = 0,
     g_disk_size = 0, g_snet_ino = 0, g_snet_pa = 0, g_ldc_max_channel_idx = 0,
     g_ldc_mapin_free_idx = 0, g_ldc_endpoint = (\<lambda>_. ldc_endpoint_zero),
     g_ldc_mapin = (\<lambda>_. \<lparr> mi_pa = 0, mi_perms = 0 \<rparr>),
     g_ldc_ino2endpoint = (\<lambda>_. \<lparr> ie_endpointp = None, ie_mapregp = None \<rparr>),
     g_pip = guest_parse_info_zero, g_async_busy = (\<lambda>_. 0), g_async_buf_op = 0,
     g_start_stick = 0, g_stick_last = 0, g_vdev_cfghandle = 0, g_cdev_cfghandle = 0 \<rparr>"

definition trapstate_zero :: trapstate where
  "trapstate_zero = \<lparr> ts_tpc = 0, ts_tnpc = 0, ts_tstate = 0, ts_tt = 0, ts_htstate = 0 \<rparr>"

definition vcpustate_zero :: vcpustate where
  "vcpustate_zero = \<lparr> vs_tl = 0, vs_trapstack = (\<lambda>_. trapstate_zero), vs_gl = 0, vs_tba = 0,
     vs_asi = 0, vs_softint = 0, vs_pil = 0, vs_cwp = 0, vs_wstate = 0, vs_cansave = 0,
     vs_canrestore = 0, vs_otherwin = 0, vs_cleanwin = 0 \<rparr>"

definition vcpu_util_zero :: vcpu_util where
  "vcpu_util_zero = \<lparr> vu_stick_last = 0, vu_yield_count = 0, vu_yield_start = 0,
     vu_last_yield_count_guest = 0, vu_last_yield_count_vcpu = 0 \<rparr>"

definition vcpu_zero :: vcpu where
  "vcpu_zero = \<lparr> v_guest = None, v_strand = None, v_res_id = 0, v_strand_slot = 0, v_vid = 0,
     v_parttag = 0, v_status = 0,
     v_pip = \<lparr> vp_flags = 0, vp_strand_id = 0, vp_vid = 0, vp_guestid = 0, vp_parttag = 0 \<rparr>,
     v_command = 0, v_start_pc = 0, v_start_arg = 0, v_rtba = 0, v_mmu_area = 0, v_mmu_area_ra = 0,
     v_cpuq_size = 0, v_cpuq_base_ra = 0, v_devq_size = 0, v_devq_base_ra = 0, v_devq_lock = 0,
     v_errqnr_size = 0, v_errqnr_base_ra = 0, v_errqr_size = 0, v_errqr_base_ra = 0,
     v_ttrace_buf_size = 0, v_ttrace_buf_ra = 0, v_ntsbs_ctx0 = 0, v_ntsbs_ctxn = 0,
     v_mmustat_area = 0, v_mmustat_area_ra = 0, v_maup = None, v_cwqp = None,
     v_state_save_area = vcpustate_zero, v_launch_with_retry = 0, v_start_stick = 0,
     v_util = vcpu_util_zero \<rparr>"

definition mblock_zero :: mblock where
  "mblock_zero = \<lparr> mb_pip = \<lparr> mbp_flags = 0, mbp_guestid = 0, mbp_membase = 0, mbp_memsize = 0,
     mbp_realbase = 0 \<rparr>, mb_membase = 0, mb_memsize = 0, mb_realbase = 0, mb_guestid = 0, mb_state = 0 \<rparr>"

definition strand_zero :: strand where
  "strand_zero = \<lparr> st_id = 0, st_current_slot = 0, st_slot = (\<lambda>_. \<lparr> sl_action = 0, sl_arg = None \<rparr>),
     st_err_seq_no = 0, st_io_prot = 0, st_io_error = 0 \<rparr>"

definition mau_zero :: mau where
  "mau_zero = \<lparr> mau_pid = 0, mau_state = 0, mau_handle = 0, mau_ino = 0, mau_cpuset = 0,
     mau_cpu_active = (\<lambda>_. 0), mau_queue = \<lparr> mq_base_ra = 0, mq_base = 0, mq_end = 0, mq_head = 0,
     mq_tail = 0, mq_nentries = 0, mq_busy = 0 \<rparr>, mau_guest = None, mau_res_id = 0,
     mau_pip = \<lparr> mp_flags = 0, mp_pid = 0, mp_ino = 0, mp_guestid = 0, mp_cpuset = 0 \<rparr> \<rparr>"

definition hvctl_msg_zero :: hvctl_msg where
  "hvctl_msg_zero = \<lparr> m_op = 0, m_seqn = 0, m_chksum = 0, m_status = 0, m_body = (\<lambda>_. 0) \<rparr>"

text \<open>The zero-initialised static storage, with nothing in the memory of machine descriptions.\<close>

definition config_zero :: config where
  "config_zero = \<lparr> cfg_membase = 0, cfg_memsize = 0, cfg_active_hvmd = 0, cfg_parse_hvmd = 0,
     cfg_md_mem = (\<lambda>_. None), cfg_hdnametable = (\<lambda>_. 0), cfg_guests = (\<lambda>_. guest_zero),
     cfg_mblocks = (\<lambda>_. mblock_zero), cfg_vcpus = (\<lambda>_. vcpu_zero), cfg_strands = (\<lambda>_. strand_zero),
     cfg_hv_ldcs = (\<lambda>_. ldc_endpoint_zero), cfg_maus = (\<lambda>_. mau_zero), cfg_strand_startset = 0,
     cfg_strand_active = 0, cfg_hvctl_state = 0, cfg_hvctl_hv_seq = 0, cfg_hvctl_zeus_seq = 0,
     cfg_hvctl_rand_num = 0, cfg_hvctl_obuf = hvctl_msg_zero, cfg_hvctl_ldc = 0,
     cfg_del_reconf_gid = 0, cfg_del_reconf_lock = False,
     cfg_basics = \<lparr> hb_hvuart_addr = 0, hb_tod = 0, hb_todfrequency = 0, hb_stickfrequency = 0,
       hb_cyclic_maxd = 0, hb_sys_hwtw_mode = 0, hb_ce_poll_time = 0, hb_ce_blackout = 0,
       hb_guests_dtnode = None, hb_cpus_dtnode = None, hb_hv_ldcs_dtnode = None, hb_devs_dtnode = None,
       hb_erpt_pa = 0, hb_erpt_size = 0, hb_ignore_plx_link_hack = 0, hb_memscrub_max = 0, hb_debug_flags = 0 \<rparr>,
     cfg_hcall_tables = 0, cfg_herr_badtrap = 0, cfg_hcall_mem = (\<lambda>_. 0), cfg_cons_queues = 0,
     cfg_mondo_log = [], cfg_ldc_log = [] \<rparr>"

subsection \<open>Results of control operations\<close>

datatype hvctl_status =
    HVctl_st_ok | HVctl_st_bad_seqn | HVctl_st_eauth | HVctl_st_enotsupp | HVctl_st_badmd
  | HVctl_st_mdnotsupp | HVctl_st_rc_failed | HVctl_st_einval | HVctl_st_eillegal | HVctl_st_stop_failed

fun status_code :: "hvctl_status \<Rightarrow> u16" where
  "status_code HVctl_st_ok = 0"
| "status_code HVctl_st_bad_seqn = 1"
| "status_code HVctl_st_eauth = 2"
| "status_code HVctl_st_enotsupp = 3"
| "status_code HVctl_st_badmd = 4"
| "status_code HVctl_st_mdnotsupp = 5"
| "status_code HVctl_st_rc_failed = 6"
| "status_code HVctl_st_einval = 7"
| "status_code HVctl_st_eillegal = 8"
| "status_code HVctl_st_stop_failed = 9"

text \<open>The values of the enumeration \<open>hvctl_res_error_t\<close> that the modelled code reports.\<close>

definition HVctl_e_guest_missing_id :: u32 where "HVctl_e_guest_missing_id = 0"
definition HVctl_e_guest_invalid_id :: u32 where "HVctl_e_guest_invalid_id = 1"
definition HVctl_e_guest_missing_property :: u32 where "HVctl_e_guest_missing_property = 2"
definition HVctl_e_guest_nocpus :: u32 where "HVctl_e_guest_nocpus = 3"
definition HVctl_e_guest_active :: u32 where "HVctl_e_guest_active = 4"
definition HVctl_e_guest_stopped :: u32 where "HVctl_e_guest_stopped = 5"
definition HVctl_e_guest_base_mblock_too_small :: u32 where "HVctl_e_guest_base_mblock_too_small = 6"
definition HVctl_e_vcpu_missing_id :: u32 where "HVctl_e_vcpu_missing_id = 7"
definition HVctl_e_vcpu_invalid_id :: u32 where "HVctl_e_vcpu_invalid_id = 8"
definition HVctl_e_vcpu_missing_strandid :: u32 where "HVctl_e_vcpu_missing_strandid = 9"
definition HVctl_e_vcpu_invalid_strandid :: u32 where "HVctl_e_vcpu_invalid_strandid = 10"
definition HVctl_e_vcpu_missing_vid :: u32 where "HVctl_e_vcpu_missing_vid = 11"
definition HVctl_e_vcpu_missing_guest :: u32 where "HVctl_e_vcpu_missing_guest = 13"
definition HVctl_e_vcpu_rebind_na :: u32 where "HVctl_e_vcpu_rebind_na = 16"
definition HVctl_e_mblock_missing_id :: u32 where "HVctl_e_mblock_missing_id = 17"
definition HVctl_e_mblock_invalid_id :: u32 where "HVctl_e_mblock_invalid_id = 18"
definition HVctl_e_mblock_missing_membase :: u32 where "HVctl_e_mblock_missing_membase = 19"
definition HVctl_e_mblock_missing_memsize :: u32 where "HVctl_e_mblock_missing_memsize = 20"
definition HVctl_e_mblock_invalid_parange :: u32 where "HVctl_e_mblock_invalid_parange = 21"
definition HVctl_e_mblock_missing_realbase :: u32 where "HVctl_e_mblock_missing_realbase = 22"
definition HVctl_e_mblock_invalid_rarange :: u32 where "HVctl_e_mblock_invalid_rarange = 23"
definition HVctl_e_mblock_missing_guest :: u32 where "HVctl_e_mblock_missing_guest = 24"
definition HVctl_e_mblock_rebind_na :: u32 where "HVctl_e_mblock_rebind_na = 25"
definition HVctl_e_mau_missing_strandid :: u32 where "HVctl_e_mau_missing_strandid = 30"
definition HVctl_e_mau_invalid_strandid :: u32 where "HVctl_e_mau_invalid_strandid = 31"
definition HVctl_e_mau_missing_ino :: u32 where "HVctl_e_mau_missing_ino = 32"
definition HVctl_e_mau_missing_guest :: u32 where "HVctl_e_mau_missing_guest = 33"
definition HVctl_e_mau_rebind_na :: u32 where "HVctl_e_mau_rebind_na = 34"
definition HVctl_e_ldc_missing_prop :: u32 where "HVctl_e_ldc_missing_prop = 51"
definition HVctl_e_ldc_illegal_prop :: u32 where "HVctl_e_ldc_illegal_prop = 52"
definition HVctl_e_ldc_rebind_na :: u32 where "HVctl_e_ldc_rebind_na = 53"
definition HVctl_e_hv_ldc_missing_prop :: u32 where "HVctl_e_hv_ldc_missing_prop = 54"
definition HVctl_e_hv_ldc_illegal_prop :: u32 where "HVctl_e_hv_ldc_illegal_prop = 55"
definition HVctl_e_hv_ldc_rebind_na :: u32 where "HVctl_e_hv_ldc_rebind_na = 56"
definition HVctl_e_cons_missing_id :: u32 where "HVctl_e_cons_missing_id = 57"
definition HVctl_e_cons_missing_guest :: u32 where "HVctl_e_cons_missing_guest = 58"
definition HVctl_e_cons_missing_guest_id :: u32 where "HVctl_e_cons_missing_guest_id = 59"
definition HVctl_e_cons_invalid_guest_id :: u32 where "HVctl_e_cons_invalid_guest_id = 60"
definition HVctl_e_cons_missing_ldc_id :: u32 where "HVctl_e_cons_missing_ldc_id = 61"
definition HVctl_e_cons_invalid_ldc_id :: u32 where "HVctl_e_cons_invalid_ldc_id = 62"
definition HVctl_e_cons_missing_ino :: u32 where "HVctl_e_cons_missing_ino = 63"
definition HVctl_e_cons_invalid_ino :: u32 where "HVctl_e_cons_invalid_ino = 64"
definition HVctl_e_cons_missing_uartbase :: u32 where "HVctl_e_cons_missing_uartbase = 65"
definition HVctl_e_invalid_infoid :: u32 where "HVctl_e_invalid_infoid = 66"

text \<open>
  The out-parameters \<open>fail_codep\<close>, \<open>failnodepp\<close> and \<open>fail_res_idp\<close> of the
  \<open>parse\<close> functions.  The caller does not initialise them, so each is \<open>None\<close>
  until the function has written it.  \<open>f_node\<close> is the element index, or
  \<open>Some None\<close> for NULL.
\<close>

record fail_info =
  f_code :: "u32 option"
  f_node :: "nat option option"
  f_res_id :: "u32 option"

definition fail_info_uninit :: fail_info where
  "fail_info_uninit = \<lparr> f_code = None, f_node = None, f_res_id = None \<rparr>"

type_synonym parse_state = "config \<times> fail_info"
type_synonym parse_result = "hvctl_status \<times> config \<times> fail_info"

end
