(* ===== verification/Resource.thy ===== *)
theory Resource
  imports Hv_State
begin

text \<open>
  What the resource kinds have in common (\<open>hvcontrol.h\<close>, \<open>reconf.c\<close>): the
  shape of their \<open>parse\<close> functions, and the contract of their \<open>commit\<close>
  functions as a locale.  Every kind marks each of its instances with a flag
  (\<open>RESF_Config\<close>, \<open>RESF_Unconfig\<close>, ...) while a machine description is parsed,
  and \<open>commit\<close> then acts on the instances that carry the flag it is called with
  and resets their flag to \<open>RESF_Noop\<close>.  \<open>resource_commit\<close> and
  \<open>resource_kind\<close> state that contract once; each \<open>Res_\<close> theory interprets them
  for its own \<open>commit\<close> function.
\<close>

subsection \<open>Early exits of parse functions\<close>

text \<open>\<open>*fail_codep = code; return (st)\<close> inside the loop over the nodes of a resource.\<close>

definition parse_fail :: "hvctl_status \<Rightarrow> u32 \<Rightarrow> parse_state \<Rightarrow> (parse_result + parse_state) hv" where
  "parse_fail st code s = Inr (Inl (st, fst s, (snd s)\<lparr> f_code := Some code \<rparr>))"

definition parse_ok :: "config \<Rightarrow> fail_info \<Rightarrow> (parse_result + parse_state) hv" where
  "parse_ok c f = Inr (Inr (c, f))"

text \<open>The end of a parse function: the early result, or \<open>HVctl_st_ok\<close>.\<close>

definition parse_end :: "parse_result + parse_state \<Rightarrow> parse_result hv" where
  "parse_end x = Inr (case x of Inl r \<Rightarrow> r | Inr (c, f) \<Rightarrow> (HVctl_st_ok, c, f))"

text \<open>Sequencing of the steps of a parse function, any of which may end it.\<close>

definition parse_then :: "('r + 's) hv \<Rightarrow> ('s \<Rightarrow> ('r + 't) hv) \<Rightarrow> ('r + 't) hv" where
  "parse_then m k = hbind m (\<lambda>x. case x of Inl r \<Rightarrow> Inr (Inl r) | Inr s \<Rightarrow> k s)"

text \<open>\<open>*failnodepp = nodep\<close> in the caller of a \<open>parse_1\<close> function that has failed.\<close>

definition with_failnode ::
    "(bin_md \<Rightarrow> nat \<Rightarrow> parse_state \<Rightarrow> (parse_result + parse_state) hv) \<Rightarrow>
     bin_md \<Rightarrow> nat \<Rightarrow> parse_state \<Rightarrow> (parse_result + parse_state) hv" where
  "with_failnode parse_1 md nodep s = hbind (parse_1 md nodep s) (\<lambda>x.
     Inr (case x of Inl (st, c, f) \<Rightarrow> Inl (st, c, f\<lparr> f_node := Some (Some nodep) \<rparr>) | Inr s' \<Rightarrow> Inr s'))"

text \<open>\<open>mdp = (bin_md_t *)config.parse_hvmd\<close>, reading the MD at that address.\<close>

definition with_parse_hvmd :: "config \<Rightarrow> (bin_md \<Rightarrow> 'a hv) \<Rightarrow> 'a hv" where
  "with_parse_hvmd c k =
     (case cfg_md_mem c (cfg_parse_hvmd c) of None \<Rightarrow> Inl Bad_access | Some md \<Rightarrow> k md)"

text \<open>
  The frame common to the \<open>parse\<close> functions: find the collecting node, fail with
  \<open>HVctl_st_badmd\<close> if it is missing (without a failure code), then go through
  the nodes its arcs lead to.
\<close>

definition res_parse_nodes ::
    "string \<Rightarrow> string \<Rightarrow> (bin_md \<Rightarrow> nat \<Rightarrow> parse_state \<Rightarrow> (parse_result + parse_state) hv) \<Rightarrow>
     parse_state \<Rightarrow> parse_result hv" where
  "res_parse_nodes topnode node parse_1 s =
     (case s of (c, f) \<Rightarrow>
        with_parse_hvmd c (\<lambda>md.
          hbind (md_find_node md None (MDNAME c topnode)) (\<lambda>r.
            case r of
              None \<Rightarrow> Inr (HVctl_st_badmd, c, f\<lparr> f_node := Some None, f_res_id := Some 0 \<rparr>)
            | Some mdep \<Rightarrow>
                hbind (md_foreach md mdep (MDARC (MDNAME c ''fwd'')) (MDNODE (MDNAME c node))
                  (parse_1 md) (c, f)) parse_end)))"

subsection \<open>Committing\<close>

definition upd_guest_hv :: "nat \<Rightarrow> (guest \<Rightarrow> guest hv) \<Rightarrow> config \<Rightarrow> config hv" where
  "upd_guest_hv gi f c =
     hguard (gi < NGUESTS) (hbind (f (cfg_guests c gi)) (\<lambda>g. Inr (upd_guest gi (\<lambda>_. g) c)))"

text \<open>
  The \<open>switch\<close> on the flags that every \<open>commit\<close> function has: the action of the
  flag, and a failed \<open>ASSERT\<close> for a flag with none.
\<close>

definition res_switch :: "u8 \<Rightarrow> 'a hv \<Rightarrow> 'a hv \<Rightarrow> 'a hv \<Rightarrow> 'a hv \<Rightarrow> 'a hv \<Rightarrow> 'a hv" where
  "res_switch fl noop unconfig config rebind modify =
     (if fl = RESF_Noop then noop
      else if fl = RESF_Unconfig then unconfig
      else if fl = RESF_Config then config
      else if fl = RESF_Rebind then rebind
      else if fl = RESF_Modify then modify
      else Inl Assert_fail)"

lemma res_switch_cases [consumes 1, case_names Noop Unconfig Config Rebind Modify]:
  assumes "res_switch fl noop unconfig config rebind modify = Inr r"
    and "fl = RESF_Noop \<Longrightarrow> noop = Inr r \<Longrightarrow> P" "fl = RESF_Unconfig \<Longrightarrow> unconfig = Inr r \<Longrightarrow> P"
    and "fl = RESF_Config \<Longrightarrow> config = Inr r \<Longrightarrow> P" "fl = RESF_Rebind \<Longrightarrow> rebind = Inr r \<Longrightarrow> P"
    and "fl = RESF_Modify \<Longrightarrow> modify = Inr r \<Longrightarrow> P"
  shows P
  using assms by (auto simp: res_switch_def split: if_splits)

lemma upd_guest_hv_eq:
  "upd_guest_hv gi f c = Inr c' \<longleftrightarrow>
     gi < NGUESTS \<and> (\<exists>g. f (cfg_guests c gi) = Inr g \<and> c' = upd_guest gi (\<lambda>_. g) c)"
  by (auto simp: upd_guest_hv_def hv_simps)

subsection \<open>What parse functions keep\<close>

definition result_cfg :: "parse_result + parse_state \<Rightarrow> config" where
  "result_cfg r = (case r of Inl (st, c, f) \<Rightarrow> c | Inr (c, f) \<Rightarrow> c)"

lemma result_cfg_simps [simp]: "result_cfg (Inl (st, c, f)) = c" "result_cfg (Inr (c, f)) = c"
  by (simp_all add: result_cfg_def)

lemma hpost_parse_fail [hpost_rules]:
  "Q (Inl (st, fst s, (snd s)\<lparr> f_code := Some code \<rparr>)) \<Longrightarrow> hpost Q (parse_fail st code s)"
  by (simp add: parse_fail_def hpost_def)

lemma hpost_parse_ok [hpost_rules]: "Q (Inr (c, f)) \<Longrightarrow> hpost Q (parse_ok c f)"
  by (simp add: parse_ok_def hpost_def)

lemma unat_ucast_le: "unat (ucast (x :: u64) :: u32) \<le> unat x"
  by (simp add: unsigned_ucast_eq)

lemma hpost_parse_then [hpost_rules]:
  "hpost (\<lambda>x. case x of Inl r \<Rightarrow> Q (Inl r) | Inr s \<Rightarrow> hpost Q (k s)) m \<Longrightarrow> hpost Q (parse_then m k)"
  by (cases m) (auto simp: parse_then_def hpost_def split: sum.splits)

lemma hpost_with_failnode:
  "hpost (\<lambda>r. P (result_cfg r)) (parse_1 md n s) \<Longrightarrow> hpost (\<lambda>r. P (result_cfg r)) (with_failnode parse_1 md n s)"
  unfolding with_failnode_def
  by (rule hpost_hbind, drule (1) hpostD) (auto intro: hpost_Inr split: sum.splits prod.splits)

text \<open>
  A step that keeps an invariant of the configuration, followed by steps that
  keep it.
\<close>

lemma parse_then_keeps:
  assumes "hpost (\<lambda>r. P (result_cfg r)) m" "\<And>c f. P c \<Longrightarrow> hpost (\<lambda>r. P (result_cfg r)) (k (c, f))"
  shows "hpost (\<lambda>r. P (result_cfg r)) (parse_then m k)"
  by (rule hpost_parse_then, rule hpost_mono [OF assms(1)])
    (use assms(2) in \<open>auto split: sum.splits\<close>)

text \<open>What parsing one node keeps, parsing all of them keeps, also when it is abandoned.\<close>

lemma res_parse_nodes_inv:
  assumes "P c" and "\<And>md n c f. P c \<Longrightarrow> hpost (\<lambda>r. P (result_cfg r)) (parse_1 md n (c, f))"
  shows "hpost (\<lambda>(st, c', f'). P c') (res_parse_nodes topnode node parse_1 (c, f))"
  unfolding res_parse_nodes_def with_parse_hvmd_def
proof (intro hpost_rules)
  fix c1 f1 md r mdep x
  assume c1: "(c, f) = (c1, f1)" and x: "md_foreach md mdep (MDARC (MDNAME c1 ''fwd'')) (MDNODE (MDNAME c1 node))
      (parse_1 md) (c1, f1) = Inr x"
  have "hpost (case_sum (\<lambda>(st, c', f'). P c') (\<lambda>(c', f'). P c'))
    (md_foreach md mdep (MDARC (MDNAME c1 ''fwd'')) (MDNODE (MDNAME c1 node)) (parse_1 md) (c1, f1))"
  proof (rule hpost_md_foreach)
    show "case (c1, f1) of (c', f') \<Rightarrow> P c'" using c1 assms by simp
    fix n and u :: parse_state
    assume u: "case u of (c', f') \<Rightarrow> P c'"
    obtain cu fu where cu: "u = (cu, fu)" by fastforce
    show "hpost (case_sum (\<lambda>(st, c', f'). P c') (\<lambda>(c', f'). P c')) (parse_1 md n u)"
      unfolding cu
      by (rule hpost_mono [OF assms(2)])
        (use u cu in \<open>auto simp: result_cfg_def split: sum.splits prod.splits\<close>)
  qed
  from hpostD [OF this x] show "hpost (\<lambda>(st, c', f'). P c') (parse_end x)"
    by (auto simp: parse_end_def hpost_def split: sum.splits prod.splits)
qed (use assms in auto)

text \<open>
  The smallest machine description every \<open>parse\<close> function accepts: one collecting
  node with nothing in it.  All names have the same tag here.
\<close>

definition bare_md :: bin_md where
  "bare_md = \<lparr> transport_version = MD_TRANSPORT_VERSION, node_blk_sz = 48, name_blk_sz = 0, data_blk_sz = 0,
     elem = [\<lparr> me_tag = MDET_NODE, me_namelen = 1, me_pad = 0, me_name = 7, me_d = 2 \<rparr>,
       \<lparr> me_tag = MDET_NODE_END, me_namelen = 0, me_pad = 0, me_name = 0, me_d = 0 \<rparr>,
       \<lparr> me_tag = MDET_LIST_END, me_namelen = 0, me_pad = 0, me_name = 0, me_d = 0 \<rparr>],
     str_tab = [] \<rparr>"

definition bare :: "config \<Rightarrow> config" where
  "bare c = c\<lparr> cfg_hdnametable := \<lambda>_. 0x1000000000007, cfg_md_mem := \<lambda>_. Some bare_md \<rparr>"

definition is_bare :: "config \<Rightarrow> bool" where
  "is_bare c \<longleftrightarrow> cfg_hdnametable c = (\<lambda>_. 0x1000000000007) \<and> cfg_md_mem c = (\<lambda>_. Some bare_md)"

lemma is_bare_bare [simp]: "is_bare (bare c)"
  by (simp add: is_bare_def bare_def)

lemma bare_md_scans:
  "md_find_node bare_md None 0x1000000000007 = Inr (Some 0)"
  "md_find_node_by_arc_from bare_md 0 (MDARC 0x1000000000007) t = Inr None"
proof -
  show "md_find_node bare_md None 0x1000000000007 = Inr (Some 0)" by code_simp
  have "md_next_node_elem bare_md 0 (MDARC 0x1000000000007) = Inr None" by code_simp
  then show "md_find_node_by_arc_from bare_md 0 (MDARC 0x1000000000007) t = Inr None"
    by (subst md_find_node_by_arc_from.simps) simp
qed

lemma res_parse_nodes_bare: "is_bare c \<Longrightarrow> res_parse_nodes topnode node p (c, f) = Inr (HVctl_st_ok, c, f)"
  by (simp add: res_parse_nodes_def with_parse_hvmd_def is_bare_def bare_md_scans md_foreach.simps parse_end_def)

subsection \<open>The contract of a commit function\<close>

locale resource_commit =
  fixes idxs :: "'i list"
    and flag :: "config \<Rightarrow> 'i \<Rightarrow> u8"
    and step :: "u8 \<Rightarrow> 'i \<Rightarrow> config \<Rightarrow> config hv"
    and inv :: "config \<Rightarrow> bool"
  assumes distinct_idxs: "distinct idxs"
    and step_other: "flag c i \<noteq> fl \<Longrightarrow> step fl i c = Inr c"
    and step_inv: "i \<in> set idxs \<Longrightarrow> inv c \<Longrightarrow> step fl i c = Inr c' \<Longrightarrow> inv c'"
    and step_flag: "i \<in> set idxs \<Longrightarrow> inv c \<Longrightarrow> step fl i c = Inr c' \<Longrightarrow> flag c i = fl \<Longrightarrow> flag c' i = RESF_Noop"
    and step_frame: "i \<in> set idxs \<Longrightarrow> inv c \<Longrightarrow> step fl i c = Inr c' \<Longrightarrow> j \<noteq> i \<Longrightarrow> flag c' j = flag c j"
begin

lemma commit_inv: "inv c \<Longrightarrow> hfold (step fl) idxs c = Inr c' \<Longrightarrow> inv c'"
  by (erule hfold_inv) (auto intro: step_inv)

lemma commit_filter_on:
  "distinct xs \<Longrightarrow> set xs \<subseteq> set idxs \<Longrightarrow> inv c \<Longrightarrow>
   hfold (step fl) xs c = hfold (step fl) (filter (\<lambda>i. flag c i = fl) xs) c"
proof (induction xs arbitrary: c)
  case (Cons x xs)
  show ?case
  proof (cases "flag c x = fl")
    case True
    have "hbind (step fl x c) (hfold (step fl) xs) =
      hbind (step fl x c) (hfold (step fl) (filter (\<lambda>i. flag c i = fl) xs))"
    proof (rule hbind_cong [OF refl])
      fix c1
      assume c1: "step fl x c = Inr c1"
      have inv: "inv c1" using Cons.prems c1 step_inv by auto
      have "flag c1 i = flag c i" if "i \<in> set xs" for i
        using that Cons.prems by (intro step_frame [OF _ _ c1]) auto
      then have "filter (\<lambda>i. flag c1 i = fl) xs = filter (\<lambda>i. flag c i = fl) xs"
        by (intro filter_cong) simp_all
      with Cons inv show "hfold (step fl) xs c1 = hfold (step fl) (filter (\<lambda>i. flag c i = fl) xs) c1" by simp
    qed
    with True show ?thesis by simp
  qed (use Cons in \<open>simp add: step_other\<close>)
qed simp

text \<open>Only the instances that carry the flag are acted on, in the order of the table.\<close>

lemma commit_filter: "inv c \<Longrightarrow> hfold (step fl) idxs c = hfold (step fl) (filter (\<lambda>i. flag c i = fl) idxs) c"
  using distinct_idxs by (intro commit_filter_on) simp_all

lemma commit_flags_on:
  assumes "hfold (step fl) xs c = Inr c'" "distinct xs" "set xs \<subseteq> set idxs" "inv c"
  shows "flag c' i = (if i \<in> set xs \<and> flag c i = fl then RESF_Noop else flag c i)"
  using assms
proof (induction xs arbitrary: c)
  case (Cons x xs)
  then obtain c1 where c1: "step fl x c = Inr c1" "hfold (step fl) xs c1 = Inr c'" by (auto elim: hbindE)
  from Cons.prems have x: "x \<in> set idxs" "x \<notin> set xs" by auto
  have IH: "flag c' i = (if i \<in> set xs \<and> flag c1 i = fl then RESF_Noop else flag c1 i)"
    using Cons.prems step_inv [OF x(1) _ c1(1)] by (intro Cons.IH [OF c1(2)]) auto
  show ?case
  proof (cases "i = x")
    case True
    with IH x Cons.prems(4) step_flag [OF x(1) _ c1(1)] step_other [of c x fl] c1(1) show ?thesis by auto
  next
    case False
    with IH Cons.prems(4) step_frame [OF x(1) _ c1(1) False] show ?thesis by auto
  qed
qed simp

lemma commit_flags:
  "hfold (step fl) idxs c = Inr c' \<Longrightarrow> inv c \<Longrightarrow>
   flag c' i = (if i \<in> set idxs \<and> flag c i = fl then RESF_Noop else flag c i)"
  using distinct_idxs by (intro commit_flags_on) simp_all

text \<open>
  What a phase does to an instance is what its own step does, as far as the steps
  of the other instances keep out of it.
\<close>

lemma commit_at:
  assumes "hfold (step fl) idxs c = Inr c'" "inv c" "i \<in> set idxs"
    and frame: "\<And>j d d'. j \<in> set idxs \<Longrightarrow> j \<noteq> i \<Longrightarrow> inv d \<Longrightarrow> step fl j d = Inr d' \<Longrightarrow> obs d' = obs d"
  obtains c1 c2 where "inv c1" "step fl i c1 = Inr c2" "obs c1 = obs c" "obs c' = obs c2"
proof -
  from assms(3) distinct_idxs obtain ys zs where idxs: "idxs = ys @ i # zs" "i \<notin> set ys" "i \<notin> set zs"
    by (metis distinct_append distinct.simps(2) not_distinct_conv_prefix split_list Un_iff disjoint_iff list.set_intros(1))
  from assms(1) obtain c1 c2 where c12: "hfold (step fl) ys c = Inr c1" "step fl i c1 = Inr c2" "hfold (step fl) zs c2 = Inr c'"
    unfolding idxs(1) by (auto simp: hfold_append hbind_eq_Inr)
  have keep: "inv d' \<and> obs d' = obs d" if "hfold (step fl) xs d = Inr d'" "inv d" "set xs \<subseteq> set idxs - {i}" for xs d d'
  proof (rule hfold_inv [OF that(1), where P = "\<lambda>e. inv e \<and> obs e = obs d"])
    fix j e e'
    assume "j \<in> set xs" "inv e \<and> obs e = obs d" "step fl j e = Inr e'"
    with that(3) frame [of j e e'] step_inv [of j e fl e'] show "inv e' \<and> obs e' = obs d" by auto
  qed (simp add: that(2))
  have c1: "inv c1" "obs c1 = obs c" using keep [OF c12(1) assms(2)] idxs by auto
  then have "inv c2" using step_inv c12(2) assms(3) by blast
  then have "obs c' = obs c2" using keep [OF c12(3)] idxs by auto
  with c1 c12(2) show thesis by (rule_tac that)
qed

text \<open>A phase that has been done has nothing left to do.\<close>

lemma commit_again:
  assumes "hfold (step fl) idxs c = Inr c'" "inv c" "fl \<noteq> RESF_Noop"
  shows "hfold (step fl) idxs c' = Inr c'"
proof -
  have "filter (\<lambda>i. flag c' i = fl) idxs = []"
    using assms by (auto simp: filter_empty_conv commit_flags)
  then show ?thesis using commit_filter [OF commit_inv [OF assms(2,1)], of fl] by simp
qed

end

text \<open>
  Configuring makes an instance live, unconfiguring ends that, and the other
  actions leave it as it is.
\<close>

locale resource_kind = resource_commit +
  fixes live :: "config \<Rightarrow> 'a \<Rightarrow> bool"
  assumes step_live: "i \<in> set idxs \<Longrightarrow> inv c \<Longrightarrow> step fl i c = Inr c' \<Longrightarrow> flag c i = fl \<Longrightarrow>
      live c' i \<longleftrightarrow> fl = RESF_Config \<or> fl \<noteq> RESF_Unconfig \<and> live c i"
    and step_live_frame: "i \<in> set idxs \<Longrightarrow> inv c \<Longrightarrow> step fl i c = Inr c' \<Longrightarrow> j \<noteq> i \<Longrightarrow> live c' j = live c j"
begin

lemma commit_live_on:
  assumes "hfold (step fl) xs c = Inr c'" "distinct xs" "set xs \<subseteq> set idxs" "inv c"
  shows "live c' i \<longleftrightarrow> (if i \<in> set xs \<and> flag c i = fl
    then fl = RESF_Config \<or> fl \<noteq> RESF_Unconfig \<and> live c i else live c i)"
  using assms
proof (induction xs arbitrary: c)
  case (Cons x xs)
  then obtain c1 where c1: "step fl x c = Inr c1" "hfold (step fl) xs c1 = Inr c'" by (auto elim: hbindE)
  from Cons.prems have x: "x \<in> set idxs" "x \<notin> set xs" by auto
  have IH: "live c' i \<longleftrightarrow> (if i \<in> set xs \<and> flag c1 i = fl
      then fl = RESF_Config \<or> fl \<noteq> RESF_Unconfig \<and> live c1 i else live c1 i)"
    using Cons.prems step_inv [OF x(1) _ c1(1)] by (intro Cons.IH [OF c1(2)]) auto
  show ?case
  proof (cases "i = x")
    case True
    with IH x Cons.prems(4) step_live [OF x(1) _ c1(1)] step_other [of c x fl] c1(1) show ?thesis by auto
  next
    case False
    with IH Cons.prems(4) step_frame [OF x(1) _ c1(1) False] step_live_frame [OF x(1) _ c1(1) False]
    show ?thesis by auto
  qed
qed simp

lemma commit_live:
  "hfold (step fl) idxs c = Inr c' \<Longrightarrow> inv c \<Longrightarrow> live c' i \<longleftrightarrow> (if i \<in> set idxs \<and> flag c i = fl
    then fl = RESF_Config \<or> fl \<noteq> RESF_Unconfig \<and> live c i else live c i)"
  using distinct_idxs by (intro commit_live_on) simp_all

end

end
