(* ===== verification/Res_Memory.thy ===== *)
theory Res_Memory
  imports Resource
begin

text \<open>
  Memory blocks (\<open>res_memory.c\<close>) and the real-to-physical segment table they
  fill in (\<open>segments.h\<close>).

  A guest's real address space is cut into \<open>NUM_RA2PA_SEGMENTS\<close> slots of
  \<open>2 ^ RA2PA_SHIFT\<close> bytes, each with a base, a limit and an offset.  Committing a
  memory block writes the same segment into every slot it touches, removing it
  resets those slots.  \<open>ra2pa_range_conv\<close> is the macro
  \<open>RA2PA_RANGE_CONV\<close> with which hypercalls translate guest addresses.
\<close>

subsection \<open>Segments\<close>

definition init_ra2pa_segment :: ra2pa_segment where
  "init_ra2pa_segment =
     \<lparr> seg_base = - 1, seg_limit = 0, seg_offset = - 1, seg_flags = INVALID_SEGMENT \<rparr>"

definition set_segments :: "ra2pa_segment \<Rightarrow> u64 \<Rightarrow> u64 \<Rightarrow> guest \<Rightarrow> guest" where
  "set_segments seg idx eidx g =
     g\<lparr> g_ra2pa_segment := fold (\<lambda>i sg. sg(i := seg)) [unat idx..<Suc (unat eidx)] (g_ra2pa_segment g) \<rparr>"

definition assign_ra2pa_segments :: "u64 \<Rightarrow> u64 \<Rightarrow> u64 \<Rightarrow> u8 \<Rightarrow> guest \<Rightarrow> guest hv" where
  "assign_ra2pa_segments real_base sz ra2pa_offset flags g =
     (let limit = real_base + sz;
          idx = drop_bit RA2PA_SHIFT real_base;
          eidx = drop_bit RA2PA_SHIFT (limit - 1)
      in hassert (unat eidx < NUM_RA2PA_SEGMENTS)
           (Inr (set_segments
              \<lparr> seg_base = real_base, seg_limit = limit, seg_offset = ra2pa_offset, seg_flags = flags \<rparr>
              idx eidx g)))"

definition clear_ra2pa_segments :: "u64 \<Rightarrow> u64 \<Rightarrow> guest \<Rightarrow> guest hv" where
  "clear_ra2pa_segments real_base sz g =
     (let limit = real_base + sz;
          idx = drop_bit RA2PA_SHIFT real_base;
          eidx = drop_bit RA2PA_SHIFT (limit - 1)
      in hassert (unat eidx < NUM_RA2PA_SEGMENTS)
           (Inr (set_segments init_ra2pa_segment idx eidx g)))"

text \<open>
  \<open>RA2PA_RANGE_CONV\<close>: \<open>None\<close> is the branch to \<open>fail_label\<close>.  The comparison of
  the room left in the segment with the size is signed.
\<close>

definition ra2pa_range_conv :: "guest \<Rightarrow> u64 \<Rightarrow> u64 \<Rightarrow> u64 option" where
  "ra2pa_range_conv g raddr sz =
     (let segp = drop_bit RA2PA_SHIFT raddr in
      if unat segp \<ge> NUM_RA2PA_SEGMENTS then None
      else let s = g_ra2pa_segment g (unat segp) in
        if seg_flags s AND MEM_SEGMENT = 0 then None
        else if seg_base s > raddr then None
        else if sint (seg_limit s - raddr) < sint sz then None
        else Some (seg_offset s + raddr))"

subsection \<open>The resource operations\<close>

definition init_mblocks :: "config \<Rightarrow> config hv" where
  "init_mblocks = hfold (\<lambda>i c. Inr (upd_mblock i (\<lambda>mb. mb\<lparr> mb_state := MBLOCK_STATE_UNCONFIGURED \<rparr>) c))
     [0..<NMBLOCKS]"

definition set_mblock_flags :: "nat \<Rightarrow> u8 \<Rightarrow> config \<Rightarrow> config" where
  "set_mblock_flags i fl = upd_mblock i (\<lambda>mb. mb\<lparr> mb_pip := (mb_pip mb)\<lparr> mbp_flags := fl \<rparr> \<rparr>)"

definition res_memory_prep :: "config \<Rightarrow> config hv" where
  "res_memory_prep = hfold (\<lambda>i c. Inr (set_mblock_flags i
       (if mb_state (cfg_mblocks c i) = MBLOCK_STATE_UNCONFIGURED then RESF_Noop else RESF_Unconfig) c))
     [0..<NMBLOCKS]"

definition res_memory_parse_1 :: "bin_md \<Rightarrow> nat \<Rightarrow> parse_state \<Rightarrow> (parse_result + parse_state) hv" where
  "res_memory_parse_1 md mbnodep s =
     (case s of (c, f) \<Rightarrow>
      md_prop md mbnodep (MDNAME c ''resource_id'')
        (parse_fail HVctl_st_badmd HVctl_e_mblock_missing_id (c, f\<lparr> f_res_id := Some 0 \<rparr>)) (\<lambda>res_id.
      if unat res_id \<ge> NMBLOCKS
      then parse_fail HVctl_st_badmd HVctl_e_mblock_invalid_id (c, f\<lparr> f_res_id := Some 0 \<rparr>)
      else let f = f\<lparr> f_res_id := Some (ucast res_id) \<rparr> in
      md_prop md mbnodep (MDNAME c ''membase'')
        (parse_fail HVctl_st_badmd HVctl_e_mblock_missing_membase (c, f)) (\<lambda>membase.
      md_prop md mbnodep (MDNAME c ''memsize'')
        (parse_fail HVctl_st_badmd HVctl_e_mblock_missing_memsize (c, f)) (\<lambda>memsize.
      if membase + memsize \<le> membase
      then parse_fail HVctl_st_badmd HVctl_e_mblock_invalid_parange (c, f) else
      md_prop md mbnodep (MDNAME c ''realbase'')
        (parse_fail HVctl_st_badmd HVctl_e_mblock_missing_realbase (c, f)) (\<lambda>realbase.
      if realbase + memsize \<le> realbase
      then parse_fail HVctl_st_badmd HVctl_e_mblock_invalid_rarange (c, f) else
      hbind (md_find_node_by_arc md (Some mbnodep) (MDARC (MDNAME c ''back'')) (MDNODE (MDNAME c ''guest'')))
        (\<lambda>r. case r of
          None \<Rightarrow> parse_fail HVctl_st_badmd HVctl_e_mblock_missing_guest (c, f)
        | Some (_, guestnodep) \<Rightarrow>
      md_prop md guestnodep (MDNAME c ''resource_id'')
        (parse_fail HVctl_st_badmd HVctl_e_guest_missing_id (c, f)) (\<lambda>guestid.
      if unat guestid \<ge> NGUESTS
      then parse_fail HVctl_st_badmd HVctl_e_guest_invalid_id (c, f)
      else
        let i = unat res_id;
            mb = cfg_mblocks c i;
            c = upd_mblock i (\<lambda>mb. mb\<lparr> mb_pip := (mb_pip mb)\<lparr> mbp_membase := membase,
                  mbp_memsize := memsize, mbp_realbase := realbase, mbp_guestid := ucast guestid \<rparr> \<rparr>) c
        in
          if mb_state mb = MBLOCK_STATE_UNCONFIGURED
          then parse_ok (set_mblock_flags i RESF_Config c) f
          else if ucast (mb_guestid mb) \<noteq> guestid
          then parse_fail HVctl_st_badmd HVctl_e_mblock_rebind_na (c, f)
          else if mb_membase mb = membase \<and> mb_memsize mb = memsize \<and> mb_realbase mb = realbase \<and>
              ucast (mb_guestid mb) = guestid
          then parse_ok (set_mblock_flags i RESF_Noop c) f
          else parse_ok (set_mblock_flags i RESF_Modify c) f)))))))"

text \<open>The last loop of \<open>res_memory_parse\<close> only computes addresses, it has no effect.\<close>

definition res_memory_parse :: "parse_state \<Rightarrow> parse_result hv" where
  "res_memory_parse = res_parse_nodes ''memory'' ''mblock'' res_memory_parse_1"

definition res_memory_postparse :: "parse_state \<Rightarrow> parse_result hv" where
  "res_memory_postparse s = Inr (HVctl_st_ok, s)"

definition res_memory_commit_config :: "nat \<Rightarrow> config \<Rightarrow> config hv" where
  "res_memory_commit_config i c =
     hassert (mb_state (cfg_mblocks c i) = MBLOCK_STATE_UNCONFIGURED)
       (let c = upd_mblock i (\<lambda>mb. mb\<lparr> mb_realbase := mbp_realbase (mb_pip mb),
              mb_membase := mbp_membase (mb_pip mb), mb_memsize := mbp_memsize (mb_pip mb),
              mb_guestid := mbp_guestid (mb_pip mb) \<rparr>) c;
            mb = cfg_mblocks c i
        in hbind (upd_guest_hv (unat (mb_guestid mb))
             (assign_ra2pa_segments (mb_realbase mb) (mb_memsize mb)
               (mb_membase mb - mb_realbase mb) MEM_SEGMENT) c) (\<lambda>c.
           Inr (upd_mblock i (\<lambda>mb. mb\<lparr> mb_state := MBLOCK_STATE_CONFIGURED \<rparr>) c)))"

definition res_memory_commit_unconfig :: "nat \<Rightarrow> config \<Rightarrow> config hv" where
  "res_memory_commit_unconfig i c =
     (let mb = cfg_mblocks c i in
      hassert (mb_state mb = MBLOCK_STATE_CONFIGURED)
        (hbind (upd_guest_hv (unat (mb_guestid mb))
           (clear_ra2pa_segments (mb_realbase mb) (mb_memsize mb)) c) (\<lambda>c.
         Inr (upd_mblock i (\<lambda>mb. mb\<lparr> mb_state := MBLOCK_STATE_UNCONFIGURED \<rparr>) c))))"

definition res_memory_commit_modify :: "nat \<Rightarrow> config \<Rightarrow> config hv" where
  "res_memory_commit_modify i c = hbind (res_memory_commit_unconfig i c) (res_memory_commit_config i)"

definition res_memory_commit_1 :: "u8 \<Rightarrow> nat \<Rightarrow> config \<Rightarrow> config hv" where
  "res_memory_commit_1 flag i c =
     (let fl = mbp_flags (mb_pip (cfg_mblocks c i)) in
      if fl \<noteq> flag then Inr c
      else hbind (res_switch fl (Inr c) (res_memory_commit_unconfig i c) (res_memory_commit_config i c)
             (Inl Assert_fail) (res_memory_commit_modify i c)) (\<lambda>c.
           Inr (set_mblock_flags i RESF_Noop c)))"

definition res_memory_commit :: "u8 \<Rightarrow> config \<Rightarrow> config hv" where
  "res_memory_commit flag = hfold (res_memory_commit_1 flag) [0..<NMBLOCKS]"

subsection \<open>The segment table\<close>

lemma fold_upd_upt:
  "fold (\<lambda>i sg. sg(i := x)) [a..<b] f = (\<lambda>i. if a \<le> i \<and> i < b then x else f i)"
  by (induction b) (auto simp: fun_eq_iff)

lemma set_segments_apply:
  "g_ra2pa_segment (set_segments seg a b g) =
     (\<lambda>i. if unat a \<le> i \<and> i \<le> unat b then seg else g_ra2pa_segment g i)"
  by (auto simp: set_segments_def fold_upd_upt fun_eq_iff simp del: upt_Suc)

text \<open>The slots a block touches, and the segment its slots hold.\<close>

definition seg_slots :: "u64 \<Rightarrow> u64 \<Rightarrow> nat set" where
  "seg_slots real_base sz =
     {unat (drop_bit RA2PA_SHIFT real_base)..unat (drop_bit RA2PA_SHIFT (real_base + sz - 1))}"

definition mem_segment :: "u64 \<Rightarrow> u64 \<Rightarrow> u64 \<Rightarrow> ra2pa_segment" where
  "mem_segment membase realbase memsize =
     \<lparr> seg_base = realbase, seg_limit = realbase + memsize, seg_offset = membase - realbase,
       seg_flags = MEM_SEGMENT \<rparr>"

lemma unat_drop_bit_div: "unat (drop_bit n (w :: u64)) = unat w div 2 ^ n"
  by (simp add: unat_drop_bit_eq) (simp add: drop_bit_eq_div)

lemma assign_ra2pa_segments_eq:
  "assign_ra2pa_segments rb sz off fl g = Inr g' \<longleftrightarrow>
     unat (drop_bit RA2PA_SHIFT (rb + sz - 1)) < NUM_RA2PA_SEGMENTS \<and>
     g' = g\<lparr> g_ra2pa_segment := \<lambda>i. if i \<in> seg_slots rb sz
        then \<lparr> seg_base = rb, seg_limit = rb + sz, seg_offset = off, seg_flags = fl \<rparr>
        else g_ra2pa_segment g i \<rparr>"
  by (auto simp: assign_ra2pa_segments_def Let_def hassert_def set_segments_def fold_upd_upt
      seg_slots_def less_Suc_eq_le simp del: upt_Suc)

lemma clear_ra2pa_segments_eq:
  "clear_ra2pa_segments rb sz g = Inr g' \<longleftrightarrow>
     unat (drop_bit RA2PA_SHIFT (rb + sz - 1)) < NUM_RA2PA_SEGMENTS \<and>
     g' = g\<lparr> g_ra2pa_segment := \<lambda>i. if i \<in> seg_slots rb sz then init_ra2pa_segment
        else g_ra2pa_segment g i \<rparr>"
  by (auto simp: clear_ra2pa_segments_def Let_def hassert_def set_segments_def fold_upd_upt
      seg_slots_def less_Suc_eq_le simp del: upt_Suc)

text \<open>An address of the block lies in one of its slots.\<close>

lemma in_seg_slots:
  assumes "rb \<le> ra" "ra \<le> rb + sz - 1"
  shows "unat (drop_bit RA2PA_SHIFT ra) \<in> seg_slots rb sz"
  using assms by (simp add: seg_slots_def unat_drop_bit_div word_le_nat_alt div_le_mono)

text \<open>
  What a segment promises to the translation: exactly the ranges that lie in
  the block translate, by the block's offset.  The blocks the table can hold
  end below \<open>2 ^ 40\<close>, so the signed comparison of the macro is harmless.
\<close>

lemma sint_small: "uint (w :: u64) < 2 ^ 63 \<Longrightarrow> sint w = uint w"
  by (simp add: sint_uint signed_take_bit_int_eq_self_iff) (smt (verit) uint_ge_0)

lemma limit_bound:
  assumes "rb < rb + (sz :: u64)" "unat (drop_bit RA2PA_SHIFT (rb + sz - 1)) < NUM_RA2PA_SEGMENTS"
  shows "unat (rb + sz) \<le> 2 ^ 40"
proof -
  have "unat (rb + sz - 1) div 2 ^ 34 < 64"
    using assms(2) by (simp add: unat_drop_bit_div RA2PA_SHIFT_def NUM_RA2PA_SEGMENTS_def)
  then have "unat (rb + sz - 1) < 2 ^ 40" by (simp add: div_less_iff_less_mult)
  moreover have "unat (rb + sz - 1) = unat (rb + sz) - 1"
    using assms(1) by (intro unat_minus_one) auto
  ultimately show ?thesis by simp
qed

lemma sint_diff_small:
  assumes "unat (a :: u64) < 2 ^ 62" "unat b < 2 ^ 62"
  shows "sint (a - b) = int (unat a) - int (unat b)"
proof -
  have ab: "int (unat a) < 2 ^ 62" "int (unat b) < 2 ^ 62"
    using assms by (metis of_nat_less_iff of_nat_numeral of_nat_power)+
  have "sint (a - b) = signed_take_bit 63 (uint (a - b))" by (simp add: sint_uint)
  also have "uint (a - b) = (int (unat a) - int (unat b)) mod 2 ^ 64"
    by (simp add: uint_word_ariths)
  also have "signed_take_bit 63 ((int (unat a) - int (unat b)) mod 2 ^ 64) =
      signed_take_bit 63 (int (unat a) - int (unat b))"
    using signed_take_bit_take_bit [of 63 64 "int (unat a) - int (unat b)"] by (simp add: take_bit_eq_mod)
  also have "\<dots> = int (unat a) - int (unat b)"
  proof -
    have "0 \<le> x \<Longrightarrow> 0 \<le> y \<Longrightarrow> x < 2 ^ 62 \<Longrightarrow> y < 2 ^ 62 \<Longrightarrow> signed_take_bit 63 (x - y) = x - y" for x y :: int
      by (rule signed_take_bit_int_eq_self) simp_all
    then show ?thesis using ab of_nat_0_le_iff by blast
  qed
  finally show ?thesis .
qed

lemma range_conv_segment:
  assumes slot: "unat (drop_bit RA2PA_SHIFT ra) < NUM_RA2PA_SEGMENTS"
    and seg: "g_ra2pa_segment g (unat (drop_bit RA2PA_SHIFT ra)) =
      \<lparr> seg_base = rb, seg_limit = lim, seg_offset = off, seg_flags = MEM_SEGMENT \<rparr>"
    and lim: "unat lim \<le> 2 ^ 40" and n: "unat n < 2 ^ 63"
  shows "ra2pa_range_conv g ra n = Some pa \<longleftrightarrow>
    rb \<le> ra \<and> unat ra + unat n \<le> unat lim \<and> pa = off + ra"
proof -
  have "unat ra div 2 ^ 34 < 64"
    using slot by (simp add: unat_drop_bit_div RA2PA_SHIFT_def NUM_RA2PA_SEGMENTS_def)
  then have "unat ra < 2 ^ 40" by (simp add: div_less_iff_less_mult)
  then have d: "sint (lim - ra) = int (unat lim) - int (unat ra)"
    using lim by (intro sint_diff_small) simp_all
  have "uint n < 2 ^ 63" using n by (metis of_nat_less_iff of_nat_numeral of_nat_power uint_nat)
  then have sn: "sint n = int (unat n)" by (simp add: sint_small)
  have "\<not> (sint (lim - ra) < sint n) \<longleftrightarrow> unat ra + unat n \<le> unat lim"
    unfolding d sn by linarith
  with slot seg show ?thesis
    by (auto simp: ra2pa_range_conv_def Let_def MEM_SEGMENT_def not_less)
qed

subsection \<open>Committing blocks\<close>

text \<open>A live block as its four values; \<open>None\<close> while it is not configured.\<close>

definition mblock_live :: "mblock \<Rightarrow> (u32 \<times> u64 \<times> u64 \<times> u64) option" where
  "mblock_live mb = (if mb_state mb = MBLOCK_STATE_CONFIGURED
     then Some (mb_guestid mb, mb_membase mb, mb_realbase mb, mb_memsize mb) else None)"

text \<open>What the block will be once the pending \<open>RESF_Config\<close> operations are done.\<close>

definition mblock_planned :: "mblock \<Rightarrow> (u32 \<times> u64 \<times> u64 \<times> u64) option" where
  "mblock_planned mb = (if mbp_flags (mb_pip mb) = RESF_Config
     then Some (mbp_guestid (mb_pip mb), mbp_membase (mb_pip mb), mbp_realbase (mb_pip mb), mbp_memsize (mb_pip mb))
     else mblock_live mb)"

definition block_mapped :: "(nat \<Rightarrow> guest) \<Rightarrow> u32 \<times> u64 \<times> u64 \<times> u64 \<Rightarrow> bool" where
  "block_mapped gs b = (case b of (gid, membase, realbase, memsize) \<Rightarrow>
     unat gid < NGUESTS \<and> unat (drop_bit RA2PA_SHIFT (realbase + memsize - 1)) < NUM_RA2PA_SEGMENTS \<and>
     (\<forall>k\<in>seg_slots realbase memsize.
        g_ra2pa_segment (gs (unat gid)) k = mem_segment membase realbase memsize))"

definition blocks_disjoint :: "u32 \<times> u64 \<times> u64 \<times> u64 \<Rightarrow> u32 \<times> u64 \<times> u64 \<times> u64 \<Rightarrow> bool" where
  "blocks_disjoint b b' = (case (b, b') of ((g, _, rb, sz), (g', _, rb', sz')) \<Rightarrow>
     g = g' \<longrightarrow> seg_slots rb sz \<inter> seg_slots rb' sz' = {})"

text \<open>Only unconfigured blocks wait to be configured, and no two planned blocks share a slot of the same guest.\<close>

definition mem_plan_ok :: "config \<Rightarrow> bool" where
  "mem_plan_ok c \<longleftrightarrow>
     (\<forall>i<NMBLOCKS. mbp_flags (mb_pip (cfg_mblocks c i)) = RESF_Config \<longrightarrow>
        mb_state (cfg_mblocks c i) = MBLOCK_STATE_UNCONFIGURED) \<and>
     (\<forall>i<NMBLOCKS. \<forall>j<NMBLOCKS. \<forall>b b'. i \<noteq> j \<longrightarrow>
     mblock_planned (cfg_mblocks c i) = Some b \<longrightarrow> mblock_planned (cfg_mblocks c j) = Some b' \<longrightarrow>
     blocks_disjoint b b')"

text \<open>Every live block is mapped where it says it is.\<close>

definition mem_mapped :: "config \<Rightarrow> bool" where
  "mem_mapped c \<longleftrightarrow> (\<forall>i<NMBLOCKS. \<forall>b. mblock_live (cfg_mblocks c i) = Some b \<longrightarrow> block_mapped (cfg_guests c) b)"

definition guest_segments :: "nat set \<Rightarrow> ra2pa_segment \<Rightarrow> guest \<Rightarrow> guest" where
  "guest_segments K seg g =
     g\<lparr> g_ra2pa_segment := \<lambda>k. if k \<in> K then seg else g_ra2pa_segment g k \<rparr>"

lemma guest_segments_apply [simp]:
  "g_ra2pa_segment (guest_segments K seg g) k = (if k \<in> K then seg else g_ra2pa_segment g k)"
  by (simp add: guest_segments_def)

lemma res_memory_commit_config_eq:
  "res_memory_commit_config i c = Inr c' \<longleftrightarrow>
     (let mb = cfg_mblocks c i; p = mb_pip mb; gi = unat (mbp_guestid p) in
      mb_state mb = MBLOCK_STATE_UNCONFIGURED \<and> gi < NGUESTS \<and>
      unat (drop_bit RA2PA_SHIFT (mbp_realbase p + mbp_memsize p - 1)) < NUM_RA2PA_SEGMENTS \<and>
      c' = c\<lparr> cfg_mblocks := (cfg_mblocks c)(i := mb\<lparr> mb_realbase := mbp_realbase p,
                mb_membase := mbp_membase p, mb_memsize := mbp_memsize p,
                mb_guestid := mbp_guestid p, mb_state := MBLOCK_STATE_CONFIGURED \<rparr>),
              cfg_guests := (cfg_guests c)(gi := guest_segments (seg_slots (mbp_realbase p) (mbp_memsize p))
                (mem_segment (mbp_membase p) (mbp_realbase p) (mbp_memsize p)) (cfg_guests c gi)) \<rparr>)"
  by (auto simp: res_memory_commit_config_def Let_def hv_simps upd_guest_hv_eq assign_ra2pa_segments_eq
      upd_mblock_def upd_guest_def mem_segment_def guest_segments_def)

lemma res_memory_commit_unconfig_eq:
  "res_memory_commit_unconfig i c = Inr c' \<longleftrightarrow>
     (let mb = cfg_mblocks c i; gi = unat (mb_guestid mb) in
      mb_state mb = MBLOCK_STATE_CONFIGURED \<and> gi < NGUESTS \<and>
      unat (drop_bit RA2PA_SHIFT (mb_realbase mb + mb_memsize mb - 1)) < NUM_RA2PA_SEGMENTS \<and>
      c' = c\<lparr> cfg_mblocks := (cfg_mblocks c)(i := mb\<lparr> mb_state := MBLOCK_STATE_UNCONFIGURED \<rparr>),
              cfg_guests := (cfg_guests c)(gi := guest_segments (seg_slots (mb_realbase mb) (mb_memsize mb))
                init_ra2pa_segment (cfg_guests c gi)) \<rparr>)"
  by (auto simp: res_memory_commit_unconfig_def Let_def hv_simps upd_guest_hv_eq clear_ra2pa_segments_eq
      upd_mblock_def upd_guest_def guest_segments_def)

lemma res_memory_commit_config_state:
  "res_memory_commit_config i c = Inr c' \<Longrightarrow> mb_state (cfg_mblocks c' i) = MBLOCK_STATE_CONFIGURED"
  by (auto simp: res_memory_commit_config_eq Let_def)

lemma res_memory_commit_unconfig_state:
  "res_memory_commit_unconfig i c = Inr c' \<Longrightarrow> mb_state (cfg_mblocks c' i) = MBLOCK_STATE_UNCONFIGURED \<and>
     mb_state (cfg_mblocks c i) = MBLOCK_STATE_CONFIGURED"
  by (auto simp: res_memory_commit_unconfig_eq Let_def)

lemma block_mapped_frame:
  assumes "block_mapped gs b" "fst b = g \<longrightarrow> seg_slots (fst (snd (snd b))) (snd (snd (snd b))) \<inter> K = {}"
  shows "block_mapped (gs(unat g := guest_segments K seg (gs (unat g)))) b"
  using assms by (auto simp: block_mapped_def split: prod.splits) (metis disjoint_iff word_unat_eq_iff)

lemma set_mblock_flags_simps [simp]:
  "cfg_guests (set_mblock_flags i fl c) = cfg_guests c"
  "cfg_mblocks (set_mblock_flags i fl c) = (cfg_mblocks c)(i := (cfg_mblocks c i)
     \<lparr> mb_pip := (mb_pip (cfg_mblocks c i))\<lparr> mbp_flags := fl \<rparr> \<rparr>)"
  by (simp_all add: set_mblock_flags_def upd_mblock_def)

lemma mblock_states [simp]: "MBLOCK_STATE_CONFIGURED \<noteq> MBLOCK_STATE_UNCONFIGURED"
  "MBLOCK_STATE_UNCONFIGURED \<noteq> MBLOCK_STATE_CONFIGURED"
  by (simp_all add: MBLOCK_STATE_CONFIGURED_def MBLOCK_STATE_UNCONFIGURED_def)

lemma res_memory_commit_1_other:
  "mbp_flags (mb_pip (cfg_mblocks c i)) \<noteq> fl \<Longrightarrow> res_memory_commit_1 fl i c = Inr c"
  by (simp add: res_memory_commit_1_def)

text \<open>
  One step of the configuration phase: the block becomes live with the values
  the machine description gave it, every block already live stays mapped, and
  the plan is unchanged.
\<close>

lemma res_memory_commit_1_config:
  assumes "res_memory_commit_1 RESF_Config i c = Inr c'" "i < NMBLOCKS" "mem_plan_ok c" "mem_mapped c"
  shows "mem_mapped c'"
    and "\<And>j. mblock_planned (cfg_mblocks c' j) = mblock_planned (cfg_mblocks c j)"
    and "mbp_flags (mb_pip (cfg_mblocks c' i)) \<noteq> RESF_Config"
    and "\<And>j. j \<noteq> i \<Longrightarrow> cfg_mblocks c' j = cfg_mblocks c j"
proof -
  let ?mb = "cfg_mblocks c i"
  let ?p = "mb_pip ?mb"
  have "mem_mapped c' \<and> (\<forall>j. mblock_planned (cfg_mblocks c' j) = mblock_planned (cfg_mblocks c j)) \<and>
    mbp_flags (mb_pip (cfg_mblocks c' i)) \<noteq> RESF_Config \<and> (\<forall>j. j \<noteq> i \<longrightarrow> cfg_mblocks c' j = cfg_mblocks c j)"
  proof (cases "mbp_flags ?p = RESF_Config")
    case False
    with assms show ?thesis by (auto simp: res_memory_commit_1_other)
  next
    case True
    from assms(1) True obtain c1 where c1: "res_memory_commit_config i c = Inr c1"
      "c' = set_mblock_flags i RESF_Noop c1"
      by (auto simp: res_memory_commit_1_def res_switch_def hv_simps)
    let ?b = "(mbp_guestid ?p, mbp_membase ?p, mbp_realbase ?p, mbp_memsize ?p)"
    from c1(1) have st: "mb_state ?mb = MBLOCK_STATE_UNCONFIGURED" "unat (mbp_guestid ?p) < NGUESTS"
      "unat (drop_bit RA2PA_SHIFT (mbp_realbase ?p + mbp_memsize ?p - 1)) < NUM_RA2PA_SEGMENTS"
      and mbs: "cfg_mblocks c' = (cfg_mblocks c)(i := ?mb\<lparr> mb_pip := ?p\<lparr> mbp_flags := RESF_Noop \<rparr>,
        mb_realbase := mbp_realbase ?p, mb_membase := mbp_membase ?p, mb_memsize := mbp_memsize ?p,
        mb_guestid := mbp_guestid ?p, mb_state := MBLOCK_STATE_CONFIGURED \<rparr>)"
      and gs: "cfg_guests c' = (cfg_guests c)(unat (mbp_guestid ?p) :=
        guest_segments (seg_slots (mbp_realbase ?p) (mbp_memsize ?p))
          (mem_segment (mbp_membase ?p) (mbp_realbase ?p) (mbp_memsize ?p))
          (cfg_guests c (unat (mbp_guestid ?p))))"
      unfolding res_memory_commit_config_eq Let_def c1(2) by auto
    have plan: "mblock_planned ?mb = Some ?b" using True by (simp add: mblock_planned_def)
    have "block_mapped (cfg_guests c') b" if j: "j < NMBLOCKS" "mblock_live (cfg_mblocks c' j) = Some b" for j b
    proof (cases "j = i")
      case True
      then have "b = ?b" using j mbs by (simp add: mblock_live_def)
      then show ?thesis using st gs by (simp add: block_mapped_def)
    next
      case False
      then have live: "mblock_live (cfg_mblocks c j) = Some b" using j mbs by simp
      then have "mblock_planned (cfg_mblocks c j) = Some b"
        using assms(3) j(1) by (auto simp: mblock_planned_def mblock_live_def mem_plan_ok_def split: if_splits)
      then have "blocks_disjoint b ?b"
        using assms(2,3) j(1) False plan unfolding mem_plan_ok_def by blast
      then show ?thesis
        using assms(4) live j(1) unfolding gs
        by (intro block_mapped_frame) (auto simp: mem_mapped_def blocks_disjoint_def)
    qed
    moreover have "mblock_planned (cfg_mblocks c' j) = mblock_planned (cfg_mblocks c j)" for j
      using True by (auto simp: mbs mblock_planned_def mblock_live_def)
    ultimately show ?thesis using mbs by (auto simp: mem_mapped_def)
  qed
  then show "mem_mapped c'"
    and "\<And>j. mblock_planned (cfg_mblocks c' j) = mblock_planned (cfg_mblocks c j)"
    and "mbp_flags (mb_pip (cfg_mblocks c' i)) \<noteq> RESF_Config"
    and "\<And>j. j \<noteq> i \<Longrightarrow> cfg_mblocks c' j = cfg_mblocks c j" by blast+
qed

lemma mem_plan_ok_commit_1:
  assumes "res_memory_commit_1 RESF_Config i c = Inr c'" "i < NMBLOCKS" "mem_plan_ok c" "mem_mapped c"
  shows "mem_plan_ok c'"
proof -
  note step = res_memory_commit_1_config [OF assms]
  have "mb_state (cfg_mblocks c' j) = MBLOCK_STATE_UNCONFIGURED"
    if "j < NMBLOCKS" "mbp_flags (mb_pip (cfg_mblocks c' j)) = RESF_Config" for j
    using that step(3,4) assms(3) unfolding mem_plan_ok_def by metis
  then show ?thesis using assms(3) step(2) unfolding mem_plan_ok_def by simp
qed

text \<open>The whole configuration phase of the memory resource.\<close>

lemma res_memory_commit_config_phase:
  assumes "res_memory_commit RESF_Config c = Inr c'" "mem_plan_ok c" "mem_mapped c"
  shows "mem_mapped c'" "mem_plan_ok c'"
    and "\<And>i. i < NMBLOCKS \<Longrightarrow> mblock_live (cfg_mblocks c' i) = mblock_planned (cfg_mblocks c i)"
proof -
  let ?P = "\<lambda>k t. mem_mapped t \<and> mem_plan_ok t \<and>
    (\<forall>j. mblock_planned (cfg_mblocks t j) = mblock_planned (cfg_mblocks c j)) \<and>
    (\<forall>j<k. mbp_flags (mb_pip (cfg_mblocks t j)) \<noteq> RESF_Config)"
  have fin: "?P NMBLOCKS c'"
  proof (rule hfold_upt_inv [where P = ?P and s = c and f = "res_memory_commit_1 RESF_Config"])
    show "hfold (res_memory_commit_1 RESF_Config) [0..<NMBLOCKS] c = Inr c'"
      using assms(1) by (simp add: res_memory_commit_def)
    show "?P 0 c" using assms by simp
    fix i t t'
    assume i: "i < NMBLOCKS" and P: "?P i t" and t: "res_memory_commit_1 RESF_Config i t = Inr t'"
    from P have ok: "mem_plan_ok t" "mem_mapped t" by auto
    note step = res_memory_commit_1_config [OF t i ok] mem_plan_ok_commit_1 [OF t i ok]
    have "mbp_flags (mb_pip (cfg_mblocks t' j)) \<noteq> RESF_Config" if "j < Suc i" for j
      using that P step(3,4) by (cases "j = i") auto
    with P step show "?P (Suc i) t'" by simp
  qed
  then show "mem_mapped c'" "mem_plan_ok c'" by blast+
  fix i
  assume "i < NMBLOCKS"
  with fin have "mblock_live (cfg_mblocks c' i) = mblock_planned (cfg_mblocks c' i)"
    by (simp add: mblock_planned_def)
  with fin show "mblock_live (cfg_mblocks c' i) = mblock_planned (cfg_mblocks c i)" by simp
qed

text \<open>
  The removal phase: no live block loses its mapping to the removal of another
  one, as long as the live blocks do not share slots.
\<close>

definition mem_live_ok :: "config \<Rightarrow> bool" where
  "mem_live_ok c \<longleftrightarrow> mem_mapped c \<and> (\<forall>i<NMBLOCKS. \<forall>j<NMBLOCKS. \<forall>b b'. i \<noteq> j \<longrightarrow>
     mblock_live (cfg_mblocks c i) = Some b \<longrightarrow> mblock_live (cfg_mblocks c j) = Some b' \<longrightarrow>
     blocks_disjoint b b')"

lemma res_memory_commit_1_unconfig:
  assumes "res_memory_commit_1 RESF_Unconfig i c = Inr c'" "i < NMBLOCKS" "mem_live_ok c"
  shows "mem_live_ok c'"
    and "mblock_live (cfg_mblocks c' i) =
      (if mbp_flags (mb_pip (cfg_mblocks c i)) = RESF_Unconfig then None else mblock_live (cfg_mblocks c i))"
    and "\<And>j. j \<noteq> i \<Longrightarrow> cfg_mblocks c' j = cfg_mblocks c j"
proof -
  let ?mb = "cfg_mblocks c i"
  have "mem_live_ok c' \<and> mblock_live (cfg_mblocks c' i) =
      (if mbp_flags (mb_pip ?mb) = RESF_Unconfig then None else mblock_live ?mb) \<and>
      (\<forall>j. j \<noteq> i \<longrightarrow> cfg_mblocks c' j = cfg_mblocks c j)"
  proof (cases "mbp_flags (mb_pip ?mb) = RESF_Unconfig")
    case False
    with assms show ?thesis by (auto simp: res_memory_commit_1_other)
  next
    case True
    from assms(1) True obtain c1 where c1: "res_memory_commit_unconfig i c = Inr c1"
      "c' = set_mblock_flags i RESF_Noop c1"
      by (auto simp: res_memory_commit_1_def res_switch_def hv_simps)
    let ?b = "(mb_guestid ?mb, mb_membase ?mb, mb_realbase ?mb, mb_memsize ?mb)"
    from c1(1) have st: "mb_state ?mb = MBLOCK_STATE_CONFIGURED"
      and mbs: "cfg_mblocks c' = (cfg_mblocks c)(i := ?mb\<lparr> mb_pip := (mb_pip ?mb)\<lparr> mbp_flags := RESF_Noop \<rparr>,
        mb_state := MBLOCK_STATE_UNCONFIGURED \<rparr>)"
      and gs: "cfg_guests c' = (cfg_guests c)(unat (mb_guestid ?mb) :=
        guest_segments (seg_slots (mb_realbase ?mb) (mb_memsize ?mb)) init_ra2pa_segment
          (cfg_guests c (unat (mb_guestid ?mb))))"
      unfolding res_memory_commit_unconfig_eq Let_def c1(2) by auto
    have live: "mblock_live ?mb = Some ?b" using st by (simp add: mblock_live_def)
    have dead: "mblock_live (cfg_mblocks c' i) = None" by (simp add: mbs mblock_live_def)
    have "block_mapped (cfg_guests c') b" if j: "j < NMBLOCKS" "mblock_live (cfg_mblocks c' j) = Some b" for j b
    proof -
      have "j \<noteq> i" using j dead by auto
      then have "mblock_live (cfg_mblocks c j) = Some b" using j mbs by simp
      moreover from this have "blocks_disjoint b ?b"
        using assms(2,3) j(1) \<open>j \<noteq> i\<close> live unfolding mem_live_ok_def by blast
      ultimately show ?thesis
        using assms(3) j(1) unfolding gs
        by (intro block_mapped_frame) (auto simp: mem_live_ok_def mem_mapped_def blocks_disjoint_def)
    qed
    moreover have "blocks_disjoint b b'" if "j < NMBLOCKS" "k < NMBLOCKS" "j \<noteq> k"
      "mblock_live (cfg_mblocks c' j) = Some b" "mblock_live (cfg_mblocks c' k) = Some b'" for j k b b'
    proof -
      have "j \<noteq> i" "k \<noteq> i" using that dead by auto
      then have "mblock_live (cfg_mblocks c j) = Some b" "mblock_live (cfg_mblocks c k) = Some b'"
        using that mbs by simp_all
      then show ?thesis using that(1-3) assms(3) unfolding mem_live_ok_def by blast
    qed
    ultimately show ?thesis using mbs dead True by (simp add: mem_live_ok_def mem_mapped_def)
  qed
  then show "mem_live_ok c'"
    and "mblock_live (cfg_mblocks c' i) =
      (if mbp_flags (mb_pip (cfg_mblocks c i)) = RESF_Unconfig then None else mblock_live (cfg_mblocks c i))"
    and "\<And>j. j \<noteq> i \<Longrightarrow> cfg_mblocks c' j = cfg_mblocks c j" by blast+
qed

lemma res_memory_commit_unconfig_phase:
  assumes "res_memory_commit RESF_Unconfig c = Inr c'" "mem_live_ok c"
  shows "mem_live_ok c'"
    and "\<And>i. i < NMBLOCKS \<Longrightarrow> mblock_live (cfg_mblocks c' i) =
      (if mbp_flags (mb_pip (cfg_mblocks c i)) = RESF_Unconfig then None else mblock_live (cfg_mblocks c i))"
proof -
  let ?P = "\<lambda>k t. mem_live_ok t \<and> (\<forall>j\<ge>k. cfg_mblocks t j = cfg_mblocks c j) \<and>
    (\<forall>j<k. mblock_live (cfg_mblocks t j) =
      (if mbp_flags (mb_pip (cfg_mblocks c j)) = RESF_Unconfig then None else mblock_live (cfg_mblocks c j)))"
  have fin: "?P NMBLOCKS c'"
  proof (rule hfold_upt_inv [where P = ?P and s = c and f = "res_memory_commit_1 RESF_Unconfig"])
    show "hfold (res_memory_commit_1 RESF_Unconfig) [0..<NMBLOCKS] c = Inr c'"
      using assms(1) by (simp add: res_memory_commit_def)
    show "?P 0 c" using assms by simp
    fix i t t'
    assume i: "i < NMBLOCKS" and P: "?P i t" and t: "res_memory_commit_1 RESF_Unconfig i t = Inr t'"
    from P have ok: "mem_live_ok t" by auto
    note step = res_memory_commit_1_unconfig [OF t i ok]
    have "mblock_live (cfg_mblocks t' j) =
      (if mbp_flags (mb_pip (cfg_mblocks c j)) = RESF_Unconfig then None else mblock_live (cfg_mblocks c j))"
      if "j < Suc i" for j
      using that P step(2) step(3) [of j] by (cases "j = i") auto
    with P step show "?P (Suc i) t'" by simp
  qed
  then show "mem_live_ok c'" by blast
  fix i
  assume "i < NMBLOCKS"
  with fin show "mblock_live (cfg_mblocks c' i) =
      (if mbp_flags (mb_pip (cfg_mblocks c i)) = RESF_Unconfig then None else mblock_live (cfg_mblocks c i))"
    by blast
qed

text \<open>Translation through a mapped block.\<close>

lemma block_mapped_translates:
  assumes b: "block_mapped gs (gid, membase, realbase, memsize)" and nowrap: "realbase < realbase + memsize"
    and ra: "realbase \<le> ra" "unat ra + unat n \<le> unat (realbase + memsize)" and n: "0 < n" "unat n < 2 ^ 63"
  shows "ra2pa_range_conv (gs (unat gid)) ra n = Some (membase + (ra - realbase))"
proof -
  have "0 < unat n" using n(1) by (simp add: word_less_nat_alt)
  then have "unat ra \<le> unat (realbase + memsize) - 1" using ra(2) by linarith
  also have "\<dots> = unat (realbase + memsize - 1)" using nowrap by (intro unat_minus_one [symmetric]) auto
  finally have le: "ra \<le> realbase + memsize - 1" by (simp add: word_le_nat_alt)
  from b have eidx: "unat (drop_bit RA2PA_SHIFT (realbase + memsize - 1)) < NUM_RA2PA_SEGMENTS"
    and seg: "\<And>k. k \<in> seg_slots realbase memsize \<Longrightarrow>
      g_ra2pa_segment (gs (unat gid)) k = mem_segment membase realbase memsize"
    by (auto simp: block_mapped_def)
  have in': "unat (drop_bit RA2PA_SHIFT ra) \<in> seg_slots realbase memsize"
    using ra(1) le by (rule in_seg_slots)
  then have slot: "unat (drop_bit RA2PA_SHIFT ra) < NUM_RA2PA_SEGMENTS"
    using eidx by (simp add: seg_slots_def)
  have "ra2pa_range_conv (gs (unat gid)) ra n = Some (membase - realbase + ra)"
    using range_conv_segment [OF slot _ limit_bound [OF nowrap eidx] n(2)] seg [OF in'] ra
    by (simp add: mem_segment_def)
  then show ?thesis by simp
qed

subsection \<open>What parsing accepts\<close>

text \<open>
  Parsing a block node either leaves the configuration alone or records checked
  values in the block's \<open>pip\<close>, with a flag that fits the block's state.
\<close>

definition mblock_noted :: "config \<Rightarrow> config \<Rightarrow> bool" where
  "mblock_noted c c' \<longleftrightarrow> (\<exists>i membase memsize realbase gid fl.
     i < NMBLOCKS \<and> membase < membase + memsize \<and> realbase < realbase + memsize \<and> unat gid < NGUESTS \<and>
     (fl = RESF_Config \<and> mb_state (cfg_mblocks c i) = MBLOCK_STATE_UNCONFIGURED \<or>
      mb_state (cfg_mblocks c i) \<noteq> MBLOCK_STATE_UNCONFIGURED \<and>
        (fl = RESF_Noop \<or> fl = RESF_Modify \<or> fl = mbp_flags (mb_pip (cfg_mblocks c i)))) \<and>
     c' = c\<lparr> cfg_mblocks := (cfg_mblocks c)(i := (cfg_mblocks c i)\<lparr> mb_pip :=
        (mb_pip (cfg_mblocks c i))\<lparr> mbp_membase := membase, mbp_memsize := memsize,
          mbp_realbase := realbase, mbp_guestid := gid, mbp_flags := fl \<rparr> \<rparr>) \<rparr>)"

lemma mblock_notedI:
  assumes "unat res_id < NMBLOCKS" "membase < membase + memsize" "realbase < realbase + memsize"
    "unat (gid :: u64) < NGUESTS"
    "fl = RESF_Config \<and> mb_state (cfg_mblocks c (unat res_id)) = MBLOCK_STATE_UNCONFIGURED \<or>
      mb_state (cfg_mblocks c (unat res_id)) \<noteq> MBLOCK_STATE_UNCONFIGURED \<and>
        (fl = RESF_Noop \<or> fl = RESF_Modify \<or> fl = mbp_flags (mb_pip (cfg_mblocks c (unat res_id))))"
  shows "mblock_noted c (c\<lparr> cfg_mblocks := (cfg_mblocks c)(unat res_id := (cfg_mblocks c (unat res_id))\<lparr> mb_pip :=
        (mb_pip (cfg_mblocks c (unat res_id)))\<lparr> mbp_membase := membase, mbp_memsize := memsize,
          mbp_realbase := realbase, mbp_guestid := ucast gid, mbp_flags := fl \<rparr> \<rparr>) \<rparr>)"
  unfolding mblock_noted_def
  by (rule exI [of _ "unat res_id"], rule exI [of _ membase], rule exI [of _ memsize],
      rule exI [of _ realbase], rule exI [of _ "ucast gid"], rule exI [of _ fl])
    (use assms le_less_trans [OF unat_ucast_le assms(4)] in simp)

lemma mblock_notedI_same_flag:
  assumes "unat res_id < NMBLOCKS" "membase < membase + memsize" "realbase < realbase + memsize"
    "unat (gid :: u64) < NGUESTS" "mb_state (cfg_mblocks c (unat res_id)) \<noteq> MBLOCK_STATE_UNCONFIGURED"
  shows "mblock_noted c (c\<lparr> cfg_mblocks := (cfg_mblocks c)(unat res_id := (cfg_mblocks c (unat res_id))\<lparr> mb_pip :=
        (mb_pip (cfg_mblocks c (unat res_id)))\<lparr> mbp_membase := membase, mbp_memsize := memsize,
          mbp_realbase := realbase, mbp_guestid := ucast gid \<rparr> \<rparr>) \<rparr>)"
  using mblock_notedI [OF assms(1-4), of "mbp_flags (mb_pip (cfg_mblocks c (unat res_id)))" c] assms(5)
  by simp

lemma res_memory_parse_1_post:
  "hpost (\<lambda>r. result_cfg r = c \<or> mblock_noted c (result_cfg r)) (res_memory_parse_1 md n (c, f))"
  unfolding res_memory_parse_1_def
  by (intro hpost_rules)
    (simp_all add: not_le set_mblock_flags_def upd_mblock_def mblock_notedI mblock_notedI_same_flag)

text \<open>
  What the commit phases can rely on after a parse: a block to be configured or
  modified has a valid owner and address ranges that do not wrap around.
\<close>

definition mem_parse_ok :: "config \<Rightarrow> bool" where
  "mem_parse_ok c \<longleftrightarrow> (\<forall>i<NMBLOCKS. let mb = cfg_mblocks c i; p = mb_pip mb in
     mbp_flags p \<in> {RESF_Noop, RESF_Unconfig, RESF_Config, RESF_Modify} \<and>
     (mbp_flags p = RESF_Config \<longrightarrow> mb_state mb = MBLOCK_STATE_UNCONFIGURED) \<and>
     (mbp_flags p \<in> {RESF_Unconfig, RESF_Modify} \<longrightarrow> mb_state mb \<noteq> MBLOCK_STATE_UNCONFIGURED) \<and>
     (mbp_flags p \<in> {RESF_Config, RESF_Modify} \<longrightarrow> unat (mbp_guestid p) < NGUESTS \<and>
        mbp_membase p < mbp_membase p + mbp_memsize p \<and> mbp_realbase p < mbp_realbase p + mbp_memsize p))"

lemma mem_parse_ok_noted:
  assumes "mem_parse_ok c" "mblock_noted c c'"
  shows "mem_parse_ok c'"
proof -
  from assms(2) obtain i membase memsize realbase gid fl where n: "i < NMBLOCKS"
    "membase < membase + memsize" "realbase < realbase + memsize" "unat gid < NGUESTS"
    "fl = RESF_Config \<and> mb_state (cfg_mblocks c i) = MBLOCK_STATE_UNCONFIGURED \<or>
      mb_state (cfg_mblocks c i) \<noteq> MBLOCK_STATE_UNCONFIGURED \<and>
        (fl = RESF_Noop \<or> fl = RESF_Modify \<or> fl = mbp_flags (mb_pip (cfg_mblocks c i)))"
    and c'': "c' = c\<lparr> cfg_mblocks := (cfg_mblocks c)(i := (cfg_mblocks c i)\<lparr> mb_pip :=
        (mb_pip (cfg_mblocks c i))\<lparr> mbp_membase := membase, mbp_memsize := memsize,
          mbp_realbase := realbase, mbp_guestid := gid, mbp_flags := fl \<rparr> \<rparr>) \<rparr>"
    unfolding mblock_noted_def by blast
  then have c': "cfg_mblocks c' = (cfg_mblocks c)(i := (cfg_mblocks c i)\<lparr> mb_pip :=
        (mb_pip (cfg_mblocks c i))\<lparr> mbp_membase := membase, mbp_memsize := memsize,
          mbp_realbase := realbase, mbp_guestid := gid, mbp_flags := fl \<rparr> \<rparr>)" by simp
  have "let mb = cfg_mblocks c' j; p = mb_pip mb in
     mbp_flags p \<in> {RESF_Noop, RESF_Unconfig, RESF_Config, RESF_Modify} \<and>
     (mbp_flags p = RESF_Config \<longrightarrow> mb_state mb = MBLOCK_STATE_UNCONFIGURED) \<and>
     (mbp_flags p \<in> {RESF_Unconfig, RESF_Modify} \<longrightarrow> mb_state mb \<noteq> MBLOCK_STATE_UNCONFIGURED) \<and>
     (mbp_flags p \<in> {RESF_Config, RESF_Modify} \<longrightarrow> unat (mbp_guestid p) < NGUESTS \<and>
        mbp_membase p < mbp_membase p + mbp_memsize p \<and> mbp_realbase p < mbp_realbase p + mbp_memsize p)"
    if "j < NMBLOCKS" for j
  proof (cases "j = i")
    case True
    with n assms(1) that show ?thesis unfolding c' mem_parse_ok_def Let_def by fastforce
  next
    case False
    with assms(1) that show ?thesis unfolding c' mem_parse_ok_def Let_def by simp
  qed
  then show ?thesis unfolding mem_parse_ok_def by blast
qed

lemma res_memory_prep_eq:
  "res_memory_prep c = Inr (c\<lparr> cfg_mblocks := \<lambda>i. if i < NMBLOCKS then (cfg_mblocks c i)\<lparr> mb_pip :=
     (mb_pip (cfg_mblocks c i))\<lparr> mbp_flags := if mb_state (cfg_mblocks c i) = MBLOCK_STATE_UNCONFIGURED
       then RESF_Noop else RESF_Unconfig \<rparr> \<rparr> else cfg_mblocks c i \<rparr>)"
  unfolding res_memory_prep_def
  by (subst hfold_array [where up = cfg_mblocks_update and h = "\<lambda>i mb. mb\<lparr> mb_pip := (mb_pip mb)\<lparr> mbp_flags :=
        if mb_state mb = MBLOCK_STATE_UNCONFIGURED then RESF_Noop else RESF_Unconfig \<rparr> \<rparr>"])
    (auto simp: set_mblock_flags_def upd_mblock_def update_compose)

lemma mem_parse_ok_prep: "res_memory_prep c = Inr c' \<Longrightarrow> mem_parse_ok c'"
  by (auto simp: res_memory_prep_eq mem_parse_ok_def Let_def split: if_splits)

lemma res_memory_parse_ok:
  assumes "mem_parse_ok c"
  shows "hpost (\<lambda>(st, c', f'). mem_parse_ok c') (res_memory_parse (c, f))"
  unfolding res_memory_parse_def using assms
proof (rule res_parse_nodes_inv)
  fix md n c f
  assume "mem_parse_ok c"
  then show "hpost (\<lambda>r. mem_parse_ok (result_cfg r)) (res_memory_parse_1 md n (c, f))"
    by (intro hpost_mono [OF res_memory_parse_1_post]) (auto intro: mem_parse_ok_noted)
qed

text \<open>Memory blocks are a resource in the sense of \<open>resource_kind\<close>.\<close>

lemma res_memory_commit_1_frame:
  assumes "res_memory_commit_1 fl i c = Inr c'" "j \<noteq> i"
  shows "cfg_mblocks c' j = cfg_mblocks c j"
  using assms
  by (auto simp: res_memory_commit_1_def res_switch_def res_memory_commit_modify_def hv_simps
      res_memory_commit_config_eq res_memory_commit_unconfig_eq Let_def split: if_splits)

lemma res_memory_commit_1_self:
  assumes "res_memory_commit_1 fl i c = Inr c'" "mbp_flags (mb_pip (cfg_mblocks c i)) = fl"
  shows "mbp_flags (mb_pip (cfg_mblocks c' i)) = RESF_Noop"
    and "mb_state (cfg_mblocks c' i) \<noteq> MBLOCK_STATE_UNCONFIGURED \<longleftrightarrow>
      fl = RESF_Config \<or> fl \<noteq> RESF_Unconfig \<and> mb_state (cfg_mblocks c i) \<noteq> MBLOCK_STATE_UNCONFIGURED"
proof -
  from assms obtain c1 where c1: "c' = set_mblock_flags i RESF_Noop c1"
    and sw: "res_switch fl (Inr c) (res_memory_commit_unconfig i c) (res_memory_commit_config i c)
      (Inl Assert_fail) (res_memory_commit_modify i c) = Inr c1"
    by (auto simp: res_memory_commit_1_def Let_def hbind_eq_Inr)
  then show "mbp_flags (mb_pip (cfg_mblocks c' i)) = RESF_Noop" by simp
  have "mb_state (cfg_mblocks c' i) = mb_state (cfg_mblocks c1 i)" using c1 by simp
  with sw show "mb_state (cfg_mblocks c' i) \<noteq> MBLOCK_STATE_UNCONFIGURED \<longleftrightarrow>
      fl = RESF_Config \<or> fl \<noteq> RESF_Unconfig \<and> mb_state (cfg_mblocks c i) \<noteq> MBLOCK_STATE_UNCONFIGURED"
    by (cases rule: res_switch_cases)
      (auto simp: res_memory_commit_modify_def hbind_eq_Inr
        dest!: res_memory_commit_config_state res_memory_commit_unconfig_state)
qed

interpretation mblocks: resource_kind "[0..<NMBLOCKS]" "\<lambda>c i. mbp_flags (mb_pip (cfg_mblocks c i))"
  res_memory_commit_1 "\<lambda>_. True" "\<lambda>c i. mb_state (cfg_mblocks c i) \<noteq> MBLOCK_STATE_UNCONFIGURED"
proof (unfold_locales, goal_cases)
  case (2 c i fl)
  then show ?case by (rule res_memory_commit_1_other)
next
  case (4 i c fl c')
  then show ?case by (intro res_memory_commit_1_self(1))
next
  case (6 i c fl c')
  then show ?case by (intro res_memory_commit_1_self(2))
qed (auto simp only: distinct_upt dest!: res_memory_commit_1_frame)

lemmas res_memory_commit_filter = mblocks.commit_filter [OF TrueI, folded res_memory_commit_def]

text \<open>Cleared slots stay cleared through the removal phase.\<close>

lemma res_memory_commit_1_unconfig_cleared:
  assumes "res_memory_commit_1 RESF_Unconfig i c = Inr c'"
    "g_ra2pa_segment (cfg_guests c g) k = init_ra2pa_segment"
  shows "g_ra2pa_segment (cfg_guests c' g) k = init_ra2pa_segment"
  using assms
  by (auto simp: res_memory_commit_1_def res_switch_def hv_simps res_memory_commit_unconfig_eq Let_def
      split: if_splits)

lemma res_memory_commit_1_unconfig_clears:
  assumes "res_memory_commit_1 RESF_Unconfig i c = Inr c'"
    "mbp_flags (mb_pip (cfg_mblocks c i)) = RESF_Unconfig"
    "mblock_live (cfg_mblocks c i) = Some (gid, membase, realbase, memsize)" "k \<in> seg_slots realbase memsize"
  shows "g_ra2pa_segment (cfg_guests c' (unat gid)) k = init_ra2pa_segment"
  using assms
  by (auto simp: res_memory_commit_1_def res_switch_def hv_simps res_memory_commit_unconfig_eq Let_def
      mblock_live_def split: if_splits)

lemma res_memory_commit_unconfig_clears:
  assumes "res_memory_commit RESF_Unconfig c = Inr c'" "i < NMBLOCKS"
    "mbp_flags (mb_pip (cfg_mblocks c i)) = RESF_Unconfig"
    "mblock_live (cfg_mblocks c i) = Some (gid, membase, realbase, memsize)" "k \<in> seg_slots realbase memsize"
  shows "g_ra2pa_segment (cfg_guests c' (unat gid)) k = init_ra2pa_segment"
proof -
  let ?P = "\<lambda>n t. (n \<le> i \<longrightarrow> cfg_mblocks t i = cfg_mblocks c i) \<and>
    (i < n \<longrightarrow> g_ra2pa_segment (cfg_guests t (unat gid)) k = init_ra2pa_segment)"
  have "?P NMBLOCKS c'"
  proof (rule hfold_upt_inv [where P = ?P and s = c and f = "res_memory_commit_1 RESF_Unconfig"])
    show "hfold (res_memory_commit_1 RESF_Unconfig) [0..<NMBLOCKS] c = Inr c'"
      using assms(1) by (simp add: res_memory_commit_def)
    fix n t t'
    assume P: "?P n t" and t: "res_memory_commit_1 RESF_Unconfig n t = Inr t'"
    consider "n < i" | "n = i" | "i < n" by linarith
    then show "?P (Suc n) t'"
    proof cases
      case 1
      with P res_memory_commit_1_frame [OF t, of i] show ?thesis by simp
    next
      case 2
      with P res_memory_commit_1_unconfig_clears [OF t _ _ assms(5)] assms(3,4) show ?thesis by simp
    next
      case 3
      with P res_memory_commit_1_unconfig_cleared [OF t, of "unat gid" k] show ?thesis by simp
    qed
  qed simp
  with assms(2) show ?thesis by simp
qed

subsection \<open>Properties\<close>

lemma block_mapped_exact:
  assumes b: "block_mapped gs (gid, membase, realbase, memsize)" and nowrap: "realbase < realbase + memsize"
    and slot: "unat (drop_bit RA2PA_SHIFT ra) \<in> seg_slots realbase memsize" and n: "unat n < 2 ^ 63"
  shows "ra2pa_range_conv (gs (unat gid)) ra n = Some pa \<longleftrightarrow>
    realbase \<le> ra \<and> unat ra + unat n \<le> unat (realbase + memsize) \<and> pa = membase + (ra - realbase)"
proof -
  from b slot have eidx: "unat (drop_bit RA2PA_SHIFT (realbase + memsize - 1)) < NUM_RA2PA_SEGMENTS"
    and seg: "g_ra2pa_segment (gs (unat gid)) (unat (drop_bit RA2PA_SHIFT ra)) = mem_segment membase realbase memsize"
    by (auto simp: block_mapped_def)
  from slot eidx have "unat (drop_bit RA2PA_SHIFT ra) < NUM_RA2PA_SEGMENTS" by (simp add: seg_slots_def)
  from range_conv_segment [OF this seg [unfolded mem_segment_def] limit_bound [OF nowrap eidx] n]
  show ?thesis by (simp add: algebra_simps)
qed

text \<open>
  C1. After the configuration phase of the memory resource, in every slot of a
  block that was to be configured or was already live, the hypercall address
  translation accepts exactly the ranges that lie inside the block, and maps
  them to the block's physical memory.  The blocks of a guest must not share a
  slot of the segment table, which the code does not check.
\<close>

theorem res_memory_config_translates:
  assumes "res_memory_commit RESF_Config c = Inr c'" "mem_plan_ok c" "mem_mapped c"
    and "i < NMBLOCKS" "mblock_planned (cfg_mblocks c i) = Some (gid, membase, realbase, memsize)"
    and "realbase < realbase + memsize"
    and "unat (drop_bit RA2PA_SHIFT ra) \<in> seg_slots realbase memsize" "unat n < 2 ^ 63"
  shows "ra2pa_range_conv (cfg_guests c' (unat gid)) ra n = Some pa \<longleftrightarrow>
    realbase \<le> ra \<and> unat ra + unat n \<le> unat (realbase + memsize) \<and> pa = membase + (ra - realbase)"
proof -
  note phase = res_memory_commit_config_phase [OF assms(1-3)]
  from phase(3) [OF assms(4)] assms(5)
  have "mblock_live (cfg_mblocks c' i) = Some (gid, membase, realbase, memsize)" by simp
  with phase(1) assms(4) have "block_mapped (cfg_guests c') (gid, membase, realbase, memsize)"
    by (auto simp: mem_mapped_def)
  then show ?thesis using assms(6-8) by (rule block_mapped_exact)
qed

text \<open>
  C2. After the removal phase no address in a slot of a removed block translates
  any more, and every block that stays is still mapped where it was.
\<close>

theorem res_memory_unconfig_unmaps:
  assumes "res_memory_commit RESF_Unconfig c = Inr c'" "mem_live_ok c" "i < NMBLOCKS"
    and "mbp_flags (mb_pip (cfg_mblocks c i)) = RESF_Unconfig"
    and "mblock_live (cfg_mblocks c i) = Some (gid, membase, realbase, memsize)"
    and "unat (drop_bit RA2PA_SHIFT ra) \<in> seg_slots realbase memsize"
  shows "ra2pa_range_conv (cfg_guests c' (unat gid)) ra n = None \<and> mem_live_ok c' \<and>
    (\<forall>j<NMBLOCKS. mbp_flags (mb_pip (cfg_mblocks c j)) \<noteq> RESF_Unconfig \<longrightarrow>
       mblock_live (cfg_mblocks c' j) = mblock_live (cfg_mblocks c j))"
proof -
  have "g_ra2pa_segment (cfg_guests c' (unat gid)) (unat (drop_bit RA2PA_SHIFT ra)) = init_ra2pa_segment"
    by (rule res_memory_commit_unconfig_clears [OF assms(1,3-6)])
  then have "ra2pa_range_conv (cfg_guests c' (unat gid)) ra n = None"
    by (simp add: ra2pa_range_conv_def Let_def init_ra2pa_segment_def INVALID_SEGMENT_def)
  with res_memory_commit_unconfig_phase [OF assms(1,2)] show ?thesis by simp
qed

text \<open>
  C3. Preparing and parsing leaves every memory block with a flag that fits its
  state, and only accepts blocks with a valid owner whose physical and real
  ranges are not empty and do not wrap around, whatever the machine description.
\<close>

theorem res_memory_prep_parse:
  assumes "res_memory_prep c = Inr c1" "res_memory_parse (c1, f) = Inr (st, c2, f2)" "i < NMBLOCKS"
  shows "let mb = cfg_mblocks c2 i; p = mb_pip mb in
     mbp_flags p \<in> {RESF_Noop, RESF_Unconfig, RESF_Config, RESF_Modify} \<and>
     (mbp_flags p = RESF_Config \<longrightarrow> mb_state mb = MBLOCK_STATE_UNCONFIGURED) \<and>
     (mbp_flags p \<in> {RESF_Unconfig, RESF_Modify} \<longrightarrow> mb_state mb \<noteq> MBLOCK_STATE_UNCONFIGURED) \<and>
     (mbp_flags p \<in> {RESF_Config, RESF_Modify} \<longrightarrow> unat (mbp_guestid p) < NGUESTS \<and>
        mbp_membase p < mbp_membase p + mbp_memsize p \<and> mbp_realbase p < mbp_realbase p + mbp_memsize p)"
  using hpostD [OF res_memory_parse_ok [OF mem_parse_ok_prep [OF assms(1)]] assms(2)] assms(3)
  by (simp add: mem_parse_ok_def)

subsection \<open>Concrete configurations\<close>

text \<open>One block of a megabyte for guest 0, waiting to be configured.\<close>

definition one_block :: "u8 \<Rightarrow> u32 \<Rightarrow> mblock" where
  "one_block fl st = \<lparr> mb_pip = \<lparr> mbp_flags = fl, mbp_guestid = 0, mbp_membase = 0x80000000,
     mbp_memsize = 0x100000, mbp_realbase = 0x400000 \<rparr>, mb_membase = 0x80000000, mb_memsize = 0x100000,
     mb_realbase = 0x400000, mb_guestid = 0, mb_state = st \<rparr>"

definition one_block_config :: "u8 \<Rightarrow> u32 \<Rightarrow> config" where
  "one_block_config fl st = config_zero\<lparr> cfg_mblocks := (\<lambda>_. mblock_zero)(0 := one_block fl st) \<rparr>"

lemma mblock_zero_simps [simp]:
  "mb_state mblock_zero = MBLOCK_STATE_UNCONFIGURED" "mbp_flags (mb_pip mblock_zero) = RESF_Noop"
  by (simp_all add: mblock_zero_def MBLOCK_STATE_UNCONFIGURED_def RESF_Noop_def)

lemma mblock_zero_planned: "mblock_planned mblock_zero = None" "mblock_live mblock_zero = None"
  by (simp_all add: mblock_planned_def mblock_live_def)

lemma filter_single: "\<lbrakk>0 < n; P 0; \<And>i. 0 < i \<Longrightarrow> \<not> P i\<rbrakk> \<Longrightarrow> filter P [0..<n] = [0]"
  by (simp add: upt_conv_Cons filter_empty_conv)

lemma one_block_commit:
  assumes "fl \<noteq> 0"
  shows "res_memory_commit fl (one_block_config fl st) = res_memory_commit_1 fl 0 (one_block_config fl st)"
proof -
  have "filter (\<lambda>i. mbp_flags (mb_pip (cfg_mblocks (one_block_config fl st) i)) = fl) [0..<NMBLOCKS] = [0]"
    using assms by (intro filter_single) (auto simp: hv_sizes one_block_config_def one_block_def mblock_zero_def)
  then show ?thesis unfolding res_memory_commit_filter by (cases "res_memory_commit_1 fl 0 (one_block_config fl st)") auto
qed

lemma one_block_facts:
  "cfg_mblocks (one_block_config fl st) i = (if i = 0 then one_block fl st else mblock_zero)"
  "cfg_guests (one_block_config fl st) i = guest_zero"
  by (simp_all add: one_block_config_def config_zero_def)

lemma one_block_config_ok:
  "\<exists>c'. res_memory_commit RESF_Config (one_block_config RESF_Config MBLOCK_STATE_UNCONFIGURED) = Inr c'"
  "mem_plan_ok (one_block_config RESF_Config MBLOCK_STATE_UNCONFIGURED)"
  "mem_mapped (one_block_config RESF_Config MBLOCK_STATE_UNCONFIGURED)"
proof -
  have "\<exists>c1. res_memory_commit_config 0 (one_block_config RESF_Config MBLOCK_STATE_UNCONFIGURED) = Inr c1"
    by (simp add: res_memory_commit_config_eq one_block_facts Let_def one_block_def hv_sizes drop_bit_eq_div
        div_word_self)
  then show "\<exists>c'. res_memory_commit RESF_Config (one_block_config RESF_Config MBLOCK_STATE_UNCONFIGURED) = Inr c'"
    by (subst one_block_commit) (auto simp: resf_defs res_memory_commit_1_def res_switch_def one_block_facts one_block_def)
  show "mem_plan_ok (one_block_config RESF_Config MBLOCK_STATE_UNCONFIGURED)"
    "mem_mapped (one_block_config RESF_Config MBLOCK_STATE_UNCONFIGURED)"
    by (auto simp: mem_plan_ok_def mem_mapped_def one_block_facts mblock_zero_planned one_block_def mblock_live_def
        split: if_splits)
qed

theorem res_memory_config_translates_witness:
  "\<exists>c'. res_memory_commit RESF_Config (one_block_config RESF_Config MBLOCK_STATE_UNCONFIGURED) = Inr c' \<and>
     ra2pa_range_conv (cfg_guests c' 0) 0x400100 64 = Some 0x80000100"
proof -
  obtain c' where c': "res_memory_commit RESF_Config (one_block_config RESF_Config MBLOCK_STATE_UNCONFIGURED) = Inr c'"
    using one_block_config_ok(1) by blast
  have "ra2pa_range_conv (cfg_guests c' (unat (0 :: u32))) 0x400100 64 = Some 0x80000100"
    using res_memory_config_translates [OF c' one_block_config_ok(2,3),
        where i = 0 and gid = 0 and membase = "0x80000000" and realbase = "0x400000" and memsize = "0x100000"
          and ra = "0x400100" and n = 64 and pa = "0x80000100"]
    by (simp add: one_block_facts mblock_planned_def one_block_def hv_sizes seg_slots_def unat_drop_bit_div)
  with c' show ?thesis by auto
qed

lemma one_block_unconfig_ok:
  defines "c \<equiv> (one_block_config RESF_Unconfig MBLOCK_STATE_CONFIGURED)\<lparr> cfg_guests := (\<lambda>_. guest_zero)
    (0 := guest_segments {0} (mem_segment 0x80000000 0x400000 0x100000) guest_zero) \<rparr>"
  shows "\<exists>c'. res_memory_commit RESF_Unconfig c = Inr c'" "mem_live_ok c"
proof -
  have mbs: "cfg_mblocks c i = (if i = 0 then one_block RESF_Unconfig MBLOCK_STATE_CONFIGURED else mblock_zero)" for i
    by (simp add: c_def one_block_facts)
  have "filter (\<lambda>i. mbp_flags (mb_pip (cfg_mblocks c i)) = RESF_Unconfig) [0..<NMBLOCKS] = [0]"
    by (intro filter_single) (auto simp: mbs hv_sizes one_block_def)
  then have "res_memory_commit RESF_Unconfig c = hbind (res_memory_commit_1 RESF_Unconfig 0 c) Inr"
    by (simp add: res_memory_commit_filter) (cases "res_memory_commit_1 RESF_Unconfig 0 c"; simp)
  moreover have "\<exists>c1. res_memory_commit_unconfig 0 c = Inr c1"
    by (simp add: res_memory_commit_unconfig_eq mbs Let_def one_block_def hv_sizes unat_drop_bit_div)
  ultimately show "\<exists>c'. res_memory_commit RESF_Unconfig c = Inr c'"
    by (auto simp: res_memory_commit_1_def res_switch_def mbs one_block_def)
  have live: "mblock_live (cfg_mblocks c i) = (if i = 0 then Some (0, 0x80000000, 0x400000, 0x100000) else None)" for i
    by (simp add: mbs mblock_zero_planned mblock_live_def one_block_def)
  have "block_mapped (cfg_guests c) (0, 0x80000000, 0x400000, 0x100000)"
    by (simp add: block_mapped_def c_def hv_sizes seg_slots_def unat_drop_bit_div)
  then show "mem_live_ok c"
    by (auto simp: mem_live_ok_def mem_mapped_def live split: if_splits)
qed

theorem res_memory_unconfig_unmaps_witness:
  "\<exists>c c'. res_memory_commit RESF_Unconfig c = Inr c' \<and>
     ra2pa_range_conv (cfg_guests c 0) 0x400100 64 = Some 0x80000100 \<and>
     ra2pa_range_conv (cfg_guests c' 0) 0x400100 64 = None"
proof -
  let ?c = "(one_block_config RESF_Unconfig MBLOCK_STATE_CONFIGURED)\<lparr> cfg_guests := (\<lambda>_. guest_zero)
    (0 := guest_segments {0} (mem_segment 0x80000000 0x400000 0x100000) guest_zero) \<rparr>"
  obtain c' where c': "res_memory_commit RESF_Unconfig ?c = Inr c'" using one_block_unconfig_ok(1) by blast
  have "ra2pa_range_conv (cfg_guests c' (unat (0 :: u32))) 0x400100 64 = None"
    using res_memory_unconfig_unmaps [OF c' one_block_unconfig_ok(2),
        where i = 0 and gid = 0 and membase = "0x80000000" and realbase = "0x400000" and memsize = "0x100000"
          and ra = "0x400100" and n = 64]
    by (simp add: one_block_facts one_block_def mblock_live_def hv_sizes seg_slots_def unat_drop_bit_div)
  moreover have "ra2pa_range_conv (cfg_guests ?c 0) 0x400100 64 = Some 0x80000100"
    by (simp add: ra2pa_range_conv_def Let_def unat_drop_bit_div hv_sizes mem_segment_def MEM_SEGMENT_def)
  ultimately show ?thesis using c' by (intro exI [of _ ?c] exI [of _ c']) simp
qed

theorem res_memory_prep_parse_witness:
  "\<exists>c1 c2. res_memory_prep (bare (one_block_config RESF_Noop MBLOCK_STATE_CONFIGURED)) = Inr c1 \<and>
     res_memory_parse (c1, fail_info_uninit) = Inr (HVctl_st_ok, c2, fail_info_uninit) \<and>
     mbp_flags (mb_pip (cfg_mblocks c2 0)) = RESF_Unconfig \<and>
     mb_state (cfg_mblocks c2 0) \<noteq> MBLOCK_STATE_UNCONFIGURED"
proof -
  let ?c = "bare (one_block_config RESF_Noop MBLOCK_STATE_CONFIGURED)"
  obtain c1 where c1: "res_memory_prep ?c = Inr c1" by (simp add: res_memory_prep_eq)
  then have "is_bare c1" "mbp_flags (mb_pip (cfg_mblocks c1 0)) = RESF_Unconfig"
    by (auto simp: res_memory_prep_eq is_bare_def bare_def one_block_config_def one_block_def hv_sizes)
  moreover from this(1) have "res_memory_parse (c1, fail_info_uninit) = Inr (HVctl_st_ok, c1, fail_info_uninit)"
    by (simp add: res_memory_parse_def res_parse_nodes_bare)
  ultimately show ?thesis
    using c1 res_memory_prep_parse [OF c1, of fail_info_uninit HVctl_st_ok c1 fail_info_uninit 0]
    by (auto simp: Let_def hv_sizes)
qed

lemma res_memory_commit_1_modify:
  assumes "cfg_mblocks c i = mb" "mbp_flags (mb_pip mb) = RESF_Modify" "mb_state mb = MBLOCK_STATE_CONFIGURED"
    and "mbp_guestid (mb_pip mb) = mb_guestid mb" "unat (mb_guestid mb) < NGUESTS"
    and "unat (drop_bit RA2PA_SHIFT (mb_realbase mb + mb_memsize mb - 1)) < NUM_RA2PA_SEGMENTS"
    and "unat (drop_bit RA2PA_SHIFT (mbp_realbase (mb_pip mb) + mbp_memsize (mb_pip mb) - 1)) < NUM_RA2PA_SEGMENTS"
  shows "\<exists>c'. res_memory_commit_1 RESF_Modify i c = Inr c' \<and>
    cfg_mblocks c' = (cfg_mblocks c)(i := mb\<lparr> mb_realbase := mbp_realbase (mb_pip mb),
      mb_membase := mbp_membase (mb_pip mb), mb_memsize := mbp_memsize (mb_pip mb),
      mb_pip := (mb_pip mb)\<lparr> mbp_flags := RESF_Noop \<rparr> \<rparr>) \<and>
    cfg_guests c' = (cfg_guests c)(unat (mb_guestid mb) :=
      guest_segments (seg_slots (mbp_realbase (mb_pip mb)) (mbp_memsize (mb_pip mb)))
        (mem_segment (mbp_membase (mb_pip mb)) (mbp_realbase (mb_pip mb)) (mbp_memsize (mb_pip mb)))
        (guest_segments (seg_slots (mb_realbase mb) (mb_memsize mb)) init_ra2pa_segment
          (cfg_guests c (unat (mb_guestid mb)))))"
proof -
  let ?p = "mb_pip mb" and ?gi = "unat (mb_guestid mb)"
  define c1 where "c1 = c\<lparr> cfg_mblocks := (cfg_mblocks c)(i := mb\<lparr> mb_state := MBLOCK_STATE_UNCONFIGURED \<rparr>),
    cfg_guests := (cfg_guests c)(?gi := guest_segments (seg_slots (mb_realbase mb) (mb_memsize mb))
      init_ra2pa_segment (cfg_guests c ?gi)) \<rparr>"
  have 1: "res_memory_commit_unconfig i c = Inr c1"
    using assms by (simp add: res_memory_commit_unconfig_eq Let_def c1_def)
  have "\<exists>c2. res_memory_commit_config i c1 = Inr c2"
    using assms by (simp add: res_memory_commit_config_eq Let_def c1_def)
  then obtain c2 where 2: "res_memory_commit_config i c1 = Inr c2" ..
  have eq: "cfg_mblocks c2 = (cfg_mblocks c)(i := mb\<lparr> mb_realbase := mbp_realbase ?p, mb_membase := mbp_membase ?p,
      mb_memsize := mbp_memsize ?p \<rparr>)"
    "cfg_guests c2 = (cfg_guests c)(?gi := guest_segments (seg_slots (mbp_realbase ?p) (mbp_memsize ?p))
        (mem_segment (mbp_membase ?p) (mbp_realbase ?p) (mbp_memsize ?p))
        (guest_segments (seg_slots (mb_realbase mb) (mb_memsize mb)) init_ra2pa_segment (cfg_guests c ?gi)))"
    using 2 assms(3,4) by (simp_all add: res_memory_commit_config_eq Let_def c1_def fun_eq_iff)
  have "res_memory_commit_1 RESF_Modify i c = Inr (set_mblock_flags i RESF_Noop c2)"
    using 1 2 assms(1,2) by (simp add: res_memory_commit_1_def res_switch_def res_memory_commit_modify_def)
  then show ?thesis using eq by (intro exI [of _ "set_mblock_flags i RESF_Noop c2"]) simp
qed

lemma filter_pair:
  assumes "i < j" "j < n" "\<And>k. k < n \<Longrightarrow> P k \<longleftrightarrow> k = i \<or> k = j"
  shows "filter P [0..<n] = [i, j]"
proof -
  have "[0..<n] = [0..<i] @ i # [Suc i..<j] @ j # [Suc j..<n]"
    using assms(1,2) upt_add_eq_append [of 0 i "n - i"] upt_add_eq_append [of "Suc i" j "n - j"] by (simp add: upt_conv_Cons)
  moreover have "filter P [0..<i] = []" "filter P [Suc i..<j] = []" "filter P [Suc j..<n] = []"
    using assms by (auto simp: filter_empty_conv)
  ultimately show ?thesis using assms by simp
qed

text \<open>What the place of a block is to be once it is modified: its guest stays.\<close>

definition mblock_moved :: "mblock \<Rightarrow> u32 \<times> u64 \<times> u64 \<times> u64" where
  "mblock_moved mb = (mb_guestid mb, mbp_membase (mb_pip mb), mbp_realbase (mb_pip mb), mbp_memsize (mb_pip mb))"

text \<open>A block that is live and can be moved.\<close>

definition mblock_moves :: "mblock \<Rightarrow> bool" where
  "mblock_moves mb \<longleftrightarrow> mb_state mb = MBLOCK_STATE_CONFIGURED \<and> mbp_guestid (mb_pip mb) = mb_guestid mb \<and>
     unat (drop_bit RA2PA_SHIFT (mbp_realbase (mb_pip mb) + mbp_memsize (mb_pip mb) - 1)) < NUM_RA2PA_SEGMENTS"

text \<open>The slots a block has, and those it is to have.\<close>

definition old_slots :: "mblock \<Rightarrow> nat set" where
  "old_slots mb = seg_slots (mb_realbase mb) (mb_memsize mb)"

definition new_slots :: "mblock \<Rightarrow> nat set" where
  "new_slots mb = seg_slots (mbp_realbase (mb_pip mb)) (mbp_memsize (mb_pip mb))"

text \<open>
  C4. The modify phase processes blocks one after the other, removing the old
  place of a block before mapping the new one.  When of two live blocks of a guest
  the first one moves to where the second one moves away from, as when they exchange their
  real addresses, the removal of the second wipes out the mapping just made for the first: the
  first block ends up live at its new place, but no address in the slots the second one had
  translates.
\<close>

theorem res_memory_modify_swap_loses_mapping:
  assumes "mem_live_ok c" and "i < j" "j < NMBLOCKS"
    and "\<forall>k<NMBLOCKS. mbp_flags (mb_pip (cfg_mblocks c k)) = RESF_Modify \<longleftrightarrow> k = i \<or> k = j"
    and "cfg_mblocks c i = mb" "mblock_moves mb" "cfg_mblocks c j = mb'" "mblock_moves mb'" "mb_guestid mb' = mb_guestid mb"
    and "new_slots mb \<inter> old_slots mb' \<noteq> {}" "new_slots mb \<inter> new_slots mb' = {}"
  shows "\<exists>c'. res_memory_commit RESF_Modify c = Inr c' \<and>
    mblock_live (cfg_mblocks c' i) = Some (mblock_moved mb) \<and> mblock_live (cfg_mblocks c' j) = Some (mblock_moved mb') \<and>
    (\<forall>ra n. unat (drop_bit RA2PA_SHIFT ra) \<in> new_slots mb \<inter> old_slots mb' \<longrightarrow>
      ra2pa_range_conv (cfg_guests c' (unat (mb_guestid mb))) ra n = None) \<and>
    \<not> mem_live_ok c'"
proof -
  let ?gi = "unat (mb_guestid mb)"
  let ?after = "\<lambda>mb. mb\<lparr> mb_realbase := mbp_realbase (mb_pip mb), mb_membase := mbp_membase (mb_pip mb),
    mb_memsize := mbp_memsize (mb_pip mb), mb_pip := (mb_pip mb)\<lparr> mbp_flags := RESF_Noop \<rparr> \<rparr>"
  let ?seg = "\<lambda>mb. mem_segment (mbp_membase (mb_pip mb)) (mbp_realbase (mb_pip mb)) (mbp_memsize (mb_pip mb))"
  have ij: "i < NMBLOCKS" "i \<noteq> j" using assms(2,3) by simp_all
  have live: "mblock_live mb = Some (mb_guestid mb, mb_membase mb, mb_realbase mb, mb_memsize mb)"
    "mblock_live mb' = Some (mb_guestid mb', mb_membase mb', mb_realbase mb', mb_memsize mb')"
    using assms(6,8) by (simp_all add: mblock_live_def mblock_moves_def)
  with assms(1,3,5,7) ij have m: "block_mapped (cfg_guests c) (mb_guestid mb, mb_membase mb, mb_realbase mb, mb_memsize mb)"
    "block_mapped (cfg_guests c) (mb_guestid mb', mb_membase mb', mb_realbase mb', mb_memsize mb')"
    unfolding mem_live_ok_def mem_mapped_def by blast+
  have b: "?gi < NGUESTS" "unat (drop_bit RA2PA_SHIFT (mb_realbase mb + mb_memsize mb - 1)) < NUM_RA2PA_SEGMENTS"
    "unat (drop_bit RA2PA_SHIFT (mb_realbase mb' + mb_memsize mb' - 1)) < NUM_RA2PA_SEGMENTS"
    using m by (simp_all add: block_mapped_def)
  have f: "mbp_flags (mb_pip mb) = RESF_Modify" "mbp_flags (mb_pip mb') = RESF_Modify" using assms(3-5,7) ij(1) by blast+
  obtain c1 where c1: "res_memory_commit_1 RESF_Modify i c = Inr c1" "cfg_mblocks c1 = (cfg_mblocks c)(i := ?after mb)"
    "cfg_guests c1 = (cfg_guests c)(?gi := guest_segments (new_slots mb) (?seg mb) (guest_segments (old_slots mb) init_ra2pa_segment (cfg_guests c ?gi)))"
    using res_memory_commit_1_modify [OF assms(5) f(1)] assms(6) b unfolding mblock_moves_def new_slots_def old_slots_def by blast
  have j1: "cfg_mblocks c1 j = mb'" using assms(7) ij(2) by (simp add: c1(2))
  obtain c2 where c2: "res_memory_commit_1 RESF_Modify j c1 = Inr c2" "cfg_mblocks c2 = (cfg_mblocks c1)(j := ?after mb')"
    "cfg_guests c2 = (cfg_guests c1)(?gi := guest_segments (new_slots mb') (?seg mb') (guest_segments (old_slots mb') init_ra2pa_segment (cfg_guests c1 ?gi)))"
    using res_memory_commit_1_modify [OF j1 f(2)] assms(8,9) b unfolding mblock_moves_def new_slots_def old_slots_def by auto
  have "res_memory_commit RESF_Modify c = Inr c2"
    using c1(1) c2(1) filter_pair [OF assms(2,3), of "\<lambda>k. mbp_flags (mb_pip (cfg_mblocks c k)) = RESF_Modify"] assms(4)
    by (simp add: res_memory_commit_filter)
  moreover have l: "mblock_live (cfg_mblocks c2 i) = Some (mblock_moved mb)" "mblock_live (cfg_mblocks c2 j) = Some (mblock_moved mb')"
    using assms(6,8) ij(2) by (simp_all add: c1(2) c2(2) mblock_live_def mblock_moved_def mblock_moves_def)
  moreover have g: "g_ra2pa_segment (cfg_guests c2 ?gi) k = init_ra2pa_segment" if "k \<in> new_slots mb \<inter> old_slots mb'" for k
    using that assms(11) by (auto simp: c2(3))
  then have "ra2pa_range_conv (cfg_guests c2 ?gi) ra n = None" if "unat (drop_bit RA2PA_SHIFT ra) \<in> new_slots mb \<inter> old_slots mb'" for ra n
    using that by (auto simp: ra2pa_range_conv_def Let_def init_ra2pa_segment_def INVALID_SEGMENT_def)
  moreover have "\<not> mem_live_ok c2"
  proof
    assume "mem_live_ok c2"
    then have "block_mapped (cfg_guests c2) (mblock_moved mb)" using l(1) ij(1) unfolding mem_live_ok_def mem_mapped_def by blast
    then have "g_ra2pa_segment (cfg_guests c2 ?gi) k = ?seg mb" if "k \<in> new_slots mb" for k
      using that by (simp add: block_mapped_def mblock_moved_def new_slots_def)
    with g assms(10) have "?seg mb = init_ra2pa_segment" by (metis IntD1 ex_in_conv)
    then show False by (simp add: mem_segment_def init_ra2pa_segment_def MEM_SEGMENT_def INVALID_SEGMENT_def)
  qed
  ultimately show ?thesis by blast
qed

text \<open>Two live blocks of guest 0, each to be moved to the real address of the other.\<close>

definition swap_block :: "u64 \<Rightarrow> u64 \<Rightarrow> u64 \<Rightarrow> mblock" where
  "swap_block membase old new = \<lparr> mb_pip = \<lparr> mbp_flags = RESF_Modify, mbp_guestid = 0, mbp_membase = membase,
     mbp_memsize = 0x100000, mbp_realbase = new \<rparr>, mb_membase = membase, mb_memsize = 0x100000,
     mb_realbase = old, mb_guestid = 0, mb_state = MBLOCK_STATE_CONFIGURED \<rparr>"

definition swap_config :: config where
  "swap_config = config_zero\<lparr>
     cfg_mblocks := (\<lambda>_. mblock_zero)(0 := swap_block 0x80000000 0 0x400000000,
       1 := swap_block 0x90000000 0x400000000 0),
     cfg_guests := (\<lambda>_. guest_zero)(0 := guest_segments {0} (mem_segment 0x80000000 0 0x100000)
       (guest_segments {1} (mem_segment 0x90000000 0x400000000 0x100000) guest_zero)) \<rparr>"

lemma swap_block_simps:
  "mbp_flags (mb_pip (swap_block m old new)) = RESF_Modify" "mbp_guestid (mb_pip (swap_block m old new)) = 0"
  "mbp_membase (mb_pip (swap_block m old new)) = m" "mbp_memsize (mb_pip (swap_block m old new)) = 0x100000"
  "mbp_realbase (mb_pip (swap_block m old new)) = new" "mb_memsize (swap_block m old new) = 0x100000"
  "mb_realbase (swap_block m old new) = old" "mb_guestid (swap_block m old new) = 0"
  "mb_state (swap_block m old new) = MBLOCK_STATE_CONFIGURED" "mb_membase (swap_block m old new) = m"
  by (simp_all add: swap_block_def)

lemma swap_block_bounds:
  "unat (0 :: u32) < NGUESTS"
  "unat (drop_bit RA2PA_SHIFT ((0 :: u64) + 0x100000 - 1)) < NUM_RA2PA_SEGMENTS"
  "unat (drop_bit RA2PA_SHIFT ((0x400000000 :: u64) + 0x100000 - 1)) < NUM_RA2PA_SEGMENTS"
  by (simp_all add: hv_sizes unat_drop_bit_div)

lemma swap_config_mblocks:
  "cfg_mblocks swap_config i = (if i = 0 then swap_block 0x80000000 0 0x400000000
     else if i = 1 then swap_block 0x90000000 0x400000000 0 else mblock_zero)"
  by (simp add: swap_config_def)

lemma swap_config_live_ok: "mem_live_ok swap_config"
proof -
  have live: "mblock_live (cfg_mblocks swap_config i) = (if i = 0 then Some (0, 0x80000000, 0, 0x100000)
      else if i = 1 then Some (0, 0x90000000, 0x400000000, 0x100000) else None)" for i
    by (simp add: swap_config_mblocks mblock_zero_planned) (simp add: mblock_live_def swap_block_def)
  have "block_mapped (cfg_guests swap_config) (0, 0x80000000, 0, 0x100000)"
    "block_mapped (cfg_guests swap_config) (0, 0x90000000, 0x400000000, 0x100000)"
    by (auto simp: block_mapped_def swap_config_def hv_sizes seg_slots_def unat_drop_bit_div)
  moreover have "blocks_disjoint (0, 0x80000000, 0, 0x100000) (0, 0x90000000, 0x400000000, 0x100000)"
    "blocks_disjoint (0, 0x90000000, 0x400000000, 0x100000) (0, 0x80000000, 0, 0x100000)"
    by (simp_all add: blocks_disjoint_def hv_sizes seg_slots_def unat_drop_bit_div)
  ultimately show ?thesis by (auto simp: mem_live_ok_def mem_mapped_def live split: if_splits)
qed

theorem res_memory_modify_swap_loses_mapping_witness:
  "mem_live_ok swap_config \<and>
   (\<exists>c'. res_memory_commit RESF_Modify swap_config = Inr c' \<and>
     mblock_live (cfg_mblocks c' 0) = Some (0, 0x80000000, 0x400000000, 0x100000) \<and>
     ra2pa_range_conv (cfg_guests c' 0) 0x400000000 8 = None \<and> \<not> mem_live_ok c')"
proof -
  let ?b0 = "swap_block 0x80000000 0 0x400000000" and ?b1 = "swap_block 0x90000000 0x400000000 0"
  have slots: "new_slots ?b0 = {1}" "old_slots ?b1 = {1}" "new_slots ?b1 = {0}"
    by (simp_all add: new_slots_def old_slots_def swap_block_simps seg_slots_def hv_sizes unat_drop_bit_div)
  have flags: "\<forall>k<NMBLOCKS. mbp_flags (mb_pip (cfg_mblocks swap_config k)) = RESF_Modify \<longleftrightarrow> k = 0 \<or> k = 1"
    by (simp add: swap_config_mblocks swap_block_simps mblock_zero_planned)
  have "mblock_moves ?b0" "mblock_moves ?b1" using swap_block_bounds by (simp_all add: mblock_moves_def swap_block_simps)
  then obtain c' where c': "res_memory_commit RESF_Modify swap_config = Inr c'" "mblock_live (cfg_mblocks c' 0) = Some (mblock_moved ?b0)"
    "\<not> mem_live_ok c'"
    "\<And>ra n. unat (drop_bit RA2PA_SHIFT ra) = 1 \<Longrightarrow> ra2pa_range_conv (cfg_guests c' 0) ra n = None"
    using res_memory_modify_swap_loses_mapping [OF swap_config_live_ok, of 0 1 ?b0 ?b1] flags slots
    by (auto simp: swap_config_mblocks swap_block_simps hv_sizes)
  moreover have "unat (drop_bit RA2PA_SHIFT (0x400000000 :: u64)) = 1" by (simp add: hv_sizes unat_drop_bit_div)
  ultimately show ?thesis using swap_config_live_ok by (auto simp: mblock_moved_def swap_block_simps)
qed

end
