(* ===== verification/Res_Guest.thy ===== *)
theory Res_Guest
  imports Res_Memory
begin

text \<open>
  Guests (\<open>res_guest.c\<close>, and the per-guest parts of \<open>reconf.c\<close>): how a guest
  node of the machine description is read into the guest's \<open>pip\<close>, and how
  configuring, modifying and removing a guest rewrite its state, its device
  tables, its hypercall table and its table of imported memory.
\<close>

subsection \<open>Device tables\<close>

definition cfghandle_of_type :: "guest \<Rightarrow> u8 \<Rightarrow> u64" where
  "cfghandle_of_type g type = (if type = DEVOPS_VDEV then g_vdev_cfghandle g
     else if type = DEVOPS_CDEV then g_cdev_cfghandle g else INVALID_CFGHANDLE)"

definition config_a_guest_device_vino :: "u64 \<Rightarrow> u8 \<Rightarrow> guest \<Rightarrow> guest hv" where
  "config_a_guest_device_vino ino type g =
     (let cfg_handle = cfghandle_of_type g type in
      hassert (cfg_handle \<noteq> INVALID_CFGHANDLE)
        (hguard (unat (cfg_handle + ino) < NVINOS)
          (Inr (g\<lparr> g_vino2inst := (g_vino2inst g)(unat (cfg_handle + ino) := type) \<rparr>))))"

definition unconfig_a_guest_device_vino :: "u64 \<Rightarrow> u8 \<Rightarrow> guest \<Rightarrow> guest hv" where
  "unconfig_a_guest_device_vino ino type g =
     (let cfg_handle = cfghandle_of_type g type in
      hassert (cfg_handle \<noteq> INVALID_CFGHANDLE)
        (hguard (unat (cfg_handle + ino) < NVINOS)
          (Inr (g\<lparr> g_vino2inst := (g_vino2inst g)(unat (cfg_handle + ino) := DEVOPS_RESERVED) \<rparr>))))"

definition devid_of :: "u64 \<Rightarrow> u8" where
  "devid_of cfg_handle = ucast (drop_bit DEVCFGPA_SHIFT cfg_handle)"

text \<open>\<open>for (x = devid; x < edevid; x++) guestp->dev2inst[x] = inst\<close>, over an array of \<open>NDEVIDS\<close>.\<close>

definition set_dev2inst :: "u8 \<Rightarrow> u8 \<Rightarrow> u8 \<Rightarrow> guest \<Rightarrow> guest hv" where
  "set_dev2inst devid edevid inst = hfold (\<lambda>x g.
     hguard (x < NDEVIDS) (Inr (g\<lparr> g_dev2inst := (g_dev2inst g)(x := inst) \<rparr>))) [unat devid..<unat edevid]"

definition config_guest_virtual_device :: "u64 \<Rightarrow> guest \<Rightarrow> guest hv" where
  "config_guest_virtual_device cfg_handle g =
     hassert (cfg_handle \<noteq> INVALID_CFGHANDLE)
       (hguard (unat (devid_of cfg_handle) < NDEVIDS)
         (Inr (g\<lparr> g_vdev_cfghandle := cfg_handle,
                  g_dev2inst := (g_dev2inst g)(unat (devid_of cfg_handle) := DEVOPS_VDEV) \<rparr>)))"

definition unconfig_guest_virtual_device :: "guest \<Rightarrow> guest hv" where
  "unconfig_guest_virtual_device g =
     hguard (unat (devid_of (g_vdev_cfghandle g)) < NDEVIDS)
       (Inr (g\<lparr> g_dev2inst := (g_dev2inst g)(unat (devid_of (g_vdev_cfghandle g)) := DEVOPS_RESERVED),
                g_vdev_cfghandle := INVALID_CFGHANDLE \<rparr>))"

definition config_guest_channel_device :: "u64 \<Rightarrow> guest \<Rightarrow> guest hv" where
  "config_guest_channel_device cfg_handle g =
     hassert (cfg_handle \<noteq> INVALID_CFGHANDLE)
       (set_dev2inst (devid_of cfg_handle) (devid_of (cfg_handle + of_nat MAX_LDC_INOS)) DEVOPS_CDEV
         (g\<lparr> g_cdev_cfghandle := cfg_handle \<rparr>))"

definition unconfig_guest_channel_device :: "guest \<Rightarrow> guest hv" where
  "unconfig_guest_channel_device g =
     hbind (set_dev2inst (devid_of (g_cdev_cfghandle g))
         (devid_of (g_cdev_cfghandle g + of_nat MAX_LDC_INOS)) DEVOPS_RESERVED g) (\<lambda>g.
       Inr (g\<lparr> g_cdev_cfghandle := INVALID_CFGHANDLE \<rparr>))"

subsection \<open>Resetting a guest\<close>

definition LDC_MAPIN_BASERA :: u64 where "LDC_MAPIN_BASERA = push_bit 34 0x10"
definition LDC_MAPIN_RASIZE :: u64 where "LDC_MAPIN_RASIZE = push_bit 28 (of_nat LDC_NUM_MAPINS)"
definition L2_LINE_SIZE :: u64 where "L2_LINE_SIZE = 64"
definition API_ENTRY_SIZE :: u64 where "API_ENTRY_SIZE = 8"
definition NPERMMAPPINGS :: nat where "NPERMMAPPINGS = 8"

definition HCALL_TABLE_SIZE :: u64 where
  "HCALL_TABLE_SIZE = (of_nat NUM_API_CALLS * API_ENTRY_SIZE + L2_LINE_SIZE - 1) AND NOT (L2_LINE_SIZE - 1)"

definition RESET_REASON_POR :: u64 where "RESET_REASON_POR = 0"
definition HVctl_op_new_res_stat :: u16 where "HVctl_op_new_res_stat = 12"

definition reset_guest_ldc_mapins :: "guest \<Rightarrow> guest" where
  "reset_guest_ldc_mapins g =
     fold (\<lambda>i g. g\<lparr> g_ldc_mapin := (g_ldc_mapin g)(i := (g_ldc_mapin g i)
              \<lparr> mi_perms := 0, mi_pa := g_ldc_mapin_free_idx g \<rparr>),
            g_ldc_mapin_free_idx := of_nat i \<rparr>)
       (rev [0..<LDC_NUM_MAPINS]) (g\<lparr> g_ldc_mapin_free_idx := - 1 \<rparr>)"

definition hcall_table_addr :: "config \<Rightarrow> u64 \<Rightarrow> u64" where
  "hcall_table_addr c guestid =
     ((cfg_hcall_tables c + L2_LINE_SIZE - 1) AND NOT (L2_LINE_SIZE - 1)) + HCALL_TABLE_SIZE * guestid"

definition reset_api_hcall_table :: "nat \<Rightarrow> config \<Rightarrow> config" where
  "reset_api_hcall_table gi c =
     (let fcn = cfg_herr_badtrap c;
          addr = hcall_table_addr c (g_guestid (cfg_guests c gi));
          c = upd_guest gi (\<lambda>g. g\<lparr> g_hcall_table := addr,
                g_api_version_num := \<lambda>i. if i < NUM_API_GROUPS then 0 else g_api_version_num g i \<rparr>) c
      in c\<lparr> cfg_hcall_mem := fold (\<lambda>i m. m(addr + of_nat i * API_ENTRY_SIZE := fcn))
              [0..<NUM_API_CALLS] (cfg_hcall_mem c) \<rparr>)"

definition reset_guest_perm_mappings :: "guest \<Rightarrow> guest" where
  "reset_guest_perm_mappings g =
     g\<lparr> g_perm_mappings := \<lambda>i. if i < NPERMMAPPINGS then (0, 0) else g_perm_mappings g i \<rparr>"

definition reset_guest_state :: "nat \<Rightarrow> config \<Rightarrow> config hv" where
  "reset_guest_state gi c =
     hassert (g_state (cfg_guests c gi) = GUEST_STATE_STOPPED)
       (Inr (upd_guest gi (\<lambda>g. reset_guest_ldc_mapins (reset_guest_perm_mappings g))
          (reset_api_hcall_table gi c)))"

text \<open>The guest's own machine description: only its header is read.\<close>

definition MD_HEADER_SIZE :: u64 where "MD_HEADER_SIZE = 16"

definition md_total_size :: "bin_md \<Rightarrow> u64" where
  "md_total_size gmd = MD_HEADER_SIZE + ucast (node_blk_sz gmd) + ucast (name_blk_sz gmd) + ucast (data_blk_sz gmd)"

definition config_guest_md :: "(u64 \<Rightarrow> bin_md option) \<Rightarrow> guest \<Rightarrow> guest hv" where
  "config_guest_md mem g =
     (case mem (g_md_pa g) of None \<Rightarrow> Inl Bad_access
      | Some gmd \<Rightarrow>
          if TR_MAJOR (transport_version gmd) \<noteq> TR_MAJOR MD_TRANSPORT_VERSION then Inl Hv_abort
          else Inr (g\<lparr> g_md_size := md_total_size gmd \<rparr>))"

subsection \<open>Initialisation and parsing\<close>

definition init_guest :: "nat \<Rightarrow> config \<Rightarrow> config hv" where
  "init_guest i c =
     hguard (i < NGUESTS)
       (upd_guest_hv i (\<lambda>_. hbind (assign_ra2pa_segments 0xfff0c00000 0x400000 0 IO_SEGMENT
           (guest_zero\<lparr> g_guestid := of_nat i, g_state := GUEST_STATE_UNCONFIGURED,
              g_pip := guest_parse_info_zero\<lparr> gp_vdev_cfghandle := INVALID_CFGHANDLE,
                gp_cdev_cfghandle := INVALID_CFGHANDLE \<rparr>,
              g_ra2pa_segment := \<lambda>j. if j < NUM_RA2PA_SEGMENTS then init_ra2pa_segment else ra2pa_segment_zero \<rparr>))
         (\<lambda>g. Inr (g\<lparr> g_async_buf_op := HVctl_op_new_res_stat \<rparr>))) c)"

definition set_guest_flags :: "nat \<Rightarrow> u8 \<Rightarrow> config \<Rightarrow> config" where
  "set_guest_flags i fl = upd_guest i (\<lambda>g. g\<lparr> g_pip := (g_pip g)\<lparr> gp_flags := fl \<rparr> \<rparr>)"

definition res_guest_prep :: "config \<Rightarrow> config hv" where
  "res_guest_prep = hfold (\<lambda>i c. Inr (set_guest_flags i
       (if g_state (cfg_guests c i) = GUEST_STATE_UNCONFIGURED then RESF_Noop else RESF_Unconfig) c))
     [0..<NGUESTS]"

text \<open>\<open>missing_prop\<close>, the macro \<open>GET_PROPERTY\<close>, and the properties with a default.\<close>

definition guest_missing_prop :: "parse_state \<Rightarrow> (parse_result + 'a) hv" where
  "guest_missing_prop s =
     Inr (Inl (HVctl_st_badmd, fst s, (snd s)\<lparr> f_code := Some HVctl_e_guest_missing_property \<rparr>))"

definition get_property ::
    "bin_md \<Rightarrow> nat \<Rightarrow> nat \<Rightarrow> string \<Rightarrow> (u64 \<Rightarrow> guest \<Rightarrow> guest) \<Rightarrow> parse_state \<Rightarrow> (parse_result + parse_state) hv" where
  "get_property md nodep gi name store s =
     (case s of (c, f) \<Rightarrow> md_prop md nodep (MDNAME c name) (guest_missing_prop s) (\<lambda>x.
        parse_ok (upd_guest gi (store x) c) f))"

definition opt_property ::
    "bin_md \<Rightarrow> nat \<Rightarrow> nat \<Rightarrow> string \<Rightarrow> u64 \<Rightarrow> (u64 \<Rightarrow> guest \<Rightarrow> guest) \<Rightarrow> parse_state \<Rightarrow>
     (parse_result + parse_state) hv" where
  "opt_property md nodep gi name dflt store s =
     (case s of (c, f) \<Rightarrow> md_prop_or md nodep (MDNAME c name) dflt (\<lambda>x.
        parse_ok (upd_guest gi (store x) c) f))"

abbreviation to_pip :: "(u64 \<Rightarrow> guest_parse_info \<Rightarrow> guest_parse_info) \<Rightarrow> u64 \<Rightarrow> guest \<Rightarrow> guest" where
  "to_pip u \<equiv> \<lambda>x g. g\<lparr> g_pip := u x (g_pip g) \<rparr>"

text \<open>
  One turn of the loop that looks for the memory block with the lowest real
  address.  \<open>base_mblock\<close> is the node found so far; the size is read from it,
  not from the block at hand.
\<close>

definition res_guest_parse_mblock ::
    "bin_md \<Rightarrow> nat \<Rightarrow> nat \<Rightarrow> parse_state \<times> nat option \<Rightarrow> (parse_result + parse_state \<times> nat option) hv" where
  "res_guest_parse_mblock md gi mblock_nodep s =
     (case s of ((c, f), base_mblock) \<Rightarrow>
      md_prop md mblock_nodep (MDNAME c ''realbase'') (guest_missing_prop (c, f)) (\<lambda>realbase.
      hbind (if realbase < gp_real_base (g_pip (cfg_guests c gi))
             then md_prop_or md mblock_nodep (MDNAME c ''membase'') realbase (\<lambda>membase.
               Inr (upd_guest gi (\<lambda>g. g\<lparr> g_pip := (g_pip g)\<lparr> gp_real_base := realbase,
                      gp_mem_offset := membase - realbase \<rparr> \<rparr>) c, Some mblock_nodep))
             else Inr (c, base_mblock)) (\<lambda>(c, base_mblock).
      case base_mblock of None \<Rightarrow> Inl Bad_access
      | Some base \<Rightarrow> md_prop_or md base (MDNAME c ''memsize'') 0 (\<lambda>base_memsize.
          Inr (Inr ((upd_guest gi (\<lambda>g. if gp_real_limit (g_pip g) < realbase + base_memsize
               then g\<lparr> g_pip := (g_pip g)\<lparr> gp_real_limit := realbase + base_memsize \<rparr> \<rparr> else g) c, f),
             base_mblock))))))"

definition res_guest_parse_mem ::
    "bin_md \<Rightarrow> nat \<Rightarrow> nat \<Rightarrow> parse_state \<Rightarrow> (parse_result + parse_state) hv" where
  "res_guest_parse_mem md guest_nodep gi s =
     (case s of (c, f) \<Rightarrow>
      let c = upd_guest gi (\<lambda>g. g\<lparr> g_pip := (g_pip g)\<lparr> gp_real_base := - 1, gp_real_limit := 0,
            gp_mem_offset := 0 \<rparr> \<rparr>) c in
      parse_then (md_foreach md guest_nodep (MDARC (MDNAME c ''fwd'')) (MDNODE (MDNAME c ''mblock''))
        (res_guest_parse_mblock md gi) ((c, f), None)) (\<lambda>((c, f), base_mblock).
      case base_mblock of None \<Rightarrow> guest_missing_prop (c, f)
      | Some base \<Rightarrow> md_prop md base (MDNAME c ''memsize'') (guest_missing_prop (c, f)) (\<lambda>base_memsize.
          if gp_rom_size (g_pip (cfg_guests c gi)) > base_memsize
          then parse_fail HVctl_st_badmd HVctl_e_guest_base_mblock_too_small (c, f)
          else parse_ok c f)))"

definition guest_devices ::
    "bin_md \<Rightarrow> nat \<Rightarrow> nat \<Rightarrow> string \<Rightarrow> (u64 \<Rightarrow> guest \<Rightarrow> guest) \<Rightarrow> parse_state \<Rightarrow> (parse_result + parse_state) hv" where
  "guest_devices md guest_nodep gi node store s =
     (case s of (c, f) \<Rightarrow>
      hbind (md_find_node_by_arc md (Some guest_nodep) (MDARC (MDNAME c ''fwd'')) (MDNODE (MDNAME c node))) (\<lambda>r.
        case r of None \<Rightarrow> parse_ok c f
        | Some (_, devices_nodep) \<Rightarrow> get_property md devices_nodep gi ''cfghandle'' store s))"

text \<open>The decision at the end of the parse: what has to be done to the guest.\<close>

definition guest_changed :: "guest \<Rightarrow> bool" where
  "guest_changed g \<longleftrightarrow> (let p = g_pip g in
     gp_rom_base p \<noteq> g_rom_base g \<or> gp_rom_size p \<noteq> g_rom_size g \<or> gp_md_pa p \<noteq> g_md_pa g \<or>
     gp_reset_reason p \<noteq> g_reset_reason g \<or> gp_perfreg_accessible p \<noteq> g_perfreg_accessible g \<or>
     gp_diagpriv p \<noteq> g_diagpriv g \<or>
     (gp_vdev_cfghandle p \<noteq> INVALID_CFGHANDLE \<and> gp_vdev_cfghandle p \<noteq> g_vdev_cfghandle g) \<or>
     (gp_cdev_cfghandle p \<noteq> INVALID_CFGHANDLE \<and> gp_cdev_cfghandle p \<noteq> g_cdev_cfghandle g) \<or>
     gp_tod_offset p \<noteq> g_tod_offset g)"

definition guest_elect_flag :: "guest \<Rightarrow> u8" where
  "guest_elect_flag g = (if g_state g = GUEST_STATE_UNCONFIGURED then RESF_Config
     else if guest_changed g then RESF_Modify else RESF_Noop)"

text \<open>\<open>res_guest_parse_1\<close>, from the first property after the guest's number on.\<close>

definition res_guest_parse_props :: "bin_md \<Rightarrow> nat \<Rightarrow> nat \<Rightarrow> parse_state \<Rightarrow> (parse_result + parse_state) hv" where
  "res_guest_parse_props md nd gi s =
     parse_then (get_property md nd gi ''rombase'' (to_pip (\<lambda>x p. p\<lparr> gp_rom_base := x \<rparr>)) s) (\<lambda>s.
     parse_then (get_property md nd gi ''romsize'' (to_pip (\<lambda>x p. p\<lparr> gp_rom_size := x \<rparr>)) s) (\<lambda>s.
     parse_then (get_property md nd gi ''mdpa'' (to_pip (\<lambda>x p. p\<lparr> gp_md_pa := x \<rparr>)) s) (\<lambda>s.
     parse_then (opt_property md nd gi ''uartbase'' (- 1) (to_pip (\<lambda>x p. p\<lparr> gp_uartbase := x \<rparr>)) s) (\<lambda>s.
     parse_then (opt_property md nd gi ''diskpa'' (- 1) (to_pip (\<lambda>x p. p\<lparr> gp_diskpa := x \<rparr>)) s) (\<lambda>s.
     parse_then (opt_property md nd gi ''reset_reason'' RESET_REASON_POR
       (to_pip (\<lambda>x p. p\<lparr> gp_reset_reason := x \<rparr>)) s) (\<lambda>s.
     parse_then (res_guest_parse_mem md nd gi s) (\<lambda>s.
     parse_then (opt_property md nd gi ''perfctraccess'' 0
       (to_pip (\<lambda>x p. p\<lparr> gp_perfreg_accessible := x \<rparr>)) s) (\<lambda>s.
     parse_then (opt_property md nd gi ''diagpriv'' 0 (to_pip (\<lambda>x p. p\<lparr> gp_diagpriv := x \<rparr>)) s) (\<lambda>s.
     parse_then (opt_property md nd gi ''rngctlaccessible'' 0 (\<lambda>x g. g\<lparr> g_rng_ctl_accessible := x \<rparr>) s) (\<lambda>s.
     parse_then (opt_property md nd gi ''perfctrhtaccess'' 0 (\<lambda>x g. g\<lparr> g_perfreght_accessible := x \<rparr>) s) (\<lambda>s.
     parse_then (opt_property md nd gi ''todoffset'' 0 (to_pip (\<lambda>x p. p\<lparr> gp_tod_offset := x \<rparr>)) s) (\<lambda>s.
     parse_then (guest_devices md nd gi ''virtual_devices''
       (to_pip (\<lambda>x p. p\<lparr> gp_vdev_cfghandle := x \<rparr>)) s) (\<lambda>s.
     parse_then (guest_devices md nd gi ''channel_devices''
       (to_pip (\<lambda>x p. p\<lparr> gp_cdev_cfghandle := x \<rparr>)) s) (\<lambda>(c, f).
     parse_ok (set_guest_flags gi (guest_elect_flag (cfg_guests c gi)) c) f))))))))))))))"

definition res_guest_parse_1 :: "bin_md \<Rightarrow> nat \<Rightarrow> parse_state \<Rightarrow> (parse_result + parse_state) hv" where
  "res_guest_parse_1 md nd s =
     (case s of (c, f) \<Rightarrow>
      md_prop md nd (MDNAME c ''resource_id'')
        (parse_fail HVctl_st_badmd HVctl_e_guest_missing_id (c, f\<lparr> f_res_id := Some 0 \<rparr>)) (\<lambda>resource_id.
      if unat resource_id \<ge> NGUESTS
      then parse_fail HVctl_st_badmd HVctl_e_guest_invalid_id (c, f\<lparr> f_res_id := Some 0 \<rparr>)
      else let gi = unat resource_id; f = f\<lparr> f_res_id := Some (ucast resource_id) \<rparr> in
      md_prop_or md nd (MDNAME c ''unbind'') 0 (\<lambda>unbind.
      if unbind \<noteq> 0 \<and> g_state (cfg_guests c gi) \<noteq> GUEST_STATE_STOPPED
      then parse_fail HVctl_st_eillegal HVctl_e_guest_active (c, f)
      else parse_then (get_property md nd gi ''resource_id'' (\<lambda>x g. g\<lparr> g_guestid := x \<rparr>) (c, f))
        (res_guest_parse_props md nd gi))))"

definition res_guest_parse :: "parse_state \<Rightarrow> parse_result hv" where
  "res_guest_parse = res_parse_nodes ''guests'' ''guest'' (with_failnode res_guest_parse_1)"

definition res_guest_postparse_1 :: "nat \<Rightarrow> parse_result + parse_state \<Rightarrow> (parse_result + parse_state) hv" where
  "res_guest_postparse_1 i r =
     (case r of Inl x \<Rightarrow> Inr r
      | Inr (c, f) \<Rightarrow>
          let g = cfg_guests c i in
          res_switch (gp_flags (g_pip g)) (Inr r)
            (if g_state g \<noteq> GUEST_STATE_STOPPED
             then parse_fail HVctl_st_badmd HVctl_e_guest_active (c, f\<lparr> f_res_id := Some (of_nat i) \<rparr>)
             else Inr r)
            (Inr r) (Inl Assert_fail) (Inr r))"

definition res_guest_postparse :: "parse_state \<Rightarrow> parse_result hv" where
  "res_guest_postparse s = hbind (hfold res_guest_postparse_1 [0..<NGUESTS] (Inr s)) parse_end"

subsection \<open>Committing\<close>

definition res_guest_commit_modify :: "nat \<Rightarrow> config \<Rightarrow> config hv" where
  "res_guest_commit_modify gi c =
     hassert (g_state (cfg_guests c gi) \<noteq> GUEST_STATE_UNCONFIGURED)
       (upd_guest_hv gi (\<lambda>g.
          let p = g_pip g;
              g = g\<lparr> g_rom_base := gp_rom_base p, g_rom_size := gp_rom_size p,
                     g_real_base := gp_real_base p, g_real_limit := gp_real_limit p,
                     g_mem_offset := gp_mem_offset p, g_md_pa := gp_md_pa p \<rparr> in
          hbind (config_guest_md (cfg_md_mem c) g) (\<lambda>g.
          let g = g\<lparr> g_disk_size := 0, g_disk_pa := gp_diskpa p,
                     g_snet_ino := gp_snet_ino p, g_snet_pa := gp_snet_pa p,
                     g_perfreg_accessible := gp_perfreg_accessible p, g_diagpriv := gp_diagpriv p,
                     g_entry := g_real_base g, g_reset_reason := gp_reset_reason p \<rparr> in
          hbind (unconfig_guest_virtual_device g) (\<lambda>g.
          hbind (unconfig_guest_channel_device g) (\<lambda>g.
          hbind (config_guest_virtual_device (gp_vdev_cfghandle p) g)
            (config_guest_channel_device (gp_cdev_cfghandle p)))))) c)"

text \<open>\<open>clear out the devops table\<close>\<close>

definition clear_devops :: "guest \<Rightarrow> guest" where
  "clear_devops g = g\<lparr> g_vino2inst := (\<lambda>y. if y < NVINOS then DEVOPS_RESERVED else g_vino2inst g y),
     g_dev2inst := (\<lambda>x. if x < NDEVIDS then DEVOPS_RESERVED else g_dev2inst g x) \<rparr>"

definition res_guest_commit_config :: "nat \<Rightarrow> config \<Rightarrow> config hv" where
  "res_guest_commit_config gi c =
     hassert (g_state (cfg_guests c gi) = GUEST_STATE_UNCONFIGURED)
       (hbind (res_guest_commit_modify gi (upd_guest gi (\<lambda>g. g\<lparr> g_ldc_mapin_basera := LDC_MAPIN_BASERA,
           g_ldc_mapin_size := LDC_MAPIN_RASIZE, g_state := GUEST_STATE_STOPPED \<rparr>) c)) (\<lambda>c.
        hbind (upd_guest_hv gi (\<lambda>g.
            let p = g_pip g in
            hbind (config_guest_virtual_device (gp_vdev_cfghandle p)
              (clear_devops (g\<lparr> g_tod_offset := gp_tod_offset p,
                 g_ldc_ino2endpoint := (\<lambda>x. if x < MAX_LDC_INOS then \<lparr> ie_endpointp = None, ie_mapregp = None \<rparr>
                    else g_ldc_ino2endpoint g x),
                 g_ldc_max_channel_idx := of_nat MAX_LDC_CHANNELS \<rparr>)))
              (config_guest_channel_device (gp_cdev_cfghandle p))) c) (\<lambda>c.
        hassert (g_state (cfg_guests c gi) = GUEST_STATE_STOPPED) (reset_guest_state gi c))))"

definition res_guest_commit_unconfig :: "nat \<Rightarrow> config \<Rightarrow> config hv" where
  "res_guest_commit_unconfig gi c =
     hassert (g_state (cfg_guests c gi) = GUEST_STATE_STOPPED)
       (hbind (upd_guest_hv gi (\<lambda>g. hbind (unconfig_guest_virtual_device g) (\<lambda>g.
           hbind (unconfig_guest_channel_device g) (\<lambda>g. Inr (clear_devops g)))) c) (\<lambda>c.
        hbind (init_guest (unat (ucast (g_guestid (cfg_guests c gi)) :: u32)) c) (\<lambda>c.
        Inr (set_guest_flags gi RESF_Noop c))))"

definition res_guest_commit_1 :: "u8 \<Rightarrow> nat \<Rightarrow> config \<Rightarrow> config hv" where
  "res_guest_commit_1 flag i c =
     (let fl = gp_flags (g_pip (cfg_guests c i)) in
      if fl \<noteq> flag then Inr c
      else hbind (res_switch fl (Inr c) (res_guest_commit_unconfig i c) (res_guest_commit_config i c)
             (Inl Assert_fail) (res_guest_commit_modify i c)) (\<lambda>c.
           Inr (set_guest_flags i RESF_Noop c)))"

definition res_guest_commit :: "u8 \<Rightarrow> config \<Rightarrow> config hv" where
  "res_guest_commit flag = hfold (res_guest_commit_1 flag) [0..<NGUESTS]"

subsection \<open>The list of free import slots\<close>

text \<open>Following the links from \<open>ldc_mapin_free_idx\<close>.\<close>

fun mapin_free_list :: "guest \<Rightarrow> nat \<Rightarrow> u64 \<Rightarrow> nat list option" where
  "mapin_free_list g 0 idx = (if idx = - 1 then Some [] else None)"
| "mapin_free_list g (Suc n) idx =
     (if idx = - 1 then Some [] else map_option ((#) (unat idx)) (mapin_free_list g n (mi_pa (g_ldc_mapin g (unat idx)))))"

lemma reset_ldc_mapins_loop:
  "fold (\<lambda>i g. g\<lparr> g_ldc_mapin := (g_ldc_mapin g)(i := (g_ldc_mapin g i)
              \<lparr> mi_perms := 0, mi_pa := g_ldc_mapin_free_idx g \<rparr>),
            g_ldc_mapin_free_idx := of_nat i \<rparr>)
       (rev [0..<n]) (g\<lparr> g_ldc_mapin := a, g_ldc_mapin_free_idx := x \<rparr>) =
     g\<lparr> g_ldc_mapin := \<lambda>i. if i < n then (a i)\<lparr> mi_perms := 0, mi_pa := if Suc i = n then x else of_nat (Suc i) \<rparr>
            else a i,
        g_ldc_mapin_free_idx := if n = 0 then x else 0 \<rparr>"
proof (induction n arbitrary: a x)
  case (Suc n)
  have "(\<lambda>i. if i < n then ((a(n := (a n)\<lparr> mi_perms := 0, mi_pa := x \<rparr>)) i)\<lparr> mi_perms := 0,
          mi_pa := if Suc i = n then of_nat n else of_nat (Suc i) \<rparr>
        else (a(n := (a n)\<lparr> mi_perms := 0, mi_pa := x \<rparr>)) i) =
    (\<lambda>i. if i < Suc n then (a i)\<lparr> mi_perms := 0, mi_pa := if Suc i = Suc n then x else of_nat (Suc i) \<rparr> else a i)"
    by (rule ext) (auto simp: less_Suc_eq)
  then show ?case by (simp add: Suc del: fun_upd_apply)
qed simp

lemma reset_guest_ldc_mapins_eq:
  "reset_guest_ldc_mapins g = g\<lparr> g_ldc_mapin := \<lambda>i. if i < LDC_NUM_MAPINS then (g_ldc_mapin g i)
       \<lparr> mi_perms := 0, mi_pa := if Suc i = LDC_NUM_MAPINS then - 1 else of_nat (Suc i) \<rparr> else g_ldc_mapin g i,
     g_ldc_mapin_free_idx := 0 \<rparr>"
  using reset_ldc_mapins_loop [where n = LDC_NUM_MAPINS and g = g and a = "g_ldc_mapin g" and x = "- 1"]
  by (simp add: reset_guest_ldc_mapins_def) (simp add: hv_sizes)

lemma mapin_free_list_from:
  assumes "\<And>i. i < n \<Longrightarrow> mi_pa (g_ldc_mapin g i) = (if Suc i = n then - 1 else of_nat (Suc i))"
    and "n < 2 ^ 32" "k < n"
  shows "mapin_free_list g (n - k) (of_nat k) = Some [k..<n]"
  using assms(3)
proof (induction "n - k" arbitrary: k)
  case (Suc d)
  have k: "unat (of_nat k :: u64) = k" using Suc.prems assms(2) by (simp add: unsigned_of_nat take_bit_nat_eq_self)
  have "k \<noteq> unat (- 1 :: u64)"
    using Suc.prems assms(2) by (simp add: unsigned_minus_1_eq_mask mask_eq_exp_minus_1)
  with k have ne: "(of_nat k :: u64) \<noteq> - 1" by metis
  have upt: "[k..<n] = k # [Suc k..<n]" using Suc.prems by (simp add: upt_conv_Cons)
  have d: "n - k = Suc (n - Suc k)" using Suc.prems by simp
  show ?case
  proof (cases "Suc k = n")
    case True
    then show ?thesis using k ne assms(1) [of k] Suc.prems upt by (simp add: d)
  next
    case False
    with Suc.prems have "mapin_free_list g (n - Suc k) (of_nat (Suc k)) = Some [Suc k..<n]"
      using Suc.hyps(2) by (intro Suc.hyps(1)) simp_all
    then show ?thesis using False k ne assms(1) [of k] Suc.prems upt by (simp add: d)
  qed
qed simp

text \<open>
  Resetting a guest's table of imported memory chains all its entries into
  one free list, in order, and revokes all permissions.
\<close>

theorem reset_guest_ldc_mapins_free:
  "mapin_free_list (reset_guest_ldc_mapins g) LDC_NUM_MAPINS
     (g_ldc_mapin_free_idx (reset_guest_ldc_mapins g)) = Some [0..<LDC_NUM_MAPINS] \<and>
   map (\<lambda>i. mi_perms (g_ldc_mapin (reset_guest_ldc_mapins g) i)) [0..<LDC_NUM_MAPINS] = replicate LDC_NUM_MAPINS 0"
proof -
  have "mapin_free_list (reset_guest_ldc_mapins g) (LDC_NUM_MAPINS - 0) (of_nat 0) = Some [0..<LDC_NUM_MAPINS]"
    by (rule mapin_free_list_from) (simp_all add: reset_guest_ldc_mapins_eq, simp_all add: hv_sizes)
  moreover have "map (\<lambda>i. mi_perms (g_ldc_mapin (reset_guest_ldc_mapins g) i)) [0..<LDC_NUM_MAPINS] =
      map (\<lambda>_. 0) [0..<LDC_NUM_MAPINS]"
    by (rule map_cong) (simp_all add: reset_guest_ldc_mapins_eq)
  ultimately show ?thesis by (simp add: reset_guest_ldc_mapins_eq map_replicate_const)
qed

subsection \<open>Device tables and the effect of the commit operations\<close>

lemma interval_below_iff: "{a..<b} \<subseteq> {..<n} \<longleftrightarrow> (a < b \<longrightarrow> b \<le> (n :: nat))"
proof
  assume sub: "{a..<b} \<subseteq> {..<n}"
  show "a < b \<longrightarrow> b \<le> n"
  proof
    assume "a < b"
    then have "b - 1 \<in> {a..<b}" by auto
    with sub have "b - 1 < n" by blast
    then show "b \<le> n" by simp
  qed
qed auto

lemma set_dev2inst_loop:
  "hfold (\<lambda>x g. hguard (x < NDEVIDS) (Inr (g\<lparr> g_dev2inst := (g_dev2inst g)(x := inst) \<rparr>))) [m..<n] g =
     (if {m..<n} \<subseteq> {..<NDEVIDS}
      then Inr (g\<lparr> g_dev2inst := \<lambda>x. if x \<in> {m..<n} then inst else g_dev2inst g x \<rparr>) else Inl Bad_access)"
proof (induction n)
  case (Suc n)
  show ?case
  proof (cases "m \<le> n")
    case True
    have "(\<lambda>x. if x \<in> {m..<n} then inst else g_dev2inst g x)(n := inst) =
        (\<lambda>x. if x \<in> {m..<Suc n} then inst else g_dev2inst g x)"
      using True by (auto simp: fun_eq_iff less_Suc_eq)
    with Suc True show ?thesis
      by (simp add: hfold_append hguard_def interval_below_iff Suc_le_eq del: fun_upd_apply)
  qed simp
qed simp

lemma set_dev2inst_eq:
  "set_dev2inst a b inst g = (if {unat a..<unat b} \<subseteq> {..<NDEVIDS}
      then Inr (g\<lparr> g_dev2inst := \<lambda>x. if x \<in> {unat a..<unat b} then inst else g_dev2inst g x \<rparr>) else Inl Bad_access)"
  unfolding set_dev2inst_def by (rule set_dev2inst_loop)

text \<open>The channels of a guest take the device numbers from that of the handle on.\<close>

definition cdev_ids :: "u64 \<Rightarrow> nat set" where
  "cdev_ids cfg_handle = {unat (devid_of cfg_handle)..<unat (devid_of (cfg_handle + of_nat MAX_LDC_INOS))}"

lemma config_guest_channel_device_eq:
  "config_guest_channel_device h g = Inr g' \<longleftrightarrow> h \<noteq> INVALID_CFGHANDLE \<and> cdev_ids h \<subseteq> {..<NDEVIDS} \<and>
     g' = g\<lparr> g_cdev_cfghandle := h, g_dev2inst := \<lambda>x. if x \<in> cdev_ids h then DEVOPS_CDEV else g_dev2inst g x \<rparr>"
  unfolding config_guest_channel_device_def hassert_eq_Inr set_dev2inst_eq cdev_ids_def [symmetric]
  by (auto cong: if_cong)

lemma unconfig_guest_channel_device_eq:
  "unconfig_guest_channel_device g = Inr g' \<longleftrightarrow> cdev_ids (g_cdev_cfghandle g) \<subseteq> {..<NDEVIDS} \<and>
     g' = g\<lparr> g_cdev_cfghandle := INVALID_CFGHANDLE,
       g_dev2inst := \<lambda>x. if x \<in> cdev_ids (g_cdev_cfghandle g) then DEVOPS_RESERVED else g_dev2inst g x \<rparr>"
  unfolding unconfig_guest_channel_device_def hbind_eq_Inr set_dev2inst_eq cdev_ids_def [symmetric]
  by (auto cong: if_cong)

lemma guest_virtual_device_eq:
  "config_guest_virtual_device h g = Inr g' \<longleftrightarrow> h \<noteq> INVALID_CFGHANDLE \<and> unat (devid_of h) < NDEVIDS \<and>
     g' = g\<lparr> g_vdev_cfghandle := h, g_dev2inst := (g_dev2inst g)(unat (devid_of h) := DEVOPS_VDEV) \<rparr>"
  "unconfig_guest_virtual_device g = Inr g' \<longleftrightarrow> unat (devid_of (g_vdev_cfghandle g)) < NDEVIDS \<and>
     g' = g\<lparr> g_dev2inst := (g_dev2inst g)(unat (devid_of (g_vdev_cfghandle g)) := DEVOPS_RESERVED),
       g_vdev_cfghandle := INVALID_CFGHANDLE \<rparr>"
  by (auto simp: config_guest_virtual_device_def unconfig_guest_virtual_device_def hassert_eq_Inr hguard_eq_Inr)

lemmas guest_device_eqs = guest_virtual_device_eq config_guest_channel_device_eq unconfig_guest_channel_device_eq

lemma config_guest_md_eq:
  "config_guest_md mem g = Inr g' \<longleftrightarrow> (\<exists>gmd. mem (g_md_pa g) = Some gmd \<and>
     TR_MAJOR (transport_version gmd) = TR_MAJOR MD_TRANSPORT_VERSION \<and> g' = g\<lparr> g_md_size := md_total_size gmd \<rparr>)"
  by (auto simp: config_guest_md_def split: option.splits if_splits)

text \<open>What modifying a guest makes of it; \<open>gmd\<close> is the guest's own machine description.\<close>

definition guest_modified :: "bin_md \<Rightarrow> guest \<Rightarrow> guest" where
  "guest_modified gmd g = (let p = g_pip g in
     g\<lparr> g_rom_base := gp_rom_base p, g_rom_size := gp_rom_size p, g_real_base := gp_real_base p,
        g_real_limit := gp_real_limit p, g_mem_offset := gp_mem_offset p, g_md_pa := gp_md_pa p,
        g_md_size := md_total_size gmd, g_disk_size := 0, g_disk_pa := gp_diskpa p,
        g_snet_ino := gp_snet_ino p, g_snet_pa := gp_snet_pa p,
        g_perfreg_accessible := gp_perfreg_accessible p, g_diagpriv := gp_diagpriv p,
        g_entry := gp_real_base p, g_reset_reason := gp_reset_reason p,
        g_vdev_cfghandle := gp_vdev_cfghandle p, g_cdev_cfghandle := gp_cdev_cfghandle p,
        g_dev2inst := \<lambda>x. if x \<in> cdev_ids (gp_cdev_cfghandle p) then DEVOPS_CDEV
          else if x = unat (devid_of (gp_vdev_cfghandle p)) then DEVOPS_VDEV
          else if x \<in> cdev_ids (g_cdev_cfghandle g) \<or> x = unat (devid_of (g_vdev_cfghandle g)) then DEVOPS_RESERVED
          else g_dev2inst g x \<rparr>)"

definition guest_handles_ok :: "u64 \<Rightarrow> u64 \<Rightarrow> bool" where
  "guest_handles_ok vdev cdev \<longleftrightarrow> unat (devid_of vdev) < NDEVIDS \<and> cdev_ids cdev \<subseteq> {..<NDEVIDS}"

lemma res_guest_commit_modify_eq:
  "res_guest_commit_modify gi c = Inr c' \<longleftrightarrow> (let g = cfg_guests c gi; p = g_pip g in
     gi < NGUESTS \<and> g_state g \<noteq> GUEST_STATE_UNCONFIGURED \<and>
     guest_handles_ok (g_vdev_cfghandle g) (g_cdev_cfghandle g) \<and>
     gp_vdev_cfghandle p \<noteq> INVALID_CFGHANDLE \<and> gp_cdev_cfghandle p \<noteq> INVALID_CFGHANDLE \<and>
     guest_handles_ok (gp_vdev_cfghandle p) (gp_cdev_cfghandle p) \<and>
     (\<exists>gmd. cfg_md_mem c (gp_md_pa p) = Some gmd \<and>
        TR_MAJOR (transport_version gmd) = TR_MAJOR MD_TRANSPORT_VERSION \<and>
        c' = upd_guest gi (guest_modified gmd) c))"
proof -
  have dev: "(\<lambda>x. if x \<in> A then DEVOPS_CDEV else ((\<lambda>x. if x \<in> B then DEVOPS_RESERVED
      else (d(v := DEVOPS_RESERVED)) x)(w := DEVOPS_VDEV)) x) =
    (\<lambda>x. if x \<in> A then DEVOPS_CDEV else if x = w then DEVOPS_VDEV
      else if x \<in> B \<or> x = v then DEVOPS_RESERVED else d x)" for A B v w and d :: "nat \<Rightarrow> u8"
    by (auto simp: fun_eq_iff)
  show ?thesis
    unfolding res_guest_commit_modify_def hassert_eq_Inr upd_guest_hv_eq Let_def hbind_eq_Inr
      config_guest_md_eq guest_device_eqs guest_handles_ok_def
    by (auto simp: guest_modified_def Let_def upd_guest_def dev simp del: fun_upd_apply cong: if_cong)
qed

lemma config_eq_by_guests:
  "upd_guest gi f (upd_guest gi h c) = upd_guest gi (\<lambda>g. f (h g)) c"
  "cfg_guests (upd_guest gi f c) = (cfg_guests c)(gi := f (cfg_guests c gi))"
  "cfg_md_mem (upd_guest gi f c) = cfg_md_mem c" "cfg_hcall_mem (upd_guest gi f c) = cfg_hcall_mem c"
  "cfg_hcall_tables (upd_guest gi f c) = cfg_hcall_tables c" "cfg_herr_badtrap (upd_guest gi f c) = cfg_herr_badtrap c"
  by (simp_all add: upd_guest_def)

text \<open>The device map of a freshly configured guest.\<close>

definition guest_dev_map :: "u64 \<Rightarrow> u64 \<Rightarrow> nat \<Rightarrow> u8" where
  "guest_dev_map vdev cdev x = (if x \<in> cdev_ids cdev then DEVOPS_CDEV
     else if x = unat (devid_of vdev) then DEVOPS_VDEV else DEVOPS_RESERVED)"

text \<open>A guest as configuring leaves it, before the final reset.\<close>

definition guest_configured :: "bin_md \<Rightarrow> guest \<Rightarrow> guest" where
  "guest_configured gmd g = (let p = g_pip g in
     (guest_modified gmd (g\<lparr> g_ldc_mapin_basera := LDC_MAPIN_BASERA, g_ldc_mapin_size := LDC_MAPIN_RASIZE,
        g_state := GUEST_STATE_STOPPED \<rparr>))
     \<lparr> g_tod_offset := gp_tod_offset p,
       g_ldc_ino2endpoint := (\<lambda>x. if x < MAX_LDC_INOS then \<lparr> ie_endpointp = None, ie_mapregp = None \<rparr>
                    else g_ldc_ino2endpoint g x),
       g_ldc_max_channel_idx := of_nat MAX_LDC_CHANNELS,
       g_vino2inst := \<lambda>y. if y < NVINOS then DEVOPS_RESERVED else g_vino2inst g y,
       g_dev2inst := \<lambda>x. if x < NDEVIDS then guest_dev_map (gp_vdev_cfghandle p) (gp_cdev_cfghandle p) x
         else g_dev2inst g x \<rparr>)"

lemma guest_modified_simps:
  "g_pip (guest_modified gmd g) = g_pip g" "g_state (guest_modified gmd g) = g_state g"
  "g_guestid (guest_modified gmd g) = g_guestid g" "g_vino2inst (guest_modified gmd g) = g_vino2inst g"
  "g_ldc_ino2endpoint (guest_modified gmd g) = g_ldc_ino2endpoint g"
  "g_console (guest_modified gmd g) = g_console g" "g_ldc_endpoint (guest_modified gmd g) = g_ldc_endpoint g"
  by (simp_all add: guest_modified_def Let_def)

abbreviation guest_start :: "guest \<Rightarrow> guest" where
  "guest_start g \<equiv> g\<lparr> g_ldc_mapin_basera := LDC_MAPIN_BASERA, g_ldc_mapin_size := LDC_MAPIN_RASIZE,
     g_state := GUEST_STATE_STOPPED \<rparr>"

abbreviation guest_tables :: "guest \<Rightarrow> guest" where
  "guest_tables g \<equiv> clear_devops (g\<lparr> g_tod_offset := gp_tod_offset (g_pip g),
     g_ldc_ino2endpoint := (\<lambda>x. if x < MAX_LDC_INOS then \<lparr> ie_endpointp = None, ie_mapregp = None \<rparr>
        else g_ldc_ino2endpoint g x), g_ldc_max_channel_idx := of_nat MAX_LDC_CHANNELS \<rparr>)"

lemma guest_configured_devices:
  assumes "guest_handles_ok (g_vdev_cfghandle g) (g_cdev_cfghandle g)"
    and "guest_handles_ok (gp_vdev_cfghandle (g_pip g)) (gp_cdev_cfghandle (g_pip g))"
  shows "(\<lambda>x. if x \<in> cdev_ids (gp_cdev_cfghandle (g_pip g)) then DEVOPS_CDEV
      else ((\<lambda>x. if x < NDEVIDS then DEVOPS_RESERVED else g_dev2inst (guest_modified gmd (guest_start g)) x)
         (unat (devid_of (gp_vdev_cfghandle (g_pip g))) := DEVOPS_VDEV)) x) =
    (\<lambda>x. if x < NDEVIDS then guest_dev_map (gp_vdev_cfghandle (g_pip g)) (gp_cdev_cfghandle (g_pip g)) x
      else g_dev2inst g x)"
  using assms by (auto simp: fun_eq_iff guest_modified_def Let_def guest_handles_ok_def guest_dev_map_def)

lemma guest_config_tables_eq:
  fixes gmd g defines "g1 \<equiv> guest_modified gmd (guest_start g)"
  assumes "guest_handles_ok (g_vdev_cfghandle g) (g_cdev_cfghandle g)"
    and "guest_handles_ok (gp_vdev_cfghandle (g_pip g)) (gp_cdev_cfghandle (g_pip g))"
    and "gp_vdev_cfghandle (g_pip g) \<noteq> INVALID_CFGHANDLE" "gp_cdev_cfghandle (g_pip g) \<noteq> INVALID_CFGHANDLE"
  shows "hbind (config_guest_virtual_device (gp_vdev_cfghandle (g_pip g1)) (guest_tables g1))
       (config_guest_channel_device (gp_cdev_cfghandle (g_pip g1))) = Inr (guest_configured gmd g)"
proof -
  have pip: "g_pip g1 = g_pip g" by (simp add: g1_def guest_modified_simps)
  note ok = assms(2-5) [unfolded guest_handles_ok_def]
  show ?thesis
    unfolding pip hbind_eq_Inr guest_device_eqs
    using ok guest_configured_devices [OF assms(2,3), of gmd]
    by (simp add: guest_configured_def Let_def clear_devops_def g1_def guest_modified_simps
        del: fun_upd_apply cong: if_cong) (simp add: guest_modified_def Let_def)
qed

lemma res_guest_commit_config_eq:
  assumes "res_guest_commit_config gi c = Inr c'"
  shows "let g = cfg_guests c gi; p = g_pip g in
     gi < NGUESTS \<and> g_state g = GUEST_STATE_UNCONFIGURED \<and>
     gp_vdev_cfghandle p \<noteq> INVALID_CFGHANDLE \<and> gp_cdev_cfghandle p \<noteq> INVALID_CFGHANDLE \<and>
     guest_handles_ok (gp_vdev_cfghandle p) (gp_cdev_cfghandle p) \<and>
     (\<exists>gmd. cfg_md_mem c (gp_md_pa p) = Some gmd \<and>
        TR_MAJOR (transport_version gmd) = TR_MAJOR MD_TRANSPORT_VERSION \<and>
        c' = upd_guest gi (\<lambda>g. reset_guest_ldc_mapins (reset_guest_perm_mappings g))
          (reset_api_hcall_table gi (upd_guest gi (guest_configured gmd) c)))"
proof -
  let ?g = "cfg_guests c gi"
  from assms obtain c1 c2 where st: "g_state ?g = GUEST_STATE_UNCONFIGURED"
    and 1: "res_guest_commit_modify gi (upd_guest gi guest_start c) = Inr c1"
    and 2: "upd_guest_hv gi (\<lambda>g. hbind (config_guest_virtual_device (gp_vdev_cfghandle (g_pip g)) (guest_tables g))
        (config_guest_channel_device (gp_cdev_cfghandle (g_pip g)))) c1 = Inr c2"
    and 3: "c' = upd_guest gi (\<lambda>g. reset_guest_ldc_mapins (reset_guest_perm_mappings g)) (reset_api_hcall_table gi c2)"
    unfolding res_guest_commit_config_def reset_guest_state_def hassert_eq_Inr hbind_eq_Inr Let_def by auto
  from 1 obtain gmd where gmd: "gi < NGUESTS" "guest_handles_ok (g_vdev_cfghandle ?g) (g_cdev_cfghandle ?g)"
    "gp_vdev_cfghandle (g_pip ?g) \<noteq> INVALID_CFGHANDLE" "gp_cdev_cfghandle (g_pip ?g) \<noteq> INVALID_CFGHANDLE"
    "guest_handles_ok (gp_vdev_cfghandle (g_pip ?g)) (gp_cdev_cfghandle (g_pip ?g))"
    "cfg_md_mem c (gp_md_pa (g_pip ?g)) = Some gmd"
    "TR_MAJOR (transport_version gmd) = TR_MAJOR MD_TRANSPORT_VERSION"
    and c1: "c1 = upd_guest gi (guest_modified gmd) (upd_guest gi guest_start c)"
    unfolding res_guest_commit_modify_eq Let_def by (auto simp: config_eq_by_guests)
  have "cfg_guests c1 gi = guest_modified gmd (guest_start ?g)" by (simp add: c1 config_eq_by_guests)
  with 2 guest_config_tables_eq [OF gmd(2,5,3,4), of gmd]
  have "c2 = upd_guest gi (\<lambda>_. guest_configured gmd ?g) c1" by (simp add: upd_guest_hv_eq cong: if_cong)
  then have "c2 = upd_guest gi (guest_configured gmd) c" by (simp add: c1 config_eq_by_guests) (simp add: upd_guest_def)
  with st gmd 3 show ?thesis unfolding Let_def by blast
qed

text \<open>A guest as \<open>init_guest\<close> leaves it: nothing but its number, and the I/O segment.\<close>

definition guest_blank :: "nat \<Rightarrow> guest" where
  "guest_blank i = guest_zero\<lparr> g_guestid := of_nat i, g_state := GUEST_STATE_UNCONFIGURED,
     g_pip := guest_parse_info_zero\<lparr> gp_vdev_cfghandle := INVALID_CFGHANDLE, gp_cdev_cfghandle := INVALID_CFGHANDLE \<rparr>,
     g_ra2pa_segment := \<lambda>j. if j = 63 then \<lparr> seg_base = 0xfff0c00000, seg_limit = 0xfff1000000, seg_offset = 0,
         seg_flags = IO_SEGMENT \<rparr>
       else if j < NUM_RA2PA_SEGMENTS then init_ra2pa_segment else ra2pa_segment_zero,
     g_async_buf_op := HVctl_op_new_res_stat \<rparr>"

lemma init_guest_eq: "init_guest i c = (if i < NGUESTS then Inr (upd_guest i (\<lambda>_. guest_blank i) c) else Inl Bad_access)"
proof -
  have slots: "seg_slots 0xfff0c00000 0x400000 = {63}"
    by (auto simp: seg_slots_def hv_sizes unat_drop_bit_div)
  have "assign_ra2pa_segments 0xfff0c00000 0x400000 0 IO_SEGMENT g = Inr (g\<lparr> g_ra2pa_segment :=
      \<lambda>j. if j \<in> {63} then \<lparr> seg_base = 0xfff0c00000, seg_limit = 0xfff1000000, seg_offset = 0, seg_flags = IO_SEGMENT \<rparr>
        else g_ra2pa_segment g j \<rparr>)" for g
    unfolding assign_ra2pa_segments_eq slots by (simp add: hv_sizes unat_drop_bit_div cong: if_cong)
  then show ?thesis
    by (simp add: init_guest_def upd_guest_hv_def guest_blank_def hguard_def cong: if_cong)
qed

definition guests_ok :: "config \<Rightarrow> bool" where
  "guests_ok c \<longleftrightarrow> (\<forall>i<NGUESTS. g_guestid (cfg_guests c i) = of_nat i)"

lemma set_guest_flags_simps:
  "cfg_guests (set_guest_flags i fl c) = (cfg_guests c)(i := (cfg_guests c i)
     \<lparr> g_pip := (g_pip (cfg_guests c i))\<lparr> gp_flags := fl \<rparr> \<rparr>)"
  by (simp add: set_guest_flags_def upd_guest_def)

lemma guest_blank_simps:
  "g_state (guest_blank i) = GUEST_STATE_UNCONFIGURED" "g_guestid (guest_blank i) = of_nat i"
  "gp_flags (g_pip (guest_blank i)) = RESF_Noop" "g_console (guest_blank i) = console_zero"
  "g_ldc_endpoint (guest_blank i) = (\<lambda>_. ldc_endpoint_zero)"
  by (simp_all add: guest_blank_def guest_parse_info_zero_def resf_defs guest_zero_def)

lemma guest_blank_flag:
  "(guest_blank i)\<lparr> g_pip := (g_pip (guest_blank i))\<lparr> gp_flags := RESF_Noop \<rparr> \<rparr> = guest_blank i"
  by (simp add: guest_blank_def guest_parse_info_zero_def resf_defs)

lemma unconfig_devices_guestid:
  "hbind (unconfig_guest_virtual_device g) (\<lambda>g. hbind (unconfig_guest_channel_device g) (\<lambda>g. Inr (clear_devops g))) = Inr g' \<Longrightarrow>
   g_guestid g' = g_guestid g"
  by (auto simp: hbind_eq_Inr guest_device_eqs clear_devops_def)

lemma res_guest_commit_unconfig_eq:
  assumes "res_guest_commit_unconfig gi c = Inr c'" "guests_ok c" "gi < NGUESTS"
  shows "g_state (cfg_guests c gi) = GUEST_STATE_STOPPED \<and> c' = upd_guest gi (\<lambda>_. guest_blank gi) c"
proof -
  from assms(1) obtain c1 c2 g where st: "g_state (cfg_guests c gi) = GUEST_STATE_STOPPED"
    and 1: "c1 = upd_guest gi (\<lambda>_. g) c" "g_guestid g = g_guestid (cfg_guests c gi)"
    and 2: "init_guest (unat (ucast (g_guestid (cfg_guests c1 gi)) :: u32)) c1 = Inr c2"
    and 3: "c' = set_guest_flags gi RESF_Noop c2"
    unfolding res_guest_commit_unconfig_def hassert_eq_Inr hbind_eq_Inr [of "upd_guest_hv _ _ _"] upd_guest_hv_eq
    by (auto simp: hbind_eq_Inr [of "init_guest _ _"] dest!: unconfig_devices_guestid)
  have "unat (ucast (of_nat gi :: u64) :: u32) = gi"
    using assms(3) by (simp add: hv_sizes unsigned_ucast_eq unsigned_of_nat take_bit_nat_eq_self)
  then have "c2 = upd_guest gi (\<lambda>_. guest_blank gi) c"
    using 1 2 assms(2,3) by (simp add: init_guest_eq config_eq_by_guests guests_ok_def)
  then have "c' = upd_guest gi (\<lambda>_. guest_blank gi) c"
    by (simp add: 3 set_guest_flags_def config_eq_by_guests guest_blank_flag)
  with st show ?thesis by simp
qed

lemma reset_guest_simps:
  "cfg_guests (reset_api_hcall_table gi c) = (cfg_guests c)(gi := (cfg_guests c gi)
     \<lparr> g_hcall_table := hcall_table_addr c (g_guestid (cfg_guests c gi)),
       g_api_version_num := \<lambda>i. if i < NUM_API_GROUPS then 0 else g_api_version_num (cfg_guests c gi) i \<rparr>)"
  by (simp add: reset_api_hcall_table_def Let_def upd_guest_def)

lemma reset_guest_keeps:
  "g_pip (reset_guest_ldc_mapins g) = g_pip g" "g_state (reset_guest_ldc_mapins g) = g_state g"
  "g_guestid (reset_guest_ldc_mapins g) = g_guestid g" "g_console (reset_guest_ldc_mapins g) = g_console g"
  "g_ldc_endpoint (reset_guest_ldc_mapins g) = g_ldc_endpoint g" "g_dev2inst (reset_guest_ldc_mapins g) = g_dev2inst g"
  "g_vino2inst (reset_guest_ldc_mapins g) = g_vino2inst g" "g_entry (reset_guest_ldc_mapins g) = g_entry g"
  "g_real_base (reset_guest_ldc_mapins g) = g_real_base g" "g_md_size (reset_guest_ldc_mapins g) = g_md_size g"
  "g_api_version_num (reset_guest_ldc_mapins g) = g_api_version_num g"
  "g_ldc_ino2endpoint (reset_guest_ldc_mapins g) = g_ldc_ino2endpoint g"
  by (simp_all add: reset_guest_ldc_mapins_eq)

lemma guest_configured_simps:
  "g_pip (guest_configured gmd g) = g_pip g" "g_state (guest_configured gmd g) = GUEST_STATE_STOPPED"
  "g_guestid (guest_configured gmd g) = g_guestid g" "g_console (guest_configured gmd g) = g_console g"
  "g_ldc_endpoint (guest_configured gmd g) = g_ldc_endpoint g"
  by (simp_all add: guest_configured_def Let_def guest_modified_simps)

text \<open>The commit step of a guest, as far as the other resources see it.\<close>

lemma res_guest_commit_1_cases:
  assumes "res_guest_commit_1 fl i c = Inr c'" "guests_ok c" "i < NGUESTS" "gp_flags (g_pip (cfg_guests c i)) = fl"
  shows "\<exists>g'. cfg_guests c' = (cfg_guests c)(i := g') \<and> gp_flags (g_pip g') = RESF_Noop \<and> g_guestid g' = of_nat i \<and>
    (g_state g' \<noteq> GUEST_STATE_UNCONFIGURED \<longleftrightarrow>
      fl = RESF_Config \<or> fl \<noteq> RESF_Unconfig \<and> g_state (cfg_guests c i) \<noteq> GUEST_STATE_UNCONFIGURED)"
proof -
  let ?g = "cfg_guests c i"
  from assms obtain c1 where c': "c' = set_guest_flags i RESF_Noop c1"
    and sw: "res_switch fl (Inr c) (res_guest_commit_unconfig i c) (res_guest_commit_config i c)
      (Inl Assert_fail) (res_guest_commit_modify i c) = Inr c1"
    by (auto simp: res_guest_commit_1_def Let_def hbind_eq_Inr)
  have id: "g_guestid ?g = of_nat i" using assms(2,3) by (simp add: guests_ok_def)
  have "\<exists>g'. cfg_guests c1 = (cfg_guests c)(i := g') \<and> g_guestid g' = of_nat i \<and>
    (g_state g' \<noteq> GUEST_STATE_UNCONFIGURED \<longleftrightarrow>
      fl = RESF_Config \<or> fl \<noteq> RESF_Unconfig \<and> g_state ?g \<noteq> GUEST_STATE_UNCONFIGURED)"
    using sw
  proof (cases rule: res_switch_cases)
    case Noop
    then show ?thesis using id by (intro exI [of _ ?g]) auto
  next
    case Unconfig
    then show ?thesis using res_guest_commit_unconfig_eq [OF _ assms(2,3)]
      by (intro exI [of _ "guest_blank i"]) (simp add: config_eq_by_guests guest_blank_simps)
  next
    case Config
    from res_guest_commit_config_eq [OF Config(2)] obtain gmd where
      "c1 = upd_guest i (\<lambda>g. reset_guest_ldc_mapins (reset_guest_perm_mappings g))
          (reset_api_hcall_table i (upd_guest i (guest_configured gmd) c))" unfolding Let_def by blast
    then show ?thesis using Config(1) id
      by (simp add: config_eq_by_guests reset_guest_simps reset_guest_perm_mappings_def)
        (intro exI conjI, rule refl, simp_all add: reset_guest_keeps guest_configured_simps guest_states)
  next
    case Modify
    from Modify(2) obtain gmd where "c1 = upd_guest i (guest_modified gmd) c"
      unfolding res_guest_commit_modify_eq Let_def by blast
    then show ?thesis using Modify(1) id
      by (intro exI [of _ "guest_modified gmd ?g"]) (simp add: config_eq_by_guests guest_modified_simps)
  qed auto
  then obtain g' where g': "cfg_guests c1 = (cfg_guests c)(i := g')" "g_guestid g' = of_nat i"
    "g_state g' \<noteq> GUEST_STATE_UNCONFIGURED \<longleftrightarrow>
      fl = RESF_Config \<or> fl \<noteq> RESF_Unconfig \<and> g_state ?g \<noteq> GUEST_STATE_UNCONFIGURED" by blast
  then show ?thesis
    by (intro exI [of _ "g'\<lparr> g_pip := (g_pip g')\<lparr> gp_flags := RESF_Noop \<rparr> \<rparr>"])
      (simp add: c' set_guest_flags_simps)
qed

interpretation guests: resource_kind "[0..<NGUESTS]" "\<lambda>c i. gp_flags (g_pip (cfg_guests c i))"
  res_guest_commit_1 guests_ok "\<lambda>c i. g_state (cfg_guests c i) \<noteq> GUEST_STATE_UNCONFIGURED"
proof (unfold_locales, goal_cases)
  case (2 c i fl)
  then show ?case by (simp add: res_guest_commit_1_def)
next
  case (3 i c fl c')
  show ?case
  proof (cases "gp_flags (g_pip (cfg_guests c i)) = fl")
    case True
    with 3 res_guest_commit_1_cases [of fl i c c'] show ?thesis by (auto simp: guests_ok_def split: if_splits)
  qed (use 3 in \<open>simp add: res_guest_commit_1_def\<close>)
next
  case (4 i c fl c')
  then show ?case using res_guest_commit_1_cases [of fl i c c'] by auto
next
  case (5 i c fl c' j)
  show ?case
  proof (cases "gp_flags (g_pip (cfg_guests c i)) = fl")
    case True
    with 5 res_guest_commit_1_cases [of fl i c c'] show ?thesis by auto
  qed (use 5 in \<open>simp add: res_guest_commit_1_def\<close>)
next
  case (6 i c fl c')
  then show ?case using res_guest_commit_1_cases [of fl i c c'] by auto
next
  case (7 i c fl c' j)
  show ?case
  proof (cases "gp_flags (g_pip (cfg_guests c i)) = fl")
    case True
    with 7 res_guest_commit_1_cases [of fl i c c'] show ?thesis by auto
  qed (use 7 in \<open>simp add: res_guest_commit_1_def\<close>)
qed simp

subsection \<open>Hypercall tables\<close>

lemma fold_table:
  assumes "\<And>i j. i < n \<Longrightarrow> j < n \<Longrightarrow> a i = a j \<Longrightarrow> i = j"
  shows "fold (\<lambda>i m. m(a i := v)) [0..<n] m = (\<lambda>x. if x \<in> a ` {..<n} then v else m x)"
  by (induction n) (auto simp: fun_eq_iff lessThan_Suc)

lemma of_nat_u64_inject: "i < 2 ^ 64 \<Longrightarrow> j < 2 ^ 64 \<Longrightarrow> (of_nat i :: u64) = of_nat j \<longleftrightarrow> i = j"
  by (simp add: word_unat_eq_iff unsigned_of_nat take_bit_nat_eq_self)

definition hcall_entry :: "config \<Rightarrow> nat \<Rightarrow> nat \<Rightarrow> u64" where
  "hcall_entry c gid i = hcall_table_addr c (of_nat gid) + of_nat i * API_ENTRY_SIZE"

lemma hcall_entry_inject:
  assumes "gid < NGUESTS" "gid' < NGUESTS" "i < NUM_API_CALLS" "j < NUM_API_CALLS"
    and "hcall_entry c gid i = hcall_entry c gid' j"
  shows "gid = gid' \<and> i = j"
proof -
  have sz: "HCALL_TABLE_SIZE = of_nat 4160"
    by (simp add: HCALL_TABLE_SIZE_def NUM_API_CALLS_def API_ENTRY_SIZE_def L2_LINE_SIZE_def)
  have e: "hcall_entry c g k = ((cfg_hcall_tables c + L2_LINE_SIZE - 1) AND NOT (L2_LINE_SIZE - 1)) +
      of_nat (4160 * g + 8 * k)" for g k
    by (simp add: hcall_entry_def hcall_table_addr_def sz API_ENTRY_SIZE_def)
  have "(of_nat (4160 * gid + 8 * i) :: u64) = of_nat (4160 * gid' + 8 * j)"
    using assms(5) unfolding e by simp
  then have "4160 * gid + 8 * i = 4160 * gid' + 8 * j"
    using assms(1-4) by (subst (asm) of_nat_u64_inject) (simp_all add: hv_sizes NUM_API_CALLS_def)
  then have "(4160 * gid + 8 * i) div 4160 = (4160 * gid' + 8 * j) div 4160" by simp
  then have "gid = gid'" using assms(3,4) by (simp add: NUM_API_CALLS_def)
  with \<open>4160 * gid + 8 * i = 4160 * gid' + 8 * j\<close> show ?thesis by simp
qed

lemma reset_api_hcall_table_mem:
  assumes "g_guestid (cfg_guests c gi) = of_nat gi" "gi < NGUESTS"
  shows "cfg_hcall_mem (reset_api_hcall_table gi c) =
    (\<lambda>x. if x \<in> hcall_entry c gi ` {..<NUM_API_CALLS} then cfg_herr_badtrap c else cfg_hcall_mem c x)"
proof -
  have "fold (\<lambda>i m. m(hcall_entry c gi i := cfg_herr_badtrap c)) [0..<NUM_API_CALLS] (cfg_hcall_mem c) =
    (\<lambda>x. if x \<in> hcall_entry c gi ` {..<NUM_API_CALLS} then cfg_herr_badtrap c else cfg_hcall_mem c x)"
    by (rule fold_table) (use assms(2) hcall_entry_inject in blast)
  then show ?thesis
    using assms(1) by (simp add: reset_api_hcall_table_def Let_def hcall_entry_def upd_guest_def)
qed

text \<open>
  Resetting the hypercall table of a guest makes every entry of it the
  bad-trap routine, whatever the guest had negotiated, and changes no entry of
  the table of any other guest.
\<close>

theorem reset_api_hcall_table_isolated:
  assumes "gi < NGUESTS" "g_guestid (cfg_guests c gi) = of_nat gi" "k < NUM_API_CALLS"
  shows "cfg_hcall_mem (reset_api_hcall_table gi c) (hcall_entry c gi k) = cfg_herr_badtrap c \<and>
    g_hcall_table (cfg_guests (reset_api_hcall_table gi c) gi) = hcall_entry c gi 0 \<and>
    (\<forall>gj<NGUESTS. gj \<noteq> gi \<longrightarrow>
       cfg_hcall_mem (reset_api_hcall_table gi c) (hcall_entry c gj k) = cfg_hcall_mem c (hcall_entry c gj k))"
  unfolding reset_api_hcall_table_mem [OF assms(2,1)]
  using assms hcall_entry_inject [of _ gi k _ c] by (auto simp: reset_guest_simps hcall_entry_def [of c gi 0])

theorem reset_api_hcall_table_isolated_witness:
  "cfg_hcall_mem (reset_api_hcall_table 1 (config_zero\<lparr> cfg_herr_badtrap := 0xbad,
       cfg_guests := (\<lambda>_. guest_zero)(1 := guest_zero\<lparr> g_guestid := 1 \<rparr>) \<rparr>)) (hcall_entry config_zero 1 3) = 0xbad"
  using reset_api_hcall_table_isolated [of 1 "config_zero\<lparr> cfg_herr_badtrap := 0xbad,
       cfg_guests := (\<lambda>_. guest_zero)(1 := guest_zero\<lparr> g_guestid := 1 \<rparr>) \<rparr>" 3]
  by (simp add: hv_sizes NUM_API_CALLS_def hcall_entry_def hcall_table_addr_def)

subsection \<open>What configuring a guest achieves\<close>

lemma res_guest_commit_config_ok:
  assumes "gi < NGUESTS" "g_state (cfg_guests c gi) = GUEST_STATE_UNCONFIGURED"
    and ok: "guest_handles_ok (g_vdev_cfghandle (cfg_guests c gi)) (g_cdev_cfghandle (cfg_guests c gi))"
      "guest_handles_ok (gp_vdev_cfghandle (g_pip (cfg_guests c gi))) (gp_cdev_cfghandle (g_pip (cfg_guests c gi)))"
      "gp_vdev_cfghandle (g_pip (cfg_guests c gi)) \<noteq> INVALID_CFGHANDLE"
      "gp_cdev_cfghandle (g_pip (cfg_guests c gi)) \<noteq> INVALID_CFGHANDLE"
    and gmd: "cfg_md_mem c (gp_md_pa (g_pip (cfg_guests c gi))) = Some gmd"
      "TR_MAJOR (transport_version gmd) = TR_MAJOR MD_TRANSPORT_VERSION"
  shows "\<exists>c'. res_guest_commit_config gi c = Inr c'"
proof -
  let ?g = "cfg_guests c gi"
  have st: "GUEST_STATE_STOPPED \<noteq> GUEST_STATE_UNCONFIGURED" by (simp add: guest_states)
  have 1: "res_guest_commit_modify gi (upd_guest gi guest_start c) =
      Inr (upd_guest gi (guest_modified gmd) (upd_guest gi guest_start c))"
    unfolding res_guest_commit_modify_eq Let_def using assms st by (simp add: config_eq_by_guests)
  let ?c1 = "upd_guest gi (guest_modified gmd) (upd_guest gi guest_start c)"
  have "cfg_guests ?c1 gi = guest_modified gmd (guest_start ?g)" by (simp add: config_eq_by_guests)
  then have 2: "upd_guest_hv gi (\<lambda>g. hbind (config_guest_virtual_device (gp_vdev_cfghandle (g_pip g)) (guest_tables g))
      (config_guest_channel_device (gp_cdev_cfghandle (g_pip g)))) ?c1 = Inr (upd_guest gi (\<lambda>_. guest_configured gmd ?g) ?c1)"
    unfolding upd_guest_hv_eq using assms(1) guest_config_tables_eq [OF ok, of gmd] by (simp cong: if_cong)
  show ?thesis
    unfolding res_guest_commit_config_def Let_def using assms(2) 1 2
    by (simp add: reset_guest_state_def config_eq_by_guests guest_configured_simps)
qed

text \<open>
  C5. Configuring a guest makes it a stopped guest whose entry point is the base
  of its memory, whose devices are exactly the virtual devices and the channel
  devices of its description, which has no interrupt, channel or negotiated
  hypercall left over, and leaves every other guest as it was.
\<close>

theorem res_guest_commit_config_result:
  assumes "res_guest_commit_config gi c = Inr c'" "guests_ok c"
  shows "let g = cfg_guests c gi; p = g_pip g; g' = cfg_guests c' gi in
    g_state g = GUEST_STATE_UNCONFIGURED \<and> g_state g' = GUEST_STATE_STOPPED \<and>
    g_real_base g' = gp_real_base p \<and> g_entry g' = gp_real_base p \<and>
    (\<exists>gmd. cfg_md_mem c (gp_md_pa p) = Some gmd \<and> g_md_size g' = md_total_size gmd) \<and>
    (\<forall>x<NDEVIDS. g_dev2inst g' x = guest_dev_map (gp_vdev_cfghandle p) (gp_cdev_cfghandle p) x) \<and>
    (\<forall>y<NVINOS. g_vino2inst g' y = DEVOPS_RESERVED) \<and>
    (\<forall>x<MAX_LDC_INOS. ie_endpointp (g_ldc_ino2endpoint g' x) = None) \<and>
    (\<forall>k<NUM_API_GROUPS. g_api_version_num g' k = 0) \<and>
    (\<forall>k<NUM_API_CALLS. cfg_hcall_mem c' (hcall_entry c gi k) = cfg_herr_badtrap c) \<and>
    (\<forall>j. j \<noteq> gi \<longrightarrow> cfg_guests c' j = cfg_guests c j)"
proof -
  from res_guest_commit_config_eq [OF assms(1)] obtain gmd where g: "gi < NGUESTS"
    "g_state (cfg_guests c gi) = GUEST_STATE_UNCONFIGURED"
    "cfg_md_mem c (gp_md_pa (g_pip (cfg_guests c gi))) = Some gmd"
    and c': "c' = upd_guest gi (\<lambda>g. reset_guest_ldc_mapins (reset_guest_perm_mappings g))
          (reset_api_hcall_table gi (upd_guest gi (guest_configured gmd) c))" unfolding Let_def by blast
  let ?c1 = "upd_guest gi (guest_configured gmd) c"
  have id: "g_guestid (cfg_guests ?c1 gi) = of_nat gi"
    using assms(2) g(1) by (simp add: config_eq_by_guests guest_configured_simps guests_ok_def)
  have entry: "hcall_entry ?c1 gi k = hcall_entry c gi k" for k
    by (simp add: hcall_entry_def hcall_table_addr_def config_eq_by_guests)
  have mem: "cfg_hcall_mem c' (hcall_entry c gi k) = cfg_herr_badtrap c" if "k < NUM_API_CALLS" for k
    using that reset_api_hcall_table_mem [OF id g(1)] by (simp add: c' config_eq_by_guests entry)
  have g': "cfg_guests c' gi = reset_guest_ldc_mapins (reset_guest_perm_mappings
      ((guest_configured gmd (cfg_guests c gi))\<lparr> g_hcall_table := hcall_table_addr ?c1 (g_guestid (cfg_guests ?c1 gi)),
       g_api_version_num := \<lambda>i. if i < NUM_API_GROUPS then 0
         else g_api_version_num (guest_configured gmd (cfg_guests c gi)) i \<rparr>))"
    by (simp add: c' config_eq_by_guests reset_guest_simps cong: if_cong)
  have others: "cfg_guests c' j = cfg_guests c j" if "j \<noteq> gi" for j
    using that by (simp add: c' config_eq_by_guests reset_guest_simps)
  show ?thesis
    unfolding Let_def using g mem others
    by (simp add: g' reset_guest_keeps reset_guest_perm_mappings_def guest_configured_simps)
      (simp add: guest_configured_def guest_modified_def Let_def)
qed

definition empty_md :: bin_md where
  "empty_md = \<lparr> transport_version = 0x10000, node_blk_sz = 0x20, name_blk_sz = 0x10, data_blk_sz = 0,
     elem = [], str_tab = [] \<rparr>"

definition guest0_config :: config where
  "guest0_config = config_zero\<lparr> cfg_md_mem := [0x1000 \<mapsto> empty_md],
     cfg_guests := (\<lambda>i. guest_blank i)(0 := (guest_blank 0)\<lparr> g_pip := guest_parse_info_zero\<lparr> gp_flags := RESF_Config,
       gp_real_base := 0x400000, gp_md_pa := 0x1000, gp_vdev_cfghandle := 0x100, gp_cdev_cfghandle := 0x200 \<rparr> \<rparr>) \<rparr>"

theorem res_guest_commit_config_result_witness:
  "\<exists>c'. res_guest_commit_config 0 guest0_config = Inr c' \<and> g_entry (cfg_guests c' 0) = 0x400000 \<and>
     g_md_size (cfg_guests c' 0) = 0x40 \<and> g_dev2inst (cfg_guests c' 0) 4 = DEVOPS_VDEV \<and>
     g_dev2inst (cfg_guests c' 0) 8 = DEVOPS_CDEV \<and> g_dev2inst (cfg_guests c' 0) 16 = DEVOPS_RESERVED"
proof -
  have ids: "devid_of 0 = 0" "devid_of 0x100 = 4" "cdev_ids 0 = {0..<8}" "cdev_ids 0x200 = {8..<16}"
    by (simp_all add: devid_of_def cdev_ids_def hv_sizes drop_bit_eq_div)
  have g0: "g_state (cfg_guests guest0_config 0) = GUEST_STATE_UNCONFIGURED"
    "g_vdev_cfghandle (cfg_guests guest0_config 0) = 0" "g_cdev_cfghandle (cfg_guests guest0_config 0) = 0"
    "gp_vdev_cfghandle (g_pip (cfg_guests guest0_config 0)) = 0x100"
    "gp_cdev_cfghandle (g_pip (cfg_guests guest0_config 0)) = 0x200"
    "gp_real_base (g_pip (cfg_guests guest0_config 0)) = 0x400000"
    "gp_md_pa (g_pip (cfg_guests guest0_config 0)) = 0x1000"
    by (simp_all add: guest0_config_def guest_blank_simps) (simp_all add: guest_blank_def guest_zero_def)
  have md: "cfg_md_mem guest0_config 0x1000 = Some empty_md"
    by (simp add: guest0_config_def)
  have "\<exists>c'. res_guest_commit_config 0 guest0_config = Inr c'"
    by (rule res_guest_commit_config_ok [where gmd = empty_md])
      (simp_all add: g0 md empty_md_def ids guest_handles_ok_def hv_sizes INVALID_CFGHANDLE_def MD_TRANSPORT_VERSION_def subset_iff)
  then obtain c' where c': "res_guest_commit_config 0 guest0_config = Inr c'" ..
  have "guests_ok guest0_config" by (simp add: guests_ok_def guest0_config_def guest_blank_simps)
  from res_guest_commit_config_result [OF c' this, unfolded Let_def g0 md]
  show ?thesis using c'
    by (auto simp: guest_dev_map_def ids hv_sizes md_total_size_def MD_HEADER_SIZE_def empty_md_def)
qed

subsection \<open>What parsing may change\<close>

text \<open>
  The fields of a guest that parsing leaves alone: all but the \<open>pip\<close>, the
  number, and the two access permissions that the code writes at once.
\<close>

definition guest_same_live :: "guest \<Rightarrow> guest \<Rightarrow> bool" where
  "guest_same_live g g' \<longleftrightarrow> g' = g\<lparr> g_pip := g_pip g', g_guestid := g_guestid g',
     g_rng_ctl_accessible := g_rng_ctl_accessible g', g_perfreght_accessible := g_perfreght_accessible g' \<rparr>"

lemma guest_same_live_refl: "guest_same_live g g"
  by (simp add: guest_same_live_def)

lemma guest_same_live_trans: "guest_same_live g g' \<Longrightarrow> guest_same_live g' g'' \<Longrightarrow> guest_same_live g g''"
proof -
  assume *: "guest_same_live g g'" "guest_same_live g' g''"
  have "g'' = (g\<lparr> g_pip := g_pip g', g_guestid := g_guestid g', g_rng_ctl_accessible := g_rng_ctl_accessible g',
      g_perfreght_accessible := g_perfreght_accessible g' \<rparr>)\<lparr> g_pip := g_pip g'', g_guestid := g_guestid g'',
      g_rng_ctl_accessible := g_rng_ctl_accessible g'', g_perfreght_accessible := g_perfreght_accessible g'' \<rparr>"
    using * unfolding guest_same_live_def by metis
  then show ?thesis by (simp add: guest_same_live_def)
qed

definition guest_flag_ok :: "guest \<Rightarrow> bool" where
  "guest_flag_ok g \<longleftrightarrow> gp_flags (g_pip g) \<in> {RESF_Noop, RESF_Unconfig, RESF_Config, RESF_Modify} \<and>
     (gp_flags (g_pip g) = RESF_Config \<longrightarrow> g_state g = GUEST_STATE_UNCONFIGURED) \<and>
     (gp_flags (g_pip g) \<in> {RESF_Unconfig, RESF_Modify} \<longrightarrow> g_state g \<noteq> GUEST_STATE_UNCONFIGURED)"

definition guest_parse_inv :: "config \<Rightarrow> config \<Rightarrow> bool" where
  "guest_parse_inv c0 c \<longleftrightarrow> c = c0\<lparr> cfg_guests := cfg_guests c \<rparr> \<and> guests_ok c \<and>
     (\<forall>i. guest_same_live (cfg_guests c0 i) (cfg_guests c i)) \<and> (\<forall>i<NGUESTS. guest_flag_ok (cfg_guests c i))"

lemma guest_parse_inv_upd:
  assumes "guest_parse_inv c0 c" "guest_same_live (cfg_guests c gi) (h (cfg_guests c gi))"
    and "gi < NGUESTS \<Longrightarrow> g_guestid (h (cfg_guests c gi)) = of_nat gi"
    and "gi < NGUESTS \<Longrightarrow> guest_flag_ok (h (cfg_guests c gi))"
  shows "guest_parse_inv c0 (upd_guest gi h c)"
proof -
  from assms(1) have "upd_guest gi h c = c0\<lparr> cfg_guests := cfg_guests (upd_guest gi h c) \<rparr>"
    unfolding guest_parse_inv_def upd_guest_def by (metis config.surjective config.update_convs(7))
  then show ?thesis
    using assms guest_same_live_trans [OF _ assms(2), of "cfg_guests c0 gi"]
    unfolding guest_parse_inv_def guests_ok_def by (auto simp: config_eq_by_guests)
qed

text \<open>Stores that only touch the \<open>pip\<close> (and not its flags) or the two permissions.\<close>

definition quiet_store :: "(guest \<Rightarrow> guest) \<Rightarrow> bool" where
  "quiet_store h \<longleftrightarrow> (\<forall>g. guest_same_live g (h g) \<and> g_guestid (h g) = g_guestid g \<and>
     gp_flags (g_pip (h g)) = gp_flags (g_pip g))"

lemma guest_parse_inv_quiet:
  assumes "guest_parse_inv c0 c" "quiet_store h"
  shows "guest_parse_inv c0 (upd_guest gi h c)"
proof (rule guest_parse_inv_upd [OF assms(1)])
  have h: "guest_same_live g (h g)" "g_guestid (h g) = g_guestid g" "gp_flags (g_pip (h g)) = gp_flags (g_pip g)" for g
    using assms(2) by (simp_all add: quiet_store_def)
  show "guest_same_live (cfg_guests c gi) (h (cfg_guests c gi))" by (rule h)
  have st: "g_state (h g) = g_state g" for g
    using h(1) [of g] unfolding guest_same_live_def by (metis (no_types, lifting) guest.select_convs(2) guest.surjective
        guest.update_convs(1) guest.update_convs(29,30,40))
  assume "gi < NGUESTS"
  then show "g_guestid (h (cfg_guests c gi)) = of_nat gi" "guest_flag_ok (h (cfg_guests c gi))"
    using assms(1) h st by (auto simp: guest_parse_inv_def guests_ok_def guest_flag_ok_def)
qed

lemma hpost_get_property:
  assumes "guest_parse_inv c0 c" "\<And>x. quiet_store (store x)"
  shows "hpost (\<lambda>r. guest_parse_inv c0 (result_cfg r)) (get_property md n gi name store (c, f))"
  unfolding get_property_def guest_missing_prop_def prod.case
  by (intro hpost_rules) (use assms in \<open>simp_all add: guest_parse_inv_quiet\<close>)

lemma hpost_opt_property:
  assumes "guest_parse_inv c0 c" "\<And>x. quiet_store (store x)"
  shows "hpost (\<lambda>r. guest_parse_inv c0 (result_cfg r)) (opt_property md n gi name d store (c, f))"
  unfolding opt_property_def prod.case
  by (intro hpost_rules) (use assms in \<open>simp_all add: guest_parse_inv_quiet\<close>)

lemma hpost_guest_devices:
  assumes "guest_parse_inv c0 c" "\<And>x. quiet_store (store x)"
  shows "hpost (\<lambda>r. guest_parse_inv c0 (result_cfg r)) (guest_devices md n gi node store (c, f))"
  unfolding guest_devices_def prod.case
  by (intro hpost_rules hpost_get_property) (use assms in simp_all)

lemma quiet_store_if: "quiet_store h \<Longrightarrow> quiet_store (\<lambda>g. if b g then h g else g)"
  by (simp add: quiet_store_def guest_same_live_refl)

lemma quiet_pip_stores:
  "quiet_store (\<lambda>g. g\<lparr> g_pip := (g_pip g)\<lparr> gp_real_base := a, gp_mem_offset := b \<rparr> \<rparr>)"
  "quiet_store (\<lambda>g. g\<lparr> g_pip := (g_pip g)\<lparr> gp_real_limit := a \<rparr> \<rparr>)"
  "quiet_store (\<lambda>g. g\<lparr> g_pip := (g_pip g)\<lparr> gp_real_base := a, gp_real_limit := b, gp_mem_offset := d \<rparr> \<rparr>)"
  by (simp_all add: quiet_store_def guest_same_live_def)

lemma hpost_guest_parse_mblock:
  assumes "guest_parse_inv c0 c"
  shows "hpost (case_sum (\<lambda>(st, c', f'). guest_parse_inv c0 c') (\<lambda>((c', f'), b). guest_parse_inv c0 c'))
    (res_guest_parse_mblock md gi n ((c, f), base))"
  unfolding res_guest_parse_mblock_def prod.case guest_missing_prop_def
proof (intro hpost_rules)
  fix realbase x c1 base1
  assume "(if realbase < gp_real_base (g_pip (cfg_guests c gi))
       then md_prop_or md n (MDNAME c ''membase'') realbase (\<lambda>membase.
              Inr (upd_guest gi (\<lambda>g. g\<lparr> g_pip := (g_pip g)\<lparr> gp_real_base := realbase,
                     gp_mem_offset := membase - realbase \<rparr> \<rparr>) c, Some n))
       else Inr (c, base)) = Inr x" and x: "x = (c1, base1)"
  then have inv: "guest_parse_inv c0 c1"
    using assms by (auto simp: md_prop_or_eq_Inr guest_parse_inv_quiet quiet_pip_stores split: if_splits)
  fix b v
  show "case_sum (\<lambda>(st, c', f'). guest_parse_inv c0 c') (\<lambda>((c', f'), b). guest_parse_inv c0 c')
     (Inr ((upd_guest gi (\<lambda>g. if gp_real_limit (g_pip g) < realbase + v
        then g\<lparr> g_pip := (g_pip g)\<lparr> gp_real_limit := realbase + v \<rparr> \<rparr> else g) c1, f), base1))"
    using guest_parse_inv_quiet [OF inv quiet_store_if [OF quiet_pip_stores(2)]] by simp
qed (use assms in simp)

lemma hpost_guest_parse_mem:
  assumes "guest_parse_inv c0 c"
  shows "hpost (\<lambda>r. guest_parse_inv c0 (result_cfg r)) (res_guest_parse_mem md n gi (c, f))"
proof -
  let ?c1 = "upd_guest gi (\<lambda>g. g\<lparr> g_pip := (g_pip g)\<lparr> gp_real_base := - 1, gp_real_limit := 0,
            gp_mem_offset := 0 \<rparr> \<rparr>) c"
  have inv: "guest_parse_inv c0 ?c1" by (rule guest_parse_inv_quiet [OF assms quiet_pip_stores(3)])
  have loop: "hpost (case_sum (\<lambda>(st, c', f'). guest_parse_inv c0 c') (\<lambda>((c', f'), b). guest_parse_inv c0 c'))
    (md_foreach md n (MDARC (MDNAME ?c1 ''fwd'')) (MDNODE (MDNAME ?c1 ''mblock'')) (res_guest_parse_mblock md gi) ((?c1, f), None))"
    by (rule hpost_md_foreach) (use inv in \<open>auto intro: hpost_guest_parse_mblock\<close>)
  show ?thesis
    unfolding res_guest_parse_mem_def prod.case Let_def
    by (rule hpost_parse_then, rule hpost_mono [OF loop])
      (auto simp: guest_missing_prop_def split: sum.splits prod.splits intro!: hpost_rules)
qed

lemma guest_elect_flag_ok: "guest_flag_ok (g\<lparr> g_pip := (g_pip g)\<lparr> gp_flags := guest_elect_flag g \<rparr> \<rparr>)"
  by (simp add: guest_flag_ok_def guest_elect_flag_def)

lemma hpost_guest_id:
  assumes "guest_parse_inv c0 c" "md_node_get_val md n (MDNAME c ''resource_id'') = Inr (Some rid)"
  shows "hpost (\<lambda>r. guest_parse_inv c0 (result_cfg r))
    (get_property md n (unat rid) ''resource_id'' (\<lambda>x g. g\<lparr> g_guestid := x \<rparr>) (c, f))"
  unfolding get_property_def guest_missing_prop_def prod.case
proof (intro hpost_rules)
  fix v
  assume "md_node_get_val md n (MDNAME c ''resource_id'') = Inr (Some v)"
  then have "v = rid" using assms(2) by simp
  then show "guest_parse_inv c0 (result_cfg (Inr (upd_guest (unat rid) (\<lambda>g. g\<lparr> g_guestid := v \<rparr>) c, f)))"
    unfolding result_cfg_simps using assms(1)
    by (intro guest_parse_inv_upd)
      (auto simp: guest_same_live_def guest_parse_inv_def guest_flag_ok_def)
qed (use assms in simp)

lemma guest_elect_keeps:
  assumes "guest_parse_inv c0 c"
  shows "hpost (\<lambda>r. guest_parse_inv c0 (result_cfg r))
    (case (c, f) of (c, f) \<Rightarrow> parse_ok (set_guest_flags gi (guest_elect_flag (cfg_guests c gi)) c) f)"
proof -
  have "set_guest_flags gi fl c = upd_guest gi (\<lambda>g. g\<lparr> g_pip := (g_pip g)\<lparr> gp_flags := fl \<rparr> \<rparr>) c" for fl
    by (simp add: set_guest_flags_def)
  moreover have "guest_parse_inv c0 (upd_guest gi (\<lambda>g. g\<lparr> g_pip := (g_pip g)
      \<lparr> gp_flags := guest_elect_flag (cfg_guests c gi) \<rparr> \<rparr>) c)"
    using assms guest_elect_flag_ok
    by (intro guest_parse_inv_upd) (auto simp: guest_same_live_def guest_parse_inv_def guests_ok_def)
  ultimately show ?thesis by (auto intro: hpost_parse_ok)
qed

lemma res_guest_parse_props_inv:
  assumes "guest_parse_inv c0 c"
  shows "hpost (\<lambda>r. guest_parse_inv c0 (result_cfg r)) (res_guest_parse_props md n gi (c, f))"
  unfolding res_guest_parse_props_def
  by (intro parse_then_keeps [where P = "guest_parse_inv c0"] hpost_get_property
      hpost_opt_property hpost_guest_devices hpost_guest_parse_mem guest_elect_keeps)
    (use assms in \<open>simp_all add: quiet_store_def guest_same_live_def\<close>)

lemma res_guest_parse_1_inv:
  assumes "guest_parse_inv c0 c"
  shows "hpost (\<lambda>r. guest_parse_inv c0 (result_cfg r)) (res_guest_parse_1 md n (c, f))"
  unfolding res_guest_parse_1_def prod.case
  by (intro hpost_md_prop hpost_if hpost_let hpost_md_prop_or hpost_parse_fail)
    (use assms in \<open>auto intro!: parse_then_keeps [where P = "guest_parse_inv c0"] hpost_guest_id res_guest_parse_props_inv\<close>)

lemma res_guest_prep_eq:
  "res_guest_prep c = Inr (c\<lparr> cfg_guests := \<lambda>i. if i < NGUESTS then (cfg_guests c i)\<lparr> g_pip :=
     (g_pip (cfg_guests c i))\<lparr> gp_flags := if g_state (cfg_guests c i) = GUEST_STATE_UNCONFIGURED
       then RESF_Noop else RESF_Unconfig \<rparr> \<rparr> else cfg_guests c i \<rparr>)"
  unfolding res_guest_prep_def
  by (subst hfold_array [where up = cfg_guests_update and h = "\<lambda>i g. g\<lparr> g_pip := (g_pip g)\<lparr> gp_flags :=
        if g_state g = GUEST_STATE_UNCONFIGURED then RESF_Noop else RESF_Unconfig \<rparr> \<rparr>"])
    (auto simp: set_guest_flags_def upd_guest_def update_compose)

lemma res_guest_prep_inv: "res_guest_prep c = Inr c1 \<Longrightarrow> guests_ok c \<Longrightarrow> guest_parse_inv c c1"
  by (auto simp: res_guest_prep_eq guest_parse_inv_def guests_ok_def guest_same_live_def guest_flag_ok_def split: if_splits)

lemma res_guest_parse_inv:
  assumes "guest_parse_inv c0 c"
  shows "hpost (\<lambda>(st, c', f'). guest_parse_inv c0 c') (res_guest_parse (c, f))"
  unfolding res_guest_parse_def
  by (rule res_parse_nodes_inv [where P = "guest_parse_inv c0"], rule assms)
    (intro hpost_with_failnode res_guest_parse_1_inv)

text \<open>
  Preparing and parsing the guest nodes, whether it succeeds or not, changes
  nothing but the guests; of a guest it changes nothing but what is only
  proposed for it (its \<open>pip\<close>) and the two permissions \<open>rng_ctl_accessible\<close>
  and \<open>perfreght_accessible\<close>, guests keep their numbers, and the flag each ends
  up with fits its state.
\<close>

theorem res_guest_parse_frame:
  assumes "res_guest_prep c = Inr c1" "res_guest_parse (c1, f) = Inr (st, c2, f2)" "guests_ok c"
  shows "c2 = c\<lparr> cfg_guests := cfg_guests c2 \<rparr> \<and> guests_ok c2 \<and>
    (\<forall>i. guest_same_live (cfg_guests c i) (cfg_guests c2 i)) \<and> (\<forall>i<NGUESTS. guest_flag_ok (cfg_guests c2 i))"
  using hpostD [OF res_guest_parse_inv [OF res_guest_prep_inv [OF assms(1,3)]] assms(2)]
  by (simp add: guest_parse_inv_def)

theorem res_guest_parse_frame_witness:
  "\<exists>c1 c2. res_guest_prep (bare guest0_config) = Inr c1 \<and>
     res_guest_parse (c1, fail_info_uninit) = Inr (HVctl_st_ok, c2, fail_info_uninit) \<and>
     guest_same_live (cfg_guests (bare guest0_config) 0) (cfg_guests c2 0) \<and>
     gp_flags (g_pip (cfg_guests c2 0)) = RESF_Noop"
proof -
  obtain c1 where c1: "res_guest_prep (bare guest0_config) = Inr c1" by (simp add: res_guest_prep_eq)
  then have "is_bare c1" "gp_flags (g_pip (cfg_guests c1 0)) = RESF_Noop"
    by (auto simp: res_guest_prep_eq is_bare_def bare_def guest0_config_def guest_blank_simps hv_sizes)
  moreover from this(1) have parse: "res_guest_parse (c1, fail_info_uninit) = Inr (HVctl_st_ok, c1, fail_info_uninit)"
    by (simp add: res_guest_parse_def res_parse_nodes_bare)
  moreover have "guests_ok (bare guest0_config)"
    by (simp add: guests_ok_def bare_def guest0_config_def guest_blank_simps)
  ultimately show ?thesis using c1 res_guest_parse_frame [OF c1 parse] by blast
qed

subsection \<open>The check after the parse\<close>

lemma guest_postparse_done: "hfold res_guest_postparse_1 xs (Inl r) = Inr (Inl r)"
  by (induction xs) (simp_all add: res_guest_postparse_1_def)

lemma res_guest_postparse_1_eq:
  "guest_flag_ok (cfg_guests c i) \<Longrightarrow> res_guest_postparse_1 i (Inr (c, f)) =
     Inr (if gp_flags (g_pip (cfg_guests c i)) = RESF_Unconfig \<and> g_state (cfg_guests c i) \<noteq> GUEST_STATE_STOPPED
       then Inl (HVctl_st_badmd, c, f\<lparr> f_code := Some HVctl_e_guest_active, f_res_id := Some (of_nat i) \<rparr>)
       else Inr (c, f))"
  by (auto simp: res_guest_postparse_1_def guest_flag_ok_def Let_def res_switch_def parse_fail_def)

lemma guest_postparse_find:
  "(\<And>i. i \<in> set xs \<Longrightarrow> guest_flag_ok (cfg_guests c i)) \<Longrightarrow>
   hfold res_guest_postparse_1 xs (Inr (c, f)) =
     Inr (case find (\<lambda>i. gp_flags (g_pip (cfg_guests c i)) = RESF_Unconfig \<and>
            g_state (cfg_guests c i) \<noteq> GUEST_STATE_STOPPED) xs of
       None \<Rightarrow> Inr (c, f)
     | Some i \<Rightarrow> Inl (HVctl_st_badmd, c, f\<lparr> f_code := Some HVctl_e_guest_active, f_res_id := Some (of_nat i) \<rparr>))"
  by (induction xs) (simp_all add: res_guest_postparse_1_eq guest_postparse_done)

text \<open>
  After a parse, \<open>res_guest_postparse\<close> accepts exactly when every guest that
  is to be removed is stopped; otherwise it reports the first one that is not.
\<close>

theorem res_guest_postparse_spec:
  assumes "\<forall>i<NGUESTS. guest_flag_ok (cfg_guests c i)"
  shows "res_guest_postparse (c, f) =
    (case find (\<lambda>i. gp_flags (g_pip (cfg_guests c i)) = RESF_Unconfig \<and>
           g_state (cfg_guests c i) \<noteq> GUEST_STATE_STOPPED) [0..<NGUESTS] of
       None \<Rightarrow> Inr (HVctl_st_ok, c, f)
     | Some i \<Rightarrow> Inr (HVctl_st_badmd, c, f\<lparr> f_code := Some HVctl_e_guest_active, f_res_id := Some (of_nat i) \<rparr>))"
  unfolding res_guest_postparse_def
  by (subst guest_postparse_find) (use assms in \<open>auto simp: parse_end_def split: option.splits\<close>)

theorem res_guest_postparse_spec_witness:
  "let c = config_zero\<lparr> cfg_guests := (\<lambda>i. guest_blank i)(1 := (guest_blank 1)\<lparr> g_state := GUEST_STATE_NORMAL,
       g_pip := guest_parse_info_zero\<lparr> gp_flags := RESF_Unconfig \<rparr> \<rparr>) \<rparr> in
   res_guest_postparse (c, fail_info_uninit) =
     Inr (HVctl_st_badmd, c, fail_info_uninit\<lparr> f_code := Some HVctl_e_guest_active, f_res_id := Some 1 \<rparr>)"
proof -
  let ?c = "config_zero\<lparr> cfg_guests := (\<lambda>i. guest_blank i)(1 := (guest_blank 1)\<lparr> g_state := GUEST_STATE_NORMAL,
       g_pip := guest_parse_info_zero\<lparr> gp_flags := RESF_Unconfig \<rparr> \<rparr>) \<rparr>"
  have ok: "\<forall>i<NGUESTS. guest_flag_ok (cfg_guests ?c i)"
    by (simp add: guest_flag_ok_def guest_blank_simps guest_states)
  have "find (\<lambda>i. gp_flags (g_pip (cfg_guests ?c i)) = RESF_Unconfig \<and>
      g_state (cfg_guests ?c i) \<noteq> GUEST_STATE_STOPPED) [0..<NGUESTS] = Some 1"
    by (simp add: guest_blank_simps guest_states hv_sizes upt_rec [of _ 32])
  with res_guest_postparse_spec [OF ok, of fail_info_uninit] show ?thesis by (simp add: Let_def)
qed

end
