(* ===== verification/Res_Vcpu.thy ===== *)
theory Res_Vcpu
  imports Res_Guest
begin

text \<open>
  Virtual cpus (\<open>res_vcpu.c\<close>, and \<open>reset_vcpu_state\<close> of \<open>reconf.c\<close>).  A vcpu
  is bound to a guest, in which it has a virtual number, and to the strand that
  carries it; the guest's table \<open>vcpus\<close> points back to it.
\<close>

definition MAXPTL :: u64 where "MAXPTL = 2"
definition PSTATE_PRIV :: u64 where "PSTATE_PRIV = 4"
definition PSTATE_MM_TSO :: u64 where "PSTATE_MM_TSO = 0"
definition TSTATE_PSTATE_SHIFT :: nat where "TSTATE_PSTATE_SHIFT = 8"
definition TSTATE_GL_SHIFT :: nat where "TSTATE_GL_SHIFT = 40"
definition PIL_15 :: u64 where "PIL_15 = 0xf"
definition NWINDOWS :: u64 where "NWINDOWS = 8"
definition CPU_CMD_READY :: u64 where "CPU_CMD_READY = 0"
definition TT_POR :: u64 where "TT_POR = 1"
definition TRAPTABLE_ENTRY_SIZE :: u64 where "TRAPTABLE_ENTRY_SIZE = 32"

definition INITIAL_TSTATE :: "nat \<Rightarrow> u64" where
  "INITIAL_TSTATE i = push_bit TSTATE_PSTATE_SHIFT (PSTATE_PRIV OR PSTATE_MM_TSO) OR push_bit TSTATE_GL_SHIFT (of_nat i)"

definition init_vcpu :: "nat \<Rightarrow> config \<Rightarrow> config hv" where
  "init_vcpu i c = hguard (i < NVCPUS)
     (Inr (upd_vcpu i (\<lambda>_. vcpu_zero\<lparr> v_res_id := of_nat i, v_status := CPU_STATE_UNCONFIGURED \<rparr>) c))"

definition set_vcpu_flags :: "nat \<Rightarrow> u8 \<Rightarrow> config \<Rightarrow> config" where
  "set_vcpu_flags i fl = upd_vcpu i (\<lambda>v. v\<lparr> v_pip := (v_pip v)\<lparr> vp_flags := fl \<rparr> \<rparr>)"

definition res_vcpu_prep :: "config \<Rightarrow> config hv" where
  "res_vcpu_prep = hfold (\<lambda>i c. Inr (set_vcpu_flags i
       (if v_status (cfg_vcpus c i) = CPU_STATE_UNCONFIGURED then RESF_Noop else RESF_Unconfig) c))
     [0..<NVCPUS]"

definition res_vcpu_parse_1 :: "bin_md \<Rightarrow> nat \<Rightarrow> parse_state \<Rightarrow> (parse_result + parse_state) hv" where
  "res_vcpu_parse_1 md cpunodep s =
     (case s of (c, f) \<Rightarrow>
      md_prop md cpunodep (MDNAME c ''resource_id'')
        (parse_fail HVctl_st_badmd HVctl_e_vcpu_missing_id (c, f\<lparr> f_res_id := Some 0 \<rparr>)) (\<lambda>res_id.
      if unat res_id \<ge> NVCPUS
      then parse_fail HVctl_st_badmd HVctl_e_vcpu_invalid_id (c, f\<lparr> f_res_id := Some 0 \<rparr>)
      else let f = f\<lparr> f_res_id := Some (ucast res_id) \<rparr> in
      md_prop md cpunodep (MDNAME c ''pid'')
        (parse_fail HVctl_st_badmd HVctl_e_vcpu_missing_strandid (c, f)) (\<lambda>strand_id.
      if unat strand_id \<ge> NSTRANDS
      then parse_fail HVctl_st_badmd HVctl_e_vcpu_invalid_strandid (c, f) else
      md_prop md cpunodep (MDNAME c ''vid'')
        (parse_fail HVctl_st_badmd HVctl_e_vcpu_missing_vid (c, f)) (\<lambda>vid.
      hbind (md_find_node_by_arc md (Some cpunodep) (MDARC (MDNAME c ''back'')) (MDNODE (MDNAME c ''guest'')))
        (\<lambda>r. case r of
          None \<Rightarrow> parse_fail HVctl_st_badmd HVctl_e_vcpu_missing_guest (c, f)
        | Some (_, guestnodep) \<Rightarrow>
      md_prop md guestnodep (MDNAME c ''resource_id'')
        (parse_fail HVctl_st_badmd HVctl_e_guest_missing_id (c, f)) (\<lambda>gid.
      if unat gid \<ge> NGUESTS
      then parse_fail HVctl_st_badmd HVctl_e_guest_invalid_id (c, f) else
      md_prop_or md cpunodep (MDNAME c ''parttag'') gid (\<lambda>parttag.
        let i = unat res_id;
            v = cfg_vcpus c i;
            c = upd_vcpu i (\<lambda>v. v\<lparr> v_pip := (v_pip v)\<lparr> vp_strand_id := ucast strand_id, vp_vid := ucast vid,
                  vp_guestid := ucast gid, vp_parttag := ucast parttag \<rparr> \<rparr>) c
        in hassert (v_status v \<noteq> CPU_STATE_INVALID)
          (if v_status v = CPU_STATE_UNCONFIGURED
           then parse_ok (set_vcpu_flags i RESF_Config c) f
           else case (v_strand v, v_guest v) of
             (Some st, Some g) \<Rightarrow>
               if ucast (st_id (cfg_strands c st)) = strand_id \<and> ucast (v_vid v) = vid \<and>
                  g_guestid (cfg_guests c g) = gid \<and> ucast (v_parttag v) = parttag
               then parse_ok (set_vcpu_flags i RESF_Noop c) f
               else parse_fail HVctl_st_badmd HVctl_e_vcpu_rebind_na (c, f)
           | _ \<Rightarrow> Inl Bad_access))))))))"

definition res_vcpu_parse :: "parse_state \<Rightarrow> parse_result hv" where
  "res_vcpu_parse = res_parse_nodes ''cpus'' ''cpu'' (with_failnode res_vcpu_parse_1)"

definition res_vcpu_postparse :: "parse_state \<Rightarrow> parse_result hv" where
  "res_vcpu_postparse s = Inr (HVctl_st_ok, s)"

definition reset_vcpu_state :: "vcpu \<Rightarrow> vcpu" where
  "reset_vcpu_state v =
     (let tl = MAXPTL + 1;
          vs = vcpustate_zero\<lparr> vs_tl := tl,
                 vs_trapstack := (\<lambda>i. if i < unat tl
                   then \<lparr> ts_tpc = 0, ts_tnpc = v_start_pc v, ts_tstate = INITIAL_TSTATE i, ts_tt = 0, ts_htstate = 0 \<rparr>
                   else trapstate_zero),
                 vs_gl := tl, vs_pil := PIL_15, vs_cansave := NWINDOWS - 2, vs_cleanwin := NWINDOWS - 2 \<rparr>
      in v\<lparr> v_mmu_area := 0, v_mmu_area_ra := 0, v_launch_with_retry := 0, v_state_save_area := vs,
            v_ntsbs_ctx0 := 0, v_ntsbs_ctxn := 0, v_mmustat_area := 0, v_mmustat_area_ra := 0,
            v_ttrace_buf_size := 0, v_ttrace_buf_ra := 0, v_cpuq_size := 0, v_cpuq_base_ra := 0,
            v_devq_size := 0, v_devq_base_ra := 0, v_errqr_size := 0, v_errqr_base_ra := 0,
            v_errqnr_size := 0, v_errqnr_base_ra := 0, v_command := CPU_CMD_READY \<rparr>)"

definition res_vcpu_commit_config :: "nat \<Rightarrow> config \<Rightarrow> config hv" where
  "res_vcpu_commit_config i c =
     (let p = v_pip (cfg_vcpus c i);
          st = unat (vp_strand_id p);
          gi = unat (vp_guestid p);
          vid = ucast (vp_vid p) :: u8
      in hguard (st < NSTRANDS \<and> gi < NGUESTS)
        (let g = cfg_guests c gi in
         hassert (g_guestid g = scast (vp_guestid p))
        (hguard (unat vid < NVCPUS)
        (hassert (g_vcpus g (unat vid) = None)
        (hassert (g_entry g = g_real_base g)
          (Inr (upd_vcpu i (\<lambda>v. (reset_vcpu_state (v\<lparr> v_strand := Some st, v_strand_slot := 0, v_vid := vid,
                  v_parttag := ucast (vp_parttag p), v_guest := Some gi, v_maup := None, v_cwqp := None,
                  v_mmu_area := 0, v_mmu_area_ra := 0, v_rtba := g_real_base g,
                  v_start_pc := g_real_base g + TT_POR * TRAPTABLE_ENTRY_SIZE \<rparr>))
                \<lparr> v_status := if bit (cfg_strand_active c) st then CPU_STATE_STOPPED else CPU_STATE_ERROR,
                  v_util := vcpu_util_zero \<rparr>)
              (upd_guest gi (\<lambda>g. g\<lparr> g_vcpus := (g_vcpus g)(unat vid := Some i) \<rparr>) c))))))))"

definition res_vcpu_commit_unconfig :: "nat \<Rightarrow> config \<Rightarrow> config hv" where
  "res_vcpu_commit_unconfig i c =
     (let v = cfg_vcpus c i in
      hassert (v_status v = CPU_STATE_STOPPED \<or> v_status v = CPU_STATE_ERROR)
        (case v_guest v of None \<Rightarrow> Inl Assert_fail
         | Some gi \<Rightarrow> hassert (v_strand v \<noteq> None)
             (hguard (unat (v_vid v) < NVCPUS)
               (Inr (upd_vcpu i (\<lambda>v. v\<lparr> v_guest := None, v_strand := None, v_maup := None, v_cwqp := None,
                       v_status := CPU_STATE_UNCONFIGURED \<rparr>)
                 (upd_guest gi (\<lambda>g. g\<lparr> g_vcpus := (g_vcpus g)(unat (v_vid v) := None) \<rparr>) c))))))"

definition res_vcpu_commit_1 :: "u8 \<Rightarrow> nat \<Rightarrow> config \<Rightarrow> config hv" where
  "res_vcpu_commit_1 flag i c =
     (let fl = vp_flags (v_pip (cfg_vcpus c i)) in
      if fl \<noteq> flag then Inr c
      else hbind (res_switch fl (Inr c) (res_vcpu_commit_unconfig i c) (res_vcpu_commit_config i c)
             (Inl Assert_fail) (Inl Assert_fail)) (\<lambda>c.
           Inr (set_vcpu_flags i RESF_Noop c)))"

definition res_vcpu_commit :: "u8 \<Rightarrow> config \<Rightarrow> config hv" where
  "res_vcpu_commit flag = hfold (res_vcpu_commit_1 flag) [0..<NVCPUS]"

subsection \<open>What commit operations do\<close>

lemma upd_vcpu_simps:
  "cfg_vcpus (upd_vcpu i h c) = (cfg_vcpus c)(i := h (cfg_vcpus c i))" "cfg_guests (upd_vcpu i h c) = cfg_guests c"
  "cfg_vcpus (upd_guest gi k c) = cfg_vcpus c" "cfg_strand_active (upd_guest gi k c) = cfg_strand_active c"
  by (simp_all add: upd_defs)

lemma set_vcpu_flags_simps:
  "cfg_vcpus (set_vcpu_flags i fl c) = (cfg_vcpus c)(i := (cfg_vcpus c i)
     \<lparr> v_pip := (v_pip (cfg_vcpus c i))\<lparr> vp_flags := fl \<rparr> \<rparr>)"
  "cfg_guests (set_vcpu_flags i fl c) = cfg_guests c"
  by (simp_all add: set_vcpu_flags_def upd_vcpu_simps)

lemma reset_vcpu_state_simps:
  "v_pip (reset_vcpu_state v) = v_pip v" "v_guest (reset_vcpu_state v) = v_guest v"
  "v_strand (reset_vcpu_state v) = v_strand v" "v_vid (reset_vcpu_state v) = v_vid v"
  "v_rtba (reset_vcpu_state v) = v_rtba v" "v_start_pc (reset_vcpu_state v) = v_start_pc v"
  "v_maup (reset_vcpu_state v) = v_maup v"
  by (simp_all add: reset_vcpu_state_def Let_def)

lemma res_vcpu_commit_config_facts:
  assumes "res_vcpu_commit_config i c = Inr c'"
  shows "let p = v_pip (cfg_vcpus c i); gi = unat (vp_guestid p); vid = ucast (vp_vid p) :: u8; v' = cfg_vcpus c' i in
    unat (vp_strand_id p) < NSTRANDS \<and> gi < NGUESTS \<and> unat vid < NVCPUS \<and> g_vcpus (cfg_guests c gi) (unat vid) = None \<and>
    cfg_guests c' = (cfg_guests c)(gi := (cfg_guests c gi)\<lparr> g_vcpus := (g_vcpus (cfg_guests c gi))(unat vid := Some i) \<rparr>) \<and>
    (\<forall>j. j \<noteq> i \<longrightarrow> cfg_vcpus c' j = cfg_vcpus c j) \<and> v_pip v' = p \<and> v_guest v' = Some gi \<and> v_vid v' = vid \<and>
    v_strand v' = Some (unat (vp_strand_id p)) \<and> v_maup v' = None \<and>
    v_status v' = (if bit (cfg_strand_active c) (unat (vp_strand_id p)) then CPU_STATE_STOPPED else CPU_STATE_ERROR) \<and>
    v_start_pc v' = g_real_base (cfg_guests c gi) + TT_POR * TRAPTABLE_ENTRY_SIZE"
  using assms unfolding res_vcpu_commit_config_def Let_def hguard_eq_Inr hassert_eq_Inr
  by (auto simp: upd_vcpu_simps config_eq_by_guests reset_vcpu_state_simps)

lemma res_vcpu_commit_unconfig_facts:
  assumes "res_vcpu_commit_unconfig i c = Inr c'"
  shows "\<exists>gi. let v = cfg_vcpus c i; vid = v_vid v; v' = cfg_vcpus c' i in
    v_guest v = Some gi \<and> unat vid < NVCPUS \<and> v_status v \<in> {CPU_STATE_STOPPED, CPU_STATE_ERROR} \<and>
    cfg_guests c' = (cfg_guests c)(gi := (cfg_guests c gi)\<lparr> g_vcpus := (g_vcpus (cfg_guests c gi))(unat vid := None) \<rparr>) \<and>
    (\<forall>j. j \<noteq> i \<longrightarrow> cfg_vcpus c' j = cfg_vcpus c j) \<and> v_pip v' = v_pip v \<and> v_guest v' = None \<and> v_strand v' = None \<and>
    v_status v' = CPU_STATE_UNCONFIGURED"
  using assms unfolding res_vcpu_commit_unconfig_def Let_def hassert_eq_Inr
  by (auto simp: upd_vcpu_simps config_eq_by_guests hassert_eq_Inr hguard_eq_Inr split: option.splits)

subsection \<open>Vcpus and guests point to each other\<close>

text \<open>
  Every configured vcpu is in its guest's table under its virtual number, and
  everything in such a table is a configured vcpu of that guest with that
  number.  A vcpu about to be configured is not configured yet.
\<close>

definition vcpu_bound :: "config \<Rightarrow> nat \<Rightarrow> bool" where
  "vcpu_bound c i \<longleftrightarrow> (\<exists>gi<NGUESTS. v_guest (cfg_vcpus c i) = Some gi \<and> unat (v_vid (cfg_vcpus c i)) < NVCPUS \<and>
     g_vcpus (cfg_guests c gi) (unat (v_vid (cfg_vcpus c i))) = Some i)"

definition vcpu_slot_ok :: "config \<Rightarrow> nat \<Rightarrow> nat \<Rightarrow> bool" where
  "vcpu_slot_ok c gi k \<longleftrightarrow> (\<forall>i. g_vcpus (cfg_guests c gi) k = Some i \<longrightarrow> i < NVCPUS \<and>
     v_status (cfg_vcpus c i) \<noteq> CPU_STATE_UNCONFIGURED \<and> v_guest (cfg_vcpus c i) = Some gi \<and>
     unat (v_vid (cfg_vcpus c i)) = k)"

definition vcpus_ok :: "config \<Rightarrow> bool" where
  "vcpus_ok c \<longleftrightarrow>
     (\<forall>i<NVCPUS. v_status (cfg_vcpus c i) \<noteq> CPU_STATE_UNCONFIGURED \<longrightarrow> vcpu_bound c i) \<and>
     (\<forall>gi<NGUESTS. \<forall>k<NVCPUS. vcpu_slot_ok c gi k) \<and>
     (\<forall>i<NVCPUS. vp_flags (v_pip (cfg_vcpus c i)) = RESF_Config \<longrightarrow> v_status (cfg_vcpus c i) = CPU_STATE_UNCONFIGURED)"

lemma vcpus_ok_slot_unique:
  assumes "vcpus_ok c" "gi < NGUESTS" "k < NVCPUS" "g_vcpus (cfg_guests c gi) k = Some i"
  shows "i < NVCPUS" "v_status (cfg_vcpus c i) \<noteq> CPU_STATE_UNCONFIGURED" "v_guest (cfg_vcpus c i) = Some gi"
    "unat (v_vid (cfg_vcpus c i)) = k"
  using assms by (auto simp: vcpus_ok_def vcpu_slot_ok_def)

lemma cpu_states_configured [simp]:
  "CPU_STATE_STOPPED \<noteq> CPU_STATE_UNCONFIGURED" "CPU_STATE_ERROR \<noteq> CPU_STATE_UNCONFIGURED"
  by (simp_all add: cpu_states)

lemma vcpus_ok_config:
  assumes "res_vcpu_commit_config i c = Inr c1" "vcpus_ok c" "i < NVCPUS"
    and "v_status (cfg_vcpus c i) = CPU_STATE_UNCONFIGURED"
  shows "vcpus_ok (set_vcpu_flags i RESF_Noop c1)"
proof -
  define p gi where "p = v_pip (cfg_vcpus c i)" and "gi = unat (vp_guestid p)"
  define vid :: u8 where "vid = ucast (vp_vid p)"
  define c' where "c' = set_vcpu_flags i RESF_Noop c1"
  note f = res_vcpu_commit_config_facts [OF assms(1), unfolded Let_def, folded p_def, folded gi_def vid_def]
  have gs: "cfg_guests c' = (cfg_guests c)(gi := (cfg_guests c gi)\<lparr> g_vcpus := (g_vcpus (cfg_guests c gi))(unat vid := Some i) \<rparr>)"
    using f by (simp add: c'_def set_vcpu_flags_simps)
  have vs: "\<And>j. j \<noteq> i \<Longrightarrow> cfg_vcpus c' j = cfg_vcpus c j" using f by (auto simp: c'_def set_vcpu_flags_simps)
  have vi: "v_guest (cfg_vcpus c' i) = Some gi" "v_vid (cfg_vcpus c' i) = vid" "gi < NGUESTS" "unat vid < NVCPUS"
    "v_status (cfg_vcpus c' i) \<noteq> CPU_STATE_UNCONFIGURED" "vp_flags (v_pip (cfg_vcpus c' i)) = RESF_Noop"
    "g_vcpus (cfg_guests c gi) (unat vid) = None"
    using f by (simp_all add: c'_def set_vcpu_flags_simps)
  have "vcpu_bound c' j" if "j < NVCPUS" "v_status (cfg_vcpus c' j) \<noteq> CPU_STATE_UNCONFIGURED" for j
  proof (cases "j = i")
    case True
    then show ?thesis using vi gs by (simp add: vcpu_bound_def)
  next
    case False
    then have "vcpu_bound c j" using that vs assms(2) by (simp add: vcpus_ok_def)
    then show ?thesis using vs [OF False] vi(7) unfolding vcpu_bound_def gs by (metis fun_upd_apply guest.select_convs(14)
          guest.surjective guest.update_convs(14) option.distinct(1))
  qed
  moreover have "vcpu_slot_ok c' gj k" if "gj < NGUESTS" "k < NVCPUS" for gj k
    unfolding vcpu_slot_ok_def
  proof (intro allI impI)
    fix j
    assume j: "g_vcpus (cfg_guests c' gj) k = Some j"
    show "j < NVCPUS \<and> v_status (cfg_vcpus c' j) \<noteq> CPU_STATE_UNCONFIGURED \<and> v_guest (cfg_vcpus c' j) = Some gj \<and>
        unat (v_vid (cfg_vcpus c' j)) = k"
    proof (cases "gj = gi \<and> k = unat vid")
      case True
      then have "j = i" using j gs by simp
      then show ?thesis using True vi assms(3) by simp
    next
      case False
      then have "g_vcpus (cfg_guests c gj) k = Some j" using j gs by (auto split: if_splits)
      note u = vcpus_ok_slot_unique [OF assms(2) that this]
      with assms(4) have "j \<noteq> i" by auto
      then show ?thesis using u vs by simp
    qed
  qed
  moreover have "v_status (cfg_vcpus c' j) = CPU_STATE_UNCONFIGURED"
    if "j < NVCPUS" "vp_flags (v_pip (cfg_vcpus c' j)) = RESF_Config" for j
    using that vs vi(6) assms(2) by (cases "j = i") (simp_all add: vcpus_ok_def)
  ultimately show ?thesis unfolding vcpus_ok_def c'_def by blast
qed

lemma vcpus_ok_unconfig:
  assumes "res_vcpu_commit_unconfig i c = Inr c1" "vcpus_ok c" "i < NVCPUS"
  shows "vcpus_ok (set_vcpu_flags i RESF_Noop c1)"
proof -
  define c' where "c' = set_vcpu_flags i RESF_Noop c1"
  define vid where "vid = v_vid (cfg_vcpus c i)"
  from res_vcpu_commit_unconfig_facts [OF assms(1)] obtain gi where g: "v_guest (cfg_vcpus c i) = Some gi"
    "unat vid < NVCPUS" "v_status (cfg_vcpus c i) \<in> {CPU_STATE_STOPPED, CPU_STATE_ERROR}"
    "cfg_guests c1 = (cfg_guests c)(gi := (cfg_guests c gi)\<lparr> g_vcpus := (g_vcpus (cfg_guests c gi))(unat vid := None) \<rparr>)"
    "\<And>j. j \<noteq> i \<Longrightarrow> cfg_vcpus c1 j = cfg_vcpus c j" "v_status (cfg_vcpus c1 i) = CPU_STATE_UNCONFIGURED"
    unfolding Let_def vid_def by blast
  have gs: "cfg_guests c' = (cfg_guests c)(gi := (cfg_guests c gi)\<lparr> g_vcpus := (g_vcpus (cfg_guests c gi))(unat vid := None) \<rparr>)"
    using g by (simp add: c'_def set_vcpu_flags_simps)
  have vs: "cfg_vcpus c' j = cfg_vcpus c j" if "j \<noteq> i" for j
    using g(5) that by (simp add: c'_def set_vcpu_flags_simps)
  have vi: "v_status (cfg_vcpus c' i) = CPU_STATE_UNCONFIGURED" "vp_flags (v_pip (cfg_vcpus c' i)) = RESF_Noop"
    using g(6) by (simp_all add: c'_def set_vcpu_flags_simps)
  have "v_status (cfg_vcpus c i) \<noteq> CPU_STATE_UNCONFIGURED" using g(3) by auto
  then have "vcpu_bound c i" using assms(2,3) by (simp add: vcpus_ok_def)
  then have bi: "gi < NGUESTS" "g_vcpus (cfg_guests c gi) (unat vid) = Some i"
    using g(1) by (auto simp: vcpu_bound_def vid_def)
  have "vcpu_bound c' j" if "j < NVCPUS" "v_status (cfg_vcpus c' j) \<noteq> CPU_STATE_UNCONFIGURED" for j
  proof -
    have ne: "j \<noteq> i" using that vi by auto
    then have "vcpu_bound c j" using that vs assms(2) by (simp add: vcpus_ok_def)
    then obtain gj where gj: "gj < NGUESTS" "v_guest (cfg_vcpus c j) = Some gj" "unat (v_vid (cfg_vcpus c j)) < NVCPUS"
      "g_vcpus (cfg_guests c gj) (unat (v_vid (cfg_vcpus c j))) = Some j" by (auto simp: vcpu_bound_def)
    have "\<not> (gj = gi \<and> unat (v_vid (cfg_vcpus c j)) = unat vid)" using bi(2) gj(4) ne by auto
    then have "g_vcpus (cfg_guests c' gj) (unat (v_vid (cfg_vcpus c j))) = Some j" using gj(4) gs by auto
    then show ?thesis using gj vs [OF ne] by (auto simp: vcpu_bound_def)
  qed
  moreover have "vcpu_slot_ok c' gj k" if "gj < NGUESTS" "k < NVCPUS" for gj k
    unfolding vcpu_slot_ok_def
  proof (intro allI impI)
    fix j
    assume j: "g_vcpus (cfg_guests c' gj) k = Some j"
    then have old: "g_vcpus (cfg_guests c gj) k = Some j" "\<not> (gj = gi \<and> k = unat vid)"
      using gs by (auto split: if_splits)
    note u = vcpus_ok_slot_unique [OF assms(2) that old(1)]
    have "j \<noteq> i" using u old(2) g(1) by (auto simp: vid_def)
    then show "j < NVCPUS \<and> v_status (cfg_vcpus c' j) \<noteq> CPU_STATE_UNCONFIGURED \<and> v_guest (cfg_vcpus c' j) = Some gj \<and>
        unat (v_vid (cfg_vcpus c' j)) = k" using u vs by simp
  qed
  moreover have "v_status (cfg_vcpus c' j) = CPU_STATE_UNCONFIGURED"
    if "j < NVCPUS" "vp_flags (v_pip (cfg_vcpus c' j)) = RESF_Config" for j
    using that vs vi(2) assms(2) by (cases "j = i") (simp_all add: vcpus_ok_def)
  ultimately show ?thesis unfolding vcpus_ok_def c'_def by blast
qed

lemma res_vcpu_commit_1_done:
  assumes "res_vcpu_commit_1 fl i c = Inr c'" "vp_flags (v_pip (cfg_vcpus c i)) = fl"
  obtains "fl = RESF_Noop" "c' = set_vcpu_flags i RESF_Noop c"
    | c1 where "fl = RESF_Unconfig" "res_vcpu_commit_unconfig i c = Inr c1" "c' = set_vcpu_flags i RESF_Noop c1"
    | c1 where "fl = RESF_Config" "res_vcpu_commit_config i c = Inr c1" "c' = set_vcpu_flags i RESF_Noop c1"
  using assms by (auto simp: res_vcpu_commit_1_def Let_def hbind_eq_Inr res_switch_def split: if_splits)

lemma set_vcpu_flags_noop: "fl = vp_flags (v_pip (cfg_vcpus c i)) \<Longrightarrow> set_vcpu_flags i fl c = c"
  by (cases c) (simp add: set_vcpu_flags_def upd_vcpu_def)

lemma res_vcpu_commit_1_facts:
  assumes "res_vcpu_commit_1 fl i c = Inr c'" "vp_flags (v_pip (cfg_vcpus c i)) = fl"
  shows "vp_flags (v_pip (cfg_vcpus c' i)) = RESF_Noop"
    and "\<And>j. j \<noteq> i \<Longrightarrow> cfg_vcpus c' j = cfg_vcpus c j"
    and "v_status (cfg_vcpus c' i) \<noteq> CPU_STATE_UNCONFIGURED \<longleftrightarrow>
      fl = RESF_Config \<or> fl \<noteq> RESF_Unconfig \<and> v_status (cfg_vcpus c i) \<noteq> CPU_STATE_UNCONFIGURED"
proof -
  have "vp_flags (v_pip (cfg_vcpus c' i)) = RESF_Noop \<and> (\<forall>j. j \<noteq> i \<longrightarrow> cfg_vcpus c' j = cfg_vcpus c j) \<and>
    (v_status (cfg_vcpus c' i) \<noteq> CPU_STATE_UNCONFIGURED \<longleftrightarrow>
      fl = RESF_Config \<or> fl \<noteq> RESF_Unconfig \<and> v_status (cfg_vcpus c i) \<noteq> CPU_STATE_UNCONFIGURED)"
    using assms
  proof (cases rule: res_vcpu_commit_1_done)
    case 1
    then show ?thesis by (simp add: set_vcpu_flags_simps)
  next
    case (2 c1)
    from res_vcpu_commit_unconfig_facts [OF 2(2)] 2 show ?thesis by (auto simp: Let_def set_vcpu_flags_simps)
  next
    case (3 c1)
    from res_vcpu_commit_config_facts [OF 3(2)] 3 show ?thesis by (simp add: Let_def set_vcpu_flags_simps)
  qed
  then show "vp_flags (v_pip (cfg_vcpus c' i)) = RESF_Noop"
    and "\<And>j. j \<noteq> i \<Longrightarrow> cfg_vcpus c' j = cfg_vcpus c j"
    and "v_status (cfg_vcpus c' i) \<noteq> CPU_STATE_UNCONFIGURED \<longleftrightarrow>
      fl = RESF_Config \<or> fl \<noteq> RESF_Unconfig \<and> v_status (cfg_vcpus c i) \<noteq> CPU_STATE_UNCONFIGURED" by blast+
qed

lemma res_vcpu_commit_1_other: "vp_flags (v_pip (cfg_vcpus c i)) \<noteq> fl \<Longrightarrow> res_vcpu_commit_1 fl i c = Inr c"
  by (simp add: res_vcpu_commit_1_def)

lemma vcpus_ok_commit_1:
  assumes "res_vcpu_commit_1 fl i c = Inr c'" "vcpus_ok c" "i < NVCPUS"
  shows "vcpus_ok c'"
proof (cases "vp_flags (v_pip (cfg_vcpus c i)) = fl")
  case True
  from assms(1) True show ?thesis
  proof (cases rule: res_vcpu_commit_1_done)
    case 1
    then show ?thesis using True assms(2) by (simp add: set_vcpu_flags_noop)
  next
    case 2
    then show ?thesis using vcpus_ok_unconfig assms by simp
  next
    case 3
    then show ?thesis using vcpus_ok_config assms True by (simp add: vcpus_ok_def)
  qed
next
  case False
  then show ?thesis using assms res_vcpu_commit_1_other [OF False] by simp
qed

lemma res_vcpu_commit_1_others:
  "res_vcpu_commit_1 fl i c = Inr c' \<Longrightarrow> j \<noteq> i \<Longrightarrow> cfg_vcpus c' j = cfg_vcpus c j"
  using res_vcpu_commit_1_facts(2) [of fl i c c' j] res_vcpu_commit_1_other [of c i fl]
  by (cases "vp_flags (v_pip (cfg_vcpus c i)) = fl") auto

interpretation vcpus: resource_kind "[0..<NVCPUS]" "\<lambda>c i. vp_flags (v_pip (cfg_vcpus c i))"
  res_vcpu_commit_1 vcpus_ok "\<lambda>c i. v_status (cfg_vcpus c i) \<noteq> CPU_STATE_UNCONFIGURED"
proof (unfold_locales, goal_cases)
  case (2 c i fl)
  then show ?case by (rule res_vcpu_commit_1_other)
next
  case (3 i c fl c')
  then show ?case using vcpus_ok_commit_1 by simp
next
  case (4 i c fl c')
  then show ?case by (intro res_vcpu_commit_1_facts(1))
next
  case (6 i c fl c')
  then show ?case by (intro res_vcpu_commit_1_facts(3))
qed (auto dest!: res_vcpu_commit_1_others)

subsection \<open>Properties\<close>

text \<open>
  C6. Whatever the flag it is called with, committing vcpus keeps the tables
  of the guests and the vcpus consistent: each configured vcpu is found in its
  guest's table under its virtual number, and nowhere else.
\<close>

theorem res_vcpu_commit_keeps_binding:
  assumes "res_vcpu_commit fl c = Inr c'" "vcpus_ok c"
  shows "vcpus_ok c' \<and> (\<forall>i<NVCPUS. v_status (cfg_vcpus c' i) \<noteq> CPU_STATE_UNCONFIGURED \<longleftrightarrow>
     (if vp_flags (v_pip (cfg_vcpus c i)) = fl
      then fl = RESF_Config \<or> fl \<noteq> RESF_Unconfig \<and> v_status (cfg_vcpus c i) \<noteq> CPU_STATE_UNCONFIGURED
      else v_status (cfg_vcpus c i) \<noteq> CPU_STATE_UNCONFIGURED))"
proof -
  have h: "hfold (res_vcpu_commit_1 fl) [0..<NVCPUS] c = Inr c'" using assms(1) by (simp add: res_vcpu_commit_def)
  show ?thesis using vcpus.commit_inv [OF assms(2) h] vcpus.commit_live [OF h assms(2)] by simp
qed

text \<open>
  C7. A vcpu that has been configured starts, at every trap level, at the
  power-on vector of its guest's real trap table, in privileged mode and with
  interrupts masked; it is stopped when its strand is active and in error
  otherwise.  It can only be configured into a slot of its guest that is free.
\<close>

theorem res_vcpu_commit_config_start_state:
  assumes "res_vcpu_commit_config i c = Inr c'" "k < 3"
  shows "let p = v_pip (cfg_vcpus c i); gi = unat (vp_guestid p); v' = cfg_vcpus c' i; s = v_state_save_area v' in
     ts_tnpc (vs_trapstack s k) = g_real_base (cfg_guests c gi) + 32 \<and>
     bit (ts_tstate (vs_trapstack s k)) 10 \<and> vs_tl s = 3 \<and> vs_gl s = 3 \<and> vs_pil s = 15 \<and>
     v_cpuq_size v' = 0 \<and> v_devq_size v' = 0 \<and>
     v_status v' = (if bit (cfg_strand_active c) (unat (vp_strand_id p)) then CPU_STATE_STOPPED else CPU_STATE_ERROR) \<and>
     g_vcpus (cfg_guests c gi) (unat (ucast (vp_vid p) :: u8)) = None"
proof -
  have "k = 0 \<or> k = 1 \<or> k = 2" using assms(2) by auto
  then have tstate: "bit (INITIAL_TSTATE k) 10"
    by (auto simp: INITIAL_TSTATE_def TSTATE_PSTATE_SHIFT_def TSTATE_GL_SHIFT_def PSTATE_PRIV_def PSTATE_MM_TSO_def)
  show ?thesis
    using assms tstate unfolding res_vcpu_commit_config_def Let_def hguard_eq_Inr hassert_eq_Inr
    by (auto simp: upd_vcpu_simps config_eq_by_guests reset_vcpu_state_def Let_def MAXPTL_def PIL_15_def
        TT_POR_def TRAPTABLE_ENTRY_SIZE_def)
qed

text \<open>One vcpu, to be configured on strand 5 as cpu 0 of guest 0.\<close>

definition vcpu0_config :: config where
  "vcpu0_config = config_zero\<lparr> cfg_strand_active := 0x20,
     cfg_guests := (\<lambda>i. (guest_blank i)\<lparr> g_real_base := 0x400000, g_entry := 0x400000 \<rparr>),
     cfg_vcpus := (\<lambda>i. vcpu_zero\<lparr> v_res_id := of_nat i, v_status := CPU_STATE_UNCONFIGURED \<rparr>)
       (0 := vcpu_zero\<lparr> v_status := CPU_STATE_UNCONFIGURED, v_pip := \<lparr> vp_flags = RESF_Config, vp_strand_id = 5,
          vp_vid = 0, vp_guestid = 0, vp_parttag = 0 \<rparr> \<rparr>) \<rparr>"

lemma vcpu0_config_simps:
  "v_pip (cfg_vcpus vcpu0_config 0) = \<lparr> vp_flags = RESF_Config, vp_strand_id = 5, vp_vid = 0, vp_guestid = 0, vp_parttag = 0 \<rparr>"
  "v_status (cfg_vcpus vcpu0_config i) = CPU_STATE_UNCONFIGURED" "g_guestid (cfg_guests vcpu0_config i) = of_nat i"
  "g_vcpus (cfg_guests vcpu0_config i) k = None" "g_entry (cfg_guests vcpu0_config i) = 0x400000"
  "g_real_base (cfg_guests vcpu0_config i) = 0x400000" "cfg_strand_active vcpu0_config = 0x20"
  by (simp_all add: vcpu0_config_def guest_blank_simps) (simp add: guest_blank_def guest_zero_def)

lemma vcpu0_config_ok: "vcpus_ok vcpu0_config" "\<exists>c'. res_vcpu_commit_config 0 vcpu0_config = Inr c'"
  by (simp_all add: vcpus_ok_def vcpu_slot_ok_def vcpu0_config_simps res_vcpu_commit_config_def Let_def hv_sizes)

theorem res_vcpu_commit_config_start_state_witness:
  "\<exists>c'. res_vcpu_commit_config 0 vcpu0_config = Inr c' \<and>
     ts_tnpc (vs_trapstack (v_state_save_area (cfg_vcpus c' 0)) 2) = 0x400020 \<and>
     v_status (cfg_vcpus c' 0) = CPU_STATE_STOPPED"
proof -
  obtain c' where c': "res_vcpu_commit_config 0 vcpu0_config = Inr c'" using vcpu0_config_ok(2) ..
  from res_vcpu_commit_config_start_state [OF this, of 2] show ?thesis
    by (intro exI [of _ c']) (simp add: Let_def vcpu0_config_simps c')
qed

theorem res_vcpu_commit_keeps_binding_witness:
  "\<exists>c'. res_vcpu_commit RESF_Config vcpu0_config = Inr c' \<and> vcpus_ok c' \<and>
     v_status (cfg_vcpus c' 0) \<noteq> CPU_STATE_UNCONFIGURED \<and> vcpu_bound c' 0"
proof -
  obtain c1 where c1: "res_vcpu_commit_config 0 vcpu0_config = Inr c1" using vcpu0_config_ok(2) ..
  have "filter (\<lambda>i. vp_flags (v_pip (cfg_vcpus vcpu0_config i)) = RESF_Config) [0..<NVCPUS] = [0]"
    by (intro filter_single) (auto simp: hv_sizes vcpu0_config_def vcpu_zero_def resf_defs)
  then have c': "res_vcpu_commit RESF_Config vcpu0_config = Inr (set_vcpu_flags 0 RESF_Noop c1)"
    using vcpus.commit_filter [OF vcpu0_config_ok(1), of RESF_Config] c1
    by (simp add: res_vcpu_commit_def res_vcpu_commit_1_def Let_def vcpu0_config_simps res_switch_def)
  from res_vcpu_commit_keeps_binding [OF c' vcpu0_config_ok(1)]
  have "vcpus_ok (set_vcpu_flags 0 RESF_Noop c1)"
    "v_status (cfg_vcpus (set_vcpu_flags 0 RESF_Noop c1) 0) \<noteq> CPU_STATE_UNCONFIGURED"
    by (auto simp: hv_sizes vcpu0_config_simps)
  then show ?thesis using c' by (auto simp: vcpus_ok_def hv_sizes)
qed

subsection \<open>Parsing\<close>

definition vcpu_flag_ok :: "vcpu \<Rightarrow> bool" where
  "vcpu_flag_ok v \<longleftrightarrow> vp_flags (v_pip v) \<in> {RESF_Noop, RESF_Unconfig, RESF_Config} \<and>
     (vp_flags (v_pip v) = RESF_Config \<longrightarrow> v_status v = CPU_STATE_UNCONFIGURED \<and>
        unat (vp_strand_id (v_pip v)) < NSTRANDS \<and> unat (vp_guestid (v_pip v)) < NGUESTS) \<and>
     (vp_flags (v_pip v) = RESF_Unconfig \<longrightarrow> v_status v \<noteq> CPU_STATE_UNCONFIGURED)"

definition vcpu_parse_inv :: "config \<Rightarrow> config \<Rightarrow> bool" where
  "vcpu_parse_inv c0 c \<longleftrightarrow> c = c0\<lparr> cfg_vcpus := cfg_vcpus c \<rparr> \<and>
     (\<forall>i. cfg_vcpus c i = (cfg_vcpus c0 i)\<lparr> v_pip := v_pip (cfg_vcpus c i) \<rparr>) \<and>
     (\<forall>i<NVCPUS. vcpu_flag_ok (cfg_vcpus c i))"

lemma vcpu_parse_inv_iff:
  "vcpu_parse_inv c0 c \<longleftrightarrow> (\<exists>P. c = c0\<lparr> cfg_vcpus := \<lambda>i. (cfg_vcpus c0 i)\<lparr> v_pip := P i \<rparr> \<rparr> \<and>
     (\<forall>i<NVCPUS. vcpu_flag_ok ((cfg_vcpus c0 i)\<lparr> v_pip := P i \<rparr>)))" (is "_ \<longleftrightarrow> (\<exists>P. ?R P)")
proof
  assume inv: "vcpu_parse_inv c0 c"
  let ?P = "\<lambda>i. v_pip (cfg_vcpus c i)"
  have vs: "cfg_vcpus c = (\<lambda>i. (cfg_vcpus c0 i)\<lparr> v_pip := ?P i \<rparr>)"
    using inv unfolding vcpu_parse_inv_def by (intro ext) blast
  have "c = c0\<lparr> cfg_vcpus := cfg_vcpus c \<rparr>" "\<forall>i<NVCPUS. vcpu_flag_ok (cfg_vcpus c i)"
    using inv unfolding vcpu_parse_inv_def by blast+
  then have "?R ?P" unfolding vs [symmetric] fun_cong [OF vs, symmetric] by blast
  then show "\<exists>P. ?R P" by (intro exI [of _ ?P])
qed (auto simp: vcpu_parse_inv_def)

lemma vcpu_parse_inv_upd:
  assumes "vcpu_parse_inv c0 c" "\<And>v. h v = v\<lparr> v_pip := v_pip (h v) \<rparr>" "i < NVCPUS \<Longrightarrow> vcpu_flag_ok (h (cfg_vcpus c i))"
  shows "vcpu_parse_inv c0 (upd_vcpu i h c)"
proof -
  from assms(1) obtain P where c: "c = c0\<lparr> cfg_vcpus := \<lambda>i. (cfg_vcpus c0 i)\<lparr> v_pip := P i \<rparr> \<rparr>"
    and ok: "\<forall>i<NVCPUS. vcpu_flag_ok ((cfg_vcpus c0 i)\<lparr> v_pip := P i \<rparr>)" by (auto simp: vcpu_parse_inv_iff)
  define p where "p = v_pip (h (cfg_vcpus c i))"
  have hi: "h (cfg_vcpus c i) = (cfg_vcpus c0 i)\<lparr> v_pip := p \<rparr>"
    using assms(2) [of "cfg_vcpus c i"] by (simp add: p_def [symmetric]) (simp add: c)
  have "upd_vcpu i h c = c0\<lparr> cfg_vcpus := \<lambda>j. (cfg_vcpus c0 j)\<lparr> v_pip := (P(i := p)) j \<rparr> \<rparr>"
    unfolding upd_vcpu_def hi by (simp add: c fun_upd_def cong: if_cong)
      (rule arg_cong [where f = "\<lambda>x. c0\<lparr> cfg_vcpus := x \<rparr>"], auto)
  moreover have "\<forall>j<NVCPUS. vcpu_flag_ok ((cfg_vcpus c0 j)\<lparr> v_pip := (P(i := p)) j \<rparr>)"
    using ok assms(3) hi by simp
  ultimately show ?thesis unfolding vcpu_parse_inv_iff by blast
qed

lemma unat_ucast_bound: "unat (x :: u64) < n \<Longrightarrow> unat (ucast x :: u32) < n"
  by (rule le_less_trans [OF unat_ucast_le])

lemma vcpu_flag_ok_pip:
  assumes "vcpu_flag_ok v" "unat (sid :: u64) < NSTRANDS" "unat (gid :: u64) < NGUESTS"
  shows "vcpu_flag_ok (v\<lparr> v_pip := (v_pip v)\<lparr> vp_strand_id := ucast sid, vp_vid := vid, vp_guestid := ucast gid, vp_parttag := pt \<rparr> \<rparr>)"
    and "v_status v = CPU_STATE_UNCONFIGURED \<Longrightarrow> vcpu_flag_ok (v\<lparr> v_pip := (v_pip v)\<lparr> vp_strand_id := ucast sid, vp_vid := vid,
      vp_guestid := ucast gid, vp_parttag := pt, vp_flags := RESF_Config \<rparr> \<rparr>)"
    and "vcpu_flag_ok (v\<lparr> v_pip := (v_pip v)\<lparr> vp_strand_id := ucast sid, vp_vid := vid,
      vp_guestid := ucast gid, vp_parttag := pt, vp_flags := RESF_Noop \<rparr> \<rparr>)"
  using assms by (auto simp: vcpu_flag_ok_def unat_ucast_bound)

lemma set_vcpu_flags_upd:
  "set_vcpu_flags i fl (upd_vcpu i h c) = upd_vcpu i (\<lambda>v. (h v)\<lparr> v_pip := (v_pip (h v))\<lparr> vp_flags := fl \<rparr> \<rparr>) c"
  by (simp add: set_vcpu_flags_def upd_vcpu_def)

lemma res_vcpu_parse_1_inv:
  assumes inv: "vcpu_parse_inv c0 c"
  shows "hpost (\<lambda>r. vcpu_parse_inv c0 (result_cfg r)) (res_vcpu_parse_1 md n (c, f))"
proof -
  have ok: "unat res_id < NVCPUS \<Longrightarrow> vcpu_flag_ok (cfg_vcpus c (unat res_id))" for res_id :: u64
    using inv by (simp add: vcpu_parse_inv_def)
  show ?thesis
    unfolding res_vcpu_parse_1_def
    by (intro hpost_rules)
      (auto simp: inv not_le set_vcpu_flags_upd intro!: vcpu_parse_inv_upd [OF inv] vcpu_flag_ok_pip ok)
qed

lemma res_vcpu_prep_eq:
  "res_vcpu_prep c = Inr (c\<lparr> cfg_vcpus := \<lambda>i. if i < NVCPUS then (cfg_vcpus c i)\<lparr> v_pip :=
     (v_pip (cfg_vcpus c i))\<lparr> vp_flags := if v_status (cfg_vcpus c i) = CPU_STATE_UNCONFIGURED
       then RESF_Noop else RESF_Unconfig \<rparr> \<rparr> else cfg_vcpus c i \<rparr>)"
  unfolding res_vcpu_prep_def
  by (subst hfold_array [where up = cfg_vcpus_update and h = "\<lambda>i v. v\<lparr> v_pip := (v_pip v)\<lparr> vp_flags :=
        if v_status v = CPU_STATE_UNCONFIGURED then RESF_Noop else RESF_Unconfig \<rparr> \<rparr>"])
    (auto simp: set_vcpu_flags_def upd_vcpu_def update_compose)

lemma res_vcpu_prep_inv: "res_vcpu_prep c = Inr c1 \<Longrightarrow> vcpu_parse_inv c c1"
  by (auto simp: res_vcpu_prep_eq vcpu_parse_inv_def vcpu_flag_ok_def split: if_splits)

lemma res_vcpu_parse_inv:
  assumes "vcpu_parse_inv c0 c"
  shows "hpost (\<lambda>(st, c', f'). vcpu_parse_inv c0 c') (res_vcpu_parse (c, f))"
  unfolding res_vcpu_parse_def
  by (rule res_parse_nodes_inv [where P = "vcpu_parse_inv c0"], rule assms)
    (intro hpost_with_failnode res_vcpu_parse_1_inv)

text \<open>
  Preparing and parsing the cpu nodes changes nothing but the proposals
  (\<open>pip\<close>) of vcpus.  Afterwards a vcpu is only to be configured if it is not
  configured yet and its strand and guest exist, and only to be removed if it is
  configured; no live vcpu is ever to be rebound or modified.
\<close>

theorem res_vcpu_parse_frame:
  assumes "res_vcpu_prep c = Inr c1" "res_vcpu_parse (c1, f) = Inr (st, c2, f2)"
  shows "c2 = c\<lparr> cfg_vcpus := cfg_vcpus c2 \<rparr> \<and>
     (\<forall>i. cfg_vcpus c2 i = (cfg_vcpus c i)\<lparr> v_pip := v_pip (cfg_vcpus c2 i) \<rparr>) \<and>
     (\<forall>i<NVCPUS. vcpu_flag_ok (cfg_vcpus c2 i))"
  using hpostD [OF res_vcpu_parse_inv [OF res_vcpu_prep_inv [OF assms(1)]] assms(2)]
  by (simp add: vcpu_parse_inv_def)

theorem res_vcpu_parse_frame_witness:
  "\<exists>c1 c2. res_vcpu_prep (bare vcpu0_config) = Inr c1 \<and>
     res_vcpu_parse (c1, fail_info_uninit) = Inr (HVctl_st_ok, c2, fail_info_uninit) \<and>
     vcpu_flag_ok (cfg_vcpus c2 0) \<and> vp_flags (v_pip (cfg_vcpus c2 0)) = RESF_Noop"
proof -
  obtain c1 where c1: "res_vcpu_prep (bare vcpu0_config) = Inr c1" by (simp add: res_vcpu_prep_eq)
  then have "is_bare c1" "vp_flags (v_pip (cfg_vcpus c1 0)) = RESF_Noop"
    by (auto simp: res_vcpu_prep_eq is_bare_def bare_def vcpu0_config_simps hv_sizes)
  moreover from this(1) have parse: "res_vcpu_parse (c1, fail_info_uninit) = Inr (HVctl_st_ok, c1, fail_info_uninit)"
    by (simp add: res_vcpu_parse_def res_parse_nodes_bare)
  ultimately show ?thesis using c1 res_vcpu_parse_frame [OF c1 parse] by (auto simp: hv_sizes)
qed

end
