(* ===== verification/Res_Ldc.thy ===== *)
theory Res_Ldc
  imports Res_Vcpu
begin

text \<open>
  Logical domain channels (\<open>res_ldc.c\<close>): the endpoints each guest has, with the
  two interrupts of an endpoint entered in the guest's back map
  \<open>ldc_ino2endpoint\<close> and in its table of virtual interrupts, and the endpoints of
  the hypervisor itself.
\<close>

subsection \<open>Guest endpoints\<close>

abbreviation guest_ldc :: "config \<Rightarrow> nat \<Rightarrow> nat \<Rightarrow> ldc_endpoint" where
  "guest_ldc c i j \<equiv> g_ldc_endpoint (cfg_guests c i) j"

definition upd_ldc_ep :: "nat \<Rightarrow> nat \<Rightarrow> (ldc_endpoint \<Rightarrow> ldc_endpoint) \<Rightarrow> config \<Rightarrow> config" where
  "upd_ldc_ep i j f = upd_guest i (upd_ldc j f)"

definition ldc_pip :: "nat \<Rightarrow> nat \<Rightarrow> (ldce_parse \<Rightarrow> ldce_parse) \<Rightarrow> config \<Rightarrow> config" where
  "ldc_pip gi j u = upd_ldc_ep gi j (\<lambda>e. e\<lparr> le_pip := u (le_pip e) \<rparr>)"

definition set_ldc_flags :: "nat \<Rightarrow> nat \<Rightarrow> u8 \<Rightarrow> config \<Rightarrow> config" where
  "set_ldc_flags i j fl = ldc_pip i j (\<lambda>p. p\<lparr> lp_flags := fl \<rparr>)"

text \<open>The two nested loops over guests and channels.\<close>

definition ldc_idxs :: "(nat \<times> nat) list" where
  "ldc_idxs = List.product [0..<NGUESTS] [0..<MAX_LDC_CHANNELS]"

definition res_ldc_prep_1 :: "nat \<times> nat \<Rightarrow> config \<Rightarrow> config hv" where
  "res_ldc_prep_1 ij c = (case ij of (i, j) \<Rightarrow>
     hassert (\<not> (g_state (cfg_guests c i) = GUEST_STATE_UNCONFIGURED \<and> le_is_live (guest_ldc c i j) \<noteq> 0))
       (Inr (set_ldc_flags i j (if le_is_live (guest_ldc c i j) \<noteq> 0 then RESF_Unconfig else RESF_Noop) c)))"

definition res_ldc_prep :: "config \<Rightarrow> config hv" where
  "res_ldc_prep = hfold res_ldc_prep_1 ldc_idxs"

text \<open>\<open>miss_prop\<close> and \<open>ill_prop\<close>\<close>

definition ldc_miss_prop :: "parse_state \<Rightarrow> (parse_result + parse_state) hv" where
  "ldc_miss_prop = parse_fail HVctl_st_badmd HVctl_e_ldc_missing_prop"

definition ldc_ill_prop :: "parse_state \<Rightarrow> (parse_result + parse_state) hv" where
  "ldc_ill_prop = parse_fail HVctl_st_badmd HVctl_e_ldc_illegal_prop"

text \<open>
  The last part of \<open>res_ldc_parse_2\<close>: a channel that is live may only be
  described as it is.  \<open>target_guest\<close> is the target guest, when there is one.
\<close>

definition ldc_elect ::
    "nat \<Rightarrow> nat \<Rightarrow> u64 \<Rightarrow> u64 \<Rightarrow> u64 \<Rightarrow> u64 \<Rightarrow> nat option \<Rightarrow> parse_state \<Rightarrow> (parse_result + parse_state) hv" where
  "ldc_elect gi j target_type target_channel tx_ino rx_ino target_guest s =
     (case s of (c, f) \<Rightarrow>
      let e = guest_ldc c gi j; pvt = lp_is_private (le_pip e) in
      if le_is_live e = 0 then parse_ok (set_ldc_flags gi j RESF_Config c) f
      else if ucast (le_target_type e) \<noteq> target_type \<or> le_target_channel e \<noteq> target_channel \<or>
          (pvt = 0 \<and> le_tx_ino e \<noteq> tx_ino) \<or> (pvt = 0 \<and> le_rx_ino e \<noteq> rx_ino) \<or>
          (target_guest \<noteq> None \<and> le_target_guest e \<noteq> target_guest)
      then parse_fail HVctl_st_badmd HVctl_e_ldc_rebind_na (c, f)
      else parse_ok (set_ldc_flags gi j RESF_Noop c) f)"

definition ldc_parse_svc ::
    "bin_md \<Rightarrow> nat \<Rightarrow> nat \<Rightarrow> nat \<Rightarrow> u64 \<Rightarrow> u64 \<Rightarrow> nat option \<Rightarrow> parse_state \<Rightarrow> (parse_result + parse_state) hv" where
  "ldc_parse_svc md nd gi j target_type target_channel target_guest s =
     (case s of (c, f) \<Rightarrow>
      hbind (md_node_get_val md nd (MDNAME c ''private_svc'')) (\<lambda>r. case r of
        Some pvt_svc \<Rightarrow>
          (let c = ldc_pip gi j (\<lambda>p. p\<lparr> lp_is_private := 1, lp_svc_id := ucast pvt_svc \<rparr>) c in
           if (ucast (ucast pvt_svc :: u8) :: u64) = LDC_CONSOLE_SVC then
             if target_type = LDC_HV_ENDPOINT then ldc_ill_prop (c, f)
             else md_prop md nd (MDNAME c ''rx_ino'') (ldc_miss_prop (c, f)) (\<lambda>rx_ino.
               ldc_elect gi j target_type target_channel rx_ino rx_ino target_guest
                 (ldc_pip gi j (\<lambda>p. p\<lparr> lp_rx_ino := ucast rx_ino, lp_tx_ino := ucast rx_ino \<rparr>) c, f))
           else ldc_ill_prop (c, f))
      | None \<Rightarrow>
          (let c = ldc_pip gi j (\<lambda>p. p\<lparr> lp_is_private := 0 \<rparr>) c in
           md_prop md nd (MDNAME c ''tx_ino'') (ldc_miss_prop (c, f)) (\<lambda>tx_ino.
           md_prop md nd (MDNAME c ''rx_ino'') (ldc_miss_prop (c, f)) (\<lambda>rx_ino.
             ldc_elect gi j target_type target_channel tx_ino rx_ino target_guest
               (ldc_pip gi j (\<lambda>p. p\<lparr> lp_tx_ino := ucast tx_ino, lp_rx_ino := ucast rx_ino \<rparr>) c, f))))))"

definition res_ldc_parse_2 ::
    "u64 \<Rightarrow> bin_md \<Rightarrow> nat \<Rightarrow> parse_state \<Rightarrow> (parse_result + parse_state) hv" where
  "res_ldc_parse_2 guest_id md nd s =
     (case s of (c, f) \<Rightarrow>
      let gi = unat (ucast guest_id :: u32) in
      md_prop md nd (MDNAME c ''channel'') (ldc_miss_prop (c, f\<lparr> f_res_id := Some 0 \<rparr>)) (\<lambda>endpt_id.
      if unat endpt_id \<ge> MAX_LDC_CHANNELS then ldc_ill_prop (c, f\<lparr> f_res_id := Some 0 \<rparr>)
      else hguard (gi < NGUESTS)
       (let j = unat endpt_id;
            c = ldc_pip gi j (\<lambda>p. p\<lparr> lp_channel := ucast endpt_id \<rparr>) c;
            f = f\<lparr> f_res_id := Some (ucast endpt_id) \<rparr> in
      md_prop md nd (MDNAME c ''target_type'') (ldc_miss_prop (c, f)) (\<lambda>target_type.
      md_prop md nd (MDNAME c ''target_channel'') (ldc_ill_prop (c, f)) (\<lambda>target_channel.
      let c = ldc_pip gi j (\<lambda>p. p\<lparr> lp_target_type := ucast target_type, lp_target_channel := ucast target_channel \<rparr>) c in
      if target_type = LDC_HV_ENDPOINT then ldc_parse_svc md nd gi j target_type target_channel None (c, f)
      else if target_type = LDC_GUEST_ENDPOINT then
        md_prop md nd (MDNAME c ''target_guest'') (ldc_miss_prop (c, f)) (\<lambda>target_guest_id.
          ldc_parse_svc md nd gi j target_type target_channel (Some (unat target_guest_id))
            (ldc_pip gi j (\<lambda>p. p\<lparr> lp_target_guestp := Some (unat target_guest_id) \<rparr>) c, f))
      else ldc_ill_prop (c, f))))))"

definition res_ldc_parse_1 :: "bin_md \<Rightarrow> nat \<Rightarrow> parse_state \<Rightarrow> (parse_result + parse_state) hv" where
  "res_ldc_parse_1 md guest_nodep s =
     (case s of (c, f) \<Rightarrow>
      md_prop md guest_nodep (MDNAME c ''resource_id'') (Inl Assert_fail) (\<lambda>guest_id.
        md_foreach md guest_nodep (MDARC (MDNAME c ''fwd'')) (MDNODE (MDNAME c ''ldc_endpoint''))
          (with_failnode (res_ldc_parse_2 guest_id) md) s))"

definition res_ldc_parse :: "parse_state \<Rightarrow> parse_result hv" where
  "res_ldc_parse = res_parse_nodes ''guests'' ''guest'' res_ldc_parse_1"

definition res_ldc_postparse :: "parse_state \<Rightarrow> parse_result hv" where
  "res_ldc_postparse s = Inr (HVctl_st_ok, s)"

definition reset_ldc_endpoint :: "ldc_endpoint \<Rightarrow> ldc_endpoint" where
  "reset_ldc_endpoint e = e\<lparr> le_tx_qbase_ra := 0, le_tx_qhead := 0, le_tx_qtail := 0,
     le_rx_qbase_ra := 0, le_rx_qhead := 0, le_rx_qtail := 0 \<rparr>"

text \<open>\<open>guestp->ldc_ino2endpoint[ino]\<close>, an array of \<open>MAX_LDC_INOS\<close>.\<close>

definition set_ino2endpoint :: "nat \<Rightarrow> ldc_ino2endpoint \<Rightarrow> guest \<Rightarrow> guest hv" where
  "set_ino2endpoint ino x g = hguard (ino < MAX_LDC_INOS)
     (Inr (g\<lparr> g_ldc_ino2endpoint := (g_ldc_ino2endpoint g)(ino := x) \<rparr>))"

text \<open>\<open>res_ldc_commit_config\<close>: the target of the endpoint, then its interrupts.\<close>

definition ldc_config_target :: "nat \<Rightarrow> ldce_parse \<Rightarrow> guest \<Rightarrow> guest hv" where
  "ldc_config_target j p g =
     (let g = upd_ldc j (\<lambda>e. e\<lparr> le_target_type := lp_target_type p, le_target_channel := ucast (lp_target_channel p),
               le_is_private := lp_is_private p, le_svc_id := lp_svc_id p \<rparr>) g;
          ty = ucast (lp_target_type p) :: u64 in
      if ty = LDC_HV_ENDPOINT then Inr g
      else if ty = LDC_GUEST_ENDPOINT then
        (case lp_target_guestp p of None \<Rightarrow> Inl Bad_access
         | Some t \<Rightarrow> hguard (t < NGUESTS) (Inr (upd_ldc j (\<lambda>e. e\<lparr> le_target_guest := Some t \<rparr>) g)))
      else if ty = LDC_SP_ENDPOINT then Inr g
      else Inl Assert_fail)"

definition ldc_config_inos :: "nat \<Rightarrow> ldce_parse \<Rightarrow> guest \<Rightarrow> guest hv" where
  "ldc_config_inos j p g =
     (let tx = unat (lp_tx_ino p); rx = unat (lp_rx_ino p);
          g = upd_ldc j (\<lambda>e. e\<lparr> le_tx_ino := ucast (lp_tx_ino p) \<rparr>) g in
      hbind (set_ino2endpoint tx \<lparr> ie_endpointp = Some j, ie_mapregp = Some (Tx_mapreg j) \<rparr> g) (\<lambda>g.
      hassert (g_cdev_cfghandle g \<noteq> 0)
      (hbind (config_a_guest_device_vino (ucast (lp_tx_ino p)) DEVOPS_CDEV g) (\<lambda>g.
       hbind (set_ino2endpoint rx \<lparr> ie_endpointp = Some j, ie_mapregp = Some (Rx_mapreg j) \<rparr>
          (upd_ldc j (\<lambda>e. e\<lparr> le_rx_ino := ucast (lp_rx_ino p) \<rparr>) g)) (\<lambda>g.
       hbind (config_a_guest_device_vino (ucast (lp_rx_ino p)) DEVOPS_CDEV g) (\<lambda>g.
       Inr (upd_ldc j (\<lambda>e. e\<lparr> le_tx_qbase_pa := 0, le_tx_qsize := 0, le_rx_qbase_pa := 0,
              le_rx_qsize := 0, le_rx_updated := 1 \<rparr>) g)))))))"

definition ldc_config_guest :: "nat \<Rightarrow> guest \<Rightarrow> guest hv" where
  "ldc_config_guest j g =
     (let p = le_pip (g_ldc_endpoint g j) in
      hbind (ldc_config_target j p g) (\<lambda>g.
      hbind (if lp_is_private p = 0 then ldc_config_inos j p g else Inr g) (\<lambda>g.
      Inr (upd_ldc j (\<lambda>e. (reset_ldc_endpoint e)\<lparr> le_is_live := 1 \<rparr>) g))))"

definition res_ldc_commit_config :: "nat \<Rightarrow> nat \<Rightarrow> config \<Rightarrow> config hv" where
  "res_ldc_commit_config gi j = upd_guest_hv gi (ldc_config_guest j)"

definition ldc_unconfig_guest :: "nat \<Rightarrow> guest \<Rightarrow> guest hv" where
  "ldc_unconfig_guest j g = (
     let e = g_ldc_endpoint g j;
         tx = unat (ucast (le_tx_ino e) :: u32); rx = unat (ucast (le_rx_ino e) :: u32);
         none = \<lparr> ie_endpointp = None, ie_mapregp = None \<rparr> in
     hassert (le_is_live e \<noteq> 0)
     (hbind (if le_is_private e = 0 then
               hbind (set_ino2endpoint tx none g) (\<lambda>g.
               hbind (unconfig_a_guest_device_vino (scast (ucast (le_tx_ino e) :: u32)) DEVOPS_CDEV g) (\<lambda>g.
               hbind (set_ino2endpoint rx none g) (\<lambda>g.
               unconfig_a_guest_device_vino (scast (ucast (le_rx_ino e) :: u32)) DEVOPS_CDEV g)))
             else Inr g) (\<lambda>g.
      Inr (upd_ldc j (\<lambda>e. e\<lparr> le_is_live := 0 \<rparr>) g))))"

definition res_ldc_commit_unconfig :: "nat \<Rightarrow> nat \<Rightarrow> config \<Rightarrow> config hv" where
  "res_ldc_commit_unconfig gi j = upd_guest_hv gi (ldc_unconfig_guest j)"

definition res_ldc_commit_1 :: "u8 \<Rightarrow> nat \<times> nat \<Rightarrow> config \<Rightarrow> config hv" where
  "res_ldc_commit_1 flag ij c = (case ij of (i, j) \<Rightarrow>
     (let fl = lp_flags (le_pip (guest_ldc c i j)) in
      if fl \<noteq> flag then Inr c
      else hbind (res_switch fl (Inl Assert_fail) (res_ldc_commit_unconfig i j c) (res_ldc_commit_config i j c)
             (Inl Assert_fail) (Inl Assert_fail)) (\<lambda>c.
           Inr (set_ldc_flags i j RESF_Noop c))))"

definition res_ldc_commit :: "u8 \<Rightarrow> config \<Rightarrow> config hv" where
  "res_ldc_commit flag = hfold (res_ldc_commit_1 flag) ldc_idxs"

subsection \<open>Endpoints of the hypervisor\<close>

definition set_hv_ldc_flags :: "nat \<Rightarrow> u8 \<Rightarrow> config \<Rightarrow> config" where
  "set_hv_ldc_flags i fl = upd_hv_ldc i (\<lambda>e. e\<lparr> le_pip := (le_pip e)\<lparr> lp_flags := fl \<rparr> \<rparr>)"

definition res_hv_ldc_prep :: "config \<Rightarrow> config hv" where
  "res_hv_ldc_prep = hfold (\<lambda>i c. Inr (set_hv_ldc_flags i
       (if le_is_live (cfg_hv_ldcs c i) = 0 then RESF_Noop else RESF_Unconfig) c)) [0..<MAX_HV_LDC_CHANNELS]"

abbreviation hv_ldc_miss_prop :: "parse_state \<Rightarrow> (parse_result + parse_state) hv" where
  "hv_ldc_miss_prop \<equiv> parse_fail HVctl_st_badmd HVctl_e_hv_ldc_missing_prop"

abbreviation hv_ldc_ill_prop :: "parse_state \<Rightarrow> (parse_result + parse_state) hv" where
  "hv_ldc_ill_prop \<equiv> parse_fail HVctl_st_badmd HVctl_e_hv_ldc_illegal_prop"

definition hv_ldc_pip :: "nat \<Rightarrow> (ldce_parse \<Rightarrow> ldce_parse) \<Rightarrow> config \<Rightarrow> config" where
  "hv_ldc_pip i u = upd_hv_ldc i (\<lambda>e. e\<lparr> le_pip := u (le_pip e) \<rparr>)"

definition res_hv_ldc_parse_1 :: "bin_md \<Rightarrow> nat \<Rightarrow> parse_state \<Rightarrow> (parse_result + parse_state) hv" where
  "res_hv_ldc_parse_1 md nd s =
     (case s of (c, f) \<Rightarrow>
      md_prop md nd (MDNAME c ''svc_id'') (parse_ok c f) (\<lambda>svc_id.
      md_prop md nd (MDNAME c ''channel'') (hv_ldc_miss_prop (c, f\<lparr> f_res_id := Some 0 \<rparr>)) (\<lambda>chid.
      if unat chid \<ge> MAX_HV_LDC_CHANNELS then hv_ldc_ill_prop (c, f\<lparr> f_res_id := Some 0 \<rparr>) else
      md_prop md nd (MDNAME c ''target_type'') (hv_ldc_miss_prop (c, f)) (\<lambda>type.
      let i = unat chid; f = f\<lparr> f_res_id := Some (ucast chid) \<rparr>;
          c = hv_ldc_pip i (\<lambda>p. p\<lparr> lp_target_type := ucast type \<rparr>) c in
      parse_then
        (if type = LDC_GUEST_ENDPOINT then
           md_prop md nd (MDNAME c ''target_guest'') (hv_ldc_miss_prop (c, f)) (\<lambda>guestid.
             parse_ok (hv_ldc_pip i (\<lambda>p. p\<lparr> lp_target_guestp := Some (unat guestid) \<rparr>) c) f)
         else if type = LDC_SP_ENDPOINT then parse_ok c f
         else hv_ldc_ill_prop (c, f)) (\<lambda>(c, f).
      md_prop md nd (MDNAME c ''target_channel'') (hv_ldc_miss_prop (c, f)) (\<lambda>tchan_id.
      if unat tchan_id \<ge> MAX_LDC_CHANNELS then hv_ldc_ill_prop (c, f) else
      let c = hv_ldc_pip i (\<lambda>p. p\<lparr> lp_target_channel := ucast tchan_id, lp_svc_id := ucast svc_id \<rparr>) c;
          e = cfg_hv_ldcs c i; p = le_pip e in
      if svc_id = LDC_HVCTL_SVC then
        if ucast (lp_target_type p) = LDC_SP_ENDPOINT then hv_ldc_ill_prop (c, f)
        else if le_is_live e = 0 then parse_ok (set_hv_ldc_flags i RESF_Config c) f
        else if lp_target_type p \<noteq> le_target_type e \<or>
            (ucast (le_target_type e) = LDC_GUEST_ENDPOINT \<and> lp_target_guestp p \<noteq> le_target_guest e) \<or>
            ucast (lp_target_channel p) \<noteq> le_target_channel e
        then parse_fail HVctl_st_eillegal HVctl_e_hv_ldc_rebind_na (c, f)
        else parse_ok (set_hv_ldc_flags i RESF_Noop c) f
      else hv_ldc_miss_prop (c, f)))))))"

definition res_hv_ldc_parse :: "parse_state \<Rightarrow> parse_result hv" where
  "res_hv_ldc_parse s =
     (case s of (c, f) \<Rightarrow>
        with_parse_hvmd c (\<lambda>md.
          hbind (md_find_node md None (MDNAME c ''root'')) (\<lambda>r.
            case r of
              None \<Rightarrow> Inr (HVctl_st_badmd, c, f\<lparr> f_node := Some None, f_res_id := Some 0 \<rparr>)
            | Some rootnodep \<Rightarrow>
                hbind (md_find_node_by_arc md (Some rootnodep) (MDARC (MDNAME c ''fwd''))
                    (MDNODE (MDNAME c ''ldc_endpoints''))) (\<lambda>r.
                  case r of None \<Rightarrow> Inr (HVctl_st_ok, c, f)
                  | Some (_, mdep) \<Rightarrow>
                      hbind (md_foreach md mdep (MDARC (MDNAME c ''fwd'')) (MDNODE (MDNAME c ''ldc_endpoint''))
                        (with_failnode res_hv_ldc_parse_1 md) (c, f)) parse_end))))"

definition res_hv_ldc_postparse :: "parse_state \<Rightarrow> parse_result hv" where
  "res_hv_ldc_postparse s = Inr (HVctl_st_ok, s)"

definition res_hv_ldc_commit_config :: "nat \<Rightarrow> config \<Rightarrow> config hv" where
  "res_hv_ldc_commit_config i c =
     (let e = cfg_hv_ldcs c i; p = le_pip e; ty = ucast (lp_target_type p) :: u64 in
      hassert (le_is_live e = 0)
      (hassert (ty = LDC_GUEST_ENDPOINT \<or> ty = LDC_SP_ENDPOINT)
      (hassert (ucast (lp_svc_id p) = LDC_HVCTL_SVC)
        (Inr ((upd_hv_ldc i (\<lambda>e. e\<lparr> le_target_type := lp_target_type p,
             le_target_guest := if ty = LDC_GUEST_ENDPOINT then lp_target_guestp p else le_target_guest e,
             le_target_channel := ucast (lp_target_channel p), le_rx_cb_hvctl := True, le_is_live := 1 \<rparr>) c)
           \<lparr> cfg_hvctl_ldc := of_nat i \<rparr>)))))"

definition res_hv_ldc_commit_unconfig :: "nat \<Rightarrow> config \<Rightarrow> config hv" where
  "res_hv_ldc_commit_unconfig i c =
     hassert (le_is_live (cfg_hv_ldcs c i) \<noteq> 0) (Inr (upd_hv_ldc i (\<lambda>e. e\<lparr> le_is_live := 0 \<rparr>) c))"

definition res_hv_ldc_commit_1 :: "u8 \<Rightarrow> nat \<Rightarrow> config \<Rightarrow> config hv" where
  "res_hv_ldc_commit_1 flag i c =
     (let fl = lp_flags (le_pip (cfg_hv_ldcs c i)) in
      if fl \<noteq> flag then Inr c
      else hbind (res_switch fl (Inr c) (res_hv_ldc_commit_unconfig i c) (res_hv_ldc_commit_config i c)
             (Inl Assert_fail) (Inl Assert_fail)) (\<lambda>c.
           Inr (set_hv_ldc_flags i RESF_Noop c)))"

definition res_hv_ldc_commit :: "u8 \<Rightarrow> config \<Rightarrow> config hv" where
  "res_hv_ldc_commit flag = hfold (res_hv_ldc_commit_1 flag) [0..<MAX_HV_LDC_CHANNELS]"

subsection \<open>What configuring and removing an endpoint does\<close>

lemma upd_ldc_simps:
  "g_ldc_endpoint (upd_ldc j h g) = (g_ldc_endpoint g)(j := h (g_ldc_endpoint g j))"
  "g_ldc_ino2endpoint (upd_ldc j h g) = g_ldc_ino2endpoint g" "g_vino2inst (upd_ldc j h g) = g_vino2inst g"
  "g_cdev_cfghandle (upd_ldc j h g) = g_cdev_cfghandle g" "g_vdev_cfghandle (upd_ldc j h g) = g_vdev_cfghandle g"
  by (simp_all add: upd_ldc_def)

lemma upd_ldc_twice: "upd_ldc j h (upd_ldc j k g) = upd_ldc j (\<lambda>e. h (k e)) g"
  by (simp add: upd_ldc_def)

lemma upd_ldc_commute:
  "(upd_ldc j h g)\<lparr> g_ldc_ino2endpoint := x \<rparr> = upd_ldc j h (g\<lparr> g_ldc_ino2endpoint := x \<rparr>)"
  "(upd_ldc j h g)\<lparr> g_vino2inst := y \<rparr> = upd_ldc j h (g\<lparr> g_vino2inst := y \<rparr>)"
  by (simp_all add: upd_ldc_def)

lemma cdev_not_vdev [simp]: "DEVOPS_CDEV \<noteq> DEVOPS_VDEV"
  by (simp add: DEVOPS_CDEV_def DEVOPS_VDEV_def)

lemma vino_eqs:
  "config_a_guest_device_vino ino DEVOPS_CDEV g = Inr g' \<longleftrightarrow> g_cdev_cfghandle g \<noteq> INVALID_CFGHANDLE \<and>
     unat (g_cdev_cfghandle g + ino) < NVINOS \<and>
     g' = g\<lparr> g_vino2inst := (g_vino2inst g)(unat (g_cdev_cfghandle g + ino) := DEVOPS_CDEV) \<rparr>"
  "unconfig_a_guest_device_vino ino DEVOPS_CDEV g = Inr g' \<longleftrightarrow> g_cdev_cfghandle g \<noteq> INVALID_CFGHANDLE \<and>
     unat (g_cdev_cfghandle g + ino) < NVINOS \<and>
     g' = g\<lparr> g_vino2inst := (g_vino2inst g)(unat (g_cdev_cfghandle g + ino) := DEVOPS_RESERVED) \<rparr>"
  "set_ino2endpoint i x g = Inr g' \<longleftrightarrow> i < MAX_LDC_INOS \<and>
     g' = g\<lparr> g_ldc_ino2endpoint := (g_ldc_ino2endpoint g)(i := x) \<rparr>"
  by (auto simp: config_a_guest_device_vino_def unconfig_a_guest_device_vino_def set_ino2endpoint_def
      cfghandle_of_type_def Let_def hassert_eq_Inr hguard_eq_Inr)

text \<open>The tables of a guest after the interrupts of an endpoint have been entered.\<close>

definition ldc_vinos :: "u16 \<Rightarrow> u16 \<Rightarrow> u64 \<Rightarrow> nat set" where
  "ldc_vinos tx rx cfg = {unat (cfg + ucast tx), unat (cfg + ucast rx)}"

lemma ldc_config_inos_eq:
  "ldc_config_inos j p g = Inr g' \<longleftrightarrow>
     unat (lp_tx_ino p) < MAX_LDC_INOS \<and> unat (lp_rx_ino p) < MAX_LDC_INOS \<and>
     g_cdev_cfghandle g \<noteq> 0 \<and> g_cdev_cfghandle g \<noteq> INVALID_CFGHANDLE \<and>
     ldc_vinos (lp_tx_ino p) (lp_rx_ino p) (g_cdev_cfghandle g) \<subseteq> {..<NVINOS} \<and>
     g' = upd_ldc j (\<lambda>e. e\<lparr> le_tx_ino := ucast (lp_tx_ino p), le_rx_ino := ucast (lp_rx_ino p), le_tx_qbase_pa := 0,
         le_tx_qsize := 0, le_rx_qbase_pa := 0, le_rx_qsize := 0, le_rx_updated := 1 \<rparr>)
       (g\<lparr> g_ldc_ino2endpoint := (g_ldc_ino2endpoint g)
           (unat (lp_tx_ino p) := \<lparr> ie_endpointp = Some j, ie_mapregp = Some (Tx_mapreg j) \<rparr>,
            unat (lp_rx_ino p) := \<lparr> ie_endpointp = Some j, ie_mapregp = Some (Rx_mapreg j) \<rparr>),
          g_vino2inst := \<lambda>y. if y \<in> ldc_vinos (lp_tx_ino p) (lp_rx_ino p) (g_cdev_cfghandle g)
            then DEVOPS_CDEV else g_vino2inst g y \<rparr>)"
proof -
  have v: "(\<lambda>y. if y \<in> ldc_vinos tx rx h then DEVOPS_CDEV else v y) =
      v(unat (h + ucast tx) := DEVOPS_CDEV, unat (h + ucast rx) := DEVOPS_CDEV)" for tx rx h and v :: "nat \<Rightarrow> u8"
    by (auto simp: ldc_vinos_def fun_eq_iff)
  show ?thesis
    unfolding ldc_config_inos_def Let_def hbind_eq_Inr hassert_eq_Inr vino_eqs v
    by (auto simp: upd_ldc_simps upd_ldc_commute upd_ldc_twice ldc_vinos_def simp del: fun_upd_apply)
qed

lemma ldc_config_target_eq:
  "ldc_config_target j p g = Inr g' \<Longrightarrow> \<exists>tg. g' = upd_ldc j (\<lambda>e. e\<lparr> le_target_type := lp_target_type p,
     le_target_channel := ucast (lp_target_channel p), le_is_private := lp_is_private p, le_svc_id := lp_svc_id p,
     le_target_guest := tg (le_target_guest e) \<rparr>) g"
  by (auto simp: ldc_config_target_def Let_def upd_ldc_twice hguard_eq_Inr split: if_splits option.splits
      intro: exI [of _ "\<lambda>x. x"] exI [of _ "\<lambda>x. t" for t])

lemma ldc_config_guest_facts:
  assumes "ldc_config_guest j g = Inr g'"
  shows "let p = le_pip (g_ldc_endpoint g j); e' = g_ldc_endpoint g' j; tx = unat (lp_tx_ino p); rx = unat (lp_rx_ino p) in
    g' = g\<lparr> g_ldc_endpoint := g_ldc_endpoint g', g_ldc_ino2endpoint := g_ldc_ino2endpoint g', g_vino2inst := g_vino2inst g' \<rparr> \<and>
    (\<forall>k. k \<noteq> j \<longrightarrow> g_ldc_endpoint g' k = g_ldc_endpoint g k) \<and>
    le_is_live e' = 1 \<and> le_pip e' = p \<and> le_target_type e' = lp_target_type p \<and>
    le_target_channel e' = ucast (lp_target_channel p) \<and> le_is_private e' = lp_is_private p \<and>
    le_tx_qhead e' = 0 \<and> le_tx_qtail e' = 0 \<and> le_rx_qhead e' = 0 \<and> le_rx_qtail e' = 0 \<and>
    (if lp_is_private p = 0 then
       tx < MAX_LDC_INOS \<and> rx < MAX_LDC_INOS \<and> g_cdev_cfghandle g \<noteq> INVALID_CFGHANDLE \<and>
       le_tx_ino e' = ucast (lp_tx_ino p) \<and> le_rx_ino e' = ucast (lp_rx_ino p) \<and>
       ldc_vinos (lp_tx_ino p) (lp_rx_ino p) (g_cdev_cfghandle g) \<subseteq> {..<NVINOS} \<and>
       g_ldc_ino2endpoint g' = (g_ldc_ino2endpoint g)
         (tx := \<lparr> ie_endpointp = Some j, ie_mapregp = Some (Tx_mapreg j) \<rparr>,
          rx := \<lparr> ie_endpointp = Some j, ie_mapregp = Some (Rx_mapreg j) \<rparr>) \<and>
       g_vino2inst g' = (\<lambda>y. if y \<in> ldc_vinos (lp_tx_ino p) (lp_rx_ino p) (g_cdev_cfghandle g)
          then DEVOPS_CDEV else g_vino2inst g y)
     else g_ldc_ino2endpoint g' = g_ldc_ino2endpoint g \<and> g_vino2inst g' = g_vino2inst g)"
proof -
  let ?p = "le_pip (g_ldc_endpoint g j)"
  from assms obtain g1 g2 where 1: "ldc_config_target j ?p g = Inr g1"
    and 2: "(if lp_is_private ?p = 0 then ldc_config_inos j ?p g1 else Inr g1) = Inr g2"
    and 3: "g' = upd_ldc j (\<lambda>e. (reset_ldc_endpoint e)\<lparr> le_is_live := 1 \<rparr>) g2"
    unfolding ldc_config_guest_def Let_def hbind_eq_Inr by auto
  obtain tg where g1: "g1 = upd_ldc j (\<lambda>e. e\<lparr> le_target_type := lp_target_type ?p,
     le_target_channel := ucast (lp_target_channel ?p), le_is_private := lp_is_private ?p, le_svc_id := lp_svc_id ?p,
     le_target_guest := tg (le_target_guest e) \<rparr>) g" using ldc_config_target_eq [OF 1] by blast
  show ?thesis
  proof (cases "lp_is_private ?p = 0")
    case True
    with 2 have "ldc_config_inos j ?p g1 = Inr g2" by simp
    note g2 = this [unfolded ldc_config_inos_eq]
    then have inos: "unat (lp_tx_ino ?p) < MAX_LDC_INOS" "unat (lp_rx_ino ?p) < MAX_LDC_INOS"
      "g_cdev_cfghandle g \<noteq> INVALID_CFGHANDLE" "ldc_vinos (lp_tx_ino ?p) (lp_rx_ino ?p) (g_cdev_cfghandle g) \<subseteq> {..<NVINOS}"
      by (simp_all add: g1 upd_ldc_simps)
    from g2 True inos show ?thesis unfolding Let_def
      by (simp add: 3 g1 upd_ldc_simps reset_ldc_endpoint_def cong: if_cong) (simp add: upd_ldc_def)
  next
    case False
    with 2 have "g2 = g1" by simp
    with False show ?thesis unfolding Let_def by (simp add: 3 g1 upd_ldc_def reset_ldc_endpoint_def)
  qed
qed

text \<open>An interrupt number that fits 16 bits survives the trip through an \<open>int\<close>.\<close>

lemma ino_through_int:
  fixes x :: u16
  shows "unat (ucast (ucast x :: u64) :: u32) = unat x" "(scast (ucast (ucast x :: u64) :: u32) :: u64) = ucast x"
proof -
  have lt: "uint x < 2 ^ 16" using uint_lt2p [of x] by simp
  then have u: "uint (ucast (ucast x :: u64) :: u32) = uint x"
    by (simp add: unsigned_ucast_eq unsigned_take_bit_eq take_bit_int_eq_self)
  then show "unat (ucast (ucast x :: u64) :: u32) = unat x" by (simp only: unat_eq_nat_uint)
  have "sint (ucast (ucast x :: u64) :: u32) = uint x"
    unfolding sint_uint u
    by (rule signed_take_bit_int_eq_self) (rule order_trans [OF _ uint_ge_0], use lt in simp_all)
  then show "(scast (ucast (ucast x :: u64) :: u32) :: u64) = ucast x"
    by (metis of_int_sint of_int_uint)
qed

lemma ldc_unconfig_guest_eq:
  "ldc_unconfig_guest j g = Inr g' \<longleftrightarrow> (let e = g_ldc_endpoint g j;
       tx = unat (ucast (le_tx_ino e) :: u32); rx = unat (ucast (le_rx_ino e) :: u32);
       vtx = unat (g_cdev_cfghandle g + scast (ucast (le_tx_ino e) :: u32));
       vrx = unat (g_cdev_cfghandle g + scast (ucast (le_rx_ino e) :: u32));
       none = \<lparr> ie_endpointp = None, ie_mapregp = None \<rparr> in
     le_is_live e \<noteq> 0 \<and>
     (if le_is_private e = 0 then tx < MAX_LDC_INOS \<and> rx < MAX_LDC_INOS \<and>
        g_cdev_cfghandle g \<noteq> INVALID_CFGHANDLE \<and> vtx < NVINOS \<and> vrx < NVINOS \<and>
        g' = upd_ldc j (\<lambda>e. e\<lparr> le_is_live := 0 \<rparr>)
          (g\<lparr> g_ldc_ino2endpoint := (g_ldc_ino2endpoint g)(tx := none, rx := none),
              g_vino2inst := (g_vino2inst g)(vtx := DEVOPS_RESERVED, vrx := DEVOPS_RESERVED) \<rparr>)
      else g' = upd_ldc j (\<lambda>e. e\<lparr> le_is_live := 0 \<rparr>) g))"
  unfolding ldc_unconfig_guest_def Let_def hassert_eq_Inr hbind_eq_Inr
  by (auto simp: hbind_eq_Inr vino_eqs simp del: fun_upd_apply)

text \<open>
  C8. Configuring an LDC endpoint and removing it again succeeds and leaves the
  interrupt tables of the guest as they were, provided its interrupts were not in
  use before; the endpoint is not live any more, and no other endpoint has changed.
\<close>

theorem ldc_config_unconfig_roundtrip:
  assumes "ldc_config_guest j g = Inr g1"
    and "let p = le_pip (g_ldc_endpoint g j) in lp_is_private p = 0 \<longrightarrow>
       (\<forall>i\<in>{unat (lp_tx_ino p), unat (lp_rx_ino p)}.
          g_ldc_ino2endpoint g i = \<lparr> ie_endpointp = None, ie_mapregp = None \<rparr>) \<and>
       (\<forall>y\<in>ldc_vinos (lp_tx_ino p) (lp_rx_ino p) (g_cdev_cfghandle g). g_vino2inst g y = DEVOPS_RESERVED)"
  shows "\<exists>g2. ldc_unconfig_guest j g1 = Inr g2 \<and> g_ldc_ino2endpoint g2 = g_ldc_ino2endpoint g \<and>
    g_vino2inst g2 = g_vino2inst g \<and> le_is_live (g_ldc_endpoint g2 j) = 0 \<and>
    (\<forall>k. k \<noteq> j \<longrightarrow> g_ldc_endpoint g2 k = g_ldc_endpoint g k)"
proof -
  let ?p = "le_pip (g_ldc_endpoint g j)" and ?e = "g_ldc_endpoint g1 j"
  note f = ldc_config_guest_facts [OF assms(1), unfolded Let_def]
  then have live: "le_is_live ?e \<noteq> 0" and pvt: "le_is_private ?e = lp_is_private ?p"
    and others: "\<forall>k. k \<noteq> j \<longrightarrow> g_ldc_endpoint g1 k = g_ldc_endpoint g k" by auto
  from f have "g1 = g\<lparr> g_ldc_endpoint := g_ldc_endpoint g1, g_ldc_ino2endpoint := g_ldc_ino2endpoint g1,
      g_vino2inst := g_vino2inst g1 \<rparr>" by blast
  then have cfg: "g_cdev_cfghandle g1 = g_cdev_cfghandle g" by (rule ssubst) simp
  show ?thesis
  proof (cases "lp_is_private ?p = 0")
    case True
    with f have inos: "le_tx_ino ?e = ucast (lp_tx_ino ?p)" "le_rx_ino ?e = ucast (lp_rx_ino ?p)"
      "unat (lp_tx_ino ?p) < MAX_LDC_INOS" "unat (lp_rx_ino ?p) < MAX_LDC_INOS" "g_cdev_cfghandle g \<noteq> INVALID_CFGHANDLE"
      and vinos: "ldc_vinos (lp_tx_ino ?p) (lp_rx_ino ?p) (g_cdev_cfghandle g) \<subseteq> {..<NVINOS}"
      and ie: "g_ldc_ino2endpoint g1 = (g_ldc_ino2endpoint g)
         (unat (lp_tx_ino ?p) := \<lparr> ie_endpointp = Some j, ie_mapregp = Some (Tx_mapreg j) \<rparr>,
          unat (lp_rx_ino ?p) := \<lparr> ie_endpointp = Some j, ie_mapregp = Some (Rx_mapreg j) \<rparr>)"
      and vi: "g_vino2inst g1 = (\<lambda>y. if y \<in> ldc_vinos (lp_tx_ino ?p) (lp_rx_ino ?p) (g_cdev_cfghandle g)
          then DEVOPS_CDEV else g_vino2inst g y)"
      by simp_all
    let ?none = "\<lparr> ie_endpointp = None, ie_mapregp = None \<rparr>"
    let ?vtx = "unat (g_cdev_cfghandle g + ucast (lp_tx_ino ?p))" and ?vrx = "unat (g_cdev_cfghandle g + ucast (lp_rx_ino ?p))"
    let ?g2 = "upd_ldc j (\<lambda>e. e\<lparr> le_is_live := 0 \<rparr>)
          (g1\<lparr> g_ldc_ino2endpoint := (g_ldc_ino2endpoint g1)(unat (lp_tx_ino ?p) := ?none, unat (lp_rx_ino ?p) := ?none),
              g_vino2inst := (g_vino2inst g1)(?vtx := DEVOPS_RESERVED, ?vrx := DEVOPS_RESERVED) \<rparr>)"
    have "ldc_unconfig_guest j g1 = Inr ?g2"
      unfolding ldc_unconfig_guest_eq Let_def inos(1,2) ino_through_int cfg
      using live pvt True inos vinos by (simp add: ldc_vinos_def)
    moreover have "g_ldc_ino2endpoint ?g2 = g_ldc_ino2endpoint g"
      using assms(2) True by (auto simp: upd_ldc_simps ie Let_def fun_eq_iff)
    moreover have "g_vino2inst ?g2 = g_vino2inst g"
      using assms(2) True by (auto simp: upd_ldc_simps vi ldc_vinos_def Let_def fun_eq_iff)
    ultimately show ?thesis using others by (intro exI [of _ ?g2]) (simp add: upd_ldc_simps)
  next
    case False
    with f have "g_ldc_ino2endpoint g1 = g_ldc_ino2endpoint g" "g_vino2inst g1 = g_vino2inst g" by simp_all
    moreover have "ldc_unconfig_guest j g1 = Inr (upd_ldc j (\<lambda>e. e\<lparr> le_is_live := 0 \<rparr>) g1)"
      unfolding ldc_unconfig_guest_eq Let_def using live pvt False by simp
    ultimately show ?thesis using others
      by (intro exI [of _ "upd_ldc j (\<lambda>e. e\<lparr> le_is_live := 0 \<rparr>) g1"]) (simp add: upd_ldc_simps)
  qed
qed

text \<open>One endpoint of guest 0, to be connected to channel 1 of guest 1.\<close>

definition ldc_guest :: guest where
  "ldc_guest = guest_zero\<lparr> g_cdev_cfghandle := 0x200, g_ldc_endpoint := (\<lambda>_. ldc_endpoint_zero)
     (3 := ldc_endpoint_zero\<lparr> le_pip := ldce_parse_zero\<lparr> lp_flags := RESF_Config, lp_target_channel := 1,
        lp_target_guestp := Some 1, lp_tx_ino := 6, lp_rx_ino := 7 \<rparr> \<rparr>) \<rparr>"

lemma ldc_guest_config: "\<exists>g1. ldc_config_guest 3 ldc_guest = Inr g1"
proof -
  let ?p = "ldce_parse_zero\<lparr> lp_flags := RESF_Config, lp_target_channel := 1,
        lp_target_guestp := Some 1, lp_tx_ino := 6, lp_rx_ino := 7 \<rparr>"
  have p: "le_pip (g_ldc_endpoint ldc_guest 3) = ?p" by (simp add: ldc_guest_def)
  obtain g1 where g1: "ldc_config_target 3 ?p ldc_guest = Inr g1" "g_cdev_cfghandle g1 = 0x200"
    by (simp add: ldc_config_target_def Let_def ldce_parse_zero_def LDC_HV_ENDPOINT_def LDC_GUEST_ENDPOINT_def
        hv_sizes upd_ldc_def ldc_guest_def)
  have "\<exists>g2. ldc_config_inos 3 ?p g1 = Inr g2"
    unfolding ldc_config_inos_eq by (simp add: g1(2) hv_sizes INVALID_CFGHANDLE_def ldc_vinos_def)
  with g1(1) show ?thesis unfolding ldc_config_guest_def p by (auto simp: ldce_parse_zero_def)
qed

theorem ldc_config_unconfig_roundtrip_witness:
  "\<exists>g1 g2. ldc_config_guest 3 ldc_guest = Inr g1 \<and> ldc_unconfig_guest 3 g1 = Inr g2 \<and>
     g_ldc_ino2endpoint g2 = g_ldc_ino2endpoint ldc_guest"
proof -
  obtain g1 where g1: "ldc_config_guest 3 ldc_guest = Inr g1" using ldc_guest_config ..
  have "\<exists>g2. ldc_unconfig_guest 3 g1 = Inr g2 \<and> g_ldc_ino2endpoint g2 = g_ldc_ino2endpoint ldc_guest"
    using ldc_config_unconfig_roundtrip [OF g1] by (auto simp: ldc_guest_def guest_zero_def DEVOPS_RESERVED_def Let_def)
  with g1 show ?thesis by blast
qed

subsection \<open>The commit functions as resources\<close>

lemma guest_ldc_upd:
  "guest_ldc (upd_guest i h c) i' j' = (if i' = i then g_ldc_endpoint (h (cfg_guests c i)) j' else guest_ldc c i' j')"
  by (simp add: config_eq_by_guests)

lemma guest_ldc_flags:
  "guest_ldc (set_ldc_flags i j fl c) i' j' = (if i' = i \<and> j' = j
     then (guest_ldc c i j)\<lparr> le_pip := (le_pip (guest_ldc c i j))\<lparr> lp_flags := fl \<rparr> \<rparr> else guest_ldc c i' j')"
  by (simp add: set_ldc_flags_def ldc_pip_def upd_ldc_ep_def guest_ldc_upd upd_ldc_simps)

lemma res_ldc_commit_1_other: "lp_flags (le_pip (guest_ldc c i j)) \<noteq> fl \<Longrightarrow> res_ldc_commit_1 fl (i, j) c = Inr c"
  by (simp add: res_ldc_commit_1_def)

lemma res_ldc_commit_1_done:
  assumes "res_ldc_commit_1 fl (i, j) c = Inr c'" "lp_flags (le_pip (guest_ldc c i j)) = fl"
  obtains g' where "fl = RESF_Unconfig" "ldc_unconfig_guest j (cfg_guests c i) = Inr g'"
      "c' = set_ldc_flags i j RESF_Noop (upd_guest i (\<lambda>_. g') c)"
    | g' where "fl = RESF_Config" "ldc_config_guest j (cfg_guests c i) = Inr g'"
      "c' = set_ldc_flags i j RESF_Noop (upd_guest i (\<lambda>_. g') c)"
  using assms
  by (auto simp: res_ldc_commit_1_def Let_def hbind_eq_Inr res_switch_def res_ldc_commit_config_def
      res_ldc_commit_unconfig_def upd_guest_hv_eq split: if_splits)

lemma ldc_unconfig_guest_endpoints:
  assumes "ldc_unconfig_guest j g = Inr g'"
  shows "g_ldc_endpoint g' = (g_ldc_endpoint g)(j := (g_ldc_endpoint g j)\<lparr> le_is_live := 0 \<rparr>)"
  using assms unfolding ldc_unconfig_guest_eq Let_def by (auto simp: upd_ldc_simps split: if_splits)

lemma res_ldc_commit_1_facts:
  assumes "res_ldc_commit_1 fl (i, j) c = Inr c'" "lp_flags (le_pip (guest_ldc c i j)) = fl"
  shows "lp_flags (le_pip (guest_ldc c' i j)) = RESF_Noop"
    and "le_is_live (guest_ldc c' i j) \<noteq> 0 \<longleftrightarrow> fl = RESF_Config \<or> fl \<noteq> RESF_Unconfig \<and> le_is_live (guest_ldc c i j) \<noteq> 0"
    and "\<And>i' j'. (i', j') \<noteq> (i, j) \<Longrightarrow> guest_ldc c' i' j' = guest_ldc c i' j'"
proof -
  have "lp_flags (le_pip (guest_ldc c' i j)) = RESF_Noop \<and>
    (le_is_live (guest_ldc c' i j) \<noteq> 0 \<longleftrightarrow> fl = RESF_Config \<or> fl \<noteq> RESF_Unconfig \<and> le_is_live (guest_ldc c i j) \<noteq> 0) \<and>
    (\<forall>i' j'. (i', j') \<noteq> (i, j) \<longrightarrow> guest_ldc c' i' j' = guest_ldc c i' j')"
    using assms
  proof (cases rule: res_ldc_commit_1_done)
    case (1 g')
    with ldc_unconfig_guest_endpoints [OF 1(2)] show ?thesis by (auto simp: guest_ldc_flags guest_ldc_upd)
  next
    case (2 g')
    with ldc_config_guest_facts [OF 2(2)] show ?thesis by (auto simp: Let_def guest_ldc_flags guest_ldc_upd)
  qed
  then show "lp_flags (le_pip (guest_ldc c' i j)) = RESF_Noop"
    and "le_is_live (guest_ldc c' i j) \<noteq> 0 \<longleftrightarrow> fl = RESF_Config \<or> fl \<noteq> RESF_Unconfig \<and> le_is_live (guest_ldc c i j) \<noteq> 0"
    and "\<And>i' j'. (i', j') \<noteq> (i, j) \<Longrightarrow> guest_ldc c' i' j' = guest_ldc c i' j'" by blast+
qed

lemma res_ldc_commit_1_others:
  "res_ldc_commit_1 fl (i, j) c = Inr c' \<Longrightarrow> (i', j') \<noteq> (i, j) \<Longrightarrow> guest_ldc c' i' j' = guest_ldc c i' j'"
  using res_ldc_commit_1_facts(3) [of fl i j c c' i' j'] res_ldc_commit_1_other [of c i j fl]
  by (cases "lp_flags (le_pip (guest_ldc c i j)) = fl") auto

interpretation ldcs: resource_kind ldc_idxs "\<lambda>c (i, j). lp_flags (le_pip (guest_ldc c i j))"
  res_ldc_commit_1 "\<lambda>_. True" "\<lambda>c (i, j). le_is_live (guest_ldc c i j) \<noteq> 0"
proof (unfold_locales, goal_cases)
  case 1
  show ?case by (simp add: ldc_idxs_def distinct_product)
next
  case (2 c ij fl)
  obtain i j where "ij = (i, j)" by (rule prod.exhaust)
  with 2 show ?case by (simp add: res_ldc_commit_1_other)
next
  case (4 ij c fl c')
  obtain i j where "ij = (i, j)" by (rule prod.exhaust)
  with 4 show ?case by (simp add: res_ldc_commit_1_facts(1))
next
  case (5 ij c fl c' ij')
  obtain i j i' j' where "ij = (i, j)" "ij' = (i', j')" by (metis prod.exhaust)
  with 5 res_ldc_commit_1_others [of fl i j c c' i' j'] show ?case by simp
next
  case (6 ij c fl c')
  obtain i j where "ij = (i, j)" by (rule prod.exhaust)
  with 6 show ?case by (simp add: res_ldc_commit_1_facts(2))
next
  case (7 ij c fl c' ij')
  obtain i j i' j' where "ij = (i, j)" "ij' = (i', j')" by (metis prod.exhaust)
  with 7 res_ldc_commit_1_others [of fl i j c c' i' j'] show ?case by simp
qed simp

lemma upd_hv_ldc_simps:
  "cfg_hv_ldcs (upd_hv_ldc i h c) = (cfg_hv_ldcs c)(i := h (cfg_hv_ldcs c i))"
  by (simp add: upd_hv_ldc_def)

lemma res_hv_ldc_commit_1_facts:
  assumes "res_hv_ldc_commit_1 fl i c = Inr c'" "lp_flags (le_pip (cfg_hv_ldcs c i)) = fl"
  shows "lp_flags (le_pip (cfg_hv_ldcs c' i)) = RESF_Noop \<and> (\<forall>j. j \<noteq> i \<longrightarrow> cfg_hv_ldcs c' j = cfg_hv_ldcs c j) \<and>
    (le_is_live (cfg_hv_ldcs c' i) \<noteq> 0 \<longleftrightarrow> fl = RESF_Config \<or> fl \<noteq> RESF_Unconfig \<and> le_is_live (cfg_hv_ldcs c i) \<noteq> 0)"
  using assms
  by (auto simp: res_hv_ldc_commit_1_def Let_def hbind_eq_Inr res_switch_def res_hv_ldc_commit_config_def
      res_hv_ldc_commit_unconfig_def hassert_eq_Inr set_hv_ldc_flags_def upd_hv_ldc_def split: if_splits)

interpretation hv_ldcs: resource_kind "[0..<MAX_HV_LDC_CHANNELS]" "\<lambda>c i. lp_flags (le_pip (cfg_hv_ldcs c i))"
  res_hv_ldc_commit_1 "\<lambda>_. True" "\<lambda>c i. le_is_live (cfg_hv_ldcs c i) \<noteq> 0"
proof (unfold_locales, goal_cases)
  case (2 c i fl)
  then show ?case by (simp add: res_hv_ldc_commit_1_def)
next
  case (5 i c fl c' j)
  then show ?case using res_hv_ldc_commit_1_facts [of fl i c c']
    by (cases "lp_flags (le_pip (cfg_hv_ldcs c i)) = fl") (auto simp: res_hv_ldc_commit_1_def)
next
  case (7 i c fl c' j)
  then show ?case using res_hv_ldc_commit_1_facts [of fl i c c']
    by (cases "lp_flags (le_pip (cfg_hv_ldcs c i)) = fl") (auto simp: res_hv_ldc_commit_1_def)
qed (auto dest: res_hv_ldc_commit_1_facts)

end
