(* ===== verification/Res_Console.thy ===== *)
theory Res_Console
  imports Res_Ldc
begin

text \<open>
  Guest consoles (\<open>res_console.c\<close>, built with \<open>CONFIG_CN_UART\<close>): the console of a
  guest is a UART or a private LDC endpoint of the guest, which then gets the
  queues in hypervisor memory that are reserved for the guest.
\<close>

definition LDC_CONS_READY :: u8 where "LDC_CONS_READY = 1"
definition Q_EL_SIZE :: u64 where "Q_EL_SIZE = 0x40"
definition LDC_CONS_QSIZE :: u64 where "LDC_CONS_QSIZE = 128"

text \<open>\<open>sizeof (struct guest_console_queues)\<close>, \<open>cons_rxq\<close> first and \<open>cons_txq\<close> after it.\<close>

definition cons_rxq :: "u64 \<Rightarrow> u64 \<Rightarrow> u64" where
  "cons_rxq queues guestid = queues + guestid * (2 * (Q_EL_SIZE * LDC_CONS_QSIZE))"

definition cons_txq :: "u64 \<Rightarrow> u64 \<Rightarrow> u64" where
  "cons_txq queues guestid = cons_rxq queues guestid + Q_EL_SIZE * LDC_CONS_QSIZE"

definition upd_console :: "(console \<Rightarrow> console) \<Rightarrow> guest \<Rightarrow> guest" where
  "upd_console h g = g\<lparr> g_console := h (g_console g) \<rparr>"

definition upd_console_pip :: "nat \<Rightarrow> (console_pip \<Rightarrow> console_pip) \<Rightarrow> config \<Rightarrow> config" where
  "upd_console_pip i u = upd_guest i (upd_console (\<lambda>k. k\<lparr> cons_pip := u (cons_pip k) \<rparr>))"

definition set_console_flags :: "nat \<Rightarrow> u8 \<Rightarrow> config \<Rightarrow> config" where
  "set_console_flags i fl = upd_console_pip i (\<lambda>p. p\<lparr> cp_flags := fl \<rparr>)"

definition init_consoles :: "config \<Rightarrow> config hv" where
  "init_consoles = hfold (\<lambda>i c. Inr (upd_guest i (upd_console (\<lambda>k. k\<lparr> cons_type := CONS_TYPE_UNCONFIG \<rparr>)) c))
     [0..<NGUESTS]"

definition res_console_prep :: "config \<Rightarrow> config hv" where
  "res_console_prep = hfold (\<lambda>i c. Inr (set_console_flags i
       (if cons_type (g_console (cfg_guests c i)) = CONS_TYPE_UNCONFIG then RESF_Noop else RESF_Unconfig) c))
     [0..<NGUESTS]"

text \<open>
  The last part of \<open>res_console_parse_1\<close>: which flag the console gets.  The
  mapping register is only looked at when the type and the channel agree.
\<close>

definition console_elect :: "guest \<Rightarrow> u8 hv" where
  "console_elect g =
     (let k = g_console g; p = cons_pip k in
      if cons_type k = CONS_TYPE_UNCONFIG then Inr RESF_Config
      else if cons_type k \<noteq> cp_type p \<or>
          (cons_type k = CONS_TYPE_LDC \<and> cons_endpt k \<noteq> scast (cp_ldc_channel p)) then Inr RESF_Modify
      else (case cons_vintr_mapreg k of None \<Rightarrow> Inl Bad_access
            | Some m \<Rightarrow> Inr (if mr_ino (g_mapreg g m) \<noteq> cp_ino p \<or>
                  (cons_type k = CONS_TYPE_UART \<and> cons_uartbase k \<noteq> cp_uartbase p)
                then RESF_Modify else RESF_Noop)))"

text \<open>
  The middle part of \<open>res_console_parse_1\<close>: the LDC endpoint the console node
  leads to, or else its UART.
\<close>

definition console_parse_type :: "bin_md \<Rightarrow> nat \<Rightarrow> nat \<Rightarrow> parse_state \<Rightarrow> (parse_result + parse_state) hv" where
  "console_parse_type md nd gi s =
     (case s of (c, f) \<Rightarrow>
      hbind (md_find_node_by_arc md (Some nd) (MDARC (MDNAME c ''fwd'')) (MDNODE (MDNAME c ''ldc_endpoint''))) (\<lambda>r.
        case r of
          None \<Rightarrow>
            md_prop md nd (MDNAME c ''uartbase'') (parse_fail HVctl_st_badmd HVctl_e_cons_missing_uartbase (c, f))
              (\<lambda>uartbase. parse_ok (upd_console_pip gi (\<lambda>p. p\<lparr> cp_type := CONS_TYPE_UART, cp_uartbase := uartbase \<rparr>) c) f)
        | Some (_, ldc_nodep) \<Rightarrow>
            md_prop md ldc_nodep (MDNAME c ''channel'')
              (parse_fail HVctl_st_badmd HVctl_e_cons_missing_ldc_id (c, f\<lparr> f_res_id := Some 0 \<rparr>)) (\<lambda>channel_id.
            if unat channel_id \<ge> MAX_LDC_CHANNELS
            then parse_fail HVctl_st_badmd HVctl_e_cons_invalid_ldc_id (c, f\<lparr> f_res_id := Some 0 \<rparr>)
            else parse_ok (upd_console_pip gi (\<lambda>p. p\<lparr> cp_type := CONS_TYPE_LDC, cp_ldc_channel := ucast channel_id \<rparr>) c) f)))"

definition res_console_parse_1 :: "bin_md \<Rightarrow> nat \<Rightarrow> parse_state \<Rightarrow> (parse_result + parse_state) hv" where
  "res_console_parse_1 md cons_nodep s =
     (case s of (c, f) \<Rightarrow>
      md_prop md cons_nodep (MDNAME c ''resource_id'')
        (parse_fail HVctl_st_badmd HVctl_e_cons_missing_id (c, f\<lparr> f_res_id := Some 0 \<rparr>)) (\<lambda>resource_id.
      let f = f\<lparr> f_res_id := Some (ucast resource_id) \<rparr> in
      hbind (md_find_node_by_arc md (Some cons_nodep) (MDARC (MDNAME c ''back'')) (MDNODE (MDNAME c ''guest''))) (\<lambda>r.
      case r of None \<Rightarrow> parse_fail HVctl_st_badmd HVctl_e_cons_missing_guest (c, f)
      | Some (_, guest_nodep) \<Rightarrow>
      md_prop md guest_nodep (MDNAME c ''resource_id'')
        (parse_fail HVctl_st_badmd HVctl_e_cons_missing_guest_id (c, f\<lparr> f_res_id := Some 0 \<rparr>)) (\<lambda>guest_id.
      if unat guest_id \<ge> NGUESTS
      then parse_fail HVctl_st_badmd HVctl_e_cons_invalid_guest_id (c, f\<lparr> f_res_id := Some 0 \<rparr>)
      else let gi = unat guest_id in
      parse_then (console_parse_type md cons_nodep gi (c, f)) (\<lambda>(c, f).
      md_prop md cons_nodep (MDNAME c ''ino'') (parse_fail HVctl_st_badmd HVctl_e_cons_missing_ino (c, f)) (\<lambda>ino.
      if unat ino \<ge> NINOSPERDEV then parse_fail HVctl_st_badmd HVctl_e_cons_invalid_ino (c, f)
      else let c = upd_console_pip gi (\<lambda>p. p\<lparr> cp_ino := ucast ino \<rparr>) c in
        hbind (console_elect (cfg_guests c gi)) (\<lambda>fl. parse_ok (set_console_flags gi fl c) f)))))))"

definition res_console_parse :: "parse_state \<Rightarrow> parse_result hv" where
  "res_console_parse = res_parse_nodes ''consoles'' ''console'' (with_failnode res_console_parse_1)"

definition res_console_postparse :: "parse_state \<Rightarrow> parse_result hv" where
  "res_console_postparse s = Inr (HVctl_st_ok, s)"

text \<open>\<open>ASSERT\<close>s of the endpoint a console uses.\<close>

definition console_endpoint_ok :: "ldc_endpoint \<Rightarrow> bool" where
  "console_endpoint_ok e \<longleftrightarrow> le_is_live e \<noteq> 0 \<and> le_is_private e \<noteq> 0 \<and> ucast (le_svc_id e) = LDC_CONSOLE_SVC"

text \<open>\<open>res_console_commit_config\<close>; \<open>queues\<close> is the address of \<open>cons_queues\<close>.\<close>

definition console_config_guest :: "u64 \<Rightarrow> guest \<Rightarrow> guest hv" where
  "console_config_guest queues g =
     (let k = g_console g; p = cons_pip k in
      hassert (cons_type k = CONS_TYPE_UNCONFIG)
      (if cp_type p = CONS_TYPE_UART
       then Inr (upd_console (\<lambda>k. k\<lparr> cons_type := CONS_TYPE_UART, cons_uartbase := cp_uartbase p \<rparr>) g)
       else hassert (cp_type p = CONS_TYPE_LDC)
        (let channelid = cp_ldc_channel p; j = unat channelid; ino = cp_ino p; m = unat ino mod NINOSPERDEV;
             g = upd_console (\<lambda>k. k\<lparr> cons_type := CONS_TYPE_LDC, cons_endpt := scast channelid,
                   cons_in_head := 0, cons_in_tail := 0, cons_status := LDC_CONS_READY \<rparr>) g in
         hguard (j < MAX_LDC_CHANNELS)
         (hassert (console_endpoint_ok (g_ldc_endpoint g j))
          (let g = upd_ldc j (\<lambda>e. e\<lparr> le_rx_vintr_cookie := Some m \<rparr>)
                (upd_console (\<lambda>k. k\<lparr> cons_vintr_mapreg := Some m \<rparr>) g);
               g = g\<lparr> g_mapreg := (g_mapreg g)(m := (g_mapreg g m)\<lparr> mr_ino := ino \<rparr>) \<rparr> in
           hbind (config_a_guest_device_vino (ucast ino) DEVOPS_VDEV g) (\<lambda>g.
           Inr (upd_ldc j (\<lambda>e. e\<lparr> le_tx_qbase_pa := cons_txq queues (g_guestid g),
                  le_rx_qbase_pa := cons_rxq queues (g_guestid g), le_tx_qsize := Q_EL_SIZE * LDC_CONS_QSIZE,
                  le_rx_qsize := Q_EL_SIZE * LDC_CONS_QSIZE \<rparr>) g)))))))"

definition res_console_commit_config :: "nat \<Rightarrow> config \<Rightarrow> config hv" where
  "res_console_commit_config gi c = upd_guest_hv gi (console_config_guest (cfg_cons_queues c)) c"

definition console_unconfig_guest :: "guest \<Rightarrow> guest hv" where
  "console_unconfig_guest g =
     (let k = g_console g; j = unat (cons_endpt k) in
      hassert (cons_type k \<noteq> CONS_TYPE_UNCONFIG)
      (if cons_type k = CONS_TYPE_UART then Inr (upd_console (\<lambda>k. k\<lparr> cons_type := CONS_TYPE_UNCONFIG \<rparr>) g)
       else hguard (j < MAX_LDC_CHANNELS)
        (hassert (console_endpoint_ok (g_ldc_endpoint g j))
         (case cons_vintr_mapreg k of None \<Rightarrow> Inl Bad_access
          | Some m \<Rightarrow>
              hbind (unconfig_a_guest_device_vino (ucast (mr_ino (g_mapreg g m))) DEVOPS_VDEV g) (\<lambda>g.
              Inr (upd_console (\<lambda>k. k\<lparr> cons_vintr_mapreg := None, cons_type := CONS_TYPE_UNCONFIG \<rparr>)
                (upd_ldc j (\<lambda>e. e\<lparr> le_rx_vintr_cookie := None, le_rx_qsize := 0, le_tx_qsize := 0 \<rparr>) g)))))))"

definition res_console_commit_unconfig :: "nat \<Rightarrow> config \<Rightarrow> config hv" where
  "res_console_commit_unconfig gi = upd_guest_hv gi console_unconfig_guest"

definition res_console_commit_modify :: "nat \<Rightarrow> config \<Rightarrow> config hv" where
  "res_console_commit_modify gi c =
     hassert (cons_type (g_console (cfg_guests c gi)) \<noteq> CONS_TYPE_UNCONFIG)
       (hbind (res_console_commit_unconfig gi c) (res_console_commit_config gi))"

definition res_console_commit_1 :: "u8 \<Rightarrow> nat \<Rightarrow> config \<Rightarrow> config hv" where
  "res_console_commit_1 flag i c =
     (let fl = cp_flags (cons_pip (g_console (cfg_guests c i))) in
      if fl \<noteq> flag then Inr c
      else hbind (res_switch fl (Inr c) (res_console_commit_unconfig i c) (res_console_commit_config i c)
             (Inl Assert_fail) (res_console_commit_modify i c)) (\<lambda>c.
           Inr (set_console_flags i RESF_Noop c)))"

definition res_console_commit :: "u8 \<Rightarrow> config \<Rightarrow> config hv" where
  "res_console_commit flag = hfold (res_console_commit_1 flag) [0..<NGUESTS]"

subsection \<open>What configuring and removing a console does\<close>

lemma vdev_vino_eqs:
  "config_a_guest_device_vino ino DEVOPS_VDEV g = Inr g' \<longleftrightarrow> g_vdev_cfghandle g \<noteq> INVALID_CFGHANDLE \<and>
     unat (g_vdev_cfghandle g + ino) < NVINOS \<and>
     g' = g\<lparr> g_vino2inst := (g_vino2inst g)(unat (g_vdev_cfghandle g + ino) := DEVOPS_VDEV) \<rparr>"
  "unconfig_a_guest_device_vino ino DEVOPS_VDEV g = Inr g' \<longleftrightarrow> g_vdev_cfghandle g \<noteq> INVALID_CFGHANDLE \<and>
     unat (g_vdev_cfghandle g + ino) < NVINOS \<and>
     g' = g\<lparr> g_vino2inst := (g_vino2inst g)(unat (g_vdev_cfghandle g + ino) := DEVOPS_RESERVED) \<rparr>"
  by (auto simp: config_a_guest_device_vino_def unconfig_a_guest_device_vino_def
      cfghandle_of_type_def Let_def hassert_eq_Inr hguard_eq_Inr)

lemma console_type_distinct [simp]:
  "CONS_TYPE_UART \<noteq> CONS_TYPE_UNCONFIG" "CONS_TYPE_LDC \<noteq> CONS_TYPE_UNCONFIG" "CONS_TYPE_LDC \<noteq> CONS_TYPE_UART"
  "CONS_TYPE_UNCONFIG \<noteq> CONS_TYPE_UART" "CONS_TYPE_UNCONFIG \<noteq> CONS_TYPE_LDC" "CONS_TYPE_UART \<noteq> CONS_TYPE_LDC"
  by (simp_all add: CONS_TYPE_UART_def CONS_TYPE_UNCONFIG_def CONS_TYPE_LDC_def)

lemma console_config_guest_eq:
  "console_config_guest queues g = Inr g' \<longleftrightarrow>
     (let k = g_console g; p = cons_pip k; j = unat (cp_ldc_channel p); m = unat (cp_ino p) mod NINOSPERDEV;
          v = g_vdev_cfghandle g + ucast (cp_ino p) in
      cons_type k = CONS_TYPE_UNCONFIG \<and>
      (cp_type p = CONS_TYPE_UART \<and>
         g' = upd_console (\<lambda>k. k\<lparr> cons_type := CONS_TYPE_UART, cons_uartbase := cp_uartbase p \<rparr>) g \<or>
       cp_type p = CONS_TYPE_LDC \<and> j < MAX_LDC_CHANNELS \<and> console_endpoint_ok (g_ldc_endpoint g j) \<and>
         g_vdev_cfghandle g \<noteq> INVALID_CFGHANDLE \<and> unat v < NVINOS \<and>
         g' = g\<lparr> g_console := k\<lparr> cons_type := CONS_TYPE_LDC, cons_endpt := scast (cp_ldc_channel p),
                   cons_in_head := 0, cons_in_tail := 0, cons_status := LDC_CONS_READY, cons_vintr_mapreg := Some m \<rparr>,
                 g_vino2inst := (g_vino2inst g)(unat v := DEVOPS_VDEV),
                 g_mapreg := (g_mapreg g)(m := (g_mapreg g m)\<lparr> mr_ino := cp_ino p \<rparr>),
                 g_ldc_endpoint := (g_ldc_endpoint g)(j := (g_ldc_endpoint g j)\<lparr> le_rx_vintr_cookie := Some m,
                   le_tx_qbase_pa := cons_txq queues (g_guestid g), le_rx_qbase_pa := cons_rxq queues (g_guestid g),
                   le_tx_qsize := Q_EL_SIZE * LDC_CONS_QSIZE, le_rx_qsize := Q_EL_SIZE * LDC_CONS_QSIZE \<rparr>) \<rparr>))"
  unfolding console_config_guest_def Let_def hassert_eq_Inr
  by (cases "cp_type (cons_pip (g_console g)) = CONS_TYPE_UART")
    (auto simp: hbind_eq_Inr hguard_eq_Inr hassert_eq_Inr vdev_vino_eqs upd_ldc_def upd_console_def)

lemma console_unconfig_guest_eq:
  "console_unconfig_guest g = Inr g' \<longleftrightarrow>
     (let k = g_console g; j = unat (cons_endpt k) in
      cons_type k \<noteq> CONS_TYPE_UNCONFIG \<and>
      (cons_type k = CONS_TYPE_UART \<and> g' = upd_console (\<lambda>k. k\<lparr> cons_type := CONS_TYPE_UNCONFIG \<rparr>) g \<or>
       cons_type k \<noteq> CONS_TYPE_UART \<and> j < MAX_LDC_CHANNELS \<and> console_endpoint_ok (g_ldc_endpoint g j) \<and>
       (\<exists>m. cons_vintr_mapreg k = Some m \<and>
         (let v = g_vdev_cfghandle g + ucast (mr_ino (g_mapreg g m)) in
          g_vdev_cfghandle g \<noteq> INVALID_CFGHANDLE \<and> unat v < NVINOS \<and>
          g' = g\<lparr> g_console := k\<lparr> cons_vintr_mapreg := None, cons_type := CONS_TYPE_UNCONFIG \<rparr>,
                 g_vino2inst := (g_vino2inst g)(unat v := DEVOPS_RESERVED),
                 g_ldc_endpoint := (g_ldc_endpoint g)(j := (g_ldc_endpoint g j)\<lparr> le_rx_vintr_cookie := None,
                   le_rx_qsize := 0, le_tx_qsize := 0 \<rparr>) \<rparr>))))"
  unfolding console_unconfig_guest_def Let_def hassert_eq_Inr
  by (cases "cons_type (g_console g) = CONS_TYPE_UART")
    (auto simp: hbind_eq_Inr hguard_eq_Inr hassert_eq_Inr vdev_vino_eqs upd_ldc_def upd_console_def split: option.splits)

text \<open>Neither touches the proposals of the guest, its endpoints or its console.\<close>

lemma console_steps_live:
  "console_config_guest queues g = Inr g' \<Longrightarrow> cons_type (g_console g') \<noteq> CONS_TYPE_UNCONFIG"
  "console_unconfig_guest g = Inr g' \<Longrightarrow> cons_type (g_console g') = CONS_TYPE_UNCONFIG"
  by (auto simp: console_config_guest_eq console_unconfig_guest_eq Let_def upd_console_def)

lemma console_flags_upd:
  "g_console (cfg_guests (set_console_flags i fl c) j) = (if j = i
     then (g_console (cfg_guests c i))\<lparr> cons_pip := (cons_pip (g_console (cfg_guests c i)))\<lparr> cp_flags := fl \<rparr> \<rparr>
     else g_console (cfg_guests c j))"
  by (simp add: set_console_flags_def upd_console_pip_def upd_guest_def upd_console_def)

lemma res_console_commit_1_done:
  assumes "res_console_commit_1 fl i c = Inr c'" "cp_flags (cons_pip (g_console (cfg_guests c i))) = fl"
  obtains "fl = RESF_Noop" "c' = set_console_flags i RESF_Noop c"
    | g' where "fl \<noteq> RESF_Noop" "c' = set_console_flags i RESF_Noop (upd_guest i (\<lambda>_. g') c)"
        "cons_type (g_console g') \<noteq> CONS_TYPE_UNCONFIG \<longleftrightarrow> fl = RESF_Config \<or> fl \<noteq> RESF_Unconfig \<and>
           cons_type (g_console (cfg_guests c i)) \<noteq> CONS_TYPE_UNCONFIG"
proof -
  have distinct: "RESF_Unconfig \<noteq> RESF_Config" "RESF_Modify \<noteq> RESF_Unconfig" "RESF_Modify \<noteq> RESF_Config"
    "RESF_Unconfig \<noteq> RESF_Noop" "RESF_Config \<noteq> RESF_Noop" "RESF_Modify \<noteq> RESF_Noop"
    by (simp_all add: RESF_Noop_def RESF_Unconfig_def RESF_Config_def RESF_Modify_def)
  from assms obtain c1 where sw: "res_switch fl (Inr c) (res_console_commit_unconfig i c)
      (res_console_commit_config i c) (Inl Assert_fail) (res_console_commit_modify i c) = Inr c1"
    and c': "c' = set_console_flags i RESF_Noop c1"
    by (auto simp: res_console_commit_1_def Let_def hbind_eq_Inr)
  from sw show thesis
  proof (cases rule: res_switch_cases)
    case Noop
    then show ?thesis using c' that(1) by simp
  next
    case Unconfig
    then obtain g' where "console_unconfig_guest (cfg_guests c i) = Inr g'" "c1 = upd_guest i (\<lambda>_. g') c"
      by (auto simp: res_console_commit_unconfig_def upd_guest_hv_eq)
    then show ?thesis using c' that(2) [of g'] console_steps_live(2) distinct Unconfig by auto
  next
    case Config
    then obtain g' where "console_config_guest (cfg_cons_queues c) (cfg_guests c i) = Inr g'" "c1 = upd_guest i (\<lambda>_. g') c"
      by (auto simp: res_console_commit_config_def upd_guest_hv_eq)
    then show ?thesis using c' that(2) [of g'] console_steps_live(1) distinct Config by auto
  next
    case Modify
    then obtain g1 g' where "cons_type (g_console (cfg_guests c i)) \<noteq> CONS_TYPE_UNCONFIG"
      "console_config_guest (cfg_cons_queues c) g1 = Inr g'" "c1 = upd_guest i (\<lambda>_. g') c"
      by (auto simp: res_console_commit_modify_def res_console_commit_config_def res_console_commit_unconfig_def
          upd_guest_hv_eq hassert_eq_Inr hbind_eq_Inr upd_guest_def)
    then show ?thesis using c' that(2) [of g'] console_steps_live(1) distinct Modify by auto
  qed simp
qed

lemma res_console_commit_1_facts:
  assumes "res_console_commit_1 fl i c = Inr c'" "cp_flags (cons_pip (g_console (cfg_guests c i))) = fl"
  shows "cp_flags (cons_pip (g_console (cfg_guests c' i))) = RESF_Noop"
    and "cons_type (g_console (cfg_guests c' i)) \<noteq> CONS_TYPE_UNCONFIG \<longleftrightarrow> fl = RESF_Config \<or> fl \<noteq> RESF_Unconfig \<and>
      cons_type (g_console (cfg_guests c i)) \<noteq> CONS_TYPE_UNCONFIG"
    and "j \<noteq> i \<Longrightarrow> g_console (cfg_guests c' j) = g_console (cfg_guests c j)"
  using assms
  by (atomize (full), elim res_console_commit_1_done)
    (auto simp: console_flags_upd upd_guest_def RESF_Noop_def RESF_Config_def RESF_Unconfig_def)

lemma res_console_commit_1_other:
  "cp_flags (cons_pip (g_console (cfg_guests c i))) \<noteq> fl \<Longrightarrow> res_console_commit_1 fl i c = Inr c"
  by (simp add: res_console_commit_1_def)

lemma res_console_commit_1_others:
  "res_console_commit_1 fl i c = Inr c' \<Longrightarrow> j \<noteq> i \<Longrightarrow> g_console (cfg_guests c' j) = g_console (cfg_guests c j)"
  using res_console_commit_1_facts(3) [of fl i c c' j] res_console_commit_1_other [of c i fl]
  by (cases "cp_flags (cons_pip (g_console (cfg_guests c i))) = fl") auto

interpretation consoles: resource_kind "[0..<NGUESTS]" "\<lambda>c i. cp_flags (cons_pip (g_console (cfg_guests c i)))"
  res_console_commit_1 "\<lambda>_. True" "\<lambda>c i. cons_type (g_console (cfg_guests c i)) \<noteq> CONS_TYPE_UNCONFIG"
proof (unfold_locales, goal_cases)
  case (2 c i fl)
  then show ?case by (rule res_console_commit_1_other)
next
  case (4 i c fl c')
  then show ?case by (intro res_console_commit_1_facts(1))
next
  case (5 i c fl c' j)
  then show ?case using res_console_commit_1_others [of fl i c c' j] by simp
next
  case (6 i c fl c')
  then show ?case by (intro res_console_commit_1_facts(2))
next
  case (7 i c fl c' j)
  then show ?case using res_console_commit_1_others [of fl i c c' j] by simp
qed simp_all

subsection \<open>Properties\<close>

text \<open>
  C9. Once the console of a guest has been configured, parsing the same console
  node again finds nothing to do when the console is an LDC channel.  When it is
  a UART, configuring it has set no interrupt mapping register, and looking the
  register up again goes through a NULL pointer.
\<close>

theorem console_elect_again:
  assumes "console_config_guest queues g = Inr g'"
  shows "(cp_type (cons_pip (g_console g)) = CONS_TYPE_LDC \<longrightarrow> console_elect g' = Inr RESF_Noop) \<and>
    (cp_type (cons_pip (g_console g)) = CONS_TYPE_UART \<and> cons_vintr_mapreg (g_console g) = None \<longrightarrow>
       console_elect g' = Inl Bad_access)"
  using assms by (auto simp: console_config_guest_eq Let_def console_elect_def upd_console_def)

definition console_guest :: "u8 \<Rightarrow> guest" where
  "console_guest ty = guest_zero\<lparr>
     g_console := console_zero\<lparr> cons_pip := \<lparr> cp_flags = RESF_Config, cp_type = ty, cp_ino = 3, cp_ldc_channel = 5,
        cp_uartbase = 0x1f10000000 \<rparr> \<rparr>,
     g_ldc_endpoint := \<lambda>_. ldc_endpoint_zero\<lparr> le_is_live := 1, le_is_private := 1, le_svc_id := 2 \<rparr> \<rparr>"

lemmas console_guest_simps = console_guest_def guest_zero_def console_zero_def ldc_endpoint_zero_def
  console_endpoint_ok_def CONS_TYPE_UNCONFIG_def CONS_TYPE_LDC_def CONS_TYPE_UART_def LDC_CONSOLE_SVC_def
  INVALID_CFGHANDLE_def NVINOS_def NINOSPERDEV_def NDEVIDS_def MAX_LDC_CHANNELS_def

lemma console_guest_configs:
  "\<exists>g'. console_config_guest q (console_guest CONS_TYPE_LDC) = Inr g'"
  "\<exists>g'. console_config_guest q (console_guest CONS_TYPE_UART) = Inr g'"
  by (simp_all add: console_config_guest_eq Let_def console_guest_simps upd_console_def)

theorem console_elect_again_witness:
  "(\<exists>g'. console_config_guest 0x4000 (console_guest CONS_TYPE_LDC) = Inr g' \<and> console_elect g' = Inr RESF_Noop) \<and>
   (\<exists>g'. console_config_guest 0x4000 (console_guest CONS_TYPE_UART) = Inr g' \<and> console_elect g' = Inl Bad_access)"
proof -
  have "cons_vintr_mapreg (g_console (console_guest ty)) = None" "cp_type (cons_pip (g_console (console_guest ty))) = ty" for ty
    by (simp_all add: console_guest_def console_zero_def)
  with console_guest_configs [where q = "0x4000"] show ?thesis
    using console_elect_again [of "0x4000" "console_guest CONS_TYPE_LDC"]
      console_elect_again [of "0x4000" "console_guest CONS_TYPE_UART"] by fastforce
qed

text \<open>The bytes a queue of an endpoint occupies.\<close>

definition queue_bytes :: "u64 \<Rightarrow> u64 \<Rightarrow> nat set" where
  "queue_bytes base qsize = {unat base ..< unat base + unat qsize}"

definition endpoint_bytes :: "ldc_endpoint \<Rightarrow> nat set" where
  "endpoint_bytes e = queue_bytes (le_rx_qbase_pa e) (le_rx_qsize e) \<union> queue_bytes (le_tx_qbase_pa e) (le_tx_qsize e)"

lemma unat_scast_small:
  fixes x :: u32
  assumes "unat x < 2 ^ 31"
  shows "unat (scast x :: u64) = unat x"
proof -
  have "uint x < 2 ^ 31" using assms of_nat_less_iff [of "unat x" "2 ^ 31", where 'a = int] by simp
  then have "sint x = uint x"
    unfolding sint_uint by (intro signed_take_bit_int_eq_self) (rule order_trans [OF _ uint_ge_0], simp_all)
  then have "(scast x :: u64) = ucast x" by (metis of_int_sint of_int_uint)
  then show ?thesis using assms by (simp add: unsigned_ucast_eq take_bit_nat_eq_self)
qed

lemma cons_queue_addresses:
  assumes "unat q + NGUESTS * 0x4000 \<le> 2 ^ 64" "unat i < NGUESTS"
  shows "unat (cons_rxq q i) = unat q + unat i * 0x4000" "unat (cons_txq q i) = unat q + unat i * 0x4000 + 0x2000"
proof -
  have lt: "unat q + unat i * 0x4000 + 0x2000 < 2 ^ 64" "unat i * 0x4000 < 2 ^ 64"
    using assms by (simp_all add: NGUESTS_def)
  have m: "unat (i * 0x4000) = unat i * 0x4000"
    using lt(2) by (simp add: unat_word_ariths)
  show r: "unat (cons_rxq q i) = unat q + unat i * 0x4000"
    using lt(1) m by (simp add: cons_rxq_def Q_EL_SIZE_def LDC_CONS_QSIZE_def unat_word_ariths)
  show "unat (cons_txq q i) = unat q + unat i * 0x4000 + 0x2000"
    using lt(1) r by (simp add: cons_txq_def Q_EL_SIZE_def LDC_CONS_QSIZE_def unat_word_ariths)
qed

lemma console_endpoint_bytes:
  assumes "console_config_guest q g = Inr g'" "cons_type (g_console g') = CONS_TYPE_LDC"
    and "unat q + NGUESTS * 0x4000 \<le> 2 ^ 64" "unat (g_guestid g) < NGUESTS"
    and "e = g_ldc_endpoint g' (unat (cons_endpt (g_console g')))"
  shows "endpoint_bytes e = {unat q + unat (g_guestid g) * 0x4000 ..< unat q + unat (g_guestid g) * 0x4000 + 0x4000}"
    and "queue_bytes (le_rx_qbase_pa e) (le_rx_qsize e) \<inter> queue_bytes (le_tx_qbase_pa e) (le_tx_qsize e) = {}"
proof -
  let ?j = "cp_ldc_channel (cons_pip (g_console g))"
  have ty: "cp_type (cons_pip (g_console g)) = CONS_TYPE_LDC" and j: "unat ?j < MAX_LDC_CHANNELS"
    using assms(1,2) by (auto simp: console_config_guest_eq Let_def upd_console_def)
  have "unat (scast ?j :: u64) = unat ?j"
    using j by (intro unat_scast_small) (simp add: MAX_LDC_CHANNELS_def)
  with assms(1,5) ty have e: "le_rx_qbase_pa e = cons_rxq q (g_guestid g)" "le_tx_qbase_pa e = cons_txq q (g_guestid g)"
    "le_rx_qsize e = 0x2000" "le_tx_qsize e = 0x2000"
    by (auto simp: console_config_guest_eq Let_def Q_EL_SIZE_def LDC_CONS_QSIZE_def)
  show "endpoint_bytes e = {unat q + unat (g_guestid g) * 0x4000 ..< unat q + unat (g_guestid g) * 0x4000 + 0x4000}"
    "queue_bytes (le_rx_qbase_pa e) (le_rx_qsize e) \<inter> queue_bytes (le_tx_qbase_pa e) (le_tx_qsize e) = {}"
    by (auto simp: endpoint_bytes_def queue_bytes_def e cons_queue_addresses [OF assms(3,4)])
qed

text \<open>
  C10. The queues of LDC consoles are private: when the consoles of two different
  guests have been configured, the receive and transmit queue of each lie inside the array
  \<open>cons_queues\<close> (0x4000 bytes for each guest, from \<open>q\<close> on), apart from each other and from both queues
  of the other guest, provided the array does not wrap around the address space.
\<close>

theorem console_queues_private:
  assumes "console_config_guest q g = Inr g'" "cons_type (g_console g') = CONS_TYPE_LDC"
    and "console_config_guest q h = Inr h'" "cons_type (g_console h') = CONS_TYPE_LDC"
    and "unat (g_guestid g) < NGUESTS" "unat (g_guestid h) < NGUESTS" "g_guestid g \<noteq> g_guestid h"
    and "unat q + NGUESTS * 0x4000 \<le> 2 ^ 64"
  shows "let e = g_ldc_endpoint g' (unat (cons_endpt (g_console g')));
      e' = g_ldc_endpoint h' (unat (cons_endpt (g_console h'))) in
    endpoint_bytes e \<inter> endpoint_bytes e' = {} \<and>
    queue_bytes (le_rx_qbase_pa e) (le_rx_qsize e) \<inter> queue_bytes (le_tx_qbase_pa e) (le_tx_qsize e) = {} \<and>
    endpoint_bytes e \<union> endpoint_bytes e' \<subseteq> {unat q ..< unat q + NGUESTS * 0x4000} \<and>
    card (endpoint_bytes e) = 0x4000"
proof -
  note g = console_endpoint_bytes [OF assms(1,2,8,5) refl] and h = console_endpoint_bytes [OF assms(3,4,8,6) refl]
  have ne: "unat (g_guestid g) \<noteq> unat (g_guestid h)" using assms(7) by (simp add: word_unat_eq_iff)
  have "k * 0x4000 + 0x4000 \<le> NGUESTS * 0x4000" if "k < NGUESTS" for k :: nat
    using that by (simp add: NGUESTS_def)
  from this [OF assms(5)] this [OF assms(6)]
  have "endpoint_bytes (g_ldc_endpoint g' (unat (cons_endpt (g_console g')))) \<subseteq> {unat q ..< unat q + NGUESTS * 0x4000}"
    "endpoint_bytes (g_ldc_endpoint h' (unat (cons_endpt (g_console h')))) \<subseteq> {unat q ..< unat q + NGUESTS * 0x4000}"
    unfolding g(1) h(1) by auto
  then show ?thesis using g h ne by (auto simp: Let_def)
qed

theorem console_queues_private_witness:
  "\<exists>g' h'. console_config_guest 0x4000 (console_guest CONS_TYPE_LDC) = Inr g' \<and>
     console_config_guest 0x4000 ((console_guest CONS_TYPE_LDC)\<lparr> g_guestid := 1 \<rparr>) = Inr h' \<and>
     endpoint_bytes (g_ldc_endpoint g' (unat (cons_endpt (g_console g')))) \<inter>
     endpoint_bytes (g_ldc_endpoint h' (unat (cons_endpt (g_console h')))) = {}"
proof -
  let ?g = "console_guest CONS_TYPE_LDC"
  have "\<exists>g'. console_config_guest 0x4000 ?g = Inr g' \<and> cons_type (g_console g') = CONS_TYPE_LDC"
    "\<exists>h'. console_config_guest 0x4000 (?g\<lparr> g_guestid := 1 \<rparr>) = Inr h' \<and> cons_type (g_console h') = CONS_TYPE_LDC"
    by (simp_all add: console_config_guest_eq Let_def console_guest_simps)
  then obtain g' h' where g': "console_config_guest 0x4000 ?g = Inr g'" "cons_type (g_console g') = CONS_TYPE_LDC"
    and h': "console_config_guest 0x4000 (?g\<lparr> g_guestid := 1 \<rparr>) = Inr h'" "cons_type (g_console h') = CONS_TYPE_LDC"
    by blast
  from console_queues_private [OF g' h'] g' h' show ?thesis
    by (auto simp: Let_def console_guest_def guest_zero_def NGUESTS_def)
qed

end
