(* ===== verification/Res_Mau.thy ===== *)
theory Res_Mau
  imports Res_Console
begin

text \<open>
  Crypto units (\<open>res_mau.c\<close>): a modular arithmetic unit is shared by the strands
  of a core; \<open>cpuset\<close> is the set of those that use it.  The assembler routine
  \<open>setup_mau\<close> (\<open>hcall_ncs.s\<close>), through which the C code adds a strand, is modelled
  here as well.
\<close>

definition STRANDID_2_COREID_SHIFT :: nat where "STRANDID_2_COREID_SHIFT = 2"
definition NSTRANDS_PER_CORE_MASK :: u64 where "NSTRANDS_PER_CORE_MASK = 3"
definition MAU_HANDLE_SIG :: u64 where "MAU_HANDLE_SIG = 0x0864"
definition HANDLE_IDMASK :: u64 where "HANDLE_IDMASK = 0xfff"
definition HANDLE_IDSHIFT :: nat where "HANDLE_IDSHIFT = 16"

definition upd_mau_pip :: "nat \<Rightarrow> (mau_parse_info \<Rightarrow> mau_parse_info) \<Rightarrow> config \<Rightarrow> config" where
  "upd_mau_pip i u = upd_mau i (\<lambda>m. m\<lparr> mau_pip := u (mau_pip m) \<rparr>)"

definition set_mau_flags :: "nat \<Rightarrow> u8 \<Rightarrow> config \<Rightarrow> config" where
  "set_mau_flags i fl = upd_mau_pip i (\<lambda>p. p\<lparr> mp_flags := fl \<rparr>)"

definition res_mau_prep :: "config \<Rightarrow> config hv" where
  "res_mau_prep = hfold (\<lambda>i c. Inr (upd_mau i (\<lambda>m. m\<lparr> mau_pip := (mau_pip m)\<lparr>
       mp_flags := (if mau_state m = MAU_STATE_UNCONFIGURED then RESF_Noop else RESF_Unconfig),
       mp_cpuset := 0 \<rparr> \<rparr>) c)) [0..<NMAUS]"

text \<open>
  The loop of \<open>res_mau_parse_1\<close> over the cpus of a mau.  The loop state has, besides
  the configuration, the locals \<open>maup\<close> and \<open>gid\<close>: \<open>None\<close> until the first cpu has
  been seen.
\<close>

type_synonym mau_parse_locals = "parse_state \<times> (nat \<times> u64) option"

definition mau_parse_cpu :: "bin_md \<Rightarrow> nat \<Rightarrow> mau_parse_locals \<Rightarrow> (parse_result + mau_parse_locals) hv" where
  "mau_parse_cpu md cpunodep s = (case s of ((c, f), maup) \<Rightarrow>
     let fail = (\<lambda>code c f. Inr (Inl (HVctl_st_badmd, c, f\<lparr> f_code := Some code \<rparr>))) in
     md_prop md cpunodep (MDNAME c ''pid'') (fail HVctl_e_mau_missing_strandid c f) (\<lambda>strand_id.
     if unat strand_id \<ge> NSTRANDS then fail HVctl_e_mau_invalid_strandid c f
     else hbind (case maup of
         Some (i, _) \<Rightarrow> Inr (i, c, f)
       | None \<Rightarrow>
           (let mau_id = unat (drop_bit STRANDID_2_COREID_SHIFT strand_id) in
            hassert (mau_id < NMAUS)
             (Inr (mau_id, upd_mau_pip mau_id (\<lambda>p. p\<lparr> mp_cpuset := 0 \<rparr>) c, f\<lparr> f_res_id := Some (of_nat mau_id) \<rparr>))))
      (\<lambda>(i, c, f).
       let thread_id = unat (strand_id AND NSTRANDS_PER_CORE_MASK);
           c = upd_mau_pip i (\<lambda>p. p\<lparr> mp_cpuset := mp_cpuset p OR push_bit thread_id 1 \<rparr>) c in
       hbind (md_find_node_by_arc md (Some cpunodep) (MDARC (MDNAME c ''back'')) (MDNODE (MDNAME c ''guest''))) (\<lambda>r.
       case r of None \<Rightarrow> fail HVctl_e_mau_missing_guest c f
       | Some (_, guestnodep) \<Rightarrow>
       md_prop md guestnodep (MDNAME c ''resource_id'') (fail HVctl_e_guest_missing_id c f) (\<lambda>gid.
       if unat gid \<ge> NGUESTS then fail HVctl_e_guest_invalid_id c f
       else Inr (Inr ((upd_mau_pip i (\<lambda>p. p\<lparr> mp_guestid := ucast gid \<rparr>) c, f), Some (i, gid))))))))"

text \<open>The last part of \<open>res_mau_parse_1\<close>.  The unit whose description is unchanged but for
  the strands is modified.\<close>

definition mau_elect :: "nat \<Rightarrow> u64 \<Rightarrow> u64 \<Rightarrow> parse_state \<Rightarrow> (parse_result + parse_state) hv" where
  "mau_elect i gid ino s = (case s of (c, f) \<Rightarrow>
     let m = cfg_maus c i in
     if mau_state m = MAU_STATE_UNCONFIGURED then parse_ok (set_mau_flags i RESF_Config c) f
     else hbind (if mau_pid m \<noteq> scast (mp_pid (mau_pip m)) then Inr False
                 else case mau_guest m of None \<Rightarrow> Inl Bad_access
                      | Some gi \<Rightarrow> Inr (g_guestid (cfg_guests c gi) = gid \<and> mau_ino m = ino)) (\<lambda>same.
       if same \<and> mau_cpuset m \<noteq> mp_cpuset (mau_pip m) then parse_ok (set_mau_flags i RESF_Modify c) f
       else if same then parse_ok (set_mau_flags i RESF_Noop c) f
       else parse_fail HVctl_st_badmd HVctl_e_mau_rebind_na (c, f)))"

definition res_mau_parse_1 :: "bin_md \<Rightarrow> nat \<Rightarrow> parse_state \<Rightarrow> (parse_result + parse_state) hv" where
  "res_mau_parse_1 md maunodep s =
     (case s of (c0, f0) \<Rightarrow>
      parse_then (md_foreach md maunodep (MDARC (MDNAME c0 ''back'')) (MDNODE (MDNAME c0 ''cpu'')) (mau_parse_cpu md) (s, None))
       (\<lambda>((c, f), maup).
      md_prop md maunodep (MDNAME c ''ino'') (parse_fail HVctl_st_badmd HVctl_e_mau_missing_ino (c, f)) (\<lambda>ino.
      case maup of None \<Rightarrow> Inl Bad_access
      | Some (i, gid) \<Rightarrow>
          mau_elect i gid ino (upd_mau_pip i (\<lambda>p. p\<lparr> mp_pid := of_nat i, mp_ino := ucast ino \<rparr>) c, f))))"

definition res_mau_parse :: "parse_state \<Rightarrow> parse_result hv" where
  "res_mau_parse = res_parse_nodes ''maus'' ''mau'' (with_failnode res_mau_parse_1)"

definition res_mau_postparse :: "parse_state \<Rightarrow> parse_result hv" where
  "res_mau_postparse s = Inr (HVctl_st_ok, s)"

text \<open>The first vcpu in the table that runs on the strand.\<close>

definition strand_in_vcpu_list :: "u64 \<Rightarrow> config \<Rightarrow> nat option" where
  "strand_in_vcpu_list strand_id c = List.find (\<lambda>i. case v_strand (cfg_vcpus c i) of None \<Rightarrow> False
     | Some s \<Rightarrow> ucast (st_id (cfg_strands c s)) = strand_id) [0..<NVCPUS]"

definition mau_clear_queue :: "mau \<Rightarrow> mau" where
  "mau_clear_queue m = m\<lparr> mau_queue := \<lparr> mq_base_ra = 0, mq_base = 0, mq_end = 0, mq_head = 0, mq_tail = 0,
     mq_nentries = 0, mq_busy = 0 \<rparr> \<rparr>"

text \<open>
  \<open>setup_mau\<close>: the strand of the vcpu is entered in the cpuset of the unit; the first
  one also gives the unit its handle and interrupt and makes it run.  Registering
  the interrupt writes through the guest of the vcpu, when the number is in range.
\<close>

definition c_setup_mau :: "nat \<Rightarrow> u64 \<Rightarrow> config \<Rightarrow> config hv" where
  "c_setup_mau vi ino c =
     (case v_maup (cfg_vcpus c vi) of None \<Rightarrow> Inr c
      | Some i \<Rightarrow>
          (let m = cfg_maus c i in
           if unat (mau_pid m) \<ge> NMAUS then Inr c
           else case v_strand (cfg_vcpus c vi) of None \<Rightarrow> Inl Bad_access
           | Some s \<Rightarrow>
             (let thread_id = unat ((ucast (st_id (cfg_strands c s)) :: u64) AND NSTRANDS_PER_CORE_MASK);
                  this = push_bit thread_id 1 in
              if mau_cpuset m AND this \<noteq> 0 then Inr c
              else let cpuset = mau_cpuset m OR this;
                       m = m\<lparr> mau_cpuset := cpuset, mau_cpu_active := (mau_cpu_active m)(thread_id := 0xff) \<rparr> in
                if cpuset \<noteq> this then Inr (upd_mau i (\<lambda>_. m) c)
                else hguard (unat ino \<ge> NINOSPERDEV \<or> v_guest (cfg_vcpus c vi) \<noteq> None)
                  (Inr (upd_mau i (\<lambda>_. (mau_clear_queue m)\<lparr>
                     mau_handle := push_bit HANDLE_IDSHIFT (mau_pid m AND HANDLE_IDMASK) OR MAU_HANDLE_SIG,
                     mau_ino := ino, mau_state := MAU_STATE_RUNNING \<rparr>) c)))))"

definition setup_a_mau :: "nat \<Rightarrow> nat \<Rightarrow> u64 \<Rightarrow> config \<Rightarrow> config hv" where
  "setup_a_mau vi i ino c = hbind (c_setup_mau vi ino c) (\<lambda>c.
     Inr (upd_mau i (\<lambda>m. m\<lparr> mau_guest := v_guest (cfg_vcpus c vi) \<rparr>) c))"

text \<open>\<open>maup->guest->...\<close>\<close>

definition with_mau_guest :: "nat \<Rightarrow> (guest \<Rightarrow> guest hv) \<Rightarrow> config \<Rightarrow> config hv" where
  "with_mau_guest i k c = (case mau_guest (cfg_maus c i) of None \<Rightarrow> Inl Bad_access | Some gi \<Rightarrow> upd_guest_hv gi k c)"

definition mau_bind_strand :: "nat \<Rightarrow> nat \<Rightarrow> config \<Rightarrow> config hv" where
  "mau_bind_strand i t c =
     (let m = cfg_maus c i; strand_num = push_bit STRANDID_2_COREID_SHIFT (mau_pid m) + of_nat t in
      if mp_cpuset (mau_pip m) AND push_bit t 1 = 0 then Inr c
      else case strand_in_vcpu_list strand_num c of None \<Rightarrow> Inl Hv_abort
      | Some vi \<Rightarrow>
          hbind (setup_a_mau vi i (scast (mp_ino (mau_pip m))) (upd_vcpu vi (\<lambda>v. v\<lparr> v_maup := Some i \<rparr>) c)) (\<lambda>c.
          with_mau_guest i (config_a_guest_device_vino (scast (mp_ino (mau_pip m))) DEVOPS_VDEV) c))"

definition res_mau_commit_config :: "nat \<Rightarrow> config \<Rightarrow> config hv" where
  "res_mau_commit_config i c =
     (let c = upd_mau i (\<lambda>m. m\<lparr> mau_pid := scast (mp_pid (mau_pip m)) \<rparr>) c; m = cfg_maus c i;
          gi = unat (mp_guestid (mau_pip m)); p = unat (mau_pid m) in
      hbind (upd_guest_hv gi (\<lambda>g.
          hassert (g_guestid g = scast (mp_guestid (mau_pip m)))
          (hguard (p < NMAUS)
          (hassert (g_maus g p = None)
            (Inr (g\<lparr> g_maus := (g_maus g)(p := Some i) \<rparr>))))) c)
        (hfold (mau_bind_strand i) [0..<NSTRANDS_PER_CORE]))"

definition init_mau :: "mau \<Rightarrow> mau" where
  "init_mau = mau_clear_queue"

definition unconfig_strand_from_mau :: "nat \<Rightarrow> u64 \<Rightarrow> config \<Rightarrow> config hv" where
  "unconfig_strand_from_mau i strand_num c =
     (let m = cfg_maus c i; p = unat (mau_pid m); thread_id = unat (strand_num AND NSTRANDS_PER_CORE_MASK) in
      case mau_guest m of None \<Rightarrow> Inl Bad_access
      | Some gi \<Rightarrow>
          hguard (gi < NGUESTS \<and> p < NMAUS)
          (hassert (g_maus (cfg_guests c gi) p \<noteq> None)
          (hassert (mau_state m \<noteq> MAU_STATE_UNCONFIGURED)
           (let m = m\<lparr> mau_cpu_active := (mau_cpu_active m)(thread_id := 0),
                  mau_cpuset := mau_cpuset m AND NOT (push_bit thread_id 1) \<rparr> in
            if mau_cpuset m \<noteq> 0 then Inr (upd_mau i (\<lambda>_. m) c)
            else Inr (upd_guest gi (\<lambda>g. g\<lparr> g_maus := (g_maus g)(p := None) \<rparr>)
                   (upd_mau i (\<lambda>_. (init_mau m)\<lparr> mau_state := MAU_STATE_UNCONFIGURED, mau_guest := None \<rparr>) c))))))"

definition mau_unbind_strand :: "nat \<Rightarrow> nat \<Rightarrow> config \<Rightarrow> config hv" where
  "mau_unbind_strand i t c =
     (let m = cfg_maus c i; strand_num = push_bit STRANDID_2_COREID_SHIFT (mau_pid m) + of_nat t in
      if mau_cpuset m AND push_bit t 1 = 0 then Inr c
      else case strand_in_vcpu_list strand_num c of None \<Rightarrow> Inl Hv_abort
      | Some vi \<Rightarrow>
          hbind (with_mau_guest i (unconfig_a_guest_device_vino (mau_ino m) DEVOPS_VDEV) c)
            (unconfig_strand_from_mau i strand_num))"

definition mau_is_up :: "mau \<Rightarrow> bool" where
  "mau_is_up m \<longleftrightarrow> (mau_state m = MAU_STATE_RUNNING \<or> mau_state m = MAU_STATE_ERROR) \<and> mau_guest m \<noteq> None"

definition res_mau_commit_unconfig :: "nat \<Rightarrow> config \<Rightarrow> config hv" where
  "res_mau_commit_unconfig i c =
     hassert (mau_is_up (cfg_maus c i)) (hfold (mau_unbind_strand i) [0..<NSTRANDS_PER_CORE] c)"

text \<open>\<open>mau_to_vcpu\<close>: the first vcpu of the guest that runs on the strand.\<close>

fun mau_to_vcpu_from :: "config \<Rightarrow> guest \<Rightarrow> u32 \<Rightarrow> nat list \<Rightarrow> nat option hv" where
  "mau_to_vcpu_from c g strand_id [] = Inr None"
| "mau_to_vcpu_from c g strand_id (v # vs) =
     (case g_vcpus g v of None \<Rightarrow> mau_to_vcpu_from c g strand_id vs
      | Some vi \<Rightarrow>
          (case v_strand (cfg_vcpus c vi) of None \<Rightarrow> Inl Assert_fail
           | Some s \<Rightarrow> if ucast (st_id (cfg_strands c s)) = strand_id then Inr (Some vi)
                       else mau_to_vcpu_from c g strand_id vs))"

definition mau_to_vcpu :: "nat \<Rightarrow> u32 \<Rightarrow> config \<Rightarrow> nat option hv" where
  "mau_to_vcpu i strand_id c =
     (case mau_guest (cfg_maus c i) of None \<Rightarrow> Inl Bad_access
      | Some gi \<Rightarrow> mau_to_vcpu_from c (cfg_guests c gi) strand_id [0..<NVCPUS])"

definition mau_modify_strand :: "nat \<Rightarrow> nat \<Rightarrow> config \<Rightarrow> config hv" where
  "mau_modify_strand i t c =
     (let m = cfg_maus c i; mask = push_bit t 1; strand_id = push_bit STRANDID_2_COREID_SHIFT (mau_pid m) + of_nat t in
      if mau_cpuset m AND mask = mp_cpuset (mau_pip m) AND mask then Inr c
      else if mp_cpuset (mau_pip m) AND mask \<noteq> 0 then
        hbind (mau_to_vcpu i (ucast strand_id) c) (\<lambda>r.
          case r of None \<Rightarrow> Inl Assert_fail
          | Some vi \<Rightarrow> setup_a_mau vi i (scast (mp_ino (mau_pip m))) (upd_vcpu vi (\<lambda>v. v\<lparr> v_maup := Some i \<rparr>) c))
      else unconfig_strand_from_mau i strand_id c)"

definition res_mau_commit_modify :: "nat \<Rightarrow> config \<Rightarrow> config hv" where
  "res_mau_commit_modify i c =
     hassert (mau_is_up (cfg_maus c i)) (hfold (mau_modify_strand i) [0..<NSTRANDS_PER_CORE] c)"

definition res_mau_commit_1 :: "u8 \<Rightarrow> nat \<Rightarrow> config \<Rightarrow> config hv" where
  "res_mau_commit_1 flag i c =
     (let fl = mp_flags (mau_pip (cfg_maus c i)) in
      if fl \<noteq> flag then Inr c
      else hbind (res_switch fl (Inr c) (res_mau_commit_unconfig i c) (res_mau_commit_config i c)
             (Inl Assert_fail) (res_mau_commit_modify i c)) (\<lambda>c.
           Inr (set_mau_flags i RESF_Noop c)))"

definition res_mau_commit :: "u8 \<Rightarrow> config \<Rightarrow> config hv" where
  "res_mau_commit flag = hfold (res_mau_commit_1 flag) [0..<NMAUS]"

definition init_mau_crypto_units :: "config \<Rightarrow> config hv" where
  "init_mau_crypto_units = hfold (\<lambda>i c. Inr (upd_mau i (\<lambda>m. m\<lparr> mau_handle := 0, mau_res_id := of_nat i,
       mau_cpuset := 0, mau_cpu_active := (\<lambda>j. if j < NSTRANDS_PER_CORE then 0 else mau_cpu_active m j),
       mau_state := MAU_STATE_UNCONFIGURED \<rparr>) c)) [0..<NMAUS]"

subsection \<open>Strands of a unit\<close>

declare push_bit_of_1 [simp del]

lemma cpuset_bit: "(x :: u64) AND push_bit t 1 = 0 \<longleftrightarrow> \<not> bit x t"
  by (simp add: push_bit_of_1 and_exp_eq_0_iff_not_bit)

lemma cpuset_bit_eq: "(x :: u64) AND push_bit t 1 = y AND push_bit t 1 \<longleftrightarrow> (t < 64 \<longrightarrow> bit x t = bit y t)"
  by (auto simp: bit_eq_iff [where 'a = u64] bit_and_iff bit_exp_iff push_bit_of_1)

lemma thread_of_strand:
  assumes "t < 4" "bit y 0 = bit (push_bit 2 (p :: u64) + of_nat t) 0" "bit y 1 = bit (push_bit 2 p + of_nat t) (Suc 0)"
  shows "unat ((y :: u64) AND 3) = t"
proof -
  have y: "take_bit 2 y = take_bit 2 (push_bit 2 p + of_nat t)"
    using assms(2,3) by (auto simp: bit_eq_iff [where 'a = u64] bit_take_bit_iff less_2_cases_iff)
  have p: "push_bit 2 p = 4 * p" by (simp add: push_bit_eq_mult mult.commute)
  have "unat (of_nat t :: u64) = t" using assms(1) by (simp add: unat_of_nat)
  then have "unat (4 * p + of_nat t) mod 4 = (4 * unat p mod 2 ^ 64 + t) mod 2 ^ 64 mod 4"
    by (simp add: unat_word_ariths)
  also have "\<dots> = (4 * unat p mod 2 ^ 64 mod 4 + t) mod 4"
    by (simp add: mod_mod_cancel mod_add_left_eq)
  also have "\<dots> = t" using assms(1) by (simp add: mod_mod_cancel)
  finally have "unat (take_bit 2 (push_bit 2 p + of_nat t)) = t"
    unfolding p unsigned_take_bit_eq by (simp add: take_bit_eq_mod)
  moreover have "y AND 3 = take_bit 2 y" by (simp add: take_bit_eq_mask mask_eq_exp_minus_1)
  ultimately show ?thesis using y by simp
qed

text \<open>
  \<open>mau_put\<close>: what committing unit \<open>i\<close> may change.  \<open>mau_at c0 i S c\<close>: \<open>c\<close> has come from
  \<open>c0\<close> that way, the unit has its number and its proposal, its strands are \<open>S\<close>, and it
  is unconfigured exactly when it has none.
\<close>

definition mau_put ::
    "nat \<Rightarrow> mau \<Rightarrow> (nat \<Rightarrow> nat option) \<Rightarrow> (nat \<Rightarrow> nat \<Rightarrow> nat option) \<Rightarrow> (nat \<Rightarrow> nat \<Rightarrow> u8) \<Rightarrow> config \<Rightarrow> config" where
  "mau_put i m P Q R c = c\<lparr> cfg_guests := \<lambda>g. (cfg_guests c g)\<lparr> g_maus := Q g, g_vino2inst := R g \<rparr>,
     cfg_vcpus := \<lambda>v. (cfg_vcpus c v)\<lparr> v_maup := P v \<rparr>, cfg_maus := (cfg_maus c)(i := m) \<rparr>"

definition mau_at :: "config \<Rightarrow> nat \<Rightarrow> nat set \<Rightarrow> config \<Rightarrow> bool" where
  "mau_at c0 i S c \<longleftrightarrow> (\<exists>m P Q R. c = mau_put i m P Q R c0 \<and> mau_pip m = mau_pip (cfg_maus c0 i) \<and>
     mau_pid m = of_nat i \<and> (mau_state m = MAU_STATE_UNCONFIGURED \<longleftrightarrow> mau_cpuset m = 0) \<and>
     (\<forall>n. bit (mau_cpuset m) n \<longleftrightarrow> n \<in> S))"

lemma mau_put_simps [simp]:
  "cfg_maus (mau_put i m P Q R c) i = m" "j \<noteq> i \<Longrightarrow> cfg_maus (mau_put i m P Q R c) j = cfg_maus c j"
  "v_maup (cfg_vcpus (mau_put i m P Q R c) v) = P v" "v_strand (cfg_vcpus (mau_put i m P Q R c) v) = v_strand (cfg_vcpus c v)"
  "v_guest (cfg_vcpus (mau_put i m P Q R c) v) = v_guest (cfg_vcpus c v)"
  "cfg_strands (mau_put i m P Q R c) = cfg_strands c"
  by (simp_all add: mau_put_def)

lemma mau_put_updates:
  "upd_mau i h (mau_put i m P Q R c) = mau_put i (h m) P Q R c"
  "upd_vcpu vi (\<lambda>v. v\<lparr> v_maup := x \<rparr>) (mau_put i m P Q R c) = mau_put i m (P(vi := x)) Q R c"
  "upd_guest gi (\<lambda>g. g\<lparr> g_maus := (g_maus g)(p := y) \<rparr>) (mau_put i m P Q R c) = mau_put i m P (Q(gi := (Q gi)(p := y))) R c"
  "upd_guest gi (\<lambda>_. (cfg_guests (mau_put i m P Q R c) gi)\<lparr> g_vino2inst := z \<rparr>) (mau_put i m P Q R c) =
     mau_put i m P Q (R(gi := z)) c"
  by (simp_all add: mau_put_def upd_defs fun_eq_iff)

lemma mau_put_id: "c = mau_put i (cfg_maus c i) (\<lambda>v. v_maup (cfg_vcpus c v)) (\<lambda>g. g_maus (cfg_guests c g))
    (\<lambda>g. g_vino2inst (cfg_guests c g)) c"
  by (simp add: mau_put_def)

lemma mau_at_upd_vcpu: "mau_at c0 i S c \<Longrightarrow> mau_at c0 i S (upd_vcpu vi (\<lambda>v. v\<lparr> v_maup := x \<rparr>) c)"
  unfolding mau_at_def by (metis mau_put_updates(2))

lemma mau_at_with_guest:
  assumes "mau_at c0 i S c" "\<And>g g'. k g = Inr g' \<Longrightarrow> \<exists>z. g' = g\<lparr> g_vino2inst := z \<rparr>"
  shows "hpost (mau_at c0 i S) (with_mau_guest i k c)"
proof (rule hpostI)
  fix c'
  assume "with_mau_guest i k c = Inr c'"
  then obtain gi z where "c' = upd_guest gi (\<lambda>_. (cfg_guests c gi)\<lparr> g_vino2inst := z \<rparr>) c"
    by (auto simp: with_mau_guest_def upd_guest_hv_eq dest!: assms(2) split: option.splits)
  with assms(1) show "mau_at c0 i S c'" unfolding mau_at_def by (metis mau_put_updates(4))
qed

lemma vino_only:
  "config_a_guest_device_vino ino ty g = Inr g' \<Longrightarrow> \<exists>z. g' = g\<lparr> g_vino2inst := z \<rparr>"
  "unconfig_a_guest_device_vino ino ty g = Inr g' \<Longrightarrow> \<exists>z. g' = g\<lparr> g_vino2inst := z \<rparr>"
  by (auto simp: config_a_guest_device_vino_def unconfig_a_guest_device_vino_def Let_def hassert_eq_Inr hguard_eq_Inr)

lemma cpuset_remove: "t < 4 \<Longrightarrow> bit ((x :: u64) AND NOT (push_bit t 1)) n \<longleftrightarrow> bit x n \<and> n \<noteq> t"
  using bit_imp_le_length [of x n] by (auto simp: bit_and_iff bit_not_iff bit_exp_iff push_bit_of_1)

lemma cpuset_nonempty: "t < 4 \<Longrightarrow> x OR push_bit t 1 \<noteq> (0 :: u64)"
  by (simp add: bit_eq_iff [where 'a = u64] bit_or_iff bit_exp_iff push_bit_of_1) (intro exI [of _ t], simp)

lemma cpuset_or_insert: "t < 4 \<Longrightarrow> bit ((x :: u64) OR push_bit t 1) n \<longleftrightarrow> bit x n \<or> n = t"
  by (auto simp: bit_or_iff bit_exp_iff push_bit_of_1)

text \<open>After \<open>setup_mau\<close> the strand is in the set of the unit, which is configured.\<close>

lemma c_setup_mau_adds:
  assumes "c_setup_mau vi ino c = Inr c'" "v_maup (cfg_vcpus c vi) = Some i" "m = cfg_maus c i"
    and "unat (mau_pid m) < NMAUS" "v_strand (cfg_vcpus c vi) = Some s"
    and "mau_state m = MAU_STATE_UNCONFIGURED \<longleftrightarrow> mau_cpuset m = 0"
    and "unat ((ucast (st_id (cfg_strands c s)) :: u64) AND 3) = t" "t < 4"
  obtains m' where "c' = upd_mau i (\<lambda>_. m') c" "mau_pip m' = mau_pip m" "mau_pid m' = mau_pid m"
    "mau_cpuset m' = mau_cpuset m OR push_bit t 1" "mau_state m' \<noteq> MAU_STATE_UNCONFIGURED"
proof -
  let ?b = "push_bit t 1 :: u64" and ?set = "mau_cpuset m OR push_bit t 1"
  let ?m1 = "m\<lparr> mau_cpuset := ?set, mau_cpu_active := (mau_cpu_active m)(t := 0xff) \<rparr>"
  let ?m2 = "(mau_clear_queue ?m1)\<lparr> mau_handle := push_bit HANDLE_IDSHIFT (mau_pid m AND HANDLE_IDMASK) OR MAU_HANDLE_SIG,
    mau_ino := ino, mau_state := MAU_STATE_RUNNING \<rparr>"
  have eq: "Inr c' = (if mau_cpuset m AND ?b \<noteq> 0 then Inr c else if ?set \<noteq> ?b then Inr (upd_mau i (\<lambda>_. ?m1) c)
     else hguard (unat ino \<ge> NINOSPERDEV \<or> v_guest (cfg_vcpus c vi) \<noteq> None) (Inr (upd_mau i (\<lambda>_. ?m2) c)))"
    using assms(4) unfolding assms(1) [symmetric] c_setup_mau_def assms(2,5)
    by (simp add: Let_def NSTRANDS_PER_CORE_MASK_def assms(7) flip: assms(3))
  show thesis
  proof (cases "mau_cpuset m AND ?b = 0")
    case False
    then have t: "bit (mau_cpuset m) t" by (simp add: cpuset_bit)
    then have "?set = mau_cpuset m" by (auto intro!: bit_word_eqI simp: cpuset_or_insert [OF assms(8)])
    moreover have "mau_cpuset m \<noteq> 0" using t by auto
    moreover have "c = upd_mau i (\<lambda>_. m) c" using assms(3) by (simp add: upd_mau_def)
    ultimately show ?thesis using that [of m] eq False assms(6) by auto
  next
    case set: True
    show ?thesis
    proof (cases "?set = ?b")
      case True
      then show ?thesis using that [of ?m2] eq set
        by (simp add: hguard_def mau_clear_queue_def MAU_STATE_RUNNING_def MAU_STATE_UNCONFIGURED_def split: if_splits)
    next
      case False
      then have "mau_state m \<noteq> MAU_STATE_UNCONFIGURED" using assms(6) by auto
      then show ?thesis using that [of ?m1] eq set False by simp
    qed
  qed
qed

lemma setup_a_mau_adds:
  assumes "mau_at c0 i S c" "v_maup (cfg_vcpus c vi) = Some i" "i < NMAUS" "v_strand (cfg_vcpus c vi) = Some s"
    and "unat ((ucast (st_id (cfg_strands c s)) :: u64) AND 3) = t" "t < 4"
  shows "hpost (mau_at c0 i (insert t S)) (setup_a_mau vi i ino c)"
proof (rule hpostI)
  fix c'
  assume c': "setup_a_mau vi i ino c = Inr c'"
  from assms(1) obtain m P Q R where c: "c = mau_put i m P Q R c0" and m: "mau_pip m = mau_pip (cfg_maus c0 i)"
    "mau_pid m = of_nat i" "mau_state m = MAU_STATE_UNCONFIGURED \<longleftrightarrow> mau_cpuset m = 0"
    "\<And>n. bit (mau_cpuset m) n \<longleftrightarrow> n \<in> S"
    by (auto simp: mau_at_def)
  then have mc: "m = cfg_maus c i" by simp
  have pid: "unat (mau_pid m) < NMAUS" using assms(3) m(2) by (simp add: NMAUS_def unat_of_nat)
  from c' obtain c1 where c1: "c_setup_mau vi ino c = Inr c1"
      "c' = upd_mau i (\<lambda>m. m\<lparr> mau_guest := v_guest (cfg_vcpus c1 vi) \<rparr>) c1"
    by (auto simp: setup_a_mau_def hbind_eq_Inr)
  from c_setup_mau_adds [OF c1(1) assms(2) mc pid assms(4) m(3) assms(5,6)] obtain m' where m':
    "c1 = upd_mau i (\<lambda>_. m') c" "mau_pip m' = mau_pip m" "mau_pid m' = mau_pid m"
    "mau_cpuset m' = mau_cpuset m OR push_bit t 1" "mau_state m' \<noteq> MAU_STATE_UNCONFIGURED" .
  then have "c' = mau_put i (m'\<lparr> mau_guest := v_guest (cfg_vcpus c1 vi) \<rparr>) P Q R c0"
    using c1(2) c by (simp add: mau_put_updates)
  with m' m show "mau_at c0 i (insert t S) c'" unfolding mau_at_def
    by (intro exI conjI) (assumption, simp_all add: cpuset_or_insert [OF assms(6)] cpuset_nonempty [OF assms(6)]
        del: push_bit_of_1, auto)
qed

lemma unconfig_strand_removes:
  assumes "mau_at c0 i S c" "unat (sn AND 3) = t" "t < 4"
  shows "hpost (mau_at c0 i (S - {t})) (unconfig_strand_from_mau i sn c)"
proof (rule hpostI)
  fix c'
  assume c': "unconfig_strand_from_mau i sn c = Inr c'"
  from assms(1) obtain m P Q R where c: "c = mau_put i m P Q R c0" and m: "mau_pip m = mau_pip (cfg_maus c0 i)"
    "mau_pid m = of_nat i" "mau_state m = MAU_STATE_UNCONFIGURED \<longleftrightarrow> mau_cpuset m = 0"
    "\<And>n. bit (mau_cpuset m) n \<longleftrightarrow> n \<in> S"
    by (auto simp: mau_at_def)
  then have mc: "cfg_maus c i = m" by simp
  let ?set = "mau_cpuset m AND NOT (push_bit t 1)"
  let ?m1 = "m\<lparr> mau_cpu_active := (mau_cpu_active m)(t := 0), mau_cpuset := ?set \<rparr>"
  let ?m2 = "(init_mau ?m1)\<lparr> mau_state := MAU_STATE_UNCONFIGURED, mau_guest := None \<rparr>"
  from c' obtain gi where live: "mau_state m \<noteq> MAU_STATE_UNCONFIGURED" and
    eq: "c' = (if ?set \<noteq> 0 then upd_mau i (\<lambda>_. ?m1) c else upd_guest gi
       (\<lambda>g. g\<lparr> g_maus := (g_maus g)(unat (mau_pid m) := None) \<rparr>) (upd_mau i (\<lambda>_. ?m2) c))"
    unfolding unconfig_strand_from_mau_def Let_def mc NSTRANDS_PER_CORE_MASK_def assms(2)
    by (auto simp: hguard_eq_Inr hassert_eq_Inr split: option.splits if_splits)
  show "mau_at c0 i (S - {t}) c'"
  proof (cases "?set = 0")
    case True
    then have "c' = mau_put i ?m2 P (Q(gi := (Q gi)(unat (mau_pid m) := None))) R c0"
      using eq c by (simp add: mau_put_updates)
    moreover have "n \<in> S \<Longrightarrow> n = t" for n
      using cpuset_remove [OF assms(3), of "mau_cpuset m" n] True m(4) by auto
    ultimately show ?thesis unfolding mau_at_def using m True
      by (intro exI conjI) (assumption, auto simp: init_mau_def mau_clear_queue_def)
  next
    case False
    then have "c' = mau_put i ?m1 P Q R c0" using eq c by (simp add: mau_put_updates)
    with m False live show ?thesis unfolding mau_at_def
      by (intro exI conjI) (assumption, simp_all add: cpuset_remove [OF assms(3)] del: push_bit_of_1)
  qed
qed

subsection \<open>The loops over the strands of a core\<close>

definition strands_upto :: "nat \<Rightarrow> nat set \<Rightarrow> nat set \<Rightarrow> nat set" where
  "strands_upto t T S = {n. if n < t then n \<in> T else n \<in> S}"

lemma strands_upto_0 [simp]: "strands_upto 0 T S = S"
  by (simp add: strands_upto_def)

lemma strands_upto_Suc:
  "t \<in> T \<Longrightarrow> strands_upto (Suc t) T S = insert t (strands_upto t T S)"
  "t \<notin> T \<Longrightarrow> strands_upto (Suc t) T S = strands_upto t T S - {t}"
  by (auto simp: strands_upto_def less_Suc_eq split: if_splits)

lemma strands_upto_all: "T \<subseteq> {..<n} \<Longrightarrow> S \<subseteq> {..<n} \<Longrightarrow> strands_upto n T S = T"
  by (auto simp: strands_upto_def)

abbreviation bits :: "u64 \<Rightarrow> nat set" where
  "bits x \<equiv> {n. bit x n}"

lemma mau_atD:
  assumes "mau_at c0 i S c"
  shows "mau_pip (cfg_maus c i) = mau_pip (cfg_maus c0 i)" "bits (mau_cpuset (cfg_maus c i)) = S"
    "mau_pid (cfg_maus c i) = of_nat i" "mau_state (cfg_maus c i) = MAU_STATE_UNCONFIGURED \<longleftrightarrow> S = {}"
    "j \<noteq> i \<Longrightarrow> cfg_maus c j = cfg_maus c0 j"
proof -
  have empty: "x = 0 \<longleftrightarrow> bits x = {}" for x :: u64 by (auto intro: bit_word_eqI)
  from assms show "mau_pip (cfg_maus c i) = mau_pip (cfg_maus c0 i)" "bits (mau_cpuset (cfg_maus c i)) = S"
    "mau_pid (cfg_maus c i) = of_nat i" "mau_state (cfg_maus c i) = MAU_STATE_UNCONFIGURED \<longleftrightarrow> S = {}"
    "j \<noteq> i \<Longrightarrow> cfg_maus c j = cfg_maus c0 j"
    unfolding mau_at_def empty by auto
qed

text \<open>Entering a strand that a vcpu has been found for.\<close>

lemma mau_enter_strand:
  assumes "mau_at c0 i S c" "i < NMAUS" "v_strand (cfg_vcpus c vi) = Some s" "t < 4"
    and "\<And>n. n < 2 \<Longrightarrow> bit (st_id (cfg_strands c s)) n = bit (push_bit 2 (of_nat i :: u64) + of_nat t) n"
  shows "hpost (mau_at c0 i (insert t S)) (setup_a_mau vi i ino (upd_vcpu vi (\<lambda>v. v\<lparr> v_maup := Some i \<rparr>) c))"
proof (rule setup_a_mau_adds [OF mau_at_upd_vcpu [OF assms(1)] _ assms(2) _ _ assms(4)])
  let ?c = "upd_vcpu vi (\<lambda>v. v\<lparr> v_maup := Some i \<rparr>) c"
  show "v_maup (cfg_vcpus ?c vi) = Some i" "v_strand (cfg_vcpus ?c vi) = Some s" using assms(3) by (simp_all add: upd_vcpu_def)
  have "unat ((ucast (st_id (cfg_strands c s)) :: u64) AND 3) = t"
    by (rule thread_of_strand [OF assms(4), of _ "of_nat i"]) (simp_all add: bit_ucast_iff assms(5))
  then show "unat ((ucast (st_id (cfg_strands ?c s)) :: u64) AND 3) = t" by (simp add: upd_vcpu_def)
qed

lemma strand_in_vcpu_listD:
  "strand_in_vcpu_list sn c = Some vi \<Longrightarrow> \<exists>s. v_strand (cfg_vcpus c vi) = Some s \<and> ucast (st_id (cfg_strands c s)) = sn"
  by (auto simp: strand_in_vcpu_list_def find_Some_iff split: option.splits)

lemma mau_to_vcpu_fromD:
  "mau_to_vcpu_from c g sid vs = Inr (Some vi) \<Longrightarrow>
     \<exists>s. v_strand (cfg_vcpus c vi) = Some s \<and> ucast (st_id (cfg_strands c s)) = sid"
  by (induction vs) (auto split: option.splits if_splits)

lemma mau_bind_strand_adds:
  assumes "mau_at c0 i S c" "i < NMAUS" "t < 4"
  shows "hpost (mau_at c0 i (if t \<in> bits (mp_cpuset (mau_pip (cfg_maus c0 i))) then insert t S else S)) (mau_bind_strand i t c)"
proof (cases "t \<in> bits (mp_cpuset (mau_pip (cfg_maus c0 i)))")
  case True
  note at = mau_atD [OF assms(1)]
  have "hpost (mau_at c0 i (insert t S)) (mau_bind_strand i t c)"
    unfolding mau_bind_strand_def Let_def at(1) STRANDID_2_COREID_SHIFT_def
  proof (intro hpost_rules)
    fix vi c1
    assume "strand_in_vcpu_list (push_bit 2 (mau_pid (cfg_maus c i)) + of_nat t) c = Some vi" and
      c1: "setup_a_mau vi i (scast (mp_ino (mau_pip (cfg_maus c0 i)))) (upd_vcpu vi (\<lambda>v. v\<lparr> v_maup := Some i \<rparr>) c) = Inr c1"
    then obtain s where s: "v_strand (cfg_vcpus c vi) = Some s" "ucast (st_id (cfg_strands c s)) = push_bit 2 (of_nat i :: u64) + of_nat t"
      using at(3) by (auto dest: strand_in_vcpu_listD)
    have b: "bit (st_id (cfg_strands c s)) n = bit (push_bit 2 (of_nat i :: u64) + of_nat t) n" if "n < 2" for n
      using that unfolding s(2) [symmetric] by (simp add: bit_ucast_iff)
    have "mau_at c0 i (insert t S) c1"
      by (rule hpostD [OF mau_enter_strand [OF assms(1,2) s(1) assms(3)] c1]) (rule b)
    then show "hpost (mau_at c0 i (insert t S))
        (with_mau_guest i (config_a_guest_device_vino (scast (mp_ino (mau_pip (cfg_maus c0 i)))) DEVOPS_VDEV) c1)"
      by (rule mau_at_with_guest) (rule vino_only(1))
  qed (use True in \<open>simp_all add: cpuset_bit\<close>)
  with True show ?thesis by simp
next
  case False
  with assms(1) show ?thesis
    by (simp add: mau_bind_strand_def mau_atD(1) [OF assms(1)] cpuset_bit hpost_Inr Let_def)
qed

lemma mau_unbind_strand_removes:
  assumes "mau_at c0 i S c" "t < 4"
  shows "hpost (mau_at c0 i (S - {t})) (mau_unbind_strand i t c)"
proof (cases "t \<in> S")
  case True
  show ?thesis unfolding mau_unbind_strand_def Let_def STRANDID_2_COREID_SHIFT_def
  proof (intro hpost_rules)
    fix vi c1
    assume "with_mau_guest i (unconfig_a_guest_device_vino (mau_ino (cfg_maus c i)) DEVOPS_VDEV) c = Inr c1"
    then have "mau_at c0 i S c1" by (rule hpostD [OF mau_at_with_guest [OF assms(1)], rotated]) (rule vino_only(2))
    then show "hpost (mau_at c0 i (S - {t}))
        (unconfig_strand_from_mau i (push_bit 2 (mau_pid (cfg_maus c i)) + of_nat t) c1)"
      using assms(2) by (intro unconfig_strand_removes thread_of_strand) simp_all
  qed (use True mau_atD(2) [OF assms(1)] in \<open>auto simp: cpuset_bit\<close>)
next
  case False
  with assms mau_atD(2) [OF assms(1)] show ?thesis
    by (auto simp: mau_unbind_strand_def cpuset_bit hpost_Inr Let_def)
qed

lemma mau_modify_strand_steps:
  assumes "mau_at c0 i (strands_upto t T S) c" "i < NMAUS" "t < 4" "T = bits (mp_cpuset (mau_pip (cfg_maus c0 i)))"
  shows "hpost (mau_at c0 i (strands_upto (Suc t) T S)) (mau_modify_strand i t c)"
  unfolding mau_modify_strand_def Let_def mau_atD(1) [OF assms(1)] STRANDID_2_COREID_SHIFT_def
proof (intro hpost_rules)
  note at = mau_atD [OF assms(1)]
  {
    assume "mau_cpuset (cfg_maus c i) AND push_bit t 1 = mp_cpuset (mau_pip (cfg_maus c0 i)) AND push_bit t 1"
    then have "t \<in> T \<longleftrightarrow> t \<in> strands_upto t T S" using at(2) assms(3,4) by (auto simp: cpuset_bit_eq)
    then have "strands_upto (Suc t) T S = strands_upto t T S"
      by (cases "t \<in> T") (auto simp: strands_upto_Suc)
    with assms(1) show "mau_at c0 i (strands_upto (Suc t) T S) c" by simp
  next
    fix vi r
    assume T: "mp_cpuset (mau_pip (cfg_maus c0 i)) AND push_bit t 1 \<noteq> 0"
      and vi: "mau_to_vcpu i (ucast (push_bit 2 (mau_pid (cfg_maus c i)) + of_nat t)) c = Inr r" "r = Some vi"
    from vi obtain s where s: "v_strand (cfg_vcpus c vi) = Some s"
      "ucast (st_id (cfg_strands c s)) = (ucast (push_bit 2 (of_nat i :: u64) + of_nat t) :: u32)"
      using at(3) by (auto simp: mau_to_vcpu_def dest: mau_to_vcpu_fromD split: option.splits)
    have b: "bit (st_id (cfg_strands c s)) n = bit (push_bit 2 (of_nat i :: u64) + of_nat t) n" if "n < 2" for n
      using that arg_cong [OF s(2), of "\<lambda>w. bit w n"] by (simp add: bit_ucast_iff)
    have "strands_upto (Suc t) T S = insert t (strands_upto t T S)"
      using T assms(4) by (intro strands_upto_Suc(1)) (simp add: cpuset_bit)
    then show "hpost (mau_at c0 i (strands_upto (Suc t) T S)) (setup_a_mau vi i (scast (mp_ino (mau_pip (cfg_maus c0 i))))
        (upd_vcpu vi (\<lambda>v. v\<lparr> v_maup := Some i \<rparr>) c))"
      using mau_enter_strand [OF assms(1,2) s(1) assms(3)] b by simp
  next
    assume "\<not> mp_cpuset (mau_pip (cfg_maus c0 i)) AND push_bit t 1 \<noteq> 0"
    then have "strands_upto (Suc t) T S = strands_upto t T S - {t}"
      using assms(4) by (intro strands_upto_Suc(2)) (simp add: cpuset_bit)
    then show "hpost (mau_at c0 i (strands_upto (Suc t) T S))
        (unconfig_strand_from_mau i (push_bit 2 (mau_pid (cfg_maus c i)) + of_nat t) c)"
      using unconfig_strand_removes [OF assms(1) _ assms(3)] thread_of_strand [OF assms(3) refl] by simp
  }
qed

subsection \<open>Committing units\<close>

text \<open>
  The invariant of the units: a unit is unconfigured exactly when no strand uses it,
  only strands of its core do, a configured unit knows its number, and what is
  proposed for a unit that is to be configured or modified are strands of its core,
  at least one.
\<close>

definition mau_ok :: "nat \<Rightarrow> mau \<Rightarrow> bool" where
  "mau_ok i m \<longleftrightarrow> (mau_state m = MAU_STATE_UNCONFIGURED \<longleftrightarrow> mau_cpuset m = 0) \<and> bits (mau_cpuset m) \<subseteq> {..<4} \<and>
     (mau_state m \<noteq> MAU_STATE_UNCONFIGURED \<longrightarrow> mau_pid m = of_nat i) \<and>
     (mp_flags (mau_pip m) = RESF_Config \<longrightarrow> mau_state m = MAU_STATE_UNCONFIGURED) \<and>
     (mp_flags (mau_pip m) = RESF_Config \<or> mp_flags (mau_pip m) = RESF_Modify \<longrightarrow>
        mp_pid (mau_pip m) = of_nat i \<and> mp_cpuset (mau_pip m) \<noteq> 0 \<and> bits (mp_cpuset (mau_pip m)) \<subseteq> {..<4})"

definition maus_ok :: "config \<Rightarrow> bool" where
  "maus_ok c \<longleftrightarrow> (\<forall>i<NMAUS. mau_ok i (cfg_maus c i))"

lemma bits_empty: "bits x = {} \<longleftrightarrow> x = 0"
  by (auto intro: bit_word_eqI)

lemma bits_inject: "bits x = bits y \<longleftrightarrow> x = y"
  by (auto intro: bit_word_eqI simp: set_eq_iff)

lemma mau_at_refl:
  assumes "mau_state (cfg_maus c i) = MAU_STATE_UNCONFIGURED \<longleftrightarrow> mau_cpuset (cfg_maus c i) = 0"
    and "mau_pid (cfg_maus c i) = of_nat i"
  shows "mau_at c i (bits (mau_cpuset (cfg_maus c i))) c"
  unfolding mau_at_def
  by (rule exI [of _ "cfg_maus c i"], rule exI [of _ "\<lambda>v. v_maup (cfg_vcpus c v)"],
      rule exI [of _ "\<lambda>g. g_maus (cfg_guests c g)"], rule exI [of _ "\<lambda>g. g_vino2inst (cfg_guests c g)"])
    (use assms mau_put_id [of c i] in simp)

text \<open>The unit after its own step of a phase, and that the step keeps to the unit.\<close>

definition mau_committed :: "nat \<Rightarrow> u8 \<Rightarrow> config \<Rightarrow> config \<Rightarrow> bool" where
  "mau_committed i fl c c' \<longleftrightarrow> (\<exists>m P Q R. c' = mau_put i m P Q R c \<and>
     mau_pip m = (mau_pip (cfg_maus c i))\<lparr> mp_flags := RESF_Noop \<rparr> \<and>
     (mau_state m = MAU_STATE_UNCONFIGURED \<longleftrightarrow> mau_cpuset m = 0) \<and>
     (mau_state m \<noteq> MAU_STATE_UNCONFIGURED \<longrightarrow> mau_pid m = of_nat i) \<and>
     mau_cpuset m = (if fl = RESF_Unconfig then 0 else if fl = RESF_Noop then mau_cpuset (cfg_maus c i)
       else mp_cpuset (mau_pip (cfg_maus c i))))"

lemma mau_at_committed:
  assumes "mau_at c i S c1" "S = bits x"
    and "x = (if fl = RESF_Unconfig then 0 else if fl = RESF_Noop then mau_cpuset (cfg_maus c i)
       else mp_cpuset (mau_pip (cfg_maus c i)))"
  shows "mau_committed i fl c (set_mau_flags i RESF_Noop c1)"
proof -
  from assms(1) obtain m P Q R where c1: "c1 = mau_put i m P Q R c" and m: "mau_pip m = mau_pip (cfg_maus c i)"
     "mau_pid m = of_nat i" "mau_state m = MAU_STATE_UNCONFIGURED \<longleftrightarrow> mau_cpuset m = 0"
     "\<forall>n. bit (mau_cpuset m) n \<longleftrightarrow> n \<in> S"
    by (auto simp: mau_at_def)
  from m(4) assms(2) have "mau_cpuset m = x" using bits_inject by auto
  with c1 m assms(3) show ?thesis unfolding mau_committed_def
    by (intro exI [of _ "m\<lparr> mau_pip := (mau_pip m)\<lparr> mp_flags := RESF_Noop \<rparr> \<rparr>"] exI [of _ P] exI [of _ Q] exI [of _ R])
      (simp add: set_mau_flags_def upd_mau_pip_def mau_put_updates)
qed

lemma hfold_strands:
  assumes "hfold f [0..<NSTRANDS_PER_CORE] c = Inr c'" "mau_at c0 i S c" "T \<subseteq> {..<4}" "S \<subseteq> {..<4}"
    and "\<And>t d. t < 4 \<Longrightarrow> mau_at c0 i (strands_upto t T S) d \<Longrightarrow> hpost (mau_at c0 i (strands_upto (Suc t) T S)) (f t d)"
  shows "mau_at c0 i T c'"
proof -
  have "mau_at c0 i (strands_upto 4 T S) c'"
    by (rule hfold_upt_inv [where P = "\<lambda>t. mau_at c0 i (strands_upto t T S)", OF assms(1) [unfolded NSTRANDS_PER_CORE_def]])
      (use assms in \<open>simp_all add: hpost_def\<close>)
  then show ?thesis using strands_upto_all [OF assms(3,4)] by simp
qed

lemma mau_unconfig_empties:
  assumes "res_mau_commit_unconfig i c = Inr c'" "mau_ok i (cfg_maus c i)"
  shows "mau_at c i {} c'"
proof -
  from assms(1) have up: "mau_state (cfg_maus c i) \<noteq> MAU_STATE_UNCONFIGURED"
    and fold: "hfold (mau_unbind_strand i) [0..<NSTRANDS_PER_CORE] c = Inr c'"
    by (auto simp: res_mau_commit_unconfig_def hassert_eq_Inr mau_is_up_def MAU_STATE_RUNNING_def MAU_STATE_ERROR_def
        MAU_STATE_UNCONFIGURED_def)
  from up assms(2) have at: "mau_at c i (bits (mau_cpuset (cfg_maus c i))) c" by (intro mau_at_refl) (auto simp: mau_ok_def)
  show ?thesis
    by (rule hfold_strands [OF fold at])
      (use assms(2) in \<open>auto simp: mau_ok_def strands_upto_Suc dest: mau_unbind_strand_removes\<close>)
qed

lemma mau_modify_sets:
  assumes "res_mau_commit_modify i c = Inr c'" "mau_ok i (cfg_maus c i)" "i < NMAUS"
    and "mp_flags (mau_pip (cfg_maus c i)) = RESF_Modify"
  shows "mau_at c i (bits (mp_cpuset (mau_pip (cfg_maus c i)))) c'"
proof -
  from assms(1) have up: "mau_state (cfg_maus c i) \<noteq> MAU_STATE_UNCONFIGURED"
    and fold: "hfold (mau_modify_strand i) [0..<NSTRANDS_PER_CORE] c = Inr c'"
    by (auto simp: res_mau_commit_modify_def hassert_eq_Inr mau_is_up_def MAU_STATE_RUNNING_def MAU_STATE_ERROR_def
        MAU_STATE_UNCONFIGURED_def)
  from up assms(2) have at: "mau_at c i (bits (mau_cpuset (cfg_maus c i))) c" by (intro mau_at_refl) (auto simp: mau_ok_def)
  show ?thesis
    by (rule hfold_strands [OF fold at])
      (use assms in \<open>auto simp: mau_ok_def intro!: mau_modify_strand_steps\<close>)
qed

lemma mau_config_sets:
  assumes "res_mau_commit_config i c = Inr c'" "mau_ok i (cfg_maus c i)" "i < NMAUS"
    and "mp_flags (mau_pip (cfg_maus c i)) = RESF_Config"
  shows "mau_at c i (bits (mp_cpuset (mau_pip (cfg_maus c i)))) c'"
proof -
  let ?m = "cfg_maus c i" and ?pid = "\<lambda>m. m\<lparr> mau_pid := scast (mp_pid (mau_pip m)) \<rparr>"
  let ?T = "bits (mp_cpuset (mau_pip ?m))"
  from assms(2,4) have ok: "mau_state ?m = MAU_STATE_UNCONFIGURED" "mau_cpuset ?m = 0" "mp_pid (mau_pip ?m) = of_nat i"
    "?T \<subseteq> {..<4}" by (auto simp: mau_ok_def)
  have "unat (scast (of_nat i :: u32) :: u64) = i"
    using assms(3) by (subst unat_scast_small) (simp_all add: NMAUS_def unat_of_nat)
  then have pid: "scast (mp_pid (mau_pip ?m)) = (of_nat i :: u64)"
    unfolding ok(3) by (metis of_nat_unat ucast_id)
  define c1 where "c1 = upd_mau i ?pid c"
  define p where "p = unat (mau_pid (cfg_maus c1 i))"
  from assms(1) obtain gi where fold: "hfold (mau_bind_strand i) [0..<NSTRANDS_PER_CORE]
      (upd_guest gi (\<lambda>g. g\<lparr> g_maus := (g_maus g)(p := Some i) \<rparr>) c1) = Inr c'"
    unfolding res_mau_commit_config_def Let_def c1_def [symmetric] p_def [symmetric]
    by (auto simp: hbind_eq_Inr upd_guest_hv_eq hassert_eq_Inr hguard_eq_Inr upd_guest_def)
  let ?P = "\<lambda>v. v_maup (cfg_vcpus c v)" and ?Q = "\<lambda>g. g_maus (cfg_guests c g)" and ?R = "\<lambda>g. g_vino2inst (cfg_guests c g)"
  have "c1 = mau_put i (?pid ?m) ?P ?Q ?R c"
    using mau_put_updates(1) [of i ?pid ?m ?P ?Q ?R c] by (simp only: c1_def mau_put_id [symmetric])
  then have "mau_at c i {} (upd_guest gi (\<lambda>g. g\<lparr> g_maus := (g_maus g)(p := Some i) \<rparr>) c1)"
    unfolding mau_at_def by (intro exI conjI, simp only: mau_put_updates) (simp_all add: ok pid [unfolded ok(3)])
  then show ?thesis
  proof (rule hfold_strands [OF fold _ ok(4)])
    fix t d
    assume td: "t < 4" "mau_at c i (strands_upto t ?T {}) d"
    have "strands_upto (Suc t) ?T {} = (if t \<in> ?T then insert t (strands_upto t ?T {}) else strands_upto t ?T {})"
      by (auto simp: strands_upto_def less_Suc_eq)
    then show "hpost (mau_at c i (strands_upto (Suc t) ?T {})) (mau_bind_strand i t d)"
      using mau_bind_strand_adds [OF td(2) assms(3) td(1)] by (simp only:)
  qed simp
qed

lemma res_mau_commit_1_committed:
  assumes "res_mau_commit_1 fl i c = Inr c'" "maus_ok c" "i < NMAUS" "mp_flags (mau_pip (cfg_maus c i)) = fl"
  shows "mau_committed i fl c c'"
proof -
  let ?m = "cfg_maus c i"
  have ok: "mau_ok i ?m" using assms(2,3) by (simp add: maus_ok_def)
  have distinct: "RESF_Noop \<noteq> RESF_Unconfig" "RESF_Config \<noteq> RESF_Unconfig" "RESF_Config \<noteq> RESF_Noop"
    "RESF_Modify \<noteq> RESF_Unconfig" "RESF_Modify \<noteq> RESF_Noop"
    by (simp_all add: RESF_Noop_def RESF_Unconfig_def RESF_Config_def RESF_Modify_def)
  from assms(1,4) obtain c1 where sw: "res_switch fl (Inr c) (res_mau_commit_unconfig i c) (res_mau_commit_config i c)
      (Inl Assert_fail) (res_mau_commit_modify i c) = Inr c1" and c': "c' = set_mau_flags i RESF_Noop c1"
    by (auto simp: res_mau_commit_1_def Let_def hbind_eq_Inr)
  from sw show ?thesis
  proof (cases rule: res_switch_cases)
    case Noop
    have "c' = mau_put i (?m\<lparr> mau_pip := (mau_pip ?m)\<lparr> mp_flags := RESF_Noop \<rparr> \<rparr>) (\<lambda>v. v_maup (cfg_vcpus c v))
        (\<lambda>g. g_maus (cfg_guests c g)) (\<lambda>g. g_vino2inst (cfg_guests c g)) c"
      using Noop c' by (simp add: set_mau_flags_def upd_mau_pip_def upd_mau_def mau_put_def)
    with ok Noop distinct show ?thesis unfolding mau_committed_def mau_ok_def
      by (intro exI conjI) (assumption, simp_all)
  next
    case Unconfig
    then have "mau_at c i (bits 0) c1" using mau_unconfig_empties [OF _ ok] by simp
    then show ?thesis unfolding c' by (rule mau_at_committed) (simp_all add: Unconfig)
  next
    case Config
    then have "mau_at c i (bits (mp_cpuset (mau_pip ?m))) c1" using mau_config_sets [OF _ ok assms(3)] assms(4) by simp
    then show ?thesis unfolding c' by (rule mau_at_committed) (simp_all add: Config distinct)
  next
    case Modify
    then have "mau_at c i (bits (mp_cpuset (mau_pip ?m))) c1" using mau_modify_sets [OF _ ok assms(3)] assms(4) by simp
    then show ?thesis unfolding c' by (rule mau_at_committed) (simp_all add: Modify distinct)
  qed simp
qed

lemma mau_committedD:
  assumes "mau_committed i fl c c'"
  shows "j \<noteq> i \<Longrightarrow> cfg_maus c' j = cfg_maus c j" "mp_flags (mau_pip (cfg_maus c' i)) = RESF_Noop"
    "mau_state (cfg_maus c' i) = MAU_STATE_UNCONFIGURED \<longleftrightarrow> mau_cpuset (cfg_maus c' i) = 0"
    "mau_state (cfg_maus c' i) \<noteq> MAU_STATE_UNCONFIGURED \<Longrightarrow> mau_pid (cfg_maus c' i) = of_nat i"
    "mau_cpuset (cfg_maus c' i) = (if fl = RESF_Unconfig then 0 else if fl = RESF_Noop then mau_cpuset (cfg_maus c i)
       else mp_cpuset (mau_pip (cfg_maus c i)))"
  using assms by (auto simp: mau_committed_def)

lemma maus_ok_commit_1:
  assumes "res_mau_commit_1 fl i c = Inr c'" "maus_ok c" "i < NMAUS"
  shows "maus_ok c'"
proof (cases "mp_flags (mau_pip (cfg_maus c i)) = fl")
  case True
  note d = mau_committedD [OF res_mau_commit_1_committed [OF assms True]]
  have "mau_ok i (cfg_maus c i)" using assms(2,3) by (simp add: maus_ok_def)
  moreover have "fl = RESF_Unconfig \<or> fl = RESF_Noop \<or> fl = RESF_Config \<or> fl = RESF_Modify"
    using assms(1) True by (auto simp: res_mau_commit_1_def Let_def res_switch_def split: if_splits)
  ultimately have "bits (mau_cpuset (cfg_maus c' i)) \<subseteq> {..<4}" unfolding d(5) using True by (auto simp: mau_ok_def)
  then have "mau_ok i (cfg_maus c' i)" unfolding mau_ok_def using d(2-4)
    by (auto simp: RESF_Noop_def RESF_Config_def RESF_Modify_def)
  with assms(2) d(1) show ?thesis unfolding maus_ok_def by metis
qed (use assms in \<open>simp add: res_mau_commit_1_def\<close>)

lemma mau_step_others:
  assumes "i \<in> set [0..<NMAUS]" "maus_ok c" "res_mau_commit_1 fl i c = Inr c'" "j \<noteq> i"
  shows "cfg_maus c' j = cfg_maus c j"
  using assms mau_committedD(1) [OF res_mau_commit_1_committed, of fl i c c' j]
  by (cases "mp_flags (mau_pip (cfg_maus c i)) = fl") (auto simp: res_mau_commit_1_def)

interpretation maus: resource_kind "[0..<NMAUS]" "\<lambda>c i. mp_flags (mau_pip (cfg_maus c i))"
  res_mau_commit_1 maus_ok "\<lambda>c i. mau_state (cfg_maus c i) \<noteq> MAU_STATE_UNCONFIGURED"
proof (unfold_locales, goal_cases)
  case (2 c i fl)
  then show ?case by (simp add: res_mau_commit_1_def)
next
  case (3 i c fl c')
  then show ?case using maus_ok_commit_1 by simp
next
  case (4 i c fl c')
  then show ?case using mau_committedD(2) [OF res_mau_commit_1_committed] by simp
next
  case (5 i c fl c' j)
  then show ?case using mau_step_others by simp
next
  case (6 i c fl c')
  then have "mau_committed i fl c c'" and ok: "mau_ok i (cfg_maus c i)"
    using res_mau_commit_1_committed by (auto simp: maus_ok_def)
  note d = mau_committedD [OF this(1)]
  from 6 have "fl = RESF_Unconfig \<or> fl = RESF_Noop \<or> fl = RESF_Config \<or> fl = RESF_Modify"
    by (auto simp: res_mau_commit_1_def Let_def res_switch_def split: if_splits)
  moreover have "fl = RESF_Modify \<Longrightarrow> mau_state (cfg_maus c i) \<noteq> MAU_STATE_UNCONFIGURED"
    using 6 by (auto simp: res_mau_commit_1_def Let_def res_switch_def res_mau_commit_modify_def hbind_eq_Inr hassert_eq_Inr
        mau_is_up_def MAU_STATE_RUNNING_def MAU_STATE_ERROR_def MAU_STATE_UNCONFIGURED_def split: if_splits)
  ultimately show ?case unfolding d(3) d(5) using ok 6(4)
    by (auto simp: mau_ok_def RESF_Noop_def RESF_Config_def RESF_Modify_def RESF_Unconfig_def)
next
  case (7 i c fl c' j)
  then show ?case using mau_step_others by simp
qed simp

subsection \<open>Properties\<close>

text \<open>
  C11. Committing units keeps their invariant, and gives every unit that carries the
  flag exactly the strands its description asks for: those of the proposal when it is
  configured or modified, none when it is removed, and then it is unconfigured.
\<close>

theorem res_mau_commit_cpusets:
  assumes "res_mau_commit fl c = Inr c'" "maus_ok c" "i < NMAUS" "mp_flags (mau_pip (cfg_maus c i)) = fl" "fl \<noteq> RESF_Noop"
  shows "maus_ok c' \<and> mau_cpuset (cfg_maus c' i) = (if fl = RESF_Unconfig then 0 else mp_cpuset (mau_pip (cfg_maus c i))) \<and>
     (mau_state (cfg_maus c' i) = MAU_STATE_UNCONFIGURED \<longleftrightarrow> fl = RESF_Unconfig)"
proof -
  note commit = assms(1) [unfolded res_mau_commit_def]
  have i: "i \<in> set [0..<NMAUS]" using assms(3) by simp
  obtain c1 c2 where c12: "maus_ok c1" "res_mau_commit_1 fl i c1 = Inr c2" "cfg_maus c1 i = cfg_maus c i" "cfg_maus c' i = cfg_maus c2 i"
    by (rule maus.commit_at [OF commit assms(2) i, where obs = "\<lambda>c. cfg_maus c i"]) (use mau_step_others in auto)
  from c12 assms(3,4) have d: "mau_committed i fl c1 c2" by (intro res_mau_commit_1_committed) simp_all
  moreover have "fl = RESF_Unconfig \<or> fl = RESF_Config \<or> fl = RESF_Modify"
    using c12 assms(4,5) by (auto simp: res_mau_commit_1_def Let_def res_switch_def split: if_splits)
  moreover have "mau_ok i (cfg_maus c i)" using assms(2,3) by (simp add: maus_ok_def)
  ultimately show ?thesis
    using mau_committedD(3,5) [OF d] c12 assms(4,5) maus.commit_inv [OF assms(2) commit]
    by (auto simp: mau_ok_def)
qed

definition mau0_config :: config where
  "mau0_config = config_zero\<lparr>
     cfg_maus := (\<lambda>_. mau_zero)(0 := mau_zero\<lparr> mau_pip := \<lparr> mp_flags = RESF_Config, mp_pid = 0, mp_ino = 3, mp_guestid = 0,
       mp_cpuset = 1 \<rparr> \<rparr>),
     cfg_vcpus := (\<lambda>_. vcpu_zero)(0 := vcpu_zero\<lparr> v_guest := Some 0, v_strand := Some 0 \<rparr>) \<rparr>"

lemma mau0_returns: "\<not> isl (res_mau_commit RESF_Config mau0_config)"
  by code_simp

lemma mau0_ok: "maus_ok mau0_config"
  by (auto simp: maus_ok_def mau_ok_def mau0_config_def mau_zero_def MAU_STATE_UNCONFIGURED_def
      RESF_Config_def RESF_Modify_def bit_1_iff)

theorem res_mau_commit_cpusets_witness:
  "\<exists>c'. res_mau_commit RESF_Config mau0_config = Inr c' \<and> maus_ok c' \<and> mau_cpuset (cfg_maus c' 0) = 1 \<and>
     mau_state (cfg_maus c' 0) \<noteq> MAU_STATE_UNCONFIGURED"
proof -
  obtain c' where c': "res_mau_commit RESF_Config mau0_config = Inr c'"
    using mau0_returns by (cases "res_mau_commit RESF_Config mau0_config") auto
  have "mp_flags (mau_pip (cfg_maus mau0_config 0)) = RESF_Config" "mp_cpuset (mau_pip (cfg_maus mau0_config 0)) = 1"
    by (simp_all add: mau0_config_def)
  with res_mau_commit_cpusets [OF c' mau0_ok, of 0] c' show ?thesis
    by (simp add: NMAUS_def RESF_Config_def RESF_Unconfig_def RESF_Noop_def)
qed

text \<open>
  A unit \<open>m0\<close> of guest \<open>gi\<close> whose strands below \<open>t\<close> have been taken away: with no strand left it has no guest.
\<close>

definition mau_drained :: "nat \<Rightarrow> nat \<Rightarrow> mau \<Rightarrow> nat \<Rightarrow> config \<Rightarrow> bool" where
  "mau_drained i gi m0 t c \<longleftrightarrow> (let m = cfg_maus c i in mau_pip m = mau_pip m0 \<and> mau_pid m = of_nat i \<and>
     bits (mau_cpuset m) = bits (mau_cpuset m0) - {..<t} \<and>
     (if mau_cpuset m = 0 then mau_guest m = None
      else mau_guest m = Some gi \<and> g_maus (cfg_guests c gi) i \<noteq> None \<and> mau_state m \<noteq> MAU_STATE_UNCONFIGURED))"

lemma mau_modify_strand_drains:
  assumes "mau_drained i gi m0 t c" "t < 4" "gi < NGUESTS" "i < NMAUS" "\<not> bit (mp_cpuset (mau_pip m0)) t"
  shows "\<exists>c'. mau_modify_strand i t c = Inr c' \<and> mau_drained i gi m0 (Suc t) c'"
proof (cases "bit (mau_cpuset (cfg_maus c i)) t")
  case False
  have "mau_pip (cfg_maus c i) = mau_pip m0" using assms(1) by (simp only: mau_drained_def Let_def)
  then have "mau_cpuset (cfg_maus c i) AND push_bit t 1 = mp_cpuset (mau_pip (cfg_maus c i)) AND push_bit t 1"
    using False assms(5) by (simp add: cpuset_bit_eq)
  then have "mau_modify_strand i t c = Inr c" by (simp add: mau_modify_strand_def Let_def)
  moreover have "bits (mau_cpuset m0) - {..<Suc t} = bits (mau_cpuset m0) - {..<t}"
  proof -
    have "bits (mau_cpuset (cfg_maus c i)) = bits (mau_cpuset m0) - {..<t}" using assms(1) by (simp only: mau_drained_def Let_def)
    then have "t \<notin> bits (mau_cpuset m0) - {..<t}" using False by (metis mem_Collect_eq)
    then show ?thesis by (auto simp: less_Suc_eq)
  qed
  ultimately show ?thesis using assms(1) by (simp add: mau_drained_def Let_def)
next
  case True
  let ?m = "cfg_maus c i"
  have d: "mau_pip ?m = mau_pip m0" "mau_pid ?m = of_nat i" "bits (mau_cpuset ?m) = bits (mau_cpuset m0) - {..<t}"
    "mau_guest ?m = Some gi" "g_maus (cfg_guests c gi) i \<noteq> None" "mau_state ?m \<noteq> MAU_STATE_UNCONFIGURED"
    using assms(1) True by (auto simp: mau_drained_def Let_def split: if_splits)
  have pid: "unat (of_nat i :: u64) = i" using assms(4) by (simp add: NMAUS_def unat_of_nat)
  have t: "unat ((push_bit 2 (of_nat i :: u64) + of_nat t) AND 3) = t" using assms(2) by (intro thread_of_strand) simp_all
  define x where "x = mau_cpuset ?m AND NOT (push_bit t 1)"
  have x: "bits x = bits (mau_cpuset m0) - {..<Suc t}"
    using d(3) cpuset_remove [OF assms(2)] by (auto simp: x_def less_Suc_eq)
  define m where "m = ?m\<lparr> mau_cpu_active := (mau_cpu_active ?m)(t := 0), mau_cpuset := x \<rparr>"
  have step: "mau_modify_strand i t c = Inr (if x \<noteq> 0 then upd_mau i (\<lambda>_. m) c
      else upd_guest gi (\<lambda>g. g\<lparr> g_maus := (g_maus g)(i := None) \<rparr>)
        (upd_mau i (\<lambda>_. (init_mau m)\<lparr> mau_state := MAU_STATE_UNCONFIGURED, mau_guest := None \<rparr>) c))"
  proof -
    have n: "mau_cpuset ?m AND push_bit t 1 \<noteq> mp_cpuset (mau_pip ?m) AND push_bit t 1" "mp_cpuset (mau_pip ?m) AND push_bit t 1 = 0"
      using True assms(2,5) d(1) by (simp_all add: cpuset_bit_eq cpuset_bit)
    show ?thesis using n d(4-6) assms(3,4)
      by (simp add: mau_modify_strand_def unconfig_strand_from_mau_def Let_def STRANDID_2_COREID_SHIFT_def NSTRANDS_PER_CORE_MASK_def
          d(2) t pid x_def m_def)
  qed
  show ?thesis
  proof (cases "x = 0")
    case True
    then have "bits (mau_cpuset m0) - {..<Suc t} = {}" using x by simp
    then show ?thesis using step d(1,2) True
      by (simp add: mau_drained_def Let_def m_def init_mau_def mau_clear_queue_def upd_guest_def upd_mau_def bot_fun_def)
  next
    case False
    then show ?thesis using step x d by (simp add: mau_drained_def Let_def m_def upd_mau_def)
  qed
qed

text \<open>
  C12. A unit cannot be moved away from all its strands to later ones: when a modification of a unit
  that is configured for a guest asks for strands that all come behind those the unit has now, taking the last of these away, which is done
  first, leaves the unit without a guest, through which the first new one is then looked up.
\<close>

theorem mau_modify_move_faults:
  assumes "mau_ok i (cfg_maus c i)" "i < NMAUS" "mp_flags (mau_pip (cfg_maus c i)) = RESF_Modify"
    and "mau_is_up (cfg_maus c i)" "mau_guest (cfg_maus c i) = Some gi" "gi < NGUESTS" "g_maus (cfg_guests c gi) i \<noteq> None"
    and "\<forall>a b. bit (mau_cpuset (cfg_maus c i)) a \<longrightarrow> bit (mp_cpuset (mau_pip (cfg_maus c i))) b \<longrightarrow> a < b"
  shows "res_mau_commit_modify i c = Inl Bad_access"
proof -
  let ?m = "cfg_maus c i"
  let ?new = "bits (mp_cpuset (mau_pip ?m))"
  have up: "mau_state ?m \<noteq> MAU_STATE_UNCONFIGURED"
    using assms(4) by (auto simp: mau_is_up_def MAU_STATE_RUNNING_def MAU_STATE_ERROR_def MAU_STATE_UNCONFIGURED_def)
  with assms(1,3) have ok: "mp_cpuset (mau_pip ?m) \<noteq> 0" "?new \<subseteq> {..<4}" "mau_cpuset ?m \<noteq> 0" "mau_pid ?m = of_nat i"
    unfolding mau_ok_def by blast+
  define b where "b = Min ?new"
  have fin: "finite ?new" by (rule finite_subset [OF ok(2)]) simp
  have "?new \<noteq> {}" using ok(1) bits_empty by simp
  then have b: "b \<in> ?new" "\<And>t. t < b \<Longrightarrow> t \<notin> ?new"
    using Min_in [OF fin] Min_le [OF fin] unfolding b_def by (blast, metis leD)
  then have b4: "b < 4" using ok(2) by auto
  have "\<exists>c'. hfold (mau_modify_strand i) [0..<t] c = Inr c' \<and> mau_drained i gi ?m t c'" if "t \<le> b" for t
    using that
  proof (induction t)
    case 0
    show ?case using ok(3,4) up assms(5,7) by (simp add: mau_drained_def Let_def)
  next
    case (Suc t)
    then obtain c1 where c1: "hfold (mau_modify_strand i) [0..<t] c = Inr c1" "mau_drained i gi ?m t c1" by auto
    then obtain c2 where "mau_modify_strand i t c1 = Inr c2" "mau_drained i gi ?m (Suc t) c2"
      using mau_modify_strand_drains [OF c1(2) _ assms(6,2)] Suc.prems b(2) [of t] b4 by auto
    then show ?case using c1(1) by (simp add: hfold_append)
  qed
  then obtain c1 where c1: "hfold (mau_modify_strand i) [0..<b] c = Inr c1" "mau_drained i gi ?m b c1" by blast
  have empty_at: "mau_cpuset (cfg_maus d i) = 0 \<and> mau_guest (cfg_maus d i) = None \<and> mau_pip (cfg_maus d i) = mau_pip ?m"
    if "mau_drained i gi ?m b d" for d
  proof -
    have "bits (mau_cpuset ?m) - {..<b} = {}" using assms(8) b(1) by auto
    then have "bits (mau_cpuset (cfg_maus d i)) = {}" using that unfolding mau_drained_def Let_def by blast
    then have "mau_cpuset (cfg_maus d i) = 0" by (simp only: bits_empty)
    then show ?thesis using that by (simp add: mau_drained_def Let_def)
  qed
  then have "mau_modify_strand i b c1 = Inl Bad_access"
    using empty_at [OF c1(2)] b(1) b4
    by (simp add: mau_modify_strand_def cpuset_bit_eq cpuset_bit mau_to_vcpu_def Let_def)
  moreover have "[0..<NSTRANDS_PER_CORE] = [0..<b] @ b # [Suc b..<4]"
    using b4 upt_add_eq_append [of 0 b "4 - b"] by (simp add: NSTRANDS_PER_CORE_def upt_conv_Cons)
  ultimately show ?thesis using assms(4) c1(1) by (simp add: res_mau_commit_modify_def hfold_append)
qed

definition mau_move_config :: config where
  "mau_move_config = config_zero\<lparr>
     cfg_maus := (\<lambda>_. mau_zero)(0 := mau_zero\<lparr> mau_state := MAU_STATE_RUNNING, mau_cpuset := 3, mau_guest := Some 0,
       mau_pip := \<lparr> mp_flags = RESF_Modify, mp_pid = 0, mp_ino = 3, mp_guestid = 0, mp_cpuset = 12 \<rparr> \<rparr>),
     cfg_guests := (\<lambda>_. guest_zero\<lparr> g_maus := [0 \<mapsto> 0] \<rparr>) \<rparr>"

theorem mau_modify_move_faults_witness: "res_mau_commit_modify 0 mau_move_config = Inl Bad_access"
proof (rule mau_modify_move_faults [where gi = 0])
  have eq: "(3 :: u64) = mask 2" "(12 :: u64) = push_bit 2 (mask 2)" by (simp_all add: mask_eq_exp_minus_1)
  have b: "bit (3 :: u64) n \<longleftrightarrow> n < 2" "bit (12 :: u64) n \<longleftrightarrow> n = 2 \<or> n = 3" for n
    unfolding eq bit_push_bit_iff bit_mask_iff by auto
  let ?m = "cfg_maus mau_move_config 0"
  have m: "mau_cpuset ?m = 3" "mp_cpuset (mau_pip ?m) = 12" by (simp_all add: mau_move_config_def)
  have "bits 3 = {..<2}" "bits 12 = {2, 3}" unfolding b by auto
  then have sub: "bits (mau_cpuset ?m) \<subseteq> {..<4}" "bits (mp_cpuset (mau_pip ?m)) \<subseteq> {..<4}" unfolding m by (simp_all only:) auto
  show "mau_ok 0 ?m" unfolding mau_ok_def
    by (intro conjI impI, simp_all only: sub) (simp_all add: mau_move_config_def mau_zero_def MAU_STATE_RUNNING_def MAU_STATE_UNCONFIGURED_def RESF_Config_def RESF_Modify_def)
  show "\<forall>a b. bit (mau_cpuset ?m) a \<longrightarrow> bit (mp_cpuset (mau_pip ?m)) b \<longrightarrow> a < b"
    unfolding m b by auto
qed (simp_all add: mau_move_config_def mau_is_up_def mau_zero_def NGUESTS_def NMAUS_def)

end
