(* ===== verification/Reconf.thy ===== *)
theory Reconf
  imports Res_Mau
begin

text \<open>
  Reconfiguration (\<open>reconf.c\<close>, \<open>mdsup.c\<close>): the table of resource kinds, the
  operations of the control channel that check a new machine description against
  it (\<open>op_reconfig\<close>), the commit of what has been checked, and the bookkeeping of a
  reconfiguration that waits for a guest to exit.  The operations write their
  reply into the output buffer of the configuration.
\<close>

definition HV_MDCONT_VER_MAJOR :: u64 where "HV_MDCONT_VER_MAJOR = 1"
definition MDCONT_VER_MAJOR :: "u64 \<Rightarrow> u64" where "MDCONT_VER_MAJOR x = drop_bit 32 x"

definition HVctl_res_guest :: u32 where "HVctl_res_guest = 0"
definition HVctl_res_vcpu :: u32 where "HVctl_res_vcpu = 1"
definition HVctl_res_memory :: u32 where "HVctl_res_memory = 2"
definition HVctl_res_mau :: u32 where "HVctl_res_mau = 3"
definition HVctl_res_cwq :: u32 where "HVctl_res_cwq = 4"
definition HVctl_res_ldc :: u32 where "HVctl_res_ldc = 5"
definition HVctl_res_console :: u32 where "HVctl_res_console = 6"
definition HVctl_res_hv_ldc :: u32 where "HVctl_res_hv_ldc = 7"

subsection \<open>The payload of a message\<close>

text \<open>A 64-bit field occupies two cells, the high half first.\<close>

definition msg_u64 :: "hvctl_msg \<Rightarrow> nat \<Rightarrow> u64" where
  "msg_u64 m n = push_bit 32 (ucast (m_body m n)) OR ucast (m_body m (Suc n))"

definition put_u32 :: "nat \<Rightarrow> u32 \<Rightarrow> hvctl_msg \<Rightarrow> hvctl_msg" where
  "put_u32 n v m = m\<lparr> m_body := (m_body m)(n := v) \<rparr>"

definition put_u64 :: "nat \<Rightarrow> u64 \<Rightarrow> hvctl_msg \<Rightarrow> hvctl_msg" where
  "put_u64 n v m = m\<lparr> m_body := (m_body m)(n := ucast (drop_bit 32 v), Suc n := ucast v) \<rparr>"

definition upd_reply :: "(hvctl_msg \<Rightarrow> hvctl_msg) \<Rightarrow> config \<Rightarrow> config" where
  "upd_reply h c = c\<lparr> cfg_hvctl_obuf := h (cfg_hvctl_obuf c) \<rparr>"

subsection \<open>Machine descriptions\<close>

definition preparse_hvmd :: "u64 \<Rightarrow> config \<Rightarrow> (hvctl_status \<times> config) hv" where
  "preparse_hvmd mdp c =
     (let c = c\<lparr> cfg_parse_hvmd := mdp \<rparr> in
      with_parse_hvmd c (\<lambda>md.
        if TR_MAJOR (transport_version md) \<noteq> TR_MAJOR MD_TRANSPORT_VERSION then Inr (HVctl_st_badmd, c)
        else hbind (find_hdnames md inittable (cfg_hdnametable c)) (\<lambda>tbl.
          Inr (HVctl_st_ok, c\<lparr> cfg_hdnametable := tbl \<rparr>))))"

definition accept_hvmd :: "config \<Rightarrow> config" where
  "accept_hvmd c = c\<lparr> cfg_active_hvmd := cfg_parse_hvmd c \<rparr>"

subsection \<open>The table of resources\<close>

record res_info =
  ri_type :: u32
  ri_prep :: "config \<Rightarrow> config hv"
  ri_parse :: "parse_state \<Rightarrow> parse_result hv"
  ri_postparse :: "parse_state \<Rightarrow> parse_result hv"
  ri_commit :: "u8 \<Rightarrow> config \<Rightarrow> config hv"

text \<open>The control word queue is a resource with nothing to do on this platform (\<open>init_ontario.c\<close>).\<close>

definition res_cwq_prep :: "config \<Rightarrow> config hv" where "res_cwq_prep c = Inr c"
definition res_cwq_parse :: "parse_state \<Rightarrow> parse_result hv" where "res_cwq_parse s = Inr (HVctl_st_ok, s)"
definition res_cwq_postparse :: "parse_state \<Rightarrow> parse_result hv" where "res_cwq_postparse s = Inr (HVctl_st_ok, s)"
definition res_cwq_commit :: "u8 \<Rightarrow> config \<Rightarrow> config hv" where "res_cwq_commit flag c = Inr c"

definition resource_info :: "res_info list" where
  "resource_info = [
     \<lparr> ri_type = HVctl_res_guest, ri_prep = res_guest_prep, ri_parse = res_guest_parse,
       ri_postparse = res_guest_postparse, ri_commit = res_guest_commit \<rparr>,
     \<lparr> ri_type = HVctl_res_memory, ri_prep = res_memory_prep, ri_parse = res_memory_parse,
       ri_postparse = res_memory_postparse, ri_commit = res_memory_commit \<rparr>,
     \<lparr> ri_type = HVctl_res_vcpu, ri_prep = res_vcpu_prep, ri_parse = res_vcpu_parse,
       ri_postparse = res_vcpu_postparse, ri_commit = res_vcpu_commit \<rparr>,
     \<lparr> ri_type = HVctl_res_hv_ldc, ri_prep = res_hv_ldc_prep, ri_parse = res_hv_ldc_parse,
       ri_postparse = res_hv_ldc_postparse, ri_commit = res_hv_ldc_commit \<rparr>,
     \<lparr> ri_type = HVctl_res_ldc, ri_prep = res_ldc_prep, ri_parse = res_ldc_parse,
       ri_postparse = res_ldc_postparse, ri_commit = res_ldc_commit \<rparr>,
     \<lparr> ri_type = HVctl_res_console, ri_prep = res_console_prep, ri_parse = res_console_parse,
       ri_postparse = res_console_postparse, ri_commit = res_console_commit \<rparr>,
     \<lparr> ri_type = HVctl_res_mau, ri_prep = res_mau_prep, ri_parse = res_mau_parse,
       ri_postparse = res_mau_postparse, ri_commit = res_mau_commit \<rparr>,
     \<lparr> ri_type = HVctl_res_cwq, ri_prep = res_cwq_prep, ri_parse = res_cwq_parse,
       ri_postparse = res_cwq_postparse, ri_commit = res_cwq_commit \<rparr> ]"

definition commit_phase :: "u8 \<Rightarrow> res_info list \<Rightarrow> config \<Rightarrow> config hv" where
  "commit_phase flag = hfold (\<lambda>r. ri_commit r flag)"

definition commit_reconfig :: "config \<Rightarrow> config hv" where
  "commit_reconfig c =
     hbind (commit_phase RESF_Unconfig (rev resource_info) c) (\<lambda>c.
     hbind (commit_phase RESF_Config resource_info c) (\<lambda>c.
     hbind (commit_phase RESF_Rebind resource_info c) (\<lambda>c.
     hbind (commit_phase RESF_Modify resource_info c) (\<lambda>c.
     Inr (accept_hvmd c)))))"

subsection \<open>The operations\<close>

text \<open>
  \<open>spinlock_enter\<close> and \<open>spinlock_exit\<close> on \<open>del_reconf_lock\<close>.  The control channel is
  served by one strand at a time, so a lock that is held at an operation's start is
  never released while the operation waits for it.
\<close>

definition del_reconf_enter :: "config \<Rightarrow> config hv" where
  "del_reconf_enter c = (if cfg_del_reconf_lock c then Inl Hang else Inr (c\<lparr> cfg_del_reconf_lock := True \<rparr>))"

definition del_reconf_exit :: "config \<Rightarrow> config" where
  "del_reconf_exit c = c\<lparr> cfg_del_reconf_lock := False \<rparr>"

definition init_reconfig_error_reply :: "u32 \<Rightarrow> config \<Rightarrow> config" where
  "init_reconfig_error_reply code = upd_reply (\<lambda>m.
     put_u32 5 (- 1) (put_u32 4 (- 1) (put_u32 3 code (put_u32 2 HVctl_res_guest (put_u64 0 0 m)))))"

text \<open>
  The reply to a failed parse.  \<open>junk\<close> is what the uninitialised locals
  \<open>fail_code\<close>, \<open>failnodep - &mdp->elem[0]\<close> and \<open>fail_res_id\<close> hold when the parse
  function has not set them.
\<close>

type_synonym rc_junk = "u32 \<times> u32 \<times> u32"

definition rcfail_reply :: "rc_junk \<Rightarrow> u64 \<Rightarrow> u32 \<Rightarrow> fail_info \<Rightarrow> config \<Rightarrow> config" where
  "rcfail_reply junk mdp type f = (case junk of (jcode, jnode, jres) \<Rightarrow> upd_reply (\<lambda>m.
     put_u32 5 (case f_res_id f of None \<Rightarrow> jres | Some r \<Rightarrow> r)
     (put_u32 4 (case f_node f of None \<Rightarrow> jnode | Some None \<Rightarrow> 0 | Some (Some n) \<Rightarrow> of_nat n)
     (put_u32 3 (case f_code f of None \<Rightarrow> jcode | Some x \<Rightarrow> x)
     (put_u32 2 type (put_u64 0 mdp m))))))"

text \<open>Leaving with an error in a delayed reconfiguration that has been begun.\<close>

definition reconfig_cancel :: "bool \<Rightarrow> config \<Rightarrow> config" where
  "reconfig_cancel isdelayed c = (if isdelayed then del_reconf_exit (c\<lparr> cfg_del_reconf_gid := INVALID_GID \<rparr>) else c)"

fun reconfig_parse ::
    "rc_junk \<Rightarrow> bool \<Rightarrow> u64 \<Rightarrow> res_info list \<Rightarrow> config \<Rightarrow> ((hvctl_status \<times> config) + config) hv" where
  "reconfig_parse junk isdelayed mdp [] c = Inr (Inr c)"
| "reconfig_parse junk isdelayed mdp (r # rs) c =
     hbind (ri_parse r (c, fail_info_uninit)) (\<lambda>(status, c, f).
       if status \<noteq> HVctl_st_ok
       then Inr (Inl (status, reconfig_cancel isdelayed (rcfail_reply junk mdp (ri_type r) f c)))
       else reconfig_parse junk isdelayed mdp rs c)"

fun reconfig_postparse ::
    "rc_junk \<Rightarrow> bool \<Rightarrow> u64 \<Rightarrow> res_info list \<Rightarrow> config \<Rightarrow> ((hvctl_status \<times> config) + config) hv" where
  "reconfig_postparse junk isdelayed mdp [] c = Inr (Inr c)"
| "reconfig_postparse junk isdelayed mdp (r # rs) c =
     hbind (ri_postparse r (c, fail_info_uninit)) (\<lambda>(status, c, f).
       if status \<noteq> HVctl_st_ok
       then Inr (Inl (status, reconfig_cancel isdelayed
         (rcfail_reply junk mdp (ri_type r) (f\<lparr> f_node := Some None \<rparr>) c)))
       else reconfig_postparse junk isdelayed mdp rs c)"

text \<open>The checks before the new description is looked at.\<close>

definition reconfig_enter :: "u64 \<Rightarrow> bool \<Rightarrow> config \<Rightarrow> ((hvctl_status \<times> config) + config) hv" where
  "reconfig_enter guestid isdelayed c =
     (let refuse = (\<lambda>st c. Inr (Inl (st, init_reconfig_error_reply HVctl_e_guest_invalid_id c))) in
      if isdelayed then
        if unat guestid \<ge> NGUESTS then refuse HVctl_st_einval c
        else if g_state (cfg_guests c (unat guestid)) = GUEST_STATE_UNCONFIGURED then refuse HVctl_st_einval c
        else hbind (del_reconf_enter c) (\<lambda>c.
          if cfg_del_reconf_gid c \<noteq> INVALID_GID \<and> cfg_del_reconf_gid c \<noteq> guestid
          then refuse HVctl_st_eillegal (del_reconf_exit c)
          else Inr (Inr c))
      else hbind (del_reconf_enter c) (\<lambda>c.
        if cfg_del_reconf_gid c \<noteq> INVALID_GID then refuse HVctl_st_eillegal (del_reconf_exit c)
        else Inr (Inr (del_reconf_exit c))))"

text \<open>The root node and the content version.  These exits do not release the lock.\<close>

definition reconfig_check_root :: "config \<Rightarrow> ((hvctl_status \<times> config) + config) hv" where
  "reconfig_check_root c =
     with_parse_hvmd c (\<lambda>md.
       hbind (md_find_node md None (MDNAME c ''root'')) (\<lambda>r. case r of
         None \<Rightarrow> Inr (Inl (HVctl_st_badmd, c))
       | Some rootnodep \<Rightarrow>
           md_prop md rootnodep (MDNAME c ''content_version'') (Inr (Inl (HVctl_st_mdnotsupp, c))) (\<lambda>content_version.
             if MDCONT_VER_MAJOR content_version \<noteq> HV_MDCONT_VER_MAJOR then Inr (Inl (HVctl_st_mdnotsupp, c))
             else Inr (Inr c))))"

definition op_reconfig :: "rc_junk \<Rightarrow> hvctl_msg \<Rightarrow> bool \<Rightarrow> config \<Rightarrow> (hvctl_status \<times> config) hv" where
  "op_reconfig junk cmd isdelayed c =
     (let mdp = msg_u64 cmd 0; guestid = ucast (m_body cmd 2) in
      hbind (
        parse_then (reconfig_enter guestid isdelayed c) (\<lambda>c.
        parse_then (hbind (preparse_hvmd mdp c) (\<lambda>(status, c).
          Inr (if status \<noteq> HVctl_st_ok then Inl (status, reconfig_cancel isdelayed c) else Inr c))) (\<lambda>c.
        parse_then (reconfig_check_root c) (\<lambda>c.
        hbind (hfold ri_prep resource_info c) (\<lambda>c.
        parse_then (reconfig_parse junk isdelayed mdp resource_info c) (\<lambda>c.
        reconfig_postparse junk isdelayed mdp resource_info c))))))
      (\<lambda>x. case x of Inl r \<Rightarrow> Inr r
        | Inr c \<Rightarrow> if isdelayed then Inr (HVctl_st_ok, del_reconf_exit (c\<lparr> cfg_del_reconf_gid := guestid \<rparr>))
                  else hbind (commit_reconfig c) (\<lambda>c. Inr (HVctl_st_ok, c))))"

definition op_cancel_reconfig :: "config \<Rightarrow> (hvctl_status \<times> config) hv" where
  "op_cancel_reconfig c = hbind (del_reconf_enter c) (\<lambda>c.
     let (status, c) = (if cfg_del_reconf_gid c = INVALID_GID then (HVctl_st_eillegal, c)
                        else (HVctl_st_ok, c\<lparr> cfg_del_reconf_gid := INVALID_GID \<rparr>)) in
     Inr (status, del_reconf_exit c))"

subsection \<open>What parsing leaves alone\<close>

text \<open>
  The live configuration (\<open>live_view\<close>): everything but the proposals (\<open>pip\<close>) of the resources, the
  description being parsed and its names, the reply, and the record of a delayed
  reconfiguration.  The guest parser writes two permissions of the live guest itself, although a
  refused description is meant to change nothing; \<open>without_perms\<close> leaves these out, and \<open>kept_view\<close>,
  which the proofs use, is both together.
\<close>

definition without_perms :: "config \<Rightarrow> config" where
  "without_perms c = c\<lparr> cfg_guests := \<lambda>i. (cfg_guests c i)\<lparr> g_perfreght_accessible := 0, g_rng_ctl_accessible := 0 \<rparr> \<rparr>"

definition live_guest :: "nat \<Rightarrow> guest \<Rightarrow> guest" where
  "live_guest i g = g\<lparr> g_guestid := (if i < NGUESTS then g_guestid g else 0),
     g_console := (g_console g)\<lparr> cons_pip := cons_pip console_zero \<rparr>,
     g_ldc_endpoint := \<lambda>j. (g_ldc_endpoint g j)\<lparr> le_pip := ldce_parse_zero \<rparr>, g_pip := guest_parse_info_zero \<rparr>"

definition live_view :: "config \<Rightarrow> config" where
  "live_view c = c\<lparr> cfg_parse_hvmd := 0, cfg_hdnametable := \<lambda>_. 0, cfg_guests := \<lambda>i. live_guest i (cfg_guests c i),
     cfg_mblocks := \<lambda>i. (cfg_mblocks c i)\<lparr> mb_pip := mb_pip mblock_zero \<rparr>,
     cfg_vcpus := \<lambda>i. (cfg_vcpus c i)\<lparr> v_pip := v_pip vcpu_zero \<rparr>,
     cfg_hv_ldcs := \<lambda>i. (cfg_hv_ldcs c i)\<lparr> le_pip := ldce_parse_zero \<rparr>,
     cfg_maus := \<lambda>i. (cfg_maus c i)\<lparr> mau_pip := mau_pip mau_zero \<rparr>,
     cfg_hvctl_obuf := hvctl_msg_zero, cfg_del_reconf_gid := 0, cfg_del_reconf_lock := False \<rparr>"

definition kept_guest :: "nat \<Rightarrow> guest \<Rightarrow> guest" where
  "kept_guest i g = g\<lparr> g_guestid := (if i < NGUESTS then g_guestid g else 0),
     g_console := (g_console g)\<lparr> cons_pip := cons_pip console_zero \<rparr>,
     g_perfreght_accessible := 0, g_rng_ctl_accessible := 0,
     g_ldc_endpoint := \<lambda>j. (g_ldc_endpoint g j)\<lparr> le_pip := ldce_parse_zero \<rparr>, g_pip := guest_parse_info_zero \<rparr>"

definition kept_view :: "config \<Rightarrow> config" where
  "kept_view c = c\<lparr> cfg_parse_hvmd := 0, cfg_hdnametable := \<lambda>_. 0, cfg_guests := \<lambda>i. kept_guest i (cfg_guests c i),
     cfg_mblocks := \<lambda>i. (cfg_mblocks c i)\<lparr> mb_pip := mb_pip mblock_zero \<rparr>,
     cfg_vcpus := \<lambda>i. (cfg_vcpus c i)\<lparr> v_pip := v_pip vcpu_zero \<rparr>,
     cfg_hv_ldcs := \<lambda>i. (cfg_hv_ldcs c i)\<lparr> le_pip := ldce_parse_zero \<rparr>,
     cfg_maus := \<lambda>i. (cfg_maus c i)\<lparr> mau_pip := mau_pip mau_zero \<rparr>,
     cfg_hvctl_obuf := hvctl_msg_zero, cfg_del_reconf_gid := 0, cfg_del_reconf_lock := False \<rparr>"

lemma live_without_perms: "live_view (without_perms c) = kept_view c"
proof -
  have "live_guest i (g\<lparr> g_perfreght_accessible := 0, g_rng_ctl_accessible := 0 \<rparr>) = kept_guest i g" for i g
    by (cases g) (simp add: live_guest_def kept_guest_def cong: if_cong)
  then show ?thesis by (simp add: live_view_def without_perms_def kept_view_def)
qed

lemma kept_view_upd:
  "kept_guest i (h (cfg_guests c i)) = kept_guest i (cfg_guests c i) \<Longrightarrow> kept_view (upd_guest i h c) = kept_view c"
  "(h1 (cfg_mblocks c i))\<lparr> mb_pip := mb_pip mblock_zero \<rparr> = (cfg_mblocks c i)\<lparr> mb_pip := mb_pip mblock_zero \<rparr> \<Longrightarrow>
     kept_view (upd_mblock i h1 c) = kept_view c"
  "(h2 (cfg_vcpus c i))\<lparr> v_pip := v_pip vcpu_zero \<rparr> = (cfg_vcpus c i)\<lparr> v_pip := v_pip vcpu_zero \<rparr> \<Longrightarrow>
     kept_view (upd_vcpu i h2 c) = kept_view c"
  "(h3 (cfg_hv_ldcs c i))\<lparr> le_pip := ldce_parse_zero \<rparr> = (cfg_hv_ldcs c i)\<lparr> le_pip := ldce_parse_zero \<rparr> \<Longrightarrow>
     kept_view (upd_hv_ldc i h3 c) = kept_view c"
  "(h4 (cfg_maus c i))\<lparr> mau_pip := mau_pip mau_zero \<rparr> = (cfg_maus c i)\<lparr> mau_pip := mau_pip mau_zero \<rparr> \<Longrightarrow>
     kept_view (upd_mau i h4 c) = kept_view c"
  unfolding kept_view_def upd_defs
  by (simp_all, (rule arg_cong [where f = "\<lambda>a. cfg_guests_update (\<lambda>_. a) _"] arg_cong [where f = "\<lambda>a. cfg_mblocks_update (\<lambda>_. a) _"]
      | simp add: fun_eq_iff)+)

lemma live_pips [simp]:
  "kept_view (set_mblock_flags i fl c) = kept_view c" "kept_view (set_vcpu_flags i fl c) = kept_view c"
  "kept_view (ldc_pip i j p c) = kept_view c" "kept_view (set_ldc_flags i j fl c) = kept_view c"
  "kept_view (hv_ldc_pip i p c) = kept_view c" "kept_view (set_hv_ldc_flags i fl c) = kept_view c"
  "kept_view (upd_console_pip i q c) = kept_view c" "kept_view (set_console_flags i fl c) = kept_view c"
  "kept_view (upd_mau_pip i r c) = kept_view c" "kept_view (set_mau_flags i fl c) = kept_view c"
  "kept_view (upd_reply h c) = kept_view c" "kept_view (del_reconf_exit c) = kept_view c"
  "kept_view (c\<lparr> cfg_del_reconf_gid := x \<rparr>) = kept_view c" "kept_view (c\<lparr> cfg_del_reconf_lock := y \<rparr>) = kept_view c"
  "kept_view (c\<lparr> cfg_parse_hvmd := x \<rparr>) = kept_view c" "kept_view (c\<lparr> cfg_hdnametable := t \<rparr>) = kept_view c"
  by (simp_all add: kept_view_upd set_mblock_flags_def set_vcpu_flags_def set_ldc_flags_def ldc_pip_def upd_ldc_ep_def
      set_hv_ldc_flags_def hv_ldc_pip_def set_console_flags_def upd_console_pip_def set_mau_flags_def upd_mau_pip_def
      kept_guest_def upd_ldc_def upd_console_def fun_upd_def fun_eq_iff if_distrib cong: if_cong)
    (simp_all add: kept_view_def upd_reply_def del_reconf_exit_def)

lemma live_mblock_noted: "mblock_noted c c' \<Longrightarrow> kept_view c' = kept_view c"
  using kept_view_upd(2) [of "\<lambda>_. _" c] by (auto simp: mblock_noted_def upd_mblock_def)

lemma res_memory_parse_1_live: "hpost (\<lambda>r. kept_view (result_cfg r) = kept_view c) (res_memory_parse_1 md n (c, f))"
  by (rule hpost_mono [OF res_memory_parse_1_post]) (auto dest: live_mblock_noted)

lemma res_vcpu_parse_1_live: "hpost (\<lambda>r. kept_view (result_cfg r) = kept_view c) (res_vcpu_parse_1 md n (c, f))"
  unfolding res_vcpu_parse_1_def by (intro hpost_rules) (simp_all add: kept_view_upd)

lemma ldc_elect_live:
  "kept_view c = v \<Longrightarrow> hpost (\<lambda>r. kept_view (result_cfg r) = v) (ldc_elect gi j ty ch tx rx tg (c, f))"
  unfolding ldc_elect_def by (intro hpost_rules) simp_all

lemma ldc_parse_svc_live:
  "kept_view c = v \<Longrightarrow> hpost (\<lambda>r. kept_view (result_cfg r) = v) (ldc_parse_svc md n gi j ty ch tg (c, f))"
  unfolding ldc_parse_svc_def ldc_ill_prop_def ldc_miss_prop_def
  by (intro hpost_rules ldc_elect_live) simp_all

lemma res_ldc_parse_2_live: "hpost (\<lambda>r. kept_view (result_cfg r) = kept_view c) (res_ldc_parse_2 g md n (c, f))"
  unfolding res_ldc_parse_2_def ldc_ill_prop_def ldc_miss_prop_def
  by (intro hpost_rules ldc_parse_svc_live) simp_all

text \<open>The rules but that for \<open>parse_then\<close>, which \<open>parse_then_keeps\<close> replaces here.\<close>

lemmas keep_rules = hpost_md_prop hpost_md_prop_or hpost_hbind hpost_hassert hpost_hguard hpost_if hpost_let
  hpost_case_option hpost_case_prod hpost_Inr hpost_Inl hpost_parse_fail hpost_parse_ok

lemma md_foreach_keeps:
  assumes "P c" "\<And>m c f. P c \<Longrightarrow> hpost (\<lambda>r. P (result_cfg r)) (body m (c, f))"
  shows "hpost (\<lambda>r. P (result_cfg r)) (md_foreach md n a t body (c, f))"
proof -
  have "hpost (case_sum (\<lambda>r. P (result_cfg (Inl r))) (\<lambda>s. P (fst s))) (md_foreach md n a t body (c, f))"
  proof (rule hpost_md_foreach)
    fix m and u :: parse_state
    assume u: "P (fst u)"
    show "hpost (case_sum (\<lambda>r. P (result_cfg (Inl r))) (\<lambda>s. P (fst s))) (body m u)"
      by (rule hpost_mono [OF assms(2) [of "fst u" m "snd u", OF u, simplified]])
        (auto split: sum.splits)
  qed (simp add: assms(1))
  then show ?thesis by (rule hpost_mono) (auto split: sum.splits)
qed

lemma res_ldc_parse_1_live: "hpost (\<lambda>r. kept_view (result_cfg r) = kept_view c) (res_ldc_parse_1 md n (c, f))"
  unfolding res_ldc_parse_1_def prod.case
  by (intro hpost_md_prop hpost_Inl md_foreach_keeps [where P = "\<lambda>d. kept_view d = kept_view c"] hpost_with_failnode)
    (auto intro: hpost_mono [OF res_ldc_parse_2_live])

lemma res_hv_ldc_parse_1_live: "hpost (\<lambda>r. kept_view (result_cfg r) = kept_view c) (res_hv_ldc_parse_1 md n (c, f))"
  unfolding res_hv_ldc_parse_1_def
  by (intro keep_rules parse_then_keeps [where P = "\<lambda>d. kept_view d = kept_view c"]) simp_all

lemma console_parse_type_live:
  "hpost (\<lambda>r. kept_view (result_cfg r) = kept_view c) (console_parse_type md n gi (c, f))"
  unfolding console_parse_type_def by (intro keep_rules) simp_all

lemma res_console_parse_1_live: "hpost (\<lambda>r. kept_view (result_cfg r) = kept_view c) (res_console_parse_1 md n (c, f))"
  unfolding res_console_parse_1_def
  by (intro keep_rules parse_then_keeps [where P = "\<lambda>d. kept_view d = kept_view c"])
    (simp_all add: console_parse_type_live)

lemma mau_parse_cpu_live:
  assumes "kept_view c = v"
  shows "hpost (case_sum (\<lambda>(st, c', f'). kept_view c' = v) (\<lambda>((c', f'), m'). kept_view c' = v)) (mau_parse_cpu md n ((c, f), m))"
  unfolding mau_parse_cpu_def Let_def
  by (intro keep_rules) (use assms in \<open>auto simp: hassert_eq_Inr split: option.splits\<close>)

lemma mau_elect_live: "kept_view c = v \<Longrightarrow> hpost (\<lambda>r. kept_view (result_cfg r) = v) (mau_elect i gid ino (c, f))"
  unfolding mau_elect_def by (intro keep_rules) simp_all

lemma res_mau_parse_1_live: "hpost (\<lambda>r. kept_view (result_cfg r) = kept_view c) (res_mau_parse_1 md n (c, f))"
proof -
  have loop: "hpost (case_sum (\<lambda>(st, c', f'). kept_view c' = kept_view c) (\<lambda>((c', f'), m'). kept_view c' = kept_view c))
    (md_foreach md n a t (mau_parse_cpu md) ((c, f), None))" for a t
    by (rule hpost_md_foreach) (auto intro: mau_parse_cpu_live)
  show ?thesis
    unfolding res_mau_parse_1_def prod.case
    by (rule hpost_parse_then, rule hpost_mono [OF loop])
      (auto split: sum.splits intro!: hpost_md_prop hpost_parse_fail hpost_case_option hpost_Inl hpost_case_prod mau_elect_live)
qed

text \<open>All the parse functions, and the preparation before them.\<close>

lemma parse_live:
  "hpost (\<lambda>(st, c', f'). kept_view c' = kept_view c) (res_memory_parse (c, f))"
  "hpost (\<lambda>(st, c', f'). kept_view c' = kept_view c) (res_vcpu_parse (c, f))"
  "hpost (\<lambda>(st, c', f'). kept_view c' = kept_view c) (res_ldc_parse (c, f))"
  "hpost (\<lambda>(st, c', f'). kept_view c' = kept_view c) (res_console_parse (c, f))"
  "hpost (\<lambda>(st, c', f'). kept_view c' = kept_view c) (res_mau_parse (c, f))"
  unfolding res_memory_parse_def res_vcpu_parse_def res_ldc_parse_def res_console_parse_def res_mau_parse_def
  by ((rule res_parse_nodes_inv [where P = "\<lambda>d. kept_view d = kept_view c"], rule refl,
      (rule hpost_with_failnode [where P = "\<lambda>d. kept_view d = kept_view c"])?,
      rule hpost_mono [OF res_memory_parse_1_live] hpost_mono [OF res_vcpu_parse_1_live] hpost_mono [OF res_ldc_parse_1_live]
        hpost_mono [OF res_console_parse_1_live] hpost_mono [OF res_mau_parse_1_live], simp)+)

lemma res_hv_ldc_parse_live: "hpost (\<lambda>(st, c', f'). kept_view c' = kept_view c) (res_hv_ldc_parse (c, f))"
  unfolding res_hv_ldc_parse_def with_parse_hvmd_def
proof (intro keep_rules)
  fix c1 f1 md r1 r mdep x y z
  assume c1: "(c, f) = (c1, f1)" and y: "md_foreach md mdep (MDARC (MDNAME c1 ''fwd'')) (MDNODE (MDNAME c1 ''ldc_endpoint''))
      (with_failnode res_hv_ldc_parse_1 md) (c1, f1) = Inr y"
  have "hpost (\<lambda>r. kept_view (result_cfg r) = kept_view c1) (md_foreach md mdep (MDARC (MDNAME c1 ''fwd''))
      (MDNODE (MDNAME c1 ''ldc_endpoint'')) (with_failnode res_hv_ldc_parse_1 md) (c1, f1))"
    by (rule md_foreach_keeps [where P = "\<lambda>d. kept_view d = kept_view c1"])
      (auto intro!: hpost_with_failnode [where P = "\<lambda>d. kept_view d = kept_view c1"]
        hpost_mono [OF res_hv_ldc_parse_1_live])
  from hpostD [OF this y] show "hpost (\<lambda>(st, c', f'). kept_view c' = kept_view c) (parse_end y)"
    using c1 by (auto simp: parse_end_def hpost_def split: sum.splits)
qed simp_all

text \<open>
  For the guests: they keep their numbers, and their flags fit their state, from the
  preparation on.
\<close>

definition guest_flags_ok :: "config \<Rightarrow> bool" where
  "guest_flags_ok c \<longleftrightarrow> (\<forall>i<NGUESTS. guest_flag_ok (cfg_guests c i))"

lemma kept_guest_same: "guest_same_live g g' \<Longrightarrow> (i < NGUESTS \<Longrightarrow> g_guestid g' = g_guestid g) \<Longrightarrow> kept_guest i g' = kept_guest i g"
  unfolding guest_same_live_def by (drule arg_cong [where f = "kept_guest i"]) (auto simp: kept_guest_def)

lemma kept_view_guests_ok: "kept_view c' = kept_view c \<Longrightarrow> guests_ok c \<Longrightarrow> guests_ok c'"
proof -
  have id: "g_guestid (cfg_guests (kept_view d) i) = g_guestid (cfg_guests d i)" if "i < NGUESTS" for d i
    using that by (simp add: kept_view_def kept_guest_def)
  assume "kept_view c' = kept_view c" "guests_ok c"
  then show ?thesis using id unfolding guests_ok_def by metis
qed

lemma guest_parse_inv_live: "guest_parse_inv c0 c \<Longrightarrow> guests_ok c0 \<Longrightarrow> kept_view c = kept_view c0"
proof -
  assume inv: "guest_parse_inv c0 c" and ok: "guests_ok c0"
  have g: "kept_guest i (cfg_guests c i) = kept_guest i (cfg_guests c0 i)" for i
    using inv ok by (intro kept_guest_same) (simp_all add: guest_parse_inv_def guests_ok_def)
  have "kept_view (c0\<lparr> cfg_guests := cfg_guests c \<rparr>) = kept_view c0" by (simp add: kept_view_def g)
  with inv show ?thesis unfolding guest_parse_inv_def by metis
qed

lemma guest_parse_live:
  assumes "guests_ok c" "guest_flags_ok c"
  shows "hpost (\<lambda>(st, c', f'). kept_view c' = kept_view c) (res_guest_parse (c, f))"
proof (rule hpost_mono [OF res_guest_parse_inv [of c c]])
  show "guest_parse_inv c c" using assms by (simp add: guest_parse_inv_def guest_flags_ok_def guest_same_live_refl)
qed (auto intro: guest_parse_inv_live [OF _ assms(1)])

text \<open>What \<open>prep\<close> keeps: the live configuration, and the flags of guests.\<close>

definition prep_keeps :: "config \<Rightarrow> config \<Rightarrow> bool" where
  "prep_keeps c c' \<longleftrightarrow> kept_view c' = kept_view c \<and> cfg_parse_hvmd c' = cfg_parse_hvmd c \<and>
     cfg_hdnametable c' = cfg_hdnametable c \<and>
     (\<forall>i. g_state (cfg_guests c' i) = g_state (cfg_guests c i) \<and> g_pip (cfg_guests c' i) = g_pip (cfg_guests c i))"

lemma prep_keeps_trans: "prep_keeps c c' \<Longrightarrow> prep_keeps c' c'' \<Longrightarrow> prep_keeps c c''"
  by (simp add: prep_keeps_def)

lemma prep_keeps_steps:
  "prep_keeps c (set_mblock_flags i fl c)" "prep_keeps c (set_vcpu_flags i fl c)" "prep_keeps c (set_hv_ldc_flags i fl c)"
  "prep_keeps c (set_ldc_flags i j fl c)" "prep_keeps c (set_console_flags i fl c)" 
  "(\<And>m. (h m)\<lparr> mau_pip := mau_pip mau_zero \<rparr> = m\<lparr> mau_pip := mau_pip mau_zero \<rparr>) \<Longrightarrow> prep_keeps c (upd_mau i h c)"
  by (simp_all add: prep_keeps_def kept_view_upd)
    (simp_all add: set_mblock_flags_def set_vcpu_flags_def set_ldc_flags_def ldc_pip_def upd_ldc_ep_def
      set_hv_ldc_flags_def hv_ldc_pip_def set_console_flags_def upd_console_pip_def upd_mau_pip_def upd_defs upd_console_def)

lemma prep_keeps_fold:
  assumes "hfold f xs c = Inr c'" "\<And>x d d'. f x d = Inr d' \<Longrightarrow> prep_keeps d d'"
  shows "prep_keeps c c'"
  by (rule hfold_inv [OF assms(1)]) (simp add: prep_keeps_def, blast intro: prep_keeps_trans assms(2))

lemma prep_keeps_all:
  "res_memory_prep c = Inr c' \<Longrightarrow> prep_keeps c c'" "res_vcpu_prep c = Inr c' \<Longrightarrow> prep_keeps c c'"
  "res_hv_ldc_prep c = Inr c' \<Longrightarrow> prep_keeps c c'" "res_ldc_prep c = Inr c' \<Longrightarrow> prep_keeps c c'"
  "res_console_prep c = Inr c' \<Longrightarrow> prep_keeps c c'" "res_mau_prep c = Inr c' \<Longrightarrow> prep_keeps c c'"
  "res_cwq_prep c = Inr c' \<Longrightarrow> prep_keeps c c'"
  unfolding res_memory_prep_def res_vcpu_prep_def res_hv_ldc_prep_def res_ldc_prep_def res_console_prep_def
    res_mau_prep_def res_cwq_prep_def
  by (erule prep_keeps_fold, force simp: prep_keeps_steps res_ldc_prep_1_def hassert_eq_Inr split: prod.splits)+
    (simp add: prep_keeps_def)

lemma prep_phase:
  assumes "hfold ri_prep resource_info c = Inr c'" "guests_ok c"
  shows "kept_view c' = kept_view c \<and> guest_flags_ok c'"
proof -
  from assms(1) obtain c1 where c1: "res_guest_prep c = Inr c1" and k: "prep_keeps c1 c'"
    unfolding resource_info_def
    by (simp add: hbind_eq_Inr) (metis prep_keeps_trans prep_keeps_all)
  from res_guest_prep_inv [OF c1 assms(2)] guest_parse_inv_live [OF _ assms(2)]
  have "kept_view c1 = kept_view c" "guest_flags_ok c1"
    by (auto simp: guest_parse_inv_def guest_flags_ok_def)
  with k show ?thesis by (simp add: prep_keeps_def guest_flags_ok_def guest_flag_ok_def)
qed

text \<open>The loops over the resource kinds.\<close>

abbreviation stays_live :: "config \<Rightarrow> (hvctl_status \<times> config) + config \<Rightarrow> bool" where
  "stays_live v \<equiv> case_sum (\<lambda>(st, c'). kept_view c' = v) (\<lambda>c'. kept_view c' = v)"

lemma live_fail_reply: "kept_view (reconfig_cancel dl (rcfail_reply junk mdp ty f c)) = kept_view c"
  by (simp add: reconfig_cancel_def rcfail_reply_def split: prod.splits)

lemma reconfig_parse_Cons:
  assumes "hpost (\<lambda>(st, c', f'). kept_view c' = v) (ri_parse r (c, fail_info_uninit))"
    and "\<And>c1. kept_view c1 = v \<Longrightarrow> hpost (stays_live v) (reconfig_parse junk dl mdp rs c1)"
  shows "hpost (stays_live v) (reconfig_parse junk dl mdp (r # rs) c)"
  unfolding reconfig_parse.simps
  by (rule hpost_hbind, drule hpostD [OF assms(1)], intro hpost_case_prod hpost_if hpost_Inr)
    (simp_all add: live_fail_reply assms(2))

lemma reconfig_postparse_live:
  assumes "\<And>r d. r \<in> set rs \<Longrightarrow> hpost (\<lambda>(st, c', f'). c' = d) (ri_postparse r (d, fail_info_uninit))" "kept_view c = v"
  shows "hpost (stays_live v) (reconfig_postparse junk dl mdp rs c)"
  using assms(1)
proof (induction rs)
  case (Cons r rs)
  have IH: "hpost (stays_live v) (reconfig_postparse junk dl mdp rs c)" using Cons by simp
  have r: "hpost (\<lambda>(st, c', f'). c' = c) (ri_postparse r (c, fail_info_uninit))" using Cons.prems [of r c] by simp
  show ?case unfolding reconfig_postparse.simps
    by (rule hpost_hbind, drule hpostD [OF r], intro hpost_case_prod hpost_if hpost_Inr)
      (use assms(2) IH in \<open>simp_all add: live_fail_reply\<close>)
qed (simp add: hpost_def assms(2))

lemma res_cwq_parse_live: "hpost (\<lambda>(st, c', f'). kept_view c' = kept_view c) (res_cwq_parse (c, f))"
  by (simp add: res_cwq_parse_def hpost_def)

lemma parse_phase:
  assumes "guests_ok c" "guest_flags_ok c" "kept_view c = v"
  shows "hpost (stays_live v) (reconfig_parse junk dl mdp resource_info c)"
  unfolding resource_info_def
  by (rule reconfig_parse_Cons, simp, rule hpost_mono [OF guest_parse_live [OF assms(1,2)]], use assms(3) in force,
      (rule reconfig_parse_Cons, simp, rule hpost_mono [OF parse_live(1)] hpost_mono [OF parse_live(2)]
         hpost_mono [OF res_hv_ldc_parse_live] hpost_mono [OF parse_live(3)] hpost_mono [OF parse_live(4)]
         hpost_mono [OF parse_live(5)] hpost_mono [OF res_cwq_parse_live], force)+,
      simp add: hpost_def)

lemma postparse_phase:
  assumes "kept_view c = v"
  shows "hpost (stays_live v) (reconfig_postparse junk dl mdp resource_info c)"
proof (rule reconfig_postparse_live [OF _ assms])
  have guest: "hpost (\<lambda>(st, c', f'). c' = d) (res_guest_postparse (d, f))" for d f
  proof (unfold res_guest_postparse_def, rule hpost_hbind)
    fix x
    assume x: "hfold res_guest_postparse_1 [0..<NGUESTS] (Inr (d, f)) = Inr x"
    have "result_cfg x = d"
      by (rule hfold_inv [OF x, where P = "\<lambda>x. result_cfg x = d"])
        (auto simp: res_guest_postparse_1_def Let_def res_switch_def parse_fail_def split: sum.splits if_splits)
    then show "hpost (\<lambda>(st, c', f'). c' = d) (parse_end x)"
      by (auto simp: parse_end_def hpost_def result_cfg_def split: sum.splits)
  qed
  fix r d
  assume "r \<in> set resource_info"
  then show "hpost (\<lambda>(st, c', f'). c' = d) (ri_postparse r (d, fail_info_uninit))"
    by (auto simp: resource_info_def guest) (simp_all add: hpost_def res_memory_postparse_def res_vcpu_postparse_def
        res_hv_ldc_postparse_def res_ldc_postparse_def res_console_postparse_def res_mau_postparse_def res_cwq_postparse_def)
qed

lemma stays_then:
  assumes "hpost (stays_live v) m" "\<And>c. kept_view c = v \<Longrightarrow> hpost (stays_live v) (k c)"
  shows "hpost (stays_live v) (parse_then m k)"
  by (rule hpost_parse_then, rule hpost_mono [OF assms(1)]) (use assms(2) in \<open>auto split: sum.splits\<close>)

lemma reconfig_enter_live: "hpost (stays_live (kept_view c)) (reconfig_enter g dl c)"
  unfolding reconfig_enter_def Let_def del_reconf_enter_def
  by (intro keep_rules) (auto simp: init_reconfig_error_reply_def split: if_splits)

lemma preparse_live: "kept_view c = v \<Longrightarrow> hpost (\<lambda>(st, c'). kept_view c' = v) (preparse_hvmd mdp c)"
  unfolding preparse_hvmd_def with_parse_hvmd_def Let_def by (intro keep_rules) auto

lemma reconfig_check_root_live: "kept_view c = v \<Longrightarrow> hpost (stays_live v) (reconfig_check_root c)"
  unfolding reconfig_check_root_def with_parse_hvmd_def by (intro keep_rules) auto

text \<open>What both kinds of result that do not commit have in common.\<close>

lemma op_reconfig_keeps_view:
  assumes "op_reconfig junk cmd isdelayed c = Inr (st, c')" "guests_ok c" "st \<noteq> HVctl_st_ok \<or> isdelayed"
  shows "kept_view c' = kept_view c \<and> guests_ok c' \<and> cfg_active_hvmd c' = cfg_active_hvmd c"
proof -
  let ?v = "kept_view c" and ?mdp = "msg_u64 cmd 0" and ?gid = "ucast (m_body cmd 2) :: u64"
  let ?m = "parse_then (reconfig_enter ?gid isdelayed c) (\<lambda>c.
    parse_then (hbind (preparse_hvmd ?mdp c) (\<lambda>(status, c).
      Inr (if status \<noteq> HVctl_st_ok then Inl (status, reconfig_cancel isdelayed c) else Inr c))) (\<lambda>c.
    parse_then (reconfig_check_root c) (\<lambda>c.
    hbind (hfold ri_prep resource_info c) (\<lambda>c.
    parse_then (reconfig_parse junk isdelayed ?mdp resource_info c)
      (reconfig_postparse junk isdelayed ?mdp resource_info)))))"
  have "hpost (stays_live ?v) ?m"
  proof (intro stays_then reconfig_enter_live)
    fix d
    assume d: "kept_view d = ?v"
    show "hpost (stays_live ?v) (hbind (preparse_hvmd ?mdp d) (\<lambda>(status, c).
        Inr (if status \<noteq> HVctl_st_ok then Inl (status, reconfig_cancel isdelayed c) else Inr c)))"
      by (rule hpost_hbind, drule hpostD [OF preparse_live [OF d]])
        (auto simp: hpost_def reconfig_cancel_def)
    show "hpost (stays_live ?v) (reconfig_check_root d)" by (rule reconfig_check_root_live [OF d])
    show "hpost (stays_live ?v) (hbind (hfold ri_prep resource_info d) (\<lambda>c.
        parse_then (reconfig_parse junk isdelayed ?mdp resource_info c)
          (reconfig_postparse junk isdelayed ?mdp resource_info)))"
    proof (rule hpost_hbind)
      fix e
      assume "hfold ri_prep resource_info d = Inr e"
      from prep_phase [OF this] kept_view_guests_ok [OF _ assms(2)] d
      have e: "kept_view e = ?v" "guest_flags_ok e" "guests_ok e" by auto
      show "hpost (stays_live ?v) (parse_then (reconfig_parse junk isdelayed ?mdp resource_info e)
          (reconfig_postparse junk isdelayed ?mdp resource_info))"
        by (intro stays_then parse_phase postparse_phase e)
    qed
  qed
  moreover from assms(1) obtain x where "?m = Inr x" "(case x of Inl r \<Rightarrow> Inr r
      | Inr c \<Rightarrow> if isdelayed then Inr (HVctl_st_ok, del_reconf_exit (c\<lparr> cfg_del_reconf_gid := ?gid \<rparr>))
          else hbind (commit_reconfig c) (\<lambda>c. Inr (HVctl_st_ok, c))) = Inr (st, c')"
    unfolding op_reconfig_def Let_def by (rule hbindE)
  ultimately have v: "kept_view c' = ?v"
    using assms(3) by (auto dest: hpostD simp: hbind_eq_Inr split: sum.splits if_splits)
  have "cfg_active_hvmd (kept_view d) = cfg_active_hvmd d" for d by (simp add: kept_view_def)
  with v kept_view_guests_ok [OF v assms(2)] show ?thesis by metis
qed

text \<open>
  C13. A reconfiguration that is refused, whatever is wrong with the new description,
  leaves the live configuration as it was but for two permissions of guests, to use the random
  number generator and the hyperprivileged counters, which the guest parser writes before it knows
  that the description is accepted.  In particular the active description stays the active one.
\<close>

theorem op_reconfig_rejected_keeps:
  assumes "op_reconfig junk cmd isdelayed c = Inr (st, c')" "guests_ok c" "st \<noteq> HVctl_st_ok"
  shows "live_view (without_perms c') = live_view (without_perms c) \<and> guests_ok c' \<and> cfg_active_hvmd c' = cfg_active_hvmd c"
  using op_reconfig_keeps_view [OF assms(1,2)] assms(3) by (simp add: live_without_perms)

text \<open>A description with no names in it, and so with no root node.\<close>

lemma bare_md_no_names: "md_find_name_tag bare_md nm = Inr (- 1)"
  by (simp add: md_find_name_tag_def bare_md_def md_find_name_tag_from.simps)

lemma bare_md_hdnames: "find_hdnames bare_md xs t = Inr (\<lambda>off. if off \<in> fst ` set xs then - 1 else t off)"
  unfolding find_hdnames_def
  by (induction xs arbitrary: t) (auto simp: bare_md_no_names fun_eq_iff split: prod.splits)

lemma bare_md_no_root: "md_find_node bare_md None (- 1) = Inr None"
  by code_simp

lemma bare_md_version: "transport_version bare_md = MD_TRANSPORT_VERSION"
  by (simp add: bare_md_def)

lemma bare_preparse:
  "cfg_md_mem c = (\<lambda>_. Some bare_md) \<Longrightarrow> preparse_hvmd mdp c = Inr (HVctl_st_ok,
     c\<lparr> cfg_parse_hvmd := mdp, cfg_hdnametable := \<lambda>off. if off \<in> fst ` set inittable then - 1 else cfg_hdnametable c off \<rparr>)"
  using bare_md_hdnames
  by (simp add: preparse_hvmd_def with_parse_hvmd_def Let_def bare_md_version)

lemma bare_check_root:
  assumes "cfg_md_mem c = (\<lambda>_. Some bare_md)" "preparse_hvmd mdp c = Inr (st, c1)"
  shows "reconfig_check_root c1 = Inr (Inl (HVctl_st_badmd, c1))"
proof -
  have "''root'' \<in> fst ` set inittable" by (simp add: inittable_def HDN_def HDN_X_def)
  moreover have "c1 = c\<lparr> cfg_parse_hvmd := mdp, cfg_hdnametable := \<lambda>off. if off \<in> fst ` set inittable then - 1
      else cfg_hdnametable c off \<rparr>" using assms(2) by (simp add: bare_preparse [OF assms(1)])
  ultimately have "cfg_hdnametable c1 ''root'' = - 1" "cfg_md_mem c1 (cfg_parse_hvmd c1) = Some bare_md"
    using assms(1) by simp_all
  then show ?thesis by (simp add: reconfig_check_root_def with_parse_hvmd_def bare_md_no_root)
qed

definition rootless_config :: config where
  "rootless_config = config_zero\<lparr> cfg_md_mem := \<lambda>_. Some bare_md, cfg_del_reconf_gid := INVALID_GID,
     cfg_guests := guest_blank(0 := (guest_blank 0)\<lparr> g_state := GUEST_STATE_NORMAL \<rparr>) \<rparr>"

lemma rootless_guests_ok: "guests_ok rootless_config"
  by (simp add: guests_ok_def rootless_config_def guest_blank_simps)

theorem op_reconfig_rejected_keeps_witness:
  "\<exists>c'. op_reconfig (0, 0, 0) hvctl_msg_zero False rootless_config = Inr (HVctl_st_badmd, c') \<and>
     live_view (without_perms c') = live_view (without_perms rootless_config) \<and> cfg_active_hvmd c' = cfg_active_hvmd rootless_config"
proof -
  let ?c = "del_reconf_exit (rootless_config\<lparr> cfg_del_reconf_lock := True \<rparr>)"
  have mem: "cfg_md_mem ?c = (\<lambda>_. Some bare_md)" by (simp add: rootless_config_def del_reconf_exit_def)
  obtain c1 where c1: "preparse_hvmd 0 ?c = Inr (HVctl_st_ok, c1)" using bare_preparse [OF mem] by blast
  have op: "op_reconfig (0, 0, 0) hvctl_msg_zero False rootless_config = Inr (HVctl_st_badmd, c1)"
    using bare_check_root [OF mem c1] c1
    by (simp add: op_reconfig_def reconfig_enter_def del_reconf_enter_def parse_then_def Let_def)
      (simp add: rootless_config_def config_zero_def del_reconf_exit_def hvctl_msg_zero_def msg_u64_def)
  from op_reconfig_rejected_keeps [OF op rootless_guests_ok] op show ?thesis by auto
qed

text \<open>
  C14. A delayed reconfiguration whose description has no root node, or a content
  version that is missing or not supported, is refused with the lock
  \<open>del_reconf_lock\<close> still held: every later reconfiguration, and every later
  attempt to cancel the delayed one, waits for the lock forever.
\<close>

theorem op_reconfig_leaks_lock:
  assumes "unat (m_body cmd 2) < NGUESTS" "g_state (cfg_guests c (unat (m_body cmd 2))) \<noteq> GUEST_STATE_UNCONFIGURED"
    and "\<not> cfg_del_reconf_lock c" "cfg_del_reconf_gid c = INVALID_GID"
    and "preparse_hvmd (msg_u64 cmd 0) (c\<lparr> cfg_del_reconf_lock := True \<rparr>) = Inr (HVctl_st_ok, c1)"
    and "reconfig_check_root c1 = Inr (Inl (st, c2))"
  shows "op_reconfig junk cmd True c = Inr (st, c2) \<and> st \<noteq> HVctl_st_ok \<and>
    op_reconfig junk' cmd' False c2 = Inl Hang \<and> op_cancel_reconfig c2 = Inl Hang"
proof -
  have gid: "unat (ucast (m_body cmd 2) :: u64) = unat (m_body cmd 2)"
    by (simp add: unsigned_ucast_eq take_bit_nat_eq_self unsigned_less [THEN order.strict_trans2])
  have "op_reconfig junk cmd True c = Inr (st, c2)"
    using assms gid by (simp add: op_reconfig_def reconfig_enter_def del_reconf_enter_def parse_then_def Let_def)
  moreover have "cfg_del_reconf_lock c1"
    using assms(5) by (auto simp: preparse_hvmd_def Let_def with_parse_hvmd_def hbind_eq_Inr split: option.splits if_splits)
  then have "cfg_del_reconf_lock c2 \<and> st \<noteq> HVctl_st_ok"
    using assms(6) by (auto simp: reconfig_check_root_def with_parse_hvmd_def hbind_eq_Inr md_prop_eq_Inr
        split: option.splits if_splits)
  ultimately show ?thesis
    by (simp add: op_reconfig_def reconfig_enter_def op_cancel_reconfig_def del_reconf_enter_def parse_then_def Let_def)
qed

theorem op_reconfig_leaks_lock_witness:
  "\<exists>c2. op_reconfig (0, 0, 0) hvctl_msg_zero True rootless_config = Inr (HVctl_st_badmd, c2) \<and> op_cancel_reconfig c2 = Inl Hang"
proof -
  let ?c = "rootless_config\<lparr> cfg_del_reconf_lock := True \<rparr>"
  have mem: "cfg_md_mem ?c = (\<lambda>_. Some bare_md)" by (simp add: rootless_config_def)
  obtain c1 where c1: "preparse_hvmd (msg_u64 hvctl_msg_zero 0) ?c = Inr (HVctl_st_ok, c1)"
    using bare_preparse [OF mem] by blast
  from op_reconfig_leaks_lock [OF _ _ _ _ c1 bare_check_root [OF mem c1]] show ?thesis
    by (auto simp: rootless_config_def config_zero_def hvctl_msg_zero_def NGUESTS_def guest_states)
qed

text \<open>An early exit is never a success.\<close>

abbreviation refuses :: "(hvctl_status \<times> config) + config \<Rightarrow> bool" where
  "refuses \<equiv> case_sum (\<lambda>(st, c'). st \<noteq> HVctl_st_ok) (\<lambda>_. True)"

lemma refuses_then:
  "hpost refuses m \<Longrightarrow> (\<And>c. hpost refuses (k c)) \<Longrightarrow> hpost refuses (parse_then m k)"
  by (rule hpost_parse_then, erule hpost_mono) (auto split: sum.splits)

lemma reconfig_parse_refuses: "hpost refuses (reconfig_parse junk dl mdp rs c)"
  by (induction rs arbitrary: c) (auto intro!: keep_rules)

lemma reconfig_postparse_refuses: "hpost refuses (reconfig_postparse junk dl mdp rs c)"
  by (induction rs arbitrary: c) (auto intro!: keep_rules)

lemma reconfig_begin_refuses:
  "hpost refuses (reconfig_enter g dl c)" "hpost refuses (reconfig_check_root c)"
  unfolding reconfig_enter_def Let_def reconfig_check_root_def with_parse_hvmd_def
  by (intro keep_rules; simp)+

lemma parse_then_Inr: "parse_then m k = Inr (Inr y) \<Longrightarrow> \<exists>s. m = Inr (Inr s) \<and> k s = Inr (Inr y)"
  unfolding parse_then_def by (cases m) (auto split: sum.splits)

text \<open>
  C15. A delayed reconfiguration is put on record only for a guest that is configured
  and only when none is on record for another guest; it is then the one on record, the
  lock is free, cancelling it succeeds and clears the record, and nothing of the live
  configuration has changed but the two permissions the guest parser writes.
\<close>

theorem op_reconfig_delayed_recorded:
  assumes "op_reconfig junk cmd True c = Inr (HVctl_st_ok, c')" "guests_ok c"
  shows "let gid = ucast (m_body cmd 2) in
    unat gid < NGUESTS \<and> g_state (cfg_guests c (unat gid)) \<noteq> GUEST_STATE_UNCONFIGURED \<and>
    (cfg_del_reconf_gid c = INVALID_GID \<or> cfg_del_reconf_gid c = gid) \<and>
    cfg_del_reconf_gid c' = gid \<and> \<not> cfg_del_reconf_lock c' \<and>
    op_cancel_reconfig c' = Inr (HVctl_st_ok, c'\<lparr> cfg_del_reconf_gid := INVALID_GID \<rparr>) \<and>
    live_view (without_perms c') = live_view (without_perms c) \<and> guests_ok c' \<and> cfg_active_hvmd c' = cfg_active_hvmd c"
proof -
  let ?mdp = "msg_u64 cmd 0" and ?gid = "ucast (m_body cmd 2) :: u64"
  let ?k = "\<lambda>c. parse_then (hbind (preparse_hvmd ?mdp c) (\<lambda>(status, c).
      Inr (if status \<noteq> HVctl_st_ok then Inl (status, reconfig_cancel True c) else Inr c))) (\<lambda>c.
    parse_then (reconfig_check_root c) (\<lambda>c.
    hbind (hfold ri_prep resource_info c) (\<lambda>c.
    parse_then (reconfig_parse junk True ?mdp resource_info c) (reconfig_postparse junk True ?mdp resource_info))))"
  from assms(1) obtain x where x: "parse_then (reconfig_enter ?gid True c) ?k = Inr x" "(case x of Inl r \<Rightarrow> Inr r
      | Inr c \<Rightarrow> Inr (HVctl_st_ok, del_reconf_exit (c\<lparr> cfg_del_reconf_gid := ?gid \<rparr>))) = (Inr (HVctl_st_ok, c') :: _ hv)"
    unfolding op_reconfig_def Let_def if_True by (rule hbindE)
  have "hpost refuses (parse_then (reconfig_enter ?gid True c) ?k)"
    by (intro refuses_then reconfig_begin_refuses hpost_hbind reconfig_parse_refuses reconfig_postparse_refuses)
      (auto simp: hpost_def split: prod.splits)
  from hpostD [OF this x(1)] x(2) obtain c1 where "x = Inr c1"
    and c': "c' = del_reconf_exit (c1\<lparr> cfg_del_reconf_gid := ?gid \<rparr>)"
    by (auto split: sum.splits)
  with x(1) obtain c2 where "reconfig_enter ?gid True c = Inr (Inr c2)" by (blast dest: parse_then_Inr)
  then have ok: "unat ?gid < NGUESTS" "g_state (cfg_guests c (unat ?gid)) \<noteq> GUEST_STATE_UNCONFIGURED"
    "cfg_del_reconf_gid c = INVALID_GID \<or> cfg_del_reconf_gid c = ?gid"
    by (auto simp: reconfig_enter_def del_reconf_enter_def Let_def hbind_eq_Inr split: if_splits)
  have "?gid \<noteq> INVALID_GID" using ok(1) by (auto simp: INVALID_GID_def NGUESTS_def unsigned_minus_1_eq_mask mask_eq_exp_minus_1)
  then show ?thesis using ok c' op_reconfig_keeps_view [OF assms]
    by (simp add: live_without_perms Let_def op_cancel_reconfig_def del_reconf_enter_def del_reconf_exit_def)
qed

subsection \<open>The table of names\<close>

lemma find_hdnames_map_of:
  assumes "\<And>off nm. (off, nm) \<in> set xs \<Longrightarrow> md_find_name_tag md nm = Inr (T nm)" "distinct (map fst xs)"
  shows "find_hdnames md xs t = Inr (\<lambda>off. case map_of xs off of None \<Rightarrow> t off | Some nm \<Rightarrow> T nm)"
  using assms
proof (induction xs arbitrary: t)
  case Nil
  then show ?case by (simp add: find_hdnames_def)
next
  case (Cons x xs)
  obtain off nm where x: "x = (off, nm)" by fastforce
  have none: "map_of xs off = None" using Cons.prems(2) by (simp add: x map_of_eq_None_iff)
  have "find_hdnames md (x # xs) t = find_hdnames md xs (t(off := T nm))"
    using Cons.prems(1) [of off nm] by (simp add: find_hdnames_def x)
  also have "\<dots> = Inr (\<lambda>off'. case map_of xs off' of None \<Rightarrow> (t(off := T nm)) off' | Some nm' \<Rightarrow> T nm')"
    using Cons.prems by (intro Cons.IH) auto
  also have "\<dots> = Inr (\<lambda>off'. case map_of (x # xs) off' of None \<Rightarrow> t off' | Some nm' \<Rightarrow> T nm')"
    using none by (auto simp: x fun_eq_iff split: option.splits)
  finally show ?case .
qed

lemma inittable_ok: "distinct (map fst inittable)" "\<forall>x\<in>set inittable. CHR 0x00 \<notin> set (snd x)"
  by (code_simp, code_simp)

text \<open>
  C16. Adopting a description for parsing fills the table of names: every field of the
  table holds the tag of the name it stands for, as the name block of the description
  has it, or the invalid tag if the description does not have the name.
\<close>

theorem preparse_hvmd_names:
  assumes "cfg_md_mem c mdp = Some md" "md_has_names md names"
    and "TR_MAJOR (transport_version md) = TR_MAJOR MD_TRANSPORT_VERSION"
  shows "\<exists>c'. preparse_hvmd mdp c = Inr (HVctl_st_ok, c') \<and> cfg_parse_hvmd c' = mdp \<and> kept_view c' = kept_view c \<and>
    (\<forall>(off, nm) \<in> set inittable. cfg_hdnametable c' off = name_tag_of (cstring nm) 0 names)"
proof -
  have "md_find_name_tag md nm = Inr (name_tag_of (cstring nm) 0 names)" if "(off, nm) \<in> set inittable" for off nm
    using inittable_ok(2) that by (intro md_find_name_tag_names [OF assms(2)]) auto
  then have "find_hdnames md inittable (cfg_hdnametable c) =
      Inr (\<lambda>off. case map_of inittable off of None \<Rightarrow> cfg_hdnametable c off | Some nm \<Rightarrow> name_tag_of (cstring nm) 0 names)"
    by (intro find_hdnames_map_of inittable_ok(1))
  with assms inittable_ok(1) show ?thesis by (auto simp: preparse_hvmd_def with_parse_hvmd_def Let_def)
qed

subsection \<open>A description of an empty machine\<close>

definition md_node :: "u8 \<Rightarrow> u32 \<Rightarrow> u64 \<Rightarrow> md_element" where
  "md_node len off nxt = \<lparr> me_tag = MDET_NODE, me_namelen = len, me_pad = 0, me_name = off, me_d = nxt \<rparr>"

definition md_node_end :: md_element where
  "md_node_end = \<lparr> me_tag = MDET_NODE_END, me_namelen = 0, me_pad = 0, me_name = 0, me_d = 0 \<rparr>"

definition empty_names :: "string list" where
  "empty_names = [''root'', ''content-version'', ''guests'', ''memory'', ''cpus'', ''consoles'', ''maus'']"

definition empty_md :: bin_md where
  "empty_md = \<lparr> transport_version = MD_TRANSPORT_VERSION, node_blk_sz = 224, name_blk_sz = 54, data_blk_sz = 0,
     elem = [md_node 4 0 3, \<lparr> me_tag = MDET_PROP_VAL, me_namelen = 15, me_pad = 0, me_name = 5, me_d = 0x100000000 \<rparr>, md_node_end,
       md_node 6 21 5, md_node_end, md_node 6 28 7, md_node_end, md_node 4 35 9, md_node_end, md_node 8 40 11, md_node_end,
       md_node 4 49 13, md_node_end, \<lparr> me_tag = MDET_LIST_END, me_namelen = 0, me_pad = 0, me_name = 0, me_d = 0 \<rparr>],
     str_tab = concat (map (\<lambda>s. cstring s @ [0]) empty_names) \<rparr>"

lemma empty_md_scans:
  "md_find_node empty_md None 0x4000000000000 = Inr (Some 0)"
  "md_node_get_val empty_md 0 0xF000000000005 = Inr (Some 0x100000000)"
  "md_find_node empty_md None 0x6000000000015 = Inr (Some 3)"
  "md_find_node empty_md None 0x600000000001C = Inr (Some 5)"
  "md_find_node empty_md None 0x4000000000023 = Inr (Some 7)"
  "md_find_node empty_md None 0x8000000000028 = Inr (Some 9)"
  "md_find_node empty_md None 0x4000000000031 = Inr (Some 11)"
  by code_simp+

lemma empty_md_tags:
  "md_find_name_tag empty_md ''root'' = Inr 0x4000000000000"
  "md_find_name_tag empty_md ''content-version'' = Inr 0xF000000000005"
  "md_find_name_tag empty_md ''guests'' = Inr 0x6000000000015"
  "md_find_name_tag empty_md ''memory'' = Inr 0x600000000001C"
  "md_find_name_tag empty_md ''cpus'' = Inr 0x4000000000023"
  "md_find_name_tag empty_md ''consoles'' = Inr 0x8000000000028"
  "md_find_name_tag empty_md ''maus'' = Inr 0x4000000000031"
  "md_find_name_tag empty_md ''fwd'' = Inr (- 1)"
  by code_simp+

lemma empty_md_names: "md_has_names empty_md (map cstring empty_names)"
  unfolding md_has_names_def
proof (intro conjI)
  show "\<forall>s\<in>set (map cstring empty_names). 0 \<notin> set s" by code_simp
  show "\<exists>data. str_tab empty_md = name_block (map cstring empty_names) @ data"
    by (rule exI [of _ "[]"]) (simp add: empty_md_def name_block_def comp_def)
  show "sint (name_blk_sz empty_md) = int (length (name_block (map cstring empty_names)))" by code_simp
qed

theorem preparse_hvmd_names_witness:
  "\<exists>c'. preparse_hvmd 0x8000 (config_zero\<lparr> cfg_md_mem := [0x8000 \<mapsto> empty_md] \<rparr>) = Inr (HVctl_st_ok, c') \<and>
     cfg_hdnametable c' ''root'' = 0x4000000000000 \<and> cfg_hdnametable c' ''content_version'' = 0xF000000000005"
proof -
  have "TR_MAJOR (transport_version empty_md) = TR_MAJOR MD_TRANSPORT_VERSION" by (simp add: empty_md_def)
  from preparse_hvmd_names [OF _ empty_md_names this, of "config_zero\<lparr> cfg_md_mem := [0x8000 \<mapsto> empty_md] \<rparr>" "0x8000"]
  obtain c' where c': "preparse_hvmd 0x8000 (config_zero\<lparr> cfg_md_mem := [0x8000 \<mapsto> empty_md] \<rparr>) = Inr (HVctl_st_ok, c')"
    "\<forall>(off, nm) \<in> set inittable. cfg_hdnametable c' off = name_tag_of (cstring nm) 0 (map cstring empty_names)" by auto
  have "(''root'', ''root'') \<in> set inittable" "(''content_version'', ''content-version'') \<in> set inittable"
    by (simp_all add: inittable_def HDN_def HDN_X_def)
  moreover have "name_tag_of (cstring ''root'') 0 (map cstring empty_names) = 0x4000000000000"
    "name_tag_of (cstring ''content-version'') 0 (map cstring empty_names) = 0xF000000000005"
    by code_simp+
  ultimately show ?thesis using c' by fastforce
qed

text \<open>
  Reconfiguring to the empty machine: preparing succeeds, parsing proposes nothing, and
  the guests are all to be removed.
\<close>

lemma kept_view_selects:
  "g_state (cfg_guests (kept_view c) i) = g_state (cfg_guests c i)"
  "le_is_live (g_ldc_endpoint (cfg_guests (kept_view c) i) j) = le_is_live (g_ldc_endpoint (cfg_guests c i) j)"
  "cfg_md_mem (kept_view c) = cfg_md_mem c"
  by (simp_all add: kept_view_def kept_guest_def)

lemma hfold_pure: "hfold (\<lambda>x s. Inr (h x s)) xs s = Inr (fold h xs s)"
  by (induction xs arbitrary: s) simp_all

lemma preps_return:
  "\<exists>c'. res_guest_prep c = Inr c'" "\<exists>c'. res_memory_prep c = Inr c'" "\<exists>c'. res_vcpu_prep c = Inr c'"
  "\<exists>c'. res_hv_ldc_prep c = Inr c'" "\<exists>c'. res_console_prep c = Inr c'" "\<exists>c'. res_mau_prep c = Inr c'"
  "\<exists>c'. res_cwq_prep c = Inr c'"
  by (simp_all add: hfold_pure res_guest_prep_def res_memory_prep_def res_vcpu_prep_def res_hv_ldc_prep_def res_console_prep_def
      res_mau_prep_def res_cwq_prep_def)

lemma res_ldc_prep_returns:
  assumes "\<forall>i j. le_is_live (guest_ldc c i j) = 0"
  shows "\<exists>c'. res_ldc_prep c = Inr c'"
proof -
  have "\<exists>c'. hfold res_ldc_prep_1 ldc_idxs c = Inr c' \<and> (\<forall>i j. le_is_live (guest_ldc c' i j) = 0)"
    by (rule hfold_total) (use assms in \<open>auto simp: res_ldc_prep_1_def guest_ldc_flags\<close>)
  then show ?thesis by (auto simp: res_ldc_prep_def)
qed

lemma prep_returns:
  assumes "\<forall>i j. le_is_live (guest_ldc c i j) = 0" "guests_ok c"
  obtains c' where "hfold ri_prep resource_info c = Inr c'" "kept_view c' = kept_view c" "guest_flags_ok c'"
    "cfg_parse_hvmd c' = cfg_parse_hvmd c" "cfg_hdnametable c' = cfg_hdnametable c"
proof -
  obtain c1 c2 c3 c4 where c: "res_guest_prep c = Inr c1" "res_memory_prep c1 = Inr c2" "res_vcpu_prep c2 = Inr c3"
    "res_hv_ldc_prep c3 = Inr c4" using preps_return by meson
  have guest: "kept_view c1 = kept_view c" "cfg_parse_hvmd c1 = cfg_parse_hvmd c" "cfg_hdnametable c1 = cfg_hdnametable c"
    using c(1) guest_parse_inv_live [OF res_guest_prep_inv [OF c(1) assms(2)] assms(2)] by (auto simp: res_guest_prep_eq)
  have k: "prep_keeps c1 c4" using c(2-4) prep_keeps_all prep_keeps_trans by metis
  then have "kept_view c4 = kept_view c" using guest(1) by (simp add: prep_keeps_def)
  then have "\<forall>i j. le_is_live (guest_ldc c4 i j) = 0" using assms(1) kept_view_selects(2) by metis
  then obtain c5 c6 c7 c8 where d: "res_ldc_prep c4 = Inr c5" "res_console_prep c5 = Inr c6" "res_mau_prep c6 = Inr c7"
    "res_cwq_prep c7 = Inr c8" using res_ldc_prep_returns preps_return by meson
  have k8: "prep_keeps c1 c8" using k d prep_keeps_all prep_keeps_trans by metis
  have all: "hfold ri_prep resource_info c = Inr c8" by (simp add: resource_info_def c d)
  show thesis
    by (rule that [OF all]) (use k8 guest prep_phase [OF all assms(2)] in \<open>auto simp: prep_keeps_def\<close>)
qed

lemma res_parse_nodes_none:
  assumes "cfg_md_mem c (cfg_parse_hvmd c) = Some md" "md_find_node md None (MDNAME c tn) = Inr (Some k)"
    and "md_next_node_elem md k (MDARC (MDNAME c ''fwd'')) = Inr None"
  shows "res_parse_nodes tn nd p (c, f) = Inr (HVctl_st_ok, c, f)"
proof -
  have "md_find_node_by_arc_from md k (MDARC (MDNAME c ''fwd'')) t = Inr None" for t
    by (subst md_find_node_by_arc_from.simps) (simp add: assms(3))
  with assms show ?thesis
    by (simp add: res_parse_nodes_def with_parse_hvmd_def md_foreach.simps parse_end_def)
qed

lemma empty_md_no_arcs:
  "md_next_node_elem empty_md 0 (MDARC (- 1)) = Inr None" "md_next_node_elem empty_md 3 (MDARC (- 1)) = Inr None"
  "md_next_node_elem empty_md 5 (MDARC (- 1)) = Inr None" "md_next_node_elem empty_md 7 (MDARC (- 1)) = Inr None"
  "md_next_node_elem empty_md 9 (MDARC (- 1)) = Inr None" "md_next_node_elem empty_md 11 (MDARC (- 1)) = Inr None"
  by code_simp+

definition empty_named :: "config \<Rightarrow> bool" where
  "empty_named c \<longleftrightarrow> cfg_md_mem c (cfg_parse_hvmd c) = Some empty_md \<and>
     MDNAME c ''root'' = 0x4000000000000 \<and> MDNAME c ''content_version'' = 0xF000000000005 \<and>
     MDNAME c ''guests'' = 0x6000000000015 \<and> MDNAME c ''memory'' = 0x600000000001C \<and>
     MDNAME c ''cpus'' = 0x4000000000023 \<and> MDNAME c ''consoles'' = 0x8000000000028 \<and>
     MDNAME c ''maus'' = 0x4000000000031 \<and> MDNAME c ''fwd'' = - 1"

lemma empty_preparse:
  assumes "cfg_md_mem c mdp = Some empty_md"
  obtains c' where "preparse_hvmd mdp c = Inr (HVctl_st_ok, c')" "empty_named c'" "kept_view c' = kept_view c"
    "cfg_del_reconf_gid c' = cfg_del_reconf_gid c" "cfg_del_reconf_lock c' = cfg_del_reconf_lock c"
proof -
  let ?T = "\<lambda>nm. name_tag_of (cstring nm) 0 (map cstring empty_names)"
  let ?t = "\<lambda>off. case map_of inittable off of None \<Rightarrow> cfg_hdnametable c off | Some nm \<Rightarrow> ?T nm"
  let ?c = "c\<lparr> cfg_parse_hvmd := mdp, cfg_hdnametable := ?t \<rparr>"
  have tag: "md_find_name_tag empty_md nm = Inr (?T nm)" if "(off, nm) \<in> set inittable" for off nm
    using inittable_ok(2) that by (intro md_find_name_tag_names [OF empty_md_names]) auto
  then have "find_hdnames empty_md inittable (cfg_hdnametable c) = Inr ?t"
    by (intro find_hdnames_map_of inittable_ok(1))
  moreover have "transport_version empty_md = MD_TRANSPORT_VERSION" by (simp add: empty_md_def)
  ultimately have "preparse_hvmd mdp c = Inr (HVctl_st_ok, ?c)"
    using assms by (simp add: preparse_hvmd_def with_parse_hvmd_def Let_def)
  moreover have "empty_named ?c"
  proof -
    have "map_of inittable off = Some nm \<Longrightarrow> md_find_name_tag empty_md nm = Inr v \<Longrightarrow> ?t off = v" for off nm v
      using tag [of off nm] by (auto dest: map_of_SomeD)
    moreover have "map_of inittable ''root'' = Some ''root''" "map_of inittable ''content_version'' = Some ''content-version''"
      "map_of inittable ''guests'' = Some ''guests''" "map_of inittable ''memory'' = Some ''memory''"
      "map_of inittable ''cpus'' = Some ''cpus''" "map_of inittable ''consoles'' = Some ''consoles''"
      "map_of inittable ''maus'' = Some ''maus''" "map_of inittable ''fwd'' = Some ''fwd''"
      by code_simp+
    ultimately show ?thesis using assms empty_md_tags by (simp add: empty_named_def)
  qed
  ultimately show thesis by (rule that) simp_all
qed

lemma empty_parses:
  assumes "empty_named c" "r \<in> set resource_info"
  shows "ri_parse r (c, f) = Inr (HVctl_st_ok, c, f)"
  using assms empty_md_scans empty_md_no_arcs res_parse_nodes_none [of c empty_md]
  by (auto simp: resource_info_def empty_named_def res_guest_parse_def res_memory_parse_def res_vcpu_parse_def res_ldc_parse_def
      res_console_parse_def res_mau_parse_def res_cwq_parse_def)
    (simp add: res_hv_ldc_parse_def with_parse_hvmd_def md_find_node_by_arc_def md_find_node_by_arc_from.simps)

lemma empty_parse_phase:
  "empty_named c \<Longrightarrow> set rs \<subseteq> set resource_info \<Longrightarrow> reconfig_parse junk dl mdp rs c = Inr (Inr c)"
  by (induction rs) (auto simp: empty_parses)

lemma empty_postparse_phase:
  assumes "guest_flags_ok c" "\<forall>i. g_state (cfg_guests c i) \<in> {GUEST_STATE_STOPPED, GUEST_STATE_UNCONFIGURED}"
  shows "reconfig_postparse junk dl mdp resource_info c = Inr (Inr c)"
proof -
  have "find (\<lambda>i. gp_flags (g_pip (cfg_guests c i)) = RESF_Unconfig \<and> g_state (cfg_guests c i) \<noteq> GUEST_STATE_STOPPED) [0..<NGUESTS] = None"
    using assms by (auto simp: find_None_iff guest_flags_ok_def guest_flag_ok_def)
  then have "res_guest_postparse (c, f) = Inr (HVctl_st_ok, c, f)" for f
    unfolding res_guest_postparse_def
    by (subst guest_postparse_find) (use assms(1) in \<open>auto simp: guest_flags_ok_def parse_end_def\<close>)
  then show ?thesis
    by (simp add: resource_info_def res_memory_postparse_def res_vcpu_postparse_def res_hv_ldc_postparse_def
        res_ldc_postparse_def res_console_postparse_def res_mau_postparse_def res_cwq_postparse_def)
qed

definition stopped_config :: config where
  "stopped_config = config_zero\<lparr> cfg_md_mem := [0x8000 \<mapsto> empty_md], cfg_del_reconf_gid := INVALID_GID,
     cfg_guests := guest_blank(0 := (guest_blank 0)\<lparr> g_state := GUEST_STATE_STOPPED \<rparr>) \<rparr>"

definition reconfig_cmd :: hvctl_msg where
  "reconfig_cmd = put_u64 0 0x8000 hvctl_msg_zero"

lemma reconfig_cmd_fields: "msg_u64 reconfig_cmd 0 = 0x8000" "m_body reconfig_cmd 2 = 0"
  by (simp_all add: reconfig_cmd_def put_u64_def msg_u64_def hvctl_msg_zero_def)

text \<open>The checks of \<open>op_reconfig\<close> accept the empty machine when all guests are stopped.\<close>

lemma empty_checks:
  assumes "cfg_md_mem c mdp = Some empty_md" "guests_ok c" "\<forall>i j. le_is_live (guest_ldc c i j) = 0"
    and "\<forall>i. g_state (cfg_guests c i) \<in> {GUEST_STATE_STOPPED, GUEST_STATE_UNCONFIGURED}"
  obtains c' where "parse_then (hbind (preparse_hvmd mdp c) (\<lambda>(status, c).
      Inr (if status \<noteq> HVctl_st_ok then Inl (status, reconfig_cancel dl c) else Inr c))) (\<lambda>c.
    parse_then (reconfig_check_root c) (\<lambda>c.
    hbind (hfold ri_prep resource_info c) (\<lambda>c.
    parse_then (reconfig_parse junk dl mdp resource_info c) (reconfig_postparse junk dl mdp resource_info)))) = Inr (Inr c')"
proof -
  obtain c1 where c1: "preparse_hvmd mdp c = Inr (HVctl_st_ok, c1)" "empty_named c1" "kept_view c1 = kept_view c"
    by (rule empty_preparse [OF assms(1)])
  have ok1: "\<forall>i j. le_is_live (guest_ldc c1 i j) = 0" "guests_ok c1"
    using assms(3) kept_view_selects(2) c1(3) kept_view_guests_ok [OF c1(3) assms(2)] by metis+
  obtain c2 where c2: "hfold ri_prep resource_info c1 = Inr c2" "kept_view c2 = kept_view c1" "guest_flags_ok c2"
    "cfg_parse_hvmd c2 = cfg_parse_hvmd c1" "cfg_hdnametable c2 = cfg_hdnametable c1"
    by (rule prep_returns [OF ok1])
  have st: "\<forall>i. g_state (cfg_guests c2 i) \<in> {GUEST_STATE_STOPPED, GUEST_STATE_UNCONFIGURED}"
    using assms(4) kept_view_selects(1) c1(3) c2(2) by metis
  have "cfg_md_mem c2 = cfg_md_mem c1" using kept_view_selects(3) c2(2) by metis
  with c1(2) c2(4,5) have named: "empty_named c2" by (simp add: empty_named_def)
  have root: "reconfig_check_root c1 = Inr (Inr c1)"
    using c1(2) empty_md_scans(1,2)
    by (simp add: empty_named_def reconfig_check_root_def with_parse_hvmd_def md_prop_def MDCONT_VER_MAJOR_def HV_MDCONT_VER_MAJOR_def)
  show thesis
    by (rule that [of c2]) (simp add: c1(1) root c2(1) parse_then_def empty_parse_phase [OF named order_refl]
        empty_postparse_phase [OF c2(3) st])
qed

lemma stopped_config_facts:
  "guests_ok stopped_config" "\<forall>i j. le_is_live (guest_ldc stopped_config i j) = 0" "cfg_md_mem stopped_config 0x8000 = Some empty_md"
  "\<forall>i. g_state (cfg_guests stopped_config i) \<in> {GUEST_STATE_STOPPED, GUEST_STATE_UNCONFIGURED}"
  "cfg_del_reconf_gid stopped_config = INVALID_GID" "\<not> cfg_del_reconf_lock stopped_config"
  by (auto simp: stopped_config_def guests_ok_def guest_blank_simps ldc_endpoint_zero_def config_zero_def)

theorem op_reconfig_delayed_recorded_witness:
  "\<exists>c'. op_reconfig (0, 0, 0) reconfig_cmd True stopped_config = Inr (HVctl_st_ok, c') \<and> cfg_del_reconf_gid c' = 0 \<and>
     live_view (without_perms c') = live_view (without_perms stopped_config) \<and>
     op_cancel_reconfig c' = Inr (HVctl_st_ok, c'\<lparr> cfg_del_reconf_gid := INVALID_GID \<rparr>)"
proof -
  let ?c = "stopped_config\<lparr> cfg_del_reconf_lock := True \<rparr>"
  have "cfg_md_mem ?c 0x8000 = Some empty_md" "guests_ok ?c" "\<forall>i j. le_is_live (guest_ldc ?c i j) = 0"
    "\<forall>i. g_state (cfg_guests ?c i) \<in> {GUEST_STATE_STOPPED, GUEST_STATE_UNCONFIGURED}"
    using stopped_config_facts by (simp_all add: guests_ok_def)
  then obtain c1 where c1: "parse_then (hbind (preparse_hvmd 0x8000 ?c) (\<lambda>(status, c).
      Inr (if status \<noteq> HVctl_st_ok then Inl (status, reconfig_cancel True c) else Inr c))) (\<lambda>c.
    parse_then (reconfig_check_root c) (\<lambda>c.
    hbind (hfold ri_prep resource_info c) (\<lambda>c.
    parse_then (reconfig_parse (0, 0, 0) True 0x8000 resource_info c)
      (reconfig_postparse (0, 0, 0) True 0x8000 resource_info)))) = Inr (Inr c1)"
    by (rule empty_checks)
  have enter: "reconfig_enter 0 True stopped_config = Inr (Inr ?c)"
    using stopped_config_facts(5,6)
    by (simp add: reconfig_enter_def del_reconf_enter_def) (simp add: stopped_config_def NGUESTS_def guest_states)
  have "op_reconfig (0, 0, 0) reconfig_cmd True stopped_config =
      Inr (HVctl_st_ok, del_reconf_exit (c1\<lparr> cfg_del_reconf_gid := 0 \<rparr>))"
    unfolding op_reconfig_def reconfig_cmd_fields Let_def
    by (subst parse_then_def) (simp add: enter c1)
  with op_reconfig_delayed_recorded [OF this stopped_config_facts(1)] show ?thesis by (auto simp: reconfig_cmd_fields Let_def)
qed

end
