(* ===== verification/Commit.thy ===== *)
theory Commit
  imports Reconf
begin

text \<open>
  Committing a reconfiguration, for all kinds of resources together: every step of
  every kind only takes flags back, so that after the four phases of
  \<open>commit_reconfig\<close> nothing is pending, and no step touches the state of the control
  channel.
\<close>

subsection \<open>The flags of all resources\<close>

datatype res_inst =
    R_guest nat | R_memory nat | R_vcpu nat | R_hv_ldc nat | R_ldc nat nat | R_console nat | R_mau nat

fun inst_ok :: "res_inst \<Rightarrow> bool" where
  "inst_ok (R_guest i) \<longleftrightarrow> i < NGUESTS"
| "inst_ok (R_memory i) \<longleftrightarrow> i < NMBLOCKS"
| "inst_ok (R_vcpu i) \<longleftrightarrow> i < NVCPUS"
| "inst_ok (R_hv_ldc i) \<longleftrightarrow> i < MAX_HV_LDC_CHANNELS"
| "inst_ok (R_ldc i j) \<longleftrightarrow> (i, j) \<in> set ldc_idxs"
| "inst_ok (R_console i) \<longleftrightarrow> i < NGUESTS"
| "inst_ok (R_mau i) \<longleftrightarrow> i < NMAUS"

fun flag_of :: "config \<Rightarrow> res_inst \<Rightarrow> u8" where
  "flag_of c (R_guest i) = gp_flags (g_pip (cfg_guests c i))"
| "flag_of c (R_memory i) = mbp_flags (mb_pip (cfg_mblocks c i))"
| "flag_of c (R_vcpu i) = vp_flags (v_pip (cfg_vcpus c i))"
| "flag_of c (R_hv_ldc i) = lp_flags (le_pip (cfg_hv_ldcs c i))"
| "flag_of c (R_ldc i j) = lp_flags (le_pip (g_ldc_endpoint (cfg_guests c i) j))"
| "flag_of c (R_console i) = cp_flags (cons_pip (g_console (cfg_guests c i)))"
| "flag_of c (R_mau i) = mp_flags (mau_pip (cfg_maus c i))"

text \<open>What is left of the configuration without the tables of resources: the control channel,
  the machine descriptions and the record of a delayed reconfiguration among it.\<close>

definition control_part :: "config \<Rightarrow> config" where
  "control_part c = c\<lparr> cfg_guests := \<lambda>_. guest_zero, cfg_mblocks := \<lambda>_. mblock_zero, cfg_vcpus := \<lambda>_. vcpu_zero,
     cfg_hv_ldcs := \<lambda>_. ldc_endpoint_zero, cfg_maus := \<lambda>_. mau_zero, cfg_hvctl_ldc := 0, cfg_hcall_mem := \<lambda>_. 0 \<rparr>"

text \<open>A step that takes flags back at most, and keeps the rest of the configuration.\<close>

definition settles :: "config \<Rightarrow> config \<Rightarrow> bool" where
  "settles c c' \<longleftrightarrow> control_part c' = control_part c \<and> (\<forall>r. flag_of c' r = flag_of c r \<or> flag_of c' r = RESF_Noop)"

definition guest_settles :: "guest \<Rightarrow> guest \<Rightarrow> bool" where
  "guest_settles g g' \<longleftrightarrow>
     (gp_flags (g_pip g') = gp_flags (g_pip g) \<or> gp_flags (g_pip g') = RESF_Noop) \<and>
     (cp_flags (cons_pip (g_console g')) = cp_flags (cons_pip (g_console g)) \<or> cp_flags (cons_pip (g_console g')) = RESF_Noop) \<and>
     (\<forall>j. lp_flags (le_pip (g_ldc_endpoint g' j)) = lp_flags (le_pip (g_ldc_endpoint g j)) \<or>
        lp_flags (le_pip (g_ldc_endpoint g' j)) = RESF_Noop)"

lemma settles_refl [simp]: "settles c c"
  by (simp add: settles_def)

lemma settles_trans: "settles c c' \<Longrightarrow> settles c' c'' \<Longrightarrow> settles c c''"
  unfolding settles_def by metis

lemma guest_settles_refl [simp]: "guest_settles g g"
  by (simp add: guest_settles_def)

lemma guest_settles_trans: "guest_settles g g' \<Longrightarrow> guest_settles g' g'' \<Longrightarrow> guest_settles g g''"
  unfolding guest_settles_def by metis

lemma settles_flag: "settles c c' \<Longrightarrow> fl \<noteq> RESF_Noop \<Longrightarrow> flag_of c r \<noteq> fl \<Longrightarrow> flag_of c' r \<noteq> fl"
  unfolding settles_def by metis

lemma all_inst:
  "(\<forall>r. Q r) \<longleftrightarrow> (\<forall>i. Q (R_guest i)) \<and> (\<forall>i. Q (R_memory i)) \<and> (\<forall>i. Q (R_vcpu i)) \<and> (\<forall>i. Q (R_hv_ldc i)) \<and>
     (\<forall>i j. Q (R_ldc i j)) \<and> (\<forall>i. Q (R_console i)) \<and> (\<forall>i. Q (R_mau i))"
  by (metis res_inst.exhaust)

lemma settles_upd:
  "guest_settles (cfg_guests c i) (hg (cfg_guests c i)) \<Longrightarrow> settles c (upd_guest i hg c)"
  "mbp_flags (mb_pip (hm (cfg_mblocks c i))) \<in> {mbp_flags (mb_pip (cfg_mblocks c i)), RESF_Noop} \<Longrightarrow> settles c (upd_mblock i hm c)"
  "vp_flags (v_pip (hv (cfg_vcpus c i))) \<in> {vp_flags (v_pip (cfg_vcpus c i)), RESF_Noop} \<Longrightarrow> settles c (upd_vcpu i hv c)"
  "lp_flags (le_pip (hl (cfg_hv_ldcs c i))) \<in> {lp_flags (le_pip (cfg_hv_ldcs c i)), RESF_Noop} \<Longrightarrow> settles c (upd_hv_ldc i hl c)"
  "mp_flags (mau_pip (ha (cfg_maus c i))) \<in> {mp_flags (mau_pip (cfg_maus c i)), RESF_Noop} \<Longrightarrow> settles c (upd_mau i ha c)"
  "settles c (c\<lparr> cfg_hvctl_ldc := x \<rparr>)" "settles c (c\<lparr> cfg_hcall_mem := y \<rparr>)"
  unfolding settles_def
  unfolding all_inst by (auto simp: control_part_def upd_defs guest_settles_def)

subsection \<open>Steps on a guest\<close>

text \<open>All but the removal of a guest leave the proposals in a guest alone.\<close>

definition pips :: "guest \<Rightarrow> guest_parse_info \<times> console_pip \<times> (nat \<Rightarrow> ldce_parse)" where
  "pips g = (g_pip g, cons_pip (g_console g), \<lambda>j. le_pip (g_ldc_endpoint g j))"

lemma pips_settles: "pips g' = pips g \<Longrightarrow> guest_settles g g'"
  by (auto simp: pips_def guest_settles_def fun_eq_iff)

lemma pips_upd [simp]:
  "(\<And>e. le_pip (h e) = le_pip e) \<Longrightarrow> pips (upd_ldc j h g) = pips g"
  "(\<And>k. cons_pip (k' k) = cons_pip k) \<Longrightarrow> pips (upd_console k' g) = pips g"
  "pips (clear_devops g) = pips g" "pips (reset_guest_ldc_mapins g) = pips g" "pips (reset_guest_perm_mappings g) = pips g"
  "pips (set_segments s x y g) = pips g"
  by (auto simp: pips_def upd_ldc_def upd_console_def clear_devops_def reset_guest_keeps reset_guest_perm_mappings_def
      set_segments_def fun_eq_iff)

lemma pips_fields [simp]:
  "pips (g\<lparr> g_vino2inst := a1 \<rparr>) = pips g" "pips (g\<lparr> g_dev2inst := a2 \<rparr>) = pips g" "pips (g\<lparr> g_vdev_cfghandle := a3 \<rparr>) = pips g"
  "pips (g\<lparr> g_cdev_cfghandle := a4 \<rparr>) = pips g" "pips (g\<lparr> g_ldc_ino2endpoint := a5 \<rparr>) = pips g"
  "pips (g\<lparr> g_mapreg := a6 \<rparr>) = pips g" "pips (g\<lparr> g_md_size := a7 \<rparr>) = pips g" "pips (g\<lparr> g_maus := a8 \<rparr>) = pips g"
  "pips (g\<lparr> g_rom_base := b1 \<rparr>) = pips g" "pips (g\<lparr> g_rom_size := b2 \<rparr>) = pips g" "pips (g\<lparr> g_real_base := b3 \<rparr>) = pips g"
  "pips (g\<lparr> g_real_limit := b4 \<rparr>) = pips g" "pips (g\<lparr> g_mem_offset := b5 \<rparr>) = pips g" "pips (g\<lparr> g_md_pa := b6 \<rparr>) = pips g"
  "pips (g\<lparr> g_disk_size := b7 \<rparr>) = pips g" "pips (g\<lparr> g_disk_pa := b8 \<rparr>) = pips g" "pips (g\<lparr> g_snet_ino := b9 \<rparr>) = pips g"
  "pips (g\<lparr> g_snet_pa := c1 \<rparr>) = pips g" "pips (g\<lparr> g_perfreg_accessible := c2 \<rparr>) = pips g" "pips (g\<lparr> g_diagpriv := c3 \<rparr>) = pips g"
  "pips (g\<lparr> g_entry := c4 \<rparr>) = pips g" "pips (g\<lparr> g_reset_reason := c5 \<rparr>) = pips g" "pips (g\<lparr> g_state := c6 \<rparr>) = pips g"
  "pips (g\<lparr> g_ldc_mapin_basera := c7 \<rparr>) = pips g" "pips (g\<lparr> g_ldc_mapin_size := c8 \<rparr>) = pips g"
  "pips (g\<lparr> g_tod_offset := c9 \<rparr>) = pips g" "pips (g\<lparr> g_ldc_max_channel_idx := d1 \<rparr>) = pips g"
  "pips (g\<lparr> g_hcall_table := d2 \<rparr>) = pips g" "pips (g\<lparr> g_api_version_num := d3 \<rparr>) = pips g" "pips (g\<lparr> g_vcpus := d4 \<rparr>) = pips g"
  by (simp_all add: pips_def)

text \<open>Steps in sequence, and the steps themselves, which keep the proposals \<open>p\<close> they find.\<close>

lemma pips_bind:
  "hpost (\<lambda>g'. pips g' = p) m \<Longrightarrow> (\<And>g. pips g = p \<Longrightarrow> hpost (\<lambda>g'. pips g' = p) (k g)) \<Longrightarrow>
   hpost (\<lambda>g'. pips g' = p) (hbind m k)"
  by (rule hpost_hbind) (auto dest: hpostD)

lemmas pips_rules = pips_bind hpost_hassert hpost_hguard hpost_if hpost_let hpost_case_option hpost_Inr hpost_Inl

lemma set_dev2inst_pips: "pips g = p \<Longrightarrow> hpost (\<lambda>g'. pips g' = p) (set_dev2inst a b x g)"
  unfolding set_dev2inst_def by (rule hpost_hfold) (auto intro!: pips_rules)

lemma device_pips:
  "pips g = p \<Longrightarrow> hpost (\<lambda>g'. pips g' = p) (config_a_guest_device_vino ino ty g)"
  "pips g = p \<Longrightarrow> hpost (\<lambda>g'. pips g' = p) (unconfig_a_guest_device_vino ino ty g)"
  "pips g = p \<Longrightarrow> hpost (\<lambda>g'. pips g' = p) (config_guest_virtual_device h g)"
  "pips g = p \<Longrightarrow> hpost (\<lambda>g'. pips g' = p) (unconfig_guest_virtual_device g)"
  "pips g = p \<Longrightarrow> hpost (\<lambda>g'. pips g' = p) (config_guest_channel_device h g)"
  "pips g = p \<Longrightarrow> hpost (\<lambda>g'. pips g' = p) (unconfig_guest_channel_device g)"
  "pips g = p \<Longrightarrow> hpost (\<lambda>g'. pips g' = p) (config_guest_md mem g)"
  "pips g = p \<Longrightarrow> hpost (\<lambda>g'. pips g' = p) (assign_ra2pa_segments rb sz off flg g)"
  "pips g = p \<Longrightarrow> hpost (\<lambda>g'. pips g' = p) (clear_ra2pa_segments rb sz g)"
  "pips g = p \<Longrightarrow> hpost (\<lambda>g'. pips g' = p) (set_ino2endpoint n x g)"
  unfolding config_a_guest_device_vino_def unconfig_a_guest_device_vino_def config_guest_virtual_device_def
    unconfig_guest_virtual_device_def config_guest_channel_device_def unconfig_guest_channel_device_def config_guest_md_def
    assign_ra2pa_segments_def clear_ra2pa_segments_def set_ino2endpoint_def
  by (intro pips_rules set_dev2inst_pips; simp)+

lemma ldc_pips:
  "pips g = p \<Longrightarrow> hpost (\<lambda>g'. pips g' = p) (ldc_config_guest j g)"
  "pips g = p \<Longrightarrow> hpost (\<lambda>g'. pips g' = p) (ldc_unconfig_guest j g)"
  unfolding ldc_config_guest_def ldc_unconfig_guest_def ldc_config_target_def ldc_config_inos_def
  by (intro pips_rules device_pips; simp add: reset_ldc_endpoint_def)+

lemma console_pips:
  "pips g = p \<Longrightarrow> hpost (\<lambda>g'. pips g' = p) (console_config_guest q g)"
  "pips g = p \<Longrightarrow> hpost (\<lambda>g'. pips g' = p) (console_unconfig_guest g)"
  unfolding console_config_guest_def console_unconfig_guest_def
  by (intro pips_rules device_pips; simp)+

lemma settles_guest_pips:
  assumes "settles c0 c" "\<And>p. pips (cfg_guests c gi) = p \<Longrightarrow> hpost (\<lambda>g'. pips g' = p) (f (cfg_guests c gi))"
  shows "hpost (settles c0) (upd_guest_hv gi f c)"
  unfolding upd_guest_hv_def
proof (intro keep_rules)
  fix g
  assume "f (cfg_guests c gi) = Inr g"
  then have "settles c (upd_guest gi (\<lambda>_. g) c)"
    using hpostD [OF assms(2) [OF refl]] by (intro settles_upd pips_settles) simp
  with assms(1) show "settles c0 (upd_guest gi (\<lambda>_. g) c)" by (rule settles_trans)
qed

lemma settles_guest_fields:
  "settles c0 c \<Longrightarrow> pips (h (cfg_guests c i)) = pips (cfg_guests c i) \<Longrightarrow> settles c0 (upd_guest i h c)"
  by (rule settles_trans) (auto intro: settles_upd pips_settles)

subsection \<open>The steps of every kind\<close>

lemma settles_bind:
  assumes "hpost (settles c0) m" "\<And>c. settles c0 c \<Longrightarrow> hpost (settles c0) (k c)"
  shows "hpost (settles c0) (hbind m k)"
  by (rule hpost_hbind, drule hpostD [OF assms(1)], rule assms(2))

lemma settles_hfold:
  "settles c0 c \<Longrightarrow> (\<And>x d. settles c0 d \<Longrightarrow> hpost (settles c0) (f x d)) \<Longrightarrow> hpost (settles c0) (hfold f xs c)"
  by (rule hpost_hfold)

lemma hpost_res_switch:
  "hpost Q a \<Longrightarrow> hpost Q b \<Longrightarrow> hpost Q d \<Longrightarrow> hpost Q e \<Longrightarrow> hpost Q f \<Longrightarrow> hpost Q (res_switch fl a b d e f)"
  by (simp add: res_switch_def hpost_Inl)

lemmas settles_rules = settles_bind hpost_res_switch hpost_hassert hpost_hguard hpost_if hpost_let hpost_case_option
  hpost_case_prod settles_hfold hpost_Inr hpost_Inl

lemma settles_tables:
  "settles c0 c \<Longrightarrow> (\<And>m. mb_pip (hm m) = mb_pip m) \<Longrightarrow> settles c0 (upd_mblock i hm c)"
  "settles c0 c \<Longrightarrow> (\<And>v. v_pip (hv v) = v_pip v) \<Longrightarrow> settles c0 (upd_vcpu i hv c)"
  "settles c0 c \<Longrightarrow> (\<And>e. le_pip (hl e) = le_pip e) \<Longrightarrow> settles c0 (upd_hv_ldc i hl c)"
  "settles c0 c \<Longrightarrow> mp_flags (mau_pip (ha (cfg_maus c i))) = mp_flags (mau_pip (cfg_maus c i)) \<Longrightarrow> settles c0 (upd_mau i ha c)"
  "settles c0 c \<Longrightarrow> settles c0 (c\<lparr> cfg_hvctl_ldc := x \<rparr>)" "settles c0 c \<Longrightarrow> settles c0 (c\<lparr> cfg_hcall_mem := y \<rparr>)"
  by (erule settles_trans, simp add: settles_upd)+

lemma settles_reset:
  "settles c0 c \<Longrightarrow> settles c0 (set_guest_flags i RESF_Noop c)" "settles c0 c \<Longrightarrow> settles c0 (set_mblock_flags i RESF_Noop c)"
  "settles c0 c \<Longrightarrow> settles c0 (set_vcpu_flags i RESF_Noop c)" "settles c0 c \<Longrightarrow> settles c0 (set_hv_ldc_flags i RESF_Noop c)"
  "settles c0 c \<Longrightarrow> settles c0 (set_ldc_flags i j RESF_Noop c)" "settles c0 c \<Longrightarrow> settles c0 (set_console_flags i RESF_Noop c)"
  "settles c0 c \<Longrightarrow> settles c0 (set_mau_flags i RESF_Noop c)"
  unfolding set_guest_flags_def set_mblock_flags_def set_vcpu_flags_def set_hv_ldc_flags_def set_ldc_flags_def ldc_pip_def
    upd_ldc_ep_def set_console_flags_def upd_console_pip_def set_mau_flags_def upd_mau_pip_def
  by (erule settles_trans, rule settles_upd, simp add: guest_settles_def upd_ldc_def upd_console_def)+

lemma res_memory_settles: "settles c0 c \<Longrightarrow> hpost (settles c0) (res_memory_commit_1 fl i c)"
  unfolding res_memory_commit_1_def res_memory_commit_modify_def res_memory_commit_unconfig_def res_memory_commit_config_def
  by (intro settles_rules settles_reset settles_tables settles_guest_pips device_pips; simp add: settles_tables)

lemma res_vcpu_settles: "settles c0 c \<Longrightarrow> hpost (settles c0) (res_vcpu_commit_1 fl i c)"
  unfolding res_vcpu_commit_1_def res_vcpu_commit_unconfig_def res_vcpu_commit_config_def
  by (intro settles_rules settles_reset settles_tables settles_guest_fields; simp add: reset_vcpu_state_def Let_def)

lemma res_hv_ldc_settles: "settles c0 c \<Longrightarrow> hpost (settles c0) (res_hv_ldc_commit_1 fl i c)"
  unfolding res_hv_ldc_commit_1_def res_hv_ldc_commit_unconfig_def res_hv_ldc_commit_config_def
  by (intro settles_rules settles_reset settles_tables; simp)

lemma res_ldc_settles: "settles c0 c \<Longrightarrow> hpost (settles c0) (res_ldc_commit_1 fl ij c)"
  unfolding res_ldc_commit_1_def res_ldc_commit_unconfig_def res_ldc_commit_config_def
  by (intro settles_rules settles_reset settles_guest_pips ldc_pips)

lemma res_console_settles: "settles c0 c \<Longrightarrow> hpost (settles c0) (res_console_commit_1 fl i c)"
  unfolding res_console_commit_1_def res_console_commit_modify_def res_console_commit_unconfig_def res_console_commit_config_def
  by (intro settles_rules settles_reset settles_guest_pips console_pips)

lemma init_guest_settles:
  assumes "settles c0 c"
  shows "hpost (settles c0) (init_guest i c)"
  unfolding init_guest_def upd_guest_hv_def assign_ra2pa_segments_def Let_def
  by (intro keep_rules settles_trans [OF assms] settles_upd(1))
    (auto simp: hbind_eq_Inr hassert_eq_Inr set_segments_def guest_settles_def guest_zero_def guest_parse_info_zero_def
      console_zero_def ldc_endpoint_zero_def ldce_parse_zero_def RESF_Noop_def)

lemma reset_guest_state_settles: "settles c0 c \<Longrightarrow> hpost (settles c0) (reset_guest_state gi c)"
  unfolding reset_guest_state_def reset_api_hcall_table_def Let_def
  by (intro settles_rules settles_tables settles_guest_fields; simp)

lemma res_guest_commit_modify_settles: "settles c0 c \<Longrightarrow> hpost (settles c0) (res_guest_commit_modify gi c)"
  unfolding res_guest_commit_modify_def Let_def
  by (intro hpost_hassert settles_guest_pips pips_rules device_pips; simp)

lemma res_guest_settles: "settles c0 c \<Longrightarrow> hpost (settles c0) (res_guest_commit_1 fl i c)"
  unfolding res_guest_commit_1_def res_guest_commit_unconfig_def res_guest_commit_config_def
  by (intro settles_bind hpost_res_switch hpost_hassert hpost_if hpost_let settles_reset reset_guest_state_settles
      res_guest_commit_modify_settles init_guest_settles settles_guest_pips settles_guest_fields pips_bind device_pips
      hpost_Inr hpost_Inl; simp)

lemma c_setup_mau_settles: "settles c0 c \<Longrightarrow> hpost (settles c0) (c_setup_mau vi ino c)"
  unfolding c_setup_mau_def mau_clear_queue_def Let_def by (intro settles_rules settles_tables; simp)

lemma setup_a_mau_settles: "settles c0 c \<Longrightarrow> hpost (settles c0) (setup_a_mau vi i ino c)"
  unfolding setup_a_mau_def by (intro settles_bind c_setup_mau_settles hpost_Inr settles_tables; simp)

lemma unconfig_strand_settles: "settles c0 c \<Longrightarrow> hpost (settles c0) (unconfig_strand_from_mau i st c)"
  unfolding unconfig_strand_from_mau_def init_mau_def mau_clear_queue_def Let_def
  by (intro settles_rules settles_tables settles_guest_fields; simp)

lemma mau_strand_settles:
  "settles c0 c \<Longrightarrow> hpost (settles c0) (mau_bind_strand i t c)"
  "settles c0 c \<Longrightarrow> hpost (settles c0) (mau_unbind_strand i t c)"
  "settles c0 c \<Longrightarrow> hpost (settles c0) (mau_modify_strand i t c)"
  unfolding mau_bind_strand_def mau_unbind_strand_def mau_modify_strand_def with_mau_guest_def
  by (intro hpost_hbind [where m = "mau_to_vcpu _ _ _"] settles_rules setup_a_mau_settles unconfig_strand_settles
      settles_tables settles_guest_pips device_pips; simp)+

lemma res_mau_settles: "settles c0 c \<Longrightarrow> hpost (settles c0) (res_mau_commit_1 fl i c)"
  unfolding res_mau_commit_1_def res_mau_commit_config_def res_mau_commit_unconfig_def res_mau_commit_modify_def
  by (intro settles_rules settles_reset mau_strand_settles settles_guest_pips settles_tables pips_rules; simp add: settles_tables)

subsection \<open>A phase takes back every flag it is called with\<close>

locale settling_kind =
  fixes idxs :: "'i list" and inst :: "'i \<Rightarrow> res_inst" and step :: "u8 \<Rightarrow> 'i \<Rightarrow> config \<Rightarrow> config hv"
  assumes step_settles: "settles c0 c \<Longrightarrow> hpost (settles c0) (step fl i c)"
    and step_done: "fl \<noteq> RESF_Noop \<Longrightarrow> i \<in> set idxs \<Longrightarrow> step fl i c = Inr c' \<Longrightarrow> flag_of c' (inst i) \<noteq> fl"
    and step_skip: "flag_of c (inst i) \<noteq> fl \<Longrightarrow> step fl i c = Inr c"
begin

lemma kind_skip: "(\<And>i. i \<in> set xs \<Longrightarrow> flag_of c (inst i) \<noteq> fl) \<Longrightarrow> hfold (step fl) xs c = Inr c"
  by (induction xs) (auto simp: step_skip)

lemma kind_settles: "settles c0 c \<Longrightarrow> hpost (settles c0) (hfold (step fl) idxs c)"
  by (rule hpost_hfold) (auto intro: step_settles)

lemma kind_done:
  assumes "hfold (step fl) idxs c = Inr c'" "fl \<noteq> RESF_Noop" "i \<in> set idxs"
  shows "flag_of c' (inst i) \<noteq> fl"
proof -
  have "\<forall>i\<in>set idxs. flag_of c' (inst i) \<noteq> fl"
  proof (rule hfold_inv_prefix [OF assms(1), where P = "\<lambda>ys d. \<forall>i\<in>set ys. flag_of d (inst i) \<noteq> fl"])
    fix ys y zs d d'
    assume split: "idxs = ys @ y # zs" and IH: "\<forall>i\<in>set ys. flag_of d (inst i) \<noteq> fl" and d': "step fl y d = Inr d'"
    have "settles d d'" using hpostD [OF step_settles [of d d] d'] by simp
    with IH assms(2) split step_done [OF assms(2) _ d'] show "\<forall>i\<in>set (ys @ [y]). flag_of d' (inst i) \<noteq> fl"
      by (auto dest: settles_flag)
  qed simp
  with assms(3) show ?thesis by blast
qed

end

lemma flags_reset:
  "flag_of (set_guest_flags i fl c) (R_guest i) = fl" "flag_of (set_mblock_flags i fl c) (R_memory i) = fl"
  "flag_of (set_vcpu_flags i fl c) (R_vcpu i) = fl" "flag_of (set_hv_ldc_flags i fl c) (R_hv_ldc i) = fl"
  "flag_of (set_ldc_flags i j fl c) (R_ldc i j) = fl" "flag_of (set_console_flags i fl c) (R_console i) = fl"
  "flag_of (set_mau_flags i fl c) (R_mau i) = fl"
  by (simp_all add: set_guest_flags_def set_mblock_flags_def set_vcpu_flags_def set_hv_ldc_flags_def set_ldc_flags_def
      ldc_pip_def upd_ldc_ep_def set_console_flags_def upd_console_pip_def set_mau_flags_def upd_mau_pip_def upd_defs
      upd_console_def)

text \<open>All the steps end with taking back the flag, when they have anything to do.\<close>

lemma settling_kindI:
  assumes "\<And>c0 c fl i. settles c0 c \<Longrightarrow> hpost (settles c0) (step fl i c)"
    and "\<And>fl i c. step fl i c = (if flag_of c (inst i) \<noteq> fl then Inr c else hbind (m fl i c) (\<lambda>d. Inr (k i d)))"
    and "\<And>i d. flag_of (k i d) (inst i) = RESF_Noop"
  shows "settling_kind idxs inst step"
  by unfold_locales (simp add: assms(1), auto simp: assms(2,3) hbind_eq_Inr split: if_splits)

lemmas fold_flag = flag_of.simps [symmetric]

interpretation guest_kind: settling_kind "[0..<NGUESTS]" R_guest res_guest_commit_1
  by (rule settling_kindI [OF res_guest_settles res_guest_commit_1_def [unfolded Let_def fold_flag(1)] flags_reset(1)])

interpretation memory_kind: settling_kind "[0..<NMBLOCKS]" R_memory res_memory_commit_1
  by (rule settling_kindI [OF res_memory_settles res_memory_commit_1_def [unfolded Let_def fold_flag(2)] flags_reset(2)])

interpretation vcpu_kind: settling_kind "[0..<NVCPUS]" R_vcpu res_vcpu_commit_1
  by (rule settling_kindI [OF res_vcpu_settles res_vcpu_commit_1_def [unfolded Let_def fold_flag(3)] flags_reset(3)])

interpretation hv_ldc_kind: settling_kind "[0..<MAX_HV_LDC_CHANNELS]" R_hv_ldc res_hv_ldc_commit_1
  by (rule settling_kindI [OF res_hv_ldc_settles res_hv_ldc_commit_1_def [unfolded Let_def fold_flag(4)] flags_reset(4)])

interpretation ldc_kind: settling_kind ldc_idxs "\<lambda>(i, j). R_ldc i j" res_ldc_commit_1
  by unfold_locales (simp add: res_ldc_settles, auto simp: res_ldc_commit_1_def Let_def hbind_eq_Inr set_ldc_flags_def
    ldc_pip_def upd_ldc_ep_def upd_defs split: if_splits)

interpretation console_kind: settling_kind "[0..<NGUESTS]" R_console res_console_commit_1
  by (rule settling_kindI [OF res_console_settles res_console_commit_1_def [unfolded Let_def fold_flag(6)] flags_reset(6)])

interpretation mau_kind: settling_kind "[0..<NMAUS]" R_mau res_mau_commit_1
  by (rule settling_kindI [OF res_mau_settles res_mau_commit_1_def [unfolded Let_def fold_flag(7)] flags_reset(7)])

subsection \<open>All phases\<close>

text \<open>The resource kind an instance belongs to.\<close>

fun inst_commit :: "res_inst \<Rightarrow> u8 \<Rightarrow> config \<Rightarrow> config hv" where
  "inst_commit (R_guest i) = res_guest_commit"
| "inst_commit (R_memory i) = res_memory_commit"
| "inst_commit (R_vcpu i) = res_vcpu_commit"
| "inst_commit (R_hv_ldc i) = res_hv_ldc_commit"
| "inst_commit (R_ldc i j) = res_ldc_commit"
| "inst_commit (R_console i) = res_console_commit"
| "inst_commit (R_mau i) = res_mau_commit"

lemmas commit_defs = res_guest_commit_def res_memory_commit_def res_vcpu_commit_def res_hv_ldc_commit_def
  res_ldc_commit_def res_console_commit_def res_mau_commit_def

lemma commit_of_kind: "x \<in> set resource_info \<Longrightarrow> ri_commit x = res_cwq_commit \<or> (\<exists>r. ri_commit x = inst_commit r)"
  unfolding resource_info_def by (simp, elim disjE; simp; metis inst_commit.simps)

lemma inst_commit_settles: "settles c0 c \<Longrightarrow> hpost (settles c0) (inst_commit r fl c)"
  by (cases r) (simp_all add: commit_defs guest_kind.kind_settles memory_kind.kind_settles vcpu_kind.kind_settles
      hv_ldc_kind.kind_settles ldc_kind.kind_settles console_kind.kind_settles mau_kind.kind_settles)

lemma phase_settles: "settles c0 c \<Longrightarrow> set rs \<subseteq> set resource_info \<Longrightarrow> hpost (settles c0) (commit_phase fl rs c)"
  unfolding commit_phase_def
  by (rule hpost_hfold, assumption, drule (1) subsetD, drule commit_of_kind)
    (auto intro: inst_commit_settles simp: res_cwq_commit_def hpost_Inr)

lemma inst_commit_done:
  "inst_commit r fl c = Inr c' \<Longrightarrow> fl \<noteq> RESF_Noop \<Longrightarrow> inst_ok r \<Longrightarrow> flag_of c' r \<noteq> fl"
  by (cases r; simp only: inst_commit.simps inst_ok.simps commit_defs;
      erule guest_kind.kind_done memory_kind.kind_done vcpu_kind.kind_done hv_ldc_kind.kind_done
       ldc_kind.kind_done [where i = "(_, _)", unfolded prod.case] console_kind.kind_done mau_kind.kind_done; simp)

lemma inst_commit_listed: "\<exists>x\<in>set resource_info. ri_commit x = inst_commit r"
  by (cases r) (simp_all add: resource_info_def)

lemma phase_done:
  assumes "commit_phase fl rs c = Inr c'" "set rs = set resource_info" "fl \<noteq> RESF_Noop" "inst_ok r"
  shows "flag_of c' r \<noteq> fl"
proof -
  obtain x where x: "x \<in> set rs" "ri_commit x = inst_commit r" using inst_commit_listed assms(2) by auto
  then obtain ys zs where rs: "rs = ys @ x # zs" by (auto simp: in_set_conv_decomp)
  with assms(1) x obtain c1 c2 where "inst_commit r fl c1 = Inr c2" and c2: "commit_phase fl zs c2 = Inr c'"
    by (auto simp: commit_phase_def hfold_append hbind_eq_Inr)
  then have "flag_of c2 r \<noteq> fl" using assms(3,4) inst_commit_done by blast
  moreover have "settles c2 c'" using phase_settles [of c2 c2 zs fl] c2 assms(2) rs by (auto dest: hpostD)
  ultimately show ?thesis using assms(3) settles_flag by blast
qed

lemma commit_reconfig_phases:
  assumes "commit_reconfig c = Inr c'"
  obtains c1 c2 c3 c4 where
    "commit_phase RESF_Unconfig (rev resource_info) c = Inr c1" "commit_phase RESF_Config resource_info c1 = Inr c2"
    "commit_phase RESF_Rebind resource_info c2 = Inr c3" "commit_phase RESF_Modify resource_info c3 = Inr c4"
    "c' = accept_hvmd c4" "settles c c1" "settles c1 c2" "settles c2 c3" "settles c3 c4"
proof -
  from assms obtain c1 c2 c3 c4 where ph:
      "commit_phase RESF_Unconfig (rev resource_info) c = Inr c1" "commit_phase RESF_Config resource_info c1 = Inr c2"
      "commit_phase RESF_Rebind resource_info c2 = Inr c3" "commit_phase RESF_Modify resource_info c3 = Inr c4"
      and c': "c' = accept_hvmd c4"
    by (auto simp: commit_reconfig_def hbind_eq_Inr)
  have "settles c c1" "settles c1 c2" "settles c2 c3" "settles c3 c4"
    by (rule hpostD [OF phase_settles ph(1)] hpostD [OF phase_settles ph(2)] hpostD [OF phase_settles ph(3)]
        hpostD [OF phase_settles ph(4)]; simp)+
  with ph c' show ?thesis by (rule that)
qed

lemma commit_no_pending:
  assumes "commit_reconfig c = Inr c'" "inst_ok r"
  shows "flag_of c' r \<notin> {RESF_Unconfig, RESF_Config, RESF_Rebind, RESF_Modify}"
proof -
  obtain c1 c2 c3 c4 where ph:
      "commit_phase RESF_Unconfig (rev resource_info) c = Inr c1" "commit_phase RESF_Config resource_info c1 = Inr c2"
      "commit_phase RESF_Rebind resource_info c2 = Inr c3" "commit_phase RESF_Modify resource_info c3 = Inr c4"
      and c': "c' = accept_hvmd c4" and st: "settles c c1" "settles c1 c2" "settles c2 c3" "settles c3 c4"
    by (rule commit_reconfig_phases [OF assms(1)])
  have fl: "RESF_Unconfig \<noteq> RESF_Noop" "RESF_Config \<noteq> RESF_Noop" "RESF_Rebind \<noteq> RESF_Noop" "RESF_Modify \<noteq> RESF_Noop"
    by (simp_all add: RESF_Noop_def RESF_Unconfig_def RESF_Config_def RESF_Rebind_def RESF_Modify_def)
  have same: "flag_of (accept_hvmd d) r = flag_of d r" for d by (cases r) (simp_all add: accept_hvmd_def)
  have "settles c1 c4" "settles c2 c4" using st by (blast intro: settles_trans)+
  with st phase_done [OF ph(1) _ fl(1) assms(2)] phase_done [OF ph(2) _ fl(2) assms(2)] phase_done [OF ph(3) _ fl(3) assms(2)]
    phase_done [OF ph(4) _ fl(4) assms(2)] fl c' same show ?thesis by (simp add: settles_flag)
qed

lemma commit_accepts:
  assumes "commit_reconfig c = Inr c'"
  shows "cfg_active_hvmd c' = cfg_parse_hvmd c" "control_part c' = control_part (accept_hvmd c)"
proof -
  obtain c1 c2 c3 c4 where c': "c' = accept_hvmd c4" and st: "settles c c1" "settles c1 c2" "settles c2 c3" "settles c3 c4"
    by (rule commit_reconfig_phases [OF assms])
  have cp: "control_part c4 = control_part c" using st by (simp add: settles_def)
  from arg_cong [OF this, where f = cfg_parse_hvmd] have "cfg_parse_hvmd c4 = cfg_parse_hvmd c" by (simp add: control_part_def)
  moreover have "control_part (accept_hvmd d) = (control_part d)\<lparr> cfg_active_hvmd := cfg_parse_hvmd d \<rparr>" for d
    by (cases d) (simp add: control_part_def accept_hvmd_def)
  moreover have "cfg_active_hvmd (accept_hvmd d) = cfg_parse_hvmd d" for d by (simp add: accept_hvmd_def)
  ultimately show "cfg_active_hvmd c' = cfg_parse_hvmd c" "control_part c' = control_part (accept_hvmd c)" using c' cp by simp_all
qed

text \<open>
  C17. After a commit that returns nothing is left to do: no resource of any kind still
  carries a flag other than the idle one of a phase, the description that has been
  parsed is the active one, and the state of the control channel, the names of the
  description and the record of a delayed reconfiguration are as they were.
\<close>

theorem commit_reconfig_settles:
  assumes "commit_reconfig c = Inr c'"
  shows "(\<forall>r. inst_ok r \<longrightarrow> flag_of c' r \<notin> {RESF_Unconfig, RESF_Config, RESF_Rebind, RESF_Modify}) \<and>
    cfg_active_hvmd c' = cfg_parse_hvmd c \<and> control_part c' = control_part (accept_hvmd c)"
  using commit_no_pending [OF assms] commit_accepts [OF assms] by blast

text \<open>Kinds with nothing to do in a phase.\<close>

lemma phase_skip:
  assumes "\<And>r. inst_ok r \<Longrightarrow> flag_of c r \<noteq> fl" "set rs \<subseteq> set resource_info"
  shows "commit_phase fl rs c = Inr c"
proof -
  have idle: "inst_commit r fl c = Inr c" for r
    by (cases r; simp only: inst_commit.simps commit_defs;
        rule guest_kind.kind_skip memory_kind.kind_skip vcpu_kind.kind_skip hv_ldc_kind.kind_skip
          ldc_kind.kind_skip console_kind.kind_skip mau_kind.kind_skip; (simp only: split_paired_all prod.case)?; rule assms(1); simp)
  have "ri_commit x fl c = Inr c" if "x \<in> set resource_info" for x
    using commit_of_kind [OF that] idle by (auto simp: res_cwq_commit_def)
  with assms(2) show ?thesis unfolding commit_phase_def by (induction rs) auto
qed

lemma mau0_flags: "flag_of mau0_config r = (if r = R_mau 0 then RESF_Config else RESF_Noop)"
  by (cases r) (simp_all add: mau0_config_def config_zero_def guest_zero_def guest_parse_info_zero_def mblock_zero_def
      vcpu_zero_def ldc_endpoint_zero_def ldce_parse_zero_def console_zero_def mau_zero_def RESF_Noop_def)

text \<open>One crypto unit is configured, and nothing else.\<close>

theorem commit_reconfig_settles_witness:
  "\<exists>c'. commit_reconfig mau0_config = Inr c' \<and> flag_of mau0_config (R_mau 0) = RESF_Config \<and>
     flag_of c' (R_mau 0) \<notin> {RESF_Unconfig, RESF_Config, RESF_Rebind, RESF_Modify}"
proof -
  obtain c' where c': "res_mau_commit RESF_Config mau0_config = Inr c'"
    using mau0_returns by (cases "res_mau_commit RESF_Config mau0_config") auto
  have fl: "RESF_Noop \<noteq> RESF_Config" "RESF_Noop \<noteq> RESF_Unconfig" "RESF_Config \<noteq> RESF_Unconfig"
      "RESF_Noop \<noteq> RESF_Rebind" "RESF_Noop \<noteq> RESF_Modify"
    by (simp_all add: RESF_Noop_def RESF_Config_def RESF_Unconfig_def RESF_Rebind_def RESF_Modify_def)
  have st: "settles mau0_config c'"
    using hpostD [OF inst_commit_settles [of _ _ "R_mau 0"]] c' by (metis inst_commit.simps(7) settles_refl)
  have "flag_of c' (R_mau 0) \<noteq> RESF_Config"
    using inst_commit_done [of "R_mau 0" RESF_Config] c' fl by (simp add: NMAUS_def del: flag_of.simps)
  with st have idle: "flag_of c' r = RESF_Noop" for r
    unfolding settles_def mau0_flags by metis
  have "res_guest_commit RESF_Config mau0_config = Inr mau0_config" "res_memory_commit RESF_Config mau0_config = Inr mau0_config"
      "res_vcpu_commit RESF_Config mau0_config = Inr mau0_config" "res_hv_ldc_commit RESF_Config mau0_config = Inr mau0_config"
      "res_ldc_commit RESF_Config mau0_config = Inr mau0_config" "res_console_commit RESF_Config mau0_config = Inr mau0_config"
    unfolding commit_defs
    by (rule guest_kind.kind_skip memory_kind.kind_skip vcpu_kind.kind_skip hv_ldc_kind.kind_skip
          ldc_kind.kind_skip console_kind.kind_skip, simp add: mau0_flags fl del: flag_of.simps split: prod.splits)+
  then have "commit_phase RESF_Config resource_info mau0_config = Inr c'"
    using c' by (simp add: commit_phase_def resource_info_def res_cwq_commit_def)
  moreover have "commit_phase RESF_Unconfig (rev resource_info) mau0_config = Inr mau0_config"
    by (rule phase_skip) (simp_all add: mau0_flags fl del: flag_of.simps)
  moreover have "commit_phase RESF_Rebind resource_info c' = Inr c'" "commit_phase RESF_Modify resource_info c' = Inr c'"
    using idle fl by (simp_all add: phase_skip)
  ultimately have "commit_reconfig mau0_config = Inr (accept_hvmd c')" by (simp add: commit_reconfig_def)
  with commit_reconfig_settles [OF this] show ?thesis
    by (auto simp: mau0_flags NMAUS_def simp del: flag_of.simps)
qed

end
