(* ===== verification/Ignition.thy ===== *)
theory Ignition
  imports Commit
begin

text \<open>
  Starting a guest (\<open>init.c\<close>): the first usable vcpu of the guest is scheduled on its
  strand, directly when that is the strand the code runs on and with a cross-call
  message otherwise.  Sending a message hands it to the assembler layer, which is
  modelled as a log of what has been sent; the number of the strand the code runs on
  (\<open>c_mystrand\<close>) is a parameter.
\<close>

definition NUM_SCHED_SLOTS :: nat where "NUM_SCHED_SLOTS = 2"

definition init_strand :: "nat \<Rightarrow> config \<Rightarrow> config hv" where
  "init_strand i c = hguard (i < NSTRANDS) (Inr (upd_strand i (\<lambda>sp. sp\<lparr> st_id := of_nat i, st_current_slot := 0,
     st_slot := (\<lambda>j. if j < NUM_SCHED_SLOTS then \<lparr> sl_action = SLOT_ACTION_NOP, sl_arg = None \<rparr> else st_slot sp j),
     st_err_seq_no := 0, st_io_prot := 0, st_io_error := 0 \<rparr>) c))"

text \<open>\<open>c_hvmondo_send\<close>: a message to a strand, NULL is no strand.\<close>

definition c_hvmondo_send :: "nat option \<Rightarrow> hvm \<Rightarrow> config \<Rightarrow> config hv" where
  "c_hvmondo_send dest msg c = (case dest of None \<Rightarrow> Inl Bad_access
     | Some s \<Rightarrow> hguard (s < NSTRANDS) (Inr (c\<lparr> cfg_mondo_log := cfg_mondo_log c @ [(s, msg)] \<rparr>)))"

text \<open>The loop that looks for the boot cpu, over the slots of the guest that are left.\<close>

fun find_bootcpu :: "config \<Rightarrow> nat \<Rightarrow> nat list \<Rightarrow> nat option hv" where
  "find_bootcpu c gi [] = Inr None"
| "find_bootcpu c gi (i # is) =
     (case g_vcpus (cfg_guests c gi) i of None \<Rightarrow> find_bootcpu c gi is
      | Some vi \<Rightarrow>
          if v_status (cfg_vcpus c vi) = CPU_STATE_ERROR then find_bootcpu c gi is
          else hassert (v_status (cfg_vcpus c vi) = CPU_STATE_STOPPED) (Inr (Some vi)))"

definition schedule_vcpu :: "nat \<Rightarrow> nat \<Rightarrow> config \<Rightarrow> config hv" where
  "schedule_vcpu mystrand vi c =
     (let v = cfg_vcpus c vi; slot = unat (v_strand_slot v) in
      if v_strand v = Some mystrand then
        hguard (slot < NUM_SCHED_SLOTS) (Inr (upd_strand mystrand (\<lambda>sp. sp\<lparr> st_slot :=
          (st_slot sp)(slot := \<lparr> sl_action = SLOT_ACTION_RUN_VCPU, sl_arg = Some vi \<rparr>) \<rparr>) c))
      else c_hvmondo_send (v_strand v) (HXCMD_SCHED_VCPU vi) c)"

definition guest_ignition :: "nat \<Rightarrow> nat \<Rightarrow> config \<Rightarrow> (bool \<times> config) hv" where
  "guest_ignition mystrand gi c =
     hassert (g_state (cfg_guests c gi) = GUEST_STATE_RESETTING)
     (hbind (find_bootcpu c gi [0..<NVCPUS]) (\<lambda>r. case r of None \<Rightarrow> Inr (False, c)
      | Some vi \<Rightarrow>
          hassert (v_guest (cfg_vcpus c vi) = Some gi)
          (hassert (v_status (cfg_vcpus c vi) = CPU_STATE_STOPPED)
           (hbind (schedule_vcpu mystrand vi c) (\<lambda>c. Inr (True, c))))))"

subsection \<open>Which vcpu boots\<close>

text \<open>The first vcpu of the guest that is not in error, in the order of virtual numbers.\<close>

definition usable_slot :: "config \<Rightarrow> nat \<Rightarrow> nat \<Rightarrow> bool" where
  "usable_slot c gi k \<longleftrightarrow> (case g_vcpus (cfg_guests c gi) k of None \<Rightarrow> False
     | Some vi \<Rightarrow> v_status (cfg_vcpus c vi) \<noteq> CPU_STATE_ERROR)"

definition boot_cpu :: "config \<Rightarrow> nat \<Rightarrow> nat option" where
  "boot_cpu c gi = map_option (\<lambda>k. the (g_vcpus (cfg_guests c gi) k)) (List.find (usable_slot c gi) [0..<NVCPUS])"

text \<open>A guest none of whose vcpus runs, with its vcpus on existing strands.\<close>

definition guest_at_rest :: "config \<Rightarrow> nat \<Rightarrow> bool" where
  "guest_at_rest c gi \<longleftrightarrow> (\<forall>k<NVCPUS. \<forall>vi. g_vcpus (cfg_guests c gi) k = Some vi \<longrightarrow>
     (v_status (cfg_vcpus c vi) = CPU_STATE_STOPPED \<or> v_status (cfg_vcpus c vi) = CPU_STATE_ERROR) \<and>
     (\<exists>s<NSTRANDS. v_strand (cfg_vcpus c vi) = Some s) \<and> unat (v_strand_slot (cfg_vcpus c vi)) < NUM_SCHED_SLOTS)"

lemma find_bootcpu_at_rest:
  assumes "\<And>k vi. k \<in> set ks \<Longrightarrow> g_vcpus (cfg_guests c gi) k = Some vi \<Longrightarrow>
    v_status (cfg_vcpus c vi) = CPU_STATE_STOPPED \<or> v_status (cfg_vcpus c vi) = CPU_STATE_ERROR"
  shows "find_bootcpu c gi ks = Inr (map_option (\<lambda>k. the (g_vcpus (cfg_guests c gi) k)) (List.find (usable_slot c gi) ks))"
  using assms
proof (induction ks)
  case (Cons k ks)
  have "find_bootcpu c gi ks = Inr (map_option (\<lambda>k. the (g_vcpus (cfg_guests c gi) k)) (List.find (usable_slot c gi) ks))"
    using Cons by (meson list.set_intros(2))
  then show ?case
    using Cons.prems [of k] by (cases "g_vcpus (cfg_guests c gi) k") (auto simp: usable_slot_def [of c gi k] hassert_def)
qed simp

lemma boot_cpu_in_guest:
  assumes "boot_cpu c gi = Some vi"
  obtains k where "k < NVCPUS" "g_vcpus (cfg_guests c gi) k = Some vi" "v_status (cfg_vcpus c vi) \<noteq> CPU_STATE_ERROR"
  using assms by (auto simp: boot_cpu_def usable_slot_def find_Some_iff split: option.splits)

lemma boot_cpu_None:
  "boot_cpu c gi = None \<longleftrightarrow> (\<forall>k<NVCPUS. \<forall>vi. g_vcpus (cfg_guests c gi) k = Some vi \<longrightarrow>
     v_status (cfg_vcpus c vi) = CPU_STATE_ERROR)"
  by (fastforce simp: boot_cpu_def find_None_iff usable_slot_def split: option.splits)

text \<open>
  C18. Starting a guest at rest always returns.  It succeeds exactly when the guest has
  a vcpu that is not in error, and then does one thing only: the first such vcpu is
  scheduled, in its slot of the own strand or by one message to its strand.
\<close>

theorem guest_ignition_boots:
  assumes "g_state (cfg_guests c gi) = GUEST_STATE_RESETTING" "guest_at_rest c gi" "vcpus_ok c" "gi < NGUESTS"
  shows "case boot_cpu c gi of
      None \<Rightarrow> guest_ignition mystrand gi c = Inr (False, c) \<and>
        (\<forall>k<NVCPUS. \<forall>vi. g_vcpus (cfg_guests c gi) k = Some vi \<longrightarrow> v_status (cfg_vcpus c vi) = CPU_STATE_ERROR)
    | Some vi \<Rightarrow> v_guest (cfg_vcpus c vi) = Some gi \<and> (\<exists>s. v_strand (cfg_vcpus c vi) = Some s \<and>
        guest_ignition mystrand gi c = Inr (True,
          if s = mystrand
          then upd_strand s (\<lambda>sp. sp\<lparr> st_slot := (st_slot sp)(unat (v_strand_slot (cfg_vcpus c vi)) :=
                 \<lparr> sl_action = SLOT_ACTION_RUN_VCPU, sl_arg = Some vi \<rparr>) \<rparr>) c
          else c\<lparr> cfg_mondo_log := cfg_mondo_log c @ [(s, HXCMD_SCHED_VCPU vi)] \<rparr>))"
proof -
  have find: "find_bootcpu c gi [0..<NVCPUS] = Inr (boot_cpu c gi)"
    unfolding boot_cpu_def using assms(2) by (intro find_bootcpu_at_rest) (auto simp: guest_at_rest_def)
  show ?thesis
  proof (cases "boot_cpu c gi")
    case None
    then show ?thesis using find assms(1) by (simp add: guest_ignition_def hassert_def boot_cpu_None [symmetric])
  next
    case (Some vi)
    then obtain k where k: "k < NVCPUS" "g_vcpus (cfg_guests c gi) k = Some vi" "v_status (cfg_vcpus c vi) \<noteq> CPU_STATE_ERROR"
      by (rule boot_cpu_in_guest)
    have "v_guest (cfg_vcpus c vi) = Some gi" using vcpus_ok_slot_unique(3) [OF assms(3,4) k(1,2)] .
    moreover obtain s where "s < NSTRANDS" "v_strand (cfg_vcpus c vi) = Some s" "v_status (cfg_vcpus c vi) = CPU_STATE_STOPPED"
        "unat (v_strand_slot (cfg_vcpus c vi)) < NUM_SCHED_SLOTS"
      using assms(2) k by (auto simp: guest_at_rest_def)
    ultimately show ?thesis using Some find assms(1)
      by (auto simp: guest_ignition_def hassert_def hguard_def schedule_vcpu_def c_hvmondo_send_def Let_def)
  qed
qed

text \<open>Guest 0 has two vcpus, the first of which is in error.\<close>

definition boot_config :: config where
  "boot_config = config_zero\<lparr> cfg_guests := (\<lambda>_. guest_zero)(0 := guest_zero\<lparr> g_state := GUEST_STATE_RESETTING,
       g_vcpus := [0 \<mapsto> 3, 1 \<mapsto> 4] \<rparr>),
     cfg_vcpus := (\<lambda>_. vcpu_zero\<lparr> v_status := CPU_STATE_UNCONFIGURED \<rparr>)
       (3 := vcpu_zero\<lparr> v_guest := Some 0, v_strand := Some 6, v_vid := 0, v_status := CPU_STATE_ERROR \<rparr>,
        4 := vcpu_zero\<lparr> v_guest := Some 0, v_strand := Some 7, v_vid := 1, v_status := CPU_STATE_STOPPED \<rparr>) \<rparr>"

lemma boot_config_ok: "vcpus_ok boot_config"
  by (auto simp: vcpus_ok_def vcpu_bound_def vcpu_slot_ok_def boot_config_def config_zero_def vcpu_zero_def guest_zero_def
      NVCPUS_def NGUESTS_def RESF_Config_def cpu_states)

theorem guest_ignition_boots_witness:
  "guest_ignition 2 0 boot_config = Inr (True, boot_config\<lparr> cfg_mondo_log := [(7, HXCMD_SCHED_VCPU 4)] \<rparr>)"
proof -
  have "boot_cpu boot_config 0 = Some 4"
  proof -
    have slots: "\<not> usable_slot boot_config 0 0" "usable_slot boot_config 0 1" "g_vcpus (cfg_guests boot_config 0) 1 = Some 4"
      by (simp_all add: usable_slot_def boot_config_def cpu_states)
    have "[0..<NVCPUS] = 0 # 1 # [2..<NVCPUS]" by (simp add: NVCPUS_def upt_conv_Cons numeral_2_eq_2)
    with slots show ?thesis by (simp add: boot_cpu_def)
  qed
  moreover have "guest_at_rest boot_config 0"
    by (auto simp: guest_at_rest_def boot_config_def NSTRANDS_def NUM_SCHED_SLOTS_def vcpu_zero_def)
  moreover have "g_state (cfg_guests boot_config 0) = GUEST_STATE_RESETTING" by (simp add: boot_config_def)
  ultimately show ?thesis
    using guest_ignition_boots [of boot_config 0 2] boot_config_ok
    by (auto simp: NGUESTS_def boot_config_def config_zero_def)
qed

end
