(* ===== verification/Hvcontrol.thy ===== *)
theory Hvcontrol
  imports Ignition
begin

text \<open>
  The hypervisor control channel (\<open>hvcontrol.c\<close>): the handshake with the domain
  manager, the sequence numbers, and the commands.  A packet arrives as \<open>rcpt\<close>, the
  reply is built in the output buffer of the configuration.  SPARC is big endian, so
  \<open>hton\<close> and \<open>ntoh\<close> are the identity.  What the code reads from the machine it runs on
  is a parameter: the number of the strand, the stick counter, and the junk in the
  locals \<open>op_reconfig\<close> does not initialise.  The spinlocks other than
  \<open>del_reconf_lock\<close> are taken and released within one function.
\<close>

record hv_env =
  he_strand :: nat
  he_stick :: u64
  he_junk :: rc_junk

definition HVCTL_STATE_UNCONNECTED :: u8 where "HVCTL_STATE_UNCONNECTED = 0"
definition HVCTL_STATE_CHALLENGED :: u8 where "HVCTL_STATE_CHALLENGED = 1"
definition HVCTL_STATE_CONNECTED :: u8 where "HVCTL_STATE_CONNECTED = 2"
definition HVCTL_VERSION_MAJOR_NUMBER :: u16 where "HVCTL_VERSION_MAJOR_NUMBER = 1"
definition HVCTL_VERSION_MINOR_NUMBER :: u16 where "HVCTL_VERSION_MINOR_NUMBER = 0"
definition HVCTL_HV_CHALLENGE_K :: u64 where "HVCTL_HV_CHALLENGE_K = 0xbadbeef20"
definition HVCTL_ZEUS_CHALLENGE_K :: u64 where "HVCTL_ZEUS_CHALLENGE_K = 0x12cafe42a"
definition RANDOM_SEQ_OFFSET :: u16 where "RANDOM_SEQ_OFFSET = 2909"

lemmas hvctl_states = HVCTL_STATE_UNCONNECTED_def HVCTL_STATE_CHALLENGED_def HVCTL_STATE_CONNECTED_def

definition HVctl_op_hello :: u16 where "HVctl_op_hello = 0"
definition HVctl_op_challenge :: u16 where "HVctl_op_challenge = 1"
definition HVctl_op_response :: u16 where "HVctl_op_response = 2"
definition HVctl_op_get_hvconfig :: u16 where "HVctl_op_get_hvconfig = 3"
definition HVctl_op_reconfigure :: u16 where "HVctl_op_reconfigure = 4"
definition HVctl_op_guest_start :: u16 where "HVctl_op_guest_start = 5"
definition HVctl_op_guest_stop :: u16 where "HVctl_op_guest_stop = 6"
definition HVctl_op_guest_delayed_reconf :: u16 where "HVctl_op_guest_delayed_reconf = 7"
definition HVctl_op_guest_panic :: u16 where "HVctl_op_guest_panic = 10"
definition HVctl_op_get_res_stat :: u16 where "HVctl_op_get_res_stat = 11"
definition HVctl_op_cancel_reconf :: u16 where "HVctl_op_cancel_reconf = 13"

lemmas hvctl_ops = HVctl_op_hello_def HVctl_op_challenge_def HVctl_op_response_def HVctl_op_get_hvconfig_def
  HVctl_op_reconfigure_def HVctl_op_guest_start_def HVctl_op_guest_stop_def HVctl_op_guest_delayed_reconf_def
  HVctl_op_guest_panic_def HVctl_op_get_res_stat_def HVctl_op_cancel_reconf_def

definition HVctl_res_guestmd :: u32 where "HVctl_res_guestmd = 9"
definition HVctl_info_guest_state :: u32 where "HVctl_info_guest_state = 0"
definition HVctl_info_guest_soft_state :: u32 where "HVctl_info_guest_soft_state = 1"
definition HVctl_info_guest_tod :: u32 where "HVctl_info_guest_tod = 2"
definition HVctl_info_guest_utilisation :: u32 where "HVctl_info_guest_utilisation = 3"
definition HVctl_info_guest_max :: u32 where "HVctl_info_guest_max = 4"
definition HVctl_info_vcpu_state :: u32 where "HVctl_info_vcpu_state = 0"
definition SOFT_STATE_SIZE :: nat where "SOFT_STATE_SIZE = 32"

lemmas guest_infos = HVctl_info_guest_state_def HVctl_info_guest_soft_state_def HVctl_info_guest_tod_def
  HVctl_info_guest_utilisation_def HVctl_info_guest_max_def

subsection \<open>Replies\<close>

definition upd_hdr_status :: "hvctl_status \<Rightarrow> config \<Rightarrow> config" where
  "upd_hdr_status st = upd_reply (\<lambda>m. m\<lparr> m_status := status_code st \<rparr>)"

definition hvctl_send_pkt :: "config \<Rightarrow> config" where
  "hvctl_send_pkt c = (upd_reply (\<lambda>m. m\<lparr> m_seqn := cfg_hvctl_hv_seq c \<rparr>) c)\<lparr> cfg_hvctl_hv_seq := cfg_hvctl_hv_seq c + 1 \<rparr>"

definition reply_cmd :: "hvctl_status \<Rightarrow> config \<Rightarrow> config" where
  "reply_cmd status c = hvctl_send_pkt
     (let c = upd_hdr_status status c in
      if status = HVctl_st_bad_seqn \<or> status = HVctl_st_eauth then c\<lparr> cfg_hvctl_state := HVCTL_STATE_UNCONNECTED \<rparr> else c)"

definition bad_sequence_number :: "config \<Rightarrow> config" where
  "bad_sequence_number c = reply_cmd HVctl_st_bad_seqn (c\<lparr> cfg_hvctl_state := HVCTL_STATE_UNCONNECTED \<rparr>)"

subsection \<open>The handshake\<close>

text \<open>\<open>msg.hello\<close>: two 16-bit fields in the first cell.\<close>

definition hello_major :: "hvctl_msg \<Rightarrow> u16" where
  "hello_major m = ucast (drop_bit 16 (m_body m 0))"

definition put_hello :: "u16 \<Rightarrow> u16 \<Rightarrow> hvctl_msg \<Rightarrow> hvctl_msg" where
  "put_hello maj mnr = put_u32 0 (push_bit 16 (ucast maj) OR ucast mnr)"

text \<open>\<open>__LINE__\<close> in \<open>op_start_hello\<close>.\<close>

definition hvctl_rand_line :: u64 where "hvctl_rand_line = 860"

definition op_start_hello :: "hvctl_msg \<Rightarrow> config \<Rightarrow> config" where
  "op_start_hello rcpt c = hvctl_send_pkt
     (let c = c\<lparr> cfg_hvctl_zeus_seq := m_seqn rcpt + 1 \<rparr>;
          c = c\<lparr> cfg_hvctl_hv_seq := cfg_hvctl_zeus_seq c + RANDOM_SEQ_OFFSET \<rparr> in
      if hello_major rcpt \<noteq> HVCTL_VERSION_MAJOR_NUMBER
      then (upd_reply (\<lambda>m. put_hello HVCTL_VERSION_MAJOR_NUMBER HVCTL_VERSION_MINOR_NUMBER
              (m\<lparr> m_op := HVctl_op_hello, m_status := status_code HVctl_st_enotsupp \<rparr>)) c)
             \<lparr> cfg_hvctl_state := HVCTL_STATE_UNCONNECTED \<rparr>
      else let c = c\<lparr> cfg_hvctl_rand_num := hvctl_rand_line \<rparr> in
        (upd_reply (\<lambda>m. put_u64 0 (HVCTL_HV_CHALLENGE_K XOR cfg_hvctl_rand_num c)
           (m\<lparr> m_op := HVctl_op_challenge, m_status := status_code HVctl_st_ok \<rparr>)) c)
          \<lparr> cfg_hvctl_state := HVCTL_STATE_CHALLENGED \<rparr>)"

definition op_start_hello2 :: "hvctl_msg \<Rightarrow> config \<Rightarrow> config" where
  "op_start_hello2 rcpt c =
     (if msg_u64 rcpt 0 XOR HVCTL_ZEUS_CHALLENGE_K \<noteq> cfg_hvctl_rand_num c then reply_cmd HVctl_st_eauth c
      else reply_cmd HVctl_st_ok (c\<lparr> cfg_hvctl_state := HVCTL_STATE_CONNECTED \<rparr>))"

subsection \<open>Commands on guests\<close>

text \<open>\<open>int guestid\<close>, out of range.\<close>

definition bad_id :: "u32 \<Rightarrow> nat \<Rightarrow> bool" where
  "bad_id i n \<longleftrightarrow> sint i < 0 \<or> sint i \<ge> int n"

text \<open>\<open>done: replyp->msg.guestop.code = errcode; return (status)\<close>\<close>

definition guestop_done :: "u32 \<Rightarrow> hvctl_status \<Rightarrow> config \<Rightarrow> (hvctl_status \<times> config) hv" where
  "guestop_done errcode status c = Inr (status, upd_reply (put_u32 1 errcode) c)"

definition set_guest_state :: "nat \<Rightarrow> u32 \<Rightarrow> config \<Rightarrow> config" where
  "set_guest_state gi st = upd_guest gi (\<lambda>g. g\<lparr> g_state := st \<rparr>)"

definition op_guest_start :: "hv_env \<Rightarrow> hvctl_msg \<Rightarrow> config \<Rightarrow> (hvctl_status \<times> config) hv" where
  "op_guest_start env cmd c =
     (if bad_id (m_body cmd 0) NGUESTS then guestop_done HVctl_e_guest_invalid_id HVctl_st_einval c
      else let gi = unat (m_body cmd 0); st = g_state (cfg_guests c gi) in
        if st = GUEST_STATE_SUSPENDED \<or> st = GUEST_STATE_NORMAL \<or> st = GUEST_STATE_EXITING \<or> st = GUEST_STATE_RESETTING
        then guestop_done HVctl_e_guest_active HVctl_st_eillegal c
        else if st \<noteq> GUEST_STATE_STOPPED then guestop_done HVctl_e_guest_invalid_id HVctl_st_einval c
        else hbind (guest_ignition (he_strand env) gi (set_guest_state gi GUEST_STATE_RESETTING c)) (\<lambda>(ok, c).
          if ok then guestop_done 0 HVctl_st_ok c else guestop_done HVctl_e_guest_nocpus HVctl_st_einval c))"

text \<open>\<open>find_target_strand_for_exit\<close> returns a \<open>uint8_t\<close>, which is 255 when it means \<open>-1\<close>.\<close>

fun find_target_strand_from :: "config \<Rightarrow> nat \<Rightarrow> nat list \<Rightarrow> u8 hv" where
  "find_target_strand_from c gi [] = Inr (- 1)"
| "find_target_strand_from c gi (i # is) =
     (case g_vcpus (cfg_guests c gi) i of None \<Rightarrow> find_target_strand_from c gi is
      | Some vi \<Rightarrow>
          let v = cfg_vcpus c vi in
          hassert (v_guest v = Some gi)
          (if v_status v \<noteq> CPU_STATE_RUNNING \<and> v_status v \<noteq> CPU_STATE_STOPPED \<and> v_status v \<noteq> CPU_STATE_SUSPENDED
           then find_target_strand_from c gi is
           else case v_strand v of None \<Rightarrow> Inl Bad_access | Some s \<Rightarrow> Inr (st_id (cfg_strands c s))))"

definition find_target_strand_for_exit :: "nat \<Rightarrow> config \<Rightarrow> u8 hv" where
  "find_target_strand_for_exit gi c = find_target_strand_from c gi [0..<NVCPUS]"

text \<open>The comparison \<open>tgt_strand == -1\<close> is made in \<open>int\<close>, after widening the unsigned byte.\<close>

definition op_guest_stop :: "hvctl_msg \<Rightarrow> config \<Rightarrow> (hvctl_status \<times> config) hv" where
  "op_guest_stop cmd c =
     (if bad_id (m_body cmd 0) NGUESTS then guestop_done HVctl_e_guest_invalid_id HVctl_st_einval c
      else let gi = unat (m_body cmd 0); st = g_state (cfg_guests c gi) in
        if st = GUEST_STATE_NORMAL \<or> st = GUEST_STATE_SUSPENDED then
          hbind (find_target_strand_for_exit gi c) (\<lambda>tgt_strand.
            if (ucast tgt_strand :: u32) = - 1 then guestop_done 0 HVctl_st_stop_failed c
            else hbind (c_hvmondo_send (Some (unat tgt_strand)) (HXCMD_STOP_GUEST gi)
                (set_guest_state gi GUEST_STATE_EXITING c)) (guestop_done 0 HVctl_st_ok))
        else if st = GUEST_STATE_STOPPED then guestop_done HVctl_e_guest_stopped HVctl_st_eillegal c
        else if st = GUEST_STATE_RESETTING then guestop_done 0 HVctl_st_stop_failed c
        else if st = GUEST_STATE_EXITING then guestop_done 0 HVctl_st_ok c
        else guestop_done HVctl_e_guest_invalid_id HVctl_st_einval c)"

text \<open>The first running vcpu of a guest.\<close>

definition find_running_vcpu :: "nat \<Rightarrow> config \<Rightarrow> nat option" where
  "find_running_vcpu gi c = map_option (\<lambda>i. the (g_vcpus (cfg_guests c gi) i))
     (List.find (\<lambda>i. case g_vcpus (cfg_guests c gi) i of None \<Rightarrow> False
        | Some vi \<Rightarrow> v_status (cfg_vcpus c vi) = CPU_STATE_RUNNING) [0..<NVCPUS])"

text \<open>A success leaves \<open>msg.guestop.code\<close> as it was.\<close>

definition op_guest_panic :: "hvctl_msg \<Rightarrow> config \<Rightarrow> (hvctl_status \<times> config) hv" where
  "op_guest_panic cmd c =
     (let gi = unat (m_body cmd 0); st = g_state (cfg_guests c gi) in
      if gi \<ge> NGUESTS then guestop_done HVctl_e_guest_invalid_id HVctl_st_einval c
      else hguard (unat (cfg_hvctl_ldc c) < MAX_HV_LDC_CHANNELS)
       (if le_target_guest (cfg_hv_ldcs c (unat (cfg_hvctl_ldc c))) = Some gi
        then guestop_done HVctl_e_guest_invalid_id HVctl_st_einval c
        else if st = GUEST_STATE_STOPPED then guestop_done HVctl_e_guest_stopped HVctl_st_eillegal c
        else if \<not> (st = GUEST_STATE_NORMAL \<or> st = GUEST_STATE_SUSPENDED \<or> st = GUEST_STATE_EXITING)
        then guestop_done HVctl_e_guest_invalid_id HVctl_st_einval c
        else case find_running_vcpu gi c of
            None \<Rightarrow> guestop_done HVctl_e_guest_nocpus HVctl_st_einval c
          | Some vi \<Rightarrow> hbind (c_hvmondo_send (v_strand (cfg_vcpus c vi)) (HXCMD_GUEST_PANIC vi) c) (\<lambda>c. Inr (HVctl_st_ok, c))))"

subsection \<open>Status of resources\<close>

text \<open>\<open>msg.resstat\<close>: four cells, then the data bytes, the first of which is the highest of cell 4.\<close>

definition put_byte :: "nat \<Rightarrow> u8 \<Rightarrow> hvctl_msg \<Rightarrow> hvctl_msg" where
  "put_byte k v m = (let n = 4 + k div 4; sh = 24 - 8 * (k mod 4) in
     put_u32 n ((m_body m n AND NOT (push_bit sh 0xff)) OR push_bit sh (ucast v)) m)"

definition put_bytes :: "nat \<Rightarrow> (nat \<Rightarrow> u8) \<Rightarrow> nat \<Rightarrow> hvctl_msg \<Rightarrow> hvctl_msg" where
  "put_bytes k bs n = fold (\<lambda>i. put_byte (k + i) (bs i)) [0..<n]"

definition get_vcpu_yielded_cycle_delta :: "vcpu \<Rightarrow> u64 \<Rightarrow> u64 \<Rightarrow> u64" where
  "get_vcpu_yielded_cycle_delta v now last_count =
     (let yield_count = vu_yield_count (v_util v); yield_curr = vu_yield_start (v_util v);
          yield_count = (if yield_curr = 0 then vu_yield_count (v_util v)
            else if yield_curr < now then yield_count + (now - yield_curr) else yield_count) in
      yield_count - last_count)"

text \<open>The body of the loop over the vcpus: the total so far and the configuration.\<close>

definition guest_util_vcpu :: "nat \<Rightarrow> u64 \<Rightarrow> nat \<Rightarrow> u64 \<times> config \<Rightarrow> u64 \<times> config" where
  "guest_util_vcpu gi now i s = (case s of (yielded_cycles, c) \<Rightarrow>
     let v = cfg_vcpus c i in
     if v_guest v = Some gi then
       let delta = get_vcpu_yielded_cycle_delta v now (vu_last_yield_count_guest (v_util v)) in
       (yielded_cycles + delta, upd_vcpu i (\<lambda>v. v\<lparr> v_util := (v_util v)\<lparr> vu_last_yield_count_guest :=
          vu_last_yield_count_guest (v_util v) + delta \<rparr> \<rparr>) c)
     else (yielded_cycles, c))"

definition get_guest_utilisation :: "hv_env \<Rightarrow> nat \<Rightarrow> config \<Rightarrow> config" where
  "get_guest_utilisation env gi c =
     (let now = he_stick env; g = cfg_guests c gi;
          (yielded_cycles, c) = fold (guest_util_vcpu gi now) [0..<NVCPUS] (0, c);
          c = upd_reply (\<lambda>m. put_u64 12 yielded_cycles (put_u64 10 0 (put_u64 8 (now - g_stick_last g)
                (put_u64 6 (now - g_stick_last g) (put_u64 4 (now - g_start_stick g) m))))) c in
      upd_guest gi (\<lambda>g. g\<lparr> g_stick_last := now \<rparr>) c)"

definition async_idle :: "nat \<Rightarrow> u32 \<Rightarrow> config \<Rightarrow> config" where
  "async_idle gi infoid = upd_guest gi (\<lambda>g. g\<lparr> g_async_busy := (g_async_busy g)(unat infoid := 0) \<rparr>)"

definition get_guest_status :: "hv_env \<Rightarrow> hvctl_msg \<Rightarrow> config \<Rightarrow> hvctl_status \<times> config" where
  "get_guest_status env cmd c =
     (if bad_id (m_body cmd 1) NGUESTS then (HVctl_st_einval, upd_reply (put_u32 3 HVctl_e_guest_invalid_id) c)
      else let gi = unat (m_body cmd 1); infoid = m_body cmd 2; g = cfg_guests c gi in
        if sint infoid < 0 \<or> sint infoid \<ge> sint HVctl_info_guest_max
        then (HVctl_st_einval, upd_reply (put_u32 3 HVctl_e_invalid_infoid) c)
        else if infoid = HVctl_info_guest_state
        then (HVctl_st_ok, async_idle gi infoid (upd_reply (put_u64 4 (ucast (g_state g))) c))
        else if infoid = HVctl_info_guest_soft_state
        then (HVctl_st_ok, async_idle gi infoid (upd_reply (\<lambda>m. put_bytes 1 (g_soft_state_str g) SOFT_STATE_SIZE
               (put_byte 0 (g_soft_state g) m)) c))
        else if infoid = HVctl_info_guest_tod
        then (HVctl_st_ok, async_idle gi infoid (upd_reply (put_u64 4 (g_tod_offset g)) c))
        else if infoid = HVctl_info_guest_utilisation then (HVctl_st_ok, get_guest_utilisation env gi c)
        else (HVctl_st_einval, upd_reply (put_u32 3 HVctl_e_invalid_infoid) c))"

definition get_vcpu_status :: "hv_env \<Rightarrow> hvctl_msg \<Rightarrow> config \<Rightarrow> hvctl_status \<times> config" where
  "get_vcpu_status env cmd c =
     (if bad_id (m_body cmd 1) NVCPUS then (HVctl_st_einval, upd_reply (put_u32 3 HVctl_e_vcpu_invalid_id) c)
      else let vi = unat (m_body cmd 1); v = cfg_vcpus c vi; now = he_stick env in
        if m_body cmd 2 = HVctl_info_vcpu_state then
          let active_delta = now - vu_stick_last (v_util v);
              delta = get_vcpu_yielded_cycle_delta v now (vu_last_yield_count_vcpu (v_util v));
              c = upd_reply (\<lambda>m. put_u64 12 (if delta > active_delta then active_delta else delta)
                    (put_u64 10 active_delta (put_u64 8 (now - vu_stick_last (v_util v))
                    (put_u64 6 (now - v_start_stick v) (put_byte 0 (ucast (v_status v)) m))))) c in
          (HVctl_st_ok, upd_vcpu vi (\<lambda>v. v\<lparr> v_util := (v_util v)\<lparr>
             vu_last_yield_count_vcpu := vu_last_yield_count_vcpu (v_util v) + delta, vu_stick_last := now \<rparr> \<rparr>) c)
        else (HVctl_st_einval, upd_reply (put_u32 3 HVctl_e_invalid_infoid) c))"

definition op_get_res_stat :: "hv_env \<Rightarrow> hvctl_msg \<Rightarrow> config \<Rightarrow> hvctl_status \<times> config" where
  "op_get_res_stat env cmd c =
     (let res = m_body cmd 0 in
      if res = HVctl_res_guest then get_guest_status env cmd c
      else if res = HVctl_res_vcpu then get_vcpu_status env cmd c
      else if res = HVctl_res_memory \<or> res = HVctl_res_mau \<or> res = HVctl_res_ldc \<or> res = HVctl_res_hv_ldc \<or>
        res = HVctl_res_guestmd then (HVctl_st_enotsupp, c)
      else (HVctl_st_einval, c))"

definition op_get_hvconfig :: "config \<Rightarrow> (hvctl_status \<times> config) hv" where
  "op_get_hvconfig c =
     (let c = upd_reply (\<lambda>m. put_u64 2 (cfg_memsize c) (put_u64 0 (cfg_membase c) m)) c in
      hbind (del_reconf_enter c) (\<lambda>c.
        Inr (HVctl_st_ok, del_reconf_exit (upd_reply (\<lambda>m.
          put_u64 6 (if cfg_del_reconf_gid c \<noteq> INVALID_GID then cfg_parse_hvmd c else 0)
            (put_u32 8 (ucast (cfg_del_reconf_gid c)) (put_u64 4 (cfg_active_hvmd c) m))) c))))"

subsection \<open>Receiving a packet\<close>

text \<open>The commands of a connected channel; \<open>HVctl_op_guest_suspend\<close>, \<open>HVctl_op_guest_resume\<close> and what is
  not a command are refused.\<close>

definition hvctl_dispatch :: "hv_env \<Rightarrow> hvctl_msg \<Rightarrow> config \<Rightarrow> (hvctl_status \<times> config) hv" where
  "hvctl_dispatch env rcpt c =
     (let op = m_op rcpt in
      if op = HVctl_op_get_hvconfig then op_get_hvconfig c
      else if op = HVctl_op_reconfigure then op_reconfig (he_junk env) rcpt False c
      else if op = HVctl_op_guest_delayed_reconf then op_reconfig (he_junk env) rcpt True c
      else if op = HVctl_op_guest_start then op_guest_start env rcpt c
      else if op = HVctl_op_guest_stop then op_guest_stop rcpt c
      else if op = HVctl_op_guest_panic then op_guest_panic rcpt c
      else if op = HVctl_op_get_res_stat then Inr (op_get_res_stat env rcpt c)
      else if op = HVctl_op_cancel_reconf then op_cancel_reconfig c
      else Inr (HVctl_st_eauth, c))"

definition hv_control_pkt :: "hv_env \<Rightarrow> hvctl_msg \<Rightarrow> config \<Rightarrow> config hv" where
  "hv_control_pkt env rcpt c =
     (let op = m_op rcpt; seqn = m_seqn rcpt; c = upd_reply (\<lambda>m. m\<lparr> m_op := op \<rparr>) c;
          unconnected = cfg_hvctl_state_update (\<lambda>_. HVCTL_STATE_UNCONNECTED);
          next_seq = cfg_hvctl_zeus_seq_update (\<lambda>n. n + 1) in
      if cfg_hvctl_state c = HVCTL_STATE_UNCONNECTED then
        if op \<noteq> HVctl_op_hello then Inr (reply_cmd HVctl_st_eauth c)
        else Inr (op_start_hello rcpt c)
      else if cfg_hvctl_state c = HVCTL_STATE_CHALLENGED then
        if op = HVctl_op_hello then Inr (op_start_hello rcpt c)
        else if cfg_hvctl_zeus_seq c \<noteq> seqn then Inr (bad_sequence_number (unconnected c))
        else if op \<noteq> HVctl_op_response then Inr (reply_cmd HVctl_st_eauth (unconnected (next_seq c)))
        else Inr (op_start_hello2 rcpt (next_seq c))
      else if cfg_hvctl_state c = HVCTL_STATE_CONNECTED then
        if op = HVctl_op_hello then Inr (op_start_hello rcpt c)
        else if cfg_hvctl_zeus_seq c \<noteq> seqn then Inr (bad_sequence_number (unconnected c))
        else hbind (hvctl_dispatch env rcpt (next_seq c)) (\<lambda>(status, c). Inr (reply_cmd status c))
      else Inr (unconnected c))"

subsection \<open>Notifications\<close>

text \<open>\<open>c_hvldc_send\<close> hands the message to the assembler layer.\<close>

definition c_hvldc_send :: "u64 \<Rightarrow> hvctl_msg \<Rightarrow> config \<Rightarrow> config" where
  "c_hvldc_send hv_endpt msg c = c\<lparr> cfg_ldc_log := cfg_ldc_log c @ [(hv_endpt, msg)] \<rparr>"

definition guest_msg :: "nat \<Rightarrow> u32 \<Rightarrow> config \<Rightarrow> hvctl_msg" where
  "guest_msg gi infoid c = put_u32 3 0 (put_u32 2 infoid (put_u32 1 (ucast (g_guestid (cfg_guests c gi)))
     (put_u32 0 HVctl_res_guest (hvctl_msg_zero\<lparr> m_op := HVctl_op_new_res_stat \<rparr>))))"

definition async_start :: "nat \<Rightarrow> u32 \<Rightarrow> config \<Rightarrow> config" where
  "async_start gi infoid = upd_guest gi (\<lambda>g. g\<lparr> g_async_busy := (g_async_busy g)(unat infoid := 1) \<rparr>)"

definition guest_soft_state_notify :: "nat \<Rightarrow> config \<Rightarrow> config" where
  "guest_soft_state_notify gi c =
     (let g = cfg_guests c gi in
      if g_async_busy g (unat HVctl_info_guest_soft_state) = 0
      then c_hvldc_send (cfg_hvctl_ldc c) (put_bytes 1 (g_soft_state_str g) SOFT_STATE_SIZE
             (put_byte 0 (g_soft_state g) (guest_msg gi HVctl_info_guest_soft_state c)))
             (async_start gi HVctl_info_guest_soft_state c)
      else c)"

definition guest_state_notify :: "nat \<Rightarrow> config \<Rightarrow> config" where
  "guest_state_notify gi c =
     (let g = cfg_guests c gi in
      if g_async_busy g (unat HVctl_info_guest_state) \<noteq> 0 then c
      else c_hvldc_send (cfg_hvctl_ldc c) (put_u64 4 (ucast (g_state g)) (guest_msg gi HVctl_info_guest_state c))
             (async_start gi HVctl_info_guest_state c))"

subsection \<open>Power on\<close>

text \<open>
  The command and the reply are locals here; \<open>op_guest_start\<close> reads nothing but the
  number of the guest from the one and writes nothing but the error code to the other.
\<close>

definition fake_hvm_guest_start :: "hv_env \<Rightarrow> nat \<Rightarrow> config \<Rightarrow> config hv" where
  "fake_hvm_guest_start env i c =
     (let cmd = put_u32 0 (of_nat i) (hvctl_msg_zero\<lparr> m_op := HVctl_op_guest_start \<rparr>); obuf = cfg_hvctl_obuf c in
      hbind (op_guest_start env cmd (c\<lparr> cfg_hvctl_obuf := cmd \<rparr>)) (\<lambda>(status, c). Inr (c\<lparr> cfg_hvctl_obuf := obuf \<rparr>)))"

definition kickoff_guests :: "hv_env \<Rightarrow> config \<Rightarrow> config hv" where
  "kickoff_guests env = hfold (\<lambda>i c.
     if g_state (cfg_guests c i) \<noteq> GUEST_STATE_UNCONFIGURED then fake_hvm_guest_start env i c else Inr c) [0..<NGUESTS]"

end
