(* ===== verification/Channel.thy ===== *)
theory Channel
  imports Hvcontrol
begin

text \<open>
  The control channel as a protocol.  An abstract automaton says when the channel is
  open; \<open>hv_control_pkt\<close> refines it whatever the packets contain, including packets
  that reconfigure the machine.  From the automaton it follows that commands are only
  carried out after a handshake, in sequence.
\<close>

subsection \<open>What commands leave of the channel\<close>

definition chan_part :: "config \<Rightarrow> u8 \<times> u16 \<times> u16 \<times> u64" where
  "chan_part c = (cfg_hvctl_state c, cfg_hvctl_zeus_seq c, cfg_hvctl_hv_seq c, cfg_hvctl_rand_num c)"

text \<open>The replies after which the channel stays open.\<close>

definition keeps_open :: "hvctl_status \<Rightarrow> bool" where
  "keeps_open st \<longleftrightarrow> st \<noteq> HVctl_st_bad_seqn \<and> st \<noteq> HVctl_st_eauth"

lemma chan_upd [simp]:
  "chan_part (upd_guest i hg c) = chan_part c" "chan_part (upd_mblock i hm c) = chan_part c"
  "chan_part (upd_vcpu i hv c) = chan_part c" "chan_part (upd_strand i hs c) = chan_part c"
  "chan_part (upd_hv_ldc i hl c) = chan_part c" "chan_part (upd_mau i ha c) = chan_part c"
  "chan_part (upd_reply hr c) = chan_part c" "chan_part (del_reconf_exit c) = chan_part c"
  "chan_part (c\<lparr> cfg_del_reconf_gid := x \<rparr>) = chan_part c" "chan_part (c\<lparr> cfg_del_reconf_lock := b \<rparr>) = chan_part c"
  "chan_part (c\<lparr> cfg_parse_hvmd := x \<rparr>) = chan_part c" "chan_part (c\<lparr> cfg_hdnametable := t \<rparr>) = chan_part c"
  "chan_part (c\<lparr> cfg_mondo_log := l \<rparr>) = chan_part c"
  by (simp_all add: chan_part_def upd_defs upd_reply_def del_reconf_exit_def)

lemma chan_pips [simp]:
  "chan_part (set_mblock_flags i fl c) = chan_part c" "chan_part (set_vcpu_flags i fl c) = chan_part c"
  "chan_part (ldc_pip i j p c) = chan_part c" "chan_part (set_ldc_flags i j fl c) = chan_part c"
  "chan_part (hv_ldc_pip i p c) = chan_part c" "chan_part (set_hv_ldc_flags i fl c) = chan_part c"
  "chan_part (upd_console_pip i q c) = chan_part c" "chan_part (set_console_flags i fl c) = chan_part c"
  "chan_part (upd_mau_pip i r c) = chan_part c" "chan_part (set_mau_flags i fl c) = chan_part c"
  "chan_part (set_guest_flags i fl c) = chan_part c" "chan_part (set_guest_state i x c) = chan_part c"
  by (simp_all add: set_mblock_flags_def set_vcpu_flags_def set_ldc_flags_def ldc_pip_def upd_ldc_ep_def
      set_hv_ldc_flags_def hv_ldc_pip_def set_console_flags_def upd_console_pip_def set_mau_flags_def upd_mau_pip_def
      set_guest_flags_def set_guest_state_def)

lemma keeps_open_simps [simp]:
  "keeps_open HVctl_st_ok" "keeps_open HVctl_st_enotsupp" "keeps_open HVctl_st_badmd" "keeps_open HVctl_st_mdnotsupp"
  "keeps_open HVctl_st_rc_failed" "keeps_open HVctl_st_einval" "keeps_open HVctl_st_eillegal" "keeps_open HVctl_st_stop_failed"
  "\<not> keeps_open HVctl_st_eauth" "\<not> keeps_open HVctl_st_bad_seqn"
  by (simp_all add: keeps_open_def)

text \<open>Parsing, to the end or until it fails.\<close>

abbreviation tame_exit :: "u8 \<times> u16 \<times> u16 \<times> u64 \<Rightarrow> parse_result \<Rightarrow> bool" where
  "tame_exit p \<equiv> \<lambda>(st, c, f). chan_part c = p \<and> keeps_open st"

abbreviation tame_state :: "u8 \<times> u16 \<times> u16 \<times> u64 \<Rightarrow> parse_state \<Rightarrow> bool" where
  "tame_state p \<equiv> \<lambda>(c, f). chan_part c = p"

abbreviation tame :: "u8 \<times> u16 \<times> u16 \<times> u64 \<Rightarrow> parse_result + parse_state \<Rightarrow> bool" where
  "tame p \<equiv> case_sum (tame_exit p) (tame_state p)"

lemma tame_then:
  "hpost (case_sum (tame_exit p) P) m \<Longrightarrow> (\<And>s. P s \<Longrightarrow> hpost (tame p) (k s)) \<Longrightarrow> hpost (tame p) (parse_then m k)"
  by (rule hpost_parse_then, erule hpost_mono) (auto split: sum.splits)

lemma tame_failnode: "hpost (tame p) (parse_1 md n s) \<Longrightarrow> hpost (tame p) (with_failnode parse_1 md n s)"
  unfolding with_failnode_def
  by (rule hpost_hbind, drule (1) hpostD) (auto intro!: hpost_Inr split: sum.splits prod.splits)

lemma tame_end: "hpost (tame p) m \<Longrightarrow> hpost (tame_exit p) (hbind m parse_end)"
  by (rule hpost_hbind, drule (1) hpostD) (auto simp: parse_end_def hpost_def split: sum.splits prod.splits)

lemma tame_nodes:
  assumes "chan_part c = p" "\<And>md n c f. chan_part c = p \<Longrightarrow> hpost (tame p) (parse_1 md n (c, f))"
  shows "hpost (tame_exit p) (res_parse_nodes topnode node parse_1 (c, f))"
  unfolding res_parse_nodes_def with_parse_hvmd_def prod.case
  by (intro hpost_case_option hpost_Inl hpost_hbind hpost_Inr tame_end hpost_md_foreach)
    (use assms in \<open>auto split: prod.splits\<close>)

lemma res_memory_parse_tame: "chan_part c = p \<Longrightarrow> hpost (tame_exit p) (res_memory_parse (c, f))"
  unfolding res_memory_parse_def
  by (rule tame_nodes, assumption, unfold res_memory_parse_1_def, intro keep_rules) simp_all

lemma res_vcpu_parse_tame: "chan_part c = p \<Longrightarrow> hpost (tame_exit p) (res_vcpu_parse (c, f))"
  unfolding res_vcpu_parse_def
  by (rule tame_nodes, assumption, rule tame_failnode, unfold res_vcpu_parse_1_def, intro keep_rules) simp_all

lemma ldc_elect_tame: "chan_part c = p \<Longrightarrow> hpost (tame p) (ldc_elect gi j ty ch tx rx tg (c, f))"
  unfolding ldc_elect_def by (intro keep_rules) simp_all

lemma ldc_parse_svc_tame: "chan_part c = p \<Longrightarrow> hpost (tame p) (ldc_parse_svc md n gi j ty ch tg (c, f))"
  unfolding ldc_parse_svc_def ldc_miss_prop_def ldc_ill_prop_def Let_def prod.case
  by (intro keep_rules ldc_elect_tame) simp_all

lemma res_ldc_parse_2_tame: "chan_part c = p \<Longrightarrow> hpost (tame p) (res_ldc_parse_2 g md n (c, f))"
  unfolding res_ldc_parse_2_def ldc_miss_prop_def ldc_ill_prop_def Let_def prod.case
  by (intro keep_rules ldc_parse_svc_tame) simp_all

lemma res_ldc_parse_tame: "chan_part c = p \<Longrightarrow> hpost (tame_exit p) (res_ldc_parse (c, f))"
  unfolding res_ldc_parse_def
  by (rule tame_nodes, assumption, unfold res_ldc_parse_1_def prod.case, intro keep_rules hpost_md_foreach tame_failnode)
    (auto intro: res_ldc_parse_2_tame)

lemma res_console_parse_tame: "chan_part c = p \<Longrightarrow> hpost (tame_exit p) (res_console_parse (c, f))"
  unfolding res_console_parse_def
  by (rule tame_nodes, assumption, rule tame_failnode, unfold res_console_parse_1_def console_parse_type_def,
      intro tame_then [where P = "tame_state p"] keep_rules) auto

lemma mau_parse_cpu_tame:
  "chan_part c = p \<Longrightarrow> hpost (case_sum (tame_exit p) (\<lambda>(s, m). tame_state p s)) (mau_parse_cpu md n ((c, f), m))"
  unfolding mau_parse_cpu_def Let_def by (intro keep_rules) (auto simp: hassert_eq_Inr split: option.splits)

lemma res_mau_parse_tame: "chan_part c = p \<Longrightarrow> hpost (tame_exit p) (res_mau_parse (c, f))"
  unfolding res_mau_parse_def
  by (rule tame_nodes, assumption, rule tame_failnode, unfold res_mau_parse_1_def mau_elect_def prod.case,
      intro tame_then [where P = "\<lambda>(s, m). tame_state p s"] hpost_md_foreach)
    (auto intro!: mau_parse_cpu_tame keep_rules)

lemma res_hv_ldc_parse_1_tame: "chan_part c = p \<Longrightarrow> hpost (tame p) (res_hv_ldc_parse_1 md n (c, f))"
  unfolding res_hv_ldc_parse_1_def
  by (intro keep_rules tame_then [where P = "tame_state p"]) auto

lemma res_hv_ldc_parse_tame: "chan_part c = p \<Longrightarrow> hpost (tame_exit p) (res_hv_ldc_parse (c, f))"
  unfolding res_hv_ldc_parse_def with_parse_hvmd_def prod.case
  by (intro hpost_case_option hpost_Inl hpost_hbind [where m = "md_find_node _ _ _"]
      hpost_hbind [where m = "md_find_node_by_arc _ _ _ _"] hpost_case_prod hpost_Inr tame_end hpost_md_foreach)
    (auto intro!: tame_failnode res_hv_ldc_parse_1_tame split: prod.splits)

text \<open>Guests.\<close>

lemma guest_property_tame:
  "chan_part c = p \<Longrightarrow> hpost (tame p) (get_property md n gi name store (c, f))"
  "chan_part c = p \<Longrightarrow> hpost (tame p) (opt_property md n gi name d store (c, f))"
  unfolding get_property_def opt_property_def guest_missing_prop_def prod.case by (intro keep_rules; simp)+

lemma guest_devices_tame: "chan_part c = p \<Longrightarrow> hpost (tame p) (guest_devices md n gi node store (c, f))"
  unfolding guest_devices_def prod.case by (intro keep_rules guest_property_tame) simp_all

lemma guest_mblock_tame:
  "chan_part c = p \<Longrightarrow> hpost (case_sum (tame_exit p) (\<lambda>(s, b). tame_state p s)) (res_guest_parse_mblock md gi n ((c, f), b))"
  unfolding res_guest_parse_mblock_def guest_missing_prop_def prod.case
  by (intro keep_rules) (auto simp: md_prop_or_eq_Inr split: if_splits)

lemma guest_mem_tame: "chan_part c = p \<Longrightarrow> hpost (tame p) (res_guest_parse_mem md n gi (c, f))"
  unfolding res_guest_parse_mem_def guest_missing_prop_def prod.case Let_def
  by (intro tame_then [where P = "\<lambda>(s, b). tame_state p s"] hpost_md_foreach)
    (auto intro!: guest_mblock_tame keep_rules)

lemma guest_props_tame:
  assumes "tame_state p s"
  shows "hpost (tame p) (res_guest_parse_props md n gi s)"
  unfolding res_guest_parse_props_def
  using assms
  by (cases s, intro tame_then [where P = "tame_state p"])
    (auto intro!: guest_property_tame guest_devices_tame guest_mem_tame keep_rules split: prod.splits)

lemma res_guest_parse_tame: "chan_part c = p \<Longrightarrow> hpost (tame_exit p) (res_guest_parse (c, f))"
  unfolding res_guest_parse_def
  by (rule tame_nodes, assumption, rule tame_failnode, unfold res_guest_parse_1_def prod.case,
      intro keep_rules tame_then [where P = "tame_state p"] guest_property_tame guest_props_tame) auto

text \<open>Reconfiguring as a whole.\<close>

abbreviation tame_op :: "u8 \<times> u16 \<times> u16 \<times> u64 \<Rightarrow> hvctl_status \<times> config \<Rightarrow> bool" where
  "tame_op p \<equiv> \<lambda>(st, c). chan_part c = p \<and> keeps_open st"

abbreviation tame_step :: "u8 \<times> u16 \<times> u16 \<times> u64 \<Rightarrow> (hvctl_status \<times> config) + config \<Rightarrow> bool" where
  "tame_step p \<equiv> case_sum (tame_op p) (\<lambda>c. chan_part c = p)"

lemma chan_live: "kept_view c' = kept_view c \<Longrightarrow> chan_part c' = chan_part c"
  by (drule arg_cong [where f = chan_part]) (simp add: chan_part_def kept_view_def)

lemma chan_control: "control_part c' = control_part c \<Longrightarrow> chan_part c' = chan_part c"
  by (drule arg_cong [where f = chan_part]) (simp add: chan_part_def control_part_def)

lemma chan_settles: "settles c c' \<Longrightarrow> chan_part c' = chan_part c"
  by (auto simp: settles_def dest: chan_control)

lemma commit_reconfig_chan: "hpost (\<lambda>c'. chan_part c' = chan_part c) (commit_reconfig c)"
proof (rule hpostI)
  fix c'
  assume "commit_reconfig c = Inr c'"
  then obtain d where "settles c d" "c' = accept_hvmd d"
    unfolding commit_reconfig_def
    by (auto simp: hbind_eq_Inr dest!: hpostD [OF phase_settles, rotated 2] intro: settles_trans)
  then show "chan_part c' = chan_part c" by (auto dest: chan_settles simp: accept_hvmd_def chan_part_def)
qed

lemma step_then:
  assumes "hpost (tame_step p) m" "\<And>c. chan_part c = p \<Longrightarrow> hpost (tame_step p) (k c)"
  shows "hpost (tame_step p) (parse_then m k)"
  by (rule hpost_parse_then, rule hpost_mono [OF assms(1)]) (use assms(2) in \<open>auto split: sum.splits\<close>)

lemma prep_chan: "chan_part c = p \<Longrightarrow> hpost (\<lambda>c'. chan_part c' = p) (hfold ri_prep resource_info c)"
proof (rule hpost_hfold, assumption)
  fix x d
  assume x: "x \<in> set resource_info" and d: "chan_part d = p"
  have "hpost (\<lambda>c'. chan_part c' = p) (res_guest_prep d)"
    unfolding res_guest_prep_def by (rule hpost_hfold) (use d in \<open>auto simp: hpost_def\<close>)
  moreover have "prep_keeps d d' \<Longrightarrow> chan_part d' = p" for d'
    unfolding prep_keeps_def using chan_live [of d' d] d by simp
  ultimately show "hpost (\<lambda>c'. chan_part c' = p) (ri_prep x d)"
    using x prep_keeps_all [of d] by (auto simp: resource_info_def hpost_def)
qed

lemma fail_reply_tame: "chan_part (reconfig_cancel dl (rcfail_reply junk mdp ty f c)) = chan_part c"
  by (simp add: reconfig_cancel_def rcfail_reply_def split: prod.splits)

lemma reconfig_parse_tame:
  assumes "\<And>r c f. r \<in> set rs \<Longrightarrow> chan_part c = p \<Longrightarrow> hpost (tame_exit p) (ri_parse r (c, f))" "chan_part c = p"
  shows "hpost (tame_step p) (reconfig_parse junk dl mdp rs c)"
  using assms
proof (induction rs arbitrary: c)
  case (Cons r rs)
  have r: "hpost (tame_exit p) (ri_parse r (c, fail_info_uninit))" using Cons.prems by simp
  show ?case unfolding reconfig_parse.simps
    by (rule hpost_hbind, drule hpostD [OF r], intro hpost_case_prod hpost_if hpost_Inr)
      (use Cons in \<open>simp_all add: fail_reply_tame\<close>)
qed (simp add: hpost_def)

lemma reconfig_postparse_tame:
  assumes "\<And>r c f. r \<in> set rs \<Longrightarrow> chan_part c = p \<Longrightarrow> hpost (tame_exit p) (ri_postparse r (c, f))" "chan_part c = p"
  shows "hpost (tame_step p) (reconfig_postparse junk dl mdp rs c)"
  using assms
proof (induction rs arbitrary: c)
  case (Cons r rs)
  have r: "hpost (tame_exit p) (ri_postparse r (c, fail_info_uninit))" using Cons.prems by simp
  show ?case unfolding reconfig_postparse.simps
    by (rule hpost_hbind, drule hpostD [OF r], intro hpost_case_prod hpost_if hpost_Inr)
      (use Cons in \<open>simp_all add: fail_reply_tame\<close>)
qed (simp add: hpost_def)

lemma parse_tame:
  "x \<in> set resource_info \<Longrightarrow> chan_part c = p \<Longrightarrow> hpost (tame_exit p) (ri_parse x (c, f))"
  by (auto simp: resource_info_def intro: res_guest_parse_tame res_memory_parse_tame res_vcpu_parse_tame
      res_hv_ldc_parse_tame res_ldc_parse_tame res_console_parse_tame res_mau_parse_tame)
    (simp add: res_cwq_parse_def hpost_def)

lemma guest_postparse_tame:
  assumes "chan_part c = p"
  shows "hpost (tame_exit p) (res_guest_postparse (c, f))"
  unfolding res_guest_postparse_def
  by (intro tame_end hpost_hfold)
    (use assms in \<open>auto simp: res_guest_postparse_1_def Let_def res_switch_def hpost_def parse_fail_def split: sum.splits\<close>)

lemma postparse_tame:
  "x \<in> set resource_info \<Longrightarrow> chan_part c = p \<Longrightarrow> hpost (tame_exit p) (ri_postparse x (c, f))"
  by (auto simp: resource_info_def intro: guest_postparse_tame)
    (simp_all add: hpost_def res_memory_postparse_def res_vcpu_postparse_def res_hv_ldc_postparse_def
      res_ldc_postparse_def res_console_postparse_def res_mau_postparse_def res_cwq_postparse_def)

lemma op_reconfig_tame:
  assumes "chan_part c = p"
  shows "hpost (tame_op p) (op_reconfig junk cmd dl c)"
proof -
  let ?mdp = "msg_u64 cmd 0" and ?gid = "ucast (m_body cmd 2) :: u64"
  have "hpost (tame_step p) (parse_then (reconfig_enter ?gid dl c) (\<lambda>c.
    parse_then (hbind (preparse_hvmd ?mdp c) (\<lambda>(status, c).
      Inr (if status \<noteq> HVctl_st_ok then Inl (status, reconfig_cancel dl c) else Inr c))) (\<lambda>c.
    parse_then (reconfig_check_root c) (\<lambda>c.
    hbind (hfold ri_prep resource_info c) (\<lambda>c.
    parse_then (reconfig_parse junk dl ?mdp resource_info c) (reconfig_postparse junk dl ?mdp resource_info))))))"
  proof (intro step_then)
    show "hpost (tame_step p) (reconfig_enter ?gid dl c)"
      unfolding reconfig_enter_def Let_def del_reconf_enter_def
      by (intro keep_rules) (use assms in \<open>auto simp: init_reconfig_error_reply_def split: if_splits\<close>)
    fix d
    assume d: "chan_part d = p"
    show "hpost (tame_step p) (hbind (preparse_hvmd ?mdp d) (\<lambda>(status, c).
        Inr (if status \<noteq> HVctl_st_ok then Inl (status, reconfig_cancel dl c) else Inr c)))"
      unfolding preparse_hvmd_def with_parse_hvmd_def Let_def
      by (intro keep_rules) (use d in \<open>auto simp: reconfig_cancel_def hbind_eq_Inr split: option.splits if_splits\<close>)
    show "hpost (tame_step p) (reconfig_check_root d)"
      unfolding reconfig_check_root_def with_parse_hvmd_def by (intro keep_rules) (use d in auto)
    show "hpost (tame_step p) (hbind (hfold ri_prep resource_info d) (\<lambda>c.
        parse_then (reconfig_parse junk dl ?mdp resource_info c) (reconfig_postparse junk dl ?mdp resource_info)))"
      by (rule hpost_hbind, drule hpostD [OF prep_chan [OF d]], intro step_then reconfig_parse_tame reconfig_postparse_tame)
        (simp_all add: parse_tame postparse_tame)
  qed
  then show ?thesis
    unfolding op_reconfig_def Let_def
    by (intro hpost_hbind hpost_case_sum hpost_if hpost_Inr)
      (auto dest!: hpostD dest: hpostD [OF commit_reconfig_chan] split: sum.splits)
qed

text \<open>The other commands.\<close>

lemma guestop_done_tame: "chan_part c = p \<Longrightarrow> keeps_open st \<Longrightarrow> hpost (tame_op p) (guestop_done e st c)"
  by (simp add: guestop_done_def hpost_def)

lemma mondo_chan: "hpost (\<lambda>c'. chan_part c' = chan_part c) (c_hvmondo_send dest msg c)"
  unfolding c_hvmondo_send_def by (intro keep_rules) simp

lemma ignition_chan: "hpost (\<lambda>(ok, c'). chan_part c' = chan_part c) (guest_ignition s gi c)"
  unfolding guest_ignition_def schedule_vcpu_def Let_def
  by (intro keep_rules) (auto simp: hguard_eq_Inr dest: hpostD [OF mondo_chan] split: if_splits)

lemma op_guest_start_tame: "chan_part c = p \<Longrightarrow> hpost (tame_op p) (op_guest_start env cmd c)"
  unfolding op_guest_start_def Let_def
  by (intro keep_rules guestop_done_tame) (auto dest!: hpostD [OF ignition_chan])

lemma op_guest_stop_tame: "chan_part c = p \<Longrightarrow> hpost (tame_op p) (op_guest_stop cmd c)"
  unfolding op_guest_stop_def Let_def
  by (intro keep_rules guestop_done_tame) (auto dest!: hpostD [OF mondo_chan])

lemma op_guest_panic_tame: "chan_part c = p \<Longrightarrow> hpost (tame_op p) (op_guest_panic cmd c)"
  unfolding op_guest_panic_def Let_def
  by (intro keep_rules guestop_done_tame) (auto dest!: hpostD [OF mondo_chan])

lemma guest_util_chan: "chan_part (snd (fold (guest_util_vcpu gi now) is (y, c))) = chan_part c"
  by (induction "is" arbitrary: y c) (simp_all add: guest_util_vcpu_def Let_def)

lemma guest_utilisation_chan [simp]: "chan_part (get_guest_utilisation env gi c) = chan_part c"
  using guest_util_chan [of gi "he_stick env" "[0..<NVCPUS]" 0 c]
  by (simp add: get_guest_utilisation_def Let_def case_prod_beta)

lemma async_idle_chan [simp]: "chan_part (async_idle gi i c) = chan_part c"
  by (simp add: async_idle_def)

lemma guest_status_tame: "tame_op (chan_part c) (get_guest_status env cmd c)"
  by (simp add: get_guest_status_def Let_def)

lemma vcpu_status_tame: "tame_op (chan_part c) (get_vcpu_status env cmd c)"
  by (simp add: get_vcpu_status_def Let_def)

lemma op_get_res_stat_tame: "tame_op (chan_part c) (op_get_res_stat env cmd c)"
  unfolding op_get_res_stat_def Let_def using guest_status_tame [of c env cmd] vcpu_status_tame [of c env cmd] by simp

lemma op_get_hvconfig_tame: "hpost (tame_op (chan_part c)) (op_get_hvconfig c)"
  unfolding op_get_hvconfig_def del_reconf_enter_def Let_def by (intro keep_rules) (auto split: if_splits)

lemma op_cancel_reconfig_tame: "hpost (tame_op (chan_part c)) (op_cancel_reconfig c)"
  unfolding op_cancel_reconfig_def del_reconf_enter_def Let_def by (intro keep_rules) (auto split: if_splits)

definition hvctl_commands :: "u16 set" where
  "hvctl_commands = {HVctl_op_get_hvconfig, HVctl_op_reconfigure, HVctl_op_guest_delayed_reconf, HVctl_op_guest_start,
     HVctl_op_guest_stop, HVctl_op_guest_panic, HVctl_op_get_res_stat, HVctl_op_cancel_reconf}"

lemma hvctl_dispatch_chan:
  "hpost (\<lambda>(st, c'). chan_part c' = chan_part c \<and> (keeps_open st \<longleftrightarrow> m_op m \<in> hvctl_commands)) (hvctl_dispatch env m c)"
proof (cases "m_op m \<in> hvctl_commands")
  case True
  have "hpost (tame_op (chan_part c)) (hvctl_dispatch env m c)"
    unfolding hvctl_dispatch_def Let_def
    by (intro hpost_if op_reconfig_tame op_guest_start_tame op_guest_stop_tame op_guest_panic_tame hpost_Inr op_get_res_stat_tame
        op_get_hvconfig_tame op_cancel_reconfig_tame refl) (use True in \<open>auto simp: hvctl_commands_def\<close>)
  then show ?thesis by (rule hpost_mono) (auto simp: True)
next
  case False
  then show ?thesis by (auto simp: hvctl_dispatch_def hvctl_commands_def Let_def hpost_def)
qed

subsection \<open>The protocol\<close>

text \<open>
  The states of the channel, with the sequence number expected next.  A hello of the
  right version is answered with a challenge in any state; only the right answer to the
  challenge, with the next number, opens the channel, and only commands in sequence keep
  it open.
\<close>

datatype chan = Unconnected | Challenged u16 | Connected u16

abbreviation good_hello :: "hvctl_msg \<Rightarrow> bool" where
  "good_hello m \<equiv> m_op m = HVctl_op_hello \<and> hello_major m = HVCTL_VERSION_MAJOR_NUMBER"

abbreviation good_response :: "u16 \<Rightarrow> hvctl_msg \<Rightarrow> bool" where
  "good_response n m \<equiv> m_op m = HVctl_op_response \<and> m_seqn m = n \<and> msg_u64 m 0 XOR HVCTL_ZEUS_CHALLENGE_K = hvctl_rand_line"

abbreviation good_command :: "u16 \<Rightarrow> hvctl_msg \<Rightarrow> bool" where
  "good_command n m \<equiv> m_op m \<in> hvctl_commands \<and> m_seqn m = n"

inductive chan_step :: "chan \<Rightarrow> hvctl_msg \<Rightarrow> chan \<Rightarrow> bool" where
  hello: "good_hello m \<Longrightarrow> chan_step s m (Challenged (m_seqn m + 1))"
| bad_hello: "m_op m = HVctl_op_hello \<Longrightarrow> hello_major m \<noteq> HVCTL_VERSION_MAJOR_NUMBER \<Longrightarrow> chan_step s m Unconnected"
| refused: "m_op m \<noteq> HVctl_op_hello \<Longrightarrow> chan_step Unconnected m Unconnected"
| response: "good_response n m \<Longrightarrow> chan_step (Challenged n) m (Connected (n + 1))"
| bad_response: "m_op m \<noteq> HVctl_op_hello \<Longrightarrow> \<not> good_response n m \<Longrightarrow> chan_step (Challenged n) m Unconnected"
| command: "good_command n m \<Longrightarrow> chan_step (Connected n) m (Connected (n + 1))"
| bad_command: "m_op m \<noteq> HVctl_op_hello \<Longrightarrow> \<not> good_command n m \<Longrightarrow> chan_step (Connected n) m Unconnected"

inductive_cases chan_step_ConnectedE: "chan_step s m (Connected n)"
inductive_cases chan_step_ChallengedE: "chan_step s m (Challenged n)"

inductive chan_run :: "chan \<Rightarrow> hvctl_msg list \<Rightarrow> chan \<Rightarrow> bool" where
  start: "chan_run s [] s"
| more: "chan_run s ms t \<Longrightarrow> chan_step t m u \<Longrightarrow> chan_run s (ms @ [m]) u"

inductive_cases chan_run_ConnectedE: "chan_run s ms (Connected n)"
inductive_cases chan_run_ChallengedE: "chan_run s ms (Challenged n)"

lemma chan_step_total: "\<exists>t. chan_step s m t"
  by (cases s; cases "m_op m = HVctl_op_hello"; blast intro: chan_step.intros)

lemma response_not_hello: "HVctl_op_response \<noteq> HVctl_op_hello"
  by (simp add: hvctl_ops)

lemma command_not_hello: "op \<in> hvctl_commands \<Longrightarrow> op \<noteq> HVctl_op_hello"
  by (auto simp: hvctl_commands_def hvctl_ops)

lemma chan_step_deterministic: "chan_step s m t \<Longrightarrow> chan_step s m u \<Longrightarrow> t = u"
  by (auto elim!: chan_step.cases simp: response_not_hello response_not_hello [symmetric] dest: command_not_hello)

text \<open>How the channel can have been opened.\<close>

definition handshake_then :: "hvctl_msg list \<Rightarrow> u16 \<Rightarrow> bool" where
  "handshake_then ms n \<longleftrightarrow> (\<exists>pre h r cmds. ms = pre @ h # r # cmds \<and> good_hello h \<and> good_response (m_seqn h + 1) r \<and>
     (\<forall>i<length cmds. good_command (m_seqn h + 2 + of_nat i) (cmds ! i)) \<and> n = m_seqn h + 2 + of_nat (length cmds))"

lemma chan_run_handshake:
  assumes "chan_run s ms t" "s = Unconnected"
  shows "(\<forall>n. t = Challenged n \<longrightarrow> (\<exists>pre h. ms = pre @ [h] \<and> good_hello h \<and> n = m_seqn h + 1)) \<and>
    (\<forall>n. t = Connected n \<longrightarrow> handshake_then ms n)"
  using assms
proof (induction rule: chan_run.induct)
  case (more s ms t m u)
  note IH = more.IH [OF more.prems]
  from more.hyps(2) show ?case
  proof cases
    case (response n)
    with IH obtain pre h where "ms = pre @ [h]" "good_hello h" "n = m_seqn h + 1" by blast
    then have "handshake_then (ms @ [m]) (n + 1)"
      unfolding handshake_then_def using response by (intro exI [of _ pre] exI [of _ h] exI [of _ m] exI [of _ "[]"]) simp
    with response show ?thesis by simp
  next
    case (command n)
    with IH obtain pre h r cmds where "ms = pre @ h # r # cmds" "good_hello h" "good_response (m_seqn h + 1) r"
      "\<forall>i<length cmds. good_command (m_seqn h + 2 + of_nat i) (cmds ! i)" "n = m_seqn h + 2 + of_nat (length cmds)"
      unfolding handshake_then_def by blast
    then have "handshake_then (ms @ [m]) (n + 1)"
      unfolding handshake_then_def using command
      by (intro exI [of _ pre] exI [of _ h] exI [of _ r] exI [of _ "cmds @ [m]"])
        (auto simp: nth_append less_Suc_eq)
    with command show ?thesis by simp
  qed auto
qed simp

subsection \<open>The code refines the protocol\<close>

text \<open>
  An implementation, as a function on states that may fail, simulates a protocol
  when each of its steps is one of the protocol under an abstraction of its states.
\<close>

locale simulation =
  fixes impl :: "'e \<Rightarrow> 's \<Rightarrow> 's hv" and msg :: "'e \<Rightarrow> hvctl_msg" and inv :: "'s \<Rightarrow> bool" and abs :: "'s \<Rightarrow> chan"
  assumes sim: "inv s \<Longrightarrow> impl e s = Inr s' \<Longrightarrow> inv s' \<and> chan_step (abs s) (msg e) (abs s')"
begin

lemma sim_run: "hfold impl es s = Inr s' \<Longrightarrow> inv s \<Longrightarrow> inv s' \<and> chan_run (abs s) (map msg es) (abs s')"
proof (induction es arbitrary: s' rule: rev_induct)
  case Nil
  then show ?case by (simp add: chan_run.start)
next
  case (snoc e es)
  then obtain t where t: "hfold impl es s = Inr t" "impl e t = Inr s'" by (auto simp: hfold_append hbind_eq_Inr)
  with snoc.IH [OF t(1)] snoc.prems(2) sim [OF _ t(2)] show ?case by (auto intro: chan_run.more)
qed

lemma open_after_handshake:
  "hfold impl es s = Inr s' \<Longrightarrow> inv s \<Longrightarrow> abs s = Unconnected \<Longrightarrow> abs s' = Connected n \<Longrightarrow> handshake_then (map msg es) n"
  using sim_run chan_run_handshake by metis

end

definition chan_of :: "config \<Rightarrow> chan" where
  "chan_of c = (if cfg_hvctl_state c = HVCTL_STATE_CHALLENGED then Challenged (cfg_hvctl_zeus_seq c)
     else if cfg_hvctl_state c = HVCTL_STATE_CONNECTED then Connected (cfg_hvctl_zeus_seq c) else Unconnected)"

definition chan_inv :: "config \<Rightarrow> bool" where
  "chan_inv c \<longleftrightarrow> cfg_hvctl_state c \<in> {HVCTL_STATE_UNCONNECTED, HVCTL_STATE_CHALLENGED, HVCTL_STATE_CONNECTED} \<and>
     (cfg_hvctl_state c = HVCTL_STATE_CHALLENGED \<longrightarrow> cfg_hvctl_rand_num c = hvctl_rand_line)"

lemma reply_cmd_state:
  "cfg_hvctl_state (reply_cmd st c) = (if keeps_open st then cfg_hvctl_state c else HVCTL_STATE_UNCONNECTED)"
  "cfg_hvctl_zeus_seq (reply_cmd st c) = cfg_hvctl_zeus_seq c" "cfg_hvctl_rand_num (reply_cmd st c) = cfg_hvctl_rand_num c"
  "cfg_hvctl_hv_seq (reply_cmd st c) = cfg_hvctl_hv_seq c + 1"
  by (auto simp: reply_cmd_def hvctl_send_pkt_def upd_hdr_status_def upd_reply_def keeps_open_def Let_def)

lemma op_start_hello_state:
  "cfg_hvctl_state (op_start_hello m c) = (if hello_major m = HVCTL_VERSION_MAJOR_NUMBER then HVCTL_STATE_CHALLENGED
     else HVCTL_STATE_UNCONNECTED)"
  "cfg_hvctl_zeus_seq (op_start_hello m c) = m_seqn m + 1"
  "hello_major m = HVCTL_VERSION_MAJOR_NUMBER \<Longrightarrow> cfg_hvctl_rand_num (op_start_hello m c) = hvctl_rand_line"
  by (auto simp: op_start_hello_def hvctl_send_pkt_def upd_reply_def Let_def)

lemma hello_refines:
  assumes "m_op m = HVctl_op_hello"
  shows "chan_inv (op_start_hello m c) \<and> chan_step s m (chan_of (op_start_hello m c))"
  using assms by (auto simp: chan_inv_def chan_of_def op_start_hello_state hvctl_states intro: chan_step.hello chan_step.bad_hello)

lemma dispatch_refines:
  assumes "hvctl_dispatch env m d = Inr (st, d')" "cfg_hvctl_state d = HVCTL_STATE_CONNECTED"
  shows "chan_inv (reply_cmd st d') \<and>
    chan_of (reply_cmd st d') = (if m_op m \<in> hvctl_commands then Connected (cfg_hvctl_zeus_seq d) else Unconnected)"
proof -
  from hpostD [OF hvctl_dispatch_chan assms(1)]
  have "chan_part d' = chan_part d" "keeps_open st \<longleftrightarrow> m_op m \<in> hvctl_commands" by auto
  with assms(2) show ?thesis by (auto simp: chan_inv_def chan_of_def reply_cmd_state chan_part_def hvctl_states)
qed

definition primed :: "hvctl_msg \<Rightarrow> config \<Rightarrow> config" where
  "primed m c = upd_reply (\<lambda>r. r\<lparr> m_op := m_op m \<rparr>) c"

lemma primed_simps [simp]:
  "cfg_hvctl_state (primed m c) = cfg_hvctl_state c" "cfg_hvctl_zeus_seq (primed m c) = cfg_hvctl_zeus_seq c"
  "cfg_hvctl_rand_num (primed m c) = cfg_hvctl_rand_num c"
  by (simp_all add: primed_def upd_reply_def)

lemma primed_next:
  "cfg_hvctl_zeus_seq_update (\<lambda>n. n + 1) (primed m c) = (primed m c)\<lparr> cfg_hvctl_zeus_seq := cfg_hvctl_zeus_seq c + 1 \<rparr>"
  by (cases "primed m c") (use primed_simps(2) [of m c] in simp)

lemma hv_control_pkt_unconnected:
  "cfg_hvctl_state c = HVCTL_STATE_UNCONNECTED \<Longrightarrow> hv_control_pkt env m c =
     Inr (if m_op m = HVctl_op_hello then op_start_hello m (primed m c) else reply_cmd HVctl_st_eauth (primed m c))"
  unfolding hv_control_pkt_def Let_def primed_def [symmetric] by simp

lemma hv_control_pkt_challenged:
  "cfg_hvctl_state c = HVCTL_STATE_CHALLENGED \<Longrightarrow> hv_control_pkt env m c =
     Inr (if m_op m = HVctl_op_hello then op_start_hello m (primed m c)
       else if cfg_hvctl_zeus_seq c \<noteq> m_seqn m then bad_sequence_number ((primed m c)\<lparr> cfg_hvctl_state := HVCTL_STATE_UNCONNECTED \<rparr>)
       else let d = (primed m c)\<lparr> cfg_hvctl_zeus_seq := cfg_hvctl_zeus_seq c + 1 \<rparr> in
         if m_op m \<noteq> HVctl_op_response then reply_cmd HVctl_st_eauth (d\<lparr> cfg_hvctl_state := HVCTL_STATE_UNCONNECTED \<rparr>)
         else op_start_hello2 m d)"
  unfolding hv_control_pkt_def Let_def primed_def [symmetric] by (simp add: hvctl_states primed_next)

lemma hv_control_pkt_connected:
  "cfg_hvctl_state c = HVCTL_STATE_CONNECTED \<Longrightarrow> hv_control_pkt env m c =
     (if m_op m = HVctl_op_hello then Inr (op_start_hello m (primed m c))
      else if cfg_hvctl_zeus_seq c \<noteq> m_seqn m
      then Inr (bad_sequence_number ((primed m c)\<lparr> cfg_hvctl_state := HVCTL_STATE_UNCONNECTED \<rparr>))
      else hbind (hvctl_dispatch env m ((primed m c)\<lparr> cfg_hvctl_zeus_seq := cfg_hvctl_zeus_seq c + 1 \<rparr>))
        (\<lambda>(status, c). Inr (reply_cmd status c)))"
  unfolding hv_control_pkt_def Let_def primed_def [symmetric] by (simp add: hvctl_states primed_next)

lemma refused_refines: "\<not> keeps_open st \<Longrightarrow> chan_inv (reply_cmd st c) \<and> chan_of (reply_cmd st c) = Unconnected"
  by (simp add: chan_inv_def chan_of_def reply_cmd_state hvctl_states)

lemma hello2_refines:
  "cfg_hvctl_state c = HVCTL_STATE_CHALLENGED \<Longrightarrow> cfg_hvctl_rand_num c = hvctl_rand_line \<Longrightarrow>
   chan_inv (op_start_hello2 m c) \<and> chan_of (op_start_hello2 m c) =
     (if msg_u64 m 0 XOR HVCTL_ZEUS_CHALLENGE_K = hvctl_rand_line then Connected (cfg_hvctl_zeus_seq c) else Unconnected)"
  by (simp add: op_start_hello2_def chan_inv_def chan_of_def reply_cmd_state hvctl_states)

lemma hv_control_pkt_sim:
  assumes inv: "chan_inv c" and pkt: "hv_control_pkt env m c = Inr c'"
  shows "chan_inv c' \<and> chan_step (chan_of c) m (chan_of c')"
proof (cases "m_op m = HVctl_op_hello")
  case True
  then have "c' = op_start_hello m (primed m c)"
    using pkt inv hv_control_pkt_unconnected [of c env m] hv_control_pkt_challenged [of c env m] hv_control_pkt_connected [of c env m]
    by (auto simp: chan_inv_def)
  then show ?thesis using hello_refines [OF True] by simp
next
  case False
  consider (U) "cfg_hvctl_state c = HVCTL_STATE_UNCONNECTED" | (Ch) "cfg_hvctl_state c = HVCTL_STATE_CHALLENGED"
    | (Co) "cfg_hvctl_state c = HVCTL_STATE_CONNECTED" using inv by (auto simp: chan_inv_def)
  then show ?thesis
  proof cases
    case U
    have "chan_of c = Unconnected" using U by (simp add: chan_of_def hvctl_states)
    with U False pkt refused_refines [of HVctl_st_eauth] show ?thesis
      by (auto simp: hv_control_pkt_unconnected intro: chan_step.refused)
  next
    case Ch
    let ?n = "cfg_hvctl_zeus_seq c"
    let ?d = "(primed m c)\<lparr> cfg_hvctl_zeus_seq := ?n + 1 \<rparr>"
    have s: "chan_of c = Challenged ?n" using Ch by (simp add: chan_of_def)
    have "cfg_hvctl_rand_num c = hvctl_rand_line" using inv Ch by (simp add: chan_inv_def)
    then have h2: "chan_inv (op_start_hello2 m ?d)" "chan_of (op_start_hello2 m ?d) =
        (if msg_u64 m 0 XOR HVCTL_ZEUS_CHALLENGE_K = hvctl_rand_line then Connected (?n + 1) else Unconnected)"
      using hello2_refines [of ?d m] Ch by simp_all
    show ?thesis
    proof (cases "good_response ?n m")
      case True
      then have "c' = op_start_hello2 m ?d" using pkt False Ch by (simp add: hv_control_pkt_challenged Let_def)
      with h2 True s show ?thesis by (simp add: chan_step.response)
    next
      case no: False
      then have "chan_inv c' \<and> chan_of c' = Unconnected"
        using pkt False Ch h2 refused_refines
        by (auto simp: hv_control_pkt_challenged Let_def bad_sequence_number_def split: if_splits)
      with no False s show ?thesis by (simp add: chan_step.bad_response)
    qed
  next
    case Co
    let ?n = "cfg_hvctl_zeus_seq c"
    let ?d = "(primed m c)\<lparr> cfg_hvctl_zeus_seq := ?n + 1 \<rparr>"
    have s: "chan_of c = Connected ?n" using Co by (simp add: chan_of_def hvctl_states)
    show ?thesis
    proof (cases "?n = m_seqn m")
      case True
      then obtain st d' where d: "hvctl_dispatch env m ?d = Inr (st, d')" "c' = reply_cmd st d'"
        using pkt False Co by (auto simp: hv_control_pkt_connected hbind_eq_Inr)
      have "chan_inv c' \<and> chan_of c' = (if m_op m \<in> hvctl_commands then Connected (?n + 1) else Unconnected)"
        using dispatch_refines [OF d(1)] Co d(2) by simp
      with True False s show ?thesis
        by (cases "m_op m \<in> hvctl_commands") (simp_all add: chan_step.command chan_step.bad_command)
    next
      case no: False
      then have "chan_inv c' \<and> chan_of c' = Unconnected"
        using pkt False Co refused_refines [of HVctl_st_bad_seqn] by (auto simp: hv_control_pkt_connected bad_sequence_number_def)
      with no False s show ?thesis by (auto intro: chan_step.bad_command)
    qed
  qed
qed

interpretation hvctl: simulation "\<lambda>(env, m). hv_control_pkt env m" snd chan_inv chan_of
  by unfold_locales (auto dest: hv_control_pkt_sim)

subsection \<open>Properties\<close>

text \<open>
  C19. Whatever packet arrives and whatever it makes the hypervisor do, the state of the
  control channel moves as the protocol says: the code refines the automaton.
\<close>

theorem hv_control_pkt_refines:
  assumes "hv_control_pkt env m c = Inr c'" "chan_inv c"
  shows "chan_inv c' \<and> chan_step (chan_of c) m (chan_of c')"
  using hvctl.sim [of c "(env, m)" c'] assms by simp

definition hello_msg :: hvctl_msg where
  "hello_msg = hvctl_msg_zero\<lparr> m_op := HVctl_op_hello, m_seqn := 41, m_body := (\<lambda>_. 0)(0 := 0x10000) \<rparr>"

definition response_msg :: hvctl_msg where
  "response_msg = hvctl_msg_zero\<lparr> m_op := HVctl_op_response, m_seqn := 42, m_body := (\<lambda>_. 0)(0 := 1, 1 := 0x2cafe776) \<rparr>"

definition query_msg :: hvctl_msg where
  "query_msg = hvctl_msg_zero\<lparr> m_op := HVctl_op_get_hvconfig, m_seqn := 43 \<rparr>"

definition env0 :: hv_env where
  "env0 = \<lparr> he_strand = 0, he_stick = 1000, he_junk = (0, 0, 0) \<rparr>"

lemma handshake_msgs: "good_hello hello_msg" "good_response 42 response_msg" "good_command 43 query_msg"
  by (simp_all add: hello_msg_def response_msg_def query_msg_def hello_major_def HVCTL_VERSION_MAJOR_NUMBER_def
      msg_u64_def HVCTL_ZEUS_CHALLENGE_K_def hvctl_rand_line_def hvctl_commands_def hvctl_ops push_bit_of_1)

theorem hv_control_pkt_refines_witness:
  "\<exists>c'. hv_control_pkt env0 hello_msg config_zero = Inr c' \<and> chan_step Unconnected hello_msg (chan_of c') \<and> chan_of c' = Challenged 42"
proof -
  have u: "cfg_hvctl_state config_zero = HVCTL_STATE_UNCONNECTED" by (simp add: config_zero_def hvctl_states)
  then have inv: "chan_inv config_zero" and ch: "chan_of config_zero = Unconnected" by (simp_all add: chan_inv_def chan_of_def hvctl_states)
  from u handshake_msgs(1) obtain c' where c': "hv_control_pkt env0 hello_msg config_zero = Inr c'"
    by (simp add: hv_control_pkt_unconnected)
  with hv_control_pkt_refines [OF c' inv] ch have "chan_step Unconnected hello_msg (chan_of c')" by simp
  then have "chan_of c' = Challenged 42"
    using handshake_msgs(1) by (cases rule: chan_step.cases) (auto simp: hello_msg_def response_not_hello)
  then show ?thesis using c' \<open>chan_step _ _ _\<close> by simp
qed

text \<open>
  C20. When the channel is open, the packets received so far end with a handshake: a
  hello of the right version, right after it the answer to the challenge with the next
  sequence number, and then nothing but commands, numbered without a gap.
\<close>

theorem hvctl_open_after_handshake:
  assumes "hfold (\<lambda>(env, m). hv_control_pkt env m) pkts c = Inr c'" "chan_inv c" "chan_of c = Unconnected" "chan_of c' = Connected n"
  shows "\<exists>pre h r cmds. map snd pkts = pre @ h # r # cmds \<and> good_hello h \<and> good_response (m_seqn h + 1) r \<and>
    (\<forall>i<length cmds. good_command (m_seqn h + 2 + of_nat i) (cmds ! i)) \<and> n = m_seqn h + 2 + of_nat (length cmds)"
  using hvctl.open_after_handshake [OF assms(1,2,3,4)] unfolding handshake_then_def .

definition opening_pkts :: "(hv_env \<times> hvctl_msg) list" where
  "opening_pkts = [(env0, hello_msg), (env0, response_msg), (env0, query_msg)]"

lemma opening_connects:
  "(case hfold (\<lambda>(env, m). hv_control_pkt env m) opening_pkts config_zero of Inl _ \<Rightarrow> False | Inr c' \<Rightarrow> chan_of c' = Connected 44)"
  by code_simp

theorem hvctl_open_after_handshake_witness:
  "\<exists>c'. hfold (\<lambda>(env, m). hv_control_pkt env m) opening_pkts config_zero = Inr c' \<and> chan_of c' = Connected 44 \<and>
     (\<exists>pre h r cmds. map snd opening_pkts = pre @ h # r # cmds \<and> good_hello h \<and> good_response (m_seqn h + 1) r)"
proof -
  obtain c' where c': "hfold (\<lambda>(env, m). hv_control_pkt env m) opening_pkts config_zero = Inr c'" "chan_of c' = Connected 44"
    using opening_connects by (auto split: sum.splits)
  have "chan_inv config_zero" "chan_of config_zero = Unconnected" by (simp_all add: chan_inv_def chan_of_def config_zero_def hvctl_states)
  from hvctl_open_after_handshake [OF c'(1) this c'(2)] c' show ?thesis by blast
qed

text \<open>
  C21. A packet that is not a command in sequence on an open channel changes nothing but
  the channel itself: its state, its numbers and the reply.
\<close>

definition beyond_channel :: "config \<Rightarrow> config" where
  "beyond_channel c = c\<lparr> cfg_hvctl_state := 0, cfg_hvctl_hv_seq := 0, cfg_hvctl_zeus_seq := 0, cfg_hvctl_rand_num := 0,
     cfg_hvctl_obuf := hvctl_msg_zero \<rparr>"

lemma beyond_channel_simps [simp]:
  "beyond_channel (c\<lparr> cfg_hvctl_state := a \<rparr>) = beyond_channel c" "beyond_channel (c\<lparr> cfg_hvctl_hv_seq := b \<rparr>) = beyond_channel c"
  "beyond_channel (c\<lparr> cfg_hvctl_zeus_seq := b \<rparr>) = beyond_channel c" "beyond_channel (c\<lparr> cfg_hvctl_rand_num := r \<rparr>) = beyond_channel c"
  "beyond_channel (upd_reply h c) = beyond_channel c" "beyond_channel (primed m c) = beyond_channel c"
  by (simp_all add: beyond_channel_def upd_reply_def primed_def)

lemma replies_beyond_channel [simp]:
  "beyond_channel (reply_cmd st c) = beyond_channel c" "beyond_channel (bad_sequence_number c) = beyond_channel c"
  "beyond_channel (op_start_hello m c) = beyond_channel c" "beyond_channel (op_start_hello2 m c) = beyond_channel c"
  by (simp_all add: reply_cmd_def hvctl_send_pkt_def upd_hdr_status_def bad_sequence_number_def op_start_hello_def
      op_start_hello2_def Let_def)

theorem hv_control_pkt_refused_keeps:
  assumes "hv_control_pkt env m c = Inr c'" "chan_inv c" "\<not> (\<exists>n. chan_of c = Connected n \<and> good_command n m)"
  shows "beyond_channel c' = beyond_channel c"
proof -
  consider (U) "cfg_hvctl_state c = HVCTL_STATE_UNCONNECTED" | (Ch) "cfg_hvctl_state c = HVCTL_STATE_CHALLENGED"
    | (Co) "cfg_hvctl_state c = HVCTL_STATE_CONNECTED" using assms(2) by (auto simp: chan_inv_def)
  then show ?thesis
  proof cases
    case U
    with assms(1) show ?thesis by (auto simp: hv_control_pkt_unconnected)
  next
    case Ch
    with assms(1) show ?thesis by (auto simp: hv_control_pkt_challenged Let_def)
  next
    case Co
    then have "chan_of c = Connected (cfg_hvctl_zeus_seq c)" by (simp add: chan_of_def hvctl_states)
    with assms(3) have no: "cfg_hvctl_zeus_seq c = m_seqn m \<Longrightarrow> m_op m \<notin> hvctl_commands" by auto
    then have "hvctl_dispatch env m d = Inr (HVctl_st_eauth, d)" if "cfg_hvctl_zeus_seq c = m_seqn m" for d
      using that by (auto simp: hvctl_dispatch_def hvctl_commands_def Let_def)
    with Co assms(1) show ?thesis by (auto simp: hv_control_pkt_connected split: if_splits)
  qed
qed

theorem hv_control_pkt_refused_keeps_witness:
  "\<exists>c'. hv_control_pkt env0 query_msg config_zero = Inr c' \<and> beyond_channel c' = beyond_channel config_zero \<and>
     m_status (cfg_hvctl_obuf c') = status_code HVctl_st_eauth"
proof -
  have u: "cfg_hvctl_state config_zero = HVCTL_STATE_UNCONNECTED" by (simp add: config_zero_def hvctl_states)
  then have inv: "chan_inv config_zero" and ch: "chan_of config_zero = Unconnected" by (simp_all add: chan_inv_def chan_of_def hvctl_states)
  have "m_op query_msg \<noteq> HVctl_op_hello" by (simp add: query_msg_def hvctl_ops)
  with u have c': "hv_control_pkt env0 query_msg config_zero = Inr (reply_cmd HVctl_st_eauth (primed query_msg config_zero))"
    by (simp add: hv_control_pkt_unconnected)
  with hv_control_pkt_refused_keeps [OF c' inv] ch show ?thesis
    by (simp add: reply_cmd_def hvctl_send_pkt_def upd_hdr_status_def upd_reply_def Let_def)
qed

end
