(* ===== verification/Guest_Ops.thy ===== *)
theory Guest_Ops
  imports Channel
begin

text \<open>
  The commands of the control channel on guests and vcpus: which changes of a guest's
  state they make, whom they reach, and the accounting of cycles and notifications.
\<close>

subsection \<open>The life of a guest\<close>

text \<open>The changes of state the commands \<open>start\<close> and \<open>stop\<close> may make.\<close>

inductive guest_trans :: "u16 \<Rightarrow> u32 \<Rightarrow> u32 \<Rightarrow> bool" where
  start: "guest_trans HVctl_op_guest_start GUEST_STATE_STOPPED GUEST_STATE_RESETTING"
| stop: "st \<in> {GUEST_STATE_NORMAL, GUEST_STATE_SUSPENDED} \<Longrightarrow> guest_trans HVctl_op_guest_stop st GUEST_STATE_EXITING"
| same: "guest_trans op st st"

inductive_simps guest_trans_iff: "guest_trans op st st'"

lemma guest_states_distinct [simp]:
  "GUEST_STATE_STOPPED \<noteq> GUEST_STATE_NORMAL" "GUEST_STATE_STOPPED \<noteq> GUEST_STATE_SUSPENDED"
  "GUEST_STATE_STOPPED \<noteq> GUEST_STATE_EXITING" "GUEST_STATE_STOPPED \<noteq> GUEST_STATE_RESETTING"
  "GUEST_STATE_STOPPED \<noteq> GUEST_STATE_UNCONFIGURED" "GUEST_STATE_NORMAL \<noteq> GUEST_STATE_STOPPED"
  "GUEST_STATE_SUSPENDED \<noteq> GUEST_STATE_STOPPED"
  by (simp_all add: guest_states)

definition guest_states_of :: "config \<Rightarrow> nat \<Rightarrow> u32" where
  "guest_states_of c i = g_state (cfg_guests c i)"

lemma states_upd [simp]:
  "guest_states_of (upd_reply h c) = guest_states_of c" "guest_states_of (upd_strand i hs c) = guest_states_of c"
  "guest_states_of (upd_vcpu i hv c) = guest_states_of c" "guest_states_of (c\<lparr> cfg_mondo_log := l \<rparr>) = guest_states_of c"
  "guest_states_of (del_reconf_exit c) = guest_states_of c" "guest_states_of (c\<lparr> cfg_del_reconf_lock := b \<rparr>) = guest_states_of c"
  "guest_states_of (c\<lparr> cfg_del_reconf_gid := g \<rparr>) = guest_states_of c"
  "guest_states_of (set_guest_state gi st c) = (guest_states_of c)(gi := st)"
  "(\<And>g. g_state (h' g) = g_state g) \<Longrightarrow> guest_states_of (upd_guest gi h' c) = guest_states_of c"
  by (auto simp: guest_states_of_def fun_eq_iff upd_defs upd_reply_def del_reconf_exit_def set_guest_state_def)

lemma mondo_states: "hpost (\<lambda>c'. guest_states_of c' = guest_states_of c) (c_hvmondo_send dest msg c)"
  unfolding c_hvmondo_send_def by (intro keep_rules) simp

lemma ignition_states: "hpost (\<lambda>(ok, c'). guest_states_of c' = guest_states_of c) (guest_ignition s gi c)"
  unfolding guest_ignition_def schedule_vcpu_def Let_def
  by (intro keep_rules) (auto simp: hguard_eq_Inr dest: hpostD [OF mondo_states] split: if_splits)

lemma guestop_done_states: "Q (guest_states_of c) \<Longrightarrow> hpost (\<lambda>(st, c'). Q (guest_states_of c')) (guestop_done e st c)"
  by (simp add: guestop_done_def hpost_def)

lemma op_guest_start_states:
  "hpost (\<lambda>(st, c'). \<forall>i. guest_trans HVctl_op_guest_start (guest_states_of c i) (guest_states_of c' i)) (op_guest_start env cmd c)"
  unfolding op_guest_start_def Let_def
  by (intro keep_rules guestop_done_states) (auto dest!: hpostD [OF ignition_states] simp: guest_states_of_def [of c] intro: guest_trans.intros)

lemma op_guest_stop_states:
  "hpost (\<lambda>(st, c'). \<forall>i. guest_trans HVctl_op_guest_stop (guest_states_of c i) (guest_states_of c' i)) (op_guest_stop cmd c)"
  unfolding op_guest_stop_def Let_def
  by (intro keep_rules guestop_done_states) (auto dest!: hpostD [OF mondo_states] simp: guest_states_of_def [of c] intro: guest_trans.intros)

lemma op_guest_panic_states: "hpost (\<lambda>(st, c'). guest_states_of c' = guest_states_of c) (op_guest_panic cmd c)"
  unfolding op_guest_panic_def Let_def
  by (intro keep_rules guestop_done_states [where Q = "\<lambda>s. s = guest_states_of c"]) (auto dest!: hpostD [OF mondo_states])

lemma guest_util_states: "guest_states_of (snd (fold (guest_util_vcpu gi now) is (y, c))) = guest_states_of c"
  by (induction "is" arbitrary: y c) (simp_all add: guest_util_vcpu_def Let_def)

lemma op_get_res_stat_states: "guest_states_of (snd (op_get_res_stat env cmd c)) = guest_states_of c"
  by (simp add: op_get_res_stat_def get_guest_status_def get_vcpu_status_def async_idle_def Let_def)
    (simp add: get_guest_utilisation_def guest_util_states Let_def case_prod_beta)

lemma op_get_hvconfig_states: "hpost (\<lambda>(st, c'). guest_states_of c' = guest_states_of c) (op_get_hvconfig c)"
  unfolding op_get_hvconfig_def del_reconf_enter_def Let_def by (intro keep_rules) (auto split: if_splits)

lemma op_cancel_reconfig_states: "hpost (\<lambda>(st, c'). guest_states_of c' = guest_states_of c) (op_cancel_reconfig c)"
  unfolding op_cancel_reconfig_def del_reconf_enter_def Let_def by (intro keep_rules) (auto split: if_splits)

text \<open>
  C22. Other than by a reconfiguration, a command changes the state of a guest only by
  starting one that is stopped or by stopping one that runs or is suspended.
\<close>

theorem hvctl_dispatch_guest_states:
  assumes "hvctl_dispatch env m c = Inr (st, c')" "m_op m \<notin> {HVctl_op_reconfigure, HVctl_op_guest_delayed_reconf}"
  shows "guest_trans (m_op m) (g_state (cfg_guests c i)) (g_state (cfg_guests c' i))"
proof -
  have "\<forall>i. guest_trans (m_op m) (guest_states_of c i) (guest_states_of c' i)"
    using assms hpostD [OF op_guest_start_states] hpostD [OF op_guest_stop_states] hpostD [OF op_guest_panic_states]
      hpostD [OF op_get_hvconfig_states] hpostD [OF op_cancel_reconfig_states] op_get_res_stat_states [of env m c]
    unfolding hvctl_dispatch_def Let_def by (auto split: if_splits intro: guest_trans.same)
  then show ?thesis by (simp add: guest_states_of_def)
qed

definition guest_cmd :: "u16 \<Rightarrow> u32 \<Rightarrow> hvctl_msg" where
  "guest_cmd op gid = hvctl_msg_zero\<lparr> m_op := op, m_body := (\<lambda>_. 0)(0 := gid) \<rparr>"

lemma start_stopped_guest:
  "(case hvctl_dispatch env0 (guest_cmd HVctl_op_guest_start 0) (set_guest_state 0 GUEST_STATE_STOPPED boot_config) of
      Inl _ \<Rightarrow> False | Inr (st, c') \<Rightarrow> st = HVctl_st_ok \<and> g_state (cfg_guests c' 0) = GUEST_STATE_RESETTING \<and>
        cfg_mondo_log c' = [(7, HXCMD_SCHED_VCPU 4)])"
  by code_simp

theorem hvctl_dispatch_guest_states_witness:
  "\<exists>c'. hvctl_dispatch env0 (guest_cmd HVctl_op_guest_start 0) (set_guest_state 0 GUEST_STATE_STOPPED boot_config) = Inr (HVctl_st_ok, c') \<and>
     g_state (cfg_guests c' 0) = GUEST_STATE_RESETTING \<and> guest_trans HVctl_op_guest_start GUEST_STATE_STOPPED (g_state (cfg_guests c' 0))"
proof -
  let ?c = "set_guest_state 0 GUEST_STATE_STOPPED boot_config" and ?m = "guest_cmd HVctl_op_guest_start 0"
  from start_stopped_guest obtain c' where c': "hvctl_dispatch env0 ?m ?c = Inr (HVctl_st_ok, c')"
      "g_state (cfg_guests c' 0) = GUEST_STATE_RESETTING" by (auto split: sum.splits)
  have "m_op ?m = HVctl_op_guest_start" "g_state (cfg_guests ?c 0) = GUEST_STATE_STOPPED"
    by (simp_all add: guest_cmd_def set_guest_state_def upd_guest_def)
  with hvctl_dispatch_guest_states [OF c'(1), of 0] c' show ?thesis by (simp add: hvctl_ops)
qed

subsection \<open>Stopping a guest\<close>

text \<open>The vcpus from which a guest can be stopped.\<close>

definition can_drive_exit :: "vcpu \<Rightarrow> bool" where
  "can_drive_exit v \<longleftrightarrow> v_status v \<in> {CPU_STATE_RUNNING, CPU_STATE_STOPPED, CPU_STATE_SUSPENDED}"

lemma find_target_none:
  assumes "\<And>k vi. k \<in> set ks \<Longrightarrow> g_vcpus (cfg_guests c gi) k = Some vi \<Longrightarrow>
    v_guest (cfg_vcpus c vi) = Some gi \<and> \<not> can_drive_exit (cfg_vcpus c vi)"
  shows "find_target_strand_from c gi ks = Inr (- 1)"
  using assms
proof (induction ks)
  case (Cons k ks)
  have "find_target_strand_from c gi ks = Inr (- 1)" using Cons by (meson list.set_intros(2))
  with Cons.prems [of k] show ?case
    by (cases "g_vcpus (cfg_guests c gi) k") (auto simp: can_drive_exit_def hassert_def Let_def)
qed simp

lemma bad_id_of_nat: "gi < n \<Longrightarrow> n \<le> 2 ^ 31 \<Longrightarrow> \<not> bad_id (of_nat gi) n"
  unfolding bad_id_def by (simp add: sint_uint signed_take_bit_int_eq_self unsigned_of_nat take_bit_nat_eq_self)

lemma bad_id_unat: "\<not> bad_id i n \<Longrightarrow> n \<le> 2 ^ 31 \<Longrightarrow> unat i < n"
proof -
  assume "\<not> bad_id i n" "n \<le> 2 ^ 31"
  then have s: "0 \<le> sint i" "sint i < int n" "sint i < 2 ^ 32" by (auto simp: bad_id_def)
  have "uint i = sint i" using uint_sint [of i] s by (simp add: take_bit_int_eq_self)
  with s show ?thesis by (simp add: unat_eq_nat_uint nat_less_iff)
qed

text \<open>
  C23. When no vcpu of a running guest can drive the exit, the command to stop it does
  not fail as intended: the result \<open>-1\<close> of the search is 255 as an unsigned byte, never
  compares equal to \<open>-1\<close>, and the message goes to a strand that does not exist.
\<close>

theorem op_guest_stop_no_strand:
  assumes "gi < NGUESTS" "g_state (cfg_guests c gi) = GUEST_STATE_NORMAL" "vcpus_ok c"
    and "\<forall>k<NVCPUS. \<forall>vi. g_vcpus (cfg_guests c gi) k = Some vi \<longrightarrow> \<not> can_drive_exit (cfg_vcpus c vi)"
  shows "op_guest_stop (guest_cmd HVctl_op_guest_stop (of_nat gi)) c = Inl Bad_access"
proof -
  have id: "unat (of_nat gi :: u32) = gi" "\<not> bad_id (of_nat gi) NGUESTS"
    using assms(1) bad_id_of_nat [of gi NGUESTS] by (simp_all add: NGUESTS_def unsigned_of_nat take_bit_nat_eq_self)
  have "find_target_strand_for_exit gi c = Inr (- 1)"
    unfolding find_target_strand_for_exit_def using assms vcpus_ok_slot_unique(3) [OF assms(3,1)]
    by (intro find_target_none) auto
  moreover have "(ucast (- 1 :: u8) :: u32) \<noteq> - 1" "unat (- 1 :: u8) = 255"
    by (code_simp, simp add: unsigned_minus_1_eq_mask mask_eq_exp_minus_1)
  ultimately show ?thesis using id assms(2)
    by (simp add: op_guest_stop_def guest_cmd_def Let_def c_hvmondo_send_def hguard_def NSTRANDS_def)
qed

text \<open>A guest whose only vcpu is in error.\<close>

theorem op_guest_stop_no_strand_witness:
  "op_guest_stop (guest_cmd HVctl_op_guest_stop 0) (set_guest_state 0 GUEST_STATE_NORMAL (upd_vcpu 4 (\<lambda>v. v\<lparr> v_status := CPU_STATE_ERROR \<rparr>) boot_config))
     = Inl Bad_access"
proof -
  let ?c = "set_guest_state 0 GUEST_STATE_NORMAL (upd_vcpu 4 (\<lambda>v. v\<lparr> v_status := CPU_STATE_ERROR \<rparr>) boot_config)"
  have "vcpus_ok ?c"
    by (auto simp: vcpus_ok_def vcpu_bound_def vcpu_slot_ok_def boot_config_def config_zero_def vcpu_zero_def guest_zero_def
      NVCPUS_def NGUESTS_def RESF_Config_def cpu_states set_guest_state_def upd_defs)
  moreover have "g_state (cfg_guests ?c 0) = GUEST_STATE_NORMAL" by (simp add: set_guest_state_def upd_defs)
  moreover have "\<forall>k<NVCPUS. \<forall>vi. g_vcpus (cfg_guests ?c 0) k = Some vi \<longrightarrow> \<not> can_drive_exit (cfg_vcpus ?c vi)"
    by (auto simp: boot_config_def set_guest_state_def upd_defs can_drive_exit_def cpu_states)
  ultimately show ?thesis using op_guest_stop_no_strand [of 0 ?c] by (simp add: NGUESTS_def)
qed

subsection \<open>Making a guest panic\<close>

text \<open>
  A panic reaches a guest exactly when the guest is not the control domain, is
  active and has a running vcpu; one message goes to the strand of its first running
  vcpu and nothing else changes.  Otherwise nothing is sent.
\<close>

theorem op_guest_panic_reaches:
  assumes "op_guest_panic cmd c = Inr (st, c')" "vcpus_ok c"
  defines "gi \<equiv> unat (m_body cmd 0)" and "ctl \<equiv> le_target_guest (cfg_hv_ldcs c (unat (cfg_hvctl_ldc c)))"
  shows "if st = HVctl_st_ok
    then gi < NGUESTS \<and> ctl \<noteq> Some gi \<and>
      g_state (cfg_guests c gi) \<in> {GUEST_STATE_NORMAL, GUEST_STATE_SUSPENDED, GUEST_STATE_EXITING} \<and>
      (\<exists>vi s. find_running_vcpu gi c = Some vi \<and> v_guest (cfg_vcpus c vi) = Some gi \<and>
        v_status (cfg_vcpus c vi) = CPU_STATE_RUNNING \<and> v_strand (cfg_vcpus c vi) = Some s \<and>
        c' = c\<lparr> cfg_mondo_log := cfg_mondo_log c @ [(s, HXCMD_GUEST_PANIC vi)] \<rparr>)
    else (\<exists>code. c' = upd_reply (put_u32 1 code) c)"
proof -
  have run: "v_guest (cfg_vcpus c vi) = Some gi \<and> v_status (cfg_vcpus c vi) = CPU_STATE_RUNNING"
    if "find_running_vcpu gi c = Some vi" "gi < NGUESTS" for vi
  proof -
    from that(1) obtain k where "k < NVCPUS" "g_vcpus (cfg_guests c gi) k = Some vi" "v_status (cfg_vcpus c vi) = CPU_STATE_RUNNING"
      by (auto simp: find_running_vcpu_def find_Some_iff split: option.splits)
    then show ?thesis using vcpus_ok_slot_unique(3) [OF assms(2) that(2)] by simp
  qed
  show ?thesis
    using assms(1) run unfolding op_guest_panic_def Let_def gi_def [symmetric] ctl_def [symmetric] guestop_done_def c_hvmondo_send_def
    by (auto simp: hguard_eq_Inr hbind_eq_Inr split: if_splits option.splits)
qed

theorem op_guest_panic_reaches_witness:
  "op_guest_panic (guest_cmd HVctl_op_guest_panic 0)
     (set_guest_state 0 GUEST_STATE_NORMAL (upd_vcpu 4 (\<lambda>v. v\<lparr> v_status := CPU_STATE_RUNNING \<rparr>) boot_config)) =
   Inr (HVctl_st_ok, (set_guest_state 0 GUEST_STATE_NORMAL (upd_vcpu 4 (\<lambda>v. v\<lparr> v_status := CPU_STATE_RUNNING \<rparr>) boot_config))
     \<lparr> cfg_mondo_log := [(7, HXCMD_GUEST_PANIC 4)] \<rparr>)"
proof -
  let ?c = "set_guest_state 0 GUEST_STATE_NORMAL (upd_vcpu 4 (\<lambda>v. v\<lparr> v_status := CPU_STATE_RUNNING \<rparr>) boot_config)"
  have ok: "vcpus_ok ?c"
    by (auto simp: vcpus_ok_def vcpu_bound_def vcpu_slot_ok_def boot_config_def config_zero_def vcpu_zero_def guest_zero_def
      NVCPUS_def NGUESTS_def RESF_Config_def cpu_states set_guest_state_def upd_defs)
  have "(case op_guest_panic (guest_cmd HVctl_op_guest_panic 0) ?c of Inl _ \<Rightarrow> False | Inr (st, c') \<Rightarrow> st = HVctl_st_ok)" by code_simp
  then obtain c' where c': "op_guest_panic (guest_cmd HVctl_op_guest_panic 0) ?c = Inr (HVctl_st_ok, c')"
    by (auto split: sum.splits)
  have "find_running_vcpu 0 ?c = Some 4" by code_simp
  with op_guest_panic_reaches [OF c' ok] c' show ?thesis
    by (simp add: guest_cmd_def) (simp add: set_guest_state_def upd_defs boot_config_def config_zero_def)
qed

subsection \<open>Accounting of cycles\<close>

lemma msg_u64_put [simp]: "msg_u64 (put_u64 n v m) n = v"
  by (rule bit_eqI) (auto simp: msg_u64_def put_u64_def bit_simps)

lemma msg_u64_put_other [simp]: "k \<noteq> n \<Longrightarrow> k \<noteq> Suc n \<Longrightarrow> n \<noteq> Suc k \<Longrightarrow> msg_u64 (put_u64 n v m) k = msg_u64 m k"
  by (simp add: msg_u64_def put_u64_def)

text \<open>The cycles a vcpu has yielded since it was bound, up to now.\<close>

definition yield_total :: "vcpu \<Rightarrow> u64 \<Rightarrow> u64" where
  "yield_total v now = vu_yield_count (v_util v) +
     (if vu_yield_start (v_util v) \<noteq> 0 \<and> vu_yield_start (v_util v) < now then now - vu_yield_start (v_util v) else 0)"

lemma yield_delta: "get_vcpu_yielded_cycle_delta v now n = yield_total v now - n"
  by (simp add: get_vcpu_yielded_cycle_delta_def yield_total_def Let_def)

definition guest_read :: "nat \<Rightarrow> u64 \<Rightarrow> vcpu \<Rightarrow> vcpu" where
  "guest_read gi now v = (if v_guest v = Some gi
     then v\<lparr> v_util := (v_util v)\<lparr> vu_last_yield_count_guest := yield_total v now \<rparr> \<rparr> else v)"

definition guest_yield :: "nat \<Rightarrow> u64 \<Rightarrow> vcpu \<Rightarrow> u64" where
  "guest_yield gi now v = (if v_guest v = Some gi then yield_total v now - vu_last_yield_count_guest (v_util v) else 0)"

lemma guest_util_step:
  "guest_util_vcpu gi now i (y, c) = (y + guest_yield gi now (cfg_vcpus c i), upd_vcpu i (guest_read gi now) c)"
  by (cases c) (auto simp: guest_util_vcpu_def guest_yield_def guest_read_def yield_delta Let_def upd_defs)

lemma guest_util_fold:
  "distinct is \<Longrightarrow> fold (guest_util_vcpu gi now) is (y, c) = (y + (\<Sum>i\<in>set is. guest_yield gi now (cfg_vcpus c i)),
     c\<lparr> cfg_vcpus := \<lambda>i. if i \<in> set is then guest_read gi now (cfg_vcpus c i) else cfg_vcpus c i \<rparr>)"
proof (induction "is" arbitrary: y c)
  case (Cons x xs)
  let ?d = "upd_vcpu x (guest_read gi now) c"
  have v: "cfg_vcpus ?d i = cfg_vcpus c i" if "i \<in> set xs" for i using that Cons.prems by (auto simp: upd_defs)
  have "fold (guest_util_vcpu gi now) (x # xs) (y, c) = (y + guest_yield gi now (cfg_vcpus c x) +
      (\<Sum>i\<in>set xs. guest_yield gi now (cfg_vcpus ?d i)),
      ?d\<lparr> cfg_vcpus := \<lambda>i. if i \<in> set xs then guest_read gi now (cfg_vcpus ?d i) else cfg_vcpus ?d i \<rparr>)"
    using Cons by (simp add: guest_util_step)
  moreover have "(\<Sum>i\<in>set xs. guest_yield gi now (cfg_vcpus ?d i)) = (\<Sum>i\<in>set xs. guest_yield gi now (cfg_vcpus c i))"
    using v by simp
  moreover have "(\<lambda>i. if i \<in> set xs then guest_read gi now (cfg_vcpus ?d i) else cfg_vcpus ?d i) =
      (\<lambda>i. if i \<in> set (x # xs) then guest_read gi now (cfg_vcpus c i) else cfg_vcpus c i)"
    using v Cons.prems by (auto simp: fun_eq_iff upd_defs)
  ultimately show ?case using Cons.prems by (simp add: upd_defs add.assoc)
qed simp

text \<open>
  The utilisation of a guest is accounted without loss or double counting: a report
  gives, for every vcpu of the guest, the cycles yielded since the last report, and
  records for each of them the total it has accounted for; the elapsed time is counted
  from the last report.  No other vcpu is touched.
\<close>

theorem guest_utilisation_accounts:
  "let now = he_stick env; g = cfg_guests c gi; c' = get_guest_utilisation env gi c in
     msg_u64 (cfg_hvctl_obuf c') 12 = (\<Sum>i<NVCPUS. if v_guest (cfg_vcpus c i) = Some gi
       then yield_total (cfg_vcpus c i) now - vu_last_yield_count_guest (v_util (cfg_vcpus c i)) else 0) \<and>
     msg_u64 (cfg_hvctl_obuf c') 6 = now - g_stick_last g \<and> msg_u64 (cfg_hvctl_obuf c') 4 = now - g_start_stick g \<and>
     g_stick_last (cfg_guests c' gi) = now \<and>
     cfg_vcpus c' = (\<lambda>i. if i < NVCPUS \<and> v_guest (cfg_vcpus c i) = Some gi
       then (cfg_vcpus c i)\<lparr> v_util := (v_util (cfg_vcpus c i))\<lparr> vu_last_yield_count_guest := yield_total (cfg_vcpus c i) now \<rparr> \<rparr>
       else cfg_vcpus c i)"
  unfolding get_guest_utilisation_def Let_def guest_util_fold [OF distinct_upt]
  by (simp add: upd_reply_def upd_defs guest_yield_def guest_read_def lessThan_atLeast0 fun_eq_iff)

text \<open>
  The cycles a vcpu is reported to have yielded never exceed the time it is reported
  to have been active, and every report starts the next period.
\<close>

theorem vcpu_status_clamped:
  assumes "get_vcpu_status env cmd c = (HVctl_st_ok, c')"
  shows "msg_u64 (cfg_hvctl_obuf c') 12 \<le> msg_u64 (cfg_hvctl_obuf c') 10 \<and>
    unat (m_body cmd 1) < NVCPUS \<and>
    (let v = cfg_vcpus c (unat (m_body cmd 1)); u' = v_util (cfg_vcpus c' (unat (m_body cmd 1))) in
     vu_stick_last u' = he_stick env \<and> vu_last_yield_count_vcpu u' = yield_total v (he_stick env) \<and>
     msg_u64 (cfg_hvctl_obuf c') 10 = he_stick env - vu_stick_last (v_util v))"
proof -
  have id: "unat (m_body cmd 1) < NVCPUS" if "\<not> bad_id (m_body cmd 1) NVCPUS"
    using bad_id_unat [OF that] by (simp add: NVCPUS_def)
  show ?thesis
    using assms id by (auto simp: get_vcpu_status_def Let_def upd_reply_def upd_defs yield_delta split: if_splits)
qed

definition yield_config :: config where
  "yield_config = config_zero\<lparr> cfg_vcpus := (\<lambda>_. vcpu_zero)(2 := vcpu_zero\<lparr> v_util := vcpu_util_zero\<lparr> vu_yield_count := 5000,
     vu_stick_last := 400 \<rparr> \<rparr>) \<rparr>"

definition vcpu_query :: hvctl_msg where
  "vcpu_query = hvctl_msg_zero\<lparr> m_op := HVctl_op_get_res_stat, m_body := (\<lambda>_. 0)(0 := HVctl_res_vcpu, 1 := 2) \<rparr>"

text \<open>A vcpu that would be reported to have yielded 5000 cycles out of 600.\<close>

theorem vcpu_status_clamped_witness:
  "\<exists>c'. get_vcpu_status env0 vcpu_query yield_config = (HVctl_st_ok, c') \<and> msg_u64 (cfg_hvctl_obuf c') 10 = 600 \<and>
     msg_u64 (cfg_hvctl_obuf c') 12 \<le> 600"
proof -
  have "fst (get_vcpu_status env0 vcpu_query yield_config) = HVctl_st_ok" by code_simp
  then obtain c' where c': "get_vcpu_status env0 vcpu_query yield_config = (HVctl_st_ok, c')" by (metis prod.collapse)
  have "m_body vcpu_query 1 = 2" "vu_stick_last (v_util (cfg_vcpus yield_config 2)) = 400" "he_stick env0 = 1000"
    by (simp_all add: vcpu_query_def yield_config_def env0_def)
  with vcpu_status_clamped [OF c'] have "msg_u64 (cfg_hvctl_obuf c') 12 \<le> msg_u64 (cfg_hvctl_obuf c') 10"
      "msg_u64 (cfg_hvctl_obuf c') 10 = 600" by (auto simp: Let_def)
  with c' show ?thesis by simp
qed

subsection \<open>Notifications\<close>

lemma notify_idle:
  "g_async_busy (cfg_guests d gi) (unat HVctl_info_guest_state) = 0 \<Longrightarrow>
   cfg_ldc_log (guest_state_notify gi d) = cfg_ldc_log d @
     [(cfg_hvctl_ldc d, put_u64 4 (ucast (g_state (cfg_guests d gi))) (guest_msg gi HVctl_info_guest_state d))]"
  by (simp add: guest_state_notify_def c_hvldc_send_def async_start_def upd_defs Let_def)

lemma async_idle_simps:
  "g_async_busy (cfg_guests (async_idle gi i (upd_reply h c)) gi) (unat i) = 0"
  "g_state (cfg_guests (async_idle gi i (upd_reply h c)) gi) = g_state (cfg_guests c gi)"
  "guest_msg gi j (async_idle gi i (upd_reply h c)) = guest_msg gi j c"
  "cfg_hvctl_obuf (async_idle gi i (upd_reply h c)) = h (cfg_hvctl_obuf c)"
  by (simp_all add: async_idle_def guest_msg_def upd_reply_def upd_defs)

text \<open>
  Of the changes of a guest's state the domain manager is told once: while a
  notification has not been answered by reading the state no further one is sent, and
  reading the state reports the current one and makes the next change be notified
  again.
\<close>

theorem guest_state_notify_once:
  assumes "gi < NGUESTS"
  defines "read \<equiv> hvctl_msg_zero\<lparr> m_op := HVctl_op_get_res_stat,
    m_body := (\<lambda>_. 0)(0 := HVctl_res_guest, 1 := of_nat gi, 2 := HVctl_info_guest_state) \<rparr>"
  shows "guest_state_notify gi (guest_state_notify gi c) = guest_state_notify gi c \<and>
    (let (st, c') = op_get_res_stat env read (guest_state_notify gi c) in
     st = HVctl_st_ok \<and> msg_u64 (cfg_hvctl_obuf c') 4 = ucast (g_state (cfg_guests c gi)) \<and>
     cfg_ldc_log (guest_state_notify gi c') = cfg_ldc_log c' @
       [(cfg_hvctl_ldc c', put_u64 4 (ucast (g_state (cfg_guests c gi))) (guest_msg gi HVctl_info_guest_state c))])"
proof -
  have id: "unat (of_nat gi :: u32) = gi" "\<not> bad_id (of_nat gi) NGUESTS"
    using assms(1) bad_id_of_nat [of gi NGUESTS] by (simp_all add: NGUESTS_def unsigned_of_nat take_bit_nat_eq_self)
  have info: "\<not> sint HVctl_info_guest_state < 0" "\<not> sint HVctl_info_guest_max \<le> sint HVctl_info_guest_state"
    by (simp_all add: guest_infos)
  have twice: "guest_state_notify gi (guest_state_notify gi c) = guest_state_notify gi c"
    by (simp add: guest_state_notify_def c_hvldc_send_def async_start_def upd_defs Let_def)
  have read: "op_get_res_stat env read d = (HVctl_st_ok, async_idle gi HVctl_info_guest_state
      (upd_reply (put_u64 4 (ucast (g_state (cfg_guests d gi)))) d))" for d
    using id info by (simp add: op_get_res_stat_def get_guest_status_def read_def Let_def)
  have "g_state (cfg_guests (guest_state_notify gi c) gi) = g_state (cfg_guests c gi)"
      "guest_msg gi i (guest_state_notify gi c) = guest_msg gi i c" for i
    by (simp_all add: guest_state_notify_def guest_msg_def c_hvldc_send_def async_start_def upd_defs Let_def)
  then show ?thesis by (simp add: twice read Let_def notify_idle async_idle_simps)
qed

theorem guest_state_notify_once_witness:
  "guest_state_notify 0 (guest_state_notify 0 boot_config) = guest_state_notify 0 boot_config \<and>
   length (cfg_ldc_log (guest_state_notify 0 boot_config)) = 1"
  using guest_state_notify_once [of 0 boot_config]
  by (simp add: NGUESTS_def) (simp add: guest_state_notify_def c_hvldc_send_def async_start_def upd_defs boot_config_def
      config_zero_def guest_zero_def Let_def)

end
