(* ===== verification/Guest_Exit.thy ===== *)
theory Guest_Exit
  imports Guest_Ops
begin

text \<open>
  The exit of a guest (\<open>c_guest_exit\<close> in \<open>init.c\<close>): its vcpus are stopped, its channels
  are shut down, a reconfiguration that was waiting for the guest is committed, the
  domain manager is told, and a guest that only resets is started again.

  The code waits for other strands and calls into the assembler layer; both are
  parameters.  \<open>gx_stop\<close> is \<open>c_desched_n_stop_vcpu\<close> on a vcpu of the own strand,
  \<open>gx_notify\<close> is \<open>c_ldc_cpu_notify\<close> for a vcpu and an endpoint of a guest, and
  \<open>gx_wait\<close> says how another strand leaves the structure of a vcpu when a loop that
  watches its status has ended, \<open>None\<close> when it never ends.
\<close>

definition GUEST_EXIT_MACH_EXIT :: u32 where "GUEST_EXIT_MACH_EXIT = 2"
definition GUEST_EXIT_MACH_SIR :: u32 where "GUEST_EXIT_MACH_SIR = 3"

record exit_env =
  gx_strand :: nat
  gx_stop :: "nat \<Rightarrow> config \<Rightarrow> config hv"
  gx_wait :: "nat \<Rightarrow> config \<Rightarrow> vcpu option"
  gx_notify :: "nat \<Rightarrow> nat \<Rightarrow> nat \<Rightarrow> config \<Rightarrow> config hv"

text \<open>\<open>while (... vp->status ...);\<close>\<close>

definition wait_vcpu :: "exit_env \<Rightarrow> nat \<Rightarrow> (u64 \<Rightarrow> bool) \<Rightarrow> config \<Rightarrow> config hv" where
  "wait_vcpu ge vi until c =
     (if until (v_status (cfg_vcpus c vi)) then Inr c
      else case gx_wait ge vi c of None \<Rightarrow> Inl Hang
      | Some v \<Rightarrow> if until (v_status v) then Inr (upd_vcpu vi (\<lambda>_. v) c) else Inl Hang)"

definition exit_stop_vcpu :: "exit_env \<Rightarrow> nat \<Rightarrow> nat \<Rightarrow> config \<Rightarrow> config hv" where
  "exit_stop_vcpu ge gi i c =
     (case g_vcpus (cfg_guests c gi) i of None \<Rightarrow> Inr c
      | Some vi \<Rightarrow>
          hassert (v_guest (cfg_vcpus c vi) = Some gi)
          (if v_strand (cfg_vcpus c vi) = Some (gx_strand ge) then
             hassert (v_status (cfg_vcpus c vi) \<in> {CPU_STATE_RUNNING, CPU_STATE_STOPPED, CPU_STATE_SUSPENDED})
               (gx_stop ge vi c)
           else
             hbind (wait_vcpu ge vi (\<lambda>st. \<not> (st = CPU_STATE_STARTING \<or> st = CPU_STATE_STOPPING)) c) (\<lambda>c.
             if v_status (cfg_vcpus c vi) = CPU_STATE_ERROR then Inr c
             else hassert (v_status (cfg_vcpus c vi) \<in> {CPU_STATE_RUNNING, CPU_STATE_STOPPED, CPU_STATE_SUSPENDED})
               (hbind (c_hvmondo_send (v_strand (cfg_vcpus c vi)) (HXCMD_STOP_VCPU vi) c)
                 (wait_vcpu ge vi (\<lambda>st. \<not> (st \<noteq> CPU_STATE_STOPPED \<and> st \<noteq> CPU_STATE_ERROR)))))))"

text \<open>The other end of a channel to a guest is interrupted when it has a vcpu to be told.\<close>

definition exit_notify_peer :: "exit_env \<Rightarrow> ldc_endpoint \<Rightarrow> config \<Rightarrow> config hv" where
  "exit_notify_peer ge e c =
     (case le_target_guest e of None \<Rightarrow> Inl Bad_access
      | Some t \<Rightarrow>
          let t_ldcid = unat (le_target_channel e) in
          hguard (t < NGUESTS \<and> t_ldcid < MAX_LDC_CHANNELS)
          (case le_rx_pcpup (guest_ldc c t t_ldcid) of None \<Rightarrow> Inr c
           | Some t_vcpu \<Rightarrow> gx_notify ge t_vcpu t t_ldcid c))"

definition exit_reset_ldc :: "exit_env \<Rightarrow> nat \<Rightarrow> nat \<Rightarrow> config \<Rightarrow> config hv" where
  "exit_reset_ldc ge gi i c = hguard (i < MAX_LDC_CHANNELS)
     (let e = guest_ldc c gi i in
      if le_is_live e = 0 \<or> le_is_private e \<noteq> 0 then Inr c
      else let c = upd_ldc_ep gi i (\<lambda>e. e\<lparr> le_tx_qsize := 0 \<rparr>) c in
        if le_rx_qsize e = 0 then Inr c
        else let c = upd_ldc_ep gi i (\<lambda>e. e\<lparr> le_rx_qsize := 0 \<rparr>) c in
          hbind (if ucast (le_target_type e) = LDC_GUEST_ENDPOINT then exit_notify_peer ge (guest_ldc c gi i) c else Inr c) (\<lambda>c.
          Inr (upd_ldc_ep gi i reset_ldc_endpoint c)))"

text \<open>\<open>Do any pending delayed reconfiguration.\<close>\<close>

definition exit_reconfig :: "nat \<Rightarrow> config \<Rightarrow> config hv" where
  "exit_reconfig gi c = hbind (del_reconf_enter c) (\<lambda>c.
     hbind (if cfg_del_reconf_gid c = g_guestid (cfg_guests c gi)
            then hbind (commit_reconfig c) (\<lambda>c. Inr (c\<lparr> cfg_del_reconf_gid := INVALID_GID \<rparr>)) else Inr c) (\<lambda>c.
     Inr (del_reconf_exit c)))"

definition exit_tell :: "nat \<Rightarrow> config \<Rightarrow> config hv" where
  "exit_tell gi c = hguard (unat (cfg_hvctl_ldc c) < MAX_HV_LDC_CHANNELS)
     (Inr (if le_target_guest (cfg_hv_ldcs c (unat (cfg_hvctl_ldc c))) \<noteq> Some gi then guest_state_notify gi c else c))"

definition c_guest_exit :: "exit_env \<Rightarrow> nat \<Rightarrow> u32 \<Rightarrow> config \<Rightarrow> (hvctl_status \<times> config) hv" where
  "c_guest_exit ge gi reason c =
     hassert (reason = GUEST_EXIT_MACH_EXIT \<or> reason = GUEST_EXIT_MACH_SIR)
     (hassert (g_state (cfg_guests c gi) = GUEST_STATE_EXITING \<or> g_state (cfg_guests c gi) = GUEST_STATE_RESETTING)
     (hbind (hfold (exit_stop_vcpu ge gi) [0..<NVCPUS] c) (\<lambda>c.
      hbind (hfold (exit_reset_ldc ge gi) [0..<unat (g_ldc_max_channel_idx (cfg_guests c gi))] c) (\<lambda>c.
      let c = (if reason \<noteq> GUEST_EXIT_MACH_SIR then set_guest_state gi GUEST_STATE_STOPPED c else c) in
      hbind (exit_reconfig gi c) (\<lambda>c.
      hbind (exit_tell gi c) (\<lambda>c.
      if reason \<noteq> GUEST_EXIT_MACH_SIR then Inr (HVctl_st_ok, c)
      else hassert (g_state (cfg_guests c gi) = GUEST_STATE_RESETTING)
        (hbind (guest_ignition (gx_strand ge) gi c) (\<lambda>(ok, c). Inr (HVctl_st_ok, c)))))))))"

subsection \<open>What the code relies on\<close>

text \<open>What nobody changes of a vcpu while it is being stopped.\<close>

definition vcpu_id :: "vcpu \<Rightarrow> nat option \<times> nat option \<times> u8 \<times> u8 \<times> vcpu_parse_info" where
  "vcpu_id v = (v_guest v, v_strand v, v_vid v, v_strand_slot v, v_pip v)"

text \<open>
  What stopping vcpus leaves alone: everything but the structures of vcpus, of which it
  leaves the identity, the slots of strands, the state of crypto units, and the messages
  sent.
\<close>

definition exit_view :: "config \<Rightarrow> config \<times> (nat \<Rightarrow> nat option \<times> nat option \<times> u8 \<times> u8 \<times> vcpu_parse_info) \<times> (nat \<Rightarrow> mau_parse_info)" where
  "exit_view c = (c\<lparr> cfg_vcpus := \<lambda>_. vcpu_zero, cfg_strands := \<lambda>_. strand_zero, cfg_maus := \<lambda>_. mau_zero, cfg_mondo_log := [] \<rparr>,
     \<lambda>i. vcpu_id (cfg_vcpus c i), \<lambda>i. mau_pip (cfg_maus c i))"

definition at_rest :: "vcpu \<Rightarrow> bool" where
  "at_rest v \<longleftrightarrow> v_status v = CPU_STATE_STOPPED \<or> v_status v = CPU_STATE_ERROR"

definition may_stop :: "vcpu \<Rightarrow> bool" where
  "may_stop v \<longleftrightarrow> v_status v \<in> {CPU_STATE_RUNNING, CPU_STATE_STOPPED, CPU_STATE_SUSPENDED}"

text \<open>
  The assembler layer stops a vcpu of the own strand; a strand ends a transition it has
  begun; a strand that is sent the message to stop a vcpu stops it, or runs into an
  error; notifying a vcpu leaves its status alone.  (Of the endpoint it is for, the routine
  that notifies sets the state of the receive interrupt, \<open>rx_mapreg.state\<close>, which only the assembler
  layer reads or writes and the records here do not have.)
\<close>

definition exit_env_ok :: "exit_env \<Rightarrow> bool" where
  "exit_env_ok ge \<longleftrightarrow>
     (\<forall>vi c. may_stop (cfg_vcpus c vi) \<longrightarrow> (\<exists>c'. gx_stop ge vi c = Inr c' \<and> exit_view c' = exit_view c \<and>
        v_status (cfg_vcpus c' vi) = CPU_STATE_STOPPED \<and> (\<forall>i. i \<noteq> vi \<longrightarrow> cfg_vcpus c' i = cfg_vcpus c i))) \<and>
     (\<forall>vi c. v_status (cfg_vcpus c vi) \<in> {CPU_STATE_STARTING, CPU_STATE_STOPPING} \<longrightarrow>
        (\<exists>v. gx_wait ge vi c = Some v \<and> vcpu_id v = vcpu_id (cfg_vcpus c vi) \<and> (may_stop v \<or> at_rest v))) \<and>
     (\<forall>vi c s. may_stop (cfg_vcpus c vi) \<longrightarrow> cfg_mondo_log c \<noteq> [] \<longrightarrow> last (cfg_mondo_log c) = (s, HXCMD_STOP_VCPU vi) \<longrightarrow>
        v_strand (cfg_vcpus c vi) = Some s \<longrightarrow>
        (\<exists>v. gx_wait ge vi c = Some v \<and> vcpu_id v = vcpu_id (cfg_vcpus c vi) \<and> at_rest v)) \<and>
     (\<forall>vi t j c. \<exists>v. gx_notify ge vi t j c = Inr (upd_vcpu vi (\<lambda>_. v) c) \<and> vcpu_id v = vcpu_id (cfg_vcpus c vi) \<and>
        v_status v = v_status (cfg_vcpus c vi))"

subsection \<open>Stopping the vcpus\<close>

lemma exit_view_upd:
  "vcpu_id v = vcpu_id (cfg_vcpus c vi) \<Longrightarrow> exit_view (upd_vcpu vi (\<lambda>_. v) c) = exit_view c"
  "exit_view (c\<lparr> cfg_mondo_log := l \<rparr>) = exit_view c"
  by (auto simp: exit_view_def upd_defs fun_eq_iff)

lemma exit_viewD:
  assumes "exit_view c' = exit_view c"
  shows "cfg_guests c' = cfg_guests c" "vcpu_id (cfg_vcpus c' i) = vcpu_id (cfg_vcpus c i)"
    "v_guest (cfg_vcpus c' i) = v_guest (cfg_vcpus c i)" "v_strand (cfg_vcpus c' i) = v_strand (cfg_vcpus c i)"
    "cfg_hv_ldcs c' = cfg_hv_ldcs c" "cfg_hvctl_ldc c' = cfg_hvctl_ldc c" "cfg_del_reconf_gid c' = cfg_del_reconf_gid c"
    "cfg_del_reconf_lock c' = cfg_del_reconf_lock c" "cfg_ldc_log c' = cfg_ldc_log c" "mau_pip (cfg_maus c' i) = mau_pip (cfg_maus c i)"
proof -
  from assms have id: "vcpu_id (cfg_vcpus c' i) = vcpu_id (cfg_vcpus c i)" and m: "mau_pip (cfg_maus c' i) = mau_pip (cfg_maus c i)" for i
    by (auto simp: exit_view_def fun_eq_iff)
  from arg_cong [OF assms, where f = "cfg_guests \<circ> fst"] arg_cong [OF assms, where f = "cfg_hv_ldcs \<circ> fst"]
    arg_cong [OF assms, where f = "cfg_hvctl_ldc \<circ> fst"] arg_cong [OF assms, where f = "cfg_del_reconf_gid \<circ> fst"]
    arg_cong [OF assms, where f = "cfg_del_reconf_lock \<circ> fst"] arg_cong [OF assms, where f = "cfg_ldc_log \<circ> fst"]
  show "cfg_guests c' = cfg_guests c" "cfg_hv_ldcs c' = cfg_hv_ldcs c" "cfg_hvctl_ldc c' = cfg_hvctl_ldc c"
    "cfg_del_reconf_gid c' = cfg_del_reconf_gid c" "cfg_del_reconf_lock c' = cfg_del_reconf_lock c" "cfg_ldc_log c' = cfg_ldc_log c"
    by (simp_all add: exit_view_def)
  show "vcpu_id (cfg_vcpus c' i) = vcpu_id (cfg_vcpus c i)" "v_guest (cfg_vcpus c' i) = v_guest (cfg_vcpus c i)"
    "v_strand (cfg_vcpus c' i) = v_strand (cfg_vcpus c i)" "mau_pip (cfg_maus c' i) = mau_pip (cfg_maus c i)"
    using id [of i] m [of i] by (simp_all add: vcpu_id_def)
qed

text \<open>A vcpu that can be stopped: the one of the own strand is in no transition.\<close>

definition stoppable :: "exit_env \<Rightarrow> vcpu \<Rightarrow> bool" where
  "stoppable ge v \<longleftrightarrow> (\<exists>s<NSTRANDS. v_strand v = Some s) \<and> (may_stop v \<or>
     v_strand v \<noteq> Some (gx_strand ge) \<and> (at_rest v \<or> v_status v \<in> {CPU_STATE_STARTING, CPU_STATE_STOPPING}))"

lemma may_stop_settled:
  "may_stop v \<Longrightarrow> v_status v \<notin> {CPU_STATE_STARTING, CPU_STATE_STOPPING, CPU_STATE_ERROR}"
  "at_rest v \<Longrightarrow> v_status v \<notin> {CPU_STATE_STARTING, CPU_STATE_STOPPING}"
  "at_rest v \<Longrightarrow> v_status v \<noteq> CPU_STATE_ERROR \<Longrightarrow> may_stop v"
  by (auto simp: may_stop_def at_rest_def cpu_states)

text \<open>Waiting for the end of a transition.\<close>

lemma wait_settled:
  assumes "exit_env_ok ge" "stoppable ge (cfg_vcpus c vi)"
  shows "\<exists>c'. wait_vcpu ge vi (\<lambda>st. \<not> (st = CPU_STATE_STARTING \<or> st = CPU_STATE_STOPPING)) c = Inr c' \<and>
    exit_view c' = exit_view c \<and> (\<forall>i. i \<noteq> vi \<longrightarrow> cfg_vcpus c' i = cfg_vcpus c i) \<and>
    (may_stop (cfg_vcpus c' vi) \<or> at_rest (cfg_vcpus c' vi)) \<and> cfg_mondo_log c' = cfg_mondo_log c"
proof (cases "v_status (cfg_vcpus c vi) \<in> {CPU_STATE_STARTING, CPU_STATE_STOPPING}")
  case True
  then obtain v where "gx_wait ge vi c = Some v" "vcpu_id v = vcpu_id (cfg_vcpus c vi)" "may_stop v \<or> at_rest v"
    using assms(1) unfolding exit_env_ok_def by blast
  with True may_stop_settled [of v] show ?thesis
    by (auto simp: wait_vcpu_def exit_view_upd) (simp_all add: upd_defs)
next
  case False
  with assms(2) show ?thesis by (auto simp: wait_vcpu_def stoppable_def)
qed

lemma wait_stopped:
  assumes "exit_env_ok ge" "may_stop (cfg_vcpus c vi)" "v_strand (cfg_vcpus c vi) = Some s" "s < NSTRANDS"
  shows "\<exists>c'. hbind (c_hvmondo_send (Some s) (HXCMD_STOP_VCPU vi) c)
      (wait_vcpu ge vi (\<lambda>st. \<not> (st \<noteq> CPU_STATE_STOPPED \<and> st \<noteq> CPU_STATE_ERROR))) = Inr c' \<and>
    exit_view c' = exit_view c \<and> (\<forall>i. i \<noteq> vi \<longrightarrow> cfg_vcpus c' i = cfg_vcpus c i) \<and> at_rest (cfg_vcpus c' vi)"
proof -
  let ?d = "c\<lparr> cfg_mondo_log := cfg_mondo_log c @ [(s, HXCMD_STOP_VCPU vi)] \<rparr>"
  have send: "c_hvmondo_send (Some s) (HXCMD_STOP_VCPU vi) c = Inr ?d" using assms(4) by (simp add: c_hvmondo_send_def hguard_def)
  show ?thesis
  proof (cases "at_rest (cfg_vcpus c vi)")
    case True
    then show ?thesis using send by (auto simp: wait_vcpu_def at_rest_def exit_view_upd)
  next
    case False
    have "may_stop (cfg_vcpus ?d vi)" "v_strand (cfg_vcpus ?d vi) = Some s" "cfg_mondo_log ?d \<noteq> []"
      "last (cfg_mondo_log ?d) = (s, HXCMD_STOP_VCPU vi)" using assms by simp_all
    then obtain v where v: "gx_wait ge vi ?d = Some v" "vcpu_id v = vcpu_id (cfg_vcpus ?d vi)" "at_rest v"
      using assms(1) unfolding exit_env_ok_def by blast
    then have "wait_vcpu ge vi (\<lambda>st. \<not> (st \<noteq> CPU_STATE_STOPPED \<and> st \<noteq> CPU_STATE_ERROR)) ?d = Inr (upd_vcpu vi (\<lambda>_. v) ?d)"
      using False by (simp add: wait_vcpu_def at_rest_def)
    with send v show ?thesis by (auto simp: exit_view_upd) (simp_all add: upd_defs)
  qed
qed

lemma exit_stop_vcpu_step:
  assumes "exit_env_ok ge" "g_vcpus (cfg_guests c gi) k = Some vi" "v_guest (cfg_vcpus c vi) = Some gi"
    and "stoppable ge (cfg_vcpus c vi)"
  shows "\<exists>c'. exit_stop_vcpu ge gi k c = Inr c' \<and> exit_view c' = exit_view c \<and>
    (\<forall>i. i \<noteq> vi \<longrightarrow> cfg_vcpus c' i = cfg_vcpus c i) \<and> at_rest (cfg_vcpus c' vi)"
proof (cases "v_strand (cfg_vcpus c vi) = Some (gx_strand ge)")
  case True
  then have "may_stop (cfg_vcpus c vi)" using assms(4) by (auto simp: stoppable_def)
  moreover from this assms(1) obtain c' where "gx_stop ge vi c = Inr c'" "exit_view c' = exit_view c"
      "v_status (cfg_vcpus c' vi) = CPU_STATE_STOPPED" "\<forall>i. i \<noteq> vi \<longrightarrow> cfg_vcpus c' i = cfg_vcpus c i"
    unfolding exit_env_ok_def by blast
  ultimately show ?thesis
    using True assms(2,3) by (simp add: exit_stop_vcpu_def hassert_def at_rest_def may_stop_def)
next
  case False
  obtain s where s: "s < NSTRANDS" "v_strand (cfg_vcpus c vi) = Some s" using assms(4) by (auto simp: stoppable_def)
  obtain c1 where c1: "wait_vcpu ge vi (\<lambda>st. \<not> (st = CPU_STATE_STARTING \<or> st = CPU_STATE_STOPPING)) c = Inr c1"
      "exit_view c1 = exit_view c" "\<forall>i. i \<noteq> vi \<longrightarrow> cfg_vcpus c1 i = cfg_vcpus c i"
      "may_stop (cfg_vcpus c1 vi) \<or> at_rest (cfg_vcpus c1 vi)"
    using wait_settled [OF assms(1,4)] by blast
  note step = False assms(2,3) c1(1)
  show ?thesis
  proof (cases "v_status (cfg_vcpus c1 vi) = CPU_STATE_ERROR")
    case True
    with step c1 show ?thesis by (simp add: exit_stop_vcpu_def hassert_def at_rest_def)
  next
    case noerr: False
    then have "may_stop (cfg_vcpus c1 vi)" using c1(4) may_stop_settled(3) by blast
    moreover have "v_strand (cfg_vcpus c1 vi) = Some s" using exit_viewD(4) [OF c1(2)] s by simp
    ultimately obtain c2 where "hbind (c_hvmondo_send (Some s) (HXCMD_STOP_VCPU vi) c1)
        (wait_vcpu ge vi (\<lambda>st. \<not> (st \<noteq> CPU_STATE_STOPPED \<and> st \<noteq> CPU_STATE_ERROR))) = Inr c2"
        "exit_view c2 = exit_view c1" "\<forall>i. i \<noteq> vi \<longrightarrow> cfg_vcpus c2 i = cfg_vcpus c1 i" "at_rest (cfg_vcpus c2 vi)"
      using wait_stopped [OF assms(1) _ _ s(1)] by blast
    with noerr step c1 \<open>may_stop _\<close> \<open>v_strand (cfg_vcpus c1 vi) = Some s\<close> show ?thesis
      by (simp add: exit_stop_vcpu_def hassert_def may_stop_def)
  qed
qed

text \<open>The loop over the table of the guest.\<close>

lemma exit_stop_all:
  assumes "exit_env_ok ge" "vcpus_ok c" "gi < NGUESTS"
    and stop: "\<And>k vi. k < NVCPUS \<Longrightarrow> g_vcpus (cfg_guests c gi) k = Some vi \<Longrightarrow> stoppable ge (cfg_vcpus c vi)"
  shows "n \<le> NVCPUS \<Longrightarrow> \<exists>c'. hfold (exit_stop_vcpu ge gi) [0..<n] c = Inr c' \<and> exit_view c' = exit_view c \<and>
    (\<forall>i. (\<forall>k<n. g_vcpus (cfg_guests c gi) k \<noteq> Some i) \<longrightarrow> cfg_vcpus c' i = cfg_vcpus c i) \<and>
    (\<forall>k<n. \<forall>vi. g_vcpus (cfg_guests c gi) k = Some vi \<longrightarrow> at_rest (cfg_vcpus c' vi))"
proof (induction n)
  case (Suc n)
  then obtain d where d: "hfold (exit_stop_vcpu ge gi) [0..<n] c = Inr d" "exit_view d = exit_view c"
      "\<And>i. (\<forall>k<n. g_vcpus (cfg_guests c gi) k \<noteq> Some i) \<Longrightarrow> cfg_vcpus d i = cfg_vcpus c i"
      "\<And>k vi. k < n \<Longrightarrow> g_vcpus (cfg_guests c gi) k = Some vi \<Longrightarrow> at_rest (cfg_vcpus d vi)"
    by auto
  have gs: "g_vcpus (cfg_guests d gi) n = g_vcpus (cfg_guests c gi) n" using exit_viewD(1) [OF d(2)] by simp
  show ?case
  proof (cases "g_vcpus (cfg_guests c gi) n")
    case None
    then have "exit_stop_vcpu ge gi n d = Inr d" using gs by (simp add: exit_stop_vcpu_def)
    with d None show ?thesis by (auto simp: hfold_append less_Suc_eq)
  next
    case (Some vi)
    have only: "g_vcpus (cfg_guests c gi) k \<noteq> Some vi" if "k < n" for k
      using vcpus_ok_slot_unique(4) [OF assms(2,3) _ Some] vcpus_ok_slot_unique(4) [OF assms(2,3), of k vi] that Suc.prems by auto
    have "v_guest (cfg_vcpus d vi) = Some gi" "stoppable ge (cfg_vcpus d vi)"
      using d(3) [of vi] only vcpus_ok_slot_unique(3) [OF assms(2,3) _ Some] stop [OF _ Some] Suc.prems by auto
    then obtain e where e: "exit_stop_vcpu ge gi n d = Inr e" "exit_view e = exit_view d"
        "\<And>i. i \<noteq> vi \<Longrightarrow> cfg_vcpus e i = cfg_vcpus d i" "at_rest (cfg_vcpus e vi)"
      using exit_stop_vcpu_step [OF assms(1), of d gi n vi] gs Some by auto
    have "at_rest (cfg_vcpus e w)" if "k < n" "g_vcpus (cfg_guests c gi) k = Some w" for k w
      using d(4) [OF that] e(3) [of w] only [OF that(1)] that(2) by auto
    moreover have "cfg_vcpus e i = cfg_vcpus c i" if "\<forall>k<Suc n. g_vcpus (cfg_guests c gi) k \<noteq> Some i" for i
      using d(3) [of i] e(3) [of i] that Some by auto
    ultimately show ?thesis using d(1,2) e Some by (auto simp: hfold_append less_Suc_eq)
  qed
qed simp

subsection \<open>Shutting the channels\<close>

text \<open>
  What becomes of an endpoint: one in use loses its queues, and one that could receive
  starts afresh.
\<close>

definition ldc_shut :: "ldc_endpoint \<Rightarrow> ldc_endpoint" where
  "ldc_shut e = (if le_is_live e = 0 \<or> le_is_private e \<noteq> 0 then e
     else if le_rx_qsize e = 0 then e\<lparr> le_tx_qsize := 0 \<rparr>
     else reset_ldc_endpoint (e\<lparr> le_tx_qsize := 0, le_rx_qsize := 0 \<rparr>))"

text \<open>The other end of a channel in use to a guest is an endpoint of one.\<close>

definition peer_ok :: "ldc_endpoint \<Rightarrow> bool" where
  "peer_ok e \<longleftrightarrow> (le_is_live e \<noteq> 0 \<and> le_is_private e = 0 \<and> le_rx_qsize e \<noteq> 0 \<and> ucast (le_target_type e) = LDC_GUEST_ENDPOINT \<longrightarrow>
     (\<exists>t<NGUESTS. le_target_guest e = Some t) \<and> unat (le_target_channel e) < MAX_LDC_CHANNELS)"

definition same_statuses :: "config \<Rightarrow> config \<Rightarrow> bool" where
  "same_statuses c c' \<longleftrightarrow> (\<forall>i. v_status (cfg_vcpus c' i) = v_status (cfg_vcpus c i))"

lemma exit_view_guest: "exit_view (upd_guest gi f c) = apfst (upd_guest gi f) (exit_view c)"
  by (simp add: exit_view_def upd_defs)

lemma same_statuses_upd [simp]: "same_statuses c (upd_guest gi f c') \<longleftrightarrow> same_statuses c c'" "same_statuses (upd_guest gi f c) c' \<longleftrightarrow> same_statuses c c'"
    "same_statuses c c"
  by (simp_all add: same_statuses_def upd_defs)

lemma notify_peer_step:
  assumes "exit_env_ok ge" "t < NGUESTS" "le_target_guest e = Some t" "unat (le_target_channel e) < MAX_LDC_CHANNELS"
  shows "\<exists>c'. exit_notify_peer ge e c = Inr c' \<and> exit_view c' = exit_view c \<and> same_statuses c c'"
proof (cases "le_rx_pcpup (guest_ldc c t (unat (le_target_channel e)))")
  case None
  with assms show ?thesis by (simp add: exit_notify_peer_def Let_def hguard_def)
next
  case (Some vi)
  obtain v where "gx_notify ge vi t (unat (le_target_channel e)) c = Inr (upd_vcpu vi (\<lambda>_. v) c)"
      "vcpu_id v = vcpu_id (cfg_vcpus c vi)" "v_status v = v_status (cfg_vcpus c vi)"
    using assms(1) unfolding exit_env_ok_def by blast
  with assms Some show ?thesis
    by (simp add: exit_notify_peer_def Let_def hguard_def exit_view_upd) (simp add: same_statuses_def upd_defs)
qed

lemma upd_ldc_ep_simps:
  "guest_ldc (upd_ldc_ep gi i f c) gi i = f (guest_ldc c gi i)"
  "upd_ldc_ep gi i f (upd_ldc_ep gi i g c) = upd_ldc_ep gi i (\<lambda>e. f (g e)) c"
  by (simp_all add: upd_ldc_ep_def upd_defs)

lemma upd_ldc_ep_same: "f (guest_ldc c gi i) = g (guest_ldc c gi i) \<Longrightarrow> upd_ldc_ep gi i f c = upd_ldc_ep gi i g c"
  by (simp add: upd_ldc_ep_def upd_defs)

lemma exit_reset_ldc_step:
  assumes "exit_env_ok ge" "i < MAX_LDC_CHANNELS" "peer_ok (guest_ldc c gi i)"
  shows "\<exists>c'. exit_reset_ldc ge gi i c = Inr c' \<and> exit_view c' = exit_view (upd_ldc_ep gi i ldc_shut c) \<and> same_statuses c c'"
proof -
  let ?e = "guest_ldc c gi i"
  let ?d = "upd_ldc_ep gi i (\<lambda>e. e\<lparr> le_tx_qsize := 0, le_rx_qsize := 0 \<rparr>) c"
  consider (idle) "le_is_live ?e = 0 \<or> le_is_private ?e \<noteq> 0" | (tx) "le_is_live ?e \<noteq> 0" "le_is_private ?e = 0" "le_rx_qsize ?e = 0"
    | (rx) "le_is_live ?e \<noteq> 0" "le_is_private ?e = 0" "le_rx_qsize ?e \<noteq> 0" by blast
  then show ?thesis
  proof cases
    case idle
    then have "upd_ldc_ep gi i ldc_shut c = c" by (auto simp: upd_ldc_ep_def upd_defs ldc_shut_def)
    with idle assms(2) show ?thesis by (simp add: exit_reset_ldc_def hguard_def)
  next
    case tx
    then have "exit_reset_ldc ge gi i c = Inr (upd_ldc_ep gi i (\<lambda>e. e\<lparr> le_tx_qsize := 0 \<rparr>) c)"
      using assms(2) by (simp add: exit_reset_ldc_def hguard_def)
    moreover have "upd_ldc_ep gi i ldc_shut c = upd_ldc_ep gi i (\<lambda>e. e\<lparr> le_tx_qsize := 0 \<rparr>) c"
      by (rule upd_ldc_ep_same) (simp add: ldc_shut_def tx)
    ultimately show ?thesis by (simp add: upd_ldc_ep_def)
  next
    case rx
    have "\<exists>c'. (if ucast (le_target_type ?e) = LDC_GUEST_ENDPOINT then exit_notify_peer ge (guest_ldc ?d gi i) ?d else Inr ?d) = Inr c' \<and>
        exit_view c' = exit_view ?d \<and> same_statuses ?d c'"
    proof (cases "ucast (le_target_type ?e) = LDC_GUEST_ENDPOINT")
      case True
      with assms(3) rx obtain t where "t < NGUESTS" "le_target_guest ?e = Some t" "unat (le_target_channel ?e) < MAX_LDC_CHANNELS"
        by (auto simp: peer_ok_def)
      then show ?thesis using True notify_peer_step [OF assms(1), of t "guest_ldc ?d gi i" ?d]
        by (simp add: upd_ldc_ep_simps(1))
    qed simp
    then obtain c' where c': "(if ucast (le_target_type ?e) = LDC_GUEST_ENDPOINT then exit_notify_peer ge (guest_ldc ?d gi i) ?d else Inr ?d) = Inr c'"
        "exit_view c' = exit_view ?d" "same_statuses ?d c'" by blast
    have "upd_ldc_ep gi i (\<lambda>e. e\<lparr> le_rx_qsize := 0 \<rparr>) (upd_ldc_ep gi i (\<lambda>e. e\<lparr> le_tx_qsize := 0 \<rparr>) c) = ?d"
      by (rule upd_ldc_ep_simps)
    then have "exit_reset_ldc ge gi i c = Inr (upd_ldc_ep gi i reset_ldc_endpoint c')"
      using rx assms(2) c'(1) by (simp only: exit_reset_ldc_def hguard_def Let_def if_True if_False simp_thms hbind_Inr)
    moreover have "exit_view (upd_ldc_ep gi i reset_ldc_endpoint c') = exit_view (upd_ldc_ep gi i reset_ldc_endpoint ?d)"
      using c'(2) unfolding upd_ldc_ep_def [of gi i reset_ldc_endpoint] exit_view_guest by simp
    moreover have "upd_ldc_ep gi i reset_ldc_endpoint ?d = upd_ldc_ep gi i ldc_shut c"
      unfolding upd_ldc_ep_simps(2) by (rule upd_ldc_ep_same) (simp add: ldc_shut_def rx)
    moreover have "same_statuses c (upd_ldc_ep gi i reset_ldc_endpoint c')" using c'(3) by (simp add: upd_ldc_ep_def)
    ultimately show ?thesis by simp
  qed
qed

definition shut_upto :: "nat \<Rightarrow> nat \<Rightarrow> config \<Rightarrow> config" where
  "shut_upto gi n c = upd_guest gi (\<lambda>g. g\<lparr> g_ldc_endpoint := (\<lambda>k. if k < n then ldc_shut (g_ldc_endpoint g k) else g_ldc_endpoint g k) \<rparr>) c"

lemma shut_upto_Suc: "upd_ldc_ep gi n ldc_shut (shut_upto gi n c) = shut_upto gi (Suc n) c" "shut_upto gi 0 c = c"
  by (auto simp: shut_upto_def upd_ldc_ep_def upd_defs fun_eq_iff less_Suc_eq intro!: arg_cong [where f = "\<lambda>x. cfg_guests_update x c"])

lemma exit_reset_all:
  assumes "exit_env_ok ge" "\<And>i. i < n \<Longrightarrow> peer_ok (guest_ldc c gi i)"
  shows "n \<le> MAX_LDC_CHANNELS \<Longrightarrow> \<exists>c'. hfold (exit_reset_ldc ge gi) [0..<n] c = Inr c' \<and>
    exit_view c' = exit_view (shut_upto gi n c) \<and> same_statuses c c'"
  using assms(2)
proof (induction n)
  case (Suc n)
  then obtain d where d: "hfold (exit_reset_ldc ge gi) [0..<n] c = Inr d" "exit_view d = exit_view (shut_upto gi n c)" "same_statuses c d"
    by auto
  have "guest_ldc d gi n = guest_ldc c gi n" using exit_viewD(1) [OF d(2)] by (simp add: shut_upto_def upd_defs)
  then obtain e where e: "exit_reset_ldc ge gi n d = Inr e" "exit_view e = exit_view (upd_ldc_ep gi n ldc_shut d)" "same_statuses d e"
    using exit_reset_ldc_step [OF assms(1), of n d gi] Suc.prems by auto
  have "exit_view e = exit_view (shut_upto gi (Suc n) c)"
    unfolding e(2) shut_upto_Suc(1) [symmetric] upd_ldc_ep_def exit_view_guest d(2) ..
  with d e show ?case by (simp add: hfold_append) (simp add: same_statuses_def)
qed (simp add: shut_upto_Suc)

subsection \<open>The exit\<close>

lemma tell_keeps:
  assumes "unat (cfg_hvctl_ldc c) < MAX_HV_LDC_CHANNELS"
  shows "\<exists>c'. exit_tell gi c = Inr c' \<and> g_state (cfg_guests c' gi) = g_state (cfg_guests c gi) \<and>
    g_ldc_endpoint (cfg_guests c' gi) = g_ldc_endpoint (cfg_guests c gi) \<and> g_vcpus (cfg_guests c' gi) = g_vcpus (cfg_guests c gi) \<and>
    (\<forall>g. g \<noteq> gi \<longrightarrow> cfg_guests c' g = cfg_guests c g) \<and> cfg_vcpus c' = cfg_vcpus c \<and> cfg_del_reconf_lock c' = cfg_del_reconf_lock c"
  using assms by (auto simp: exit_tell_def hguard_def guest_state_notify_def Let_def c_hvldc_send_def async_start_def upd_defs)

text \<open>What an exit finds: the guest's vcpus can be stopped, and its channels lead somewhere.\<close>

definition exit_ready :: "exit_env \<Rightarrow> nat \<Rightarrow> config \<Rightarrow> bool" where
  "exit_ready ge gi c \<longleftrightarrow> vcpus_ok c \<and> gi < NGUESTS \<and>
     (\<forall>k<NVCPUS. \<forall>vi. g_vcpus (cfg_guests c gi) k = Some vi \<longrightarrow> stoppable ge (cfg_vcpus c vi)) \<and>
     unat (g_ldc_max_channel_idx (cfg_guests c gi)) \<le> MAX_LDC_CHANNELS \<and>
     (\<forall>j<unat (g_ldc_max_channel_idx (cfg_guests c gi)). peer_ok (guest_ldc c gi j)) \<and>
     unat (cfg_hvctl_ldc c) < MAX_HV_LDC_CHANNELS \<and> \<not> cfg_del_reconf_lock c"

text \<open>The two loops, the same for an exit and for a reset.\<close>

lemma exit_loops:
  assumes "exit_env_ok ge" "exit_ready ge gi c"
  defines "n \<equiv> unat (g_ldc_max_channel_idx (cfg_guests c gi))"
  shows "\<exists>d c'. hfold (exit_stop_vcpu ge gi) [0..<NVCPUS] c = Inr d \<and>
    hfold (exit_reset_ldc ge gi) [0..<unat (g_ldc_max_channel_idx (cfg_guests d gi))] d = Inr c' \<and>
    exit_view c' = exit_view (shut_upto gi n c) \<and>
    (\<forall>k<NVCPUS. \<forall>vi. g_vcpus (cfg_guests c gi) k = Some vi \<longrightarrow> at_rest (cfg_vcpus c' vi)) \<and>
    (\<forall>i. v_guest (cfg_vcpus c i) \<noteq> Some gi \<longrightarrow> v_status (cfg_vcpus c' i) = v_status (cfg_vcpus c i))"
proof -
  have ready: "vcpus_ok c" "gi < NGUESTS" "n \<le> MAX_LDC_CHANNELS" "\<And>j. j < n \<Longrightarrow> peer_ok (guest_ldc c gi j)"
    using assms(2) unfolding n_def by (auto simp: exit_ready_def)
  obtain d where d: "hfold (exit_stop_vcpu ge gi) [0..<NVCPUS] c = Inr d" "exit_view d = exit_view c"
      "\<And>i. (\<forall>k<NVCPUS. g_vcpus (cfg_guests c gi) k \<noteq> Some i) \<Longrightarrow> cfg_vcpus d i = cfg_vcpus c i"
      "\<And>k vi. k < NVCPUS \<Longrightarrow> g_vcpus (cfg_guests c gi) k = Some vi \<Longrightarrow> at_rest (cfg_vcpus d vi)"
    using exit_stop_all [OF assms(1) ready(1,2), of NVCPUS] assms(2) by (auto simp: exit_ready_def)
  obtain e where e: "hfold (exit_reset_ldc ge gi) [0..<n] d = Inr e" "exit_view e = exit_view (shut_upto gi n d)" "same_statuses d e"
    using exit_reset_all [OF assms(1), of n d gi] ready(3,4) exit_viewD(1) [OF d(2)] by auto
  have "exit_view e = exit_view (shut_upto gi n c)" unfolding e(2) shut_upto_def exit_view_guest d(2) ..
  moreover have "v_status (cfg_vcpus e i) = v_status (cfg_vcpus c i)" if "v_guest (cfg_vcpus c i) \<noteq> Some gi" for i
  proof -
    have "cfg_vcpus d i = cfg_vcpus c i"
      by (rule d(3)) (use that vcpus_ok_slot_unique(3) [OF ready(1,2), of _ i] in blast)
    with e(3) show ?thesis by (simp add: same_statuses_def)
  qed
  moreover have "at_rest (cfg_vcpus e vi)" if "k < NVCPUS" "g_vcpus (cfg_guests c gi) k = Some vi" for k vi
    using d(4) [OF that] e(3) by (simp add: same_statuses_def at_rest_def)
  ultimately show ?thesis using d(1) e(1) exit_viewD(1) [OF d(2)] by (auto simp: n_def)
qed

text \<open>
  C24. An exit completes.  Take an exit that is no reset, of a guest for which no delayed
  reconfiguration waits.  Its vcpus on other strands may be in any state a configured vcpu has, also
  in error or in a transition; one on the own strand has to be running, stopped or suspended, as
  the code asserts.  When the other strands and the assembler layer do what \<open>exit_env_ok\<close> says,
  \<open>c_guest_exit\<close> returns with status ok: the guest is stopped, each of its vcpus is stopped or in error, its channels are shut, and neither
  the other guests nor the status of their vcpus have changed.
\<close>

theorem guest_exit_completes:
  assumes "exit_env_ok ge" "exit_ready ge gi c" "g_state (cfg_guests c gi) = GUEST_STATE_EXITING"
    and "cfg_del_reconf_gid c \<noteq> g_guestid (cfg_guests c gi)"
  shows "\<exists>c'. c_guest_exit ge gi GUEST_EXIT_MACH_EXIT c = Inr (HVctl_st_ok, c') \<and>
    g_state (cfg_guests c' gi) = GUEST_STATE_STOPPED \<and>
    g_vcpus (cfg_guests c' gi) = g_vcpus (cfg_guests c gi) \<and>
    (\<forall>k<NVCPUS. \<forall>vi. g_vcpus (cfg_guests c gi) k = Some vi \<longrightarrow> at_rest (cfg_vcpus c' vi)) \<and>
    (\<forall>j<unat (g_ldc_max_channel_idx (cfg_guests c gi)). guest_ldc c' gi j = ldc_shut (guest_ldc c gi j)) \<and>
    (\<forall>g. g \<noteq> gi \<longrightarrow> cfg_guests c' g = cfg_guests c g) \<and>
    (\<forall>i. v_guest (cfg_vcpus c i) \<noteq> Some gi \<longrightarrow> v_status (cfg_vcpus c' i) = v_status (cfg_vcpus c i)) \<and>
    \<not> cfg_del_reconf_lock c'"
proof -
  let ?n = "unat (g_ldc_max_channel_idx (cfg_guests c gi))"
  obtain d e where d: "hfold (exit_stop_vcpu ge gi) [0..<NVCPUS] c = Inr d"
      and e: "hfold (exit_reset_ldc ge gi) [0..<unat (g_ldc_max_channel_idx (cfg_guests d gi))] d = Inr e"
        "exit_view e = exit_view (shut_upto gi ?n c)"
      and rest: "\<And>k vi. k < NVCPUS \<Longrightarrow> g_vcpus (cfg_guests c gi) k = Some vi \<Longrightarrow> at_rest (cfg_vcpus e vi)"
      and others: "\<And>i. v_guest (cfg_vcpus c i) \<noteq> Some gi \<Longrightarrow> v_status (cfg_vcpus e i) = v_status (cfg_vcpus c i)"
    using exit_loops [OF assms(1,2)] by blast
  note ev = exit_viewD(1,6,7,8) [OF e(2)]
  let ?f = "set_guest_state gi GUEST_STATE_STOPPED e"
  have ge: "cfg_guests ?f = (cfg_guests (shut_upto gi ?n c))(gi := (cfg_guests (shut_upto gi ?n c) gi)\<lparr> g_state := GUEST_STATE_STOPPED \<rparr>)"
    "cfg_vcpus ?f = cfg_vcpus e" "cfg_del_reconf_lock ?f = False" "cfg_del_reconf_gid ?f = cfg_del_reconf_gid c" "cfg_hvctl_ldc ?f = cfg_hvctl_ldc c"
    using assms(2) ev by (simp_all add: set_guest_state_def upd_defs shut_upto_def exit_ready_def)
  have "exit_reconfig gi ?f = Inr (?f\<lparr> cfg_del_reconf_lock := False \<rparr>)"
    using assms(4) ge(1,3,4) by (simp add: exit_reconfig_def del_reconf_enter_def del_reconf_exit_def shut_upto_def upd_defs)
  moreover obtain t where t: "exit_tell gi (?f\<lparr> cfg_del_reconf_lock := False \<rparr>) = Inr t"
      "g_state (cfg_guests t gi) = GUEST_STATE_STOPPED" "\<And>j. guest_ldc t gi j = guest_ldc (shut_upto gi ?n c) gi j"
      "g_vcpus (cfg_guests t gi) = g_vcpus (cfg_guests c gi)" "\<And>g. g \<noteq> gi \<Longrightarrow> cfg_guests t g = cfg_guests c g"
      "cfg_vcpus t = cfg_vcpus e" "\<not> cfg_del_reconf_lock t"
    using tell_keeps [of "?f\<lparr> cfg_del_reconf_lock := False \<rparr>" gi] assms(2) ge
    by (auto simp: exit_ready_def shut_upto_def upd_defs)
  ultimately have "c_guest_exit ge gi GUEST_EXIT_MACH_EXIT c = Inr (HVctl_st_ok, t)"
    using d e(1) assms(3) by (simp add: c_guest_exit_def hassert_def Let_def GUEST_EXIT_MACH_EXIT_def GUEST_EXIT_MACH_SIR_def)
  then show ?thesis using t rest others by (auto simp: shut_upto_def upd_defs)
qed

text \<open>An environment that does what the code relies on.\<close>

definition exit_env0 :: exit_env where
  "exit_env0 = \<lparr> gx_strand = 6, gx_stop = (\<lambda>vi c. Inr (upd_vcpu vi (\<lambda>v. v\<lparr> v_status := CPU_STATE_STOPPED \<rparr>) c)),
     gx_wait = (\<lambda>vi c. Some ((cfg_vcpus c vi)\<lparr> v_status := CPU_STATE_STOPPED \<rparr>)),
     gx_notify = (\<lambda>vi t j c. Inr (upd_vcpu vi (\<lambda>_. cfg_vcpus c vi) c)) \<rparr>"

lemma exit_env0_ok: "exit_env_ok exit_env0"
proof -
  have "exit_view (upd_vcpu vi (\<lambda>v. v\<lparr> v_status := CPU_STATE_STOPPED \<rparr>) c) = exit_view c" for vi c
    by (auto simp: exit_view_def upd_defs vcpu_id_def)
  then show ?thesis
    by (auto simp: exit_env_ok_def exit_env0_def at_rest_def vcpu_id_def) (simp_all add: upd_vcpu_def)
qed

text \<open>
  Guest 0 is exiting with a running vcpu on the own strand, another that is starting on
  strand 7, and a channel to guest 1.
\<close>

definition exit_config :: "u64 \<Rightarrow> config" where
  "exit_config gid = config_zero\<lparr> cfg_guests := (\<lambda>_. guest_zero)(0 := guest_zero\<lparr> g_state := GUEST_STATE_EXITING,
       g_vcpus := [0 \<mapsto> 3, 1 \<mapsto> 4], g_ldc_max_channel_idx := 1,
       g_ldc_endpoint := (\<lambda>_. ldc_endpoint_zero)(0 := ldc_endpoint_zero\<lparr> le_is_live := 1, le_tx_qsize := 64, le_rx_qsize := 64,
         le_target_type := ucast LDC_GUEST_ENDPOINT, le_target_guest := Some 1, le_target_channel := 5 \<rparr>) \<rparr>),
     cfg_vcpus := (\<lambda>_. vcpu_zero\<lparr> v_status := CPU_STATE_UNCONFIGURED \<rparr>)
       (3 := vcpu_zero\<lparr> v_guest := Some 0, v_strand := Some 6, v_vid := 0, v_status := CPU_STATE_RUNNING \<rparr>,
        4 := vcpu_zero\<lparr> v_guest := Some 0, v_strand := Some 7, v_vid := 1, v_status := CPU_STATE_STARTING \<rparr>),
     cfg_del_reconf_gid := gid, cfg_parse_hvmd := 0x2000 \<rparr>"

lemma exit_config_ready: "exit_ready exit_env0 0 (exit_config gid)"
proof -
  have "vcpus_ok (exit_config gid)"
    by (auto simp: vcpus_ok_def vcpu_bound_def vcpu_slot_ok_def exit_config_def config_zero_def vcpu_zero_def guest_zero_def
      NVCPUS_def NGUESTS_def RESF_Config_def cpu_states)
  moreover have "stoppable exit_env0 (cfg_vcpus (exit_config gid) 3)" "stoppable exit_env0 (cfg_vcpus (exit_config gid) 4)"
    by (simp_all add: stoppable_def exit_config_def exit_env0_def may_stop_def NSTRANDS_def)
  ultimately show ?thesis
    by (simp add: exit_ready_def) (auto simp: exit_config_def config_zero_def guest_zero_def peer_ok_def NGUESTS_def
      MAX_LDC_CHANNELS_def MAX_HV_LDC_CHANNELS_def split: if_splits)
qed

theorem guest_exit_completes_witness:
  "\<exists>c'. c_guest_exit exit_env0 0 GUEST_EXIT_MACH_EXIT (exit_config INVALID_GID) = Inr (HVctl_st_ok, c') \<and>
     g_state (cfg_guests c' 0) = GUEST_STATE_STOPPED \<and> at_rest (cfg_vcpus c' 3) \<and> at_rest (cfg_vcpus c' 4) \<and>
     le_rx_qsize (guest_ldc c' 0 0) = 0 \<and> cfg_guests c' 1 = cfg_guests (exit_config INVALID_GID) 1"
proof -
  have "g_state (cfg_guests (exit_config INVALID_GID) 0) = GUEST_STATE_EXITING"
      "cfg_del_reconf_gid (exit_config INVALID_GID) \<noteq> g_guestid (cfg_guests (exit_config INVALID_GID) 0)"
    by (simp_all add: exit_config_def guest_zero_def INVALID_GID_def)
  from guest_exit_completes [OF exit_env0_ok exit_config_ready this] obtain c' where
      c': "c_guest_exit exit_env0 0 GUEST_EXIT_MACH_EXIT (exit_config INVALID_GID) = Inr (HVctl_st_ok, c')"
        "g_state (cfg_guests c' 0) = GUEST_STATE_STOPPED"
      and rest: "\<And>k vi. k < NVCPUS \<Longrightarrow> g_vcpus (cfg_guests (exit_config INVALID_GID) 0) k = Some vi \<Longrightarrow> at_rest (cfg_vcpus c' vi)"
      and chan: "\<And>j. j < unat (g_ldc_max_channel_idx (cfg_guests (exit_config INVALID_GID) 0)) \<Longrightarrow>
        guest_ldc c' 0 j = ldc_shut (guest_ldc (exit_config INVALID_GID) 0 j)"
      and other: "\<And>g. g \<noteq> 0 \<Longrightarrow> cfg_guests c' g = cfg_guests (exit_config INVALID_GID) g"
    by blast
  have "at_rest (cfg_vcpus c' 3)" by (rule rest [of 0]) (simp_all add: NVCPUS_def exit_config_def)
  moreover have "at_rest (cfg_vcpus c' 4)" by (rule rest [of 1]) (simp_all add: NVCPUS_def exit_config_def)
  moreover have "le_rx_qsize (guest_ldc c' 0 0) = 0"
    using chan [of 0] by (simp add: exit_config_def ldc_shut_def reset_ldc_endpoint_def ldc_endpoint_zero_def)
  ultimately show ?thesis using c' other [of 1] by simp
qed

lemma tell_idle:
  assumes "exit_tell gi c = Inr c'"
  shows "flag_of c' r = flag_of c r" "control_part (c'\<lparr> cfg_ldc_log := [] \<rparr>) = control_part (c\<lparr> cfg_ldc_log := [] \<rparr>)"
proof -
  show "flag_of c' r = flag_of c r"
    using assms by (cases r; auto simp: exit_tell_def hguard_def guest_state_notify_def Let_def c_hvldc_send_def async_start_def
        upd_defs split: if_splits)
  show "control_part (c'\<lparr> cfg_ldc_log := [] \<rparr>) = control_part (c\<lparr> cfg_ldc_log := [] \<rparr>)"
    using assms by (auto simp: exit_tell_def hguard_def guest_state_notify_def Let_def c_hvldc_send_def async_start_def
        upd_defs control_part_def split: if_splits)
qed

lemma commit_of_exit:
  assumes "commit_reconfig c = Inr d" "exit_tell gi (del_reconf_exit (d\<lparr> cfg_del_reconf_gid := INVALID_GID \<rparr>)) = Inr c'"
  shows "(\<forall>r. inst_ok r \<longrightarrow> flag_of c' r \<notin> {RESF_Unconfig, RESF_Config, RESF_Rebind, RESF_Modify}) \<and>
    cfg_active_hvmd c' = cfg_parse_hvmd c \<and> cfg_del_reconf_gid c' = INVALID_GID \<and> \<not> cfg_del_reconf_lock c'"
proof -
  let ?e = "del_reconf_exit (d\<lparr> cfg_del_reconf_gid := INVALID_GID \<rparr>)"
  have fl: "flag_of ?e r = flag_of d r" for r by (cases r) (simp_all add: del_reconf_exit_def)
  note cp = tell_idle(2) [OF assms(2)]
  from arg_cong [OF cp, where f = cfg_active_hvmd] arg_cong [OF cp, where f = cfg_del_reconf_gid] arg_cong [OF cp, where f = cfg_del_reconf_lock]
  have "cfg_active_hvmd c' = cfg_active_hvmd d" "cfg_del_reconf_gid c' = INVALID_GID" "\<not> cfg_del_reconf_lock c'"
    by (simp_all add: control_part_def del_reconf_exit_def)
  then show ?thesis
    using commit_no_pending [OF assms(1)] commit_accepts(1) [OF assms(1)] tell_idle(1) [OF assms(2)] fl by simp
qed

text \<open>What a returning exit of a guest went through.\<close>

lemma exit_returns:
  assumes "exit_env_ok ge" "exit_ready ge gi c" "g_state (cfg_guests c gi) = GUEST_STATE_EXITING"
    and "cfg_del_reconf_gid c = g_guestid (cfg_guests c gi)"
  obtains e where "exit_view e = exit_view (shut_upto gi (unat (g_ldc_max_channel_idx (cfg_guests c gi))) c)"
    "c_guest_exit ge gi GUEST_EXIT_MACH_EXIT c =
       hbind (commit_reconfig ((set_guest_state gi GUEST_STATE_STOPPED e)\<lparr> cfg_del_reconf_lock := True \<rparr>)) (\<lambda>d.
         hbind (exit_tell gi (del_reconf_exit (d\<lparr> cfg_del_reconf_gid := INVALID_GID \<rparr>))) (\<lambda>c. Inr (HVctl_st_ok, c)))"
proof -
  obtain d e where d: "hfold (exit_stop_vcpu ge gi) [0..<NVCPUS] c = Inr d"
      and e: "hfold (exit_reset_ldc ge gi) [0..<unat (g_ldc_max_channel_idx (cfg_guests d gi))] d = Inr e"
        "exit_view e = exit_view (shut_upto gi (unat (g_ldc_max_channel_idx (cfg_guests c gi))) c)"
    using exit_loops [OF assms(1,2)] by blast
  let ?f = "set_guest_state gi GUEST_STATE_STOPPED e"
  have "cfg_del_reconf_gid ?f = g_guestid (cfg_guests ?f gi)" "\<not> cfg_del_reconf_lock ?f"
    using exit_viewD(1,7,8) [OF e(2)] assms(2,4) by (simp_all add: set_guest_state_def upd_defs shut_upto_def exit_ready_def)
  then have "exit_reconfig gi ?f = hbind (commit_reconfig (?f\<lparr> cfg_del_reconf_lock := True \<rparr>))
      (\<lambda>d. Inr (del_reconf_exit (d\<lparr> cfg_del_reconf_gid := INVALID_GID \<rparr>)))"
    by (simp add: exit_reconfig_def del_reconf_enter_def hbind_assoc)
  then have "c_guest_exit ge gi GUEST_EXIT_MACH_EXIT c =
       hbind (commit_reconfig (?f\<lparr> cfg_del_reconf_lock := True \<rparr>)) (\<lambda>d.
         hbind (exit_tell gi (del_reconf_exit (d\<lparr> cfg_del_reconf_gid := INVALID_GID \<rparr>))) (\<lambda>c. Inr (HVctl_st_ok, c)))"
    using d e(1) assms(3) by (simp add: c_guest_exit_def hassert_def Let_def GUEST_EXIT_MACH_EXIT_def GUEST_EXIT_MACH_SIR_def hbind_assoc)
  with e(2) show ?thesis by (rule that)
qed

text \<open>
  C25. A delayed reconfiguration is carried out by the exit it waits for.  When the guest
  named by the record of the delayed reconfiguration exits, \<open>c_guest_exit\<close> returns only with
  no resource left to configure, unconfigure, rebind or modify, with the description that
  was parsed as the active one, with the record cleared and with its lock released.
\<close>

theorem guest_exit_commits:
  assumes "exit_env_ok ge" "exit_ready ge gi c" "g_state (cfg_guests c gi) = GUEST_STATE_EXITING"
    and "cfg_del_reconf_gid c = g_guestid (cfg_guests c gi)" "c_guest_exit ge gi GUEST_EXIT_MACH_EXIT c = Inr (st, c')"
  shows "(\<forall>r. inst_ok r \<longrightarrow> flag_of c' r \<notin> {RESF_Unconfig, RESF_Config, RESF_Rebind, RESF_Modify}) \<and>
    cfg_active_hvmd c' = cfg_parse_hvmd c \<and> cfg_del_reconf_gid c' = INVALID_GID \<and> \<not> cfg_del_reconf_lock c'"
proof -
  obtain e where e: "exit_view e = exit_view (shut_upto gi (unat (g_ldc_max_channel_idx (cfg_guests c gi))) c)"
    "c_guest_exit ge gi GUEST_EXIT_MACH_EXIT c =
       hbind (commit_reconfig ((set_guest_state gi GUEST_STATE_STOPPED e)\<lparr> cfg_del_reconf_lock := True \<rparr>)) (\<lambda>d.
         hbind (exit_tell gi (del_reconf_exit (d\<lparr> cfg_del_reconf_gid := INVALID_GID \<rparr>))) (\<lambda>c. Inr (HVctl_st_ok, c)))"
    by (rule exit_returns [OF assms(1-4)])
  with assms(5) obtain d where d: "commit_reconfig ((set_guest_state gi GUEST_STATE_STOPPED e)\<lparr> cfg_del_reconf_lock := True \<rparr>) = Inr d"
      "exit_tell gi (del_reconf_exit (d\<lparr> cfg_del_reconf_gid := INVALID_GID \<rparr>)) = Inr c'"
    by (auto simp: hbind_eq_Inr)
  have "cfg_parse_hvmd e = cfg_parse_hvmd c"
    using arg_cong [OF e(1), where f = "cfg_parse_hvmd \<circ> fst"] by (simp add: exit_view_def shut_upto_def upd_defs)
  then show ?thesis using commit_of_exit [OF d] by (simp add: set_guest_state_def upd_defs)
qed

text \<open>Guest 0 of \<open>exit_config\<close> is the one the record names; nothing is left to be done by the commit.\<close>

lemma exit_view_flags:
  assumes "exit_view c' = exit_view c"
  shows "flag_of c' r = flag_of c r"
proof -
  have "cfg_mblocks c' = cfg_mblocks c" using arg_cong [OF assms, where f = "cfg_mblocks \<circ> fst"] by (simp add: exit_view_def)
  moreover have "v_pip (cfg_vcpus c' i) = v_pip (cfg_vcpus c i)" for i
    using exit_viewD(2) [OF assms, of i] by (simp add: vcpu_id_def)
  ultimately show ?thesis using exit_viewD(1,5,10) [OF assms] by (cases r) simp_all
qed

lemma exit_config_idle: "flag_of (shut_upto 0 n (exit_config gid)) r = RESF_Noop"
  by (cases r) (auto simp: shut_upto_def exit_config_def config_zero_def guest_zero_def guest_parse_info_zero_def mblock_zero_def
      vcpu_zero_def ldc_endpoint_zero_def ldce_parse_zero_def console_zero_def mau_zero_def RESF_Noop_def upd_defs ldc_shut_def
      reset_ldc_endpoint_def)

theorem guest_exit_commits_witness:
  "\<exists>c'. c_guest_exit exit_env0 0 GUEST_EXIT_MACH_EXIT (exit_config 0) = Inr (HVctl_st_ok, c') \<and>
     cfg_active_hvmd c' = 0x2000 \<and> cfg_del_reconf_gid c' = INVALID_GID \<and> \<not> cfg_del_reconf_lock c'"
proof -
  have st: "g_state (cfg_guests (exit_config 0) 0) = GUEST_STATE_EXITING"
      "cfg_del_reconf_gid (exit_config 0) = g_guestid (cfg_guests (exit_config 0) 0)"
    by (simp_all add: exit_config_def guest_zero_def)
  obtain e where e: "exit_view e = exit_view (shut_upto 0 (unat (g_ldc_max_channel_idx (cfg_guests (exit_config 0) 0))) (exit_config 0))"
    "c_guest_exit exit_env0 0 GUEST_EXIT_MACH_EXIT (exit_config 0) =
       hbind (commit_reconfig ((set_guest_state 0 GUEST_STATE_STOPPED e)\<lparr> cfg_del_reconf_lock := True \<rparr>)) (\<lambda>d.
         hbind (exit_tell 0 (del_reconf_exit (d\<lparr> cfg_del_reconf_gid := INVALID_GID \<rparr>))) (\<lambda>c. Inr (HVctl_st_ok, c)))"
    by (rule exit_returns [OF exit_env0_ok exit_config_ready st])
  let ?f = "(set_guest_state 0 GUEST_STATE_STOPPED e)\<lparr> cfg_del_reconf_lock := True \<rparr>"
  have "flag_of ?f r = flag_of e r" for r by (cases r) (simp_all add: set_guest_state_def upd_defs)
  then have idle: "flag_of ?f r = RESF_Noop" for r using exit_view_flags [OF e(1), of r] exit_config_idle by simp
  have "commit_phase fl rs ?f = Inr ?f" if "fl \<noteq> RESF_Noop" "set rs \<subseteq> set resource_info" for fl rs
    by (rule phase_skip) (use idle that in auto)
  moreover have "RESF_Unconfig \<noteq> RESF_Noop" "RESF_Config \<noteq> RESF_Noop" "RESF_Rebind \<noteq> RESF_Noop" "RESF_Modify \<noteq> RESF_Noop"
    by (simp_all add: RESF_Noop_def RESF_Unconfig_def RESF_Config_def RESF_Rebind_def RESF_Modify_def)
  ultimately have commit: "commit_reconfig ?f = Inr (accept_hvmd ?f)" by (simp add: commit_reconfig_def)
  have "unat (cfg_hvctl_ldc (del_reconf_exit ((accept_hvmd ?f)\<lparr> cfg_del_reconf_gid := INVALID_GID \<rparr>))) < MAX_HV_LDC_CHANNELS"
    using exit_viewD(6) [OF e(1)]
    by (simp add: del_reconf_exit_def accept_hvmd_def set_guest_state_def upd_defs shut_upto_def exit_config_def config_zero_def MAX_HV_LDC_CHANNELS_def)
  from tell_keeps [OF this] obtain c' where
    "exit_tell 0 (del_reconf_exit ((accept_hvmd ?f)\<lparr> cfg_del_reconf_gid := INVALID_GID \<rparr>)) = Inr c'" by blast
  then have c': "c_guest_exit exit_env0 0 GUEST_EXIT_MACH_EXIT (exit_config 0) = Inr (HVctl_st_ok, c')"
    unfolding e(2) by (simp add: commit)
  have "cfg_parse_hvmd (exit_config 0) = 0x2000" by (simp add: exit_config_def)
  with c' guest_exit_commits [OF exit_env0_ok exit_config_ready st c'] show ?thesis by auto
qed

end
