(* ===== verification/Boot.thy ===== *)
theory Boot
  imports Guest_Exit
begin

text \<open>
  Power on (\<open>c_start\<close> in \<open>init.c\<close>, and the \<open>config_\<close> functions of \<open>reconf.c\<close>): the first
  configuration is built from the boot description by functions of its own, which
  abort where a reconfiguration would report an error; memory, consoles and crypto units
  already go through the functions of reconfiguration.

  The build is that of the Piton (\<open>ontario/t1_fpga\<close>: \<open>PITON_NET\<close>, \<open>CONFIG_DISK\<close>,
  \<open>CONFIG_SVC\<close>, \<open>CONFIG_HVUART\<close>, \<open>CONFIG_CRYPTO\<close>, \<open>SIMULATION\<close>).  Relocating pointers, the
  dummy TSB, clearing spinlocks and \<open>sram_erpt_buf_inuse\<close> are left out.

  Shown here: what \<open>init_hv_internals\<close> establishes, and that a virtual cpu configured at
  power on is the one a reconfiguration would have configured.
\<close>

subsection \<open>Basics\<close>

definition CYCLIC_MAX_DAYS :: u64 where "CYCLIC_MAX_DAYS = 367"
definition seconds_per_day :: u64 where "seconds_per_day = 24 * 60 * 60"
definition MEMSCRUB_MAX_DEFAULT :: u64 where "MEMSCRUB_MAX_DEFAULT = drop_bit 6 (4 * 1024 * 1024)"

text \<open>\<open>if (!md_node_get_val(...)) c_hvabort();\<close>\<close>

definition need_prop :: "bin_md \<Rightarrow> nat \<Rightarrow> u64 \<Rightarrow> (u64 \<Rightarrow> 'a hv) \<Rightarrow> 'a hv" where
  "need_prop md nodep tok k = md_prop md nodep tok (Inl Hv_abort) k"

definition upd_basics :: "(hv_basics \<Rightarrow> hv_basics) \<Rightarrow> config \<Rightarrow> config" where
  "upd_basics f c = c\<lparr> cfg_basics := f (cfg_basics c) \<rparr>"

definition basics_time :: "bin_md \<Rightarrow> nat \<Rightarrow> config \<Rightarrow> config hv" where
  "basics_time md rootnodep c =
     md_prop_or md rootnodep (MDNAME c ''hvuart'') 0 (\<lambda>uart.
     md_prop_or md rootnodep (MDNAME c ''tod'') 0 (\<lambda>tod.
     md_prop_or md rootnodep (MDNAME c ''todfrequency'') 1 (\<lambda>todfrequency.
     md_prop_or md rootnodep (MDNAME c ''stickfrequency'') 0 (\<lambda>stick.
     md_prop_or md rootnodep (MDNAME c ''sys_hwtw_mode'') (- 1) (\<lambda>mode.
     md_prop_or md rootnodep (MDNAME c ''cepollsec'') 30 (\<lambda>poll.
     Inr (upd_basics (\<lambda>b. b\<lparr> hb_hvuart_addr := uart, hb_tod := tod, hb_todfrequency := todfrequency, hb_stickfrequency := stick,
       hb_cyclic_maxd := CYCLIC_MAX_DAYS * seconds_per_day * stick, hb_sys_hwtw_mode := mode,
       hb_ce_poll_time := poll * seconds_per_day * stick \<rparr>) c)))))))"

definition find_dtnode :: "bin_md \<Rightarrow> nat \<Rightarrow> string \<Rightarrow> config \<Rightarrow> nat option hv" where
  "find_dtnode md rootnodep nm c =
     hbind (md_find_node_by_arc md (Some rootnodep) (MDARC (MDNAME c ''fwd'')) (MDNODE (MDNAME c nm))) (\<lambda>r. Inr (map_option snd r))"

definition basics_nodes :: "bin_md \<Rightarrow> nat \<Rightarrow> config \<Rightarrow> config hv" where
  "basics_nodes md rootnodep c =
     hbind (find_dtnode md rootnodep ''guests'' c) (\<lambda>guests. if guests = None then Inl Hv_abort else
     hbind (find_dtnode md rootnodep ''cpus'' c) (\<lambda>cpus. if cpus = None then Inl Hv_abort else
     hbind (find_dtnode md rootnodep ''ldc_endpoints'' c) (\<lambda>hv_ldcs.
     hbind (find_dtnode md rootnodep ''devices'' c) (\<lambda>devs.
     Inr (upd_basics (\<lambda>b. b\<lparr> hb_guests_dtnode := guests, hb_cpus_dtnode := cpus, hb_hv_ldcs_dtnode := hv_ldcs,
       hb_devs_dtnode := devs \<rparr>) c)))))"

definition config_basics :: "config \<Rightarrow> config hv" where
  "config_basics c = with_parse_hvmd c (\<lambda>md.
     hbind (md_find_node md None (MDNAME c ''root'')) (\<lambda>r. case r of None \<Rightarrow> Inl Hv_abort | Some rootnodep \<Rightarrow>
     need_prop md rootnodep (MDNAME c ''content_version'') (\<lambda>content_version.
     if MDCONT_VER_MAJOR content_version \<noteq> HV_MDCONT_VER_MAJOR then Inl Hv_abort else
     hbind (basics_time md rootnodep c) (\<lambda>c.
     hbind (basics_nodes md rootnodep c) (\<lambda>c.
     md_prop_or md rootnodep (MDNAME c ''erpt_pa'') 0 (\<lambda>erpt_pa.
     md_prop_or md rootnodep (MDNAME c ''erpt_size'') 0 (\<lambda>erpt_size.
     md_prop_or md rootnodep (MDNAME c ''ignore_plx_link_hack'') 0 (\<lambda>plx_hack.
     md_prop_or md rootnodep (MDNAME c ''debugprintflags'') (hb_debug_flags (cfg_basics c)) (\<lambda>flags.
     Inr ((upd_basics (\<lambda>b. b\<lparr> hb_erpt_pa := erpt_pa, hb_erpt_size := erpt_size, hb_ignore_plx_link_hack := plx_hack,
         hb_memscrub_max := MEMSCRUB_MAX_DEFAULT,
         hb_ce_blackout := 6 * hb_stickfrequency b, hb_debug_flags := flags \<rparr>) c)\<lparr> cfg_del_reconf_gid := INVALID_GID \<rparr>))))))))))"

subsection \<open>Service channels\<close>

text \<open>
  \<open>hv_svc_data\<close> is state of \<open>reconf.c\<close>.  \<open>sv_next\<close> is the index of the control structure a
  list points to; the buffers are two arrays the linker places.
\<close>

definition MAX_SVCS :: nat where "MAX_SVCS = 9"
definition SVC_MTU :: u32 where "SVC_MTU = 0x200"
definition SVC_CFG_RX :: u32 where "SVC_CFG_RX = 1"
definition SVC_CFG_RE :: u64 where "SVC_CFG_RE = 2"
definition SVC_CFG_TX :: u32 where "SVC_CFG_TX = 4"
definition SVC_CFG_TE :: u64 where "SVC_CFG_TE = 8"
definition FPGA_SVC_FLAGS :: u32 where "FPGA_SVC_FLAGS = 0x35"

record svc_link =
  sl_size :: u64
  sl_pa :: u64
  sl_next :: "nat option"

record svc_ctrl =
  sv_sid :: u32
  sv_xid :: u32
  sv_config :: u32
  sv_mtu :: u32
  sv_ino :: u32
  sv_recv :: svc_link
  sv_send :: svc_link

record svc_data =
  sd_rx_buf :: u64
  sd_tx_buf :: u64
  sd_num_svcs :: nat
  sd_svcs :: "nat \<Rightarrow> svc_ctrl"
  sd_dtnode :: "nat option"

definition config_a_svc :: "u32 \<Rightarrow> u32 \<Rightarrow> u32 \<Rightarrow> u32 \<Rightarrow> u32 \<Rightarrow> svc_data \<Rightarrow> svc_data hv" where
  "config_a_svc sid xid flags mtu ino d =
     (if sd_num_svcs d \<ge> MAX_SVCS then Inl Hv_abort
      else if mtu \<noteq> SVC_MTU then Inl Hv_abort
      else let i = sd_num_svcs d;
          s = (sd_svcs d i)\<lparr> sv_sid := sid, sv_xid := xid, sv_config := flags, sv_mtu := mtu, sv_ino := ino \<rparr>;
          s = (if flags AND SVC_CFG_RX \<noteq> 0 then s\<lparr> sv_recv := \<lparr> sl_size = 0, sl_pa = sd_rx_buf d + of_nat i * ucast SVC_MTU, sl_next = Some (Suc i) \<rparr> \<rparr> else s);
          s = (if flags AND SVC_CFG_TX \<noteq> 0 then s\<lparr> sv_send := \<lparr> sl_size = 0, sl_pa = sd_tx_buf d + of_nat i * ucast SVC_MTU, sl_next = None \<rparr> \<rparr> else s)
        in Inr (d\<lparr> sd_num_svcs := Suc i, sd_svcs := (sd_svcs d)(i := s) \<rparr>))"

definition config_a_svcchan :: "config \<Rightarrow> bin_md \<Rightarrow> nat \<Rightarrow> svc_data \<Rightarrow> svc_data hv" where
  "config_a_svcchan c md nd d =
     need_prop md nd (MDNAME c ''sid'') (\<lambda>sid. need_prop md nd (MDNAME c ''xid'') (\<lambda>xid.
     need_prop md nd (MDNAME c ''flags'') (\<lambda>flags. need_prop md nd (MDNAME c ''mtu'') (\<lambda>mtu.
     if flags AND (SVC_CFG_RE OR SVC_CFG_TE) \<noteq> 0
     then need_prop md nd (MDNAME c ''ino'') (\<lambda>ino. config_a_svc (ucast sid) (ucast xid) (ucast flags) (ucast mtu) (ucast ino) d)
     else config_a_svc (ucast sid) (ucast xid) (ucast flags) (ucast mtu) 0 d))))"

text \<open>A loop of \<open>config_\<close> calls, none of which ends it early.\<close>

definition config_each :: "bin_md \<Rightarrow> nat \<Rightarrow> u64 \<Rightarrow> u64 \<Rightarrow> (nat \<Rightarrow> 's \<Rightarrow> 's hv) \<Rightarrow> 's \<Rightarrow> 's hv" where
  "config_each md mdep arc_token node_token body s =
     hbind (md_foreach md mdep arc_token node_token (\<lambda>n s. hbind (body n s) (\<lambda>s. Inr (Inr s))) s)
       (\<lambda>r. case r of Inl s \<Rightarrow> Inr s | Inr s \<Rightarrow> Inr s)"

definition config_svcchans :: "config \<Rightarrow> svc_data \<Rightarrow> svc_data hv" where
  "config_svcchans c d =
     hbind (config_a_svc 2 2 FPGA_SVC_FLAGS SVC_MTU 0 (d\<lparr> sd_num_svcs := 0 \<rparr>)) (\<lambda>d.
     hbind (config_a_svc 3 2 FPGA_SVC_FLAGS SVC_MTU 0 d) (\<lambda>d. with_parse_hvmd c (\<lambda>md.
     hbind (md_find_node md None (MDNAME c ''root'')) (\<lambda>r. case r of None \<Rightarrow> Inl Hv_abort | Some rootnodep \<Rightarrow>
     hbind (md_find_node_by_arc md (Some rootnodep) (MDARC (MDNAME c ''services'')) (MDNODE (MDNAME c ''services''))) (\<lambda>r.
     let d = d\<lparr> sd_dtnode := map_option snd r \<rparr> in
     case r of None \<Rightarrow> Inr d
     | Some (_, mdep) \<Rightarrow> config_each md mdep (MDARC (MDNAME c ''service'')) (MDNODE (MDNAME c ''service'')) (config_a_svcchan c md) d)))))"

subsection \<open>Endpoints of the hypervisor\<close>

definition config_a_hvldc :: "bin_md \<Rightarrow> nat \<Rightarrow> config \<Rightarrow> config hv" where
  "config_a_hvldc md nd c =
     md_prop md nd (MDNAME c ''svc_id'') (Inr c) (\<lambda>svc_id.
     need_prop md nd (MDNAME c ''channel'') (\<lambda>chid.
     if unat chid \<ge> MAX_HV_LDC_CHANNELS then Inl Hv_abort else
     need_prop md nd (MDNAME c ''target_type'') (\<lambda>type.
     let i = unat chid; c = upd_hv_ldc i (\<lambda>e. e\<lparr> le_channel_idx := ucast chid, le_target_type := ucast type \<rparr>) c in
     hbind (if type = LDC_GUEST_ENDPOINT then
         need_prop md nd (MDNAME c ''target_guest'') (\<lambda>guestid. Inr (upd_hv_ldc i (\<lambda>e. e\<lparr> le_target_guest := Some (unat guestid) \<rparr>) c))
       else if type = LDC_SP_ENDPOINT then Inr (upd_hv_ldc i (\<lambda>e. e\<lparr> le_target_guest := None \<rparr>) c)
       else Inl Hv_abort) (\<lambda>c.
     need_prop md nd (MDNAME c ''target_channel'') (\<lambda>tchan_id.
     if unat tchan_id \<ge> MAX_LDC_CHANNELS then Inl Hv_abort else
     let c = upd_hv_ldc i (\<lambda>e. e\<lparr> le_target_channel := tchan_id \<rparr>) c in
     if svc_id \<noteq> LDC_HVCTL_SVC \<or> ucast (le_target_type (cfg_hv_ldcs c i)) = LDC_SP_ENDPOINT then Inl Hv_abort
     else Inr ((upd_hv_ldc i (\<lambda>e. e\<lparr> le_rx_cb_hvctl := True, le_is_live := 1 \<rparr>) c)\<lparr> cfg_hvctl_ldc := chid \<rparr>))))))"

definition config_hv_ldcs :: "config \<Rightarrow> config hv" where
  "config_hv_ldcs c = (case hb_hv_ldcs_dtnode (cfg_basics c) of None \<Rightarrow> Inr c
     | Some mdep \<Rightarrow> with_parse_hvmd c (\<lambda>md.
         config_each md mdep (MDARC (MDNAME c ''fwd'')) (MDNODE (MDNAME c ''ldc_endpoint'')) (config_a_hvldc md) c))"

subsection \<open>Endpoints of a guest\<close>

definition boot_ldc_target :: "bin_md \<Rightarrow> nat \<Rightarrow> nat \<Rightarrow> nat \<Rightarrow> u64 \<Rightarrow> config \<Rightarrow> config hv" where
  "boot_ldc_target md nd gi j target_type c =
     (if target_type = LDC_HV_ENDPOINT then Inr c
      else if target_type = LDC_GUEST_ENDPOINT then
        need_prop md nd (MDNAME c ''target_guest'') (\<lambda>t. Inr (upd_ldc_ep gi j (\<lambda>e. e\<lparr> le_target_guest := Some (unat t) \<rparr>) c))
      else Inl Hv_abort)"

definition boot_ldc_inos :: "nat \<Rightarrow> u64 \<Rightarrow> u64 \<Rightarrow> guest \<Rightarrow> guest hv" where
  "boot_ldc_inos j tx_ino rx_ino g =
     hbind (set_ino2endpoint (unat tx_ino) \<lparr> ie_endpointp = Some j, ie_mapregp = Some (Tx_mapreg j) \<rparr>
       (upd_ldc j (\<lambda>e. e\<lparr> le_tx_ino := tx_ino \<rparr>) g)) (\<lambda>g.
     hbind (config_a_guest_device_vino tx_ino DEVOPS_CDEV g) (\<lambda>g.
     hbind (set_ino2endpoint (unat rx_ino) \<lparr> ie_endpointp = Some j, ie_mapregp = Some (Rx_mapreg j) \<rparr>
       (upd_ldc j (\<lambda>e. e\<lparr> le_rx_ino := rx_ino \<rparr>) g)) (\<lambda>g.
     hbind (config_a_guest_device_vino rx_ino DEVOPS_CDEV g) (\<lambda>g.
     Inr (upd_ldc j (\<lambda>e. e\<lparr> le_tx_qbase_pa := 0, le_tx_qsize := 0, le_rx_qbase_pa := 0, le_rx_qsize := 0 \<rparr>) g)))))"

definition config_a_guest_ldc_endpoint :: "nat \<Rightarrow> bin_md \<Rightarrow> nat \<Rightarrow> config \<Rightarrow> config hv" where
  "config_a_guest_ldc_endpoint gi md nd c =
     need_prop md nd (MDNAME c ''channel'') (\<lambda>endpt_id.
     hassert (unat endpt_id < MAX_LDC_CHANNELS)
     (let j = unat endpt_id;
          c = upd_guest gi (\<lambda>g. if g_ldc_max_channel_idx g \<le> endpt_id then g\<lparr> g_ldc_max_channel_idx := endpt_id + 1 \<rparr> else g) c in
      if le_is_live (guest_ldc c gi j) \<noteq> 0 then Inr c else
      need_prop md nd (MDNAME c ''target_type'') (\<lambda>target_type.
      need_prop md nd (MDNAME c ''target_channel'') (\<lambda>target_channel.
      hbind (boot_ldc_target md nd gi j target_type
        (upd_ldc_ep gi j (\<lambda>e. e\<lparr> le_target_type := ucast target_type, le_target_channel := target_channel \<rparr>) c)) (\<lambda>c.
      hbind (md_prop md nd (MDNAME c ''private_svc'')
          (let c = upd_ldc_ep gi j (\<lambda>e. e\<lparr> le_is_private := 0 \<rparr>) c in
           need_prop md nd (MDNAME c ''tx_ino'') (\<lambda>tx_ino. need_prop md nd (MDNAME c ''rx_ino'') (\<lambda>rx_ino.
             upd_guest_hv gi (boot_ldc_inos j tx_ino rx_ino) c)))
          (\<lambda>pvt_svc. let c = upd_ldc_ep gi j (\<lambda>e. e\<lparr> le_is_private := 1, le_svc_id := ucast pvt_svc \<rparr>) c in
             if ucast (le_svc_id (guest_ldc c gi j)) = LDC_CONSOLE_SVC then Inr c else Inl Hv_abort)) (\<lambda>c.
      Inr (upd_ldc_ep gi j (\<lambda>e. e\<lparr> le_tx_qbase_ra := 0, le_tx_qhead := 0, le_tx_qtail := 0,
        le_rx_qbase_ra := 0, le_rx_qhead := 0, le_rx_qtail := 0, le_is_live := 1 \<rparr>) c)))))))"

subsection \<open>Guests\<close>

text \<open>The memory of a guest: its blocks are visited for the lowest real address, kept with its node.\<close>

definition boot_mblock :: "bin_md \<Rightarrow> nat \<Rightarrow> nat \<Rightarrow> config \<times> nat option \<Rightarrow> (config \<times> nat option) hv" where
  "boot_mblock md gi mblock_nodep = (\<lambda>(c, base_mblock).
     need_prop md mblock_nodep (MDNAME c ''realbase'') (\<lambda>realbase.
     hbind (if realbase < g_real_base (cfg_guests c gi)
            then md_prop_or md mblock_nodep (MDNAME c ''membase'') realbase (\<lambda>membase.
              Inr (upd_guest gi (\<lambda>g. g\<lparr> g_real_base := realbase, g_mem_offset := membase - realbase \<rparr>) c, Some mblock_nodep))
            else Inr (c, base_mblock)) (\<lambda>(c, base_mblock).
     case base_mblock of None \<Rightarrow> Inl Bad_access
     | Some base \<Rightarrow> md_prop_or md base (MDNAME c ''memsize'') 0 (\<lambda>base_memsize.
         Inr (upd_guest gi (\<lambda>g. if g_real_limit g < realbase + base_memsize then g\<lparr> g_real_limit := realbase + base_memsize \<rparr> else g) c,
           base_mblock)))))"

definition boot_guest_mem :: "bin_md \<Rightarrow> nat \<Rightarrow> nat \<Rightarrow> config \<Rightarrow> config hv" where
  "boot_guest_mem md nd gi c =
     need_prop md nd (MDNAME c ''rombase'') (\<lambda>rom_base. need_prop md nd (MDNAME c ''romsize'') (\<lambda>rom_size.
     hbind (config_each md nd (MDARC (MDNAME c ''fwd'')) (MDNODE (MDNAME c ''mblock'')) (boot_mblock md gi)
       (upd_guest gi (\<lambda>g. g\<lparr> g_rom_base := rom_base, g_rom_size := rom_size, g_real_base := - 1 \<rparr>) c, None)) (\<lambda>(c, base_mblock).
     case base_mblock of None \<Rightarrow> Inl Hv_abort
     | Some base \<Rightarrow> need_prop md base (MDNAME c ''memsize'') (\<lambda>base_memsize.
         if g_rom_size (cfg_guests c gi) > base_memsize then Inl Hv_abort else Inr c))))"

text \<open>\<open>if (!md_node_get_val(..., &guestp->field)) guestp->field = dflt;\<close>\<close>

definition boot_mapin :: "bin_md \<Rightarrow> nat \<Rightarrow> config \<Rightarrow> (u64 \<times> u64 \<Rightarrow> 'a hv) \<Rightarrow> 'a hv" where
  "boot_mapin md nd c k = (let dflt = k (LDC_MAPIN_BASERA, LDC_MAPIN_RASIZE) in
     md_prop md nd (MDNAME c ''ldc_mapinrabase'') dflt (\<lambda>basera. md_prop md nd (MDNAME c ''ldc_mapinsize'') dflt (\<lambda>sz. k (basera, sz))))"

definition boot_props :: "bin_md \<Rightarrow> nat \<Rightarrow> nat \<Rightarrow> config \<Rightarrow> config hv" where
  "boot_props md nd gi c =
     md_prop_or md nd (MDNAME c ''reset_reason'') RESET_REASON_POR (\<lambda>reset_reason.
     boot_mapin md nd c (\<lambda>(mapin_basera, mapin_size).
     md_prop_or md nd (MDNAME c ''perfctraccess'') 0 (\<lambda>perfreg. md_prop_or md nd (MDNAME c ''diagpriv'') 0 (\<lambda>diagpriv.
     md_prop_or md nd (MDNAME c ''rngctlaccessible'') 0 (\<lambda>rng. md_prop_or md nd (MDNAME c ''perfctrhtaccess'') 0 (\<lambda>perfreght.
     md_prop_or md nd (MDNAME c ''todoffset'') 0 (\<lambda>todoffset.
     Inr (upd_guest gi (\<lambda>g. g\<lparr> g_reset_reason := reset_reason, g_ldc_mapin_basera := mapin_basera, g_ldc_mapin_size := mapin_size,
       g_perfreg_accessible := perfreg, g_diagpriv := diagpriv, g_rng_ctl_accessible := rng, g_perfreght_accessible := perfreght,
       g_tod_offset := todoffset \<rparr>) c))))))))"

text \<open>A node of devices the guest has to have.\<close>

definition boot_devices :: "bin_md \<Rightarrow> nat \<Rightarrow> nat \<Rightarrow> string \<Rightarrow> (u64 \<Rightarrow> guest \<Rightarrow> guest hv) \<Rightarrow> config \<Rightarrow> config hv" where
  "boot_devices md nd gi nm config_device c =
     hbind (md_find_node_by_arc md (Some nd) (MDARC (MDNAME c ''fwd'')) (MDNODE (MDNAME c nm))) (\<lambda>r. case r of None \<Rightarrow> Inl Hv_abort
     | Some (_, devices_nodep) \<Rightarrow> need_prop md devices_nodep (MDNAME c ''cfghandle'') (\<lambda>cfg_handle. upd_guest_hv gi (config_device cfg_handle) c))"

definition boot_snet :: "bin_md \<Rightarrow> nat \<Rightarrow> nat \<Rightarrow> config \<Rightarrow> config hv" where
  "boot_snet md nd gi c =
     hbind (md_find_node_by_arc md (Some nd) (MDARC (MDNAME c ''fwd'')) (MDNODE (MDNAME c ''snet''))) (\<lambda>r. case r of None \<Rightarrow> Inr c
     | Some (_, snet_nodep) \<Rightarrow> need_prop md snet_nodep (MDNAME c ''snet_ino'') (\<lambda>ino. need_prop md snet_nodep (MDNAME c ''snet_pa'') (\<lambda>pa.
         upd_guest_hv gi (\<lambda>g. hbind (config_a_guest_device_vino ino DEVOPS_VDEV g) (\<lambda>g. Inr (g\<lparr> g_snet_ino := ino, g_snet_pa := pa \<rparr>))) c)))"

definition boot_services :: "bin_md \<Rightarrow> nat \<Rightarrow> nat \<Rightarrow> config \<Rightarrow> config hv" where
  "boot_services md nd gi c =
     hbind (md_find_node_by_arc md (Some nd) (MDARC (MDNAME c ''services'')) (MDNODE (MDNAME c ''services''))) (\<lambda>r. case r of None \<Rightarrow> Inr c
     | Some (_, services_nodep) \<Rightarrow> config_each md services_nodep (MDARC (MDNAME c ''service'')) (MDNODE (MDNAME c ''service'')) (\<lambda>svc c.
         need_prop md svc (MDNAME c ''ino'') (\<lambda>ino. upd_guest_hv gi (config_a_guest_device_vino ino DEVOPS_VDEV) c)) c)"

definition config_a_guest :: "bin_md \<Rightarrow> nat \<Rightarrow> config \<Rightarrow> config hv" where
  "config_a_guest md nd c =
     need_prop md nd (MDNAME c ''resource_id'') (\<lambda>guest_id.
     if unat guest_id \<ge> NGUESTS then Inl Hv_abort else
     let gi = unat guest_id;
         c = (if g_state (cfg_guests c gi) = GUEST_STATE_UNCONFIGURED
              then upd_guest gi (\<lambda>g. (reset_guest_ldc_mapins (reset_guest_perm_mappings g))\<lparr> g_state := GUEST_STATE_STOPPED \<rparr>) (reset_api_hcall_table gi c)
              else c) in
     hbind (boot_guest_mem md nd gi c) (\<lambda>c.
     need_prop md nd (MDNAME c ''mdpa'') (\<lambda>md_pa.
     md_prop_or md nd (MDNAME c ''diskpa'') (- 1) (\<lambda>diskpa.
     hbind (upd_guest_hv gi (\<lambda>g. config_guest_md (cfg_md_mem c)
         (g\<lparr> g_md_pa := md_pa, g_disk_size := 0, g_disk_pa := diskpa, g_entry := g_real_base g \<rparr>)) c) (\<lambda>c.
     hbind (boot_props md nd gi c) (\<lambda>c.
     hbind (boot_devices md nd gi ''virtual_devices'' config_guest_virtual_device (upd_guest gi clear_devops c)) (\<lambda>c.
     hbind (boot_devices md nd gi ''channel_devices'' config_guest_channel_device c) (\<lambda>c.
     hbind (boot_snet md nd gi c) (\<lambda>c.
     hbind (boot_services md nd gi c) (\<lambda>c.
     config_each md nd (MDARC (MDNAME c ''fwd'')) (MDNODE (MDNAME c ''ldc_endpoint'')) (config_a_guest_ldc_endpoint gi md)
       (upd_guest gi (\<lambda>g. g\<lparr> g_ldc_max_channel_idx := of_nat MAX_LDC_CHANNELS \<rparr>) c)))))))))))"

definition config_guests :: "config \<Rightarrow> config hv" where
  "config_guests c = with_parse_hvmd c (\<lambda>md. case hb_guests_dtnode (cfg_basics c) of None \<Rightarrow> Inl Bad_access
     | Some mdep \<Rightarrow> config_each md mdep (MDARC (MDNAME c ''fwd'')) (MDNODE (MDNAME c ''guest'')) (config_a_guest md) c)"

subsection \<open>Virtual cpus\<close>

definition boot_vcpu :: "nat \<Rightarrow> nat \<Rightarrow> nat \<Rightarrow> u64 \<Rightarrow> u64 \<Rightarrow> config \<Rightarrow> config hv" where
  "boot_vcpu i st gi vid parttag c =
     (let c = upd_guest gi (\<lambda>g. g\<lparr> g_guestid := of_nat gi \<rparr>) c; g = cfg_guests c gi in
      hguard (unat vid < NVCPUS)
      (let c = upd_guest gi (\<lambda>g. g\<lparr> g_vcpus := (g_vcpus g)(unat vid := Some i) \<rparr>) c in
       hassert (g_entry g = g_real_base g)
       (Inr (upd_vcpu i (\<lambda>v. (reset_vcpu_state (v\<lparr> v_strand := Some st, v_strand_slot := 0, v_vid := ucast vid, v_devq_lock := 0,
           v_parttag := ucast parttag, v_guest := Some gi, v_util := vcpu_util_zero, v_rtba := g_real_base g,
           v_start_pc := g_real_base g + TT_POR * TRAPTABLE_ENTRY_SIZE \<rparr>))
         \<lparr> v_status := if bit (cfg_strand_active c) st then CPU_STATE_STOPPED else CPU_STATE_ERROR \<rparr>) c))))"

definition config_a_vcpu :: "bin_md \<Rightarrow> nat \<Rightarrow> config \<Rightarrow> config hv" where
  "config_a_vcpu md nd c =
     need_prop md nd (MDNAME c ''resource_id'') (\<lambda>resource_id.
     if unat resource_id \<ge> NVCPUS then Inl Hv_abort else
     need_prop md nd (MDNAME c ''pid'') (\<lambda>strand_id.
     if unat strand_id \<ge> NSTRANDS then Inl Hv_abort else
     need_prop md nd (MDNAME c ''vid'') (\<lambda>vid.
     hbind (md_find_node_by_arc md (Some nd) (MDARC (MDNAME c ''back'')) (MDNODE (MDNAME c ''guest''))) (\<lambda>r. case r of None \<Rightarrow> Inl Hv_abort
     | Some (_, guestnodep) \<Rightarrow> need_prop md guestnodep (MDNAME c ''resource_id'') (\<lambda>gid.
     if unat gid \<ge> NGUESTS then Inl Hv_abort else
     md_prop_or md nd (MDNAME c ''parttag'') gid (\<lambda>parttag.
       boot_vcpu (unat resource_id) (unat strand_id) (unat gid) vid parttag c))))))"

definition config_vcpus :: "config \<Rightarrow> config hv" where
  "config_vcpus c = with_parse_hvmd c (\<lambda>md. case hb_cpus_dtnode (cfg_basics c) of None \<Rightarrow> Inl Bad_access
     | Some mdep \<Rightarrow> config_each md mdep (MDARC (MDNAME c ''fwd'')) (MDNODE (MDNAME c ''cpu'')) (config_a_vcpu md) c)"

subsection \<open>The start\<close>

definition init_hv_internals :: "config \<Rightarrow> config hv" where
  "init_hv_internals c = hbind (hfold init_strand [0..<NSTRANDS] c) (\<lambda>c. hbind (hfold init_guest [0..<NGUESTS] c) (\<lambda>c.
     hbind (init_mblocks c) (\<lambda>c. hbind (hfold init_vcpu [0..<NVCPUS] c) (\<lambda>c. hbind (init_mau_crypto_units c) init_consoles))))"

text \<open>Preparing, parsing and committing one kind of resource; a failed parse aborts.\<close>

definition boot_resource :: "(config \<Rightarrow> config hv) \<Rightarrow> (parse_state \<Rightarrow> parse_result hv) \<Rightarrow> (u8 \<Rightarrow> config \<Rightarrow> config hv) \<Rightarrow> config \<Rightarrow> config hv" where
  "boot_resource prep parse commit c = hbind (prep c) (\<lambda>c. hbind (parse (c, fail_info_uninit)) (\<lambda>(st, c, f).
     if st \<noteq> HVctl_st_ok then Inl Hv_abort else commit RESF_Config c))"

text \<open>The result of \<open>preparse_hvmd\<close> is not looked at.\<close>

definition c_start :: "hv_env \<Rightarrow> svc_data \<Rightarrow> config \<Rightarrow> (svc_data \<times> config) hv" where
  "c_start env d c =
     hbind (init_hv_internals c) (\<lambda>c. hbind (preparse_hvmd (cfg_parse_hvmd c) c) (\<lambda>(status, c).
     hbind (config_basics (c\<lparr> cfg_strand_active := cfg_strand_startset c \<rparr>)) (\<lambda>c.
     hbind (config_svcchans c d) (\<lambda>d. hbind (config_hv_ldcs c) (\<lambda>c. hbind (config_guests c) (\<lambda>c.
     hbind (boot_resource res_memory_prep res_memory_parse res_memory_commit c) (\<lambda>c.
     hbind (boot_resource res_console_prep res_console_parse res_console_commit c) (\<lambda>c.
     hbind (config_vcpus c) (\<lambda>c.
     hbind (boot_resource res_mau_prep res_mau_parse res_mau_commit c) (\<lambda>c.
     hbind (boot_resource res_cwq_prep res_cwq_parse res_cwq_commit c) (\<lambda>c.
     hbind (kickoff_guests env (accept_hvmd c)) (\<lambda>c. Inr (d, c)))))))))))))"

subsection \<open>Power on and reconfiguration\<close>

text \<open>
  A vcpu nobody has used: what the properties below need of the state \<open>init_vcpu\<close> leaves.
\<close>

definition vcpu_unused :: "vcpu \<Rightarrow> bool" where
  "vcpu_unused v \<longleftrightarrow> v_status v = CPU_STATE_UNCONFIGURED \<and> v_maup v = None \<and> v_cwqp v = None \<and> v_devq_lock v = 0"

lemma init_vcpu_unused: "init_vcpu i c = Inr c' \<Longrightarrow> vcpu_unused (cfg_vcpus c' i)"
  by (auto simp: init_vcpu_def hguard_eq_Inr upd_vcpu_simps vcpu_unused_def vcpu_zero_def)

definition vcpu_pip_of :: "u64 \<Rightarrow> u64 \<Rightarrow> u64 \<Rightarrow> u64 \<Rightarrow> u8 \<Rightarrow> vcpu_parse_info" where
  "vcpu_pip_of strand_id vid gid parttag fl = \<lparr> vp_flags = fl, vp_strand_id = ucast strand_id, vp_vid = ucast vid,
     vp_guestid = ucast gid, vp_parttag = ucast parttag \<rparr>"

lemma vcpu_pip_of_simps:
  "vp_flags (vcpu_pip_of s v g t fl) = fl" "vp_strand_id (vcpu_pip_of s v g t fl) = ucast s" "vp_vid (vcpu_pip_of s v g t fl) = ucast v"
  "vp_guestid (vcpu_pip_of s v g t fl) = ucast g" "vp_parttag (vcpu_pip_of s v g t fl) = ucast t"
  "(vcpu_pip_of s v g t fl)\<lparr> vp_flags := fl' \<rparr> = vcpu_pip_of s v g t fl'"
  by (simp_all add: vcpu_pip_of_def)

lemma vcpu_pip_of_eq:
  "p\<lparr> vp_strand_id := ucast s, vp_vid := ucast v, vp_guestid := ucast g, vp_parttag := ucast t, vp_flags := fl \<rparr> =
   vcpu_pip_of s v g t fl" for p :: vcpu_parse_info
  by (cases p) (simp add: vcpu_pip_of_def)

lemma small_ucasts:
  assumes "unat (x :: u64) < 32"
  shows "unat (ucast x :: u32) = unat x" "unat (ucast x :: u8) = unat x" "scast (ucast x :: u32) = x"
proof -
  have x: "x = of_nat (unat x)" by simp
  obtain k where k: "x = of_nat k" "k < 32" using assms x by blast
  from this(2) have "k \<in> set [0..<32]" by simp
  then show "unat (ucast x :: u32) = unat x" "unat (ucast x :: u8) = unat x" "scast (ucast x :: u32) = x"
    unfolding k(1) by (auto simp: upt_rec)
qed

lemma ucast_u32_u8: "ucast (ucast (x :: u64) :: u32) = (ucast x :: u8)"
  by (rule bit_word_eqI) (auto simp: bit_ucast_iff)

lemma config_a_vcpu_steps:
  assumes "config_a_vcpu md nd c = Inr c'"
  obtains rid sid vid gnode gid parttag where "md_node_get_val md nd (MDNAME c ''resource_id'') = Inr (Some rid)" "unat rid < NVCPUS"
    "md_node_get_val md nd (MDNAME c ''pid'') = Inr (Some sid)" "unat sid < NSTRANDS"
    "md_node_get_val md nd (MDNAME c ''vid'') = Inr (Some vid)"
    "\<exists>e. md_find_node_by_arc md (Some nd) (MDARC (MDNAME c ''back'')) (MDNODE (MDNAME c ''guest'')) = Inr (Some (e, gnode))"
    "md_node_get_val md gnode (MDNAME c ''resource_id'') = Inr (Some gid)" "unat gid < NGUESTS"
    "\<exists>x. md_node_get_val md nd (MDNAME c ''parttag'') = Inr x \<and> parttag = (case x of None \<Rightarrow> gid | Some v \<Rightarrow> v)"
    "boot_vcpu (unat rid) (unat sid) (unat gid) vid parttag c = Inr c'"
  using assms unfolding config_a_vcpu_def need_prop_def
  by (force simp: md_prop_eq_Inr md_prop_or_eq_Inr hbind_eq_Inr not_le split: if_splits option.splits)

lemma boot_vcpu_state:
  assumes "vcpu_unused v"
  shows "(reset_vcpu_state (v\<lparr> v_pip := p, v_strand := st, v_strand_slot := 0, v_vid := vid, v_parttag := pt, v_guest := g, v_maup := None,
       v_cwqp := None, v_mmu_area := 0, v_mmu_area_ra := 0, v_rtba := r, v_start_pc := pc \<rparr>))\<lparr> v_status := s, v_util := vcpu_util_zero \<rparr> =
     (reset_vcpu_state (v\<lparr> v_strand := st, v_strand_slot := 0, v_vid := vid, v_devq_lock := 0, v_parttag := pt, v_guest := g,
       v_util := vcpu_util_zero, v_rtba := r, v_start_pc := pc \<rparr>))\<lparr> v_status := s, v_pip := p \<rparr>"
  using assms by (cases v) (simp add: reset_vcpu_state_def Let_def vcpu_unused_def cong: if_cong)

lemma upd_vcpu_strand_active: "cfg_strand_active (upd_vcpu i h c) = cfg_strand_active c"
  by (simp add: upd_vcpu_def)

lemma upd_vcpu_guest: "upd_vcpu i h (upd_guest gi k (upd_vcpu i h' c)) = upd_vcpu i (\<lambda>v. h (h' v)) (upd_guest gi k c)"
  by (simp add: upd_vcpu_def upd_guest_def)

lemma upd_vcpu_twice: "upd_vcpu i h (upd_vcpu i h' c) = upd_vcpu i (\<lambda>v. h (h' v)) c"
  by (simp add: upd_vcpu_def)

lemma upd_vcpu_cong: "h (cfg_vcpus c i) = h' (cfg_vcpus c i) \<Longrightarrow> upd_vcpu i h c = upd_vcpu i h' c"
  by (simp add: upd_vcpu_def)

lemma boot_vcpu_commit:
  assumes "boot_vcpu i (unat sid) (unat gid) vid parttag c = Inr c'"
    and bounds: "i < NVCPUS" "unat sid < NSTRANDS" "unat gid < NGUESTS"
    and unused: "vcpu_unused (cfg_vcpus c i)"
    and guest: "g_guestid (cfg_guests c (unat gid)) = gid" "g_vcpus (cfg_guests c (unat gid)) (unat vid) = None"
    and c1: "c1 = upd_vcpu i (\<lambda>v. v\<lparr> v_pip := vcpu_pip_of sid vid gid parttag RESF_Config \<rparr>) c"
  shows "res_vcpu_commit_1 RESF_Config i c1 = Inr (upd_vcpu i (\<lambda>v. v\<lparr> v_pip := vcpu_pip_of sid vid gid parttag RESF_Noop \<rparr>) c')"
proof -
  have vid: "unat vid < 32" using assms(1) by (simp add: boot_vcpu_def Let_def hguard_eq_Inr hv_sizes)
  have ub: "unat sid < 32" "unat gid < 32" using bounds by (simp_all add: hv_sizes)
  note us = small_ucasts [OF vid] small_ucasts [OF ub(1)] small_ucasts [OF ub(2)]
  have same: "upd_guest (unat gid) (\<lambda>g. g\<lparr> g_guestid := gid \<rparr>) c = c"
    using guest(1) by (cases "cfg_guests c (unat gid)") (simp add: upd_guest_def fun_upd_idem)
  have entry: "g_entry (cfg_guests c (unat gid)) = g_real_base (cfg_guests c (unat gid))"
    using assms(1) by (simp add: boot_vcpu_def same Let_def hguard_eq_Inr hassert_eq_Inr upd_vcpu_simps upd_guest_def)
  have c': "c' = upd_vcpu i (\<lambda>v. (reset_vcpu_state (v\<lparr> v_strand := Some (unat sid), v_strand_slot := 0, v_vid := ucast vid, v_devq_lock := 0,
       v_parttag := ucast parttag, v_guest := Some (unat gid), v_util := vcpu_util_zero, v_rtba := g_real_base (cfg_guests c (unat gid)),
       v_start_pc := g_real_base (cfg_guests c (unat gid)) + TT_POR * TRAPTABLE_ENTRY_SIZE \<rparr>))
       \<lparr> v_status := if bit (cfg_strand_active c) (unat sid) then CPU_STATE_STOPPED else CPU_STATE_ERROR \<rparr>)
     (upd_guest (unat gid) (\<lambda>g. g\<lparr> g_vcpus := (g_vcpus g)(unat vid := Some i) \<rparr>) c)"
    using assms(1) by (simp add: boot_vcpu_def same Let_def hguard_eq_Inr hassert_eq_Inr upd_vcpu_simps)
  have "res_vcpu_commit_config i c1 = Inr (upd_vcpu i (\<lambda>v. v\<lparr> v_pip := vcpu_pip_of sid vid gid parttag RESF_Config \<rparr>) c')"
    using bounds guest vid us entry unfolding c1 c' res_vcpu_commit_config_def
    by (simp add: Let_def hguard_def hassert_def upd_vcpu_simps vcpu_pip_of_simps ucast_u32_u8 hv_sizes upd_vcpu_strand_active upd_vcpu_guest upd_vcpu_twice)
      (auto intro!: upd_vcpu_cong simp: upd_vcpu_simps boot_vcpu_state [OF unused])
  then show ?thesis
    by (simp add: res_vcpu_commit_1_def res_switch_def Let_def c1 upd_vcpu_simps vcpu_pip_of_simps set_vcpu_flags_upd)
qed


text \<open>
  C27. A vcpu configured at power on is the one a reconfiguration would have configured: for
  a vcpu that is unused, in a slot of its guest that is free, whenever \<open>config_a_vcpu\<close>
  returns, parsing the same node elects the vcpu to be configured, and committing it gives
  the same configuration of the machine, but for the \<open>pip\<close> of the vcpu.
\<close>

theorem config_a_vcpu_as_reconfigured:
  assumes "config_a_vcpu md nd c = Inr c'"
    and "md_node_get_val md nd (MDNAME c ''resource_id'') = Inr (Some rid)" "vcpu_unused (cfg_vcpus c (unat rid))"
    and "md_node_get_val md nd (MDNAME c ''vid'') = Inr (Some vid)"
    and "\<forall>gi<NGUESTS. g_guestid (cfg_guests c gi) = of_nat gi \<and> g_vcpus (cfg_guests c gi) (unat vid) = None"
  shows "\<exists>c1 f1 p. res_vcpu_parse_1 md nd (c, f) = Inr (Inr (c1, f1)) \<and> vp_flags (v_pip (cfg_vcpus c1 (unat rid))) = RESF_Config \<and>
     res_vcpu_commit_1 RESF_Config (unat rid) c1 = Inr (upd_vcpu (unat rid) (\<lambda>v. v\<lparr> v_pip := p \<rparr>) c')"
proof -
  from assms(1) obtain rid' sid vid' gnode gid parttag e x where
    st: "md_node_get_val md nd (MDNAME c ''resource_id'') = Inr (Some rid')" "unat rid' < NVCPUS"
    "md_node_get_val md nd (MDNAME c ''pid'') = Inr (Some sid)" "unat sid < NSTRANDS"
    "md_node_get_val md nd (MDNAME c ''vid'') = Inr (Some vid')"
    "md_find_node_by_arc md (Some nd) (MDARC (MDNAME c ''back'')) (MDNODE (MDNAME c ''guest'')) = Inr (Some (e, gnode))"
    "md_node_get_val md gnode (MDNAME c ''resource_id'') = Inr (Some gid)" "unat gid < NGUESTS"
    "md_node_get_val md nd (MDNAME c ''parttag'') = Inr x" "parttag = (case x of None \<Rightarrow> gid | Some v \<Rightarrow> v)"
    "boot_vcpu (unat rid') (unat sid) (unat gid) vid' parttag c = Inr c'"
    by (rule config_a_vcpu_steps) blast
  have same: "rid' = rid" "vid' = vid" using st(1,5) assms(2,4) by simp_all
  let ?p = "vcpu_pip_of sid vid gid parttag"
  define c1 where "c1 = upd_vcpu (unat rid) (\<lambda>v. v\<lparr> v_pip := ?p RESF_Config \<rparr>) c"
  have "res_vcpu_parse_1 md nd (c, f) = Inr (Inr (c1, f\<lparr> f_res_id := Some (ucast rid) \<rparr>))"
    using st assms(3) unfolding same res_vcpu_parse_1_def md_prop_def md_prop_or_def c1_def vcpu_unused_def
    by (simp add: hassert_def parse_ok_def not_le set_vcpu_flags_upd vcpu_pip_of_eq cpu_states Let_def)
  moreover have "vp_flags (v_pip (cfg_vcpus c1 (unat rid))) = RESF_Config" by (simp add: c1_def upd_vcpu_simps vcpu_pip_of_simps)
  moreover have "res_vcpu_commit_1 RESF_Config (unat rid) c1 = Inr (upd_vcpu (unat rid) (\<lambda>v. v\<lparr> v_pip := ?p RESF_Noop \<rparr>) c')"
    using st(11) assms(3,5) st(2,4,8) by (intro boot_vcpu_commit) (auto simp: c1_def same)
  ultimately show ?thesis by blast
qed

subsection \<open>The machine before anything is configured\<close>

definition machine_blank :: "config \<Rightarrow> config" where
  "machine_blank c = c\<lparr>
     cfg_strands := (\<lambda>i. if i < NSTRANDS then (cfg_strands c i)\<lparr> st_id := of_nat i, st_current_slot := 0,
       st_slot := (\<lambda>j. if j < NUM_SCHED_SLOTS then \<lparr> sl_action = SLOT_ACTION_NOP, sl_arg = None \<rparr> else st_slot (cfg_strands c i) j),
       st_err_seq_no := 0, st_io_prot := 0, st_io_error := 0 \<rparr> else cfg_strands c i),
     cfg_guests := (\<lambda>i. if i < NGUESTS then upd_console (\<lambda>k. k\<lparr> cons_type := CONS_TYPE_UNCONFIG \<rparr>) (guest_blank i) else cfg_guests c i),
     cfg_mblocks := (\<lambda>i. if i < NMBLOCKS then (cfg_mblocks c i)\<lparr> mb_state := MBLOCK_STATE_UNCONFIGURED \<rparr> else cfg_mblocks c i),
     cfg_vcpus := (\<lambda>i. if i < NVCPUS then vcpu_zero\<lparr> v_res_id := of_nat i, v_status := CPU_STATE_UNCONFIGURED \<rparr> else cfg_vcpus c i),
     cfg_maus := (\<lambda>i. if i < NMAUS then (cfg_maus c i)\<lparr> mau_handle := 0, mau_res_id := of_nat i, mau_cpuset := 0,
       mau_cpu_active := (\<lambda>j. if j < NSTRANDS_PER_CORE then 0 else mau_cpu_active (cfg_maus c i) j),
       mau_state := MAU_STATE_UNCONFIGURED \<rparr> else cfg_maus c i) \<rparr>"











subsection \<open>A description of one vcpu\<close>

definition vcpu_md :: bin_md where
  "vcpu_md = (let el = (\<lambda>t l n d. \<lparr> me_tag = t, me_namelen = l, me_pad = 0, me_name = n, me_d = d \<rparr>) in
     \<lparr> transport_version = MD_TRANSPORT_VERSION, node_blk_sz = 160, name_blk_sz = 0, data_blk_sz = 0,
       elem = [el MDET_NODE 3 0 6, el MDET_PROP_VAL 11 1 1, el MDET_PROP_VAL 3 2 5, el MDET_PROP_VAL 3 3 3, el MDET_PROP_ARC 4 4 6,
         el MDET_NODE_END 0 0 0, el MDET_NODE 5 5 9, el MDET_PROP_VAL 11 1 0, el MDET_NODE_END 0 0 0, el MDET_LIST_END 0 0 0],
       str_tab = [] \<rparr>)"

definition vcpu_names :: "string \<Rightarrow> u64" where
  "vcpu_names s = (if s = ''resource_id'' then 0xB000000000001 else if s = ''pid'' then 0x3000000000002
     else if s = ''vid'' then 0x3000000000003 else if s = ''back'' then 0x4000000000004 else if s = ''guest'' then 0x5000000000005 else - 1)"

lemma vcpu_md_reads:
  "md_node_get_val vcpu_md 0 0xB000000000001 = Inr (Some 1)" "md_node_get_val vcpu_md 0 0x3000000000002 = Inr (Some 5)"
  "md_node_get_val vcpu_md 0 0x3000000000003 = Inr (Some 3)" "md_node_get_val vcpu_md 6 0xB000000000001 = Inr (Some 0)"
  "md_node_get_val vcpu_md 0 (- 1) = Inr None"
  "md_find_node_by_arc vcpu_md (Some 0) (MDARC 0x4000000000004) (MDNODE 0x5000000000005) = Inr (Some (4, 6))"
  by code_simp+

theorem config_a_vcpu_as_reconfigured_witness:
  "\<exists>c c' c1 f1 p. config_a_vcpu vcpu_md 0 c = Inr c' \<and> v_guest (cfg_vcpus c' 1) = Some 0 \<and>
     res_vcpu_parse_1 vcpu_md 0 (c, fail_info_uninit) = Inr (Inr (c1, f1)) \<and>
     res_vcpu_commit_1 RESF_Config 1 c1 = Inr (upd_vcpu 1 (\<lambda>v. v\<lparr> v_pip := p \<rparr>) c')"
proof -
  define c where "c = (machine_blank config_zero)\<lparr> cfg_hdnametable := vcpu_names, cfg_strand_active := 0x20 \<rparr>"
  have guest: "g_guestid (cfg_guests c gi) = of_nat gi" "g_vcpus (cfg_guests c gi) k = None" "g_entry (cfg_guests c gi) = 0"
    "g_real_base (cfg_guests c gi) = 0" if "gi < NGUESTS" for gi k
    using that by (simp_all add: c_def machine_blank_def upd_console_def guest_blank_def guest_zero_def)
  have unused: "vcpu_unused (cfg_vcpus c 1)"
    by (simp add: c_def machine_blank_def vcpu_unused_def vcpu_zero_def hv_sizes)
  have names: "MDNAME c nm = vcpu_names nm" for nm by (simp add: c_def)
  have "\<exists>c'. boot_vcpu 1 5 0 3 0 c = Inr c' \<and> v_guest (cfg_vcpus c' 1) = Some 0"
    by (simp add: boot_vcpu_def Let_def hguard_def hassert_def hv_sizes upd_vcpu_simps upd_guest_def guest reset_vcpu_state_simps)
  then obtain c' where c': "boot_vcpu 1 5 0 3 0 c = Inr c'" "v_guest (cfg_vcpus c' 1) = Some 0" by blast
  have boot: "config_a_vcpu vcpu_md 0 c = Inr c'"
    using c'(1) by (simp add: config_a_vcpu_def need_prop_def md_prop_def md_prop_or_def names vcpu_names_def vcpu_md_reads hv_sizes)
  have "md_node_get_val vcpu_md 0 (MDNAME c ''resource_id'') = Inr (Some 1)" "md_node_get_val vcpu_md 0 (MDNAME c ''vid'') = Inr (Some 3)"
    by (simp_all add: names vcpu_names_def vcpu_md_reads)
  moreover have "\<forall>gi<NGUESTS. g_guestid (cfg_guests c gi) = of_nat gi \<and> g_vcpus (cfg_guests c gi) (unat (3 :: u64)) = None"
    using guest by blast
  ultimately obtain c1 f1 p where "res_vcpu_parse_1 vcpu_md 0 (c, fail_info_uninit) = Inr (Inr (c1, f1))"
    "res_vcpu_commit_1 RESF_Config (unat (1 :: u64)) c1 = Inr (upd_vcpu (unat (1 :: u64)) (\<lambda>v. v\<lparr> v_pip := p \<rparr>) c')"
    using config_a_vcpu_as_reconfigured [OF boot, of 1 3 fail_info_uninit] unused by auto
  then show ?thesis using boot c'(2) unfolding unat_1 by blast
qed

end
