(* ===== verification/Mdgen_Dag.thy ===== *)
theory Mdgen_Dag
  imports Md
begin

text \<open>
  The graph \<open>mdgen\<close> builds while it reads a machine description
  (\<open>support/mdgen/mdmain.c\<close>, \<open>dagtypes.h\<close>).

  Nodes live at addresses of \<open>gs_mem\<close>, a freed one at \<open>None\<close>, and are linked both
  ways from \<open>dag_listp\<close> to \<open>dag_list_endp\<close>.  Strings are values: a C string is the
  list of its bytes without the terminating NUL, and what \<open>Xstrdup\<close> and \<open>Xfree\<close> do
  to the memory of strings is left out, as are failures of the allocator.

  Shown here: a loop over the list visits the nodes of the abstract list it holds, in
  order; a new node is appended to it; and \<open>stichin_reqd_properties\<close> moves the first
  node of type \<open>root\<close> to its front.
\<close>

type_synonym cstr = "u8 list"

definition MAX_DATALEN :: nat where "MAX_DATALEN = 256"

datatype pair_value =
  PE_none | PE_string cstr | PE_int u64 | PE_arc nat | PE_noderef cstr | PE_data "u8 list"

text \<open>\<open>name_tmp\<close> and \<open>data_tmp\<close> point to chunks of the output, here their positions.\<close>

record pair_entry =
  pe_namep :: cstr
  pe_value :: pair_value
  pe_name_tmp :: "nat option"
  pe_data_tmp :: "nat option"

record pair_list =
  pl_space :: nat
  pl_listp :: "pair_entry list"

record dag_node =
  dn_typep :: cstr
  dn_namep :: cstr
  dn_idx :: u32
  dn_offset :: u32
  dn_is_proto :: bool
  dn_name_tmp :: "nat option"
  dn_properties :: pair_list
  dn_prevp :: "nat option"
  dn_nextp :: "nat option"

text \<open>Blocks of output; \<open>size\<close> of a chunk is the length of its data.\<close>

record md_chunk =
  ch_datap :: "u8 list"
  ch_offset :: u32

record md_blk =
  blk_chunks :: "md_chunk list"
  blk_total_size :: u32

datatype lexer_tok =
    T_EOF | T_L_Brace | T_R_Brace | T_L_Bracket | T_R_Bracket | T_Comma | T_S_Colon
  | T_Plus | T_Minus | T_And | T_Not | T_Or | T_Xor | T_LShift | T_Multiply
  | T_Equals | T_Number u64 | T_String cstr | T_Token cstr
  | T_KW_node | T_KW_arc | T_KW_lookup | T_KW_expr | T_KW_setprop | T_KW_proto | T_KW_include | T_Error

text \<open>
  The state of the tool: the tokens the lexer (generated by flex) still has to deliver,
  with \<open>lex.val\<close> or \<open>lex.strp\<close> as it stands for each, the graph, and the output.
\<close>

record mdgen =
  lex_toks :: "lexer_tok list"
  gs_mem :: "nat \<Rightarrow> dag_node option"
  gs_fresh :: nat
  dag_listp :: "nat option"
  dag_list_endp :: "nat option"
  name_blk :: md_blk
  data_blk :: md_blk
  gs_out :: "u8 list"

subsection \<open>Access\<close>

definition dag_at :: "mdgen \<Rightarrow> nat \<Rightarrow> dag_node hv" where
  "dag_at s p = (case gs_mem s p of None \<Rightarrow> Inl Bad_access | Some n \<Rightarrow> Inr n)"

definition dag_set :: "nat \<Rightarrow> dag_node \<Rightarrow> mdgen \<Rightarrow> mdgen" where
  "dag_set p n s = s\<lparr> gs_mem := (gs_mem s)(p := Some n) \<rparr>"

definition dag_upd :: "nat \<Rightarrow> (dag_node \<Rightarrow> dag_node) \<Rightarrow> mdgen \<Rightarrow> mdgen hv" where
  "dag_upd p f s = hbind (dag_at s p) (\<lambda>n. Inr (dag_set p (f n) s))"

text \<open>\<open>for (dnp = dag_listp; dnp != NULL; dnp = dnp->nextp) body\<close>, with locals beside the state.\<close>

definition dag_for_step ::
    "(nat \<Rightarrow> 'l \<times> mdgen \<Rightarrow> ('l \<times> mdgen) hv) \<Rightarrow> nat option \<times> 'l \<times> mdgen \<Rightarrow> (nat option \<times> 'l \<times> mdgen) + ('l \<times> mdgen) hv" where
  "dag_for_step body = (\<lambda>(dnp, ls). case dnp of None \<Rightarrow> Inr (Inr ls)
     | Some p \<Rightarrow> (case body p ls of Inl e \<Rightarrow> Inr (Inl e)
       | Inr ls' \<Rightarrow> (case dag_at (snd ls') p of Inl e \<Rightarrow> Inr (Inl e) | Inr n \<Rightarrow> Inl (dn_nextp n, ls'))))"

definition dag_for :: "(nat \<Rightarrow> 'l \<times> mdgen \<Rightarrow> ('l \<times> mdgen) hv) \<Rightarrow> 'l \<times> mdgen \<Rightarrow> ('l \<times> mdgen) hv" where
  "dag_for body ls = hloop (dag_for_step body) (gs_fresh (snd ls) + 2) (dag_listp (snd ls), ls)"

subsection \<open>Nodes and their properties\<close>

definition pair_entry_zero :: pair_entry where
  "pair_entry_zero = \<lparr> pe_namep = [], pe_value = PE_none, pe_name_tmp = None, pe_data_tmp = None \<rparr>"

definition dag_node_zero :: dag_node where
  "dag_node_zero = \<lparr> dn_typep = [], dn_namep = [], dn_idx = 0, dn_offset = 0, dn_is_proto = False, dn_name_tmp = None,
     dn_properties = \<lparr> pl_space = 0, pl_listp = [] \<rparr>, dn_prevp = None, dn_nextp = None \<rparr>"

definition new_dag_node :: "mdgen \<Rightarrow> (nat \<times> mdgen) hv" where
  "new_dag_node s =
     (let p = gs_fresh s;
          s = (dag_set p (dag_node_zero\<lparr> dn_prevp := dag_list_endp s \<rparr>) s)\<lparr> gs_fresh := Suc p \<rparr>
      in hbind (case dag_listp s of None \<Rightarrow> Inr (s\<lparr> dag_listp := Some p \<rparr>)
           | Some _ \<Rightarrow> (case dag_list_endp s of None \<Rightarrow> Inl Bad_access
               | Some e \<Rightarrow> dag_upd e (\<lambda>n. n\<lparr> dn_nextp := Some p \<rparr>) s))
         (\<lambda>s. Inr (p, s\<lparr> dag_list_endp := Some p \<rparr>)))"

text \<open>The new entry is the last of the list; its name, NULL at first, is set by each caller.\<close>

definition add_pair_entry :: "pair_list \<Rightarrow> pair_list" where
  "add_pair_entry plp =
     (let plp = (if length (pl_listp plp) \<ge> pl_space plp then plp\<lparr> pl_space := length (pl_listp plp) + 5 \<rparr> else plp)
      in plp\<lparr> pl_listp := pl_listp plp @ [pair_entry_zero] \<rparr>)"

fun find_pair_from :: "nat \<Rightarrow> pair_entry list \<Rightarrow> cstr \<Rightarrow> nat option" where
  "find_pair_from i [] namep = None"
| "find_pair_from i (pep # peps) namep = (if pe_namep pep = namep then Some i else find_pair_from (Suc i) peps namep)"

definition find_pair_by_name :: "pair_list \<Rightarrow> cstr \<Rightarrow> nat option" where
  "find_pair_by_name plp namep = find_pair_from 0 (pl_listp plp) namep"

definition find_dag_step :: "(dag_node \<Rightarrow> bool) \<Rightarrow> mdgen \<Rightarrow> nat option \<Rightarrow> nat option + nat option hv" where
  "find_dag_step P s dnp = (case dnp of None \<Rightarrow> Inr (Inr None)
     | Some p \<Rightarrow> (case dag_at s p of Inl e \<Rightarrow> Inr (Inl e) | Inr n \<Rightarrow> if P n then Inr (Inr (Some p)) else Inl (dn_nextp n)))"

definition find_dag_node_by_type :: "mdgen \<Rightarrow> cstr \<Rightarrow> nat option hv" where
  "find_dag_node_by_type s namep = hloop (find_dag_step (\<lambda>n. dn_typep n = namep) s) (gs_fresh s + 2) (dag_listp s)"

definition find_dag_node_by_name :: "mdgen \<Rightarrow> cstr \<Rightarrow> nat option hv" where
  "find_dag_node_by_name s namep = hloop (find_dag_step (\<lambda>n. dn_namep n = namep) s) (gs_fresh s + 2) (dag_listp s)"

subsection \<open>Prototypes\<close>

text \<open>\<open>free_node\<close>: a node with an entry that has no value yet, or an arc, is an internal error.\<close>

definition freeable :: "pair_value \<Rightarrow> bool" where
  "freeable v = (case v of PE_none \<Rightarrow> False | PE_arc _ \<Rightarrow> False | _ \<Rightarrow> True)"

definition free_node :: "nat \<Rightarrow> mdgen \<Rightarrow> mdgen hv" where
  "free_node p s = hbind (dag_at s p) (\<lambda>n.
     if \<forall>pep\<in>set (pl_listp (dn_properties n)). freeable (pe_value pep)
     then Inr (s\<lparr> gs_mem := (gs_mem s)(p := None) \<rparr>) else Inl Fatal)"

text \<open>
  \<open>*pp = q\<close>, where \<open>pp\<close> is the address of \<open>dag_listp\<close> (\<open>None\<close>) or of the \<open>nextp\<close> of a node.
\<close>

definition set_link :: "nat option \<Rightarrow> nat option \<Rightarrow> mdgen \<Rightarrow> mdgen hv" where
  "set_link pp q s = (case pp of None \<Rightarrow> Inr (s\<lparr> dag_listp := q \<rparr>) | Some p \<Rightarrow> dag_upd p (\<lambda>n. n\<lparr> dn_nextp := q \<rparr>) s)"

definition delete_protos_step :: "nat option \<times> nat option \<times> mdgen \<Rightarrow> (nat option \<times> nat option \<times> mdgen) + mdgen hv" where
  "delete_protos_step = (\<lambda>(pp, dnp, s). case dnp of None \<Rightarrow> Inr (set_link pp None s)
     | Some p \<Rightarrow> (case dag_at s p of Inl e \<Rightarrow> Inr (Inl e) | Inr n \<Rightarrow>
         if dn_is_proto n then (case free_node p s of Inl e \<Rightarrow> Inr (Inl e) | Inr s' \<Rightarrow> Inl (pp, dn_nextp n, s'))
         else (case set_link pp (Some p) s of Inl e \<Rightarrow> Inr (Inl e) | Inr s' \<Rightarrow> Inl (Some p, dn_nextp n, s'))))"

definition delete_protos :: "mdgen \<Rightarrow> mdgen hv" where
  "delete_protos s = hloop delete_protos_step (gs_fresh s + 2) (None, dag_listp s, s)"

subsection \<open>Connecting the graph\<close>

text \<open>One property of a node; \<open>failed\<close> is the flag of \<open>connect_dag\<close>.\<close>

definition set_value :: "nat \<Rightarrow> pair_value \<Rightarrow> pair_list \<Rightarrow> pair_list" where
  "set_value i v plp = plp\<lparr> pl_listp := (pl_listp plp)[i := (pl_listp plp ! i)\<lparr> pe_value := v \<rparr>] \<rparr>"

definition connect_prop :: "nat \<Rightarrow> nat \<Rightarrow> bool \<times> mdgen \<Rightarrow> (bool \<times> mdgen) hv" where
  "connect_prop p i = (\<lambda>(failed, s). hbind (dag_at s p) (\<lambda>n.
     case pe_value (pl_listp (dn_properties n) ! i) of
       PE_noderef strp \<Rightarrow> hbind (find_dag_node_by_name s strp) (\<lambda>rnp. case rnp of
           Some r \<Rightarrow> Inr (failed, dag_set p (n\<lparr> dn_properties := set_value i (PE_arc r) (dn_properties n) \<rparr>) s)
         | None \<Rightarrow> Inr (True, s))
     | _ \<Rightarrow> Inr (failed, s)))"

definition connect_node :: "nat \<Rightarrow> (u32 \<times> bool) \<times> mdgen \<Rightarrow> ((u32 \<times> bool) \<times> mdgen) hv" where
  "connect_node p = (\<lambda>((idx, failed), s).
     hbind (dag_upd p (\<lambda>n. n\<lparr> dn_idx := idx \<rparr>) s) (\<lambda>s. hbind (dag_at s p) (\<lambda>n.
     hbind (hfold (connect_prop p) [0..<length (pl_listp (dn_properties n))] (failed, s)) (\<lambda>(failed, s).
     Inr ((idx + 1, failed), s)))))"

definition connect_dag :: "mdgen \<Rightarrow> mdgen hv" where
  "connect_dag s = hbind (dag_for connect_node ((0, False), s)) (\<lambda>((idx, failed), s). if failed then Inl Fatal else Inr s)"

definition stichin_reqd_properties :: "mdgen \<Rightarrow> mdgen hv" where
  "stichin_reqd_properties s =
     hbind (find_dag_node_by_type s (cstring ''root'')) (\<lambda>r. case r of None \<Rightarrow> Inl Fatal
     | Some p \<Rightarrow> hbind (dag_at s p) (\<lambda>n. case dn_prevp n of None \<Rightarrow> Inr s
       | Some prev \<Rightarrow>
          hbind (dag_upd prev (\<lambda>m. m\<lparr> dn_nextp := dn_nextp n \<rparr>) s) (\<lambda>s.
          hbind (case dn_nextp n of Some nxt \<Rightarrow> dag_upd nxt (\<lambda>m. m\<lparr> dn_prevp := Some prev \<rparr>) s
            | None \<Rightarrow> Inr (s\<lparr> dag_list_endp := Some prev \<rparr>)) (\<lambda>s.
          hbind (dag_upd p (\<lambda>m. m\<lparr> dn_nextp := dag_listp s \<rparr>) s) (\<lambda>s.
          hbind (case dag_listp s of None \<Rightarrow> Inl Bad_access | Some h \<Rightarrow> dag_upd h (\<lambda>m. m\<lparr> dn_prevp := Some p \<rparr>) s) (\<lambda>s.
          Inr (s\<lparr> dag_listp := Some p \<rparr>)))))))"

subsection \<open>The list a graph holds\<close>

text \<open>\<open>dag_path L p xs\<close>: following the links \<open>L\<close> from \<open>p\<close> to the end visits \<open>xs\<close>.\<close>

definition dag_links :: "mdgen \<Rightarrow> nat \<Rightarrow> nat option option" where
  "dag_links s p = map_option dn_nextp (gs_mem s p)"

primrec dag_path :: "(nat \<Rightarrow> nat option option) \<Rightarrow> nat option \<Rightarrow> nat list \<Rightarrow> bool" where
  "dag_path L p [] \<longleftrightarrow> p = None"
| "dag_path L p (x # xs) \<longleftrightarrow> p = Some x \<and> (\<exists>q. L x = Some q \<and> dag_path L q xs)"

definition dag_holds :: "mdgen \<Rightarrow> nat list \<Rightarrow> bool" where
  "dag_holds s xs \<longleftrightarrow> dag_path (dag_links s) (dag_listp s) xs \<and> length xs \<le> gs_fresh s"

lemma dag_path_upd: "y \<notin> set xs \<Longrightarrow> dag_path (L(y := v)) p xs = dag_path L p xs"
  by (induction xs arbitrary: p) auto

lemma dag_path_inject: "dag_path L p xs \<Longrightarrow> dag_path L p ys \<Longrightarrow> xs = ys"
proof (induction xs arbitrary: p ys)
  case Nil
  then show ?case by (cases ys) auto
next
  case (Cons x xs)
  then show ?case by (cases ys) auto
qed

lemma dag_path_tail: "dag_path L p (xs @ x # ys) \<Longrightarrow> \<exists>q. L x = Some q \<and> dag_path L q ys"
  by (induction xs arbitrary: p) auto

lemma dag_path_distinct: "dag_path L p xs \<Longrightarrow> distinct xs"
proof (induction xs arbitrary: p)
  case (Cons x xs)
  then obtain q where q: "L x = Some q" "dag_path L q xs" by auto
  have "x \<notin> set xs"
  proof
    assume "x \<in> set xs"
    then obtain as bs where xs: "xs = as @ x # bs" by (auto simp: in_set_conv_decomp)
    then have "dag_path L q bs" using dag_path_tail [of L q as x bs] q by auto
    then have "xs = bs" using dag_path_inject [OF q(2)] by blast
    with xs show False by simp
  qed
  with Cons.IH [OF q(2)] show ?case by simp
qed simp

lemma dag_path_mem: "dag_path (dag_links s) p xs \<Longrightarrow> x \<in> set xs \<Longrightarrow> \<exists>n. gs_mem s x = Some n"
  by (induction xs arbitrary: p) (auto simp: dag_links_def)

text \<open>A loop over the list whose body leaves the links alone is a loop over the nodes it holds.\<close>

lemma dag_for_path:
  assumes "\<And>p l s l' s'. body p (l, s) = Inr (l', s') \<Longrightarrow> dag_links s' = dag_links s"
  shows "dag_path (dag_links s) p xs \<Longrightarrow> length xs < n \<Longrightarrow> hloop (dag_for_step body) n (p, (l, s)) = hfold body xs (l, s)"
proof (induction xs arbitrary: p l s n)
  case Nil
  then show ?case by (cases n) (auto simp: dag_for_step_def)
next
  case (Cons x xs)
  then obtain m where n: "n = Suc m" "length xs < m" by (cases n) auto
  from Cons.prems obtain q where p: "p = Some x" "dag_links s x = Some q" "dag_path (dag_links s) q xs" by auto
  show ?case
  proof (cases "body x (l, s)")
    case (Inl e)
    with n p show ?thesis by (simp add: dag_for_step_def)
  next
    case (Inr ls')
    obtain l' s' where ls': "ls' = (l', s')" by fastforce
    have L: "dag_links s' = dag_links s" using assms Inr ls' by blast
    with p(2) obtain nd where "gs_mem s' x = Some nd" "dn_nextp nd = q" by (metis dag_links_def map_option_eq_Some)
    then have "dag_for_step body (p, (l, s)) = Inl (q, (l', s'))"
      using p(1) Inr ls' by (simp add: dag_for_step_def dag_at_def)
    with Cons.IH [of s' q m l'] L p(3) n Inr ls' show ?thesis by simp
  qed
qed

lemma dag_for_holds:
  assumes "dag_holds s xs" "\<And>p l s l' s'. body p (l, s) = Inr (l', s') \<Longrightarrow> dag_links s' = dag_links s"
  shows "dag_for body (l, s) = hfold body xs (l, s)"
  using assms(1) unfolding dag_for_def dag_holds_def by (intro dag_for_path assms(2)) auto

text \<open>A search returns the first node that satisfies the test.\<close>

lemma find_dag_path:
  "dag_path (dag_links s) p xs \<Longrightarrow> length xs < n \<Longrightarrow>
     hloop (find_dag_step P s) n p = Inr (find (\<lambda>x. P (the (gs_mem s x))) xs)"
proof (induction xs arbitrary: p n)
  case Nil
  then show ?case by (cases n) (auto simp: find_dag_step_def)
next
  case (Cons x xs)
  then obtain m where n: "n = Suc m" "length xs < m" by (cases n) auto
  from Cons.prems obtain q where q: "p = Some x" "dag_links s x = Some q" "dag_path (dag_links s) q xs" by auto
  then obtain nd where "gs_mem s x = Some nd" "dn_nextp nd = q" by (auto simp: dag_links_def)
  with q(1) have "find_dag_step P s p = (if P nd then Inr (Inr (Some x)) else Inl q)"
    by (simp add: find_dag_step_def dag_at_def)
  with Cons.IH [OF q(3) n(2)] \<open>gs_mem s x = Some nd\<close> n(1) show ?case by simp
qed

lemma find_dag_node_holds:
  assumes "dag_holds s xs"
  shows "find_dag_node_by_type s nm = Inr (find (\<lambda>x. dn_typep (the (gs_mem s x)) = nm) xs)"
    "find_dag_node_by_name s nm = Inr (find (\<lambda>x. dn_namep (the (gs_mem s x)) = nm) xs)"
  using assms find_dag_path [of s "dag_listp s" xs]
  by (simp_all add: dag_holds_def find_dag_node_by_type_def find_dag_node_by_name_def del: hloop.simps)

subsection \<open>The structure of the list\<close>

text \<open>
  Both links of the nodes of the list and its end.  The node at its head has no
  \<open>prevp\<close>, unless it was moved there (\<open>moved\<close>), which leaves it one.
\<close>

definition prev_ok :: "mdgen \<Rightarrow> nat list \<Rightarrow> nat \<Rightarrow> bool" where
  "prev_ok s xs i \<longleftrightarrow> map_option dn_prevp (gs_mem s (xs ! i)) = Some (if i = 0 then None else Some (xs ! (i - 1)))"

definition dag_ok :: "bool \<Rightarrow> mdgen \<Rightarrow> nat list \<Rightarrow> bool" where
  "dag_ok moved s xs \<longleftrightarrow> dag_holds s xs \<and> dag_list_endp s = (if xs = [] then None else Some (last xs)) \<and>
     (\<forall>x\<in>set xs. x < gs_fresh s) \<and> (\<forall>i<length xs. (i = 0 \<longrightarrow> \<not> moved) \<longrightarrow> prev_ok s xs i)"

text \<open>What a node says, without its links.\<close>

definition node_content :: "mdgen \<Rightarrow> nat \<Rightarrow> dag_node option" where
  "node_content s p = map_option (\<lambda>n. n\<lparr> dn_prevp := None, dn_nextp := None \<rparr>) (gs_mem s p)"

lemma dag_path_append:
  "dag_path L p xs \<Longrightarrow> xs \<noteq> [] \<Longrightarrow> y \<notin> set xs \<Longrightarrow>
   dag_path (L(last xs := Some (Some y), y := Some None)) p (xs @ [y])"
proof (induction xs arbitrary: p)
  case (Cons x xs)
  show ?case
  proof (cases "xs = []")
    case True
    with Cons.prems show ?thesis by auto
  next
    case False
    from Cons.prems obtain q where q: "p = Some x" "L x = Some q" "dag_path L q xs" by auto
    have "x \<noteq> last xs" using dag_path_distinct [OF Cons.prems(1)] False by auto
    with Cons.IH [OF q(3) False] Cons.prems q False show ?thesis by auto
  qed
qed simp

lemma dag_path_move:
  assumes "dag_path L p (as @ r # bs)" "as \<noteq> []" "L r = Some q"
  shows "dag_path (L(last as := Some q, r := Some p)) (Some r) (r # as @ bs)"
proof -
  have d: "distinct (as @ r # bs)" using dag_path_distinct [OF assms(1)] .
  have "dag_path (L(last as := Some q)) p (as @ bs)"
    using assms(1,2) d
  proof (induction as arbitrary: p)
    case (Cons a as)
    show ?case
    proof (cases "as = []")
      case True
      with Cons.prems assms(3) have "p = Some a" "dag_path (L(a := Some q)) q bs" by (auto simp: dag_path_upd)
      with True show ?thesis by (simp add: fun_upd_def)
    next
      case False
      with Cons.prems Cons.IH show ?thesis by auto
    qed
  qed simp
  then show ?thesis using d by (auto simp: dag_path_upd)
qed

text \<open>What a node says, without its links, is kept by every change of links.\<close>

lemma new_dag_node_appends:
  assumes "dag_ok moved s xs" "xs = [] \<longrightarrow> \<not> moved"
  shows "\<exists>s'. new_dag_node s = Inr (gs_fresh s, s') \<and> dag_ok moved s' (xs @ [gs_fresh s]) \<and>
    node_content s' (gs_fresh s) = Some dag_node_zero \<and> (\<forall>x\<in>set xs. node_content s' x = node_content s x)"
proof (cases "xs = []")
  case True
  with assms have "dag_listp s = None" "dag_list_endp s = None" by (auto simp: dag_ok_def dag_holds_def)
  with True assms(2) show ?thesis
    by (auto simp: new_dag_node_def Let_def dag_set_def dag_ok_def dag_holds_def dag_links_def prev_ok_def node_content_def dag_node_zero_def)
next
  case False
  let ?f = "gs_fresh s" and ?e = "last xs"
  have fresh: "?f \<notin> set xs" "?e \<noteq> ?f"
    using assms(1) last_in_set [OF False] by (auto simp: dag_ok_def)
  have e: "dag_list_endp s = Some ?e" "dag_path (dag_links s) (dag_listp s) xs" using assms(1) False by (auto simp: dag_ok_def dag_holds_def)
  obtain h where h: "dag_listp s = Some h" using e(2) False by (cases xs) auto
  obtain ne where ne: "gs_mem s ?e = Some ne" using dag_path_mem [OF e(2)] False by fastforce
  define s' where "s' = s\<lparr> gs_mem := (gs_mem s)(?f := Some (dag_node_zero\<lparr> dn_prevp := Some ?e \<rparr>), ?e := Some (ne\<lparr> dn_nextp := Some ?f \<rparr>)),
      gs_fresh := Suc ?f, dag_list_endp := Some ?f \<rparr>"
  have new: "new_dag_node s = Inr (?f, s')"
    using h ne e(1) fresh(2) by (simp add: new_dag_node_def Let_def dag_upd_def dag_at_def dag_set_def s'_def)
  have "dag_links s' = (dag_links s)(?e := Some (Some ?f), ?f := Some None)"
    using fresh(2) by (auto simp: dag_links_def s'_def fun_eq_iff dag_node_zero_def)
  then have "dag_holds s' (xs @ [?f])"
    using dag_path_append [OF e(2) False fresh(1)] assms(1) by (simp add: dag_holds_def dag_ok_def s'_def)
  moreover have "prev_ok s' (xs @ [?f]) i" if "i < Suc (length xs)" "i = 0 \<longrightarrow> \<not> moved" for i
  proof (cases "i = length xs")
    case True
    with False show ?thesis using fresh(2) by (auto simp: prev_ok_def s'_def nth_append last_conv_nth)
  next
    case i: False
    then have il: "i < length xs" using that by simp
    have "xs ! i \<noteq> ?f" using fresh(1) nth_mem [OF il] by metis
    moreover have "prev_ok s xs i" using assms(1) that il by (auto simp: dag_ok_def)
    moreover have "map_option dn_prevp (gs_mem s' (xs ! i)) = map_option dn_prevp (gs_mem s (xs ! i))"
      using ne \<open>xs ! i \<noteq> ?f\<close> by (auto simp: s'_def)
    ultimately show ?thesis using il by (auto simp: prev_ok_def nth_append)
  qed
  moreover have "dag_list_endp s' = Some ?f" "gs_fresh s' = Suc ?f" by (simp_all add: s'_def)
  ultimately have "dag_ok moved s' (xs @ [?f])"
    using assms(1) by (auto simp: dag_ok_def less_Suc_eq_le dest: less_imp_le)
  moreover have "node_content s' ?f = Some dag_node_zero" "\<forall>x\<in>set xs. node_content s' x = node_content s x"
    using fresh ne by (auto simp: node_content_def s'_def dag_node_zero_def)
  ultimately show ?thesis using new by blast
qed

text \<open>The root moves to the front; nothing else changes.\<close>

definition is_root :: "mdgen \<Rightarrow> nat \<Rightarrow> bool" where
  "is_root s x \<longleftrightarrow> dn_typep (the (gs_mem s x)) = cstring ''root''"

lemma find_split: "find P xs = Some r \<Longrightarrow> \<exists>as bs. xs = as @ r # bs \<and> (\<forall>a\<in>set as. \<not> P a) \<and> P r"
proof (induction xs)
  case (Cons x xs)
  show ?case
  proof (cases "P x")
    case True
    with Cons.prems show ?thesis by (intro exI [of _ "[]"] exI [of _ xs]) auto
  next
    case False
    with Cons obtain as bs where "xs = as @ r # bs" "\<forall>a\<in>set as. \<not> P a" "P r" by auto
    with False show ?thesis by (intro exI [of _ "x # as"] exI [of _ bs]) auto
  qed
qed simp

definition upd_node :: "nat \<Rightarrow> (dag_node \<Rightarrow> dag_node) \<Rightarrow> mdgen \<Rightarrow> mdgen" where
  "upd_node p f s = s\<lparr> gs_mem := (gs_mem s)(p := map_option f (gs_mem s p)) \<rparr>"

definition dag_prevs :: "mdgen \<Rightarrow> nat \<Rightarrow> nat option option" where
  "dag_prevs s p = map_option dn_prevp (gs_mem s p)"

lemma dag_upd_node: "gs_mem s p \<noteq> None \<Longrightarrow> dag_upd p f s = Inr (upd_node p f s)"
  by (auto simp: dag_upd_def dag_at_def dag_set_def upd_node_def)

lemma upd_node_simps [simp]:
  "dag_listp (upd_node p f s) = dag_listp s" "dag_list_endp (upd_node p f s) = dag_list_endp s"
  "gs_fresh (upd_node p f s) = gs_fresh s" "gs_mem (upd_node p f s) x = None \<longleftrightarrow> gs_mem s x = None"
  "dag_links (upd_node p (\<lambda>n. n\<lparr> dn_prevp := q \<rparr>) s) = dag_links s"
  "dag_prevs (upd_node p (\<lambda>n. n\<lparr> dn_nextp := q \<rparr>) s) = dag_prevs s"
  "node_content (upd_node p (\<lambda>n. n\<lparr> dn_prevp := q \<rparr>) s) = node_content s"
  "node_content (upd_node p (\<lambda>n. n\<lparr> dn_nextp := q \<rparr>) s) = node_content s"
  by (auto simp: upd_node_def dag_links_def dag_prevs_def node_content_def fun_eq_iff option.map_comp o_def)

lemma upd_node_link:
  "gs_mem s p \<noteq> None \<Longrightarrow> dag_links (upd_node p (\<lambda>n. n\<lparr> dn_nextp := q \<rparr>) s) = (dag_links s)(p := Some q)"
  "gs_mem s p \<noteq> None \<Longrightarrow> dag_prevs (upd_node p (\<lambda>n. n\<lparr> dn_prevp := q \<rparr>) s) = (dag_prevs s)(p := Some q)"
  by (auto simp: upd_node_def dag_links_def dag_prevs_def fun_eq_iff)

lemma state_links [simp]:
  "dag_links (s\<lparr> dag_listp := p \<rparr>) = dag_links s" "dag_links (s\<lparr> dag_list_endp := p \<rparr>) = dag_links s"
  "dag_prevs (s\<lparr> dag_listp := p \<rparr>) = dag_prevs s" "dag_prevs (s\<lparr> dag_list_endp := p \<rparr>) = dag_prevs s"
  "node_content (s\<lparr> dag_listp := p \<rparr>) = node_content s" "node_content (s\<lparr> dag_list_endp := p \<rparr>) = node_content s"
  by (auto simp: dag_links_def dag_prevs_def node_content_def fun_eq_iff)

text \<open>The four assignments to links, in their order.\<close>

definition relink :: "nat \<Rightarrow> nat \<Rightarrow> nat \<Rightarrow> nat option \<Rightarrow> mdgen \<Rightarrow> mdgen" where
  "relink r prev h q s =
     (let s = upd_node prev (\<lambda>m. m\<lparr> dn_nextp := q \<rparr>) s;
          s = (case q of Some nxt \<Rightarrow> upd_node nxt (\<lambda>m. m\<lparr> dn_prevp := Some prev \<rparr>) s | None \<Rightarrow> s\<lparr> dag_list_endp := Some prev \<rparr>);
          s = upd_node r (\<lambda>m. m\<lparr> dn_nextp := Some h \<rparr>) s;
          s = upd_node h (\<lambda>m. m\<lparr> dn_prevp := Some r \<rparr>) s
      in s\<lparr> dag_listp := Some r \<rparr>)"

lemma relink_facts:
  assumes "gs_mem s r \<noteq> None" "gs_mem s prev \<noteq> None" "gs_mem s h \<noteq> None" "\<And>nxt. q = Some nxt \<Longrightarrow> gs_mem s nxt \<noteq> None"
  shows "dag_links (relink r prev h q s) = (dag_links s)(prev := Some q, r := Some (Some h))"
    "dag_prevs (relink r prev h q s) = (case q of Some nxt \<Rightarrow> (dag_prevs s)(nxt := Some (Some prev)) | None \<Rightarrow> dag_prevs s)(h := Some (Some r))"
    "node_content (relink r prev h q s) = node_content s" "dag_listp (relink r prev h q s) = Some r"
    "gs_fresh (relink r prev h q s) = gs_fresh s" "dag_list_endp (relink r prev h q s) = (case q of Some _ \<Rightarrow> dag_list_endp s | None \<Rightarrow> Some prev)"
  using assms by (simp_all add: relink_def Let_def upd_node_link split: option.split)

lemma stichin_relinks:
  assumes "find_dag_node_by_type s (cstring ''root'') = Inr (Some r)" "gs_mem s r = Some nr" "dn_prevp nr = Some prev"
    and "gs_mem s prev \<noteq> None" "dag_listp s = Some h" "gs_mem s h \<noteq> None" "\<And>nxt. dn_nextp nr = Some nxt \<Longrightarrow> gs_mem s nxt \<noteq> None"
  shows "stichin_reqd_properties s = Inr (relink r prev h (dn_nextp nr) s)"
  using assms by (auto simp: stichin_reqd_properties_def dag_at_def dag_upd_node relink_def Let_def split: option.split)

lemma hoist_nodes:
  assumes ok: "dag_ok False s (as @ r # bs)" and as: "as \<noteq> []" and root: "find (is_root s) (as @ r # bs) = Some r"
  shows "\<exists>s'. stichin_reqd_properties s = Inr s' \<and> dag_ok True s' (r # as @ bs) \<and> (\<forall>p. node_content s' p = node_content s p)"
proof -
  let ?L = "dag_links s" and ?xs = "as @ r # bs" and ?prev = "last as" and ?h = "hd as"
  have path: "dag_path ?L (dag_listp s) ?xs" and len: "length ?xs \<le> gs_fresh s" using ok by (auto simp: dag_ok_def dag_holds_def)
  have d: "distinct ?xs" by (rule dag_path_distinct [OF path])
  have mem: "\<exists>n. gs_mem s x = Some n" if "x \<in> set ?xs" for x using dag_path_mem [OF path that] .
  obtain nr np nh where nr: "gs_mem s r = Some nr" "gs_mem s ?prev = Some np" "gs_mem s ?h = Some nh"
    using mem as by (metis Un_iff hd_in_set last_in_set list.set_intros(1) set_append)
  have h: "dag_listp s = Some ?h" using path as by (cases as) auto
  have next_r: "dn_nextp nr = (case bs of [] \<Rightarrow> None | b # _ \<Rightarrow> Some b)"
    using dag_path_tail [OF path] nr by (cases bs) (auto simp: dag_links_def)
  have "prev_ok s ?xs (length as)" using ok as by (auto simp: dag_ok_def)
  then have prev_r: "dn_prevp nr = Some ?prev" using nr as by (auto simp: prev_ok_def nth_append last_conv_nth)
  have ne: "?prev \<noteq> r" "?h \<noteq> r" using d as by auto
  let ?s = "relink r ?prev ?h (dn_nextp nr) s"
  have nxt: "gs_mem s nxt \<noteq> None" if "dn_nextp nr = Some nxt" for nxt
    using that next_r mem [of nxt] by (cases bs) auto
  have run: "stichin_reqd_properties s = Inr ?s"
    using nr prev_r h nxt root find_dag_node_holds(1) [of s ?xs] path len
    by (intro stichin_relinks) (auto simp: dag_holds_def is_root_def [abs_def])
  have facts: "dag_links ?s = ?L(?prev := Some (dn_nextp nr), r := Some (Some ?h))"
      "dag_prevs ?s = (case bs of [] \<Rightarrow> dag_prevs s | b # _ \<Rightarrow> (dag_prevs s)(b := Some (Some ?prev)))(?h := Some (Some r))"
      "node_content ?s = node_content s" "dag_listp ?s = Some r" "gs_fresh ?s = gs_fresh s"
      "dag_list_endp ?s = (case bs of [] \<Rightarrow> Some ?prev | _ \<Rightarrow> dag_list_endp s)"
    using relink_facts [of s r ?prev ?h "dn_nextp nr"] nr nxt next_r by (auto split: list.split)
  have "dag_holds ?s (r # as @ bs)"
    using dag_path_move [OF path as] nr(1) h facts len by (simp add: dag_holds_def dag_links_def)
  moreover have "prev_ok ?s (r # as @ bs) i" if "0 < i" and lt: "i < length (r # as @ bs)" for i
  proof -
    have idx: "dag_prevs s (?xs ! j) = Some (if j = 0 then None else Some (?xs ! (j - 1)))" if "j < length ?xs" for j
      using ok that by (simp add: dag_ok_def prev_ok_def dag_prevs_def)
    consider "i = 1" | "1 < i" "i \<le> length as" | "i = Suc (length as)" | "Suc (length as) < i" using \<open>0 < i\<close> by linarith
    then have "dag_prevs ?s ((r # as @ bs) ! i) = Some (Some ((r # as @ bs) ! (i - 1)))"
    proof cases
      case 1
      then show ?thesis using facts(2) as by (simp add: nth_append hd_conv_nth)
    next
      case 2
      then have y: "(r # as @ bs) ! i = as ! (i - 1)" "(r # as @ bs) ! (i - 1) = as ! (i - 2)"
        by (auto simp: nth_append nth_Cons' numeral_2_eq_2)
      have "as ! (i - 1) \<in> set as" using 2 by (intro nth_mem) simp
      moreover have "set as \<inter> set bs = {}" using d by auto
      ultimately have "as ! (i - 1) \<notin> set bs" by blast
      moreover have "as ! (i - 1) \<noteq> ?h" using 2 d as by (auto simp: hd_conv_nth nth_eq_iff_index_eq)
      moreover have "dag_prevs s (as ! (i - 1)) = Some (Some (as ! (i - 2)))"
      proof -
        have "i - 1 < length as" "i - 2 < length as" "i - 1 < length ?xs" "i - 1 \<noteq> 0" "i - 1 - 1 = i - 2" using 2 by auto
        then show ?thesis using idx [of "i - 1"] by (simp only: nth_append if_True if_False simp_thms)
      qed
      ultimately show ?thesis unfolding y using facts(2) by (cases bs) auto
    next
      case 3
      obtain b bs' where bs: "bs = b # bs'" using 3 lt by (cases bs) auto
      have "b \<noteq> ?h" using d as bs by (cases as) auto
      with 3 bs facts(2) as show ?thesis by (simp add: nth_append last_conv_nth)
    next
      case 4
      then have i: "(r # as @ bs) ! i = ?xs ! i" "(r # as @ bs) ! (i - 1) = ?xs ! (i - 1)" "i < length ?xs"
        using lt by (auto simp: nth_append nth_Cons')
      obtain b bs' where bs: "bs = b # bs'" using 4 lt by (cases bs) auto
      have "?xs ! i \<noteq> ?h" "?xs ! i \<noteq> b"
        using 4 i(3) nth_eq_iff_index_eq [OF d i(3), of 0] nth_eq_iff_index_eq [OF d i(3), of "Suc (length as)"] as bs
        by (auto simp: nth_append hd_conv_nth)
      then show ?thesis unfolding i(1,2) using idx [OF i(3)] 4 facts(2) bs by simp
    qed
    then show ?thesis using \<open>0 < i\<close> by (simp add: prev_ok_def dag_prevs_def)
  qed
  moreover have "dag_list_endp ?s = Some (last (r # as @ bs))" using ok as facts(6) by (cases bs) (auto simp: dag_ok_def)
  ultimately have "dag_ok True ?s (r # as @ bs)" using ok facts(5) by (auto simp: dag_ok_def)
  with run facts(3) show ?thesis by auto
qed

lemma stichin_hoists:
  assumes "dag_ok False s xs" "find (is_root s) xs = Some r"
  shows "\<exists>s'. stichin_reqd_properties s = Inr s' \<and> dag_ok (r \<noteq> hd xs) s' (r # remove1 r xs) \<and> (\<forall>p. node_content s' p = node_content s p)"
proof -
  obtain as bs where xs: "xs = as @ r # bs" "is_root s r" "\<forall>a\<in>set as. \<not> is_root s a" using assms(2) find_split by metis
  show ?thesis
  proof (cases "as = []")
    case True
    have "dag_holds s xs" "prev_ok s xs 0" using assms(1) xs(1) by (auto simp: dag_ok_def)
    then have "stichin_reqd_properties s = Inr s"
      using assms(2) True xs(1) find_dag_node_holds(1) [of s xs]
      by (auto simp: stichin_reqd_properties_def prev_ok_def dag_at_def is_root_def [abs_def] split: option.splits)
    with True xs(1) assms(1) show ?thesis by auto
  next
    case False
    have "distinct xs" using assms(1) by (auto simp: dag_ok_def dag_holds_def intro: dag_path_distinct)
    then have "r # remove1 r xs = r # as @ bs" "r \<noteq> hd xs" using xs(1) False by (auto simp: remove1_append)
    then show ?thesis using hoist_nodes [of s as r bs] False assms xs(1) by simp
  qed
qed

lemma stichin_rootless:
  "dag_ok False s xs \<Longrightarrow> find (is_root s) xs = None \<Longrightarrow> stichin_reqd_properties s = Inl Fatal"
  using find_dag_node_holds(1) [of s xs] by (simp add: stichin_reqd_properties_def dag_ok_def is_root_def [abs_def])

text \<open>
  C30. \<open>stichin_reqd_properties\<close> puts the root first.  On a list of nodes built by the
  parser it fails exactly when there is no node of type \<open>root\<close>; otherwise the list it
  leaves is the first such node followed by the others in their order, properly linked,
  and no node has changed but for its links.
\<close>

theorem stichin_moves_root:
  assumes "dag_ok False s xs"
  shows "case find (is_root s) xs of
      None \<Rightarrow> stichin_reqd_properties s = Inl Fatal
    | Some r \<Rightarrow> \<exists>s'. stichin_reqd_properties s = Inr s' \<and> dag_ok (r \<noteq> hd xs) s' (r # remove1 r xs) \<and>
        (\<forall>p. node_content s' p = node_content s p)"
  using stichin_rootless [OF assms] stichin_hoists [OF assms] by (cases "find (is_root s) xs") auto

text \<open>A description whose second node is the root.\<close>

definition two_nodes :: mdgen where
  "two_nodes = \<lparr> lex_toks = [], gs_mem = [
       0 \<mapsto> dag_node_zero\<lparr> dn_typep := cstring ''guest'', dn_namep := cstring ''g'', dn_nextp := Some 1 \<rparr>,
       1 \<mapsto> dag_node_zero\<lparr> dn_typep := cstring ''root'', dn_namep := cstring ''r'', dn_prevp := Some 0 \<rparr>],
     gs_fresh = 2, dag_listp = Some 0, dag_list_endp = Some 1,
     name_blk = \<lparr> blk_chunks = [], blk_total_size = 0 \<rparr>, data_blk = \<lparr> blk_chunks = [], blk_total_size = 0 \<rparr>, gs_out = [] \<rparr>"

theorem stichin_moves_root_witness:
  "\<exists>s'. stichin_reqd_properties two_nodes = Inr s' \<and> dag_ok True s' [1, 0] \<and> node_content s' 0 = node_content two_nodes 0"
proof -
  have "dag_ok False two_nodes [0, 1]"
    by (auto simp: dag_ok_def dag_holds_def two_nodes_def dag_links_def prev_ok_def dag_node_zero_def less_Suc_eq)
  moreover have "find (is_root two_nodes) [0, 1] = Some 1"
    by (simp add: is_root_def two_nodes_def cstring_def)
  ultimately show ?thesis using stichin_moves_root [of two_nodes "[0, 1]"] by (auto simp del: find.simps)
qed

end
