(* ===== verification/Mdgen_Parse.thy ===== *)
theory Mdgen_Parse
  imports Mdgen_Dag
begin

text \<open>
  The parser of \<open>mdgen\<close> (\<open>support/mdgen/mdparse.c\<close>) on the tokens of its lexer.

  \<open>ENABLE_LOOKUP\<close>, \<open>ENABLE_PROTO\<close> and \<open>ENABLE_SETPROP\<close> of the build are the fields
  of \<open>gen_opts\<close>.  Loops and recursive calls that read tokens take fuel; the amounts
  given by the functions that start them are enough whatever the tokens are.  Values
  of strings are copied, so that the sharing of a string between the property a
  \<open>lookup\<close> reads and the one it defines is not seen.

  Shown here: an expression is evaluated, and never for ever; a chain of operators is
  evaluated from left to right without precedence, modulo \<open>2 ^ 64\<close>; adding strings in
  an expression is always rejected; and \<open>parse_data\<close> keeps the value of a number in as
  few bytes as it needs.
\<close>

record gen_opts =
  en_lookup :: bool
  en_proto :: bool
  en_setprop :: bool

subsection \<open>Tokens\<close>

definition lex_get_token :: "mdgen \<Rightarrow> lexer_tok \<times> mdgen" where
  "lex_get_token s = (case lex_toks s of [] \<Rightarrow> (T_EOF, s) | t # ts \<Rightarrow> (t, s\<lparr> lex_toks := ts \<rparr>))"

definition lex_get :: "lexer_tok \<Rightarrow> mdgen \<Rightarrow> mdgen hv" where
  "lex_get expected s = (let (tok, s) = lex_get_token s in if tok = expected then Inr s else Inl Fatal)"

text \<open>\<open>lex_get(T_Token)\<close> and the string it leaves in \<open>lex.strp\<close>.\<close>

definition lex_get_name :: "mdgen \<Rightarrow> (cstr \<times> mdgen) hv" where
  "lex_get_name s = (case lex_get_token s of (T_Token strp, s) \<Rightarrow> Inr (strp, s) | _ \<Rightarrow> Inl Fatal)"

definition grab_node :: "mdgen \<Rightarrow> (nat \<times> mdgen) hv" where
  "grab_node s = (case lex_get_token s of
     (T_Token strp, s) \<Rightarrow> hbind (find_dag_node_by_name s strp) (\<lambda>r. case r of None \<Rightarrow> Inl Fatal | Some p \<Rightarrow> Inr (p, s))
   | _ \<Rightarrow> Inl Fatal)"

definition grab_prop :: "nat \<Rightarrow> mdgen \<Rightarrow> (nat \<times> mdgen) hv" where
  "grab_prop p s = (case lex_get_token s of
     (T_Token strp, s) \<Rightarrow> hbind (dag_at s p) (\<lambda>n.
       case find_pair_by_name (dn_properties n) strp of None \<Rightarrow> Inl Fatal | Some i \<Rightarrow> Inr (i, s))
   | _ \<Rightarrow> Inl Fatal)"

definition parse_lookup :: "mdgen \<Rightarrow> (pair_value \<times> mdgen) hv" where
  "parse_lookup s = hbind (grab_node s) (\<lambda>(src, s). hbind (lex_get T_Comma s) (\<lambda>s.
     hbind (grab_prop src s) (\<lambda>(i, s). hbind (lex_get T_R_Bracket s) (\<lambda>s. hbind (dag_at s src) (\<lambda>n.
     Inr (pe_value (pl_listp (dn_properties n) ! i), s))))))"

subsection \<open>Expressions\<close>

datatype expr_type = EXPR_ANY | EXPR_OP | EXPR_INT | EXPR_STR | EXPR_EVAL_INT | EXPR_EVAL_STR

text \<open>\<open>utype\<close> of the result while it has no value yet.\<close>

datatype expr_utype = X_none | X_int | X_string

record expr_loc =
  ex_tok :: lexer_tok
  ex_op :: lexer_tok
  ex_lval :: u64
  ex_lstr :: cstr
  ex_n0 :: u64
  ex_n1 :: u64
  ex_str0 :: cstr
  ex_str1 :: cstr
  ex_idx :: nat
  ex_type :: expr_type
  ex_getop :: bool
  ex_invert :: bool
  ex_utype :: expr_utype

definition expr_init :: expr_loc where
  "expr_init = \<lparr> ex_tok = T_EOF, ex_op = T_EOF, ex_lval = 0, ex_lstr = [], ex_n0 = 0, ex_n1 = 0, ex_str0 = [], ex_str1 = [],
     ex_idx = 0, ex_type = EXPR_ANY, ex_getop = True, ex_invert = False, ex_utype = X_none \<rparr>"

definition expr_fetch :: "expr_loc \<Rightarrow> mdgen \<Rightarrow> expr_loc \<times> mdgen" where
  "expr_fetch x s = (if ex_getop x then
     (let (tok, s) = lex_get_token s in
      (x\<lparr> ex_tok := tok, ex_lval := (case tok of T_Number v \<Rightarrow> v | _ \<Rightarrow> ex_lval x),
          ex_lstr := (case tok of T_String strp \<Rightarrow> strp | _ \<Rightarrow> ex_lstr x) \<rparr>, s))
   else (x, s))"

text \<open>Whether another operand has been read decides what follows.\<close>

definition expr_operand :: "expr_type \<Rightarrow> expr_loc \<Rightarrow> expr_loc" where
  "expr_operand eval x = (if ex_idx x \<noteq> 0 then x\<lparr> ex_type := eval, ex_getop := False \<rparr>
     else x\<lparr> ex_type := EXPR_OP, ex_idx := 1, ex_getop := True \<rparr>)"

definition expr_number :: "expr_loc \<Rightarrow> expr_loc" where
  "expr_number x =
     (let v = (if ex_invert x then NOT (ex_lval x) else ex_lval x);
          x = (if ex_idx x = 0 then x\<lparr> ex_n0 := v \<rparr> else x\<lparr> ex_n1 := v \<rparr>)
      in expr_operand EXPR_EVAL_INT (x\<lparr> ex_invert := False, ex_utype := X_int \<rparr>))"

definition expr_string :: "expr_loc \<Rightarrow> expr_loc" where
  "expr_string x =
     (let x = (if ex_idx x = 0 then x\<lparr> ex_str0 := ex_lstr x \<rparr> else x\<lparr> ex_str1 := ex_lstr x \<rparr>)
      in expr_operand EXPR_EVAL_STR (x\<lparr> ex_utype := X_string \<rparr>))"

text \<open>The value of a nested expression or lookup becomes the token.\<close>

definition expr_nested :: "pair_value \<Rightarrow> expr_loc \<Rightarrow> expr_loc hv" where
  "expr_nested v x = (case v of
     PE_int w \<Rightarrow> Inr (x\<lparr> ex_type := (if ex_utype x = X_int \<or> ex_utype x = X_none then EXPR_INT else EXPR_STR),
       ex_tok := T_Number w, ex_lval := w, ex_getop := False \<rparr>)
   | PE_string strp \<Rightarrow> Inr (x\<lparr> ex_type := (if ex_utype x = X_string \<or> ex_utype x = X_none then EXPR_STR else EXPR_INT),
       ex_tok := T_String strp, ex_lstr := strp, ex_getop := False \<rparr>)
   | _ \<Rightarrow> Inl Fatal)"

text \<open>C leaves a shift by the width or more undefined.\<close>

definition expr_int_op :: "lexer_tok \<Rightarrow> u64 \<Rightarrow> u64 \<Rightarrow> u64 hv" where
  "expr_int_op op a b = (case op of
     T_Minus \<Rightarrow> Inr (a - b) | T_Xor \<Rightarrow> Inr (a XOR b) | T_Or \<Rightarrow> Inr (a OR b) | T_And \<Rightarrow> Inr (a AND b)
   | T_Plus \<Rightarrow> Inr (a + b) | T_Multiply \<Rightarrow> Inr (a * b)
   | T_LShift \<Rightarrow> if unat b < 64 then Inr (push_bit (unat b) a) else Inl Undefined
   | _ \<Rightarrow> Inl Fatal)"

definition expr_eval_int :: "expr_loc \<Rightarrow> expr_loc hv" where
  "expr_eval_int x = hbind (expr_int_op (ex_op x) (ex_n0 x) (ex_n1 x)) (\<lambda>v.
     Inr (x\<lparr> ex_utype := X_int, ex_idx := 1, ex_getop := True, ex_n0 := v, ex_type := EXPR_OP \<rparr>))"

definition expr_eval_str :: "expr_loc \<Rightarrow> expr_loc hv" where
  "expr_eval_str x = (if ex_op x = T_Plus
     then Inr (x\<lparr> ex_utype := X_string, ex_idx := 1, ex_str0 := ex_str0 x @ ex_str1 x, ex_type := EXPR_OP \<rparr>) else Inl Fatal)"

definition expr_result :: "expr_loc \<Rightarrow> pair_value hv" where
  "expr_result x = (if ex_idx x = 1 then Inr (if ex_utype x = X_int then PE_int (ex_n0 x) else PE_string (ex_str0 x)) else Inl Fatal)"

text \<open>An operand is looked for: the cases that end in it, are refused, or go on with the same operand.\<close>

definition expr_simple :: "expr_loc \<Rightarrow> expr_loc hv" where
  "expr_simple x = (case ex_tok x of
     T_Not \<Rightarrow> if ex_type x = EXPR_STR then Inl Fatal else Inr (x\<lparr> ex_invert := True \<rparr>)
   | T_Number _ \<Rightarrow> if ex_type x = EXPR_STR then Inl Fatal else Inr (expr_number x)
   | T_String _ \<Rightarrow> if ex_type x = EXPR_INT then Inl Fatal else Inr (expr_string x)
   | _ \<Rightarrow> Inl Fatal)"

fun parse_expr_loop :: "gen_opts \<Rightarrow> nat \<Rightarrow> expr_loc \<Rightarrow> mdgen \<Rightarrow> (pair_value \<times> mdgen) hv" where
  "parse_expr_loop opts 0 x s = Inl Hang"
| "parse_expr_loop opts (Suc f) x s =
     (let (x, s) = expr_fetch x s in
      case ex_type x of
        EXPR_OP \<Rightarrow> if ex_tok x = T_R_Bracket then hbind (expr_result x) (\<lambda>v. Inr (v, s))
          else parse_expr_loop opts f (x\<lparr> ex_op := ex_tok x, ex_type := (if ex_utype x = X_int then EXPR_INT else EXPR_STR) \<rparr>) s
      | EXPR_EVAL_INT \<Rightarrow> hbind (expr_eval_int x) (\<lambda>x. parse_expr_loop opts f x s)
      | EXPR_EVAL_STR \<Rightarrow> hbind (expr_eval_str x) (\<lambda>x. parse_expr_loop opts f x s)
      | _ \<Rightarrow>
        if ex_tok x = T_KW_expr then
          hbind (parse_expr_loop opts f expr_init s) (\<lambda>(v, s). hbind (expr_nested v x) (\<lambda>x. parse_expr_loop opts f x s))
        else if ex_tok x = T_KW_lookup \<and> en_lookup opts then
          hbind (parse_lookup s) (\<lambda>(v, s). hbind (expr_nested v x) (\<lambda>x. parse_expr_loop opts f x s))
        else hbind (expr_simple x) (\<lambda>x. parse_expr_loop opts f x s))"

definition parse_expr :: "gen_opts \<Rightarrow> mdgen \<Rightarrow> (pair_value \<times> mdgen) hv" where
  "parse_expr opts s = parse_expr_loop opts (8 * length (lex_toks s) + 4) expr_init s"

subsection \<open>Expressions end\<close>

definition toks_left :: "mdgen \<Rightarrow> nat" where "toks_left s = length (lex_toks s)"

text \<open>Reading tokens changes nothing else, and brings no new ones.\<close>

definition same_but_toks :: "mdgen \<Rightarrow> mdgen \<Rightarrow> bool" where
  "same_but_toks s s' \<longleftrightarrow> s' = s\<lparr> lex_toks := lex_toks s' \<rparr> \<and> set (lex_toks s') \<subseteq> set (lex_toks s)"

lemma same_but_toks_refl [simp]: "same_but_toks s s" by (simp add: same_but_toks_def)

lemma same_but_toks_trans: "same_but_toks s t \<Longrightarrow> same_but_toks t u \<Longrightarrow> same_but_toks s u"
  by (cases s; cases t; cases u) (auto simp: same_but_toks_def)

lemma same_but_toks_holds:
  assumes "same_but_toks s s'" "dag_holds s xs"
  shows "dag_holds s' xs"
proof -
  have "gs_mem s' = gs_mem s" "dag_listp s' = dag_listp s" "gs_fresh s' = gs_fresh s"
    using assms(1) by (metis mdgen.surjective mdgen.update_convs(1) mdgen.ext_inject same_but_toks_def)+
  moreover from this have "dag_links s' = dag_links s" by (simp add: dag_links_def fun_eq_iff)
  ultimately show ?thesis using assms(2) by (simp add: dag_holds_def)
qed

lemma lex_get_token_cases:
  obtains "lex_toks s = []" "lex_get_token s = (T_EOF, s)"
  | t ts where "lex_toks s = t # ts" "lex_get_token s = (t, s\<lparr> lex_toks := ts \<rparr>)"
  by (cases "lex_toks s") (auto simp: lex_get_token_def)

lemma lex_get_token_left: "lex_get_token s = (t, s') \<Longrightarrow> same_but_toks s s' \<and> toks_left s' \<le> toks_left s \<and> (t \<noteq> T_EOF \<longrightarrow> toks_left s' < toks_left s)"
  by (auto simp: lex_get_token_def same_but_toks_def toks_left_def split: list.splits)

definition reads_on :: "mdgen \<Rightarrow> ('a \<times> mdgen) hv \<Rightarrow> bool" where
  "reads_on s r \<longleftrightarrow> r \<noteq> Inl Hang \<and> (\<forall>v s'. r = Inr (v, s') \<longrightarrow> same_but_toks s s' \<and> toks_left s' < toks_left s)"

lemma reads_on_bind:
  assumes "reads_on s m" "\<And>v s'. m = Inr (v, s') \<Longrightarrow> same_but_toks s s' \<Longrightarrow> toks_left s' < toks_left s \<Longrightarrow>
      k (v, s') \<noteq> Inl Hang \<and> (\<forall>w t. k (v, s') = Inr (w, t) \<longrightarrow> same_but_toks s' t \<and> toks_left t \<le> toks_left s')"
  shows "reads_on s (hbind m k)"
proof (cases m)
  case (Inl e)
  with assms(1) show ?thesis by (simp add: reads_on_def)
next
  case (Inr vs)
  then obtain v s' where m: "m = Inr (v, s')" by (cases vs) auto
  with assms(1) have s': "same_but_toks s s'" "toks_left s' < toks_left s" by (auto simp: reads_on_def)
  from assms(2) [OF m s'] show ?thesis using m s' by (fastforce simp: reads_on_def intro: same_but_toks_trans)
qed

lemma reads_onD: "reads_on s' r \<Longrightarrow> r \<noteq> Inl Hang \<and> (\<forall>w t. r = Inr (w, t) \<longrightarrow> same_but_toks s' t \<and> toks_left t \<le> toks_left s')"
  by (auto simp: reads_on_def)

lemma grab_node_reads: "dag_holds s xs \<Longrightarrow> reads_on s (grab_node s)"
proof -
  assume h: "dag_holds s xs"
  show ?thesis
  proof (cases "lex_get_token s")
    case (Pair t s1)
    note l = lex_get_token_left [OF Pair]
    then have "dag_holds s1 xs" using h same_but_toks_holds by blast
    note f = find_dag_node_holds(2) [OF this]
    show ?thesis using l f by (cases t) (auto simp: grab_node_def Pair reads_on_def hbind_eq_Inl hbind_eq_Inr split: option.splits)
  qed
qed

lemma grab_prop_reads: "reads_on s (grab_prop p s)"
proof (cases "lex_get_token s")
  case (Pair t s1)
  show ?thesis using lex_get_token_left [OF Pair]
    by (cases t) (auto simp: grab_prop_def Pair reads_on_def hbind_eq_Inl hbind_eq_Inr dag_at_def split: option.splits)
qed

lemma lex_get_reads: "t \<noteq> T_EOF \<Longrightarrow> lex_get t s = Inr s' \<Longrightarrow> same_but_toks s s' \<and> toks_left s' < toks_left s" "lex_get t s \<noteq> Inl Hang"
  using lex_get_token_left [of s] by (auto simp: lex_get_def split: prod.splits if_splits)

lemma lex_get_le: "lex_get t s = Inr s' \<Longrightarrow> same_but_toks s s' \<and> toks_left s' \<le> toks_left s"
  using lex_get_token_left [of s] by (auto simp: lex_get_def split: prod.splits if_splits)

lemma parse_lookup_left:
  assumes "dag_holds s xs"
  shows "reads_on s (parse_lookup s)"
  unfolding parse_lookup_def
proof (rule reads_on_bind [OF grab_node_reads [OF assms]], unfold prod.case, rule reads_onD)
  fix src s'
  have "reads_on s1 (hbind (grab_prop src s1) (\<lambda>(i, s). hbind (lex_get T_R_Bracket s) (\<lambda>s. hbind (dag_at s src)
      (\<lambda>n. Inr (pe_value (pl_listp (dn_properties n) ! i), s)))))" for s1
    by (rule reads_on_bind [OF grab_prop_reads])
      (auto simp: hbind_eq_Inl hbind_eq_Inr lex_get_reads(2) dag_at_def dest!: lex_get_le split: option.splits)
  then show "reads_on s' (hbind (lex_get T_Comma s') (\<lambda>s. hbind (grab_prop src s) (\<lambda>(i, s). hbind (lex_get T_R_Bracket s) (\<lambda>s.
      hbind (dag_at s src) (\<lambda>n. Inr (pe_value (pl_listp (dn_properties n) ! i), s))))))"
    using lex_get_reads [of T_Comma s'] by (cases "lex_get T_Comma s'") (fastforce simp: reads_on_def intro: same_but_toks_trans)+
qed

text \<open>
  What is left to do, in iterations, when \<open>l\<close> tokens are left; \<open>expr_inv\<close> holds of the
  locals of the loop.
\<close>

definition is_str :: "lexer_tok \<Rightarrow> bool" where
  "is_str t = (case t of T_String _ \<Rightarrow> True | _ \<Rightarrow> False)"

definition expr_inv :: "expr_loc \<Rightarrow> bool" where
  "expr_inv x \<longleftrightarrow> (ex_getop x \<longrightarrow> ex_type x \<noteq> EXPR_EVAL_INT \<and> ex_type x \<noteq> EXPR_EVAL_STR) \<and>
     (\<not> ex_getop x \<and> ex_type x = EXPR_OP \<longrightarrow> is_str (ex_tok x) \<and> ex_idx x = 1 \<and> ex_utype x = X_string) \<and>
     (\<not> ex_getop x \<and> ex_type x = EXPR_EVAL_STR \<longrightarrow> is_str (ex_tok x)) \<and>
     (\<not> ex_getop x \<longrightarrow> ex_tok x \<noteq> T_KW_expr \<and> ex_tok x \<noteq> T_KW_lookup \<and> ex_tok x \<noteq> T_R_Bracket \<and> ex_tok x \<noteq> T_Not)"

definition expr_need :: "expr_loc \<Rightarrow> nat \<Rightarrow> nat" where
  "expr_need x l = 8 * l +
     (if ex_getop x then (if ex_type x = EXPR_OP then 4 else 3)
      else case ex_type x of EXPR_EVAL_INT \<Rightarrow> 5 | EXPR_EVAL_STR \<Rightarrow> (if ex_op x = T_Plus then 6 else 1) | EXPR_OP \<Rightarrow> 3
        | _ \<Rightarrow> (if is_str (ex_tok x) \<and> ex_op x \<noteq> T_Plus \<and> ex_idx x \<noteq> 0 then 2 else 7))"

lemma expr_simple_cases:
  assumes "expr_simple x = Inr y"
  obtains (inv) "ex_tok x = T_Not" "y = x\<lparr> ex_invert := True \<rparr>"
  | (num) v where "ex_tok x = T_Number v" "y = expr_number x"
  | (str) v where "ex_tok x = T_String v" "y = expr_string x"
  using assms by (cases "ex_tok x") (auto simp: expr_simple_def split: if_splits)

lemma expr_operand_fields:
  "ex_tok (expr_number x) = ex_tok x" "ex_op (expr_number x) = ex_op x" "ex_getop (expr_number x) \<longleftrightarrow> ex_idx x = 0"
  "ex_type (expr_number x) = (if ex_idx x = 0 then EXPR_OP else EXPR_EVAL_INT)"
  "ex_tok (expr_string x) = ex_tok x" "ex_op (expr_string x) = ex_op x" "ex_getop (expr_string x) \<longleftrightarrow> ex_idx x = 0"
  "ex_type (expr_string x) = (if ex_idx x = 0 then EXPR_OP else EXPR_EVAL_STR)"
  by (simp_all add: expr_number_def expr_string_def expr_operand_def Let_def)

lemma expr_simple_step:
  assumes "expr_simple x = Inr y" "expr_inv x" "ex_type x \<in> {EXPR_ANY, EXPR_INT, EXPR_STR}"
  shows "expr_inv y" "ex_getop x \<Longrightarrow> expr_need y l < expr_need x (Suc l)" "\<not> ex_getop x \<Longrightarrow> expr_need y l < expr_need x l"
proof -
  have "expr_inv y \<and> (ex_getop x \<longrightarrow> expr_need y l < expr_need x (Suc l)) \<and> (\<not> ex_getop x \<longrightarrow> expr_need y l < expr_need x l)"
    using assms(1)
  proof (cases rule: expr_simple_cases)
    case inv
    with assms(2,3) show ?thesis by (auto simp: expr_inv_def expr_need_def)
  next
    case num
    with assms(2,3) show ?thesis by (auto simp: expr_inv_def expr_need_def expr_operand_fields is_str_def)
  next
    case str
    with assms(2,3) show ?thesis by (auto simp: expr_inv_def expr_need_def expr_operand_fields is_str_def)
  qed
  then show "expr_inv y" "ex_getop x \<Longrightarrow> expr_need y l < expr_need x (Suc l)" "\<not> ex_getop x \<Longrightarrow> expr_need y l < expr_need x l" by auto
qed

lemma expr_nested_step:
  assumes "expr_nested v x = Inr y" "ex_type x \<in> {EXPR_ANY, EXPR_INT, EXPR_STR}" "ex_getop x"
  shows "expr_inv y" "expr_need y l < expr_need x (Suc l)"
proof -
  have "ex_tok y \<noteq> T_KW_expr \<and> ex_tok y \<noteq> T_KW_lookup \<and> ex_tok y \<noteq> T_R_Bracket \<and> ex_tok y \<noteq> T_Not \<and>
      (ex_type y = EXPR_INT \<or> ex_type y = EXPR_STR) \<and> \<not> ex_getop y"
    using assms(1) by (cases v) (simp_all add: expr_nested_def, auto split: if_splits)
  then show "expr_inv y" "expr_need y l < expr_need x (Suc l)"
    using assms(2,3) by (auto simp: expr_inv_def expr_need_def)
qed

lemma expr_eval_step:
  assumes "expr_inv x"
  shows "ex_type x = EXPR_EVAL_INT \<Longrightarrow> expr_eval_int x = Inr y \<Longrightarrow> expr_inv y \<and> expr_need y l < expr_need x l"
    "ex_type x = EXPR_EVAL_STR \<Longrightarrow> expr_eval_str x = Inr y \<Longrightarrow> expr_inv y \<and> expr_need y l < expr_need x l"
  using assms by (auto simp: expr_eval_int_def expr_eval_str_def expr_inv_def expr_need_def hbind_eq_Inr split: if_splits)

lemma expr_fetch_cases:
  obtains "\<not> ex_getop x" "expr_fetch x s = (x, s)"
  | t s' where "ex_getop x" "lex_get_token s = (t, s')" "ex_tok (fst (expr_fetch x s)) = t" "snd (expr_fetch x s) = s'"
      "ex_type (fst (expr_fetch x s)) = ex_type x" "ex_getop (fst (expr_fetch x s))" "ex_op (fst (expr_fetch x s)) = ex_op x"
      "ex_idx (fst (expr_fetch x s)) = ex_idx x" "ex_utype (fst (expr_fetch x s)) = ex_utype x"
  by (cases "ex_getop x"; cases "lex_get_token s") (auto simp: expr_fetch_def)

text \<open>The loop, by what the locals hold after the fetch.\<close>

lemma parse_expr_loop_unfold:
  assumes "expr_fetch x s = (y, t)"
  shows "parse_expr_loop opts (Suc f) x s =
     (if ex_type y = EXPR_OP then if ex_tok y = T_R_Bracket then hbind (expr_result y) (\<lambda>v. Inr (v, t))
          else parse_expr_loop opts f (y\<lparr> ex_op := ex_tok y, ex_type := (if ex_utype y = X_int then EXPR_INT else EXPR_STR) \<rparr>) t
      else if ex_type y = EXPR_EVAL_INT then hbind (expr_eval_int y) (\<lambda>x. parse_expr_loop opts f x t)
      else if ex_type y = EXPR_EVAL_STR then hbind (expr_eval_str y) (\<lambda>x. parse_expr_loop opts f x t)
      else if ex_tok y = T_KW_expr then
          hbind (parse_expr_loop opts f expr_init t) (\<lambda>(v, s). hbind (expr_nested v y) (\<lambda>x. parse_expr_loop opts f x s))
        else if ex_tok y = T_KW_lookup \<and> en_lookup opts then
          hbind (parse_lookup t) (\<lambda>(v, s). hbind (expr_nested v y) (\<lambda>x. parse_expr_loop opts f x s))
        else hbind (expr_simple y) (\<lambda>x. parse_expr_loop opts f x t))"
  using assms by (cases "ex_type y") (simp_all add: Let_def)

declare parse_expr_loop.simps(2) [simp del]

lemma reads_on_step:
  assumes "reads_on t r" "same_but_toks s t" "toks_left t \<le> toks_left s"
  shows "reads_on s r"
  using assms by (fastforce simp: reads_on_def intro: same_but_toks_trans)

lemma reads_on_case:
  assumes "reads_on t m" "\<And>v u y. m = Inr (v, u) \<Longrightarrow> same_but_toks t u \<Longrightarrow> toks_left u < toks_left t \<Longrightarrow>
      g v = Inr y \<Longrightarrow> reads_on u (k y u)" "\<And>v. g v \<noteq> Inl Hang"
  shows "reads_on t (hbind m (\<lambda>(v, u). hbind (g v) (\<lambda>y. k y u)))"
proof (rule reads_on_bind [OF assms(1)], unfold prod.case)
  fix v u
  assume m: "m = Inr (v, u)" "same_but_toks t u" "toks_left u < toks_left t"
  show "hbind (g v) (\<lambda>y. k y u) \<noteq> Inl Hang \<and>
      (\<forall>w t. hbind (g v) (\<lambda>y. k y u) = Inr (w, t) \<longrightarrow> same_but_toks u t \<and> toks_left t \<le> toks_left u)"
  proof (cases "g v")
    case (Inr y)
    with assms(2) [OF m] reads_onD show ?thesis by fastforce
  qed (use assms(3) [of v] in auto)
qed

lemma expr_no_hang: "expr_simple x \<noteq> Inl Hang" "expr_nested v x \<noteq> Inl Hang" "expr_eval_int x \<noteq> Inl Hang" "expr_eval_str x \<noteq> Inl Hang"
    "expr_result x \<noteq> Inl Hang"
  by (auto simp: expr_simple_def expr_nested_def expr_eval_int_def expr_eval_str_def expr_result_def hbind_eq_Inl expr_int_op_def
      split: lexer_tok.splits pair_value.splits if_splits)

lemma parse_expr_loop_ends:
  "expr_inv x \<Longrightarrow> dag_holds s xs \<Longrightarrow> expr_need x (toks_left s) \<le> f \<Longrightarrow> reads_on s (parse_expr_loop opts f x s)"
proof (induction f arbitrary: x s)
  case 0
  then show ?case by (auto simp: expr_need_def split: if_splits expr_type.splits)
next
  case (Suc f)
  obtain y t where yt: "expr_fetch x s = (y, t)" by (cases "expr_fetch x s")
  note un = parse_expr_loop_unfold [OF yt, of opts f]
  show ?case
  proof (cases "ex_getop x")
    case True
    then obtain tk where tk: "lex_get_token s = (tk, t)" "ex_tok y = tk" "ex_type y = ex_type x" "ex_getop y"
      using yt by (cases x s rule: expr_fetch_cases) auto
    note left = lex_get_token_left [OF tk(1)]
    have holds: "dag_holds t xs" using left Suc.prems(2) same_but_toks_holds by blast
    have ty: "ex_type x \<noteq> EXPR_EVAL_INT" "ex_type x \<noteq> EXPR_EVAL_STR" using Suc.prems(1) True by (auto simp: expr_inv_def)
    have inv_y: "expr_inv y" using tk ty by (simp add: expr_inv_def)
    have need: "expr_need y l = expr_need x l" for l using tk True by (simp add: expr_need_def)
    show ?thesis
    proof (cases "ex_type x = EXPR_OP")
      case op: True
      show ?thesis
      proof (cases "tk = T_R_Bracket")
        case True
        with op tk left un expr_no_hang(5) [of y] show ?thesis by (auto simp: reads_on_def hbind_eq_Inr hbind_eq_Inl)
      next
        case False
        let ?z = "y\<lparr> ex_op := ex_tok y, ex_type := (if ex_utype y = X_int then EXPR_INT else EXPR_STR) \<rparr>"
        have "expr_inv ?z" "expr_need ?z (toks_left t) \<le> f"
          using Suc.prems(3) tk left op True by (auto simp: expr_inv_def expr_need_def)
        from Suc.IH [OF this(1) holds this(2)] False op tk un left show ?thesis by (auto intro: reads_on_step)
      qed
    next
      case operand: False
      then have set: "ex_type y \<in> {EXPR_ANY, EXPR_INT, EXPR_STR}" using ty tk by (cases "ex_type x") auto
      show ?thesis
      proof (cases "tk = T_EOF")
        case True
        then have "expr_simple y = Inl Fatal" by (simp add: expr_simple_def tk(2))
        with True operand ty tk un show ?thesis by (simp add: reads_on_def)
      next
        case False
        then have lt: "toks_left t < toks_left s" using left by blast
        then have fuel: "expr_need y (Suc (toks_left t)) \<le> Suc f"
          using Suc.prems(3) need [of "Suc (toks_left t)"] by (simp add: expr_need_def split: if_splits)
        have nested: "reads_on t (hbind m (\<lambda>(v, s). hbind (expr_nested v y) (\<lambda>x. parse_expr_loop opts f x s)))" if "reads_on t m" for m
        proof (rule reads_on_case [OF that])
          fix v u z
          assume u: "same_but_toks t u" "toks_left u < toks_left t" and z: "expr_nested v y = Inr z"
          have "expr_inv z" "expr_need z (toks_left u) < expr_need y (Suc (toks_left u))"
            by (rule expr_nested_step [OF z set tk(4)])+
          moreover have "expr_need y (Suc (toks_left u)) \<le> expr_need y (Suc (toks_left t))" using u(2) by (simp add: expr_need_def)
          ultimately show "reads_on u (parse_expr_loop opts f z u)"
            using fuel u holds by (intro Suc.IH) (auto intro: same_but_toks_holds)
        qed (rule expr_no_hang)
        have init: "reads_on t (parse_expr_loop opts f expr_init t)"
        proof (rule Suc.IH [OF _ holds])
          show "expr_inv expr_init" by (simp add: expr_inv_def expr_init_def)
          show "expr_need expr_init (toks_left t) \<le> f" using fuel tk(4) by (simp add: expr_need_def expr_init_def split: if_splits)
        qed
        have simple: "reads_on t (hbind (expr_simple y) (\<lambda>x. parse_expr_loop opts f x t))"
        proof (cases "expr_simple y")
          case (Inr z)
          have "expr_inv z" "expr_need z (toks_left t) < expr_need y (Suc (toks_left t))"
            using expr_simple_step [OF Inr inv_y set] tk(4) by auto
          with Inr fuel Suc.IH [OF _ holds] show ?thesis by simp
        qed (use expr_no_hang(1) [of y] in \<open>auto simp: reads_on_def\<close>)
        have "reads_on t (parse_expr_loop opts (Suc f) x s)"
          using operand ty tk(3) nested [OF init] nested [OF parse_lookup_left [OF holds]] simple by (simp add: un)
        with left show ?thesis by (auto intro: reads_on_step)
      qed
    qed
  next
    case False
    then have yx: "y = x" "t = s" using yt by (simp_all add: expr_fetch_def)
    note inv = Suc.prems(1) [unfolded expr_inv_def]
    have go: "reads_on s (hbind m (\<lambda>x. parse_expr_loop opts f x s))"
      if "m \<noteq> Inl Hang" "\<And>z. m = Inr z \<Longrightarrow> expr_inv z \<and> expr_need z (toks_left s) < expr_need x (toks_left s)" for m
    proof (cases m)
      case (Inl e)
      with that(1) show ?thesis by (simp add: reads_on_def)
    next
      case (Inr z)
      with that(2) [OF Inr] Suc.prems(3) Suc.IH [OF _ Suc.prems(2), of z] show ?thesis by simp
    qed
    consider "ex_type x = EXPR_OP" | "ex_type x = EXPR_EVAL_INT" | "ex_type x = EXPR_EVAL_STR" | "ex_type x \<in> {EXPR_ANY, EXPR_INT, EXPR_STR}"
      by (cases "ex_type x") auto
    then show ?thesis
    proof cases
      case 1
      let ?z = "x\<lparr> ex_op := ex_tok x, ex_type := (if ex_utype x = X_int then EXPR_INT else EXPR_STR) \<rparr>"
      have str: "is_str (ex_tok x)" "ex_tok x \<noteq> T_Plus" "ex_tok x \<noteq> T_R_Bracket" "ex_idx x = 1" "ex_utype x = X_string"
        using inv 1 False by (auto simp: is_str_def)
      have "expr_inv ?z" "expr_need ?z (toks_left s) \<le> f"
        using Suc.prems(3) inv str 1 False by (auto simp: expr_inv_def expr_need_def)
      from Suc.IH [OF this(1) Suc.prems(2) this(2)] 1 str un yx show ?thesis by simp
    next
      case 2
      then have "parse_expr_loop opts (Suc f) x s = hbind (expr_eval_int x) (\<lambda>x. parse_expr_loop opts f x s)" using un yx by simp
      with go [OF expr_no_hang(3)] expr_eval_step(1) [OF Suc.prems(1) 2] show ?thesis by simp
    next
      case 3
      then have "parse_expr_loop opts (Suc f) x s = hbind (expr_eval_str x) (\<lambda>x. parse_expr_loop opts f x s)" using un yx by simp
      with go [OF expr_no_hang(4)] expr_eval_step(2) [OF Suc.prems(1) 3] show ?thesis by simp
    next
      case 4
      then have "parse_expr_loop opts (Suc f) x s = hbind (expr_simple x) (\<lambda>x. parse_expr_loop opts f x s)"
        using un yx inv False by auto
      with go [OF expr_no_hang(1)] expr_simple_step [OF _ Suc.prems(1) 4] False show ?thesis by simp
    qed
  qed
qed

text \<open>More fuel changes nothing once there was enough.\<close>

lemma hbind_same:
  "hbind m k \<noteq> Inl Hang \<Longrightarrow> (m \<noteq> Inl Hang \<Longrightarrow> m' = m) \<Longrightarrow> (\<And>v. m = Inr v \<Longrightarrow> k v \<noteq> Inl Hang \<Longrightarrow> k' v = k v) \<Longrightarrow>
   hbind m' k' = hbind m k"
  by (cases m) auto

lemma parse_expr_loop_fuel1: "parse_expr_loop opts f x s \<noteq> Inl Hang \<Longrightarrow> parse_expr_loop opts (Suc f) x s = parse_expr_loop opts f x s"
proof (induction f arbitrary: x s)
  case (Suc f)
  obtain y t where yt: "expr_fetch x s = (y, t)" by (cases "expr_fetch x s")
  note un = parse_expr_loop_unfold [OF yt]
  have simple: "hbind m (\<lambda>z. parse_expr_loop opts (Suc f) z u) = hbind m (\<lambda>z. parse_expr_loop opts f z u)"
    if "hbind m (\<lambda>z. parse_expr_loop opts f z u) \<noteq> Inl Hang" for m u
    using that by (rule hbind_same) (use Suc.IH in auto)
  have nested: "hbind m' (\<lambda>(v, u). hbind (expr_nested v y) (\<lambda>z. parse_expr_loop opts (Suc f) z u)) =
      hbind m (\<lambda>(v, u). hbind (expr_nested v y) (\<lambda>z. parse_expr_loop opts f z u))"
    if "hbind m (\<lambda>(v, u). hbind (expr_nested v y) (\<lambda>z. parse_expr_loop opts f z u)) \<noteq> Inl Hang" "m \<noteq> Inl Hang \<Longrightarrow> m' = m" for m m'
    using that by (rule hbind_same) (auto intro: simple)
  let ?z = "y\<lparr> ex_op := ex_tok y, ex_type := (if ex_utype y = X_int then EXPR_INT else EXPR_STR) \<rparr>"
  let ?run = "\<lambda>m u g. hbind m (\<lambda>z. parse_expr_loop opts g z u)"
  let ?nest = "\<lambda>m g. hbind m (\<lambda>(v, u). hbind (expr_nested v y) (\<lambda>z. parse_expr_loop opts g z u))"
  consider "\<And>g. parse_expr_loop opts (Suc g) x s = hbind (expr_result y) (\<lambda>v. Inr (v, t))"
    | "\<And>g. parse_expr_loop opts (Suc g) x s = parse_expr_loop opts g ?z t"
    | "\<And>g. parse_expr_loop opts (Suc g) x s = ?run (expr_eval_int y) t g"
    | "\<And>g. parse_expr_loop opts (Suc g) x s = ?run (expr_eval_str y) t g"
    | "\<And>g. parse_expr_loop opts (Suc g) x s = ?run (expr_simple y) t g"
    | "\<And>g. parse_expr_loop opts (Suc g) x s = ?nest (parse_expr_loop opts g expr_init t) g"
    | "\<And>g. parse_expr_loop opts (Suc g) x s = ?nest (parse_lookup t) g"
  proof (cases "ex_type y = EXPR_OP")
    case True
    then show ?thesis using that(1,2) un by (cases "ex_tok y = T_R_Bracket") simp_all
  next
    case False
    then show ?thesis
      using that(3-7) un by (cases "ex_type y = EXPR_EVAL_INT"; cases "ex_type y = EXPR_EVAL_STR"; cases "ex_tok y = T_KW_expr";
        cases "ex_tok y = T_KW_lookup \<and> en_lookup opts") simp_all
  qed
  then show ?case
  proof cases
    case 2
    with Suc.prems Suc.IH show ?thesis by simp
  next
    case 3
    with Suc.prems simple show ?thesis by simp
  next
    case 4
    with Suc.prems simple show ?thesis by simp
  next
    case 5
    with Suc.prems simple show ?thesis by simp
  next
    case 6
    with Suc.prems Suc.IH nested [of "parse_expr_loop opts f expr_init t" "parse_expr_loop opts (Suc f) expr_init t"] show ?thesis by simp
  next
    case 7
    with Suc.prems nested [of "parse_lookup t" "parse_lookup t"] show ?thesis by simp
  qed simp
qed simp

lemma parse_expr_loop_fuel:
  assumes "parse_expr_loop opts f x s \<noteq> Inl Hang" "f \<le> f'"
  shows "parse_expr_loop opts f' x s = parse_expr_loop opts f x s"
  using assms(2)
proof (induction rule: dec_induct)
  case (step n)
  then show ?case using parse_expr_loop_fuel1 [of opts n x s] assms(1) by simp
qed simp

lemma parse_expr_reads:
  assumes "dag_holds s xs"
  shows "reads_on s (parse_expr opts s)"
  unfolding parse_expr_def
  by (rule parse_expr_loop_ends [OF _ assms]) (simp_all add: expr_inv_def expr_need_def expr_init_def toks_left_def)

text \<open>
  C31. Parsing an expression ends.  When the graph holds a list of nodes, \<open>parse_expr\<close>
  neither runs for ever nor depends on the fuel of the model, whatever the tokens are,
  and when it returns it has consumed a token and changed nothing but the input.
\<close>

theorem parse_expr_terminates:
  assumes "dag_holds s xs"
  shows "parse_expr opts s \<noteq> Inl Hang \<and>
    (\<forall>f \<ge> 8 * length (lex_toks s) + 4. parse_expr_loop opts f expr_init s = parse_expr opts s) \<and>
    (\<forall>v s'. parse_expr opts s = Inr (v, s') \<longrightarrow> s' = s\<lparr> lex_toks := lex_toks s' \<rparr> \<and> length (lex_toks s') < length (lex_toks s))"
  using parse_expr_reads [OF assms, of opts] parse_expr_loop_fuel [of opts _ expr_init s]
  by (auto simp: reads_on_def same_but_toks_def toks_left_def parse_expr_def)

text \<open>\<open>(1 << (2 + 3))\<close> and a bracket that stays.\<close>

theorem parse_expr_terminates_witness:
  "parse_expr \<lparr> en_lookup = False, en_proto = False, en_setprop = False \<rparr>
     (two_nodes\<lparr> lex_toks := [T_Number 1, T_LShift, T_KW_expr, T_Number 2, T_Plus, T_Number 3, T_R_Bracket, T_R_Bracket, T_S_Colon] \<rparr>)
     \<noteq> Inl Hang"
proof -
  have "dag_holds (two_nodes\<lparr> lex_toks := ts \<rparr>) [0, 1]" for ts
    by (auto simp: dag_holds_def two_nodes_def dag_links_def dag_node_zero_def)
  from parse_expr_terminates [OF this] show ?thesis by blast
qed

subsection \<open>Chains of operators\<close>

definition chain_toks :: "(lexer_tok \<times> u64) list \<Rightarrow> lexer_tok list" where
  "chain_toks ops = concat (map (\<lambda>(op, n). [op, T_Number n]) ops)"

text \<open>From left to right, no operator before another.\<close>

definition chain_value :: "u64 \<Rightarrow> (lexer_tok \<times> u64) list \<Rightarrow> u64 hv" where
  "chain_value a ops = hfold (\<lambda>(op, n) v. expr_int_op op v n) ops a"

lemma chain_loop:
  assumes "\<forall>(op, n)\<in>set ops. op \<noteq> T_R_Bracket"
    and "ex_type x = EXPR_OP" "ex_getop x" "ex_idx x = 1" "ex_utype x = X_int" "\<not> ex_invert x" "3 * length ops < f"
  shows "parse_expr_loop opts f x (s\<lparr> lex_toks := chain_toks ops @ T_R_Bracket # rest \<rparr>) =
    hbind (chain_value (ex_n0 x) ops) (\<lambda>v. Inr (PE_int v, s\<lparr> lex_toks := rest \<rparr>))"
  using assms
proof (induction ops arbitrary: x f)
  case Nil
  then obtain f' where "f = Suc f'" by (cases f) auto
  with Nil show ?case
    by (simp add: parse_expr_loop.simps(2) expr_fetch_def lex_get_token_def chain_toks_def chain_value_def expr_result_def)
next
  case (Cons on ops)
  obtain op n where on: "on = (op, n)" by fastforce
  then obtain f' where f: "f = Suc (Suc (Suc f'))" "3 * length ops < f'" using Cons.prems(7) by (cases f; cases "f - 1"; cases "f - 2") auto
  have op: "op \<noteq> T_R_Bracket" using Cons.prems(1) on by auto
  let ?y = "x\<lparr> ex_op := op, ex_tok := T_Number n, ex_lval := n, ex_lstr := (case op of T_String strp \<Rightarrow> strp | _ \<Rightarrow> ex_lstr x),
      ex_n1 := n, ex_invert := False, ex_utype := X_int, ex_type := EXPR_EVAL_INT, ex_getop := False \<rparr>"
  have eval: "parse_expr_loop opts f x (s\<lparr> lex_toks := chain_toks (on # ops) @ T_R_Bracket # rest \<rparr>) =
      parse_expr_loop opts (Suc f') ?y (s\<lparr> lex_toks := chain_toks ops @ T_R_Bracket # rest \<rparr>)"
    using op Cons.prems on f(1)
    by (simp add: parse_expr_loop.simps(2) expr_fetch_def lex_get_token_def chain_toks_def expr_simple_def expr_number_def expr_operand_def)
  show ?case
  proof (cases "expr_int_op op (ex_n0 x) n")
    case (Inl e)
    then show ?thesis unfolding eval
      by (simp add: parse_expr_loop.simps(2) expr_fetch_def expr_eval_int_def chain_value_def on)
  next
    case (Inr v)
    let ?z = "?y\<lparr> ex_utype := X_int, ex_idx := 1, ex_getop := True, ex_n0 := v, ex_type := EXPR_OP \<rparr>"
    have "parse_expr_loop opts (Suc f') ?y (s\<lparr> lex_toks := chain_toks ops @ T_R_Bracket # rest \<rparr>) =
        parse_expr_loop opts f' ?z (s\<lparr> lex_toks := chain_toks ops @ T_R_Bracket # rest \<rparr>)"
      using Inr by (simp add: parse_expr_loop.simps(2) expr_fetch_def expr_eval_int_def)
    then show ?thesis using Cons.IH [of ?z f'] Cons.prems(1) f(2) Inr unfolding eval by (simp add: chain_value_def on)
  qed
qed

text \<open>
  C32. An expression of numbers joined by operators is evaluated from left to right,
  without precedence, in 64-bit arithmetic: the parser returns the value the operators
  give one after the other (or the fault of the first of them that has none), and leaves
  the tokens after the closing bracket.
\<close>

theorem parse_expr_chain:
  assumes "\<forall>(op, n)\<in>set ops. op \<noteq> T_R_Bracket"
  shows "parse_expr opts (s\<lparr> lex_toks := T_Number a # chain_toks ops @ T_R_Bracket # rest \<rparr>) =
    hbind (chain_value a ops) (\<lambda>v. Inr (PE_int v, s\<lparr> lex_toks := rest \<rparr>))"
proof -
  have "length (chain_toks ops) = 2 * length ops" by (induction ops) (auto simp: chain_toks_def)
  then obtain f where f: "8 * length (lex_toks (s\<lparr> lex_toks := T_Number a # chain_toks ops @ T_R_Bracket # rest \<rparr>)) + 4 = Suc f"
      "3 * length ops < f" by auto
  let ?x = "expr_init\<lparr> ex_tok := T_Number a, ex_lval := a, ex_n0 := a, ex_utype := X_int, ex_type := EXPR_OP, ex_idx := 1 \<rparr>"
  have "parse_expr opts (s\<lparr> lex_toks := T_Number a # chain_toks ops @ T_R_Bracket # rest \<rparr>) =
      parse_expr_loop opts f ?x (s\<lparr> lex_toks := chain_toks ops @ T_R_Bracket # rest \<rparr>)"
    unfolding parse_expr_def f(1)
    by (simp add: parse_expr_loop.simps(2) expr_fetch_def lex_get_token_def expr_init_def expr_simple_def expr_number_def expr_operand_def)
  also have "\<dots> = hbind (chain_value (ex_n0 ?x) ops) (\<lambda>v. Inr (PE_int v, s\<lparr> lex_toks := rest \<rparr>))"
    by (rule chain_loop [OF assms]) (use f(2) in \<open>simp_all add: expr_init_def\<close>)
  finally show ?thesis by simp
qed

text \<open>\<open>(1 + 2 * 3)\<close> is 9, as the addition comes first.\<close>

definition plain_opts :: gen_opts where
  "plain_opts = \<lparr> en_lookup = False, en_proto = False, en_setprop = False \<rparr>"

theorem parse_expr_chain_witness:
  "parse_expr plain_opts (two_nodes\<lparr> lex_toks := [T_Number 1, T_Plus, T_Number 2, T_Multiply, T_Number 3, T_R_Bracket, T_S_Colon] \<rparr>) =
    Inr (PE_int 9, two_nodes\<lparr> lex_toks := [T_S_Colon] \<rparr>)"
  using parse_expr_chain [of "[(T_Plus, 2), (T_Multiply, 3)]" plain_opts 1 "[T_S_Colon]" two_nodes]
  by (simp add: chain_toks_def chain_value_def expr_int_op_def)

text \<open>
  C33. Strings cannot be joined in an expression.  Whatever follows the second of two
  strings joined by \<open>+\<close>, the parser gives up: after it has joined them it reads no new
  token, takes the second string for the operator and then for an operand once more.
\<close>

theorem parse_expr_strings_rejected:
  "parse_expr opts (s\<lparr> lex_toks := T_String a # T_Plus # T_String b # rest \<rparr>) = Inl Fatal"
proof -
  let ?s = "s\<lparr> lex_toks := T_String a # T_Plus # T_String b # rest \<rparr>"
  have "7 \<le> 8 * length (lex_toks ?s) + 4" by simp
  then obtain f where "8 * length (lex_toks ?s) + 4 = 7 + f" using le_Suc_ex by blast
  then have f: "8 * length (lex_toks ?s) + 4 = Suc (Suc (Suc (Suc (Suc (Suc (Suc f))))))" by (simp add: numeral_eq_Suc)
  show ?thesis unfolding parse_expr_def f
    by (simp add: parse_expr_loop.simps(2) expr_fetch_def lex_get_token_def expr_init_def expr_simple_def expr_string_def
        expr_operand_def expr_eval_str_def)
qed

end
