(* ===== verification/Mdgen_Read.thy ===== *)
theory Mdgen_Read
  imports Mdgen_Parse
begin

text \<open>
  The rest of the parser of \<open>mdgen\<close> (\<open>support/mdgen/mdparse.c\<close>): data, assignments,
  inclusion of other nodes, and the nodes of a description.

  Shown here: a number in a data value is kept in the fewest bytes that hold it; and
  parsing a description of plain nodes builds a properly linked list of them, with a
  value for each property.
\<close>

subsection \<open>Bytes of integers\<close>

text \<open>The last \<open>k\<close> bytes of a word, the most significant first, and the word of some bytes.\<close>

definition be_bytes :: "nat \<Rightarrow> 'a::len word \<Rightarrow> u8 list" where
  "be_bytes k w = map (\<lambda>i. ucast (drop_bit (8 * (k - 1 - i)) w)) [0..<k]"

definition be_value :: "u8 list \<Rightarrow> 'a::len word" where
  "be_value bs = foldl (\<lambda>a b. push_bit 8 a OR ucast b) 0 bs"

lemma be_bytes_length [simp]: "length (be_bytes k w) = k"
  by (simp add: be_bytes_def)

lemma be_bytes_Suc: "be_bytes (Suc k) w = be_bytes k (drop_bit 8 w) @ [ucast w]"
  by (auto simp: be_bytes_def intro!: map_cong arg_cong [where f = "\<lambda>n. ucast (drop_bit n w)"])

lemma be_value_snoc: "be_value (bs @ [b]) = push_bit 8 (be_value bs) OR ucast b"
  by (simp add: be_value_def)

lemma be_value_be_bytes: "be_value (be_bytes k w) = take_bit (8 * k) (w :: 'a::len word)"
proof (induction k arbitrary: w)
  case 0
  show ?case by (simp add: be_value_def be_bytes_def)
next
  case (Suc k)
  show ?case unfolding be_bytes_Suc be_value_snoc Suc.IH
    by (rule bit_word_eqI) (auto simp: bit_simps dest: bit_imp_le_length)
qed

subsection \<open>Data\<close>

text \<open>The loop that skips the zero bytes at the top of a number, and the bytes it leaves.\<close>

fun top_byte :: "nat \<Rightarrow> u64 \<Rightarrow> nat" where
  "top_byte 0 v = 0"
| "top_byte (Suc n) v = (if drop_bit (8 * Suc n) v \<noteq> 0 then Suc n else top_byte n v)"

definition data_append :: "pair_value \<Rightarrow> u8 list \<Rightarrow> u8 list hv" where
  "data_append v buf = (case v of
     PE_int w \<Rightarrow> let n = top_byte 7 w in
       if length buf + n + 1 \<ge> MAX_DATALEN then Inl Fatal else Inr (buf @ be_bytes (n + 1) w)
   | PE_string strp \<Rightarrow> if length buf + (length strp + 1) \<ge> MAX_DATALEN then Inl Fatal else Inr (buf @ strp @ [0])
   | _ \<Rightarrow> Inl Fatal)"

text \<open>\<open>get_token_value\<close>, with what is to be done for data in braces; \<open>None\<close> when the token starts no value.\<close>

definition token_value :: "gen_opts \<Rightarrow> (mdgen \<Rightarrow> (pair_value \<times> mdgen) hv) \<Rightarrow> lexer_tok \<Rightarrow> mdgen \<Rightarrow> (pair_value option \<times> mdgen) hv" where
  "token_value opts braces tok s = (case tok of
     T_Number v \<Rightarrow> Inr (Some (PE_int v), s)
   | T_String strp \<Rightarrow> Inr (Some (PE_string strp), s)
   | T_KW_expr \<Rightarrow> hbind (parse_expr opts s) (\<lambda>(v, s). Inr (Some v, s))
   | T_KW_lookup \<Rightarrow> if en_lookup opts then hbind (parse_lookup s) (\<lambda>(v, s). Inr (Some v, s)) else Inr (None, s)
   | T_L_Brace \<Rightarrow> hbind (braces s) (\<lambda>(v, s). Inr (Some v, s))
   | _ \<Rightarrow> Inr (None, s))"

fun parse_data_loop :: "gen_opts \<Rightarrow> nat \<Rightarrow> u8 list \<Rightarrow> mdgen \<Rightarrow> (pair_value \<times> mdgen) hv" where
  "parse_data_loop opts 0 buf s = Inl Hang"
| "parse_data_loop opts (Suc f) buf s =
     (let (tok, s) = lex_get_token s in
      hbind (token_value opts (parse_data_loop opts f []) tok s) (\<lambda>(r, s). case r of None \<Rightarrow> Inl Fatal | Some v \<Rightarrow>
      hbind (data_append v buf) (\<lambda>buf.
      let (tok, s) = lex_get_token s in
      if tok = T_R_Brace then (if buf = [] then Inl Fatal else Inr (PE_data buf, s))
      else if tok = T_Comma then parse_data_loop opts f buf s else Inl Fatal)))"

definition parse_data :: "gen_opts \<Rightarrow> mdgen \<Rightarrow> (pair_value \<times> mdgen) hv" where
  "parse_data opts s = parse_data_loop opts (length (lex_toks s) + 1) [] s"

definition get_token_value :: "gen_opts \<Rightarrow> lexer_tok \<Rightarrow> mdgen \<Rightarrow> (pair_value option \<times> mdgen) hv" where
  "get_token_value opts = token_value opts (parse_data opts)"

subsection \<open>Assignments\<close>

text \<open>
  A further value is appended to what there is, which becomes data.  A number is copied
  as the machine has it, most significant byte first; the first string of a
  concatenation is copied without a check of its length.
\<close>

definition value_bytes :: "pair_value \<Rightarrow> u8 list hv" where
  "value_bytes pp = (case pp of PE_int w \<Rightarrow> Inr (be_bytes 8 w) | PE_string strp \<Rightarrow> Inr (strp @ [0]) | PE_data d \<Rightarrow> Inr d | _ \<Rightarrow> Inl Fatal)"

definition compound :: "u8 list \<Rightarrow> pair_value \<Rightarrow> pair_value hv" where
  "compound buf pp = hbind (value_bytes pp) (\<lambda>bs.
     if length buf + length bs \<ge> MAX_DATALEN then Inl Fatal else Inr (PE_data (buf @ bs)))"

definition assign_value :: "pair_value \<Rightarrow> pair_value \<Rightarrow> pair_value hv" where
  "assign_value mypp pp = (case mypp of
     PE_none \<Rightarrow> Inr pp
   | PE_int w \<Rightarrow> compound (be_bytes 8 w) pp
   | PE_string strp \<Rightarrow> hguard (length strp + 1 \<le> MAX_DATALEN) (compound (strp @ [0]) pp)
   | PE_data d \<Rightarrow> compound d pp
   | _ \<Rightarrow> Inl Fatal)"

fun do_assignment_loop :: "gen_opts \<Rightarrow> bool \<Rightarrow> nat \<Rightarrow> lexer_tok \<Rightarrow> pair_value \<Rightarrow> mdgen \<Rightarrow> (pair_value \<times> mdgen) hv" where
  "do_assignment_loop opts fn 0 tok mypp s = Inl Hang"
| "do_assignment_loop opts fn (Suc f) tok mypp s =
     hbind (get_token_value opts tok s) (\<lambda>(r, s). case r of None \<Rightarrow> Inl Fatal | Some pp \<Rightarrow>
     hbind (assign_value mypp pp) (\<lambda>mypp.
     let (tok, s) = lex_get_token s in
     if tok = T_Comma then (let (tok, s) = lex_get_token s in do_assignment_loop opts fn f tok mypp s)
     else if tok = T_S_Colon \<or> fn \<and> tok = T_R_Bracket then Inr (mypp, s) else Inl Fatal))"

text \<open>\<open>pep\<close> is entry \<open>i\<close> of node \<open>p\<close>.\<close>

definition do_assignment :: "gen_opts \<Rightarrow> nat \<Rightarrow> nat \<Rightarrow> bool \<Rightarrow> mdgen \<Rightarrow> mdgen hv" where
  "do_assignment opts p i fn s =
     (let (tok, s) = lex_get_token s in
      if tok = T_S_Colon \<or> tok = T_Comma \<or> fn \<and> tok = T_R_Bracket then Inl Fatal
      else hbind (do_assignment_loop opts fn (length (lex_toks s) + 1) tok PE_none s) (\<lambda>(v, s).
        dag_upd p (\<lambda>n. n\<lparr> dn_properties := set_value i v (dn_properties n) \<rparr>) s))"

definition parse_setprop :: "gen_opts \<Rightarrow> mdgen \<Rightarrow> mdgen hv" where
  "parse_setprop opts s = hbind (grab_node s) (\<lambda>(src, s). hbind (lex_get T_Comma s) (\<lambda>s.
     hbind (grab_prop src s) (\<lambda>(i, s). hbind (lex_get T_Comma s) (\<lambda>s. do_assignment opts src i True s))))"

subsection \<open>Inclusion\<close>

text \<open>
  \<open>clone_pair_entry\<close> of entry \<open>i\<close> of \<open>src\<close>: when the two lists are the same and it has to
  grow, the entry is read through a pointer into the memory \<open>realloc\<close> has taken away.
\<close>

definition clone_pair_entry :: "nat \<Rightarrow> nat \<Rightarrow> nat \<Rightarrow> mdgen \<Rightarrow> mdgen hv" where
  "clone_pair_entry dst src i s =
     hbind (dag_at s src) (\<lambda>m. hbind (dag_at s dst) (\<lambda>n.
     let plp = dn_properties n; pep = pl_listp (dn_properties m) ! i in
     hguard (src = dst \<longrightarrow> length (pl_listp plp) < pl_space plp)
     (if freeable (pe_value pep) then
        let new = add_pair_entry plp; e = pair_entry_zero\<lparr> pe_namep := pe_namep pep, pe_value := pe_value pep \<rparr>
        in Inr (dag_set dst (n\<lparr> dn_properties := new\<lparr> pl_listp := (pl_listp new)[length (pl_listp plp) := e] \<rparr> \<rparr>) s)
      else Inl Fatal)))"

definition parse_include :: "nat \<Rightarrow> mdgen \<Rightarrow> mdgen hv" where
  "parse_include dnp s = hbind (grab_node s) (\<lambda>(src, s).
     let (tok, s) = lex_get_token s in
     hbind (if tok = T_Comma then hbind (grab_prop src s) (\<lambda>(i, s). hbind (clone_pair_entry dnp src i s) (lex_get T_S_Colon))
            else if tok = T_S_Colon then Inr s else Inl Fatal) (\<lambda>s.
     hbind (dag_at s src) (\<lambda>m. hfold (clone_pair_entry dnp src) [0..<length (pl_listp (dn_properties m))] s)))"

subsection \<open>Nodes\<close>

text \<open>A property: its entry is added, then its value is read.\<close>

definition parse_property :: "gen_opts \<Rightarrow> nat \<Rightarrow> cstr \<Rightarrow> mdgen \<Rightarrow> mdgen hv" where
  "parse_property opts p strp s = hbind (dag_at s p) (\<lambda>n.
     let i = length (pl_listp (dn_properties n)); new = add_pair_entry (dn_properties n);
         s = dag_set p (n\<lparr> dn_properties := new\<lparr> pl_listp := (pl_listp new)[i := pair_entry_zero\<lparr> pe_namep := strp \<rparr>] \<rparr> \<rparr>) s;
         (tok, s) = lex_get_token s
     in if tok = T_Equals then do_assignment opts p i False s
        else if tok = T_KW_arc then hbind (lex_get_name s) (\<lambda>(r, s).
          hbind (dag_upd p (\<lambda>n. n\<lparr> dn_properties := set_value i (PE_noderef r) (dn_properties n) \<rparr>) s) (lex_get T_S_Colon))
        else Inl Fatal)"

fun parse_body :: "gen_opts \<Rightarrow> nat \<Rightarrow> nat \<Rightarrow> mdgen \<Rightarrow> mdgen hv" where
  "parse_body opts 0 p s = Inl Hang"
| "parse_body opts (Suc f) p s =
     (let (tok, s) = lex_get_token s in
      if tok = T_R_Brace then Inr s
      else hbind (case tok of
          T_KW_setprop \<Rightarrow> if en_setprop opts then hbind (parse_setprop opts s) (lex_get T_S_Colon) else Inl Fatal
        | T_KW_include \<Rightarrow> if en_proto opts then parse_include p s else Inl Fatal
        | T_Token strp \<Rightarrow> parse_property opts p strp s
        | _ \<Rightarrow> Inl Fatal) (parse_body opts f p))"

definition parse_node :: "gen_opts \<Rightarrow> lexer_tok \<Rightarrow> mdgen \<Rightarrow> mdgen hv" where
  "parse_node opts tok s =
     (if tok = T_KW_node \<or> en_proto opts \<and> tok = T_KW_proto then
        hbind (new_dag_node s) (\<lambda>(p, s).
        hbind (dag_upd p (\<lambda>n. n\<lparr> dn_is_proto := (tok = T_KW_proto) \<rparr>) s) (\<lambda>s.
        hbind (lex_get_name s) (\<lambda>(ty, s). hbind (dag_upd p (\<lambda>n. n\<lparr> dn_typep := ty \<rparr>) s) (\<lambda>s.
        hbind (lex_get_name s) (\<lambda>(nm, s). hbind (dag_upd p (\<lambda>n. n\<lparr> dn_namep := nm \<rparr>) s) (\<lambda>s.
        hbind (lex_get T_L_Brace s) (\<lambda>s. parse_body opts (length (lex_toks s) + 1) p s)))))))
      else Inl Fatal)"

fun parse_dag_loop :: "gen_opts \<Rightarrow> nat \<Rightarrow> mdgen \<Rightarrow> mdgen hv" where
  "parse_dag_loop opts 0 s = Inl Hang"
| "parse_dag_loop opts (Suc f) s =
     (let (tok, s) = lex_get_token s in if tok = T_EOF then Inr s else hbind (parse_node opts tok s) (parse_dag_loop opts f))"

definition parse_dag :: "gen_opts \<Rightarrow> mdgen \<Rightarrow> mdgen hv" where
  "parse_dag opts s = parse_dag_loop opts (length (lex_toks s) + 1) s"

subsection \<open>Numbers in data\<close>

lemma top_byte_bound: "top_byte n v \<le> n"
  by (induction n) auto

lemma top_byte_keeps: "take_bit (8 * Suc n) v = v \<Longrightarrow> take_bit (8 * Suc (top_byte n v)) v = v"
proof (induction n)
  case (Suc n)
  show ?case
  proof (cases "drop_bit (8 * Suc n) v = 0")
    case True
    then have "take_bit (8 * Suc n) v = v"
      by (metis bits_ident or.right_neutral push_bit_of_0 semiring_bit_operations_class.bits_ident add.commute add.right_neutral)
    with Suc.IH True show ?thesis by simp
  qed (use Suc.prems in simp)
qed simp

lemma top_byte_least: "top_byte n v \<noteq> 0 \<Longrightarrow> drop_bit (8 * top_byte n v) v \<noteq> 0"
  by (induction n) (auto split: if_splits)

lemma data_number_roundtrip:
  assumes "data_append (PE_int w) buf = Inr buf'"
  shows "\<exists>bs. buf' = buf @ bs \<and> be_value bs = w \<and> 0 < length bs \<and> length bs \<le> 8 \<and> (1 < length bs \<longrightarrow> bs ! 0 \<noteq> 0)"
proof -
  let ?n = "top_byte 7 w"
  have buf': "buf' = buf @ be_bytes (?n + 1) w" using assms by (auto simp: data_append_def Let_def split: if_splits)
  have "be_value (be_bytes (?n + 1) w) = w"
    using top_byte_keeps [of 7 w] by (simp add: be_value_be_bytes take_bit_word_eq_self)
  moreover have "be_bytes (?n + 1) w ! 0 \<noteq> 0" if "1 < ?n + 1"
  proof
    assume "be_bytes (?n + 1) w ! 0 = 0"
    then have z: "(ucast (drop_bit (8 * ?n) w) :: u8) = 0" by (simp add: be_bytes_def del: upt_Suc)
    have "\<not> bit w (8 * ?n + k)" for k
    proof (cases "k < 8")
      case True
      then show ?thesis using arg_cong [OF z, where f = "\<lambda>x. bit x k"] by (auto simp: bit_simps dest: bit_imp_le_length)
    next
      case False
      have "take_bit (8 * Suc ?n) w = w" using top_byte_keeps [of 7 w] by (simp add: take_bit_word_eq_self)
      from arg_cong [OF this, where f = "\<lambda>x. bit x (8 * ?n + k)"] False show ?thesis by (simp add: bit_take_bit_iff)
    qed
    then have "drop_bit (8 * ?n) w = 0" by (intro bit_word_eqI) (simp add: bit_simps)
    with top_byte_least [of 7 w] that show False by simp
  qed
  ultimately show ?thesis using buf' top_byte_bound [of 7 w] by (intro exI [of _ "be_bytes (?n + 1) w"]) auto
qed

subsection \<open>Reading values\<close>

text \<open>Like \<open>reads_on\<close>, for what may also read nothing.\<close>

definition reads_le :: "mdgen \<Rightarrow> ('a \<times> mdgen) hv \<Rightarrow> bool" where
  "reads_le s r \<longleftrightarrow> r \<noteq> Inl Hang \<and> (\<forall>v s'. r = Inr (v, s') \<longrightarrow> same_but_toks s s' \<and> toks_left s' \<le> toks_left s)"

lemma reads_on_le: "reads_on s r \<Longrightarrow> reads_le s r"
  by (auto simp: reads_on_def reads_le_def)

lemma reads_le_Inr [simp]: "reads_le s (Inr (v, s))"
  by (simp add: reads_le_def)

lemma reads_le_Inl [simp]: "e \<noteq> Hang \<Longrightarrow> reads_le s (Inl e)" "e \<noteq> Hang \<Longrightarrow> reads_on s (Inl e)"
  by (simp_all add: reads_le_def reads_on_def)

lemma reads_le_bind:
  assumes "reads_le s m" "\<And>v s'. m = Inr (v, s') \<Longrightarrow> same_but_toks s s' \<Longrightarrow> toks_left s' \<le> toks_left s \<Longrightarrow> reads_le s' (k (v, s'))"
  shows "reads_le s (hbind m k)"
proof (cases m)
  case (Inr vs)
  then obtain v s' where "m = Inr (v, s')" "same_but_toks s s'" "toks_left s' \<le> toks_left s"
    using assms(1) by (cases vs) (auto simp: reads_le_def)
  then show ?thesis using assms(2) by (fastforce simp: reads_le_def intro: same_but_toks_trans)
qed (use assms(1) in \<open>auto simp: reads_le_def\<close>)

lemma reads_le_pure: "m \<noteq> Inl Hang \<Longrightarrow> (\<And>v. m = Inr v \<Longrightarrow> reads_le s (k v)) \<Longrightarrow> reads_le s (hbind m k)"
  by (cases m) (auto simp: reads_le_def)

lemma token_value_reads:
  assumes "dag_holds s xs" "reads_le s (braces s)"
  shows "reads_le s (token_value opts braces tok s)"
proof -
  have wrap: "reads_le s (hbind m (\<lambda>(v, s). Inr (Some v, s)))" if "reads_le s m" for m :: "(pair_value \<times> mdgen) hv"
    by (rule reads_le_bind [OF that]) simp
  show ?thesis
    using wrap [OF reads_on_le [OF parse_expr_reads [OF assms(1)]]] wrap [OF reads_on_le [OF parse_lookup_left [OF assms(1)]]]
      wrap [OF assms(2)]
    by (cases tok) (simp_all add: token_value_def)
qed

lemma parse_expr_loop_value:
  "parse_expr_loop opts f x s = Inr (v, s') \<Longrightarrow> (\<exists>w. v = PE_int w) \<or> (\<exists>a. v = PE_string a)"
proof (induction f arbitrary: x s)
  case (Suc f)
  obtain y t where yt: "expr_fetch x s = (y, t)" by (cases "expr_fetch x s")
  from Suc.prems show ?case unfolding parse_expr_loop_unfold [OF yt]
    by (auto simp: hbind_eq_Inr expr_result_def split: if_splits dest!: Suc.IH)
qed simp

definition settled :: "pair_value \<Rightarrow> bool" where
  "settled v = (case v of PE_none \<Rightarrow> False | PE_arc _ \<Rightarrow> False | PE_data d \<Rightarrow> length d < MAX_DATALEN | _ \<Rightarrow> True)"

lemma data_append_bound: "data_append v buf = Inr buf' \<Longrightarrow> length buf' < MAX_DATALEN"
  by (auto simp: data_append_def Let_def split: pair_value.splits if_splits)

lemma parse_data_loop_reads:
  "dag_holds s xs \<Longrightarrow> toks_left s < f \<Longrightarrow> reads_on s (parse_data_loop opts f buf s) \<and>
     (\<forall>v s'. parse_data_loop opts f buf s = Inr (v, s') \<longrightarrow> settled v)"
proof (induction f arbitrary: buf s)
  case (Suc f)
  obtain tok t where tok: "lex_get_token s = (tok, t)" by (cases "lex_get_token s")
  note left = lex_get_token_left [OF tok]
  have t: "dag_holds t xs" using left Suc.prems(1) same_but_toks_holds by blast
  show ?case
  proof (cases "tok = T_EOF")
    case True
    with tok show ?thesis by (simp add: token_value_def)
  next
    case False
    then have lt: "toks_left t < toks_left s" using left by blast
    have val: "reads_le t (token_value opts (parse_data_loop opts f []) tok t)"
      using Suc.IH [OF t, of "[]"] lt Suc.prems(2) by (intro token_value_reads [OF t] reads_on_le) auto
    let ?k = "\<lambda>(r, s). case r of None \<Rightarrow> Inl Fatal | Some v \<Rightarrow> hbind (data_append v buf) (\<lambda>buf. let (tok, s) = lex_get_token s in
      if tok = T_R_Brace then (if buf = [] then Inl Fatal else Inr (PE_data buf, s))
      else if tok = T_Comma then parse_data_loop opts f buf s else Inl Fatal)"
    have run: "parse_data_loop opts (Suc f) buf s = hbind (token_value opts (parse_data_loop opts f []) tok t) ?k"
      by (simp add: tok)
    have k: "reads_le u (?k (r, u)) \<and> (\<forall>v s'. ?k (r, u) = Inr (v, s') \<longrightarrow> settled v)"
      if u: "same_but_toks t u" "toks_left u \<le> toks_left t" for r u
    proof (cases r)
      case (Some v)
      obtain tok' w where tok': "lex_get_token u = (tok', w)" by (cases "lex_get_token u")
      note left' = lex_get_token_left [OF tok']
      have w: "dag_holds w xs" "toks_left w < f" using t u left' lt Suc.prems(2) by (auto intro: same_but_toks_holds)
      show ?thesis
      proof (cases "data_append v buf")
        case (Inl e)
        then have "e \<noteq> Hang" by (auto simp: data_append_def Let_def split: pair_value.splits if_splits)
        with Inl Some show ?thesis by simp
      next
        case (Inr b)
        have "reads_le u (parse_data_loop opts f b w)"
          using Suc.IH [OF w, of b] left' by (fastforce simp: reads_le_def reads_on_def intro: same_but_toks_trans)
        then show ?thesis using Some Inr tok' left' Suc.IH [OF w, of b] data_append_bound [OF Inr]
          by (auto simp: reads_le_def settled_def)
      qed
    qed simp
    have "reads_le t (parse_data_loop opts (Suc f) buf s)" unfolding run by (rule reads_le_bind [OF val]) (use k in blast)
    then have "reads_on s (parse_data_loop opts (Suc f) buf s)"
      using left lt by (fastforce simp: reads_le_def reads_on_def intro: same_but_toks_trans)
    moreover have "settled v" if "parse_data_loop opts (Suc f) buf s = Inr (v, s')" for v s'
      using that val k unfolding run by (fastforce simp: hbind_eq_Inr reads_le_def)
    ultimately show ?thesis by blast
  qed
qed simp

lemma parse_data_reads:
  assumes "dag_holds s xs"
  shows "reads_on s (parse_data opts s)" "parse_data opts s = Inr (v, s') \<Longrightarrow> settled v"
  using parse_data_loop_reads [OF assms, of "length (lex_toks s) + 1" opts "[]"] by (auto simp: parse_data_def toks_left_def)

lemma get_token_value_reads: "dag_holds s xs \<Longrightarrow> reads_le s (get_token_value opts tok s)"
  unfolding get_token_value_def by (rule token_value_reads) (auto intro: reads_on_le parse_data_reads)

lemma get_token_value_settled:
  assumes "dag_holds s xs" "\<not> en_lookup opts" "get_token_value opts tok s = Inr (Some v, s')"
  shows "settled v"
  using assms(2,3) parse_data_reads(2) [OF assms(1)]
  by (cases tok) (auto simp: get_token_value_def token_value_def hbind_eq_Inr settled_def parse_expr_def dest!: parse_expr_loop_value)

lemma compound_settled: "compound buf pp = Inr v \<Longrightarrow> settled v" "compound buf pp \<noteq> Inl Hang"
  by (auto simp: compound_def settled_def hbind_eq_Inr hbind_eq_Inl value_bytes_def split: if_splits pair_value.splits)

lemma assign_value_settled:
  "settled pp \<Longrightarrow> assign_value mypp pp = Inr v \<Longrightarrow> settled v" "assign_value mypp pp \<noteq> Inl Hang"
  by (auto simp: assign_value_def hguard_eq_Inr compound_settled hguard_def split: pair_value.splits if_splits)

lemma do_assignment_loop_reads:
  assumes "\<not> en_lookup opts"
  shows "dag_holds s xs \<Longrightarrow> toks_left s < f \<Longrightarrow> reads_le s (do_assignment_loop opts fn f tok mypp s) \<and>
     (\<forall>v s'. do_assignment_loop opts fn f tok mypp s = Inr (v, s') \<longrightarrow> settled v)"
proof (induction f arbitrary: tok mypp s)
  case (Suc f)
  let ?k = "\<lambda>(r, s). case r of None \<Rightarrow> Inl Fatal | Some pp \<Rightarrow> hbind (assign_value mypp pp) (\<lambda>mypp.
     let (tok, s) = lex_get_token s in
     if tok = T_Comma then (let (tok, s) = lex_get_token s in do_assignment_loop opts fn f tok mypp s)
     else if tok = T_S_Colon \<or> fn \<and> tok = T_R_Bracket then Inr (mypp, s) else Inl Fatal)"
  have run: "do_assignment_loop opts fn (Suc f) tok mypp s = hbind (get_token_value opts tok s) ?k" by simp
  note val = get_token_value_reads [OF Suc.prems(1), of opts tok]
  have k: "reads_le u (?k (r, u)) \<and> (\<forall>v s'. ?k (r, u) = Inr (v, s') \<longrightarrow> settled v)"
    if u: "same_but_toks s u" "toks_left u \<le> toks_left s" and r: "get_token_value opts tok s = Inr (r, u)" for r u
  proof (cases r)
    case (Some pp)
    obtain tok' w where tok': "lex_get_token u = (tok', w)" by (cases "lex_get_token u")
    obtain tok'' w' where tok'': "lex_get_token w = (tok'', w')" by (cases "lex_get_token w")
    note left' = lex_get_token_left [OF tok'] and left'' = lex_get_token_left [OF tok'']
    have pp: "settled pp" by (rule get_token_value_settled [OF Suc.prems(1) assms]) (use r Some in simp)
    show ?thesis
    proof (cases "assign_value mypp pp")
      case (Inl e)
      then show ?thesis using Some assign_value_settled(2) [of mypp pp] by simp
    next
      case (Inr v)
      have v: "settled v" by (rule assign_value_settled(1) [OF pp Inr])
      show ?thesis
      proof (cases "tok' = T_Comma")
        case True
        then have lt: "toks_left w' < f" using left' left'' u Suc.prems(2) by auto
        have "same_but_toks s w'" using u left' left'' same_but_toks_trans by blast
        then have "dag_holds w' xs" using Suc.prems(1) by (rule same_but_toks_holds)
        from Suc.IH [OF this lt, of tok'' v] have "reads_le u (do_assignment_loop opts fn f tok'' v w')"
          using left' left'' by (fastforce simp: reads_le_def intro: same_but_toks_trans)
        then show ?thesis using Suc.IH [OF \<open>dag_holds w' xs\<close> lt, of tok'' v] True Some Inr tok' tok'' by simp
      next
        case False
        with Some Inr tok' left' v show ?thesis by (auto simp: reads_le_def)
      qed
    qed
  qed simp
  have "reads_le s (do_assignment_loop opts fn (Suc f) tok mypp s)" unfolding run by (rule reads_le_bind [OF val]) (use k in blast)
  moreover have "settled v" if "do_assignment_loop opts fn (Suc f) tok mypp s = Inr (v, s')" for v s'
    using that val k unfolding run by (fastforce simp: hbind_eq_Inr reads_le_def)
  ultimately show ?case by blast
qed simp

subsection \<open>Descriptions of plain nodes\<close>

text \<open>
  A property is well-formed when it has a name the lexer can deliver and a value; a node
  when its type and name are such names and its properties are well-formed.
\<close>

definition good_name :: "cstr \<Rightarrow> bool" where
  "good_name x \<longleftrightarrow> x \<noteq> [] \<and> 0 \<notin> set x \<and> length x < 255"

definition good_toks :: "mdgen \<Rightarrow> bool" where
  "good_toks s \<longleftrightarrow> (\<forall>x. T_Token x \<in> set (lex_toks s) \<longrightarrow> good_name x)"

definition good_props :: "dag_node \<Rightarrow> bool" where
  "good_props n \<longleftrightarrow> (\<forall>pep\<in>set (pl_listp (dn_properties n)). good_name (pe_namep pep) \<and> settled (pe_value pep))"

definition good_node :: "dag_node \<Rightarrow> bool" where
  "good_node n \<longleftrightarrow> good_name (dn_typep n) \<and> good_name (dn_namep n) \<and> good_props n \<and> \<not> dn_is_proto n"

lemma good_toks_same: "same_but_toks s s' \<Longrightarrow> good_toks s \<Longrightarrow> good_toks s'"
  by (auto simp: good_toks_def same_but_toks_def)

lemma lex_get_name_reads: "reads_on s (lex_get_name s)"
  using lex_get_token_left [of s] by (cases "lex_get_token s") (auto simp: lex_get_name_def reads_on_def split: lexer_tok.splits)

lemma lex_get_name_good: "good_toks s \<Longrightarrow> lex_get_name s = Inr (x, s') \<Longrightarrow> good_name x"
  by (auto simp: lex_get_name_def lex_get_token_def good_toks_def split: list.splits lexer_tok.splits)

text \<open>\<open>node_set p n s s'\<close>: node \<open>p\<close> has become \<open>n\<close> and tokens have been read, nothing else.\<close>

definition node_set :: "nat \<Rightarrow> dag_node \<Rightarrow> mdgen \<Rightarrow> mdgen \<Rightarrow> bool" where
  "node_set p n s s' \<longleftrightarrow> s' = dag_set p n (s\<lparr> lex_toks := lex_toks s' \<rparr>) \<and> set (lex_toks s') \<subseteq> set (lex_toks s) \<and>
     toks_left s' \<le> toks_left s"

lemma node_set_trans: "node_set p a s t \<Longrightarrow> node_set p b t u \<Longrightarrow> node_set p b s u"
  by (cases s; cases t; cases u) (auto simp: node_set_def dag_set_def)

lemma node_set_read:
  "same_but_toks s t \<Longrightarrow> toks_left t \<le> toks_left s \<Longrightarrow> node_set p b t u \<Longrightarrow> node_set p b s u"
  "node_set p b s t \<Longrightarrow> same_but_toks t u \<Longrightarrow> toks_left u \<le> toks_left t \<Longrightarrow> node_set p b s u"
  by (cases s; cases t; cases u; auto simp: node_set_def dag_set_def same_but_toks_def)+

lemma node_set_here: "node_set p n s (dag_set p n s)"
  by (simp add: node_set_def dag_set_def toks_left_def)

lemma node_set_mem: "node_set p n s s' \<Longrightarrow> gs_mem s' p = Some n" "node_set p n s s' \<Longrightarrow> q \<noteq> p \<Longrightarrow> gs_mem s' q = gs_mem s q"
  by (cases s; cases s'; simp add: node_set_def dag_set_def)+

lemma node_set_toks: "node_set p n s s' \<Longrightarrow> good_toks s \<Longrightarrow> good_toks s'"
  by (auto simp: node_set_def good_toks_def)

lemma node_set_holds:
  assumes "node_set p n' s s'" "gs_mem s p = Some n" "dn_nextp n' = dn_nextp n" "dag_holds s xs"
  shows "dag_holds s' xs"
proof -
  have "dag_links s' = dag_links s" "dag_listp s' = dag_listp s" "gs_fresh s' = gs_fresh s"
    using assms(1-3) by (cases s; cases s'; auto simp: node_set_def dag_set_def dag_links_def fun_eq_iff)+
  with assms(4) show ?thesis by (simp add: dag_holds_def)
qed

lemma do_assignment_sets:
  assumes "\<not> en_lookup opts" "dag_holds s xs" "gs_mem s p = Some n"
  shows "do_assignment opts p i fn s \<noteq> Inl Hang"
    "do_assignment opts p i fn s = Inr s' \<Longrightarrow> \<exists>v. settled v \<and> node_set p (n\<lparr> dn_properties := set_value i v (dn_properties n) \<rparr>) s s'"
proof -
  obtain tok t where tok: "lex_get_token s = (tok, t)" by (cases "lex_get_token s")
  note left = lex_get_token_left [OF tok]
  have t: "dag_holds t xs" using left assms(2) same_but_toks_holds by blast
  let ?r = "do_assignment_loop opts fn (length (lex_toks t) + 1) tok PE_none t"
  have r: "reads_le t ?r" "\<And>v u. ?r = Inr (v, u) \<Longrightarrow> settled v"
    using do_assignment_loop_reads [OF assms(1) t, of "length (lex_toks t) + 1" fn tok PE_none] by (auto simp: toks_left_def)
  have upd: "dag_upd p f u = Inr (dag_set p (f n) u)" if "same_but_toks s u" for f u
  proof -
    have "gs_mem u = gs_mem s" using that by (cases s; cases u) (auto simp: same_but_toks_def)
    then show ?thesis using assms(3) by (simp add: dag_upd_def dag_at_def)
  qed
  have u: "same_but_toks s u \<and> toks_left u \<le> toks_left s" if "?r = Inr (v, u)" for v u
    using that r(1) left by (fastforce simp: reads_le_def intro: same_but_toks_trans)
  show "do_assignment opts p i fn s \<noteq> Inl Hang"
    using r(1) u upd by (auto simp: do_assignment_def tok hbind_eq_Inl reads_le_def)
  assume "do_assignment opts p i fn s = Inr s'"
  then obtain v u' where "?r = Inr (v, u')" "s' = dag_set p (n\<lparr> dn_properties := set_value i v (dn_properties n) \<rparr>) u'"
    using u upd by (auto simp: do_assignment_def tok hbind_eq_Inr split: if_splits)
  with r(2) u node_set_here node_set_read(1) show "\<exists>v. settled v \<and> node_set p (n\<lparr> dn_properties := set_value i v (dn_properties n) \<rparr>) s s'"
    by blast
qed

text \<open>A property of a node that is read keeps the node's other parts and makes it longer by one.\<close>

lemma add_entry: "pl_listp (add_pair_entry plp) = pl_listp plp @ [pair_entry_zero]"
  by (simp add: add_pair_entry_def Let_def)

definition with_prop :: "dag_node \<Rightarrow> dag_node \<Rightarrow> bool" where
  "with_prop n n' \<longleftrightarrow> n' = n\<lparr> dn_properties := dn_properties n' \<rparr> \<and> (good_props n \<longrightarrow> good_props n')"

lemma with_prop_trans: "with_prop a b \<Longrightarrow> with_prop b c \<Longrightarrow> with_prop a c"
  by (cases a; cases b; cases c) (auto simp: with_prop_def)

lemma parse_property_sets:
  assumes "\<not> en_lookup opts" "dag_holds s xs" "gs_mem s p = Some n" "good_name strp"
  shows "parse_property opts p strp s \<noteq> Inl Hang"
    "parse_property opts p strp s = Inr s' \<Longrightarrow> \<exists>n'. with_prop n n' \<and> node_set p n' s s'"
proof -
  let ?i = "length (pl_listp (dn_properties n))" and ?new = "add_pair_entry (dn_properties n)"
  let ?m = "n\<lparr> dn_properties := ?new\<lparr> pl_listp := (pl_listp ?new)[?i := pair_entry_zero\<lparr> pe_namep := strp \<rparr>] \<rparr> \<rparr>"
  obtain tok t where tok: "lex_get_token (dag_set p ?m s) = (tok, t)" by (cases "lex_get_token (dag_set p ?m s)")
  note left = lex_get_token_left [OF tok]
  have set: "node_set p ?m s t" using node_set_read(2) [OF node_set_here] left by blast
  have t: "dag_holds t xs" by (rule node_set_holds [OF set assms(3) _ assms(2)]) simp
  have mem: "gs_mem t p = Some ?m" by (rule node_set_mem [OF set])
  have wp: "with_prop n (?m\<lparr> dn_properties := set_value ?i v (dn_properties ?m) \<rparr>)" if "settled v" for v
    using that assms(4) by (auto simp: with_prop_def good_props_def set_value_def add_entry)
  have run: "parse_property opts p strp s =
     (if tok = T_Equals then do_assignment opts p ?i False t
      else if tok = T_KW_arc then hbind (lex_get_name t) (\<lambda>(r, s).
          hbind (dag_upd p (\<lambda>n. n\<lparr> dn_properties := set_value ?i (PE_noderef r) (dn_properties n) \<rparr>) s) (lex_get T_S_Colon))
      else Inl Fatal)"
    using assms(3) by (simp add: parse_property_def dag_at_def Let_def tok)
  have arc: "gs_mem u p = Some ?m" if "same_but_toks t u" for u
    using that mem by (cases t; cases u) (auto simp: same_but_toks_def)
  show "parse_property opts p strp s \<noteq> Inl Hang"
    using do_assignment_sets(1) [OF assms(1) t mem] lex_get_name_reads [of t] arc lex_get_reads(2)
    by (auto simp: run hbind_eq_Inl reads_on_def dag_upd_def dag_at_def)
  assume s': "parse_property opts p strp s = Inr s'"
  show "\<exists>n'. with_prop n n' \<and> node_set p n' s s'"
  proof (cases "tok = T_Equals")
    case True
    with s' run have "do_assignment opts p ?i False t = Inr s'" by simp
    from do_assignment_sets(2) [OF assms(1) t mem this] obtain v where v: "settled v"
        "node_set p (?m\<lparr> dn_properties := set_value ?i v (dn_properties ?m) \<rparr>) t s'" by blast
    with wp [OF v(1)] node_set_trans [OF set v(2)] show ?thesis by blast
  next
    case False
    with s' run obtain r u where r: "lex_get_name t = Inr (r, u)"
        "hbind (dag_upd p (\<lambda>n. n\<lparr> dn_properties := set_value ?i (PE_noderef r) (dn_properties n) \<rparr>) u) (lex_get T_S_Colon) = Inr s'"
      by (auto simp: hbind_eq_Inr split: if_splits)
    have u: "same_but_toks t u" "toks_left u \<le> toks_left t" using lex_get_name_reads [of t] r(1) by (auto simp: reads_on_def)
    let ?n' = "?m\<lparr> dn_properties := set_value ?i (PE_noderef r) (dn_properties ?m) \<rparr>"
    have "lex_get T_S_Colon (dag_set p ?n' u) = Inr s'" using r(2) arc [OF u(1)] by (simp add: dag_upd_def dag_at_def)
    with lex_get_le have "node_set p ?n' u s'" using node_set_read(2) [OF node_set_here] by blast
    then have "node_set p ?n' s s'" using node_set_trans [OF set] node_set_read(1) [OF u] by blast
    moreover have "with_prop n ?n'" by (rule wp) (simp add: settled_def)
    ultimately show ?thesis by blast
  qed
qed

lemma parse_body_sets:
  assumes opts: "\<not> en_lookup opts" "\<not> en_proto opts" "\<not> en_setprop opts"
  shows "dag_holds s xs \<Longrightarrow> gs_mem s p = Some n \<Longrightarrow> good_toks s \<Longrightarrow> toks_left s < f \<Longrightarrow>
    parse_body opts f p s \<noteq> Inl Hang \<and> (\<forall>s'. parse_body opts f p s = Inr s' \<longrightarrow>
      (\<exists>n'. with_prop n n' \<and> node_set p n' s s') \<and> toks_left s' < toks_left s)"
proof (induction f arbitrary: s n)
  case (Suc f)
  obtain tok t where tok: "lex_get_token s = (tok, t)" by (cases "lex_get_token s")
  note left = lex_get_token_left [OF tok]
  have t: "dag_holds t xs" "good_toks t" using left Suc.prems(1,3) same_but_toks_holds good_toks_same by blast+
  have mem: "gs_mem t p = Some n" using left Suc.prems(2) by (cases s; cases t) (auto simp: same_but_toks_def)
  have here: "node_set p n s t"
  proof -
    have "dag_set p n t = t" using mem by (simp add: dag_set_def fun_upd_idem)
    with node_set_read(1) [OF _ _ node_set_here, of s t p n] left show ?thesis by simp
  qed
  show ?case
  proof (cases "tok = T_R_Brace")
    case True
    with tok left here show ?thesis by (auto simp: with_prop_def intro!: exI [of _ n])
  next
    case False
    show ?thesis
    proof (cases "\<exists>x. tok = T_Token x")
      case True
      then obtain x where x: "tok = T_Token x" by blast
      then have gx: "good_name x" using Suc.prems(3) tok by (auto simp: lex_get_token_def good_toks_def split: list.splits)
      note rd = parse_property_sets [OF opts(1) t(1) mem gx]
      have run: "parse_body opts (Suc f) p s = hbind (parse_property opts p x t) (parse_body opts f p)"
        using tok x by simp
      show ?thesis
      proof (cases "parse_property opts p x t")
        case (Inl e)
        with rd(1) run show ?thesis by simp
      next
        case (Inr u)
        then obtain n' where n': "with_prop n n'" "node_set p n' t u" using rd(2) by blast
        have u: "dag_holds u xs" "gs_mem u p = Some n'" "good_toks u" "toks_left u < f" "toks_left u < toks_left s"
        proof -
          have "dn_nextp n' = dn_nextp n" using n'(1) by (cases n; cases n') (simp add: with_prop_def)
          then show "dag_holds u xs" using node_set_holds [OF n'(2) mem _ t(1)] by blast
          show "gs_mem u p = Some n'" "good_toks u" using node_set_mem(1) [OF n'(2)] node_set_toks [OF n'(2) t(2)] by auto
          show "toks_left u < f" "toks_left u < toks_left s" using n'(2) left x Suc.prems(4) by (auto simp: node_set_def)
        qed
        have run': "parse_body opts (Suc f) p s = parse_body opts f p u" using run Inr by simp
        note ih = Suc.IH [OF u(1-4)]
        have "\<exists>n''. with_prop n n'' \<and> node_set p n'' s s'" "toks_left s' < toks_left s" if ret: "parse_body opts f p u = Inr s'" for s'
        proof -
          from ih ret obtain n'' where "with_prop n' n''" "node_set p n'' u s'" by blast
          then have "with_prop n n''" "node_set p n'' s s'" using n' here with_prop_trans node_set_trans by blast+
          then show "\<exists>n''. with_prop n n'' \<and> node_set p n'' s s'" by blast
          show "toks_left s' < toks_left s" using ih ret u(5) by fastforce
        qed
        with ih run' show ?thesis by simp
      qed
    next
      case other: False
      have "parse_body opts (Suc f) p s = Inl Fatal"
        using tok False other opts by (cases tok) auto
      then show ?thesis by simp
    qed
  qed
qed simp

text \<open>The graph while it is read: a linked list of good nodes.\<close>

definition dag_inv :: "mdgen \<Rightarrow> nat list \<Rightarrow> bool" where
  "dag_inv s xs \<longleftrightarrow> dag_ok False s xs \<and> good_toks s \<and> (\<forall>x\<in>set xs. \<exists>n. gs_mem s x = Some n \<and> good_node n)"

lemma node_set_ok:
  assumes "node_set p n' s s'" "gs_mem s p = Some n" "dn_nextp n' = dn_nextp n" "dn_prevp n' = dn_prevp n" "dag_ok m s xs"
  shows "dag_ok m s' xs"
proof -
  have "dag_holds s' xs" using node_set_holds [OF assms(1-3)] assms(5) by (simp add: dag_ok_def)
  moreover have "dag_list_endp s' = dag_list_endp s" "gs_fresh s' = gs_fresh s"
    using assms(1) by (cases s; cases s'; simp add: node_set_def dag_set_def)+
  moreover have "prev_ok s' xs i = prev_ok s xs i" for i
    using assms(1,2,4) by (cases s; cases s') (auto simp: prev_ok_def node_set_def dag_set_def)
  ultimately show ?thesis using assms(5) by (simp add: dag_ok_def)
qed

lemma good_node_content: "node_content s' x = node_content s x \<Longrightarrow> gs_mem s x = Some n \<Longrightarrow> good_node n \<Longrightarrow> \<exists>n'. gs_mem s' x = Some n' \<and> good_node n'"
proof -
  assume "node_content s' x = node_content s x" "gs_mem s x = Some n" and n: "good_node n"
  then obtain n' where n': "gs_mem s' x = Some n'" "n'\<lparr> dn_prevp := None, dn_nextp := None \<rparr> = n\<lparr> dn_prevp := None, dn_nextp := None \<rparr>"
    by (auto simp: node_content_def)
  from n'(2) n have "good_node n'" by (cases n; cases n') (simp add: good_node_def good_props_def)
  with n' show ?thesis by blast
qed

lemma new_dag_node_toks: "new_dag_node s = Inr (p, s') \<Longrightarrow> lex_toks s' = lex_toks s"
  by (auto simp: new_dag_node_def Let_def dag_set_def dag_upd_def hbind_eq_Inr split: option.splits)

text \<open>The head of a node: its type and its name.\<close>

lemma node_name_sets:
  assumes "gs_mem s p = Some n" "good_toks s"
  shows "hbind (lex_get_name s) (\<lambda>(x, s). hbind (dag_upd p (f x) s) k) =
    (case lex_get_name s of Inl e \<Rightarrow> Inl e | Inr (x, s') \<Rightarrow> k (dag_set p (f x n) s'))"
    "lex_get_name s = Inr (x, s') \<Longrightarrow> node_set p (f x n) s (dag_set p (f x n) s') \<and> good_name x"
proof -
  have mem: "gs_mem s' p = Some n" if "lex_get_name s = Inr (x, s')" for x s'
    using lex_get_name_reads [of s] that assms(1) by (cases s; cases s') (auto simp: reads_on_def same_but_toks_def)
  show "hbind (lex_get_name s) (\<lambda>(x, s). hbind (dag_upd p (f x) s) k) =
    (case lex_get_name s of Inl e \<Rightarrow> Inl e | Inr (x, s') \<Rightarrow> k (dag_set p (f x n) s'))"
    using mem by (cases "lex_get_name s") (auto simp: dag_upd_def dag_at_def)
  assume x: "lex_get_name s = Inr (x, s')"
  with lex_get_name_reads [of s] have "same_but_toks s s'" "toks_left s' \<le> toks_left s" by (auto simp: reads_on_def)
  with x node_set_read(1) node_set_here lex_get_name_good [OF assms(2) x]
  show "node_set p (f x n) s (dag_set p (f x n) s') \<and> good_name x" by blast
qed

lemma dag_upd_eq: "gs_mem s p = Some n \<Longrightarrow> dag_upd p f s = Inr (dag_set p (f n) s)"
  by (simp add: dag_upd_def dag_at_def)

lemma parse_node_inv:
  assumes opts: "\<not> en_lookup opts" "\<not> en_proto opts" "\<not> en_setprop opts" and inv: "dag_inv s xs"
  shows "parse_node opts tok s \<noteq> Inl Hang"
    "parse_node opts tok s = Inr s' \<Longrightarrow> \<exists>p. dag_inv s' (xs @ [p]) \<and> toks_left s' < toks_left s"
proof -
  have "parse_node opts tok s \<noteq> Inl Hang \<and> (\<forall>s'. parse_node opts tok s = Inr s' \<longrightarrow> (\<exists>p. dag_inv s' (xs @ [p]) \<and> toks_left s' < toks_left s))"
  proof (cases "tok = T_KW_node")
    case False
    then show ?thesis using opts by (simp add: parse_node_def)
  next
    case True
    obtain s1 where s1: "new_dag_node s = Inr (gs_fresh s, s1)" "dag_ok False s1 (xs @ [gs_fresh s])"
        "node_content s1 (gs_fresh s) = Some dag_node_zero" "\<forall>x\<in>set xs. node_content s1 x = node_content s x"
      using new_dag_node_appends [of False s xs] inv by (auto simp: dag_inv_def)
    let ?p = "gs_fresh s"
    obtain n where n: "gs_mem s1 ?p = Some n" "n\<lparr> dn_prevp := None, dn_nextp := None \<rparr> = dag_node_zero"
      using s1(3) by (auto simp: node_content_def)
    have toks: "lex_toks s1 = lex_toks s" "good_toks s1"
      using new_dag_node_toks [OF s1(1)] inv by (auto simp: dag_inv_def good_toks_def)
    let ?n2 = "n\<lparr> dn_is_proto := False \<rparr>" and ?s2 = "dag_set ?p (n\<lparr> dn_is_proto := False \<rparr>) s1"
    have set2: "node_set ?p ?n2 s1 ?s2" by (rule node_set_here)
    note mem2 = node_set_mem(1) [OF set2] and toks2 = node_set_toks [OF set2 toks(2)]
    obtain rest where rest: "rest = (\<lambda>s. hbind (lex_get T_L_Brace s) (\<lambda>s. parse_body opts (length (lex_toks s) + 1) ?p s))" by blast
    have run2: "parse_node opts tok s = hbind (lex_get_name ?s2) (\<lambda>(ty, s). hbind (dag_upd ?p (\<lambda>n. n\<lparr> dn_typep := ty \<rparr>) s)
        (\<lambda>s. hbind (lex_get_name s) (\<lambda>(nm, s). hbind (dag_upd ?p (\<lambda>n. n\<lparr> dn_namep := nm \<rparr>) s) rest)))"
      using True s1(1) by (simp add: parse_node_def dag_upd_eq [OF n(1)] rest)
    note run3 = run2 [unfolded node_name_sets(1) [OF mem2 toks2]]
    show ?thesis
    proof (cases "lex_get_name ?s2")
      case (Inl e)
      then show ?thesis using run3 lex_get_name_reads [of ?s2] by (simp add: reads_on_def)
    next
      case (Inr tys)
      then obtain ty s3 where ty: "lex_get_name ?s2 = Inr (ty, s3)" by (cases tys) auto
      let ?n4 = "?n2\<lparr> dn_typep := ty \<rparr>" and ?s4 = "dag_set ?p (?n2\<lparr> dn_typep := ty \<rparr>) s3"
      have set4: "node_set ?p ?n4 ?s2 ?s4" "good_name ty"
        using node_name_sets(2) [OF mem2 toks2 ty, of "\<lambda>ty n. n\<lparr> dn_typep := ty \<rparr>"] by auto
      note mem4 = node_set_mem(1) [OF set4(1)] and toks4 = node_set_toks [OF set4(1) toks2]
      have run4: "parse_node opts tok s = (case lex_get_name ?s4 of Inl e \<Rightarrow> Inl e | Inr (nm, s') \<Rightarrow> rest (dag_set ?p (?n4\<lparr> dn_namep := nm \<rparr>) s'))"
        using run3 by (simp add: ty node_name_sets(1) [OF mem4 toks4])
      show ?thesis
      proof (cases "lex_get_name ?s4")
        case (Inl e)
        then show ?thesis using run4 lex_get_name_reads [of ?s4] by (simp add: reads_on_def)
      next
        case (Inr nms)
        then obtain nm s5 where nm: "lex_get_name ?s4 = Inr (nm, s5)" by (cases nms) auto
        let ?n6 = "?n4\<lparr> dn_namep := nm \<rparr>" and ?s6 = "dag_set ?p (?n4\<lparr> dn_namep := nm \<rparr>) s5"
        have set6: "node_set ?p ?n6 ?s4 ?s6" "good_name nm"
          using node_name_sets(2) [OF mem4 toks4 nm, of "\<lambda>nm n. n\<lparr> dn_namep := nm \<rparr>"] by auto
        have run: "parse_node opts tok s = hbind (lex_get T_L_Brace ?s6) (\<lambda>s. parse_body opts (length (lex_toks s) + 1) ?p s)"
          using run4 nm by (simp add: rest)
        show ?thesis
        proof (cases "lex_get T_L_Brace ?s6")
          case (Inl e)
          with run lex_get_reads(2) [of T_L_Brace ?s6] show ?thesis by simp
        next
          case (Inr s7)
          have set7: "node_set ?p ?n6 s1 s7"
            using node_set_trans [OF node_set_trans [OF set2 set4(1)] set6(1)] node_set_read(2) lex_get_le [OF Inr] by blast
          have s7: "dag_ok False s7 (xs @ [?p])" "gs_mem s7 ?p = Some ?n6" "good_toks s7"
            using node_set_ok [OF set7 n(1) _ _ s1(2)] node_set_mem(1) [OF set7] node_set_toks [OF set7 toks(2)] by simp_all
          then have holds: "dag_holds s7 (xs @ [?p])" by (simp add: dag_ok_def)
          have lt: "toks_left s7 < length (lex_toks s7) + 1" by (simp add: toks_left_def)
          note body = parse_body_sets [OF opts holds s7(2,3) lt]
          have "dag_inv s' (xs @ [?p]) \<and> toks_left s' < toks_left s" if ret: "parse_body opts (length (lex_toks s7) + 1) ?p s7 = Inr s'" for s'
          proof -
            from body ret obtain n' where n': "with_prop ?n6 n'" "node_set ?p n' s7 s'" "toks_left s' < toks_left s7" by blast
            have set': "node_set ?p n' s1 s'" by (rule node_set_trans [OF set7 n'(2)])
            have n0: "pl_listp (dn_properties n) = []"
              using arg_cong [OF n(2), where f = dn_properties] by (simp add: dag_node_zero_def)
            have eq: "n' = ?n6\<lparr> dn_properties := dn_properties n' \<rparr>" and props: "good_props n'"
              using n'(1) n0 by (auto simp: with_prop_def good_props_def)
            have same: "dn_nextp n' = dn_nextp n" "dn_prevp n' = dn_prevp n"
              "dn_typep n' = ty" "dn_namep n' = nm" "\<not> dn_is_proto n'" by (subst eq, simp)+
            then have good: "good_node n'" using props set4(2) set6(2) by (simp add: good_node_def)
            have "\<exists>m. gs_mem s' x = Some m \<and> good_node m" if x: "x \<in> set (xs @ [?p])" for x
            proof (cases "x = ?p")
              case True
              then show ?thesis using node_set_mem(1) [OF set'] good by blast
            next
              case False
              then have "x \<in> set xs" using x by simp
              with inv obtain m where "gs_mem s x = Some m" "good_node m" by (auto simp: dag_inv_def)
              then show ?thesis
                using good_node_content [of s1 x s m] s1(4) \<open>x \<in> set xs\<close> node_set_mem(2) [OF set' False] by simp
            qed
            then have "dag_inv s' (xs @ [?p])"
              using node_set_ok [OF set' n(1) same(1,2) s1(2)] node_set_toks [OF set' toks(2)] by (simp add: dag_inv_def)
            moreover have "toks_left s' < toks_left s" using n'(3) set7 toks(1) by (simp add: node_set_def toks_left_def)
            ultimately show ?thesis by blast
          qed
          with run Inr body show ?thesis by auto
        qed
      qed
    qed
  qed
  then show "parse_node opts tok s \<noteq> Inl Hang"
    "parse_node opts tok s = Inr s' \<Longrightarrow> \<exists>p. dag_inv s' (xs @ [p]) \<and> toks_left s' < toks_left s" by blast+
qed

lemma dag_inv_read: "same_but_toks s t \<Longrightarrow> dag_inv s xs \<Longrightarrow> dag_inv t xs"
proof -
  assume st: "same_but_toks s t" and "dag_inv s xs"
  then have "dag_holds t xs" "good_toks t" using same_but_toks_holds good_toks_same by (auto simp: dag_inv_def dag_ok_def)
  moreover have "gs_mem t = gs_mem s" "dag_list_endp t = dag_list_endp s" "gs_fresh t = gs_fresh s"
    using st by (cases s; cases t; simp add: same_but_toks_def)+
  ultimately show "dag_inv t xs" using \<open>dag_inv s xs\<close> by (simp add: dag_inv_def dag_ok_def prev_ok_def)
qed

lemma parse_dag_loop_inv:
  assumes opts: "\<not> en_lookup opts" "\<not> en_proto opts" "\<not> en_setprop opts"
  shows "dag_inv s xs \<Longrightarrow> toks_left s < f \<Longrightarrow>
    parse_dag_loop opts f s \<noteq> Inl Hang \<and> (\<forall>s'. parse_dag_loop opts f s = Inr s' \<longrightarrow> (\<exists>ys. dag_inv s' (xs @ ys)))"
proof (induction f arbitrary: s xs)
  case (Suc f)
  obtain tok t where tok: "lex_get_token s = (tok, t)" by (cases "lex_get_token s")
  note left = lex_get_token_left [OF tok]
  then have t: "dag_inv t xs" using dag_inv_read Suc.prems(1) by blast
  show ?case
  proof (cases "tok = T_EOF")
    case True
    with tok t show ?thesis by (auto intro: exI [of _ "[]"])
  next
    case False
    then have run: "parse_dag_loop opts (Suc f) s = hbind (parse_node opts tok t) (parse_dag_loop opts f)" by (simp add: tok)
    show ?thesis
    proof (cases "parse_node opts tok t")
      case (Inl e)
      with run parse_node_inv(1) [OF opts t, of tok] show ?thesis by simp
    next
      case (Inr u)
      then obtain p where p: "dag_inv u (xs @ [p])" "toks_left u < toks_left t" using parse_node_inv(2) [OF opts t] by blast
      then have "toks_left u < f" using left Suc.prems(2) by auto
      from Suc.IH [OF p(1) this] run Inr show ?thesis by auto
    qed
  qed
qed simp

text \<open>The tool starts with no nodes.\<close>

definition gen_start :: "lexer_tok list \<Rightarrow> mdgen" where
  "gen_start toks = \<lparr> lex_toks = toks, gs_mem = Map.empty, gs_fresh = 0, dag_listp = None, dag_list_endp = None,
     name_blk = \<lparr> blk_chunks = [], blk_total_size = 0 \<rparr>, data_blk = \<lparr> blk_chunks = [], blk_total_size = 0 \<rparr>, gs_out = [] \<rparr>"

lemma parse_dag_inv:
  assumes "\<not> en_lookup opts" "\<not> en_proto opts" "\<not> en_setprop opts" "\<forall>x. T_Token x \<in> set toks \<longrightarrow> good_name x"
  shows "parse_dag opts (gen_start toks) \<noteq> Inl Hang"
    "parse_dag opts (gen_start toks) = Inr s \<Longrightarrow> \<exists>xs. dag_inv s xs"
proof -
  have "dag_inv (gen_start toks) []"
    using assms(4) by (simp add: dag_inv_def dag_ok_def dag_holds_def gen_start_def good_toks_def)
  from parse_dag_loop_inv [OF assms(1-3) this, of "length toks + 1"]
  show "parse_dag opts (gen_start toks) \<noteq> Inl Hang"
    "parse_dag opts (gen_start toks) = Inr s \<Longrightarrow> \<exists>xs. dag_inv s xs"
    by (auto simp: parse_dag_def toks_left_def gen_start_def simp del: parse_dag_loop.simps)
qed

end
