(* ===== verification/Mdgen_Out.thy ===== *)
theory Mdgen_Out
  imports Mdgen_Read
begin

text \<open>
  The binary output of \<open>mdgen\<close> (\<open>support/mdgen/output_bin.c\<close>): the offsets of the nodes,
  the blocks of names and data, and the image that is written.  The tool compiles only
  where the byte order is that of the network, so \<open>hton32\<close> and its relatives are the
  identity and the bytes of an element are those of its fields, most significant first.
  Writing succeeds: what \<open>bin_write\<close> does when the system takes less than it is given is
  not seen, nor is the freeing of the chunks.

  Shown here: what a run writes, given as lists of elements, names and data.
\<close>

subsection \<open>Chunks\<close>

definition ch_size :: "md_chunk \<Rightarrow> u32" where "ch_size cp = of_nat (length (ch_datap cp))"

text \<open>The chunk is known by its position in the block.\<close>

definition md_add_chunk :: "u8 list \<Rightarrow> md_blk \<Rightarrow> nat \<times> md_blk" where
  "md_add_chunk d bp = (length (blk_chunks bp),
     \<lparr> blk_chunks = blk_chunks bp @ [\<lparr> ch_datap = d, ch_offset = blk_total_size bp \<rparr>],
       blk_total_size = blk_total_size bp + of_nat (length d) \<rparr>)"

definition md_pad :: "nat \<Rightarrow> md_blk \<Rightarrow> md_blk" where
  "md_pad align bp = (let pad = unat (blk_total_size bp) mod align in
     if pad \<noteq> 0 then snd (md_add_chunk (replicate (align - pad) 0) bp) else bp)"

definition md_insert_data :: "u8 list \<Rightarrow> nat \<Rightarrow> md_blk \<Rightarrow> (nat \<times> md_blk) hv" where
  "md_insert_data d align bp = (let bp = md_pad align bp in
     hassert (unat (blk_total_size bp) mod align = 0) (Inr (md_add_chunk d bp)))"

fun find_chunk :: "nat \<Rightarrow> u8 list \<Rightarrow> md_chunk list \<Rightarrow> nat option" where
  "find_chunk i d [] = None"
| "find_chunk i d (cp # cps) = (if ch_datap cp = d then Some i else find_chunk (Suc i) d cps)"

definition md_insert_name :: "cstr \<Rightarrow> md_blk \<Rightarrow> nat \<times> md_blk" where
  "md_insert_name strp bp = (case find_chunk 0 (strp @ [0]) (blk_chunks bp) of
     Some i \<Rightarrow> (i, bp) | None \<Rightarrow> md_add_chunk (strp @ [0]) bp)"

subsection \<open>The passes over the nodes\<close>

definition BASE_TAG_COUNT :: u32 where "BASE_TAG_COUNT = 2"
definition LAST_OFFSET :: u32 where "LAST_OFFSET = 1"

definition out_offset :: "nat \<Rightarrow> u32 \<times> mdgen \<Rightarrow> (u32 \<times> mdgen) hv" where
  "out_offset p = (\<lambda>(offset, s). hbind (dag_at s p) (\<lambda>n.
     Inr (offset + BASE_TAG_COUNT + of_nat (length (pl_listp (dn_properties n))), dag_set p (n\<lparr> dn_offset := offset \<rparr>) s)))"

definition out_insert_value :: "pair_entry \<Rightarrow> md_blk \<Rightarrow> (nat option \<times> md_blk) hv" where
  "out_insert_value pep db = (case pe_value pep of
     PE_string strp \<Rightarrow> hbind (md_insert_data (strp @ [0]) 8 db) (\<lambda>(j, db). Inr (Some j, db))
   | PE_data d \<Rightarrow> hbind (md_insert_data d 8 db) (\<lambda>(j, db). Inr (Some j, db))
   | _ \<Rightarrow> Inr (pe_data_tmp pep, db))"

fun out_insert_props :: "pair_entry list \<Rightarrow> md_blk \<times> md_blk \<Rightarrow> (pair_entry list \<times> md_blk \<times> md_blk) hv" where
  "out_insert_props [] b = Inr ([], b)"
| "out_insert_props (pep # peps) (nb, db) =
     (let (i, nb) = md_insert_name (pe_namep pep) nb in
      hbind (out_insert_value pep db) (\<lambda>(j, db).
      hbind (out_insert_props peps (nb, db)) (\<lambda>(peps', b).
      Inr (pep\<lparr> pe_name_tmp := Some i, pe_data_tmp := j \<rparr> # peps', b))))"

definition out_insert_node :: "nat \<Rightarrow> unit \<times> mdgen \<Rightarrow> (unit \<times> mdgen) hv" where
  "out_insert_node p = (\<lambda>(u, s). hbind (dag_at s p) (\<lambda>n.
     let (i, nb) = md_insert_name (dn_typep n) (name_blk s) in
     hbind (out_insert_props (pl_listp (dn_properties n)) (nb, data_blk s)) (\<lambda>(peps, nb, db).
     Inr ((), (dag_set p (n\<lparr> dn_name_tmp := Some i, dn_properties := (dn_properties n)\<lparr> pl_listp := peps \<rparr> \<rparr>) s)
       \<lparr> name_blk := nb, data_blk := db \<rparr>))))"

subsection \<open>Writing\<close>

definition bin_write :: "u8 list \<Rightarrow> mdgen \<Rightarrow> mdgen" where
  "bin_write bs s = s\<lparr> gs_out := gs_out s @ bs \<rparr>"

definition elem_bytes :: "md_element \<Rightarrow> u8 list" where
  "elem_bytes e = [me_tag e, me_namelen e] @ be_bytes 2 (me_pad e) @ be_bytes 4 (me_name e) @ be_bytes 8 (me_d e)"

definition mde_zero :: md_element where
  "mde_zero = \<lparr> me_tag = 0, me_namelen = 0, me_pad = 0, me_name = 0, me_d = 0 \<rparr>"

definition chunk_at :: "md_blk \<Rightarrow> nat option \<Rightarrow> md_chunk hv" where
  "chunk_at bp r = (case r of None \<Rightarrow> Inl Bad_access | Some i \<Rightarrow>
     hguard (i < length (blk_chunks bp)) (Inr (blk_chunks bp ! i)))"

text \<open>\<open>SIZETONAMELEN\<close> leaves the terminating NUL out.\<close>

definition name_fields :: "md_chunk \<Rightarrow> md_element \<Rightarrow> md_element hv" where
  "name_fields sbp mde = hassert (ch_size sbp < 256) (Inr (mde\<lparr> me_namelen := ucast (ch_size sbp - 1), me_name := ch_offset sbp \<rparr>))"

definition out_value :: "mdgen \<Rightarrow> pair_entry \<Rightarrow> md_element \<Rightarrow> md_element hv" where
  "out_value s pep mde =
     (let data = (\<lambda>tag. hbind (chunk_at (data_blk s) (pe_data_tmp pep)) (\<lambda>sbp.
        Inr (mde\<lparr> me_tag := tag, me_d := push_bit 32 (ucast (ch_size sbp)) OR ucast (ch_offset sbp) \<rparr>)))
      in case pe_value pep of
        PE_none \<Rightarrow> Inl Fatal
      | PE_string _ \<Rightarrow> data MDET_PROP_STR
      | PE_data _ \<Rightarrow> data MDET_PROP_DAT
      | PE_int v \<Rightarrow> Inr (mde\<lparr> me_tag := MDET_PROP_VAL, me_d := v \<rparr>)
      | PE_arc r \<Rightarrow> hbind (dag_at s r) (\<lambda>n. Inr (mde\<lparr> me_tag := MDET_PROP_ARC, me_d := scast (dn_offset n) \<rparr>))
      | PE_noderef _ \<Rightarrow> Inl Fatal)"

definition out_prop :: "pair_entry \<Rightarrow> mdgen \<Rightarrow> mdgen hv" where
  "out_prop pep s = hbind (chunk_at (name_blk s) (pe_name_tmp pep)) (\<lambda>sbp.
     hbind (name_fields sbp mde_zero) (\<lambda>mde. hbind (out_value s pep mde) (\<lambda>mde. Inr (bin_write (elem_bytes mde) s))))"

definition out_node :: "u32 \<Rightarrow> nat \<Rightarrow> unit \<times> mdgen \<Rightarrow> (unit \<times> mdgen) hv" where
  "out_node list_end_offset p = (\<lambda>(u, s). hbind (dag_at s p) (\<lambda>n.
     hbind (chunk_at (name_blk s) (dn_name_tmp n)) (\<lambda>sbp.
     hbind (name_fields sbp (mde_zero\<lparr> me_tag := MDET_NODE \<rparr>)) (\<lambda>mde.
     hbind (case dn_nextp n of None \<Rightarrow> Inr (scast list_end_offset)
       | Some q \<Rightarrow> hbind (dag_at s q) (\<lambda>m. Inr (scast (dn_offset m)))) (\<lambda>val.
     hbind (hfold out_prop (pl_listp (dn_properties n)) (bin_write (elem_bytes (mde\<lparr> me_d := val \<rparr>)) s)) (\<lambda>s.
     Inr ((), bin_write (elem_bytes (mde_zero\<lparr> me_tag := MDET_NODE_END \<rparr>)) s)))))))"

definition blk_bytes :: "md_blk \<Rightarrow> u8 list" where
  "blk_bytes bp = concat (map ch_datap (blk_chunks bp))"

definition blk_empty :: md_blk where
  "blk_empty = \<lparr> blk_chunks = [], blk_total_size = 0 \<rparr>"

definition hdr_bytes :: "u32 \<Rightarrow> u32 \<Rightarrow> u32 \<Rightarrow> u8 list" where
  "hdr_bytes node_sz name_sz data_sz = be_bytes 4 MD_TRANSPORT_VERSION @ be_bytes 4 node_sz @ be_bytes 4 name_sz @ be_bytes 4 data_sz"

definition output_bin :: "mdgen \<Rightarrow> mdgen hv" where
  "output_bin s =
     hbind (dag_for out_offset (0, s)) (\<lambda>(list_end_offset, s).
     hbind (dag_for out_insert_node ((), s\<lparr> name_blk := blk_empty, data_blk := blk_empty \<rparr>)) (\<lambda>(u, s).
     let s = s\<lparr> name_blk := md_pad 16 (name_blk s) \<rparr>;
         s = bin_write (hdr_bytes (of_nat MD_ELEMENT_SIZE * (list_end_offset + LAST_OFFSET))
               (blk_total_size (name_blk s)) (blk_total_size (data_blk s))) s
     in hbind (dag_for (out_node list_end_offset) ((), s)) (\<lambda>(u, s).
     let s = bin_write (elem_bytes (mde_zero\<lparr> me_tag := MDET_LIST_END \<rparr>)) s;
         s = bin_write (blk_bytes (name_blk s)) s;
         s = bin_write (blk_bytes (data_blk s)) s
     in Inr (s\<lparr> name_blk := blk_empty, data_blk := blk_empty \<rparr>))))"

text \<open>The tool, when it is to write a binary: \<open>main\<close> after its arguments.  Opening the output file empties it.\<close>

definition mdgen_main :: "gen_opts \<Rightarrow> lexer_tok list \<Rightarrow> u8 list hv" where
  "mdgen_main opts toks =
     hbind (parse_dag opts (gen_start toks)) (\<lambda>s.
     hbind (if en_proto opts then delete_protos s else Inr s) (\<lambda>s.
     hbind (connect_dag s) (\<lambda>s. hbind (stichin_reqd_properties s) (\<lambda>s.
     hbind (output_bin (s\<lparr> gs_out := [] \<rparr>)) (\<lambda>s. Inr (gs_out s))))))"

subsection \<open>Blocks as lists of chunks\<close>

definition blk_of :: "u8 list list \<Rightarrow> md_blk" where
  "blk_of ds = \<lparr> blk_chunks = map (\<lambda>i. \<lparr> ch_datap = ds ! i, ch_offset = of_nat (length (concat (take i ds))) \<rparr>) [0..<length ds],
     blk_total_size = of_nat (length (concat ds)) \<rparr>"

lemma blk_of_empty: "blk_empty = blk_of []"
  by (simp add: blk_empty_def blk_of_def)

lemma blk_bytes_of: "blk_bytes (blk_of ds) = concat ds"
  by (simp add: blk_bytes_def blk_of_def map_nth o_def)

lemma blk_total_of: "blk_total_size (blk_of ds) = of_nat (length (concat ds))"
  by (simp add: blk_of_def)

lemma chunk_at_of: "i < length ds \<Longrightarrow> chunk_at (blk_of ds) (Some i) =
    Inr \<lparr> ch_datap = ds ! i, ch_offset = of_nat (length (concat (take i ds))) \<rparr>"
  by (simp add: chunk_at_def blk_of_def)

lemma add_chunk_of: "md_add_chunk d (blk_of ds) = (length ds, blk_of (ds @ [d]))"
  by (auto simp: md_add_chunk_def blk_of_def nth_append)

definition pad_chunk :: "nat \<Rightarrow> u8 list list \<Rightarrow> u8 list list" where
  "pad_chunk a ds = (let pad = unat (of_nat (length (concat ds)) :: u32) mod a in if pad \<noteq> 0 then [replicate (a - pad) 0] else [])"

lemma md_pad_of: "md_pad a (blk_of ds) = blk_of (ds @ pad_chunk a ds)"
  by (simp add: md_pad_def pad_chunk_def add_chunk_of Let_def) (simp add: blk_of_def)

lemma unat_u32_mod: "a dvd 2 ^ 32 \<Longrightarrow> unat (of_nat n :: u32) mod a = n mod a"
  by (simp add: unsigned_of_nat take_bit_eq_mod mod_mod_cancel)

lemma pad_chunk_aligned:
  assumes "a dvd 2 ^ 32" "0 < a"
  shows "length (concat (ds @ pad_chunk a ds)) mod a = 0"
proof -
  let ?n = "length (concat ds)"
  have "(?n + (a - ?n mod a)) mod a = 0" using assms(2)
    by (metis add_diff_inverse_nat less_or_eq_imp_le linorder_not_le mod_add_left_eq mod_less_divisor mod_self)
  then show ?thesis using unat_u32_mod [OF assms(1), of ?n] by (simp add: pad_chunk_def Let_def)
qed

lemma insert_data_of:
  assumes "a dvd 2 ^ 32" "0 < a"
  shows "md_insert_data d a (blk_of ds) = Inr (length (ds @ pad_chunk a ds), blk_of ((ds @ pad_chunk a ds) @ [d]))"
proof -
  have "unat (blk_total_size (blk_of (ds @ pad_chunk a ds))) mod a = 0"
    using pad_chunk_aligned [OF assms, of ds] unat_u32_mod [OF assms(1)] unfolding blk_total_of by (simp only:)
  then show ?thesis by (simp add: md_insert_data_def Let_def md_pad_of add_chunk_of)
qed

text \<open>The names of a block of names; each chunk ends in NUL.\<close>

definition zstr :: "cstr \<Rightarrow> u8 list" where "zstr x = x @ [0]"

lemma find_chunk_of: "find_chunk i d cps = (if d \<in> ch_datap ` set cps then Some (i + (LEAST k. k < length cps \<and> ch_datap (cps ! k) = d)) else None)"
proof (induction cps arbitrary: i)
  case (Cons cp cps)
  show ?case
  proof (cases "ch_datap cp = d")
    case True
    then have "(LEAST k. k < length (cp # cps) \<and> ch_datap ((cp # cps) ! k) = d) = 0" by (intro Least_equality) auto
    with True show ?thesis by simp
  next
    case False
    have "(LEAST k. k < length (cp # cps) \<and> ch_datap ((cp # cps) ! k) = d) = Suc (LEAST k. k < length cps \<and> ch_datap (cps ! k) = d)"
      if "d \<in> ch_datap ` set cps"
    proof -
      from that obtain k where "k < length cps" "ch_datap (cps ! k) = d" by (auto simp: in_set_conv_nth)
      then have "(LEAST k. k < length (cp # cps) \<and> ch_datap ((cp # cps) ! k) = d) =
          Suc (LEAST k. Suc k < length (cp # cps) \<and> ch_datap ((cp # cps) ! Suc k) = d)"
        using False by (intro Least_Suc [of _ "Suc k"]) auto
      then show ?thesis by simp
    qed
    with False Cons.IH [of "Suc i"] show ?thesis by auto
  qed
qed simp

lemma insert_name_of:
  "\<exists>i zs. md_insert_name nm (blk_of (map zstr names)) = (i, blk_of (map zstr (names @ zs))) \<and>
     i < length (names @ zs) \<and> (names @ zs) ! i = nm \<and> (distinct names \<longrightarrow> distinct (names @ zs)) \<and> set zs \<subseteq> {nm}"
proof (cases "nm \<in> set names")
  case True
  let ?P = "\<lambda>k. k < length names \<and> names ! k = nm"
  obtain k where "?P k" using True by (auto simp: in_set_conv_nth)
  note P = LeastI [of ?P, OF this]
  have chunks: "k < length names \<Longrightarrow> ch_datap (blk_chunks (blk_of (map zstr names)) ! k) = zstr (names ! k)" for k
    by (simp add: blk_of_def)
  have len: "length (blk_chunks (blk_of (map zstr names))) = length names" by (simp add: blk_of_def)
  have "(LEAST k. k < length (blk_chunks (blk_of (map zstr names))) \<and> ch_datap (blk_chunks (blk_of (map zstr names)) ! k) = nm @ [0]) = (LEAST k. ?P k)"
  proof (rule arg_cong [where f = Least], rule ext)
    show "(k < length (blk_chunks (blk_of (map zstr names))) \<and> ch_datap (blk_chunks (blk_of (map zstr names)) ! k) = nm @ [0]) = ?P k" for k
    proof (cases "k < length names")
      case True
      show ?thesis unfolding len chunks [OF True] zstr_def using True by blast
    qed (simp add: len)
  qed
  moreover have "nm @ [0] \<in> ch_datap ` set (blk_chunks (blk_of (map zstr names)))"
    using True by (auto simp: blk_of_def image_iff in_set_conv_nth zstr_def)
  ultimately have "md_insert_name nm (blk_of (map zstr names)) = (LEAST k. ?P k, blk_of (map zstr names))"
    by (simp add: md_insert_name_def find_chunk_of)
  with P show ?thesis by (intro exI [of _ "LEAST k. ?P k"] exI [of _ "[]"]) simp
next
  case False
  then have "nm @ [0] \<notin> ch_datap ` set (blk_chunks (blk_of (map zstr names)))"
    by (auto simp: blk_of_def in_set_conv_nth zstr_def)
  then have "md_insert_name nm (blk_of (map zstr names)) = (length names, blk_of (map zstr (names @ [nm])))"
    using add_chunk_of [of "nm @ [0]" "map zstr names"] by (simp add: md_insert_name_def find_chunk_of zstr_def)
  with False show ?thesis by (intro exI [of _ "length names"] exI [of _ "[nm]"]) simp
qed

subsection \<open>The first pass\<close>

text \<open>The number of elements of a node but its end, and where the elements of node \<open>k\<close> of a list start.\<close>

definition props_of :: "(nat \<Rightarrow> dag_node option) \<Rightarrow> nat \<Rightarrow> pair_entry list" where
  "props_of m x = pl_listp (dn_properties (the (m x)))"

definition node_len :: "(nat \<Rightarrow> dag_node option) \<Rightarrow> nat \<Rightarrow> nat" where
  "node_len m x = 2 + length (props_of m x)"

definition node_off :: "(nat \<Rightarrow> dag_node option) \<Rightarrow> nat list \<Rightarrow> nat \<Rightarrow> nat" where
  "node_off m xs k = sum_list (map (node_len m) (take k xs))"

lemma node_off_simps [simp]:
  "node_off m xs 0 = 0" "node_off m (x # xs) (Suc k) = node_len m x + node_off m xs k"
  by (simp_all add: node_off_def)

lemma node_off_cong: "(\<And>x. x \<in> set xs \<Longrightarrow> node_len m x = node_len m' x) \<Longrightarrow> node_off m xs k = node_off m' xs k"
  unfolding node_off_def by (rule arg_cong [where f = sum_list], rule map_cong [OF refl]) (blast dest: in_set_takeD)

lemma out_offset_pass:
  assumes "distinct xs" "\<forall>x\<in>set xs. gs_mem s x \<noteq> None"
  shows "\<exists>m. hfold out_offset xs (z, s) = Inr (z + of_nat (node_off (gs_mem s) xs (length xs)), s\<lparr> gs_mem := m \<rparr>) \<and>
    (\<forall>x. x \<notin> set xs \<longrightarrow> m x = gs_mem s x) \<and>
    (\<forall>k<length xs. m (xs ! k) = Some ((the (gs_mem s (xs ! k)))\<lparr> dn_offset := z + of_nat (node_off (gs_mem s) xs k) \<rparr>))"
  using assms
proof (induction xs arbitrary: z s)
  case Nil
  show ?case by (intro exI [of _ "gs_mem s"]) simp
next
  case (Cons x xs)
  then obtain n where n: "gs_mem s x = Some n" by auto
  let ?s = "dag_set x (n\<lparr> dn_offset := z \<rparr>) s" and ?z = "z + of_nat (node_len (gs_mem s) x)"
  have step: "out_offset x (z, s) = Inr (?z, ?s)"
    using n by (simp add: out_offset_def dag_at_def BASE_TAG_COUNT_def node_len_def props_of_def add.assoc)
  have off: "node_off (gs_mem ?s) xs k = node_off (gs_mem s) xs k" for k
    by (rule node_off_cong) (use Cons.prems(1) in \<open>auto simp: dag_set_def node_len_def props_of_def\<close>)
  have "distinct xs" "\<forall>y\<in>set xs. gs_mem ?s y \<noteq> None" using Cons.prems by (auto simp: dag_set_def)
  from Cons.IH [OF this, of ?z] obtain m where m:
      "hfold out_offset xs (?z, ?s) = Inr (?z + of_nat (node_off (gs_mem s) xs (length xs)), ?s\<lparr> gs_mem := m \<rparr>)"
      "\<And>y. y \<notin> set xs \<Longrightarrow> m y = gs_mem ?s y"
      "\<And>k. k < length xs \<Longrightarrow> m (xs ! k) = Some ((the (gs_mem ?s (xs ! k)))\<lparr> dn_offset := ?z + of_nat (node_off (gs_mem s) xs k) \<rparr>)"
    unfolding off by blast
  have "m ((x # xs) ! k) = Some ((the (gs_mem s ((x # xs) ! k)))\<lparr> dn_offset := z + of_nat (node_off (gs_mem s) (x # xs) k) \<rparr>)"
    if "k < length (x # xs)" for k
  proof (cases k)
    case 0
    then show ?thesis using m(2) [of x] Cons.prems(1) n by (simp add: dag_set_def)
  next
    case (Suc j)
    then have "xs ! j \<noteq> x" using Cons.prems(1) that by auto
    with Suc m(3) [of j] that show ?thesis by (simp add: dag_set_def add.assoc)
  qed
  moreover have "m y = gs_mem s y" if "y \<notin> set (x # xs)" for y using m(2) [of y] that by (simp add: dag_set_def)
  moreover have "hfold out_offset (x # xs) (z, s) = Inr (z + of_nat (node_off (gs_mem s) (x # xs) (length (x # xs))), s\<lparr> gs_mem := m \<rparr>)"
    using step m(1) by (simp add: dag_set_def add.assoc)
  ultimately show ?case by blast
qed

subsection \<open>The second pass\<close>

text \<open>An entry, or a node, after its names and data have been put into the blocks.\<close>

definition entry_put :: "cstr list \<Rightarrow> u8 list list \<Rightarrow> pair_entry \<Rightarrow> pair_entry \<Rightarrow> bool" where
  "entry_put names ds pep pep' \<longleftrightarrow> pe_namep pep' = pe_namep pep \<and> pe_value pep' = pe_value pep \<and>
     (\<exists>i<length names. pe_name_tmp pep' = Some i \<and> names ! i = pe_namep pep) \<and>
     (\<forall>d. (\<exists>x. pe_value pep = PE_string x \<and> d = zstr x) \<or> pe_value pep = PE_data d \<longrightarrow>
        (\<exists>j<length ds. pe_data_tmp pep' = Some j \<and> ds ! j = d))"

definition node_put :: "cstr list \<Rightarrow> u8 list list \<Rightarrow> dag_node \<Rightarrow> dag_node \<Rightarrow> bool" where
  "node_put names ds n n' \<longleftrightarrow> (\<exists>i peps. i < length names \<and> names ! i = dn_typep n \<and>
     list_all2 (entry_put names ds) (pl_listp (dn_properties n)) peps \<and>
     n' = n\<lparr> dn_name_tmp := Some i, dn_properties := (dn_properties n)\<lparr> pl_listp := peps \<rparr> \<rparr>)"

lemma entry_put_mono: "entry_put names ds a b \<Longrightarrow> entry_put (names @ zs) (ds @ ys) a b"
  unfolding entry_put_def by (fastforce simp: nth_append)

lemma node_put_mono:
  assumes "node_put names ds a b"
  shows "node_put (names @ zs) (ds @ ys) a b"
proof -
  have "list_all2 (entry_put (names @ zs) (ds @ ys)) l peps" if "list_all2 (entry_put names ds) l peps" for l peps
    using that by (rule list_all2_mono) (rule entry_put_mono)
  then show ?thesis using assms unfolding node_put_def by (fastforce simp: nth_append)
qed

lemma insert_value_put:
  "\<exists>j ys. out_insert_value pep (blk_of ds) = Inr (j, blk_of (ds @ ys)) \<and>
     (\<forall>d. (\<exists>x. pe_value pep = PE_string x \<and> d = zstr x) \<or> pe_value pep = PE_data d \<longrightarrow>
        (\<exists>k<length (ds @ ys). j = Some k \<and> (ds @ ys) ! k = d))"
proof -
  have put: "\<exists>ys. hbind (md_insert_data d 8 (blk_of ds)) (\<lambda>(j, db). Inr (Some j, db)) = Inr (Some (length (ds @ ys)), blk_of ((ds @ ys) @ [d]))" for d
    using insert_data_of [of 8 d ds] by (intro exI [of _ "pad_chunk 8 ds"]) simp
  show ?thesis
  proof (cases "pe_value pep")
    case (PE_string x)
    obtain ys where "out_insert_value pep (blk_of ds) = Inr (Some (length (ds @ ys)), blk_of ((ds @ ys) @ [zstr x]))"
      using put [of "zstr x"] PE_string by (auto simp: out_insert_value_def zstr_def)
    then show ?thesis using PE_string
      by (intro exI [of _ "Some (length (ds @ ys))"] exI [of _ "ys @ [zstr x]"]) (simp add: nth_append)
  next
    case (PE_data d)
    obtain ys where "out_insert_value pep (blk_of ds) = Inr (Some (length (ds @ ys)), blk_of ((ds @ ys) @ [d]))"
      using put [of d] PE_data by (auto simp: out_insert_value_def)
    then show ?thesis using PE_data
      by (intro exI [of _ "Some (length (ds @ ys))"] exI [of _ "ys @ [d]"]) (simp add: nth_append)
  qed (simp_all add: out_insert_value_def exI [of _ "[]"])
qed

lemma insert_props_put:
  "\<exists>peps' zs ys. out_insert_props peps (blk_of (map zstr names), blk_of ds) =
       Inr (peps', blk_of (map zstr (names @ zs)), blk_of (ds @ ys)) \<and>
     list_all2 (entry_put (names @ zs) (ds @ ys)) peps peps' \<and> (distinct names \<longrightarrow> distinct (names @ zs)) \<and>
     set zs \<subseteq> pe_namep ` set peps"
proof (induction peps arbitrary: names ds)
  case Nil
  show ?case by (intro exI [of _ "[]"]) simp
next
  case (Cons pep peps)
  obtain i zs where i: "md_insert_name (pe_namep pep) (blk_of (map zstr names)) = (i, blk_of (map zstr (names @ zs)))"
      "i < length (names @ zs)" "(names @ zs) ! i = pe_namep pep" "distinct names \<longrightarrow> distinct (names @ zs)" "set zs \<subseteq> {pe_namep pep}"
    using insert_name_of by blast
  obtain j ys where j: "out_insert_value pep (blk_of ds) = Inr (j, blk_of (ds @ ys))"
      "\<forall>d. (\<exists>x. pe_value pep = PE_string x \<and> d = zstr x) \<or> pe_value pep = PE_data d \<longrightarrow>
        (\<exists>k<length (ds @ ys). j = Some k \<and> (ds @ ys) ! k = d)"
    using insert_value_put [of pep ds] by (elim exE conjE) (rule that)
  obtain peps' zs' ys' where r: "out_insert_props peps (blk_of (map zstr (names @ zs)), blk_of (ds @ ys)) =
       Inr (peps', blk_of (map zstr ((names @ zs) @ zs')), blk_of ((ds @ ys) @ ys'))"
     "list_all2 (entry_put ((names @ zs) @ zs') ((ds @ ys) @ ys')) peps peps'"
     "distinct (names @ zs) \<longrightarrow> distinct ((names @ zs) @ zs')" "set zs' \<subseteq> pe_namep ` set peps"
    using Cons.IH [of "names @ zs" "ds @ ys"] by blast
  let ?pep = "pep\<lparr> pe_name_tmp := Some i, pe_data_tmp := j \<rparr>"
  have "entry_put (names @ zs) (ds @ ys) pep ?pep" using i(2,3) j(2) by (auto simp: entry_put_def)
  from entry_put_mono [OF this, of zs' ys'] r(2) have "list_all2 (entry_put (names @ (zs @ zs')) (ds @ (ys @ ys'))) (pep # peps) (?pep # peps')" by simp
  moreover have "out_insert_props (pep # peps) (blk_of (map zstr names), blk_of ds) =
      Inr (?pep # peps', blk_of (map zstr (names @ (zs @ zs'))), blk_of (ds @ (ys @ ys')))"
    using i(1) j(1) r(1) by simp
  moreover have "distinct names \<longrightarrow> distinct (names @ (zs @ zs'))" "set (zs @ zs') \<subseteq> pe_namep ` set (pep # peps)"
    using i(4,5) r(3,4) by auto
  ultimately show ?case by blast
qed

text \<open>The names a list of nodes needs.\<close>

definition node_names :: "dag_node \<Rightarrow> cstr set" where
  "node_names n = insert (dn_typep n) (pe_namep ` set (pl_listp (dn_properties n)))"

lemma out_insert_pass:
  assumes "distinct xs" "\<forall>x\<in>set xs. gs_mem s x \<noteq> None" "name_blk s = blk_of (map zstr names)" "data_blk s = blk_of ds"
  shows "\<exists>m zs ys. hfold out_insert_node xs ((), s) =
      Inr ((), s\<lparr> gs_mem := m, name_blk := blk_of (map zstr (names @ zs)), data_blk := blk_of (ds @ ys) \<rparr>) \<and>
    (\<forall>x. x \<notin> set xs \<longrightarrow> m x = gs_mem s x) \<and>
    (\<forall>x\<in>set xs. \<exists>n'. m x = Some n' \<and> node_put (names @ zs) (ds @ ys) (the (gs_mem s x)) n') \<and>
    (distinct names \<longrightarrow> distinct (names @ zs)) \<and> set zs \<subseteq> (\<Union>x\<in>set xs. node_names (the (gs_mem s x)))"
  using assms
proof (induction xs arbitrary: s names ds)
  case Nil
  show ?case using Nil by (intro exI [of _ "gs_mem s"] exI [of _ "[]"]) (cases s, simp)
next
  case (Cons x xs)
  then obtain n where n: "gs_mem s x = Some n" by auto
  obtain i zs where i: "md_insert_name (dn_typep n) (blk_of (map zstr names)) = (i, blk_of (map zstr (names @ zs)))"
      "i < length (names @ zs)" "(names @ zs) ! i = dn_typep n" "distinct names \<longrightarrow> distinct (names @ zs)" "set zs \<subseteq> {dn_typep n}"
    using insert_name_of by blast
  obtain peps zs' ys where r: "out_insert_props (pl_listp (dn_properties n)) (blk_of (map zstr (names @ zs)), blk_of ds) =
       Inr (peps, blk_of (map zstr ((names @ zs) @ zs')), blk_of (ds @ ys))"
     "list_all2 (entry_put ((names @ zs) @ zs') (ds @ ys)) (pl_listp (dn_properties n)) peps"
     "distinct (names @ zs) \<longrightarrow> distinct ((names @ zs) @ zs')" "set zs' \<subseteq> pe_namep ` set (pl_listp (dn_properties n))"
    using insert_props_put by blast
  let ?n = "n\<lparr> dn_name_tmp := Some i, dn_properties := (dn_properties n)\<lparr> pl_listp := peps \<rparr> \<rparr>"
  let ?names = "(names @ zs) @ zs'" and ?ds = "ds @ ys"
  let ?s = "(dag_set x ?n s)\<lparr> name_blk := blk_of (map zstr ?names), data_blk := blk_of ?ds \<rparr>"
  have step: "out_insert_node x ((), s) = Inr ((), ?s)"
    using n i(1) r(1) Cons.prems(3,4) by (simp add: out_insert_node_def dag_at_def)
  have "i < length ?names" "?names ! i = dn_typep n"
    using i(2,3) nth_append [of "names @ zs" zs' i] by simp_all
  with r(2) have put: "node_put ?names ?ds n ?n" unfolding node_put_def by blast
  have "distinct xs" "\<forall>y\<in>set xs. gs_mem ?s y \<noteq> None" "name_blk ?s = blk_of (map zstr ?names)" "data_blk ?s = blk_of ?ds"
    using Cons.prems(1,2) by (auto simp: dag_set_def)
  from Cons.IH [OF this] obtain m zs2 ys2 where m: "hfold out_insert_node xs ((), ?s) =
      Inr ((), ?s\<lparr> gs_mem := m, name_blk := blk_of (map zstr (?names @ zs2)), data_blk := blk_of (?ds @ ys2) \<rparr>)"
    "\<And>y. y \<notin> set xs \<Longrightarrow> m y = gs_mem ?s y"
    "\<And>y. y \<in> set xs \<Longrightarrow> \<exists>n'. m y = Some n' \<and> node_put (?names @ zs2) (?ds @ ys2) (the (gs_mem ?s y)) n'"
    "distinct ?names \<longrightarrow> distinct (?names @ zs2)" "set zs2 \<subseteq> (\<Union>y\<in>set xs. node_names (the (gs_mem ?s y)))"
    by blast
  have other: "gs_mem ?s y = gs_mem s y" if "y \<noteq> x" for y using that by (simp add: dag_set_def)
  let ?zs = "zs @ zs' @ zs2" and ?ys = "ys @ ys2"
  have "hfold out_insert_node (x # xs) ((), s) =
      Inr ((), s\<lparr> gs_mem := m, name_blk := blk_of (map zstr (names @ ?zs)), data_blk := blk_of (ds @ ?ys) \<rparr>)"
    using step m(1) by (simp add: dag_set_def)
  moreover have "m y = gs_mem s y" if "y \<notin> set (x # xs)" for y using m(2) [of y] that other by simp
  moreover have "\<exists>n'. m y = Some n' \<and> node_put (names @ ?zs) (ds @ ?ys) (the (gs_mem s y)) n'" if "y \<in> set (x # xs)" for y
  proof (cases "y = x")
    case True
    then have "m y = Some ?n" using m(2) [of x] Cons.prems(1) by (simp add: dag_set_def)
    with True n node_put_mono [OF put, of zs2 ys2] show ?thesis by simp
  next
    case False
    with that m(3) [of y] other [OF False] show ?thesis by simp
  qed
  moreover have "distinct names \<longrightarrow> distinct (names @ ?zs)" using i(4) r(3) m(4) by auto
  moreover have "set ?zs \<subseteq> (\<Union>y\<in>set (x # xs). node_names (the (gs_mem s y)))"
  proof -
    have "set zs2 \<subseteq> (\<Union>y\<in>set xs. node_names (the (gs_mem s y)))"
      using m(5) other Cons.prems(1) by (metis (no_types, lifting) SUP_cong distinct.simps(2))
    then show ?thesis using i(5) r(4) n by (auto simp: node_names_def)
  qed
  ultimately show ?case by blast
qed

subsection \<open>The third pass\<close>

definition name_off :: "cstr list \<Rightarrow> cstr \<Rightarrow> nat" where
  "name_off names nm = length (concat (map zstr (takeWhile (\<lambda>x. x \<noteq> nm) names)))"

definition named_elem :: "cstr list \<Rightarrow> cstr \<Rightarrow> md_element \<Rightarrow> md_element" where
  "named_elem names nm e = e\<lparr> me_namelen := of_nat (length nm), me_name := of_nat (name_off names nm) \<rparr>"

text \<open>Length and offset of the data of an entry.\<close>

definition data_d :: "u8 list list \<Rightarrow> pair_entry \<Rightarrow> u64" where
  "data_d ds pep = (case pe_data_tmp pep of None \<Rightarrow> 0 | Some j \<Rightarrow>
     push_bit 32 (ucast (of_nat (length (ds ! j)) :: u32)) OR ucast (of_nat (length (concat (take j ds))) :: u32))"

definition value_elem :: "u8 list list \<Rightarrow> (nat \<Rightarrow> dag_node option) \<Rightarrow> pair_entry \<Rightarrow> md_element" where
  "value_elem ds m pep = (case pe_value pep of
     PE_string _ \<Rightarrow> mde_zero\<lparr> me_tag := MDET_PROP_STR, me_d := data_d ds pep \<rparr>
   | PE_data _ \<Rightarrow> mde_zero\<lparr> me_tag := MDET_PROP_DAT, me_d := data_d ds pep \<rparr>
   | PE_int v \<Rightarrow> mde_zero\<lparr> me_tag := MDET_PROP_VAL, me_d := v \<rparr>
   | PE_arc r \<Rightarrow> mde_zero\<lparr> me_tag := MDET_PROP_ARC, me_d := scast (dn_offset (the (m r))) \<rparr>
   | _ \<Rightarrow> mde_zero)"

definition prop_elem :: "cstr list \<Rightarrow> u8 list list \<Rightarrow> (nat \<Rightarrow> dag_node option) \<Rightarrow> pair_entry \<Rightarrow> md_element" where
  "prop_elem names ds m pep = named_elem names (pe_namep pep) (value_elem ds m pep)"

definition node_elem :: "cstr list \<Rightarrow> (nat \<Rightarrow> dag_node option) \<Rightarrow> u32 \<Rightarrow> nat \<Rightarrow> md_element" where
  "node_elem names m leo x = named_elem names (dn_typep (the (m x))) (mde_zero\<lparr> me_tag := MDET_NODE,
     me_d := (case dn_nextp (the (m x)) of None \<Rightarrow> scast leo | Some q \<Rightarrow> scast (dn_offset (the (m q)))) \<rparr>)"

definition node_elems :: "cstr list \<Rightarrow> u8 list list \<Rightarrow> (nat \<Rightarrow> dag_node option) \<Rightarrow> u32 \<Rightarrow> nat \<Rightarrow> md_element list" where
  "node_elems names ds m leo x = node_elem names m leo x # map (prop_elem names ds m) (props_of m x) @ [mde_zero\<lparr> me_tag := MDET_NODE_END \<rparr>]"

text \<open>What can be written.\<close>

definition outable :: "(nat \<Rightarrow> dag_node option) \<Rightarrow> pair_entry \<Rightarrow> bool" where
  "outable m pep \<longleftrightarrow> length (pe_namep pep) < 255 \<and>
     (case pe_value pep of PE_none \<Rightarrow> False | PE_noderef _ \<Rightarrow> False | PE_arc r \<Rightarrow> m r \<noteq> None | _ \<Rightarrow> True)"

lemma takeWhile_nth: "distinct xs \<Longrightarrow> i < length xs \<Longrightarrow> takeWhile (\<lambda>x. x \<noteq> xs ! i) xs = take i xs"
proof (induction xs arbitrary: i)
  case (Cons x xs)
  show ?case
  proof (cases i)
    case (Suc j)
    then have "x \<noteq> xs ! j" using Cons.prems by auto
    with Suc Cons show ?thesis by simp
  qed simp
qed simp

lemma name_off_nth: "distinct names \<Longrightarrow> i < length names \<Longrightarrow> name_off names (names ! i) = length (concat (take i (map zstr names)))"
  by (simp add: name_off_def takeWhile_nth take_map)

lemma ucast_small: "n < 2 ^ LENGTH('b) \<Longrightarrow> unat (of_nat n :: 'b::len word) = n"
  by (simp add: unsigned_of_nat take_bit_nat_eq_self)

lemma name_fields_put:
  assumes "distinct names" "i < length names" "names ! i = nm" "length nm < 255"
  obtains sbp where "chunk_at (blk_of (map zstr names)) (Some i) = Inr sbp" "\<And>e. name_fields sbp e = Inr (named_elem names nm e)"
proof -
  have size: "of_nat (length (zstr nm)) - 1 = (of_nat (length nm) :: u32)" by (simp add: zstr_def)
  have "of_nat (length (zstr nm)) < (256 :: u32)" using assms(4) by (simp add: word_less_nat_alt zstr_def ucast_small del: of_nat_Suc of_nat_add)
  moreover have "(ucast (of_nat (length nm) :: u32) :: u8) = of_nat (length nm)"
    using assms(4) by (intro ucast_of_nat_small) simp
  ultimately have "name_fields (md_chunk.make (zstr nm) (of_nat (length (concat (take i (map zstr names)))))) e = Inr (named_elem names nm e)" for e
    using assms(3) size name_off_nth [OF assms(1,2)]
    by (simp add: name_fields_def ch_size_def hassert_def named_elem_def md_chunk.defs)
  then show thesis using that assms(2,3) by (simp add: chunk_at_of md_chunk.defs)
qed

lemma out_prop_elem:
  assumes "entry_put names ds pep0 pep" "distinct names" "name_blk s = blk_of (map zstr names)" "data_blk s = blk_of ds" "outable (gs_mem s) pep"
  shows "out_prop pep s = Inr (bin_write (elem_bytes (prop_elem names ds (gs_mem s) pep)) s)"
proof -
  obtain i where i: "i < length names" "pe_name_tmp pep = Some i" "names ! i = pe_namep pep" using assms(1) by (auto simp: entry_put_def)
  have data: "\<exists>j<length ds. pe_data_tmp pep = Some j" if "(\<exists>x. pe_value pep = PE_string x) \<or> (\<exists>d. pe_value pep = PE_data d)"
    using assms(1) that by (auto simp: entry_put_def)
  have "out_value s pep (named_elem names (pe_namep pep) mde_zero) = Inr (prop_elem names ds (gs_mem s) pep)"
    using assms(4,5) data
    by (cases "pe_value pep")
      (auto simp: out_value_def prop_elem_def value_elem_def named_elem_def chunk_at_of data_d_def outable_def dag_at_def ch_size_def)
  moreover have "length (pe_namep pep) < 255" using assms(5) by (simp add: outable_def)
  then obtain sbp where "chunk_at (blk_of (map zstr names)) (Some i) = Inr sbp" "\<And>e. name_fields sbp e = Inr (named_elem names (pe_namep pep) e)"
    using name_fields_put [OF assms(2) i(1,3)] by blast
  ultimately show ?thesis using assms(3) i(2) by (simp add: out_prop_def)
qed

lemma bin_write_simps [simp]:
  "gs_mem (bin_write b s) = gs_mem s" "name_blk (bin_write b s) = name_blk s" "data_blk (bin_write b s) = data_blk s"
  "bin_write c (bin_write b s) = bin_write (b @ c) s" "bin_write [] s = s" "dag_listp (bin_write b s) = dag_listp s"
  "gs_fresh (bin_write b s) = gs_fresh s" "gs_out (bin_write b s) = gs_out s @ b"
  by (simp_all add: bin_write_def)

lemma out_props_elems:
  assumes "list_all2 (entry_put names ds) peps0 peps" "distinct names"
  shows "name_blk s = blk_of (map zstr names) \<Longrightarrow> data_blk s = blk_of ds \<Longrightarrow> \<forall>pep\<in>set peps. outable (gs_mem s) pep \<Longrightarrow>
    hfold out_prop peps s = Inr (bin_write (concat (map elem_bytes (map (prop_elem names ds (gs_mem s)) peps))) s)"
  using assms(1)
proof (induction arbitrary: s rule: list_all2_induct)
  case (Cons x xs y ys)
  have "out_prop y s = Inr (bin_write (elem_bytes (prop_elem names ds (gs_mem s) y)) s)"
    using Cons.prems Cons.hyps(1) assms(2) by (intro out_prop_elem) auto
  with Cons.IH [of "bin_write (elem_bytes (prop_elem names ds (gs_mem s) y)) s"] Cons.prems show ?case by simp
qed simp

text \<open>A node all of whose parts can be written, after the second pass.\<close>

definition node_ready :: "cstr list \<Rightarrow> u8 list list \<Rightarrow> (nat \<Rightarrow> dag_node option) \<Rightarrow> nat \<Rightarrow> bool" where
  "node_ready names ds m x \<longleftrightarrow> (\<exists>n0 n. m x = Some n \<and> node_put names ds n0 n \<and> length (dn_typep n) < 255 \<and>
     (\<forall>pep\<in>set (pl_listp (dn_properties n)). outable m pep) \<and> (\<forall>q. dn_nextp n = Some q \<longrightarrow> m q \<noteq> None))"

lemma out_node_elems:
  assumes "node_ready names ds (gs_mem s) x" "distinct names" "name_blk s = blk_of (map zstr names)" "data_blk s = blk_of ds"
  shows "out_node leo x ((), s) = Inr ((), bin_write (concat (map elem_bytes (node_elems names ds (gs_mem s) leo x))) s)"
proof -
  obtain n0 n where n: "gs_mem s x = Some n" "node_put names ds n0 n" "length (dn_typep n) < 255"
      "\<forall>pep\<in>set (pl_listp (dn_properties n)). outable (gs_mem s) pep" "\<forall>q. dn_nextp n = Some q \<longrightarrow> gs_mem s q \<noteq> None"
    using assms(1) by (auto simp: node_ready_def)
  from n(2) obtain i where i: "i < length names" "names ! i = dn_typep n" "dn_name_tmp n = Some i"
      and props: "list_all2 (entry_put names ds) (pl_listp (dn_properties n0)) (pl_listp (dn_properties n))"
    by (auto simp: node_put_def)
  let ?val = "case dn_nextp n of None \<Rightarrow> scast leo | Some q \<Rightarrow> scast (dn_offset (the (gs_mem s q)))"
  have val: "(case dn_nextp n of None \<Rightarrow> Inr (scast leo) | Some q \<Rightarrow> hbind (dag_at s q) (\<lambda>m. Inr (scast (dn_offset m)))) = Inr ?val"
    using n(5) by (auto simp: dag_at_def split: option.split)
  have hd: "(named_elem names (dn_typep n) (mde_zero\<lparr> me_tag := MDET_NODE \<rparr>))\<lparr> me_d := ?val \<rparr> = node_elem names (gs_mem s) leo x"
    using n(1) by (simp add: node_elem_def named_elem_def)
  obtain sbp where sbp: "chunk_at (blk_of (map zstr names)) (Some i) = Inr sbp" "\<And>e. name_fields sbp e = Inr (named_elem names (dn_typep n) e)"
    using name_fields_put [OF assms(2) i(1,2) n(3)] by blast
  have "out_node leo x ((), s) = hbind (hfold out_prop (pl_listp (dn_properties n)) (bin_write (elem_bytes (node_elem names (gs_mem s) leo x)) s))
      (\<lambda>s. Inr ((), bin_write (elem_bytes (mde_zero\<lparr> me_tag := MDET_NODE_END \<rparr>)) s))"
    using n(1) i(3) assms(3) sbp by (simp add: out_node_def dag_at_def [of s x] val hd)
  also have "\<dots> = Inr ((), bin_write (concat (map elem_bytes (node_elems names ds (gs_mem s) leo x))) s)"
    using out_props_elems [OF props assms(2), of "bin_write (elem_bytes (node_elem names (gs_mem s) leo x)) s"] assms(3,4) n(1,4)
    by (simp add: node_elems_def props_of_def)
  finally show ?thesis .
qed

lemma out_node_pass:
  assumes "distinct names"
  shows "\<forall>x\<in>set xs. node_ready names ds (gs_mem s) x \<Longrightarrow> name_blk s = blk_of (map zstr names) \<Longrightarrow> data_blk s = blk_of ds \<Longrightarrow>
    hfold (out_node leo) xs ((), s) = Inr ((), bin_write (concat (map elem_bytes (concat (map (node_elems names ds (gs_mem s) leo) xs)))) s)"
proof (induction xs arbitrary: s)
  case (Cons x xs)
  let ?s = "bin_write (concat (map elem_bytes (node_elems names ds (gs_mem s) leo x))) s"
  have "out_node leo x ((), s) = Inr ((), ?s)" using Cons.prems assms by (intro out_node_elems) auto
  with Cons.IH [of ?s] Cons.prems show ?case by simp
qed simp

subsection \<open>All passes\<close>

text \<open>What can be written of a graph: names that fit a length of eight bits, values that are settled, arcs to nodes.\<close>

definition writable :: "(nat \<Rightarrow> dag_node option) \<Rightarrow> dag_node \<Rightarrow> bool" where
  "writable m n \<longleftrightarrow> good_name (dn_typep n) \<and> length (dn_typep n) < 255 \<and>
     (\<forall>pep\<in>set (pl_listp (dn_properties n)). good_name (pe_namep pep) \<and> outable m pep)"

text \<open>The padding of the name block, taken as a further name.\<close>

definition pad_names :: "u8 list list \<Rightarrow> cstr list" where
  "pad_names ds = map (\<lambda>c. replicate (length c - 1) 0) (pad_chunk 16 ds)"

lemma pad_names_zstr: "map zstr (pad_names ds) = pad_chunk 16 ds"
proof -
  have "zstr (replicate (15 - p mod 16) 0) = replicate (16 - p mod 16) 0" for p :: nat
  proof -
    have "16 - p mod 16 = Suc (15 - p mod 16)" using mod_less_divisor [of 16 p] by arith
    then show ?thesis by (simp add: zstr_def replicate_append_same)
  qed
  then show ?thesis by (simp add: pad_names_def pad_chunk_def Let_def)
qed

lemma pad_names_distinct: "distinct names \<Longrightarrow> \<forall>x\<in>set names. good_name x \<Longrightarrow> distinct (names @ pad_names ds)"
proof -
  have bad: "\<not> good_name (replicate k 0)" for k by (cases k) (auto simp: good_name_def)
  show "distinct names \<Longrightarrow> \<forall>x\<in>set names. good_name x \<Longrightarrow> distinct (names @ pad_names ds)"
    using bad by (auto simp: pad_names_def pad_chunk_def Let_def)
qed

lemma out_steps_links:
  "out_offset p (z, s) = Inr (z', s') \<Longrightarrow> dag_links s' = dag_links s"
  "out_insert_node p (u, s) = Inr (u', s') \<Longrightarrow> dag_links s' = dag_links s"
proof -
  show "out_offset p (z, s) = Inr (z', s') \<Longrightarrow> dag_links s' = dag_links s"
    by (auto simp: out_offset_def hbind_eq_Inr dag_at_def dag_set_def dag_links_def fun_eq_iff split: option.splits)
  assume run: "out_insert_node p (u, s) = Inr (u', s')"
  then obtain n where n: "gs_mem s p = Some n" by (auto simp: out_insert_node_def hbind_eq_Inr dag_at_def split: option.splits)
  obtain i nb where "md_insert_name (dn_typep n) (name_blk s) = (i, nb)" by fastforce
  with run n show "dag_links s' = dag_links s"
    by (auto simp: out_insert_node_def hbind_eq_Inr dag_at_def dag_set_def dag_links_def fun_eq_iff)
qed

lemma out_props_links: "hfold out_prop peps s = Inr s' \<Longrightarrow> gs_mem s' = gs_mem s"
proof (induction peps arbitrary: s)
  case (Cons x xs)
  then obtain t where t: "out_prop x s = Inr t" "hfold out_prop xs t = Inr s'" by (auto simp: hbind_eq_Inr)
  then have "gs_mem t = gs_mem s" by (auto simp: out_prop_def hbind_eq_Inr)
  with Cons.IH [OF t(2)] show ?case by simp
qed simp

lemma out_node_links: "out_node l p (u, s) = Inr (u', s') \<Longrightarrow> dag_links s' = dag_links s"
proof -
  assume "out_node l p (u, s) = Inr (u', s')"
  then obtain b peps t c where "hfold out_prop peps (bin_write b s) = Inr t" "s' = bin_write c t"
    by (auto simp: out_node_def hbind_eq_Inr)
  then show ?thesis using out_props_links by (fastforce simp: dag_links_def fun_eq_iff)
qed

lemma dag_holds_mem: "dag_links s' = dag_links s \<Longrightarrow> dag_listp s' = dag_listp s \<Longrightarrow> gs_fresh s' = gs_fresh s \<Longrightarrow> dag_holds s' xs = dag_holds s xs"
  by (simp add: dag_holds_def)

text \<open>The image: header, elements, names and data.\<close>

definition bin_image :: "md_element list \<Rightarrow> cstr list \<Rightarrow> u8 list list \<Rightarrow> u8 list" where
  "bin_image es names ds = hdr_bytes (16 * of_nat (length es)) (of_nat (length (concat (map zstr names)))) (of_nat (length (concat ds))) @
     concat (map elem_bytes es) @ concat (map zstr names) @ concat ds"

text \<open>The nodes as they are when the elements are written.\<close>

definition laid_out :: "(nat \<Rightarrow> dag_node option) \<Rightarrow> nat list \<Rightarrow> cstr list \<Rightarrow> u8 list list \<Rightarrow> (nat \<Rightarrow> dag_node option) \<Rightarrow> bool" where
  "laid_out m xs names ds M \<longleftrightarrow> (\<forall>k<length xs. \<exists>n'. M (xs ! k) = Some n' \<and>
     node_put names ds ((the (m (xs ! k)))\<lparr> dn_offset := of_nat (node_off m xs k) \<rparr>) n')"

definition graph_elems :: "(nat \<Rightarrow> dag_node option) \<Rightarrow> nat list \<Rightarrow> cstr list \<Rightarrow> u8 list list \<Rightarrow> u32 \<Rightarrow> md_element list" where
  "graph_elems M xs names ds leo = concat (map (node_elems names ds M leo) xs) @ [mde_zero\<lparr> me_tag := MDET_LIST_END \<rparr>]"

lemma node_put_facts:
  assumes "node_put names ds n n'"
  shows "dn_typep n' = dn_typep n" "dn_nextp n' = dn_nextp n" "dn_offset n' = dn_offset n"
    "list_all2 (entry_put names ds) (pl_listp (dn_properties n)) (pl_listp (dn_properties n'))"
    "length (pl_listp (dn_properties n')) = length (pl_listp (dn_properties n))"
  using assms by (auto simp: node_put_def dest: list_all2_lengthD)

lemma dag_path_next:
  "dag_path (dag_links s) p xs \<Longrightarrow> k < length xs \<Longrightarrow>
   \<exists>n. gs_mem s (xs ! k) = Some n \<and> dn_nextp n = (if Suc k < length xs then Some (xs ! Suc k) else None)"
proof (induction xs arbitrary: p k)
  case (Cons x xs)
  then obtain q where q: "p = Some x" "dag_links s x = Some q" "dag_path (dag_links s) q xs" by auto
  show ?case
  proof (cases k)
    case 0
    from q(2) obtain n where "gs_mem s x = Some n" "dn_nextp n = q" by (auto simp: dag_links_def)
    moreover have "q = (if xs = [] then None else Some (xs ! 0))" using q(3) by (cases xs) auto
    ultimately show ?thesis using 0 by simp
  next
    case (Suc j)
    with Cons.IH [OF q(3), of j] Cons.prems(2) show ?thesis by auto
  qed
qed simp

lemma laid_out_len:
  assumes "laid_out m xs names ds M"
  shows "k < length xs \<Longrightarrow> node_len M (xs ! k) = node_len m (xs ! k)" "node_off M xs k = node_off m xs k"
proof -
  show len: "node_len M (xs ! k) = node_len m (xs ! k)" if "k < length xs" for k
    using assms that node_put_facts(5) unfolding laid_out_def node_len_def props_of_def by fastforce
  show "node_off M xs k = node_off m xs k"
    by (rule node_off_cong) (use len in \<open>auto simp: in_set_conv_nth\<close>)
qed

lemma length_node_elems: "length (node_elems names ds M leo x) = node_len M x"
  by (simp add: node_elems_def node_len_def)

lemma length_graph_elems: "length (graph_elems M xs names ds leo) = Suc (node_off M xs (length xs))"
  by (simp add: graph_elems_def length_concat node_off_def o_def length_node_elems)

lemma laid_out_ready:
  assumes path: "dag_path (dag_links s) p xs" and w: "\<forall>x\<in>set xs. writable (gs_mem s) (the (gs_mem s x))"
    and out: "laid_out (gs_mem s) xs names ds M" "\<And>x. x \<notin> set xs \<Longrightarrow> M x = gs_mem s x"
  shows "\<forall>x\<in>set xs. node_ready names ds M x"
proof
  fix x assume x: "x \<in> set xs"
  then obtain k where k: "k < length xs" "xs ! k = x" by (auto simp: in_set_conv_nth)
  have kept: "M q \<noteq> None" if "gs_mem s q \<noteq> None" for q
    using out that by (cases "q \<in> set xs") (auto simp: laid_out_def in_set_conv_nth)
  obtain n where n: "gs_mem s x = Some n" "dn_nextp n = (if Suc k < length xs then Some (xs ! Suc k) else None)"
    using dag_path_next [OF path k(1)] k(2) by blast
  let ?n = "n\<lparr> dn_offset := of_nat (node_off (gs_mem s) xs k) \<rparr>"
  obtain n' where n': "M x = Some n'" "node_put names ds ?n n'" using out(1) k n(1) by (auto simp: laid_out_def)
  note f = node_put_facts [OF n'(2)]
  have wn: "writable (gs_mem s) n" using w x n(1) by fastforce
  have "outable M pep" if "pep \<in> set (pl_listp (dn_properties n'))" for pep
  proof -
    from that obtain i where i: "i < length (pl_listp (dn_properties n'))" "pl_listp (dn_properties n') ! i = pep"
      by (auto simp: in_set_conv_nth)
    define pep0 where "pep0 = pl_listp (dn_properties n) ! i"
    have "pep0 \<in> set (pl_listp (dn_properties n))" "entry_put names ds pep0 pep"
      using list_all2_nthD2 [OF f(4) i(1)] i f(5) by (simp_all add: pep0_def)
    moreover from this(1) wn have "outable (gs_mem s) pep0" by (simp add: writable_def)
    ultimately show ?thesis using kept by (auto simp: outable_def entry_put_def split: pair_value.splits)
  qed
  moreover have "M q \<noteq> None" if "dn_nextp n' = Some q" for q
  proof -
    have "Suc k < length xs" "q = xs ! Suc k" using that f(2) n(2) by (auto split: if_splits)
    then show ?thesis using dag_path_next [OF path, of "Suc k"] kept by auto
  qed
  ultimately show "node_ready names ds M x"
    using n' f(1) wn by (auto simp: node_ready_def writable_def)
qed

lemma dag_holds_put:
  assumes "dag_path (dag_links s) (dag_listp s) xs" "laid_out (gs_mem s) xs names ds M" "\<And>x. x \<notin> set xs \<Longrightarrow> M x = gs_mem s x" "gs_mem s' = M"
  shows "dag_links s' = dag_links s"
proof
  fix x
  show "dag_links s' x = dag_links s x"
  proof (cases "x \<in> set xs")
    case True
    then obtain k where k: "k < length xs" "xs ! k = x" by (auto simp: in_set_conv_nth)
    obtain n where n: "gs_mem s x = Some n" using dag_path_mem [OF assms(1) True] by blast
    with assms(2) k obtain n' where "M x = Some n'" "node_put names ds (n\<lparr> dn_offset := of_nat (node_off (gs_mem s) xs k) \<rparr>) n'"
      by (auto simp: laid_out_def)
    with n assms(4) node_put_facts(2) [OF this(2)] show ?thesis by (simp add: dag_links_def)
  qed (use assms(3,4) in \<open>simp add: dag_links_def\<close>)
qed

lemma passes_laid_out:
  assumes "dag_holds s xs"
  shows "\<exists>M names ds m.
    dag_for out_offset (0, s) = Inr (of_nat (node_off (gs_mem s) xs (length xs)), s\<lparr> gs_mem := m \<rparr>) \<and>
    dag_for out_insert_node ((), s\<lparr> gs_mem := m, name_blk := blk_empty, data_blk := blk_empty \<rparr>) =
      Inr ((), s\<lparr> gs_mem := M, name_blk := blk_of (map zstr names), data_blk := blk_of ds \<rparr>) \<and>
    distinct names \<and> set names \<subseteq> (\<Union>x\<in>set xs. node_names (the (gs_mem s x))) \<and>
    laid_out (gs_mem s) xs names ds M \<and> (\<forall>x. x \<notin> set xs \<longrightarrow> M x = gs_mem s x)"
proof -
  have path: "dag_path (dag_links s) (dag_listp s) xs" using assms by (simp add: dag_holds_def)
  have xs: "distinct xs" "\<forall>x\<in>set xs. gs_mem s x \<noteq> None"
    using dag_path_distinct [OF path] dag_path_mem [OF path] by auto
  from out_offset_pass [OF xs, of 0] obtain m where m:
    "hfold out_offset xs (0, s) = Inr (of_nat (node_off (gs_mem s) xs (length xs)), s\<lparr> gs_mem := m \<rparr>)"
    "\<And>x. x \<notin> set xs \<Longrightarrow> m x = gs_mem s x"
    "\<And>k. k < length xs \<Longrightarrow> m (xs ! k) = Some ((the (gs_mem s (xs ! k)))\<lparr> dn_offset := of_nat (node_off (gs_mem s) xs k) \<rparr>)"
    by auto
  let ?s = "s\<lparr> gs_mem := m, name_blk := blk_empty, data_blk := blk_empty \<rparr>"
  have links: "dag_links ?s = dag_links s"
  proof
    fix x
    show "dag_links ?s x = dag_links s x"
    proof (cases "x \<in> set xs")
      case True
      then obtain n where "gs_mem s x = Some n" using xs(2) by auto
      moreover obtain k where "k < length xs" "xs ! k = x" using True by (auto simp: in_set_conv_nth)
      ultimately show ?thesis using m(3) [of k] by (simp add: dag_links_def)
    qed (simp add: dag_links_def m(2))
  qed
  then have holds: "dag_holds ?s xs" using assms by (simp add: dag_holds_def)
  have "\<forall>x\<in>set xs. gs_mem ?s x \<noteq> None" using m(3) by (auto simp: in_set_conv_nth)
  from out_insert_pass [OF xs(1) this, of "[]" "[]"] obtain M names ds where M:
    "hfold out_insert_node xs ((), ?s) = Inr ((), ?s\<lparr> gs_mem := M, name_blk := blk_of (map zstr names), data_blk := blk_of ds \<rparr>)"
    "\<And>x. x \<notin> set xs \<Longrightarrow> M x = m x" "\<And>x. x \<in> set xs \<Longrightarrow> \<exists>n'. M x = Some n' \<and> node_put names ds (the (m x)) n'"
    "distinct names" "set names \<subseteq> (\<Union>x\<in>set xs. node_names (the (m x)))"
    by (auto simp: blk_of_empty)
  have "dag_for out_offset (0, s) = Inr (of_nat (node_off (gs_mem s) xs (length xs)), s\<lparr> gs_mem := m \<rparr>)"
    using dag_for_holds [OF assms, of out_offset 0] out_steps_links(1) m(1) by metis
  moreover have "dag_for out_insert_node ((), ?s) = Inr ((), s\<lparr> gs_mem := M, name_blk := blk_of (map zstr names), data_blk := blk_of ds \<rparr>)"
    using dag_for_holds [OF holds, of out_insert_node "()"] out_steps_links(2) M(1) by simp
  moreover have "node_names (the (m x)) = node_names (the (gs_mem s x))" if "x \<in> set xs" for x
    using that m(3) by (auto simp: in_set_conv_nth node_names_def)
  then have "set names \<subseteq> (\<Union>x\<in>set xs. node_names (the (gs_mem s x)))" using M(5) by auto
  moreover have "laid_out (gs_mem s) xs names ds M"
    unfolding laid_out_def
  proof (intro allI impI)
    fix k assume k: "k < length xs"
    show "\<exists>n'. M (xs ! k) = Some n' \<and> node_put names ds ((the (gs_mem s (xs ! k)))\<lparr> dn_offset := of_nat (node_off (gs_mem s) xs k) \<rparr>) n'"
      using M(3) [of "xs ! k"] m(3) [OF k] k by simp
  qed
  moreover have "\<forall>x. x \<notin> set xs \<longrightarrow> M x = gs_mem s x" using M(2) m(2) by simp
  ultimately show ?thesis using M(4) by blast
qed

lemma output_bin_image:
  assumes holds: "dag_holds s xs" and w: "\<forall>x\<in>set xs. writable (gs_mem s) (the (gs_mem s x))" and "gs_out s = []"
  shows "\<exists>s' M names nms ds. output_bin s = Inr s' \<and>
    gs_out s' = bin_image (graph_elems M xs names ds (of_nat (node_off (gs_mem s) xs (length xs)))) names ds \<and>
    names = nms @ pad_names (map zstr nms) \<and> distinct names \<and> (\<forall>x\<in>set nms. good_name x) \<and>
    laid_out (gs_mem s) xs names ds M \<and> (\<forall>x. x \<notin> set xs \<longrightarrow> M x = gs_mem s x)"
proof -
  have path: "dag_path (dag_links s) (dag_listp s) xs" using holds by (simp add: dag_holds_def)
  let ?leo = "of_nat (node_off (gs_mem s) xs (length xs)) :: u32"
  obtain M nms ds m where p:
    "dag_for out_offset (0, s) = Inr (?leo, s\<lparr> gs_mem := m \<rparr>)"
    "dag_for out_insert_node ((), s\<lparr> gs_mem := m, name_blk := blk_empty, data_blk := blk_empty \<rparr>) =
      Inr ((), s\<lparr> gs_mem := M, name_blk := blk_of (map zstr nms), data_blk := blk_of ds \<rparr>)"
    "distinct nms" "set nms \<subseteq> (\<Union>x\<in>set xs. node_names (the (gs_mem s x)))"
    "laid_out (gs_mem s) xs nms ds M" "\<forall>x. x \<notin> set xs \<longrightarrow> M x = gs_mem s x"
    using passes_laid_out [OF holds] by blast
  have good: "\<forall>x\<in>set nms. good_name x" using p(4) w by (fastforce simp: node_names_def writable_def)
  define names where "names = nms @ pad_names (map zstr nms)"
  have names: "distinct names" unfolding names_def by (rule pad_names_distinct [OF p(3) good])
  have out: "laid_out (gs_mem s) xs names ds M"
    using p(5) node_put_mono [where ys = "[]"] unfolding laid_out_def names_def by fastforce
  let ?es = "graph_elems M xs names ds ?leo"
  define s1 where "s1 = s\<lparr> gs_mem := M, name_blk := blk_of (map zstr names), data_blk := blk_of ds \<rparr>"
  have pad: "md_pad 16 (blk_of (map zstr nms)) = blk_of (map zstr names)"
    by (simp add: md_pad_of names_def pad_names_zstr)
  define hd where "hd = hdr_bytes (of_nat MD_ELEMENT_SIZE * (?leo + LAST_OFFSET)) (blk_total_size (name_blk s1)) (blk_total_size (data_blk s1))"
  have "dag_links (bin_write hd s1) = dag_links s" using dag_holds_put [OF path out] p(6) by (simp add: s1_def)
  then have "dag_holds (bin_write hd s1) xs" using holds dag_holds_mem [of "bin_write hd s1" s] by (simp add: s1_def)
  then have "dag_for (out_node ?leo) ((), bin_write hd s1) = hfold (out_node ?leo) xs ((), bin_write hd s1)"
    by (rule dag_for_holds) (rule out_node_links)
  also have "\<dots> = Inr ((), bin_write (concat (map elem_bytes (concat (map (node_elems names ds M ?leo) xs)))) (bin_write hd s1))"
    using out_node_pass [OF names, of xs ds "bin_write hd s1"] laid_out_ready [OF path w out] p(6) by (simp add: s1_def)
  finally have pass3: "dag_for (out_node ?leo) ((), bin_write hd s1) =
      Inr ((), bin_write (hd @ concat (map elem_bytes (concat (map (node_elems names ds M ?leo) xs)))) s1)" by simp
  define s' where "s' = (bin_write (hd @ concat (map elem_bytes ?es) @ blk_bytes (name_blk s1) @ blk_bytes (data_blk s1)) s1)
    \<lparr> name_blk := blk_empty, data_blk := blk_empty \<rparr>"
  have step2: "(s\<lparr> gs_mem := M, name_blk := blk_of (map zstr nms), data_blk := blk_of ds \<rparr>)
      \<lparr> name_blk := md_pad 16 (name_blk (s\<lparr> gs_mem := M, name_blk := blk_of (map zstr nms), data_blk := blk_of ds \<rparr>)) \<rparr> = s1"
    by (simp add: s1_def pad)
  have "output_bin s = Inr s'"
    unfolding output_bin_def p(1) hbind_Inr prod.case p(2) Let_def step2 hd_def [symmetric] pass3
    by (simp add: s'_def graph_elems_def)
  moreover have "hd = hdr_bytes (16 * of_nat (length ?es)) (of_nat (length (concat (map zstr names)))) (of_nat (length (concat ds)))"
    using laid_out_len(2) [OF out] by (simp add: hd_def s1_def blk_total_of length_graph_elems MD_ELEMENT_SIZE_def LAST_OFFSET_def add.commute)
  then have "gs_out s' = bin_image ?es names ds"
    using assms(3) by (simp add: s'_def bin_image_def s1_def blk_bytes_of bin_write_def)
  ultimately show ?thesis using names good out p(6) names_def by blast
qed

end
