(* ===== verification/Mdgen_Image.thy ===== *)
theory Mdgen_Image
  imports Mdgen_Out
begin

text \<open>
  The images \<open>mdgen\<close> writes, as the hypervisor reads them: an image is the header, the
  elements and the string table of \<open>bin_md_t\<close> (\<open>md_impl.h\<close>), taken from its bytes.

  Shown here: reading back what was written gives the elements and the names; and the
  scanner of the hypervisor finds in an image the nodes and the properties of the graph
  it was made of.
\<close>

subsection \<open>Reading an image\<close>

definition be_field :: "nat \<Rightarrow> nat \<Rightarrow> u8 list \<Rightarrow> 'a::len word" where
  "be_field pos n bs = be_value (take n (drop pos bs))"

definition elem_read :: "u8 list \<Rightarrow> md_element" where
  "elem_read bs = \<lparr> me_tag = be_field 0 1 bs, me_namelen = be_field 1 1 bs, me_pad = be_field 2 2 bs,
     me_name = be_field 4 4 bs, me_d = be_field 8 8 bs \<rparr>"

definition md_view :: "u8 list \<Rightarrow> bin_md" where
  "md_view bs = (let nsz = be_field 4 4 bs :: u32; blk = drop MD_ELEMENT_SIZE bs in
     \<lparr> transport_version = be_field 0 4 bs, node_blk_sz = nsz, name_blk_sz = be_field 8 4 bs, data_blk_sz = be_field 12 4 bs,
       elem = map (\<lambda>i. elem_read (take MD_ELEMENT_SIZE (drop (MD_ELEMENT_SIZE * i) blk))) [0..<unat nsz div MD_ELEMENT_SIZE],
       str_tab = drop (unat nsz) blk \<rparr>)"

lemma be_value_bytes [simp]:
  "be_value (be_bytes 2 (w :: u16)) = w" "be_value (be_bytes 4 (x :: u32)) = x" "be_value (be_bytes 8 (y :: u64)) = y"
  by (simp_all add: be_value_be_bytes take_bit_word_eq_self)

lemma be_value_one: "be_value [b :: u8] = b"
  using be_value_snoc [of "[]" b] by (simp add: be_value_def)

lemma be_field_at: "length pre = pos \<Longrightarrow> length xs = n \<Longrightarrow> be_field pos n (pre @ xs @ ys) = be_value xs"
  by (simp add: be_field_def)

lemma elem_bytes_length: "length (elem_bytes e) = MD_ELEMENT_SIZE"
  by (simp add: elem_bytes_def MD_ELEMENT_SIZE_def)

lemma elem_read_bytes: "elem_read (elem_bytes e) = e"
  using be_field_at [of "[]" 0 "[me_tag e]" 1 "[me_namelen e] @ be_bytes 2 (me_pad e) @ be_bytes 4 (me_name e) @ be_bytes 8 (me_d e)", where 'a = 8]
    be_field_at [of "[me_tag e]" 1 "[me_namelen e]" 1 "be_bytes 2 (me_pad e) @ be_bytes 4 (me_name e) @ be_bytes 8 (me_d e)", where 'a = 8]
    be_field_at [of "[me_tag e, me_namelen e]" 2 "be_bytes 2 (me_pad e)" 2 "be_bytes 4 (me_name e) @ be_bytes 8 (me_d e)", where 'a = 16]
    be_field_at [of "[me_tag e, me_namelen e] @ be_bytes 2 (me_pad e)" 4 "be_bytes 4 (me_name e)" 4 "be_bytes 8 (me_d e)", where 'a = 32]
    be_field_at [of "[me_tag e, me_namelen e] @ be_bytes 2 (me_pad e) @ be_bytes 4 (me_name e)" 8 "be_bytes 8 (me_d e)" 8 "[]", where 'a = 64]
  by (simp add: elem_read_def elem_bytes_def be_value_one)

lemma elems_nth: "i < length es \<Longrightarrow> take MD_ELEMENT_SIZE (drop (MD_ELEMENT_SIZE * i) (concat (map elem_bytes es) @ rest)) = elem_bytes (es ! i)"
proof (induction es arbitrary: i)
  case (Cons e es)
  show ?case
  proof (cases i)
    case 0
    then show ?thesis by (simp add: elem_bytes_length)
  next
    case (Suc j)
    have "drop (MD_ELEMENT_SIZE + MD_ELEMENT_SIZE * j) (elem_bytes e @ concat (map elem_bytes es) @ rest) =
        drop (MD_ELEMENT_SIZE * j) (concat (map elem_bytes es) @ rest)"
      by (simp add: elem_bytes_length)
    with Suc Cons show ?thesis by simp
  qed
qed simp

lemma md_view_image:
  assumes "16 * length es < 2 ^ 32"
  shows "md_view (bin_image es names ds) =
    \<lparr> transport_version = MD_TRANSPORT_VERSION, node_blk_sz = 16 * of_nat (length es),
      name_blk_sz = of_nat (length (concat (map zstr names))), data_blk_sz = of_nat (length (concat ds)),
      elem = es, str_tab = concat (map zstr names) @ concat ds \<rparr>"
proof -
  let ?rest = "concat (map zstr names) @ concat ds" and ?nsz = "16 * of_nat (length es) :: u32"
  have "unat (of_nat (16 * length es) :: u32) = 16 * length es" using assms by (intro ucast_small) simp
  then have size: "unat ?nsz = 16 * length es" by simp
  note at32 = be_field_at [where 'a = 32]
  let ?nm = "of_nat (length (concat (map zstr names))) :: u32" and ?dt = "of_nat (length (concat ds)) :: u32"
  have f: "be_field 0 4 (bin_image es names ds) = MD_TRANSPORT_VERSION" "be_field 4 4 (bin_image es names ds) = ?nsz"
    "be_field 8 4 (bin_image es names ds) = (of_nat (length (concat (map zstr names))) :: u32)"
    "be_field 12 4 (bin_image es names ds) = (of_nat (length (concat ds)) :: u32)"
    using at32 [of "[]" 0 "be_bytes 4 MD_TRANSPORT_VERSION" 4 "be_bytes 4 ?nsz @ be_bytes 4 ?nm @ be_bytes 4 ?dt @ concat (map elem_bytes es) @ ?rest"]
      at32 [of "be_bytes 4 MD_TRANSPORT_VERSION" 4 "be_bytes 4 ?nsz" 4 "be_bytes 4 ?nm @ be_bytes 4 ?dt @ concat (map elem_bytes es) @ ?rest"]
      at32 [of "be_bytes 4 MD_TRANSPORT_VERSION @ be_bytes 4 ?nsz" 8 "be_bytes 4 ?nm" 4 "be_bytes 4 ?dt @ concat (map elem_bytes es) @ ?rest"]
      at32 [of "be_bytes 4 MD_TRANSPORT_VERSION @ be_bytes 4 ?nsz @ be_bytes 4 ?nm" 12 "be_bytes 4 ?dt" 4 "concat (map elem_bytes es) @ ?rest"]
    by (simp_all add: bin_image_def hdr_bytes_def)
  have blk: "drop MD_ELEMENT_SIZE (bin_image es names ds) = concat (map elem_bytes es) @ ?rest"
    by (simp add: bin_image_def hdr_bytes_def MD_ELEMENT_SIZE_def)
  have len: "length (concat (map elem_bytes es)) = 16 * length es"
    by (induction es) (simp_all add: elem_bytes_length MD_ELEMENT_SIZE_def)
  have "map (\<lambda>i. elem_read (take MD_ELEMENT_SIZE (drop (MD_ELEMENT_SIZE * i) (concat (map elem_bytes es) @ ?rest)))) [0..<length es] = es"
    by (rule nth_equalityI) (simp_all add: elems_nth elem_read_bytes del: take_append drop_append)
  then show ?thesis using f blk size len by (simp add: md_view_def Let_def MD_ELEMENT_SIZE_def)
qed

subsection \<open>Where the elements are\<close>

lemma nth_concat_block:
  "k < length xs \<Longrightarrow> i < length (f (xs ! k)) \<Longrightarrow> concat (map f xs) ! (sum_list (map (\<lambda>x. length (f x)) (take k xs)) + i) = f (xs ! k) ! i"
proof (induction xs arbitrary: k)
  case (Cons x xs)
  then show ?case by (cases k) (simp_all add: nth_append add.assoc)
qed simp

lemma concat_block_cases:
  "j < length (concat (map f xs)) \<Longrightarrow> \<exists>k<length xs. \<exists>i<length (f (xs ! k)). j = sum_list (map (\<lambda>x. length (f x)) (take k xs)) + i"
proof (induction xs arbitrary: j)
  case (Cons x xs)
  show ?case
  proof (cases "j < length (f x)")
    case True
    then show ?thesis by (intro exI [of _ 0] conjI exI [of _ j]) auto
  next
    case False
    then have "j - length (f x) < length (concat (map f xs))" using Cons.prems by auto
    from Cons.IH [OF this] obtain k i where
      "k < length xs" "i < length (f (xs ! k))" "j - length (f x) = sum_list (map (\<lambda>x. length (f x)) (take k xs)) + i" by blast
    with False show ?thesis by (intro exI [of _ "Suc k"] conjI exI [of _ i]) auto
  qed
qed simp

lemma node_off_Suc: "k < length xs \<Longrightarrow> node_off m xs (Suc k) = node_off m xs k + node_len m (xs ! k)"
  by (simp add: node_off_def take_Suc_conv_app_nth)

lemma node_off_le: "k \<le> j \<Longrightarrow> j \<le> length xs \<Longrightarrow> node_off m xs k \<le> node_off m xs j"
proof (induction j)
  case (Suc j)
  then show ?case by (cases "k = Suc j") (auto simp: node_off_Suc)
qed simp

lemma node_off_less: "k < j \<Longrightarrow> j \<le> length xs \<Longrightarrow> node_off m xs k < node_off m xs j"
  using node_off_le [of "Suc k" j xs m] by (simp add: node_off_Suc node_len_def)

lemma node_off_inj: "node_off m xs k = node_off m xs j \<Longrightarrow> k \<le> length xs \<Longrightarrow> j \<le> length xs \<Longrightarrow> k = j"
  using node_off_less [of k j xs m] node_off_less [of j k xs m] by (cases k j rule: linorder_cases) auto

lemma graph_elems_nth:
  assumes "k < length xs"
  shows "i < node_len M (xs ! k) \<Longrightarrow> graph_elems M xs names ds leo ! (node_off M xs k + i) = node_elems names ds M leo (xs ! k) ! i"
    "graph_elems M xs names ds leo ! node_off M xs (length xs) = mde_zero\<lparr> me_tag := MDET_LIST_END \<rparr>"
proof -
  let ?c = "concat (map (node_elems names ds M leo) xs)"
  have len: "length ?c = node_off M xs (length xs)" using length_graph_elems [of M xs names ds leo] by (simp add: graph_elems_def)
  then show "graph_elems M xs names ds leo ! node_off M xs (length xs) = mde_zero\<lparr> me_tag := MDET_LIST_END \<rparr>"
    by (simp add: graph_elems_def nth_append)
  assume i: "i < node_len M (xs ! k)"
  then have "node_off M xs k + i < length ?c" using node_off_le [of "Suc k" "length xs" xs M] assms len by (simp add: node_off_Suc)
  moreover have "?c ! (node_off M xs k + i) = node_elems names ds M leo (xs ! k) ! i"
    using nth_concat_block [OF assms, of i "node_elems names ds M leo"] i by (simp add: length_node_elems node_off_def)
  ultimately show "graph_elems M xs names ds leo ! (node_off M xs k + i) = node_elems names ds M leo (xs ! k) ! i"
    by (simp add: graph_elems_def nth_append)
qed

lemma graph_elems_cases:
  assumes "j < Suc (node_off M xs (length xs))"
  shows "j = node_off M xs (length xs) \<or> (\<exists>k<length xs. \<exists>i<node_len M (xs ! k). j = node_off M xs k + i)"
proof (cases "j = node_off M xs (length xs)")
  case False
  then have "j < length (concat (map (\<lambda>x. replicate (node_len M x) ()) xs))"
    using assms by (simp add: length_concat o_def node_off_def)
  from concat_block_cases [OF this] show ?thesis by (simp add: node_off_def)
qed simp

text \<open>A graph that can be written, and its image.\<close>

definition compilable :: "mdgen \<Rightarrow> nat list \<Rightarrow> bool" where
  "compilable s xs \<longleftrightarrow> dag_holds s xs \<and> (\<forall>x\<in>set xs. writable (gs_mem s) (the (gs_mem s x)) \<and>
     (\<forall>pep\<in>set (props_of (gs_mem s) x). \<forall>r. pe_value pep = PE_arc r \<longrightarrow> r \<in> set xs))"

definition placed :: "mdgen \<Rightarrow> nat list \<Rightarrow> cstr list \<Rightarrow> u8 list list \<Rightarrow> (nat \<Rightarrow> dag_node option) \<Rightarrow> bool" where
  "placed s xs names ds M \<longleftrightarrow> compilable s xs \<and> laid_out (gs_mem s) xs names ds M \<and>
     16 * Suc (node_off (gs_mem s) xs (length xs)) < 2 ^ 31"

abbreviation elems_of :: "mdgen \<Rightarrow> nat list \<Rightarrow> cstr list \<Rightarrow> u8 list list \<Rightarrow> (nat \<Rightarrow> dag_node option) \<Rightarrow> md_element list" where
  "elems_of s xs names ds M \<equiv> graph_elems M xs names ds (of_nat (node_off (gs_mem s) xs (length xs)))"

lemma scast_offset: "n < 2 ^ 31 \<Longrightarrow> scast (of_nat n :: u32) = (of_nat n :: u64)"
proof -
  assume "n < 2 ^ 31"
  then have "sint (of_nat n :: u32) = int n"
    by (simp add: sint_uint unsigned_of_nat take_bit_nat_eq_self signed_take_bit_int_eq_self)
  then show ?thesis by (metis of_int_of_nat_eq scast_eq)
qed

lemma placed_off:
  assumes "placed s xs names ds M" "k \<le> length xs"
  shows "node_off (gs_mem s) xs k < 2 ^ 31" "scast (of_nat (node_off (gs_mem s) xs k) :: u32) = (of_nat (node_off (gs_mem s) xs k) :: u64)"
    "unat (of_nat (node_off (gs_mem s) xs k) :: u64) = node_off (gs_mem s) xs k"
proof -
  show b: "node_off (gs_mem s) xs k < 2 ^ 31"
    using node_off_le [OF assms(2), of xs "gs_mem s"] assms(1) by (simp add: placed_def)
  then show "scast (of_nat (node_off (gs_mem s) xs k) :: u32) = (of_nat (node_off (gs_mem s) xs k) :: u64)" by (rule scast_offset)
  show "unat (of_nat (node_off (gs_mem s) xs k) :: u64) = node_off (gs_mem s) xs k"
    using b by (intro ucast_small) simp
qed

lemma placed_node:
  assumes p: "placed s xs names ds M" and k: "k < length xs"
  obtains n n' where "gs_mem s (xs ! k) = Some n" "M (xs ! k) = Some n'" "dn_offset n' = of_nat (node_off (gs_mem s) xs k)"
    "dn_typep n' = dn_typep n" "dn_nextp n' = (if Suc k < length xs then Some (xs ! Suc k) else None)"
    "list_all2 (entry_put names ds) (pl_listp (dn_properties n)) (pl_listp (dn_properties n'))"
    "writable (gs_mem s) n"
proof -
  have path: "dag_path (dag_links s) (dag_listp s) xs" using p by (simp add: placed_def compilable_def dag_holds_def)
  obtain n where n: "gs_mem s (xs ! k) = Some n" "dn_nextp n = (if Suc k < length xs then Some (xs ! Suc k) else None)"
    using dag_path_next [OF path k] by blast
  obtain n' where n': "M (xs ! k) = Some n'" "node_put names ds (n\<lparr> dn_offset := of_nat (node_off (gs_mem s) xs k) \<rparr>) n'"
    using p k n(1) by (auto simp: placed_def laid_out_def)
  have "writable (gs_mem s) (the (gs_mem s (xs ! k)))" using p nth_mem [OF k] unfolding placed_def compilable_def by blast
  then have "writable (gs_mem s) n" using n(1) by simp
  with node_put_facts [OF n'(2)] n n'(1) show thesis by (intro that [of n n']) simp_all
qed

text \<open>The element of a node, its properties and its end.\<close>

lemma image_node:
  assumes p: "placed s xs names ds M" and k: "k < length xs"
  shows "elems_of s xs names ds M ! node_off (gs_mem s) xs k =
    named_elem names (dn_typep (the (gs_mem s (xs ! k)))) (mde_zero\<lparr> me_tag := MDET_NODE, me_d := of_nat (node_off (gs_mem s) xs (Suc k)) \<rparr>)"
proof -
  have off: "node_off M xs j = node_off (gs_mem s) xs j" for j using laid_out_len(2) p by (auto simp: placed_def)
  obtain n n' where n: "gs_mem s (xs ! k) = Some n" "M (xs ! k) = Some n'" "dn_typep n' = dn_typep n"
      "dn_nextp n' = (if Suc k < length xs then Some (xs ! Suc k) else None)"
    using placed_node [OF p k] by metis
  have "(case dn_nextp n' of None \<Rightarrow> scast (of_nat (node_off (gs_mem s) xs (length xs)) :: u32) | Some q \<Rightarrow> scast (dn_offset (the (M q)))) =
      (of_nat (node_off (gs_mem s) xs (Suc k)) :: u64)"
  proof (cases "Suc k < length xs")
    case True
    then obtain q' where "M (xs ! Suc k) = Some q'" "dn_offset q' = of_nat (node_off (gs_mem s) xs (Suc k))"
      using placed_node [OF p True] by metis
    with n(4) True placed_off(2) [OF p, of "Suc k"] show ?thesis by simp
  next
    case False
    with k have "Suc k = length xs" by simp
    with n(4) placed_off(2) [OF p, of "Suc k"] show ?thesis by simp
  qed
  then show ?thesis
    using graph_elems_nth(1) [OF k, of 0 M] n by (simp add: off node_len_def node_elems_def node_elem_def)
qed

definition prop_tag :: "pair_value \<Rightarrow> u8" where
  "prop_tag v = (case v of PE_string _ \<Rightarrow> MDET_PROP_STR | PE_data _ \<Rightarrow> MDET_PROP_DAT | PE_int _ \<Rightarrow> MDET_PROP_VAL | _ \<Rightarrow> MDET_PROP_ARC)"

lemma image_prop:
  assumes p: "placed s xs names ds M" and k: "k < length xs" and i: "i < length (props_of (gs_mem s) (xs ! k))"
  defines "pep \<equiv> props_of (gs_mem s) (xs ! k) ! i" and "e \<equiv> elems_of s xs names ds M ! (node_off (gs_mem s) xs k + Suc i)"
  shows "pe_namep pep \<in> set names" "length (pe_namep pep) < 255" "me_tag e = prop_tag (pe_value pep)" "me_pad e = 0"
    "me_namelen e = of_nat (length (pe_namep pep))" "me_name e = of_nat (name_off names (pe_namep pep))"
    "pe_value pep = PE_int v \<Longrightarrow> me_d e = v"
    "pe_value pep = PE_arc r \<Longrightarrow> \<exists>j<length xs. xs ! j = r \<and> me_d e = of_nat (node_off (gs_mem s) xs j)"
proof -
  have off: "node_off M xs j = node_off (gs_mem s) xs j" for j using laid_out_len(2) p by (auto simp: placed_def)
  obtain n n' where n: "gs_mem s (xs ! k) = Some n" "M (xs ! k) = Some n'" "writable (gs_mem s) n"
      "list_all2 (entry_put names ds) (pl_listp (dn_properties n)) (pl_listp (dn_properties n'))"
    using placed_node [OF p k] by metis
  define pep' where "pep' = pl_listp (dn_properties n') ! i"
  have pep: "pep = pl_listp (dn_properties n) ! i" "i < length (pl_listp (dn_properties n))"
    using i n(1) by (simp_all add: pep_def props_of_def)
  have put: "entry_put names ds pep pep'" using list_all2_nthD [OF n(4) pep(2)] by (simp add: pep(1) pep'_def)
  have len: "i < length (pl_listp (dn_properties n'))" using pep(2) list_all2_lengthD [OF n(4)] by simp
  have "e = node_elems names ds M (of_nat (node_off (gs_mem s) xs (length xs))) (xs ! k) ! Suc i"
    using graph_elems_nth(1) [OF k, of "Suc i" M names ds] n(2) len by (simp add: e_def off node_len_def props_of_def)
  also have "\<dots> = prop_elem names ds M pep'"
    using len n(2) by (simp add: node_elems_def props_of_def pep'_def nth_append)
  finally have e: "e = named_elem names (pe_namep pep) (value_elem ds M pep')" using put by (simp add: prop_elem_def entry_put_def)
  have out: "outable (gs_mem s) pep" using n(3) nth_mem [OF pep(2)] by (simp add: writable_def pep(1))
  have val: "pe_value pep' = pe_value pep" using put by (simp add: entry_put_def)
  show "pe_namep pep \<in> set names" using put nth_mem by (fastforce simp: entry_put_def)
  show "length (pe_namep pep) < 255" using out by (simp add: outable_def)
  show "me_tag e = prop_tag (pe_value pep)" "me_pad e = 0"
    using out by (auto simp: e named_elem_def value_elem_def val prop_tag_def mde_zero_def outable_def split: pair_value.splits)
  show "me_namelen e = of_nat (length (pe_namep pep))" "me_name e = of_nat (name_off names (pe_namep pep))"
    by (simp_all add: e named_elem_def)
  show "me_d e = v" if "pe_value pep = PE_int v" using that by (simp add: e named_elem_def value_elem_def val)
  show "\<exists>j<length xs. xs ! j = r \<and> me_d e = of_nat (node_off (gs_mem s) xs j)" if r: "pe_value pep = PE_arc r"
  proof -
    have "pep \<in> set (props_of (gs_mem s) (xs ! k))" using i by (simp add: pep_def)
    with p nth_mem [OF k] r have "r \<in> set xs" unfolding placed_def compilable_def by blast
    then obtain j where j: "j < length xs" "xs ! j = r" by (auto simp: in_set_conv_nth)
    then obtain q where "M r = Some q" "dn_offset q = of_nat (node_off (gs_mem s) xs j)" using placed_node [OF p j(1)] by metis
    with j r placed_off(2) [OF p, of j] show ?thesis by (auto simp: e named_elem_def value_elem_def val intro!: exI [of _ j])
  qed
qed

lemma image_node_end:
  assumes p: "placed s xs names ds M" and k: "k < length xs"
  shows "elems_of s xs names ds M ! (node_off (gs_mem s) xs k + Suc (length (props_of (gs_mem s) (xs ! k)))) = mde_zero\<lparr> me_tag := MDET_NODE_END \<rparr>"
proof -
  have off: "node_off M xs j = node_off (gs_mem s) xs j" for j using laid_out_len(2) p by (auto simp: placed_def)
  have "length (props_of (gs_mem s) (xs ! k)) = length (props_of M (xs ! k))"
    using laid_out_len(1) [OF _ k, of "gs_mem s" names ds M] p by (simp add: placed_def node_len_def)
  then show ?thesis
    using graph_elems_nth(1) [OF k, of "Suc (length (props_of M (xs ! k)))" M names ds]
    by (simp add: off node_len_def node_elems_def nth_append)
qed

lemma image_list_end:
  assumes "placed s xs names ds M"
  shows "elems_of s xs names ds M ! node_off (gs_mem s) xs (length xs) = mde_zero\<lparr> me_tag := MDET_LIST_END \<rparr>"
    "length (elems_of s xs names ds M) = Suc (node_off (gs_mem s) xs (length xs))"
proof -
  have off: "node_off M xs j = node_off (gs_mem s) xs j" for j using laid_out_len(2) assms by (auto simp: placed_def)
  then show "length (elems_of s xs names ds M) = Suc (node_off (gs_mem s) xs (length xs))" by (simp add: length_graph_elems)
  show "elems_of s xs names ds M ! node_off (gs_mem s) xs (length xs) = mde_zero\<lparr> me_tag := MDET_LIST_END \<rparr>"
  proof (cases "xs = []")
    case False
    then have "0 < length xs" by simp
    from graph_elems_nth(2) [OF this, of M names ds] show ?thesis unfolding off .
  qed (simp add: graph_elems_def)
qed

lemma image_cases:
  assumes p: "placed s xs names ds M" and j: "j < length (elems_of s xs names ds M)"
  obtains (list_end) "j = node_off (gs_mem s) xs (length xs)"
  | (node) k where "k < length xs" "j = node_off (gs_mem s) xs k"
  | (property) k i where "k < length xs" "i < length (props_of (gs_mem s) (xs ! k))" "j = node_off (gs_mem s) xs k + Suc i"
  | (node_end) k where "k < length xs" "j = node_off (gs_mem s) xs k + Suc (length (props_of (gs_mem s) (xs ! k)))"
proof -
  have "j < Suc (node_off (gs_mem s) xs (length xs))" using image_list_end(2) [OF p] j by simp
  from graph_elems_cases [OF this] show thesis
  proof (elim disjE exE conjE)
    fix k i
    assume k: "k < length xs" and i: "i < node_len (gs_mem s) (xs ! k)" "j = node_off (gs_mem s) xs k + i"
    consider "i = 0" | i' where "i = Suc i'" "i' < length (props_of (gs_mem s) (xs ! k))" | "i = Suc (length (props_of (gs_mem s) (xs ! k)))"
      using i(1) by (cases i) (auto simp: node_len_def less_Suc_eq)
    then show thesis using i(2) k node property node_end by cases auto
  qed (rule list_end)
qed

lemma image_tags:
  assumes p: "placed s xs names ds M" and k: "k < length xs"
  defines "E \<equiv> elems_of s xs names ds M" and "o' \<equiv> node_off (gs_mem s) xs k"
  shows "me_tag (E ! o') = MDET_NODE" "unat (me_d (E ! o')) = node_off (gs_mem s) xs (Suc k)"
    "i < length (props_of (gs_mem s) (xs ! k)) \<Longrightarrow> me_tag (E ! (o' + Suc i)) \<in> {MDET_PROP_STR, MDET_PROP_DAT, MDET_PROP_VAL, MDET_PROP_ARC}"
    "me_tag (E ! (o' + Suc (length (props_of (gs_mem s) (xs ! k))))) = MDET_NODE_END"
proof -
  show "me_tag (E ! o') = MDET_NODE" "unat (me_d (E ! o')) = node_off (gs_mem s) xs (Suc k)"
    using image_node [OF p k] placed_off(3) [OF p, of "Suc k"] k by (simp_all add: E_def o'_def named_elem_def)
  show "me_tag (E ! (o' + Suc (length (props_of (gs_mem s) (xs ! k))))) = MDET_NODE_END"
    using image_node_end [OF p k] by (simp add: E_def o'_def)
  assume "i < length (props_of (gs_mem s) (xs ! k))"
  from image_prop(3) [OF p k this] show "me_tag (E ! (o' + Suc i)) \<in> {MDET_PROP_STR, MDET_PROP_DAT, MDET_PROP_VAL, MDET_PROP_ARC}"
    by (simp add: E_def o'_def prop_tag_def split: pair_value.split)
qed

text \<open>Between two nodes there is none.\<close>

lemma image_between:
  assumes p: "placed s xs names ds M" and k: "k < length xs" and j: "node_off (gs_mem s) xs k < j" "j < node_off (gs_mem s) xs (Suc k)"
  shows "me_tag (elems_of s xs names ds M ! j) \<notin> {MDET_NODE, MDET_LIST_END}"
proof -
  define i where "i = j - Suc (node_off (gs_mem s) xs k)"
  have ji: "j = node_off (gs_mem s) xs k + Suc i" "i \<le> length (props_of (gs_mem s) (xs ! k))"
    using j by (simp_all add: i_def node_off_Suc [OF k] node_len_def)
  then consider "i < length (props_of (gs_mem s) (xs ! k))" | "i = length (props_of (gs_mem s) (xs ! k))" by linarith
  then show ?thesis
  proof cases
    case 1
    from image_tags(3) [OF p k this] show ?thesis unfolding ji(1) by (auto simp: md_tags)
  next
    case 2
    with image_tags(4) [OF p k] show ?thesis unfolding ji(1) by (simp add: md_tags)
  qed
qed

subsection \<open>Images are well formed\<close>

abbreviation image_of :: "mdgen \<Rightarrow> nat list \<Rightarrow> cstr list \<Rightarrow> u8 list list \<Rightarrow> (nat \<Rightarrow> dag_node option) \<Rightarrow> u8 list" where
  "image_of s xs names ds M \<equiv> bin_image (elems_of s xs names ds M) names ds"

lemma placed_view:
  assumes "placed s xs names ds M"
  shows "elem (md_view (image_of s xs names ds M)) = elems_of s xs names ds M"
    "node_blk_sz (md_view (image_of s xs names ds M)) = 16 * of_nat (length (elems_of s xs names ds M))"
    "uint (node_blk_sz (md_view (image_of s xs names ds M))) = 16 * int (length (elems_of s xs names ds M))"
    "str_tab (md_view (image_of s xs names ds M)) = concat (map zstr names) @ concat ds"
    "name_blk_sz (md_view (image_of s xs names ds M)) = of_nat (length (concat (map zstr names)))"
proof -
  have b: "16 * length (elems_of s xs names ds M) < 2 ^ 32"
    using image_list_end(2) [OF assms] assms by (simp add: placed_def)
  note v = md_view_image [OF b, of names ds]
  show "elem (md_view (image_of s xs names ds M)) = elems_of s xs names ds M"
    "node_blk_sz (md_view (image_of s xs names ds M)) = 16 * of_nat (length (elems_of s xs names ds M))"
    "str_tab (md_view (image_of s xs names ds M)) = concat (map zstr names) @ concat ds"
    "name_blk_sz (md_view (image_of s xs names ds M)) = of_nat (length (concat (map zstr names)))"
    by (simp_all add: v)
  have "unat (of_nat (16 * length (elems_of s xs names ds M)) :: u32) = 16 * length (elems_of s xs names ds M)"
    using b by (intro ucast_small) simp
  then show "uint (node_blk_sz (md_view (image_of s xs names ds M))) = 16 * int (length (elems_of s xs names ds M))"
    by (simp add: v uint_nat)
qed

lemma image_first:
  assumes "placed s xs names ds M" "k \<le> length xs"
  shows "me_tag (elems_of s xs names ds M ! node_off (gs_mem s) xs k) \<in> {MDET_NODE, MDET_LIST_END}"
    "node_off (gs_mem s) xs k < length (elems_of s xs names ds M)"
proof -
  show "me_tag (elems_of s xs names ds M ! node_off (gs_mem s) xs k) \<in> {MDET_NODE, MDET_LIST_END}"
    using image_tags(1) [OF assms(1), of k] image_list_end(1) [OF assms(1)] assms(2) by (cases "k = length xs") auto
  show "node_off (gs_mem s) xs k < length (elems_of s xs names ds M)"
    using node_off_le [OF assms(2) le_refl, of "gs_mem s"] image_list_end(2) [OF assms(1)] by simp
qed

lemma image_tag_cases:
  assumes p: "placed s xs names ds M" and j: "j < length (elems_of s xs names ds M)"
  shows "me_tag (elems_of s xs names ds M ! j) = MDET_LIST_END \<longleftrightarrow> Suc j = length (elems_of s xs names ds M)"
    "me_tag (elems_of s xs names ds M ! j) = MDET_NODE \<Longrightarrow> \<exists>k<length xs. j = node_off (gs_mem s) xs k"
    "me_tag (elems_of s xs names ds M ! j) = MDET_PROP_ARC \<Longrightarrow>
       \<exists>q<length xs. unat (me_d (elems_of s xs names ds M ! j)) = node_off (gs_mem s) xs q"
proof -
  let ?E = "elems_of s xs names ds M"
  have len: "length ?E = Suc (node_off (gs_mem s) xs (length xs))" by (rule image_list_end(2) [OF p])
  have before: "node_off (gs_mem s) xs k + i < node_off (gs_mem s) xs (length xs)" if "k < length xs" "i < node_len (gs_mem s) (xs ! k)" for k i
    using node_off_le [of "Suc k" "length xs" xs "gs_mem s"] that by (simp add: node_off_Suc)
  have "(me_tag (?E ! j) = MDET_LIST_END \<longleftrightarrow> Suc j = length ?E) \<and>
    (me_tag (?E ! j) = MDET_NODE \<longrightarrow> (\<exists>k<length xs. j = node_off (gs_mem s) xs k)) \<and>
    (me_tag (?E ! j) = MDET_PROP_ARC \<longrightarrow> (\<exists>q<length xs. unat (me_d (?E ! j)) = node_off (gs_mem s) xs q))"
    using p j
  proof (cases rule: image_cases)
    case list_end
    with image_list_end(1) [OF p] len show ?thesis by (simp add: md_tags)
  next
    case (node k)
    with image_tags(1) [OF p node(1)] before [of k 0] len show ?thesis by (auto simp: md_tags node_len_def)
  next
    case (property k i)
    let ?pep = "props_of (gs_mem s) (xs ! k) ! i"
    have "me_tag (?E ! j) = prop_tag (pe_value ?pep)" using image_prop(3) [OF p property(1,2)] property(3) by simp
    moreover have "\<exists>q<length xs. unat (me_d (?E ! j)) = node_off (gs_mem s) xs q" if arc: "prop_tag (pe_value ?pep) = MDET_PROP_ARC"
    proof -
      obtain n where n: "gs_mem s (xs ! k) = Some n" "writable (gs_mem s) n" using placed_node [OF p property(1)] by metis
      then have "?pep \<in> set (pl_listp (dn_properties n))" using nth_mem [OF property(2)] by (simp add: props_of_def)
      with n(2) have "outable (gs_mem s) ?pep" by (simp add: writable_def)
      with arc obtain r where "pe_value ?pep = PE_arc r" by (auto simp: outable_def prop_tag_def md_tags split: pair_value.splits)
      from image_prop(8) [OF p property(1,2) this] obtain q where q: "q < length xs" "me_d (?E ! j) = of_nat (node_off (gs_mem s) xs q)"
        using property(3) by auto
      then show ?thesis using placed_off(3) [OF p, of q] by auto
    qed
    ultimately show ?thesis
      using before [of k "Suc i"] property len image_tags(3) [OF p property(1,2)] by (auto simp: md_tags node_len_def)
  next
    case (node_end k)
    with image_tags(4) [OF p node_end(1)] before [of k "Suc (length (props_of (gs_mem s) (xs ! k)))"] len
    show ?thesis by (auto simp: md_tags node_len_def)
  qed
  then show "me_tag (?E ! j) = MDET_LIST_END \<longleftrightarrow> Suc j = length ?E"
    "me_tag (?E ! j) = MDET_NODE \<Longrightarrow> \<exists>k<length xs. j = node_off (gs_mem s) xs k"
    "me_tag (?E ! j) = MDET_PROP_ARC \<Longrightarrow> \<exists>q<length xs. unat (me_d (?E ! j)) = node_off (gs_mem s) xs q" by blast+
qed

lemma image_wf:
  assumes p: "placed s xs names ds M"
  shows "md_wf (md_view (image_of s xs names ds M))"
proof -
  let ?E = "elems_of s xs names ds M"
  have "?E \<noteq> []" using image_list_end(2) [OF p] by auto
  moreover have "i < unat (me_d (?E ! i)) \<and> unat (me_d (?E ! i)) < length ?E \<and> me_tag (?E ! unat (me_d (?E ! i))) \<in> {MDET_NODE, MDET_LIST_END} \<and>
      (\<forall>j<unat (me_d (?E ! i)). i < j \<longrightarrow> me_tag (?E ! j) \<noteq> MDET_NODE)"
    if "i < length ?E" "me_tag (?E ! i) = MDET_NODE" for i
  proof -
    from image_tag_cases(2) [OF p that] obtain k where k: "k < length xs" "i = node_off (gs_mem s) xs k" by blast
    with image_tags(2) [OF p k(1)] have d: "unat (me_d (?E ! i)) = node_off (gs_mem s) xs (Suc k)" by simp
    have "me_tag (?E ! j) \<noteq> MDET_NODE" if "i < j" "j < node_off (gs_mem s) xs (Suc k)" for j
      using image_between [OF p k(1), of j] that k(2) by simp
    with image_first [OF p, of "Suc k"] node_off_less [of k "Suc k" xs "gs_mem s"] k show ?thesis unfolding d by simp
  qed
  moreover have "unat (me_d (?E ! i)) < length ?E \<and> me_tag (?E ! unat (me_d (?E ! i))) = MDET_NODE"
    if i: "i < length ?E" "me_tag (?E ! i) = MDET_PROP_ARC" for i
  proof -
    from image_tag_cases(3) [OF p i] obtain q where q: "q < length xs" "unat (me_d (?E ! i)) = node_off (gs_mem s) xs q" by blast
    with image_tags(1) [OF p q(1)] image_first(2) [OF p, of q] show ?thesis by simp
  qed
  ultimately show ?thesis
    unfolding md_wf_def placed_view(1,3) [OF p] using image_tag_cases(1) [OF p] by blast
qed

subsection \<open>Names\<close>

text \<open>The names of an image: those of the graph and the padding.\<close>

definition placed_names :: "cstr list \<Rightarrow> cstr list \<Rightarrow> bool" where
  "placed_names nms names \<longleftrightarrow> names = nms @ pad_names (map zstr nms) \<and> distinct names \<and> (\<forall>x\<in>set nms. good_name x) \<and>
     length (concat (map zstr names)) < 2 ^ 31"

lemma name_block_zstr: "name_block xs = concat (map zstr xs)"
  by (simp add: name_block_def zstr_def [abs_def])

lemma pad_names_block: "\<exists>k. concat (map zstr (pad_names ds)) = name_block (replicate k [])"
proof -
  have "name_block (replicate k []) = replicate k 0" for k by (induction k) simp_all
  moreover have "\<exists>k. concat (map zstr (pad_names ds)) = replicate k 0"
    unfolding pad_names_zstr by (auto simp: pad_chunk_def Let_def intro: exI [of _ 0])
  ultimately show ?thesis by metis
qed

lemma name_tag_of_first:
  "nm \<in> set xs \<Longrightarrow> name_tag_of nm off (xs @ ys) = push_bit 48 (of_nat (length nm)) OR of_nat (off + name_off xs nm)"
proof (induction xs arbitrary: off)
  case (Cons x xs)
  then show ?case by (cases "x = nm") (simp_all add: name_off_def zstr_def algebra_simps)
qed simp

lemma name_off_append: "nm \<in> set xs \<Longrightarrow> name_off (xs @ ys) nm = name_off xs nm"
  by (simp add: name_off_def takeWhile_append1)

lemma name_off_bound: "nm \<in> set names \<Longrightarrow> name_off names nm \<le> length (concat (map zstr names))"
proof -
  have "length (concat (map zstr (takeWhile P xs))) \<le> length (concat (map zstr xs))" for P xs
    by (induction xs) auto
  then show ?thesis by (simp add: name_off_def)
qed

lemma name_off_inject:
  assumes "distinct names" "a \<in> set names" "b \<in> set names" "name_off names a = name_off names b"
  shows "a = b"
proof -
  obtain i j where ij: "i < length names" "names ! i = a" "j < length names" "names ! j = b" using assms(2,3) by (auto simp: in_set_conv_nth)
  have less: "length (concat (take i (map zstr names))) < length (concat (take j (map zstr names)))" if "i < j" "j \<le> length names" for i j
  proof -
    have "take j (map zstr names) = take i (map zstr names) @ zstr (names ! i) # take (j - Suc i) (drop (Suc i) (map zstr names))"
      using that by (metis (no_types, lifting) Cons_nth_drop_Suc append_take_drop_id diff_Suc_diff_eq1 le_add_diff_inverse length_map
          less_le_trans less_or_eq_imp_le nth_map plus_1_eq_Suc take_Suc_Cons take_add Suc_diff_Suc)
    then show ?thesis by (simp add: zstr_def)
  qed
  have "i = j"
  proof (rule linorder_cases [of i j])
    assume "i < j"
    with less [of i j] ij assms(4) name_off_nth [OF assms(1) ij(1)] name_off_nth [OF assms(1) ij(3)] show ?thesis by simp
  next
    assume "j < i"
    with less [of j i] ij assms(4) name_off_nth [OF assms(1) ij(1)] name_off_nth [OF assms(1) ij(3)] show ?thesis by simp
  qed
  with ij show ?thesis by simp
qed

text \<open>The tag the scanner finds for a name.\<close>

definition name_token :: "cstr list \<Rightarrow> cstr \<Rightarrow> u64" where
  "name_token names nm = push_bit 48 (of_nat (length nm)) OR of_nat (name_off names nm)"

lemma image_name_tag:
  assumes p: "placed s xs names ds M" and n: "placed_names nms names" and nm: "cstring nm \<in> set nms"
  shows "md_find_name_tag (md_view (image_of s xs names ds M)) nm = Inr (name_token names (cstring nm))"
proof -
  let ?md = "md_view (image_of s xs names ds M)"
  obtain k where k: "concat (map zstr (pad_names (map zstr nms))) = name_block (replicate k [])" using pad_names_block by blast
  have blk: "concat (map zstr names) = name_block (nms @ replicate k [])"
    using n k by (simp add: placed_names_def name_block_zstr)
  have good: "\<forall>x\<in>set nms. 0 \<notin> set x" using n by (simp add: placed_names_def good_name_def)
  have size: "sint (name_blk_sz ?md) = int (length (concat (map zstr names)))"
  proof -
    have "length (concat (map zstr names)) < 2 ^ 31" using n unfolding placed_names_def by blast
    then show ?thesis unfolding placed_view(5) [OF p]
      by (simp add: sint_uint unsigned_of_nat take_bit_nat_eq_self signed_take_bit_int_eq_self del: length_concat)
  qed
  have "md_has_names ?md (nms @ replicate k [])"
    unfolding md_has_names_def placed_view(4) [OF p] size blk using good by auto
  moreover have "CHR 0x00 \<notin> set nm" using good nm by (fastforce simp: cstring_def of_char_eq_0_iff)
  ultimately have "md_find_name_tag ?md nm = Inr (name_tag_of (cstring nm) 0 (nms @ replicate k []))" by (rule md_find_name_tag_names)
  also have "\<dots> = Inr (name_token names (cstring nm))"
    using nm n by (simp add: name_tag_of_first name_token_def placed_names_def name_off_append)
  finally show ?thesis .
qed

subsection \<open>What the scanner finds\<close>

lemma find_at:
  "(\<And>i. f k \<le> i \<Longrightarrow> i < m \<Longrightarrow> P i \<Longrightarrow> \<exists>j. k \<le> j \<and> j < n \<and> i = f j) \<Longrightarrow> (\<And>i j. i < j \<Longrightarrow> j \<le> n \<Longrightarrow> f i < f j) \<Longrightarrow> f n \<le> m \<Longrightarrow> k \<le> n \<Longrightarrow>
   find P [f k..<m] = map_option f (find (\<lambda>j. P (f j)) [k..<n])" for f :: "nat \<Rightarrow> nat"
proof (induction "n - k" arbitrary: k)
  case 0
  have "\<not> P i" if "f k \<le> i" "i < m" for i using 0(2) [OF that] 0(1,5) by auto
  then have "find P [f k..<m] = None" by (simp add: find_None_iff)
  with 0 show ?case by simp
next
  case (Suc d)
  then have k: "k < n" by simp
  have le: "f (Suc k) \<le> m" using Suc.prems(2) [of "Suc k" n] Suc.prems(3) k by (cases "Suc k = n") auto
  have less: "f k < f (Suc k)" using Suc.prems(2) k by simp
  show ?case
  proof (cases "P (f k)")
    case True
    with k less le show ?thesis by (simp add: upt_conv_Cons)
  next
    case False
    have "\<not> P i" if "f k \<le> i" "i < f (Suc k)" for i
    proof
      assume "P i"
      with Suc.prems(1) [of i] that le obtain j where j: "k \<le> j" "j < n" "i = f j" by auto
      then have "j \<noteq> k" using False \<open>P i\<close> by auto
      with j have "f (Suc k) \<le> f j" using Suc.prems(2) [of "Suc k" j] by (cases "Suc k = j") auto
      with j that show False by simp
    qed
    then have "find P [f k..<m] = find P [f (Suc k)..<m]" using less le by (intro find_skip) auto
    also have "\<dots> = map_option f (find (\<lambda>j. P (f j)) [Suc k..<n])"
    proof (rule Suc.hyps(1))
      show "\<exists>j. Suc k \<le> j \<and> j < n \<and> i = f j" if "f (Suc k) \<le> i" "i < m" "P i" for i
        using Suc.prems(1) [of i] that less by (metis Suc_leI le_neq_implies_less less_le_trans order_less_irrefl order_less_imp_le)
    qed (use Suc k in auto)
    finally show ?thesis using k False by (simp add: upt_conv_Cons)
  qed
qed

lemma token_fields:
  assumes "l < 2 ^ 8" "off < 2 ^ 32"
  shows "ucast (push_bit 48 (of_nat l) OR of_nat off :: u64) = (of_nat off :: u32)"
    "drop_bit 48 (push_bit 48 (of_nat l) OR of_nat off :: u64) AND 0xff = ucast (of_nat l :: u8)"
proof -
  let ?e = "\<lparr> me_tag = 0, me_namelen = of_nat l, me_pad = 0, me_name = of_nat off, me_d = 0 \<rparr>"
  have t: "push_bit 48 (of_nat l) OR of_nat off = rawp ?e"
    using rawp_eq_token [OF assms, of ?e 0] by simp
  show "ucast (push_bit 48 (of_nat l) OR of_nat off :: u64) = (of_nat off :: u32)"
    unfolding t rawp_fields(4) by simp
  have "drop_bit 48 (rawp ?e) AND 0xff = ucast (ucast (drop_bit 48 (rawp ?e)) :: u8)"
  proof -
    have m: "(0xff :: u64) = mask 8" by (simp add: mask_eq_exp_minus_1)
    show ?thesis unfolding m by (rule bit_word_eqI) (auto simp: bit_simps)
  qed
  then show "drop_bit 48 (push_bit 48 (of_nat l) OR of_nat off :: u64) AND 0xff = ucast (of_nat l :: u8)"
    unfolding t rawp_fields(2) by simp
qed

lemma name_off_small: "placed_names nms names \<Longrightarrow> x \<in> set names \<Longrightarrow> name_off names x < 2 ^ 32"
proof -
  assume "placed_names nms names" and x: "x \<in> set names"
  then have "length (concat (map zstr names)) < 2 ^ 31" unfolding placed_names_def by blast
  with name_off_bound [OF x] show ?thesis by (simp del: length_concat)
qed

lemma placed_type:
  assumes p: "placed s xs names ds M" and k: "k < length xs"
  shows "dn_typep (the (gs_mem s (xs ! k))) \<in> set names" "length (dn_typep (the (gs_mem s (xs ! k)))) < 255"
proof -
  from p k obtain n' where "node_put names ds ((the (gs_mem s (xs ! k)))\<lparr> dn_offset := of_nat (node_off (gs_mem s) xs k) \<rparr>) n'"
    by (auto simp: placed_def laid_out_def)
  then show "dn_typep (the (gs_mem s (xs ! k))) \<in> set names" by (fastforce simp: node_put_def in_set_conv_nth)
  have "writable (gs_mem s) (the (gs_mem s (xs ! k)))" using p nth_mem [OF k] unfolding placed_def compilable_def by blast
  then show "length (dn_typep (the (gs_mem s (xs ! k)))) < 255" by (simp add: writable_def)
qed

text \<open>Name and length of an element tell its name.\<close>

lemma same_name:
  assumes "placed_names nms names" "a \<in> set names" "b \<in> set names" "length a < 255" "length b < 255"
  shows "(of_nat (name_off names a) :: u32) = of_nat (name_off names b) \<and> (of_nat (length a) :: u8) = of_nat (length b) \<longleftrightarrow> a = b"
proof -
  have "a = b" if "(of_nat (name_off names a) :: u32) = of_nat (name_off names b)"
  proof -
    have "name_off names a = name_off names b"
      using arg_cong [OF that, of unat] name_off_small [OF assms(1)] assms(2,3) by (simp add: ucast_small)
    with assms(1-3) show ?thesis unfolding placed_names_def by (blast intro: name_off_inject)
  qed
  then show ?thesis by auto
qed

lemma ucast_inject: "(ucast a :: u64) = ucast b \<longleftrightarrow> a = b" for a b :: u8
proof -
  have "(ucast (ucast x :: u64) :: u8) = x" for x :: u8 by (rule bit_word_eqI) (auto simp: bit_simps dest: bit_imp_le_length)
  then show ?thesis by metis
qed

lemma image_find_node:
  assumes p: "placed s xs names ds M" and n: "placed_names nms names" and c: "c \<in> set nms" and k: "k \<le> length xs"
  shows "md_find_node (md_view (image_of s xs names ds M)) (Some (node_off (gs_mem s) xs k)) (name_token names c) =
    Inr (map_option (node_off (gs_mem s) xs) (find (\<lambda>j. dn_typep (the (gs_mem s (xs ! j))) = c) [k..<length xs]))"
proof -
  let ?E = "elems_of s xs names ds M" and ?md = "md_view (image_of s xs names ds M)" and ?off = "node_off (gs_mem s) xs"
  have c': "c \<in> set names" "length c < 255" using c n by (auto simp: placed_names_def good_name_def)
  then have "length c < 2 ^ 8" "name_off names c < 2 ^ 32" using name_off_small [OF n c'(1)] by simp_all
  note tok = token_fields [OF this, folded name_token_def]
  have at: "md_named_node ?md (name_token names c) (?off j) \<longleftrightarrow> dn_typep (the (gs_mem s (xs ! j))) = c" if j: "j < length xs" for j
  proof -
    let ?t = "dn_typep (the (gs_mem s (xs ! j)))"
    have "md_named_node ?md (name_token names c) (?off j) \<longleftrightarrow>
        (of_nat (name_off names ?t) :: u32) = of_nat (name_off names c) \<and> (of_nat (length ?t) :: u8) = of_nat (length c)"
      unfolding md_named_node_def md_node_matches_def placed_view(1) [OF p] image_node [OF p j] tok
      by (simp add: named_elem_def ucast_inject)
    also have "\<dots> \<longleftrightarrow> ?t = c" by (rule same_name [OF n placed_type(1) [OF p j] c'(1) placed_type(2) [OF p j] c'(2)])
    finally show ?thesis .
  qed
  have "find (md_named_node ?md (name_token names c)) [?off k..<length ?E] =
      map_option ?off (find (\<lambda>j. md_named_node ?md (name_token names c) (?off j)) [k..<length xs])"
  proof (rule find_at)
    fix i assume i: "?off k \<le> i" "i < length ?E" "md_named_node ?md (name_token names c) i"
    from i(3) have "me_tag (?E ! i) = MDET_NODE" by (simp add: md_named_node_def placed_view(1) [OF p])
    from image_tag_cases(2) [OF p i(2) this] obtain j where j: "j < length xs" "i = ?off j" by blast
    with i(1) node_off_less [of j k xs "gs_mem s"] k have "k \<le> j" by (cases "j < k") auto
    with j show "\<exists>j. k \<le> j \<and> j < length xs \<and> i = ?off j" by blast
  qed (use node_off_less image_list_end(2) [OF p] k in auto)
  also have "\<dots> = map_option ?off (find (\<lambda>j. dn_typep (the (gs_mem s (xs ! j))) = c) [k..<length xs])"
    using at by (intro arg_cong [where f = "map_option ?off"] find_cong refl) auto
  finally show ?thesis
    using md_find_node_wf [OF image_wf [OF p], of "?off k"] image_first [OF p k] by (simp add: placed_view(1) [OF p])
qed

text \<open>The number a node has under a name: its first property of that name and kind.\<close>

definition int_prop :: "pair_entry list \<Rightarrow> cstr \<Rightarrow> u64 option" where
  "int_prop peps c = (case find (\<lambda>pep. pe_namep pep = c \<and> prop_tag (pe_value pep) = MDET_PROP_VAL) peps of
     Some pep \<Rightarrow> (case pe_value pep of PE_int v \<Rightarrow> Some v | _ \<Rightarrow> None) | None \<Rightarrow> None)"

lemma find_first:
  obtains "find P xs = None" "\<And>i. i < length xs \<Longrightarrow> \<not> P (xs ! i)"
  | i where "find P xs = Some (xs ! i)" "i < length xs" "P (xs ! i)" "\<And>j. j < i \<Longrightarrow> \<not> P (xs ! j)"
  by (cases "find P xs") (auto simp: find_Some_iff find_None_iff in_set_conv_nth)

lemma image_node_get_val:
  assumes p: "placed s xs names ds M" and n: "placed_names nms names" and c: "c \<in> set nms" and k: "k < length xs"
  shows "md_node_get_val (md_view (image_of s xs names ds M)) (node_off (gs_mem s) xs k) (name_token names c) =
    Inr (int_prop (props_of (gs_mem s) (xs ! k)) c)"
proof -
  let ?E = "elems_of s xs names ds M" and ?md = "md_view (image_of s xs names ds M)"
  let ?o = "node_off (gs_mem s) xs k" and ?peps = "props_of (gs_mem s) (xs ! k)"
  let ?t = "MDVAL (name_token names c)"
  let ?P = "\<lambda>pep. pe_namep pep = c \<and> prop_tag (pe_value pep) = MDET_PROP_VAL"
  have c': "c \<in> set names" "length c < 255" using c n by (auto simp: placed_names_def good_name_def)
  then have "length c < 2 ^ 8" "name_off names c < 2 ^ 32" using name_off_small [OF n c'(1)] by simp_all
  note tok = rawp_eq_token [OF this, where tg = MDET_PROP_VAL, folded name_token_def MDVAL_def]
  have len: "?o + Suc (length ?peps) < length ?E"
    using node_off_le [of "Suc k" "length xs" xs "gs_mem s"] k image_list_end(2) [OF p] by (simp add: node_off_Suc node_len_def)
  have at: "rawp (?E ! (?o + Suc i)) = ?t \<longleftrightarrow> ?P (?peps ! i)" if i: "i < length ?peps" for i
  proof -
    note e = image_prop [OF p k i]
    show ?thesis unfolding tok e(3-6) using same_name [OF n e(1) c'(1) e(2) c'(2)] by auto
  qed
  have inner: "\<not> md_elem_end (?E ! (?o + i))" if "i \<le> length ?peps" for i
  proof (cases i)
    case 0
    then show ?thesis using image_tags(1) [OF p k] by (simp add: md_elem_end_def md_tags)
  next
    case (Suc j)
    then show ?thesis using image_tags(3) [OF p k, of j] that by (auto simp: md_elem_end_def md_tags)
  qed
  have last: "md_elem_end (?E ! (?o + Suc (length ?peps)))" "rawp (?E ! (?o + Suc (length ?peps))) \<noteq> ?t"
    using image_tags(4) [OF p k] by (simp_all add: md_elem_end_def tok md_tags)
  show ?thesis
  proof (rule find_first [of ?P ?peps])
    fix i assume f: "find ?P ?peps = Some (?peps ! i)" and i: "i < length ?peps" "?P (?peps ! i)" "\<And>j. j < i \<Longrightarrow> \<not> ?P (?peps ! j)"
    have "md_first_in_node ?md ?o ?t (?o + Suc i)"
      unfolding md_first_in_node_def placed_view(1) [OF p]
    proof (intro conjI ballI)
      show "rawp (?E ! (?o + Suc i)) = ?t" using at [OF i(1)] i(2) by blast
    next
      fix j assume "j \<in> {?o..<?o + Suc i}"
      then have "j = ?o + (j - ?o)" "j - ?o \<le> length ?peps" using i(1) by auto
      then show "\<not> md_elem_end (?E ! j)" using inner by metis
    next
      fix j assume "j \<in> {Suc ?o..<?o + Suc i}"
      then have "j = ?o + Suc (j - Suc ?o)" "j - Suc ?o < i" by auto
      then show "rawp (?E ! j) \<noteq> ?t" using at [of "j - Suc ?o"] i(1,3) by (metis less_trans)
    qed (use i(1) len in auto)
    then have nxt: "md_next_node_elem ?md ?o ?t = Inr (Some (?o + Suc i))" by (simp add: md_next_node_elem_Some)
    obtain v where v: "pe_value (?peps ! i) = PE_int v" using i(2) by (auto simp: prop_tag_def md_tags split: pair_value.splits)
    have "int_prop ?peps c = Some v" using f v by (simp add: int_prop_def)
    then show ?thesis using nxt image_prop(7) [OF p k i(1) v] by (simp add: md_node_get_val_def placed_view(1) [OF p])
  next
    assume f: "find ?P ?peps = None" and none: "\<And>i. i < length ?peps \<Longrightarrow> \<not> ?P (?peps ! i)"
    have "md_none_in_node ?md ?o ?t (?o + Suc (length ?peps))"
      unfolding md_none_in_node_def placed_view(1) [OF p]
    proof (intro conjI ballI)
      fix j assume "j \<in> {?o..<?o + Suc (length ?peps)}"
      then have "j = ?o + (j - ?o)" "j - ?o \<le> length ?peps" by auto
      then show "\<not> md_elem_end (?E ! j)" using inner by metis
    next
      fix j assume j: "j \<in> {Suc ?o..<Suc (?o + Suc (length ?peps))}"
      then have "j = ?o + Suc (j - Suc ?o)" "j - Suc ?o \<le> length ?peps" by auto
      then show "rawp (?E ! j) \<noteq> ?t" using at [of "j - Suc ?o"] last(2) none [of "j - Suc ?o"] by (metis le_neq_implies_less)
    qed (use len last(1) in auto)
    then have "md_next_node_elem ?md ?o ?t = Inr None" using md_next_node_elem_None by blast
    moreover have "int_prop ?peps c = None" using f by (simp add: int_prop_def)
    ultimately show ?thesis by (simp add: md_node_get_val_def)
  qed
qed

end
