(* ===== verification/Mdgen_Main.thy ===== *)
theory Mdgen_Main
  imports Mdgen_Image
begin

text \<open>
  The tool from end to end: what \<open>connect_dag\<close> does to a graph the parser has built, and
  the image \<open>mdgen\<close> writes.

  Shown here: an image \<open>mdgen\<close> writes is a machine description the hypervisor can walk,
  its root first; and the hypervisor reads from the image of a graph the nodes and the
  numbers the graph has.
\<close>

subsection \<open>Connecting the nodes\<close>

text \<open>What connecting does to a value, a property, a node, a graph.\<close>

definition conn_entry :: "nat list \<Rightarrow> pair_entry \<Rightarrow> pair_entry \<Rightarrow> bool" where
  "conn_entry xs a b \<longleftrightarrow> pe_namep b = pe_namep a \<and>
     (pe_value b = pe_value a \<or> (\<exists>c. pe_value a = PE_noderef c) \<and> (\<exists>r\<in>set xs. pe_value b = PE_arc r))"

definition conn_node :: "nat list \<Rightarrow> dag_node \<Rightarrow> dag_node \<Rightarrow> bool" where
  "conn_node xs a b \<longleftrightarrow> dn_typep b = dn_typep a \<and> dn_nextp b = dn_nextp a \<and> dn_prevp b = dn_prevp a \<and>
     list_all2 (conn_entry xs) (pl_listp (dn_properties a)) (pl_listp (dn_properties b))"

definition conn_dag :: "nat list \<Rightarrow> mdgen \<Rightarrow> mdgen \<Rightarrow> bool" where
  "conn_dag xs s t \<longleftrightarrow> (\<forall>x. rel_option (conn_node xs) (gs_mem s x) (gs_mem t x)) \<and>
     dag_listp t = dag_listp s \<and> dag_list_endp t = dag_list_endp s \<and> gs_fresh t = gs_fresh s"

lemma conn_entry_refl [simp]: "conn_entry xs a a"
  by (simp add: conn_entry_def)

lemma conn_entry_trans: "conn_entry xs a b \<Longrightarrow> conn_entry xs b c \<Longrightarrow> conn_entry xs a c"
  unfolding conn_entry_def by metis

lemma conn_node_refl [simp]: "conn_node xs a a"
  by (simp add: conn_node_def list_all2_refl)

lemma conn_node_trans: "conn_node xs a b \<Longrightarrow> conn_node xs b c \<Longrightarrow> conn_node xs a c"
  unfolding conn_node_def using list_all2_trans [of "conn_entry xs" "conn_entry xs" "conn_entry xs"] conn_entry_trans by metis

lemma conn_dag_refl [simp]: "conn_dag xs s s"
proof -
  have "rel_option (conn_node xs) o1 o1" for o1 by (cases o1) simp_all
  then show ?thesis by (simp add: conn_dag_def)
qed

lemma conn_dag_trans:
  assumes "conn_dag xs s t" "conn_dag xs t u"
  shows "conn_dag xs s u"
proof -
  have "rel_option (conn_node xs) a b \<Longrightarrow> rel_option (conn_node xs) b c \<Longrightarrow> rel_option (conn_node xs) a c" for a b c
    by (cases a; cases b; cases c) (auto intro: conn_node_trans)
  with assms show ?thesis unfolding conn_dag_def by metis
qed

lemma conn_dag_links: "conn_dag xs s t \<Longrightarrow> dag_links t = dag_links s"
proof
  fix x
  assume "conn_dag xs s t"
  then have "rel_option (conn_node xs) (gs_mem s x) (gs_mem t x)" by (simp add: conn_dag_def)
  then show "dag_links t x = dag_links s x" by (cases "gs_mem s x"; cases "gs_mem t x") (auto simp: dag_links_def conn_node_def)
qed

lemma conn_dag_holds: "conn_dag xs s t \<Longrightarrow> dag_holds s ys \<Longrightarrow> dag_holds t ys"
  using conn_dag_links [of xs s t] by (simp add: dag_holds_def conn_dag_def)

lemma conn_dag_ok:
  assumes "conn_dag xs s t" "dag_ok m s ys"
  shows "dag_ok m t ys"
proof -
  have "prev_ok t ys i = prev_ok s ys i" for i
  proof -
    have "rel_option (conn_node xs) (gs_mem s (ys ! i)) (gs_mem t (ys ! i))" using assms(1) by (simp add: conn_dag_def)
    then show ?thesis by (cases "gs_mem s (ys ! i)"; cases "gs_mem t (ys ! i)") (auto simp: prev_ok_def conn_node_def)
  qed
  then show ?thesis using assms conn_dag_holds [OF assms(1), of ys] by (auto simp: dag_ok_def conn_dag_def)
qed

lemma conn_dag_set:
  assumes "gs_mem s p = Some n" "conn_node xs n n'"
  shows "conn_dag xs s (dag_set p n' s)"
proof -
  have "rel_option (conn_node xs) o1 o1" for o1 by (cases o1) simp_all
  with assms show ?thesis by (simp add: conn_dag_def dag_set_def)
qed

text \<open>\<open>connected s p i\<close>: property \<open>i\<close> of node \<open>p\<close> is no reference by name.\<close>

definition connected :: "mdgen \<Rightarrow> nat \<Rightarrow> nat \<Rightarrow> bool" where
  "connected s p i \<longleftrightarrow> (\<forall>n c. gs_mem s p = Some n \<longrightarrow> i < length (pl_listp (dn_properties n)) \<longrightarrow> pe_value (pl_listp (dn_properties n) ! i) \<noteq> PE_noderef c)"

lemma connected_kept:
  assumes "conn_dag xs s t" "connected s p i"
  shows "connected t p i"
proof -
  have r: "rel_option (conn_node xs) (gs_mem s p) (gs_mem t p)" using assms(1) by (simp add: conn_dag_def)
  show ?thesis unfolding connected_def
  proof (intro allI impI notI)
    fix n c assume n: "gs_mem t p = Some n" "i < length (pl_listp (dn_properties n))" "pe_value (pl_listp (dn_properties n) ! i) = PE_noderef c"
    from r n(1) obtain m where m: "gs_mem s p = Some m" "conn_node xs m n" by (cases "gs_mem s p") auto
    then have l: "list_all2 (conn_entry xs) (pl_listp (dn_properties m)) (pl_listp (dn_properties n))" by (simp add: conn_node_def)
    have "conn_entry xs (pl_listp (dn_properties m) ! i) (pl_listp (dn_properties n) ! i)" using list_all2_nthD2 [OF l n(2)] .
    with n(3) have "pe_value (pl_listp (dn_properties m) ! i) = PE_noderef c" by (auto simp: conn_entry_def)
    with assms(2) m(1) n(2) list_all2_lengthD [OF l] show False by (simp add: connected_def)
  qed
qed

lemma connect_prop_step:
  assumes "dag_holds s xs" "connect_prop p i (failed, s) = Inr (failed', s')"
  shows "conn_dag xs s s'" "\<not> failed' \<Longrightarrow> \<not> failed \<and> connected s' p i"
proof -
  obtain n where n: "gs_mem s p = Some n" using assms(2) by (auto simp: connect_prop_def dag_at_def split: option.splits)
  let ?peps = "pl_listp (dn_properties n)"
  have "conn_dag xs s s' \<and> (\<not> failed' \<longrightarrow> \<not> failed \<and> connected s' p i)"
  proof (cases "\<exists>c. pe_value (?peps ! i) = PE_noderef c")
    case False
    with assms(2) n have "s' = s" "failed' = failed" by (auto simp: connect_prop_def dag_at_def split: pair_value.splits)
    with False n show ?thesis by (auto simp: connected_def)
  next
    case True
    then obtain c where c: "pe_value (?peps ! i) = PE_noderef c" by blast
    show ?thesis
    proof (cases "find (\<lambda>x. dn_namep (the (gs_mem s x)) = c) xs")
      case None
      with assms n c find_dag_node_holds(2) [OF assms(1), of c] show ?thesis by (simp add: connect_prop_def dag_at_def)
    next
      case (Some r)
      let ?n = "n\<lparr> dn_properties := set_value i (PE_arc r) (dn_properties n) \<rparr>"
      from Some have r: "r \<in> set xs" by (auto simp: find_Some_iff)
      have "s' = dag_set p ?n s" "failed' = failed"
        using assms n c Some find_dag_node_holds(2) [OF assms(1), of c] by (simp_all add: connect_prop_def dag_at_def)
      moreover have "list_all2 (conn_entry xs) (?peps[i := ?peps ! i]) (?peps[i := (?peps ! i)\<lparr> pe_value := PE_arc r \<rparr>])"
        by (rule list_all2_update_cong) (use r c in \<open>auto simp: conn_entry_def list_all2_refl\<close>)
      then have "conn_node xs n ?n" by (simp add: conn_node_def set_value_def)
      ultimately show ?thesis using conn_dag_set [OF n] by (simp add: connected_def dag_set_def set_value_def nth_list_update)
    qed
  qed
  then show "conn_dag xs s s'" "\<not> failed' \<Longrightarrow> \<not> failed \<and> connected s' p i" by blast+
qed

lemma connect_props:
  "dag_holds s xs \<Longrightarrow> hfold (connect_prop p) is (failed, s) = Inr (failed', s') \<Longrightarrow>
   conn_dag xs s s' \<and> (\<not> failed' \<longrightarrow> \<not> failed \<and> (\<forall>i\<in>set is. connected s' p i))"
proof (induction "is" arbitrary: s failed)
  case (Cons i js)
  then obtain f t where t: "connect_prop p i (failed, s) = Inr (f, t)" "hfold (connect_prop p) js (f, t) = Inr (failed', s')"
    by (auto simp: hbind_eq_Inr)
  note step = connect_prop_step [OF Cons.prems(1) t(1)]
  have "dag_holds t xs" using conn_dag_holds step(1) Cons.prems(1) .
  from Cons.IH [OF this t(2)] have r: "conn_dag xs t s'" "\<not> failed' \<longrightarrow> \<not> f \<and> (\<forall>i\<in>set js. connected s' p i)" by auto
  then show ?case using step conn_dag_trans [OF step(1) r(1)] connected_kept [OF r(1)] by auto
qed simp

lemma connect_node_step:
  assumes "dag_holds s xs" "connect_node p ((idx, failed), s) = Inr ((idx', failed'), s')"
  shows "conn_dag xs s s'" "\<not> failed' \<Longrightarrow> \<not> failed \<and> (\<forall>i. connected s' p i)"
proof -
  obtain n where n: "gs_mem s p = Some n" using assms(2) by (auto simp: connect_node_def dag_upd_def dag_at_def split: option.splits)
  let ?n = "n\<lparr> dn_idx := idx \<rparr>" let ?k = "length (pl_listp (dn_properties n))"
  define t where "t = dag_set p ?n s"
  have run: "hfold (connect_prop p) [0..<?k] (failed, t) = Inr (failed', s')"
    using assms(2) n by (auto simp: connect_node_def dag_upd_def dag_at_def dag_set_def t_def hbind_eq_Inr)
  have "conn_node xs n ?n" by (simp add: conn_node_def list_all2_refl)
  then have st: "conn_dag xs s t" unfolding t_def using n by (intro conn_dag_set)
  then have "dag_holds t xs" using conn_dag_holds assms(1) by blast
  from connect_props [OF this run] have r: "conn_dag xs t s'" "\<not> failed' \<longrightarrow> \<not> failed \<and> (\<forall>i<?k. connected s' p i)" by auto
  show "conn_dag xs s s'" using conn_dag_trans st r(1) .
  have "connected s' p i" if "\<not> i < ?k" for i
  proof -
    have "connected s p i" using n that by (simp add: connected_def)
    then show ?thesis using connected_kept conn_dag_trans st r(1) by metis
  qed
  then show "\<not> failed' \<Longrightarrow> \<not> failed \<and> (\<forall>i. connected s' p i)" using r(2) by blast
qed

lemma connect_nodes:
  "dag_holds s xs \<Longrightarrow> hfold connect_node ps ((idx, failed), s) = Inr ((idx', failed'), s') \<Longrightarrow>
   conn_dag xs s s' \<and> (\<not> failed' \<longrightarrow> \<not> failed \<and> (\<forall>p\<in>set ps. \<forall>i. connected s' p i))"
proof (induction ps arbitrary: s idx failed)
  case (Cons p ps)
  then obtain j f t where t: "connect_node p ((idx, failed), s) = Inr ((j, f), t)" "hfold connect_node ps ((j, f), t) = Inr ((idx', failed'), s')"
    by (auto simp: hbind_eq_Inr)
  note step = connect_node_step [OF Cons.prems(1) t(1)]
  have "dag_holds t xs" using conn_dag_holds step(1) Cons.prems(1) .
  from Cons.IH [OF this t(2)] have r: "conn_dag xs t s'" "\<not> failed' \<longrightarrow> \<not> f \<and> (\<forall>p\<in>set ps. \<forall>i. connected s' p i)" by auto
  then show ?case using step conn_dag_trans [OF step(1) r(1)] connected_kept [OF r(1)] by auto
qed simp

lemma connect_node_links: "connect_node p (l, s) = Inr (l', s') \<Longrightarrow> dag_links s' = dag_links s"
proof -
  have props: "hfold (connect_prop q) is (f, t) = Inr (f', t') \<Longrightarrow> dag_links t' = dag_links t" for q "is" f f' t t'
  proof (induction "is" arbitrary: f t)
    case (Cons i js)
    then obtain f2 t2 where t2: "connect_prop q i (f, t) = Inr (f2, t2)" "hfold (connect_prop q) js (f2, t2) = Inr (f', t')"
      by (auto simp: hbind_eq_Inr)
    have "dag_links t2 = dag_links t"
      using t2(1) by (auto simp: connect_prop_def hbind_eq_Inr dag_at_def dag_set_def dag_links_def fun_eq_iff split: option.splits pair_value.splits)
    with Cons.IH [OF t2(2)] show ?case by simp
  qed simp
  assume "connect_node p (l, s) = Inr (l', s')"
  then show ?thesis
    by (cases l) (auto simp: connect_node_def hbind_eq_Inr dag_upd_def dag_at_def dag_set_def dag_links_def fun_eq_iff dest!: props split: option.splits)
qed

lemma connect_dag_connects:
  assumes "dag_holds s xs" "connect_dag s = Inr s'"
  shows "conn_dag xs s s'" "\<forall>p\<in>set xs. \<forall>i. connected s' p i"
proof -
  have "dag_for connect_node ((0, False), s) = hfold connect_node xs ((0, False), s)"
    using assms(1) connect_node_links by (rule dag_for_holds)
  then obtain idx where "hfold connect_node xs ((0, False), s) = Inr ((idx, False), s')"
    using assms(2) by (auto simp: connect_dag_def hbind_eq_Inr split: if_splits)
  from connect_nodes [OF assms(1) this] show "conn_dag xs s s'" "\<forall>p\<in>set xs. \<forall>i. connected s' p i" by auto
qed

subsection \<open>The image of a graph\<close>

definition graph_names :: "mdgen \<Rightarrow> nat list \<Rightarrow> cstr set" where
  "graph_names s xs = (\<Union>x\<in>set xs. node_names (the (gs_mem s x)))"

lemma pad_not_good: "x \<in> set (pad_names ds) \<Longrightarrow> \<not> good_name x"
proof -
  have "\<not> good_name (replicate k 0)" for k by (cases k) (auto simp: good_name_def)
  then show "x \<in> set (pad_names ds) \<Longrightarrow> \<not> good_name x" by (auto simp: pad_names_def)
qed

lemma laid_out_names:
  assumes "laid_out (gs_mem s) xs names ds M"
  shows "graph_names s xs \<subseteq> set names"
proof
  fix c assume "c \<in> graph_names s xs"
  then obtain k where k: "k < length xs" "c \<in> node_names (the (gs_mem s (xs ! k)))" by (auto simp: graph_names_def in_set_conv_nth)
  let ?n = "the (gs_mem s (xs ! k))"
  obtain n' where n': "node_put names ds (?n\<lparr> dn_offset := of_nat (node_off (gs_mem s) xs k) \<rparr>) n'"
    using assms k(1) by (auto simp: laid_out_def)
  consider "c = dn_typep ?n" | i where "i < length (pl_listp (dn_properties ?n))" "c = pe_namep (pl_listp (dn_properties ?n) ! i)"
    using k(2) by (auto simp: node_names_def in_set_conv_nth)
  then show "c \<in> set names"
  proof cases
    case 1
    with n' show ?thesis by (fastforce simp: node_put_def in_set_conv_nth)
  next
    case 2
    with list_all2_nthD [OF node_put_facts(4) [OF n'], of i] show ?thesis by (fastforce simp: entry_put_def in_set_conv_nth)
  qed
qed

lemma output_bin_placed:
  assumes c: "compilable s xs" and "gs_out s = []"
  shows "\<exists>s' names nms ds M. output_bin s = Inr s' \<and> gs_out s' = image_of s xs names ds M \<and> graph_names s xs \<subseteq> set nms \<and>
    (length (gs_out s') < 2 ^ 31 \<longrightarrow> placed s xs names ds M \<and> placed_names nms names)"
proof -
  have holds: "dag_holds s xs" and w: "\<forall>x\<in>set xs. writable (gs_mem s) (the (gs_mem s x))" using c by (auto simp: compilable_def)
  obtain s' M names nms ds where o': "output_bin s = Inr s'" "gs_out s' = image_of s xs names ds M"
      "names = nms @ pad_names (map zstr nms)" "distinct names" "\<forall>x\<in>set nms. good_name x" "laid_out (gs_mem s) xs names ds M"
    using output_bin_image [OF holds w assms(2)] by blast
  have "\<forall>c\<in>graph_names s xs. good_name c" using w by (fastforce simp: graph_names_def node_names_def writable_def)
  then have "graph_names s xs \<subseteq> set nms" using laid_out_names [OF o'(6)] pad_not_good o'(3) by fastforce
  moreover have "placed s xs names ds M \<and> placed_names nms names" if b: "length (gs_out s') < 2 ^ 31"
  proof -
    have "length (elems_of s xs names ds M) = Suc (node_off (gs_mem s) xs (length xs))"
      using laid_out_len(2) [OF o'(6)] by (simp add: length_graph_elems)
    moreover have "length (concat (map elem_bytes es)) = 16 * length es" for es
      by (induction es) (simp_all add: elem_bytes_length MD_ELEMENT_SIZE_def)
    ultimately have "16 * Suc (node_off (gs_mem s) xs (length xs)) + length (concat (map zstr names)) \<le> length (gs_out s')"
      unfolding o'(2) bin_image_def by (simp del: length_concat)
    with b have "16 * Suc (node_off (gs_mem s) xs (length xs)) < 2 ^ 31" "length (concat (map zstr names)) < 2 ^ 31"
      by (simp_all only:)
    with c o' show ?thesis unfolding placed_def placed_names_def by blast
  qed
  ultimately show ?thesis using o'(1,2) by blast
qed

lemma image_find_root:
  assumes "placed s xs names ds M" "placed_names nms names" "c \<in> set nms"
  shows "md_find_node (md_view (image_of s xs names ds M)) None (name_token names c) =
    Inr (map_option (node_off (gs_mem s) xs) (find (\<lambda>j. dn_typep (the (gs_mem s (xs ! j))) = c) [0..<length xs]))"
  using image_find_node [OF assms, of 0] by (simp add: md_find_node_def del: hloop.simps)

subsection \<open>From the tokens to the image\<close>

lemma connected_compilable:
  assumes inv: "dag_inv s xs" and conn: "conn_dag xs s t" "\<forall>p\<in>set xs. \<forall>i. connected t p i" and x: "x \<in> set xs"
  shows "\<exists>n. gs_mem t x = Some n \<and> writable (gs_mem t) n \<and> (\<forall>pep\<in>set (pl_listp (dn_properties n)). \<forall>r. pe_value pep = PE_arc r \<longrightarrow> r \<in> set xs)"
proof -
  have ex: "gs_mem t y \<noteq> None" if y: "y \<in> set xs" for y
  proof -
    have "rel_option (conn_node xs) (gs_mem s y) (gs_mem t y)" using conn(1) by (simp add: conn_dag_def)
    moreover have "gs_mem s y \<noteq> None" using inv y by (auto simp: dag_inv_def)
    ultimately show ?thesis by (cases "gs_mem t y") auto
  qed
  obtain n where n: "gs_mem s x = Some n" "good_node n" using inv x by (auto simp: dag_inv_def)
  have "rel_option (conn_node xs) (gs_mem s x) (gs_mem t x)" using conn(1) by (simp add: conn_dag_def)
  with n(1) obtain m where m: "gs_mem t x = Some m" "conn_node xs n m" by (cases "gs_mem t x") auto
  have entry: "good_name (pe_namep pep) \<and> outable (gs_mem t) pep \<and> (\<forall>r. pe_value pep = PE_arc r \<longrightarrow> r \<in> set xs)"
    if pep: "pep \<in> set (pl_listp (dn_properties m))" for pep
  proof -
    obtain i where i: "i < length (pl_listp (dn_properties m))" "pl_listp (dn_properties m) ! i = pep" using pep by (auto simp: in_set_conv_nth)
    have l: "list_all2 (conn_entry xs) (pl_listp (dn_properties n)) (pl_listp (dn_properties m))" using m(2) by (simp add: conn_node_def)
    define pep0 where "pep0 = pl_listp (dn_properties n) ! i"
    have e: "conn_entry xs pep0 pep" using list_all2_nthD2 [OF l i(1)] i(2) by (simp add: pep0_def)
    have "pep0 \<in> set (pl_listp (dn_properties n))" using i(1) list_all2_lengthD [OF l] by (simp add: pep0_def)
    with n(2) have good: "good_name (pe_namep pep0)" "settled (pe_value pep0)" by (auto simp: good_node_def good_props_def)
    have noref: "pe_value pep \<noteq> PE_noderef c" for c using conn(2) x m(1) i by (auto simp: connected_def)
    show ?thesis
    proof (cases "pe_value pep = pe_value pep0")
      case True
      with e good noref show ?thesis by (auto simp: conn_entry_def outable_def settled_def good_name_def split: pair_value.splits)
    next
      case False
      with e obtain r where "r \<in> set xs" "pe_value pep = PE_arc r" by (auto simp: conn_entry_def)
      with e good(1) ex [of r] show ?thesis by (auto simp: conn_entry_def outable_def good_name_def)
    qed
  qed
  have "good_name (dn_typep m)" using n(2) m(2) by (simp add: good_node_def conn_node_def)
  with entry have "writable (gs_mem t) m" by (auto simp: writable_def good_name_def)
  with m(1) entry show ?thesis by blast
qed

lemma content_node:
  assumes "node_content t x = node_content s x" "gs_mem s x = Some n"
  obtains m where "gs_mem t x = Some m" "dn_typep m = dn_typep n" "dn_properties m = dn_properties n"
proof -
  from assms obtain m where m: "gs_mem t x = Some m" "m\<lparr> dn_prevp := None, dn_nextp := None \<rparr> = n\<lparr> dn_prevp := None, dn_nextp := None \<rparr>"
    by (auto simp: node_content_def)
  from m(2) have "dn_typep m = dn_typep n" "dn_properties m = dn_properties n" by (cases m; cases n; simp)+
  with m(1) that show thesis by blast
qed

lemma content_compilable:
  assumes same: "\<And>x. node_content t x = node_content s x" and "gs_mem s x = Some n" "writable (gs_mem s) n"
    "\<forall>pep\<in>set (pl_listp (dn_properties n)). \<forall>r. pe_value pep = PE_arc r \<longrightarrow> r \<in> set xs"
  shows "writable (gs_mem t) (the (gs_mem t x)) \<and> (\<forall>pep\<in>set (props_of (gs_mem t) x). \<forall>r. pe_value pep = PE_arc r \<longrightarrow> r \<in> set xs)"
proof -
  obtain m where m: "gs_mem t x = Some m" "dn_typep m = dn_typep n" "dn_properties m = dn_properties n"
    using content_node [OF same assms(2)] .
  have "gs_mem t r \<noteq> None \<longleftrightarrow> gs_mem s r \<noteq> None" for r
    using same [of r] by (cases "gs_mem t r"; cases "gs_mem s r") (simp_all add: node_content_def)
  then have "outable (gs_mem t) pep = outable (gs_mem s) pep" for pep by (auto simp: outable_def split: pair_value.splits)
  with m assms(3,4) show ?thesis by (simp add: writable_def props_of_def)
qed

text \<open>The root is first; the nodes are those read.\<close>

lemma mdgen_compilable:
  assumes run: "mdgen_main opts toks = Inr bs" and opts: "\<not> en_lookup opts" "\<not> en_proto opts" "\<not> en_setprop opts"
    and toks: "\<forall>x. T_Token x \<in> set toks \<longrightarrow> good_name x"
  shows "\<exists>s xs s'. compilable s xs \<and> gs_out s = [] \<and> output_bin s = Inr s' \<and> bs = gs_out s' \<and>
    xs \<noteq> [] \<and> dn_typep (the (gs_mem s (xs ! 0))) = cstring ''root''"
proof -
  from run opts(2) obtain s0 s1 s2 s' where st: "parse_dag opts (gen_start toks) = Inr s0" "connect_dag s0 = Inr s1"
      "stichin_reqd_properties s1 = Inr s2" "output_bin (s2\<lparr> gs_out := [] \<rparr>) = Inr s'" "bs = gs_out s'"
    by (auto simp: mdgen_main_def hbind_eq_Inr)
  obtain xs where inv: "dag_inv s0 xs" using parse_dag_inv(2) [OF opts toks st(1)] by blast
  then have ok: "dag_ok False s0 xs" "dag_holds s0 xs" by (auto simp: dag_inv_def dag_ok_def)
  note conn = connect_dag_connects [OF ok(2) st(2)]
  have ok1: "dag_ok False s1 xs" using conn_dag_ok [OF conn(1) ok(1)] .
  obtain r where r: "find (is_root s1) xs = Some r" using stichin_rootless [OF ok1] st(3) by (cases "find (is_root s1) xs") auto
  from stichin_hoists [OF ok1 r] st(3) have h: "dag_ok (r \<noteq> hd xs) s2 (r # remove1 r xs)" "\<And>p. node_content s2 p = node_content s1 p" by auto
  have rx: "r \<in> set xs" "is_root s1 r" using r by (auto simp: find_Some_iff)
  have set: "set (r # remove1 r xs) = set xs" 
  proof (rule set_eqI)
    show "x \<in> set (r # remove1 r xs) \<longleftrightarrow> x \<in> set xs" for x using rx(1) by (cases "x = r") simp_all
  qed
  let ?s = "s2\<lparr> gs_out := [] \<rparr>" and ?xs = "r # remove1 r xs"
  have "writable (gs_mem s2) (the (gs_mem s2 x)) \<and> (\<forall>pep\<in>set (props_of (gs_mem s2) x). \<forall>r. pe_value pep = PE_arc r \<longrightarrow> r \<in> set ?xs)"
    if "x \<in> set ?xs" for x
  proof -
    from that have "x \<in> set xs" unfolding set .
    from connected_compilable [OF inv conn this] obtain n where "gs_mem s1 x = Some n" "writable (gs_mem s1) n"
      "\<forall>pep\<in>set (pl_listp (dn_properties n)). \<forall>r. pe_value pep = PE_arc r \<longrightarrow> r \<in> set xs" by blast
    from content_compilable [OF h(2) this] show ?thesis unfolding set .
  qed
  moreover have "dag_holds ?s ?xs" using h(1) by (simp add: dag_ok_def dag_holds_def dag_links_def [abs_def])
  ultimately have "compilable ?s ?xs" by (simp add: compilable_def)
  moreover have "dn_typep (the (gs_mem s2 r)) = cstring ''root''"
  proof -
    obtain n where n: "gs_mem s1 r = Some n" using connected_compilable [OF inv conn rx(1)] by blast
    obtain m where "gs_mem s2 r = Some m" "dn_typep m = dn_typep n" using content_node [OF h(2) n] by metis
    with n rx(2) show ?thesis by (simp add: is_root_def)
  qed
  ultimately show ?thesis using st(4,5)
    by (intro exI [of _ ?s] exI [of _ ?xs] exI [of _ s']) simp
qed

subsection \<open>Properties\<close>

text \<open>
  C28. What \<open>mdgen\<close> writes the hypervisor can walk.  Whenever the tool, built without
  its optional features, writes an image (of less than 2 GB) from tokens whose names are
  not empty, hold no NUL and are shorter than 255 bytes, the image read as a machine
  description is well formed: one list end, node links that go forward from node to
  node, arcs that lead to nodes, the sizes of the header.  And the scanner of the
  hypervisor finds the name \<open>root\<close> in it and the root node as its first element.
\<close>

theorem mdgen_writes_md:
  assumes "mdgen_main opts toks = Inr bs" "\<not> en_lookup opts" "\<not> en_proto opts" "\<not> en_setprop opts"
    and "\<forall>x. T_Token x \<in> set toks \<longrightarrow> good_name x" "length bs < 2 ^ 31"
  shows "md_wf (md_view bs) \<and>
    (\<exists>tok. md_find_name_tag (md_view bs) ''root'' = Inr tok \<and> md_find_node (md_view bs) None tok = Inr (Some 0))"
proof -
  obtain s xs s' where c: "compilable s xs" "gs_out s = []" "output_bin s = Inr s'" "bs = gs_out s'" "xs \<noteq> []"
      "dn_typep (the (gs_mem s (xs ! 0))) = cstring ''root''"
    using mdgen_compilable [OF assms(1-5)] by blast
  obtain names nms ds M where o': "bs = image_of s xs names ds M" "graph_names s xs \<subseteq> set nms" "placed s xs names ds M" "placed_names nms names"
    using output_bin_placed [OF c(1,2)] c(3,4) assms(6) by auto
  have "cstring ''root'' \<in> node_names (the (gs_mem s (xs ! 0)))" using c(6) by (simp add: node_names_def)
  then have root: "cstring ''root'' \<in> set nms" using o'(2) c(5) by (fastforce simp: graph_names_def)
  have "find (\<lambda>j. dn_typep (the (gs_mem s (xs ! j))) = cstring ''root'') [0..<length xs] = Some 0"
    using c(5,6) by (simp add: upt_conv_Cons)
  then show ?thesis
    using image_wf [OF o'(3)] image_name_tag [OF o'(3,4) root] image_find_root [OF o'(3,4) root] unfolding o'(1) by simp
qed

text \<open>A guest whose description comes before the root's, which points to it; and the image of both.\<close>

definition demo_toks :: "lexer_tok list" where
  "demo_toks = [T_KW_node, T_Token (cstring ''guest''), T_Token (cstring ''g''), T_L_Brace,
       T_Token (cstring ''pid''), T_Equals, T_Number 5, T_S_Colon, T_R_Brace,
     T_KW_node, T_Token (cstring ''root''), T_Token (cstring ''r''), T_L_Brace,
       T_Token (cstring ''fwd''), T_KW_arc, T_Token (cstring ''g''), T_S_Colon, T_R_Brace]"

definition demo_image :: "u8 list" where
  "demo_image = (case mdgen_main plain_opts demo_toks of Inr bs \<Rightarrow> bs | Inl e \<Rightarrow> [])"

theorem mdgen_writes_md_witness:
  "mdgen_main plain_opts demo_toks = Inr demo_image \<and> md_wf (md_view demo_image) \<and>
   (\<exists>tok. md_find_node (md_view demo_image) None tok = Inr (Some 0))"
proof -
  have run: "mdgen_main plain_opts demo_toks = Inr demo_image \<and> length demo_image < 1000" by code_simp
  have "\<forall>x. T_Token x \<in> set demo_toks \<longrightarrow> good_name x"
    by (auto simp: demo_toks_def good_name_def cstring_def)
  with run mdgen_writes_md [of plain_opts demo_toks demo_image] show ?thesis by (auto simp: plain_opts_def)
qed

text \<open>
  C29. The image of a graph is read back.  The image \<open>output_bin\<close> writes of a graph that
  can be written (no property without a value and no reference by name left, arcs to its
  own nodes) holds, for every node type and property name of the graph, a tag
  \<open>md_find_name_tag\<close> finds; with it \<open>md_find_node\<close> returns the first node of that type,
  at its place in the list, or none; and \<open>md_node_get_val\<close> returns for each node the
  number of its first property of that name that is one, or none.
\<close>

theorem output_bin_scanned:
  assumes "compilable s xs" "gs_out s = []" "output_bin s = Inr s'" "length (gs_out s') < 2 ^ 31"
    and "cstring nm \<in> graph_names s xs"
  shows "\<exists>tok. md_find_name_tag (md_view (gs_out s')) nm = Inr tok \<and>
    md_find_node (md_view (gs_out s')) None tok =
      Inr (map_option (node_off (gs_mem s) xs) (find (\<lambda>j. dn_typep (the (gs_mem s (xs ! j))) = cstring nm) [0..<length xs])) \<and>
    (\<forall>k<length xs. md_node_get_val (md_view (gs_out s')) (node_off (gs_mem s) xs k) tok =
      Inr (int_prop (props_of (gs_mem s) (xs ! k)) (cstring nm)))"
proof -
  obtain names nms ds M where o': "gs_out s' = image_of s xs names ds M" "graph_names s xs \<subseteq> set nms" "placed s xs names ds M" "placed_names nms names"
    using output_bin_placed [OF assms(1,2)] assms(3,4) by auto
  have nm: "cstring nm \<in> set nms" using o'(2) assms(5) by blast
  show ?thesis
    using image_name_tag [OF o'(3,4) nm] image_find_root [OF o'(3,4) nm] image_node_get_val [OF o'(3,4) nm] unfolding o'(1) by simp
qed

text \<open>The same graph, once connected.\<close>

definition demo_graph :: mdgen where
  "demo_graph = \<lparr> lex_toks = [], gs_mem = [
       0 \<mapsto> dag_node_zero\<lparr> dn_typep := cstring ''guest'', dn_namep := cstring ''g'', dn_prevp := Some 1,
         dn_properties := \<lparr> pl_space = 1, pl_listp = [pair_entry_zero\<lparr> pe_namep := cstring ''pid'', pe_value := PE_int 5 \<rparr>] \<rparr> \<rparr>,
       1 \<mapsto> dag_node_zero\<lparr> dn_typep := cstring ''root'', dn_namep := cstring ''r'', dn_nextp := Some 0,
         dn_properties := \<lparr> pl_space = 1, pl_listp = [pair_entry_zero\<lparr> pe_namep := cstring ''fwd'', pe_value := PE_arc 0 \<rparr>] \<rparr> \<rparr>],
     gs_fresh = 2, dag_listp = Some 1, dag_list_endp = Some 0, name_blk = blk_empty, data_blk = blk_empty, gs_out = [] \<rparr>"

theorem output_bin_scanned_witness:
  "\<exists>s' tok. output_bin demo_graph = Inr s' \<and> md_find_name_tag (md_view (gs_out s')) ''pid'' = Inr tok \<and>
     md_node_get_val (md_view (gs_out s')) 3 tok = Inr (Some 5)"
proof -
  have "case output_bin demo_graph of Inl e \<Rightarrow> False | Inr s' \<Rightarrow> length (gs_out s') < 1000" by code_simp
  then obtain s' where s': "output_bin demo_graph = Inr s'" "length (gs_out s') < 2 ^ 31" by (auto split: sum.splits)
  have "compilable demo_graph [1, 0]"
    by (auto simp: compilable_def dag_holds_def demo_graph_def dag_links_def dag_node_zero_def pair_entry_zero_def
      writable_def good_name_def outable_def cstring_def props_of_def)
  moreover have "gs_out demo_graph = []" by (simp add: demo_graph_def)
  moreover have "cstring ''pid'' \<in> graph_names demo_graph [1, 0]"
    by (simp add: graph_names_def node_names_def demo_graph_def pair_entry_zero_def)
  ultimately obtain tok where "md_find_name_tag (md_view (gs_out s')) ''pid'' = Inr tok"
      "\<forall>k<length [1, 0 :: nat]. md_node_get_val (md_view (gs_out s')) (node_off (gs_mem demo_graph) [1, 0] k) tok =
        Inr (int_prop (props_of (gs_mem demo_graph) ([1, 0] ! k)) (cstring ''pid''))"
    using output_bin_scanned [of demo_graph "[1, 0]" s' "''pid''"] s' by blast
  moreover have "node_off (gs_mem demo_graph) [1, 0] 1 = 3" "int_prop (props_of (gs_mem demo_graph) 0) (cstring ''pid'') = Some 5" by code_simp+
  ultimately have "md_node_get_val (md_view (gs_out s')) 3 tok = Inr (Some 5)" by (metis length_Cons list.size(3) nth_Cons_0 nth_Cons_Suc One_nat_def lessI)
  with s'(1) \<open>md_find_name_tag (md_view (gs_out s')) ''pid'' = Inr tok\<close> show ?thesis by blast
qed

end
