(* ===== verification/Mdlint.thy ===== *)
theory Mdlint
  imports Mdgen_Main
begin

text \<open>
  The checker of machine descriptions (\<open>support/mdlint/mdlint.c\<close>), written to share no code with
  the compiler or the hypervisor.  It compiles only where the byte order is that of the
  network.  A file is \<open>None\<close> when it cannot be opened or is not a regular file, else its bytes,
  all of which are mapped; reading elsewhere is \<open>Bad_access\<close>.  Indices are mathematical
  integers, which is what they are in files of less than 2 GB.  The lines \<open>output_text\<close> prints
  are values, one constructor for each format.

  Shown here: the checker accepts what the compiler writes; when it does not end; and an error
  it does not see.
\<close>

subsection \<open>Reading the file\<close>

record md_t =
  lm_caddr :: "u8 list"
  lm_mdep :: int
  lm_namep :: int
  lm_datap :: int
  lm_node_blk_size :: int
  lm_name_blk_size :: int
  lm_data_blk_size :: int
  lm_element_count :: int
  lm_node_count :: int

definition lint_bytes :: "md_t \<Rightarrow> int \<Rightarrow> nat \<Rightarrow> u8 list hv" where
  "lint_bytes m pos n = hguard (0 \<le> pos \<and> nat pos + n \<le> length (lm_caddr m)) (Inr (take n (drop (nat pos) (lm_caddr m))))"

definition lint_field :: "nat \<Rightarrow> nat \<Rightarrow> md_t \<Rightarrow> int \<Rightarrow> 'a::len word hv" where
  "lint_field off n m idx = hbind (lint_bytes m (lm_mdep m + 16 * idx + int off) n) (\<lambda>bs. Inr (be_value bs))"

definition lint_tag :: "md_t \<Rightarrow> int \<Rightarrow> u8 hv" where "lint_tag = lint_field 0 1"
definition lint_namelen :: "md_t \<Rightarrow> int \<Rightarrow> u8 hv" where "lint_namelen = lint_field 1 1"
definition lint_name :: "md_t \<Rightarrow> int \<Rightarrow> u32 hv" where "lint_name = lint_field 4 4"
definition lint_d :: "md_t \<Rightarrow> int \<Rightarrow> u64 hv" where "lint_d = lint_field 8 8"
definition lint_len :: "md_t \<Rightarrow> int \<Rightarrow> u32 hv" where "lint_len = lint_field 8 4"
definition lint_offset :: "md_t \<Rightarrow> int \<Rightarrow> u32 hv" where "lint_offset = lint_field 12 4"

text \<open>A C string: its bytes before the NUL.\<close>

definition lint_str :: "md_t \<Rightarrow> int \<Rightarrow> cstr hv" where
  "lint_str m pos = hguard (0 \<le> pos \<and> 0 \<in> set (drop (nat pos) (lm_caddr m))) (Inr (takeWhile (\<lambda>b. b \<noteq> 0) (drop (nat pos) (lm_caddr m))))"

subsection \<open>Opening a description\<close>

text \<open>
  The loop that counts the nodes; it jumps from node to node, so it takes fuel.  \<open>int / int\<close>
  of C rounds towards zero.
\<close>

definition md_count_step :: "md_t \<Rightarrow> int \<times> int \<Rightarrow> int \<times> int + (int \<times> int) hv" where
  "md_count_step m = (\<lambda>(idx, count). case lint_tag m idx of Inl e \<Rightarrow> Inr (Inl e) | Inr tag \<Rightarrow>
     if tag = MDET_LIST_END then Inr (Inr (idx, count))
     else if tag = MDET_NULL then Inl (idx + 1, count)
     else if tag = MDET_NODE then (case lint_d m idx of Inl e \<Rightarrow> Inr (Inl e) | Inr d \<Rightarrow> Inl (sint (ucast d :: u32), count + 1))
     else Inr (Inl Fatal))"

definition c_div :: "int \<Rightarrow> int \<Rightarrow> int" where
  "c_div a b = sgn a * sgn b * (\<bar>a\<bar> div \<bar>b\<bar>)"

definition md_init :: "u8 list option \<Rightarrow> md_t option hv" where
  "md_init file = (case file of None \<Rightarrow> Inr None | Some bs \<Rightarrow>
     if length bs < 16 then Inr None
     else let nsz = sint (be_field 4 4 bs :: u32); msz = sint (be_field 8 4 bs :: u32);
         m = \<lparr> lm_caddr = bs, lm_mdep = 16, lm_namep = 16 + nsz, lm_datap = 16 + msz + nsz, lm_node_blk_size = nsz,
           lm_name_blk_size = msz, lm_data_blk_size = sint (be_field 12 4 bs :: u32), lm_element_count = 0, lm_node_count = 0 \<rparr>
       in if be_field 0 4 bs \<noteq> MD_TRANSPORT_VERSION then Inl Fatal
          else hbind (hloop (md_count_step m) (length bs + 2) (0, 0)) (\<lambda>(idx, count).
            hassert (idx + 1 = c_div nsz (int MD_ELEMENT_SIZE))
              (Inr (Some (m\<lparr> lm_element_count := idx + 1, lm_node_count := count \<rparr>)))))"

subsection \<open>The text of a description\<close>

datatype text_line =
    TL_end int | TL_null | TL_node cstr int u64 | TL_node_end int | TL_arc cstr u64 | TL_val cstr u64 | TL_str cstr cstr
  | TL_data cstr | TL_sarray cstr bool | TL_sarray_end | TL_byte nat u8 | TL_last_byte u8

fun sarray_scan :: "md_t \<Rightarrow> int \<Rightarrow> nat \<Rightarrow> bool \<Rightarrow> bool hv" where
  "sarray_scan m pos 0 new_string = Inr new_string"
| "sarray_scan m pos (Suc n) new_string = hbind (lint_bytes m pos 1) (\<lambda>bs. let ch = be_value bs :: u8 in
     if ch \<noteq> 0 \<and> (ch < 0x20 \<or> 126 \<le> ch) then Inr False
     else if ch = 0 then (if new_string then Inr False else sarray_scan m (pos + 1) n True)
     else sarray_scan m (pos + 1) n False)"

function sarray_lines :: "md_t \<Rightarrow> int \<Rightarrow> int \<Rightarrow> int \<Rightarrow> text_line list hv" where
  "sarray_lines m pos i len = (if i < len then hbind (lint_str m (pos + i)) (\<lambda>p. let step = int (length p) + 1 in
     hbind (sarray_lines m pos (i + step) len) (\<lambda>ls. Inr (TL_sarray p (i + step = len) # ls))) else Inr [])"
  by pat_completeness auto
termination by (relation "measure (\<lambda>(m, pos, i, len). nat (len - i))") auto

declare sarray_lines.simps [simp del]

definition output_text_data :: "md_t \<Rightarrow> cstr \<Rightarrow> int \<Rightarrow> int \<Rightarrow> text_line list hv" where
  "output_text_data m propp datap len = hbind (sarray_scan m datap (nat len) True) (\<lambda>sarray.
     if sarray then hbind (sarray_lines m datap 0 len) (\<lambda>ls. Inr (TL_data propp # ls @ [TL_sarray_end]))
     else hbind (hfold (\<lambda>i ls. hbind (lint_bytes m (datap + int i) 1) (\<lambda>b. Inr (ls @ [TL_byte i (be_value b)]))) [0..<nat (len - 1)] []) (\<lambda>ls.
       hbind (lint_bytes m (datap + max 0 (len - 1)) 1) (\<lambda>b. Inr (TL_data propp # ls @ [TL_last_byte (be_value b)]))))"

text \<open>The lines of one element that is not the end of the list.\<close>

definition output_text_elem :: "md_t \<Rightarrow> int \<Rightarrow> u8 \<Rightarrow> text_line list hv" where
  "output_text_elem m idx tag =
     (let name = (\<lambda>k. hbind (lint_name m idx) (\<lambda>stro. hbind (lint_str m (lm_namep m + uint stro)) k)) in
      if tag = MDET_NULL then Inr [TL_null]
      else if tag = MDET_NODE then hbind (lint_d m idx) (\<lambda>nextidx. name (\<lambda>nm. Inr [TL_node nm idx nextidx]))
      else if tag = MDET_NODE_END then Inr [TL_node_end idx]
      else if tag = MDET_PROP_ARC then hbind (lint_d m idx) (\<lambda>nextidx. name (\<lambda>nm. Inr [TL_arc nm nextidx]))
      else if tag = MDET_PROP_VAL then hbind (lint_d m idx) (\<lambda>val. name (\<lambda>nm. Inr [TL_val nm val]))
      else if tag = MDET_PROP_STR then hbind (lint_offset m idx) (\<lambda>offset. name (\<lambda>nm.
        hbind (lint_str m (lm_datap m + uint offset)) (\<lambda>s. Inr [TL_str nm s])))
      else if tag = MDET_PROP_DAT then hbind (lint_offset m idx) (\<lambda>offset. hbind (lint_len m idx) (\<lambda>len. name (\<lambda>nm.
        output_text_data m nm (lm_datap m + uint offset) (sint len))))
      else Inl Fatal)"

lemma lint_tag_measure:
  "lint_tag m (int idx) = Inr tag \<Longrightarrow>
   nat (int (length (lm_caddr m)) - lm_mdep m - 16 * int (Suc idx)) < nat (int (length (lm_caddr m)) - lm_mdep m - 16 * int idx)"
  by (auto simp: lint_tag_def lint_field_def lint_bytes_def hbind_eq_Inr hguard_eq_Inr)

function output_text_from :: "md_t \<Rightarrow> nat \<Rightarrow> text_line list hv" where
  "output_text_from m idx = hbind (lint_tag m (int idx)) (\<lambda>tag.
     if tag = MDET_LIST_END then Inr [TL_end (int idx)]
     else hbind (output_text_elem m (int idx) tag) (\<lambda>ls. hbind (output_text_from m (Suc idx)) (\<lambda>rest. Inr (ls @ rest))))"
  by pat_completeness auto
termination
  by (relation "measure (\<lambda>(m, idx). nat (int (length (lm_caddr m)) - lm_mdep m - 16 * int idx))") (auto dest: lint_tag_measure)

declare output_text_from.simps [simp del]

definition output_text :: "md_t \<Rightarrow> text_line list hv" where "output_text m = output_text_from m 0"

subsection \<open>Checking a description\<close>

text \<open>
  The two failures print names before they end the program; that reading a name could fail
  instead of \<open>fatal\<close> ending it makes no difference to what follows, since nothing does.  The number of nodes is counted and not used.
\<close>

definition check_name :: "md_t \<Rightarrow> int \<Rightarrow> 'a hv \<Rightarrow> 'a hv" where
  "check_name m idx k = hbind (lint_name m idx) (\<lambda>stro. hbind (lint_str m (lm_namep m + uint stro)) (\<lambda>s.
     hbind (lint_namelen m idx) (\<lambda>nlen. if uint nlen \<noteq> int (length s) then Inl Fatal else k)))"

function brief_sanity_from :: "md_t \<Rightarrow> nat \<Rightarrow> bool \<Rightarrow> unit hv" where
  "brief_sanity_from m idx in_node = hbind (lint_tag m (int idx)) (\<lambda>tag.
     if tag = MDET_LIST_END then Inr ()
     else if tag = MDET_NULL then brief_sanity_from m (Suc idx) in_node
     else if tag = MDET_NODE then
       if in_node then Inl Fatal else check_name m (int idx) (brief_sanity_from m (Suc idx) True)
     else if tag = MDET_NODE_END then
       if in_node then brief_sanity_from m (Suc idx) False else Inl Fatal
     else if tag \<in> {MDET_PROP_ARC, MDET_PROP_VAL, MDET_PROP_STR, MDET_PROP_DAT} then
       check_name m (int idx) (brief_sanity_from m (Suc idx) in_node)
     else Inl Fatal)"
  by pat_completeness auto
termination
  by (relation "measure (\<lambda>(m, idx, b). nat (int (length (lm_caddr m)) - lm_mdep m - 16 * int idx))") (auto dest: lint_tag_measure)

declare brief_sanity_from.simps [simp del]

definition brief_sanity :: "md_t \<Rightarrow> unit hv" where "brief_sanity m = brief_sanity_from m 0 False"

subsection \<open>The tool\<close>

definition md_lint :: "bool \<Rightarrow> md_t \<Rightarrow> text_line list hv" where
  "md_lint textdump m = hbind (if textdump then output_text m else Inr []) (\<lambda>out. hbind (brief_sanity m) (\<lambda>_. Inr out))"

text \<open>\<open>process_options\<close> on the arguments after the name of the program: \<open>textdump\<close>, and the arguments that are left.\<close>

fun process_options :: "bool \<Rightarrow> string list \<Rightarrow> (bool \<times> string list) hv" where
  "process_options textdump [] = Inr (textdump, [])"
| "process_options textdump (arg # args) =
     (if arg \<noteq> [] \<and> hd arg = CHR ''-'' then
        if arg = ''-h'' \<or> arg = ''--help'' then Inl Fatal
        else if arg = ''-t'' \<or> arg = ''--text'' then process_options True args
        else Inl Fatal
      else Inr (textdump, arg # args))"

definition mdlint_main :: "(string \<Rightarrow> u8 list option) \<Rightarrow> string list \<Rightarrow> text_line list hv" where
  "mdlint_main files args = hbind (process_options False args) (\<lambda>(textdump, rest). case rest of
     [fnamep] \<Rightarrow> hbind (md_init (files fnamep)) (\<lambda>r. case r of None \<Rightarrow> Inl Fatal | Some m \<Rightarrow> md_lint textdump m)
   | _ \<Rightarrow> Inl Fatal)"

subsection \<open>What the compiler writes, as the checker reads it\<close>

definition md_of :: "mdgen \<Rightarrow> nat list \<Rightarrow> cstr list \<Rightarrow> u8 list list \<Rightarrow> (nat \<Rightarrow> dag_node option) \<Rightarrow> md_t \<Rightarrow> bool" where
  "md_of s xs names ds M m \<longleftrightarrow> lm_caddr m = image_of s xs names ds M \<and> lm_mdep m = 16 \<and>
     lm_namep m = 16 + 16 * int (length (elems_of s xs names ds M))"

lemma elems_length: "length (concat (map elem_bytes es)) = 16 * length es"
  by (induction es) (simp_all add: elem_bytes_length MD_ELEMENT_SIZE_def)

lemma image_drop: "drop 16 (image_of s xs names ds M) = concat (map elem_bytes (elems_of s xs names ds M)) @ concat (map zstr names) @ concat ds"
  by (simp add: bin_image_def hdr_bytes_def)

lemma image_length: "length (image_of s xs names ds M) = 16 + 16 * length (elems_of s xs names ds M) + length (concat (map zstr names) @ concat ds)"
  unfolding bin_image_def hdr_bytes_def by (simp add: elems_length del: length_concat)

lemma lint_field_image:
  assumes "md_of s xs names ds M m" and "j < length (elems_of s xs names ds M)" and "off + n \<le> 16"
  shows "lint_field off n m (int j) = Inr (be_field off n (elem_bytes (elems_of s xs names ds M ! j)))"
proof -
  let ?es = "elems_of s xs names ds M" and ?bs = "image_of s xs names ds M"
  let ?rest = "concat (map zstr names) @ concat ds"
  have c: "take 16 (drop (16 * j) (concat (map elem_bytes ?es) @ ?rest)) = elem_bytes (?es ! j)"
    using elems_nth [OF assms(2), of ?rest] by (simp only: MD_ELEMENT_SIZE_def)
  have p: "nat (lm_mdep m + 16 * int j + int off) = 16 + 16 * j + off" using assms(1) by (simp add: md_of_def nat_add_distrib)
  have "drop (16 + 16 * j + off) ?bs = drop off (drop (16 * j) (drop 16 ?bs))" by (simp add: add.commute add.left_commute)
  then have d: "drop (16 + 16 * j + off) ?bs = drop off (drop (16 * j) (concat (map elem_bytes ?es) @ ?rest))" unfolding image_drop .
  have "take n (drop off ys) = take n (drop off (take 16 ys))" for ys :: "u8 list" using assms(3) by (simp add: drop_take)
  then have tk: "take n (drop (16 + 16 * j + off) ?bs) = take n (drop off (elem_bytes (?es ! j)))" unfolding d c [symmetric] by blast
  have "16 * j + 16 \<le> 16 * length ?es" using assms(2) by simp
  then have "16 + 16 * j + off + n \<le> length ?bs" using assms(3) unfolding image_length by linarith
  then have "lint_bytes m (lm_mdep m + 16 * int j + int off) n = Inr (take n (drop off (elem_bytes (?es ! j))))"
    using assms(1) p tk by (simp add: lint_bytes_def md_of_def)
  then show ?thesis by (simp add: lint_field_def be_field_def)
qed

lemma lint_elem:
  assumes "md_of s xs names ds M m" and "j < length (elems_of s xs names ds M)"
  shows "lint_tag m (int j) = Inr (me_tag (elems_of s xs names ds M ! j))" "lint_namelen m (int j) = Inr (me_namelen (elems_of s xs names ds M ! j))"
    "lint_name m (int j) = Inr (me_name (elems_of s xs names ds M ! j))" "lint_d m (int j) = Inr (me_d (elems_of s xs names ds M ! j))"
proof -
  let ?e = "elems_of s xs names ds M ! j"
  have r: "be_field 0 1 (elem_bytes ?e) = me_tag ?e" "be_field 1 1 (elem_bytes ?e) = me_namelen ?e"
    "be_field 4 4 (elem_bytes ?e) = me_name ?e" "be_field 8 8 (elem_bytes ?e) = me_d ?e"
    using arg_cong [OF elem_read_bytes [of ?e], of me_tag] arg_cong [OF elem_read_bytes [of ?e], of me_namelen]
      arg_cong [OF elem_read_bytes [of ?e], of me_name] arg_cong [OF elem_read_bytes [of ?e], of me_d]
    by (simp_all add: elem_read_def)
  show "lint_tag m (int j) = Inr (me_tag ?e)" "lint_namelen m (int j) = Inr (me_namelen ?e)"
    "lint_name m (int j) = Inr (me_name ?e)" "lint_d m (int j) = Inr (me_d ?e)"
    using lint_field_image [OF assms, where 'a = 8, of 0 1] lint_field_image [OF assms, where 'a = 8, of 1 1]
      lint_field_image [OF assms, where 'a = 32, of 4 4] lint_field_image [OF assms, where 'a = 64, of 8 8] r
    by (simp_all add: lint_tag_def lint_namelen_def lint_name_def lint_d_def)
qed

lemma concat_at_name:
  assumes "c \<in> set names"
  shows "\<exists>ys. concat (map zstr names) = concat (map zstr (takeWhile (\<lambda>x. x \<noteq> c) names)) @ zstr c @ ys"
proof -
  obtain ys where d: "dropWhile (\<lambda>x. x \<noteq> c) names = c # ys" using assms by (metis (mono_tags, lifting) dropWhile_eq_Nil_conv hd_dropWhile list.collapse)
  have "concat (map zstr names) = concat (map zstr (takeWhile (\<lambda>x. x \<noteq> c) names)) @ concat (map zstr (dropWhile (\<lambda>x. x \<noteq> c) names))"
    by (metis concat_append map_append takeWhile_dropWhile_id)
  then show ?thesis unfolding d by simp
qed

lemma lint_str_image:
  assumes m: "md_of s xs names ds M m" and n: "placed_names nms names" and c: "c \<in> set nms"
  shows "lint_str m (lm_namep m + uint (of_nat (name_off names c) :: u32)) = Inr c"
proof -
  let ?es = "elems_of s xs names ds M" and ?bs = "image_of s xs names ds M"
  have cn: "c \<in> set names" and z: "0 \<notin> set c" using n c by (auto simp: placed_names_def good_name_def)
  have u: "uint (of_nat (name_off names c) :: u32) = int (name_off names c)"
    using name_off_small [OF n cn] by (simp add: unsigned_of_nat take_bit_nat_eq_self)
  have p: "nat (lm_namep m + int (name_off names c)) = 16 + (16 * length ?es + name_off names c)" using m by (simp add: md_of_def nat_add_distrib nat_mult_distrib)
  obtain ys where ys: "concat (map zstr names) = concat (map zstr (takeWhile (\<lambda>x. x \<noteq> c) names)) @ zstr c @ ys" using concat_at_name [OF cn] by blast
  have "drop (16 + (16 * length ?es + name_off names c)) ?bs = drop (name_off names c) (drop (16 * length ?es) (drop 16 ?bs))"
    by (simp add: add.commute add.left_commute)
  also have "\<dots> = drop (name_off names c) (concat (map zstr names) @ concat ds)"
    unfolding image_drop using elems_length [of ?es] by simp
  also have "\<dots> = c @ 0 # ys @ concat ds" unfolding ys by (simp add: name_off_def zstr_def)
  finally have d: "drop (16 + (16 * length ?es + name_off names c)) ?bs = c @ 0 # ys @ concat ds" .
  have tw: "takeWhile (\<lambda>b. b \<noteq> 0) (c @ 0 # zs) = c" for zs using z by (induction c) auto
  show ?thesis using m d p tw unfolding u by (simp add: lint_str_def md_of_def)
qed

lemma check_name_image:
  assumes m: "md_of s xs names ds M m" and n: "placed_names nms names" and j: "j < length (elems_of s xs names ds M)"
    and e: "me_name (elems_of s xs names ds M ! j) = of_nat (name_off names c)" "me_namelen (elems_of s xs names ds M ! j) = of_nat (length c)" "c \<in> set nms"
  shows "check_name m (int j) k = k"
proof -
  have "length c < 255" using n e(3) by (simp add: placed_names_def good_name_def)
  then have "uint (of_nat (length c) :: u8) = int (length c)" by (simp add: unsigned_of_nat take_bit_nat_eq_self)
  then show ?thesis using lint_elem(2,3) [OF m j] lint_str_image [OF m n e(3)] e(1,2) by (simp add: check_name_def)
qed

subsection \<open>The checks pass\<close>

lemma brief_sanity_image:
  assumes p: "placed s xs names ds M" and n: "placed_names nms names" and g: "graph_names s xs \<subseteq> set nms" and m: "md_of s xs names ds M m"
  shows "k \<le> length xs \<Longrightarrow> brief_sanity_from m (node_off (gs_mem s) xs k) False = Inr ()"
proof (induction "length xs - k" arbitrary: k)
  case 0
  then have k: "k = length xs" by simp
  have "lint_tag m (int (node_off (gs_mem s) xs k)) = Inr MDET_LIST_END"
    using lint_elem(1) [OF m, of "node_off (gs_mem s) xs k"] image_list_end [OF p] k by simp
  then show ?case by (simp add: brief_sanity_from.simps)
next
  case (Suc d)
  then have k: "k < length xs" by simp
  let ?E = "elems_of s xs names ds M" and ?o = "node_off (gs_mem s) xs k" and ?ps = "props_of (gs_mem s) (xs ! k)"
  have next_ok: "brief_sanity_from m (node_off (gs_mem s) xs (Suc k)) False = Inr ()" by (rule Suc.hyps(1)) (use Suc in auto)
  have nx: "node_off (gs_mem s) xs (Suc k) = ?o + Suc (Suc (length ?ps))" by (simp add: node_off_Suc [OF k] node_len_def)
  have le: "?o + Suc (Suc (length ?ps)) < length ?E"
    using node_off_le [of "Suc k" "length xs" xs "gs_mem s"] k image_list_end(2) [OF p] nx by simp
  have gn: "node_names (the (gs_mem s (xs ! k))) \<subseteq> set nms" using g nth_mem [OF k] by (auto simp: graph_names_def)
  have props: "brief_sanity_from m (?o + Suc i) True = Inr ()" if "i \<le> length ?ps" for i
    using that
  proof (induction "length ?ps - i" arbitrary: i)
    case 0
    then have i: "i = length ?ps" by simp
    have "lint_tag m (int (?o + Suc i)) = Inr MDET_NODE_END" using lint_elem(1) [OF m, of "?o + Suc i"] image_tags(4) [OF p k] le i by simp
    then show ?case using next_ok nx i by (subst brief_sanity_from.simps) (simp add: md_tags)
  next
    case (Suc d')
    then have i: "i < length ?ps" by simp
    have j: "?o + Suc i < length ?E" using le i by simp
    note tag = lint_elem(1) [OF m j] image_tags(3) [OF p k i]
    obtain nd where nd: "gs_mem s (xs ! k) = Some nd" using placed_node [OF p k] by metis
    have "pe_namep (?ps ! i) \<in> node_names (the (gs_mem s (xs ! k)))"
      using nth_mem [OF i] nd by (auto simp: node_names_def props_of_def)
    then have cn: "check_name m (int (?o + Suc i)) r = r" for r :: "unit hv"
      using check_name_image [OF m n j image_prop(6,5) [OF p k i]] gn by blast
    have "brief_sanity_from m (?o + Suc (Suc i)) True = Inr ()" by (rule Suc.hyps(1)) (use Suc in auto)
    then show ?case using tag cn by (subst brief_sanity_from.simps) (auto simp: md_tags)
  qed
  have j: "?o < length ?E" using le by simp
  note e = image_node [OF p k]
  have "dn_typep (the (gs_mem s (xs ! k))) \<in> set nms" using gn by (auto simp: node_names_def)
  then have cn: "check_name m (int ?o) r = r" for r :: "unit hv"
    by (intro check_name_image [OF m n j]) (simp_all add: e named_elem_def)
  show ?case using lint_elem(1) [OF m j] image_tags(1) [OF p k] cn props [of 0]
    by (subst brief_sanity_from.simps) (simp add: md_tags)
qed

lemma sint_below: "n < 2 ^ 31 \<Longrightarrow> sint (of_nat n :: u32) = int n"
  by (simp add: sint_uint unsigned_of_nat take_bit_nat_eq_self signed_take_bit_int_eq_self)

lemma ucast_of_nat: "n < 2 ^ 31 \<Longrightarrow> ucast (of_nat n :: u64) = (of_nat n :: u32)"
  by (simp add: word_uint_eq_iff unsigned_ucast_eq unsigned_of_nat take_bit_nat_eq_self)

lemma count_image:
  assumes p: "placed s xs names ds M" and m: "md_of s xs names ds M m"
  shows "k \<le> length xs \<Longrightarrow> length xs - k < fuel \<Longrightarrow>
    hloop (md_count_step m) fuel (int (node_off (gs_mem s) xs k), int k) = Inr (int (node_off (gs_mem s) xs (length xs)), int (length xs))"
proof (induction "length xs - k" arbitrary: k fuel)
  case 0
  then obtain f where f: "fuel = Suc f" and k: "k = length xs" by (cases fuel) auto
  have "lint_tag m (int (node_off (gs_mem s) xs k)) = Inr MDET_LIST_END"
    using lint_elem(1) [OF m, of "node_off (gs_mem s) xs k"] image_list_end [OF p] k by simp
  then show ?case by (simp add: f k md_count_step_def)
next
  case (Suc d)
  then have k: "k < length xs" by simp
  obtain f where f: "fuel = Suc f" using Suc.prems(2) by (cases fuel) auto
  let ?o = "node_off (gs_mem s) xs k" and ?n = "node_off (gs_mem s) xs (Suc k)"
  have j: "?o < length (elems_of s xs names ds M)" using node_off_le [of k "length xs" xs "gs_mem s"] k image_list_end(2) [OF p] by simp
  have d: "me_d (elems_of s xs names ds M ! ?o) = of_nat ?n" using image_node [OF p k] by (simp add: named_elem_def)
  have b: "?n < 2 ^ 31" using placed_off(1) [OF p, of "Suc k"] k by simp
  have u: "ucast (of_nat ?n :: u64) = (of_nat ?n :: u32)" using b by (rule ucast_of_nat)
  have "sint (of_nat ?n :: u32) = int ?n" using b by (rule sint_below)
  then have "md_count_step m (int ?o, int k) = Inl (int ?n, int k + 1)"
    using lint_elem(1,4) [OF m j] image_tags(1) [OF p k] d u by (simp add: md_count_step_def md_tags)
  moreover have "hloop (md_count_step m) f (int ?n, int (Suc k)) = Inr (int (node_off (gs_mem s) xs (length xs)), int (length xs))"
    by (rule Suc.hyps(1)) (use Suc f in auto)
  ultimately show ?case by (simp add: f add.commute)
qed

lemma md_init_image:
  assumes p: "placed s xs names ds M" and b: "length (image_of s xs names ds M) < 2 ^ 31"
  shows "\<exists>m. md_init (Some (image_of s xs names ds M)) = Inr (Some m) \<and> md_of s xs names ds M m \<and> lm_node_count m = int (length xs) \<and>
    lm_element_count m = int (length (elems_of s xs names ds M))"
proof -
  let ?bs = "image_of s xs names ds M" and ?es = "elems_of s xs names ds M"
  have l16: "16 * length ?es < 2 ^ 32" using image_list_end(2) [OF p] p by (simp add: placed_def)
  note v = md_view_image [OF l16, of names ds]
  have f: "be_field 0 4 ?bs = MD_TRANSPORT_VERSION" "be_field 4 4 ?bs = (16 * of_nat (length ?es) :: u32)"
    using arg_cong [OF v, of transport_version] arg_cong [OF v, of node_blk_sz] by (simp_all add: md_view_def Let_def)
  have "sint (of_nat (16 * length ?es) :: u32) = int (16 * length ?es)"
    by (rule sint_below) (use image_list_end(2) [OF p] p in \<open>simp add: placed_def\<close>)
  then have nsz: "sint (be_field 4 4 ?bs :: u32) = 16 * int (length ?es)" unfolding f by simp
  define m where "m = \<lparr> lm_caddr = ?bs, lm_mdep = 16, lm_namep = 16 + 16 * int (length ?es), lm_datap = 16 + sint (be_field 8 4 ?bs :: u32) + 16 * int (length ?es),
    lm_node_blk_size = 16 * int (length ?es), lm_name_blk_size = sint (be_field 8 4 ?bs :: u32), lm_data_blk_size = sint (be_field 12 4 ?bs :: u32),
    lm_element_count = 0, lm_node_count = 0 \<rparr>"
  have m: "md_of s xs names ds M m" by (simp add: md_of_def m_def)
  have "length xs \<le> node_off (gs_mem s) xs (length xs)"
  proof -
    have "k \<le> node_off (gs_mem s) xs k" if "k \<le> length xs" for k using that by (induction k) (auto simp: node_off_Suc node_len_def)
    then show ?thesis by blast
  qed
  then have "length xs < length ?bs + 2" unfolding image_length using image_list_end(2) [OF p] by simp
  then have c: "hloop (md_count_step m) (length ?bs + 2) (0, 0) = Inr (int (node_off (gs_mem s) xs (length xs)), int (length xs))"
    using count_image [OF p m, of 0 "length ?bs + 2"] by (simp del: hloop.simps)
  have e: "int (node_off (gs_mem s) xs (length xs)) + 1 = int (length ?es)" using image_list_end(2) [OF p] by simp
  have q: "c_div (16 * int (length ?es)) (int MD_ELEMENT_SIZE) = int (length ?es)" by (simp add: c_div_def MD_ELEMENT_SIZE_def sgn_if)
  have l: "\<not> length ?bs < 16" unfolding image_length by simp
  have "md_init (Some ?bs) = Inr (Some (m\<lparr> lm_element_count := int (length ?es), lm_node_count := int (length xs) \<rparr>))"
    unfolding md_init_def option.case Let_def nsz m_def [symmetric] f(1) if_not_P [OF l] c hbind_Inr prod.case e q by simp
  moreover have "md_of s xs names ds M (m\<lparr> lm_element_count := int (length ?es), lm_node_count := int (length xs) \<rparr>)" using m by (simp add: md_of_def)
  ultimately show ?thesis by auto
qed

text \<open>
  C39. The checker accepts what the compiler writes from names of fewer than 255 bytes: of every such image
  below 2 GB that \<open>mdgen\<close> makes with its optional features off, counting its nodes ends, every name and every
  nesting passes \<open>brief_sanity\<close>, and the tool exits without an error.  A longer name is another matter:
  \<open>output_bin\<close> keeps 8 bits of its length, so that of 256 bytes becomes 0, which the checker refuses.
\<close>

theorem mdlint_accepts_mdgen:
  assumes "mdgen_main opts toks = Inr bs" "\<not> en_lookup opts" "\<not> en_proto opts" "\<not> en_setprop opts"
    and "\<forall>x. T_Token x \<in> set toks \<longrightarrow> good_name x" "length bs < 2 ^ 31"
  shows "\<exists>m. md_init (Some bs) = Inr (Some m) \<and> brief_sanity m = Inr () \<and> 0 < lm_node_count m \<and>
    mdlint_main (\<lambda>_. Some bs) [''md''] = Inr []"
proof -
  obtain s xs s' where c: "compilable s xs" "gs_out s = []" "output_bin s = Inr s'" "bs = gs_out s'" "xs \<noteq> []"
    using mdgen_compilable [OF assms(1-5)] by blast
  obtain names nms ds M where o': "bs = image_of s xs names ds M" "graph_names s xs \<subseteq> set nms" "placed s xs names ds M" "placed_names nms names"
    using output_bin_placed [OF c(1,2)] c(3,4) assms(6) by auto
  obtain m where m: "md_init (Some bs) = Inr (Some m)" "md_of s xs names ds M m" "lm_node_count m = int (length xs)"
    using md_init_image [OF o'(3)] assms(6) unfolding o'(1) by blast
  have "brief_sanity m = Inr ()" using brief_sanity_image [OF o'(3,4,2) m(2), of 0] by (simp add: brief_sanity_def)
  then show ?thesis using m(1,3) c(5) by (simp add: mdlint_main_def md_lint_def)
qed

theorem mdlint_accepts_mdgen_witness:
  "\<exists>m. md_init (Some demo_image) = Inr (Some m) \<and> brief_sanity m = Inr () \<and> 0 < lm_node_count m \<and> mdlint_main (\<lambda>_. Some demo_image) [''md''] = Inr []"
proof -
  have run: "mdgen_main plain_opts demo_toks = Inr demo_image \<and> length demo_image < 1000" by code_simp
  have "\<forall>x. T_Token x \<in> set demo_toks \<longrightarrow> good_name x" by (auto simp: demo_toks_def good_name_def cstring_def)
  with run mdlint_accepts_mdgen [of plain_opts demo_toks demo_image] show ?thesis by (auto simp: plain_opts_def)
qed

subsection \<open>What the checker does not see\<close>

text \<open>A description whose root has an arc that leads behind the end, and one whose only node is its own successor.\<close>

definition stray_image :: "u8 list" where
  "stray_image = bin_image
     [mde_zero\<lparr> me_tag := MDET_NODE, me_namelen := 4, me_d := 3 \<rparr>,
      mde_zero\<lparr> me_tag := MDET_PROP_ARC, me_namelen := 3, me_name := 5, me_d := 7 \<rparr>,
      mde_zero\<lparr> me_tag := MDET_NODE_END \<rparr>, mde_zero\<lparr> me_tag := MDET_LIST_END \<rparr>]
     [cstring ''root'', cstring ''fwd''] []"

definition circular_image :: "u8 list" where
  "circular_image = bin_image
     [mde_zero\<lparr> me_tag := MDET_NODE, me_namelen := 4, me_d := 0 \<rparr>,
      mde_zero\<lparr> me_tag := MDET_NODE_END \<rparr>, mde_zero\<lparr> me_tag := MDET_LIST_END \<rparr>] [cstring ''root''] []"

text \<open>
  The checker does not look at the targets of arcs: it accepts a description whose root has an arc
  to an element behind the end, on which the scanner of the hypervisor reads outside the description.
\<close>

theorem mdlint_misses_arc:
  "mdlint_main (\<lambda>_. Some stray_image) [''md''] = Inr [] \<and>
   hbind (md_find_name_tag (md_view stray_image) ''root'') (\<lambda>root. hbind (md_find_name_tag (md_view stray_image) ''fwd'') (\<lambda>fwd.
     md_find_node_by_arc (md_view stray_image) (Some 0) (MDARC fwd) (MDNODE root))) = Inl Bad_access"
  by code_simp

lemma hloop_stuck: "(\<And>count. f (i, count) = Inl (i, count + 1)) \<Longrightarrow> hloop f fuel (i, count) = Inl Hang" for i count :: int
  by (induction fuel arbitrary: count) simp_all

lemma circular_fields:
  "32 \<le> length circular_image \<and> be_value (take 1 (drop 16 circular_image)) = MDET_NODE \<and>
   be_value (take 8 (drop 24 circular_image)) = (0 :: u64)"
  by code_simp

lemma circular_step:
  assumes "lm_caddr m = circular_image" "lm_mdep m = 16"
  shows "md_count_step m (0, count) = Inl (0, count + 1)"
  using circular_fields assms
  by (simp add: md_count_step_def lint_tag_def lint_d_def lint_field_def lint_bytes_def hguard_def md_tags)

text \<open>
  On the second image \<open>md_init\<close> counts nodes forever, with any fuel.
\<close>

theorem mdlint_hangs:
  "lm_caddr m = circular_image \<Longrightarrow> lm_mdep m = 16 \<Longrightarrow> hloop (md_count_step m) fuel (0, count) = Inl Hang"
  by (rule hloop_stuck) (rule circular_step)

end
