(* ===== verification/Lzw.thy ===== *)
theory Lzw
  imports Prelude
begin

text \<open>
  The compressor of the firmware's drop-ins (\<open>obp/tools/comp.c\<close>, built with \<open>NOMAIN\<close>) and its
  decompressor (\<open>decomp.c\<close>, built with \<open>STANDALONE\<close>): LZW with codes of 9 to 14 bits, a hash
  table of prefix codes and characters on one side and a table of prefixes and suffixes on
  the other.  Both keep static variables from call to call; here they are records.
  Variables of C are mathematical integers: apart from the byte counts, whose wrap-around takes
  2 GB of output, their values are below \<open>2 ^ 31\<close>, and below \<open>2 ^ 15\<close> where C has \<open>short\<close>.
  The destination buffers are large enough.
\<close>

definition HSIZE :: int where "HSIZE = 18013"
definition maxbits :: nat where "maxbits = 14"
definition maxmaxcode :: int where "maxmaxcode = 2 ^ 14"
definition INIT_BITS :: nat where "INIT_BITS = 9"
definition CHECK_GAP :: int where "CHECK_GAP = 10000"
definition ROUNDOUT :: int where "ROUNDOUT = 4"
definition FIRST :: int where "FIRST = 258"
definition END_CODE :: int where "END_CODE = 257"
definition CLEAR_CODE :: int where "CLEAR_CODE = 256"
definition magic_header :: "u8 list" where "magic_header = [0x1f, 0x9e]"

definition MAXCODE :: "nat \<Rightarrow> int" where "MAXCODE n_bits = 2 ^ n_bits - 1"

subsection \<open>The compressor\<close>

record comp_state =
  cs_htab :: "int \<Rightarrow> int"
  cs_codetab :: "int \<Rightarrow> int"
  cs_n_bits :: nat
  cs_maxcode :: int
  cs_free_ent :: int
  cs_in_count :: int
  cs_bytes_out :: int
  cs_alloutbytes :: int
  cs_ratio :: int
  cs_checkpoint :: int
  cs_oldcode :: int
  cs_offset :: int
  cs_out :: "u8 list"

definition comp_putchar :: "int \<Rightarrow> comp_state \<Rightarrow> comp_state" where
  "comp_putchar x s = s\<lparr> cs_out := cs_out s @ [of_int x] \<rparr>"

definition build_hdr :: "comp_state \<Rightarrow> comp_state" where
  "build_hdr s =
     (let s = comp_putchar (uint (magic_header ! 0)) (s\<lparr> cs_alloutbytes := cs_alloutbytes s + 1 \<rparr>);
          s = comp_putchar (uint (magic_header ! 1)) (s\<lparr> cs_alloutbytes := cs_alloutbytes s + 1 \<rparr>)
      in comp_putchar (int maxbits) (s\<lparr> cs_alloutbytes := cs_alloutbytes s + 1 \<rparr>))"

definition initout :: "comp_state \<Rightarrow> comp_state" where
  "initout s = s\<lparr> cs_offset := 0, cs_oldcode := 0, cs_ratio := 0, cs_in_count := 1, cs_bytes_out := 0, cs_checkpoint := CHECK_GAP \<rparr>"

text \<open>The loop of \<open>putcode\<close> puts out at least one byte; \<open>>>\<close> on a negative number is arithmetic.\<close>

function putcode_loop :: "int \<Rightarrow> int \<Rightarrow> comp_state \<Rightarrow> comp_state" where
  "putcode_loop r_code r_off s =
     (let s = (comp_putchar (r_code mod 256) s)\<lparr> cs_alloutbytes := cs_alloutbytes s + 1, cs_bytes_out := cs_bytes_out s + 1 \<rparr>;
          r_code = r_code div 256; r_off = r_off - 8
      in if r_off \<ge> 8 then putcode_loop r_code r_off s else s\<lparr> cs_oldcode := r_code, cs_offset := r_off \<rparr>)"
  by pat_completeness auto
termination by (relation "measure (\<lambda>(r, off, s). nat off)") auto

declare putcode_loop.simps [simp del]

definition putcode :: "int \<Rightarrow> comp_state \<Rightarrow> comp_state" where
  "putcode code s = putcode_loop (code * 2 ^ nat (cs_offset s) + cs_oldcode s) (cs_offset s + int (cs_n_bits s)) s"

text \<open>The count is never negative here, so \<open>mod\<close> is the remainder of C.\<close>

definition endout :: "comp_state \<Rightarrow> comp_state" where
  "endout s =
     (let s = (if cs_offset s \<noteq> 0 then comp_putchar (cs_oldcode s) (s\<lparr> cs_alloutbytes := cs_alloutbytes s + 1 \<rparr>) else s);
          i = cs_alloutbytes s mod ROUNDOUT;
          s = fold (\<lambda>_ s. comp_putchar 0 (s\<lparr> cs_alloutbytes := cs_alloutbytes s + 1 \<rparr>)) [0..<nat i] s
      in s\<lparr> cs_oldcode := 0, cs_offset := 0 \<rparr>)"

text \<open>The table is cleared from its end, 16 entries at a time, and then what is left.\<close>

function cl_hash_loop :: "int \<Rightarrow> int \<Rightarrow> (int \<Rightarrow> int) \<Rightarrow> int \<times> int \<times> (int \<Rightarrow> int)" where
  "cl_hash_loop i p htab =
     (let htab = (\<lambda>j. if p - 16 \<le> j \<and> j < p then - 1 else htab j); p = p - 16; i = i - 16
      in if i \<ge> 0 then cl_hash_loop i p htab else (i, p, htab))"
  by pat_completeness auto
termination by (relation "measure (\<lambda>(i, p, h). nat (i + 16))") auto

declare cl_hash_loop.simps [simp del]

definition cl_hash :: "int \<Rightarrow> comp_state \<Rightarrow> comp_state" where
  "cl_hash hsize s =
     (case cl_hash_loop (hsize - 16) hsize (cs_htab s) of (i, p, htab) \<Rightarrow>
        s\<lparr> cs_htab := \<lambda>j. if p - (i + 16) \<le> j \<and> j < p then - 1 else htab j \<rparr>)"

definition cl_block :: "comp_state \<Rightarrow> comp_state" where
  "cl_block s =
     (let s = s\<lparr> cs_checkpoint := cs_in_count s + CHECK_GAP \<rparr>;
          rat = (if cs_in_count s > 0x7fffff
                 then let rat = cs_bytes_out s div 256 in if rat = 0 then 0x7fffffff else cs_in_count s div rat
                 else cs_in_count s * 256 div cs_bytes_out s)
      in if rat > cs_ratio s then s\<lparr> cs_ratio := rat \<rparr>
         else let s = (cl_hash HSIZE (s\<lparr> cs_ratio := 0 \<rparr>))\<lparr> cs_free_ent := FIRST \<rparr>
              in (putcode CLEAR_CODE s)\<lparr> cs_n_bits := INIT_BITS, cs_maxcode := MAXCODE INIT_BITS \<rparr>)"

text \<open>
  The search in the hash table: the code of the entry found, or the slot for a new entry.
  The probes of the secondary hash take fuel; there are as many as slots.
\<close>

definition hash_shift :: nat where "hash_shift = 6"

definition probe_step :: "comp_state \<Rightarrow> int \<Rightarrow> int \<Rightarrow> int \<Rightarrow> int + (int + int) hv" where
  "probe_step s fcode disp i =
     (let i = i - disp; i = (if i < 0 then i + HSIZE else i)
      in if \<not> (0 \<le> i \<and> i < HSIZE) then Inr (Inl Bad_access)
         else if cs_htab s i = fcode then Inr (Inr (Inl (cs_codetab s i)))
         else if cs_htab s i > 0 then Inl i
         else Inr (Inr (Inr i)))"

definition hash_find :: "comp_state \<Rightarrow> int \<Rightarrow> int \<Rightarrow> int \<Rightarrow> (int + int) hv" where
  "hash_find s fcode c ent =
     (let i = push_bit hash_shift c XOR ent
      in hguard (0 \<le> i \<and> i < HSIZE)
        (if cs_htab s i = fcode then Inr (Inl (cs_codetab s i))
         else if cs_htab s i < 0 then Inr (Inr i)
         else hloop (probe_step s fcode (if i = 0 then 1 else HSIZE - i)) (nat HSIZE) i))"

text \<open>What follows a search that found nothing: the code is put out, and an entry made.\<close>

definition comp_nomatch :: "int \<Rightarrow> int \<Rightarrow> int \<Rightarrow> comp_state \<Rightarrow> comp_state" where
  "comp_nomatch i fcode ent s =
     (let s = putcode ent s;
          s = (if cs_free_ent s > cs_maxcode s
               then let n = cs_n_bits s + 1 in s\<lparr> cs_n_bits := n, cs_maxcode := if n = maxbits then maxmaxcode else MAXCODE n \<rparr>
               else s)
      in if cs_free_ent s < maxmaxcode
         then s\<lparr> cs_codetab := (cs_codetab s)(i := cs_free_ent s), cs_free_ent := cs_free_ent s + 1, cs_htab := (cs_htab s)(i := fcode) \<rparr>
         else if cs_in_count s \<ge> cs_checkpoint s then cl_block s else s)"

fun compress_loop :: "comp_state \<Rightarrow> int \<Rightarrow> u8 list \<Rightarrow> (comp_state \<times> int) hv" where
  "compress_loop s ent [] = Inr (s, ent)"
| "compress_loop s ent (b # bs) =
     (let c = uint b; s = s\<lparr> cs_in_count := cs_in_count s + 1 \<rparr>; fcode = push_bit maxbits c + ent
      in hbind (hash_find s fcode c ent) (\<lambda>r. case r of
           Inl code \<Rightarrow> compress_loop s code bs
         | Inr i \<Rightarrow> compress_loop (comp_nomatch i fcode ent s) c bs))"

definition compress :: "u8 list \<Rightarrow> comp_state \<Rightarrow> comp_state hv" where
  "compress src s =
     (let s = cl_hash HSIZE ((initout s)\<lparr> cs_n_bits := INIT_BITS, cs_maxcode := MAXCODE INIT_BITS, cs_free_ent := FIRST \<rparr>);
          (ent, rest) = (case src of [] \<Rightarrow> (- 1, []) | b # bs \<Rightarrow> (uint b, bs))
      in hbind (compress_loop s ent rest) (\<lambda>(s, ent). Inr (endout (putcode END_CODE (putcode ent s)))))"

text \<open>The state before the first call, and a call: the size it returns, what it writes, and the state it leaves.\<close>

definition comp_static :: comp_state where
  "comp_static = \<lparr> cs_htab = (\<lambda>_. 0), cs_codetab = (\<lambda>_. 0), cs_n_bits = 0, cs_maxcode = 0, cs_free_ent = 0, cs_in_count = 1,
     cs_bytes_out = 0, cs_alloutbytes = 0, cs_ratio = 0, cs_checkpoint = CHECK_GAP, cs_oldcode = 0, cs_offset = 0, cs_out = [] \<rparr>"

definition comp :: "u8 list \<Rightarrow> comp_state \<Rightarrow> (int \<times> u8 list \<times> comp_state) hv" where
  "comp src s = hbind (compress src (build_hdr (s\<lparr> cs_out := [] \<rparr>))) (\<lambda>s. Inr (cs_alloutbytes s, cs_out s, s))"

subsection \<open>The decompressor\<close>

definition DE_STACK_SIZE :: nat where "DE_STACK_SIZE = 8000"

text \<open>\<open>ds_input\<close> is what \<open>getbyte\<close> has left to give. \<open>ds_code\<close> and \<open>ds_prev\<close> are locals.\<close>

record decomp_state =
  ds_input :: "u8 list"
  ds_getcode_offset :: int
  ds_getcode_oldcode :: int
  ds_suffix :: "int \<Rightarrow> u8"
  ds_prefix :: "int \<Rightarrow> int"
  ds_n_bits :: nat
  ds_maxcode :: int
  ds_free_ent :: int
  ds_finchar :: int
  ds_prev :: int
  ds_output :: "u8 list"

definition getbyte :: "decomp_state \<Rightarrow> int \<times> decomp_state" where
  "getbyte d = (case ds_input d of [] \<Rightarrow> (- 1, d) | b # bs \<Rightarrow> (uint b, d\<lparr> ds_input := bs \<rparr>))"

text \<open>The loop of \<open>getcode\<close>: the bits read and their number, \<open>None\<close> at the end of the input.\<close>

fun getcode_loop :: "int \<Rightarrow> int \<Rightarrow> int \<Rightarrow> u8 list \<Rightarrow> (int \<times> int) option \<times> u8 list" where
  "getcode_loop bits code r_off [] = (None, [])"
| "getcode_loop bits code r_off (b # bs) =
     (let code = code + uint b * 2 ^ nat r_off; r_off = r_off + 8
      in if r_off < bits then getcode_loop bits code r_off bs else (Some (code, r_off), bs))"

definition getcode :: "nat \<Rightarrow> decomp_state \<Rightarrow> int \<times> decomp_state" where
  "getcode bits d =
     (case getcode_loop (int bits) (ds_getcode_oldcode d) (ds_getcode_offset d) (ds_input d) of
        (None, rest) \<Rightarrow> (- 1, d\<lparr> ds_input := rest \<rparr>)
      | (Some (code, r_off), rest) \<Rightarrow> (code mod 2 ^ bits, d\<lparr> ds_input := rest, ds_getcode_oldcode := code div 2 ^ bits, ds_getcode_offset := r_off - int bits \<rparr>))"

text \<open>\<open>*stackp++ = c\<close> on the stack of 8000 bytes, the top first.\<close>

definition de_push :: "u8 \<Rightarrow> u8 list \<Rightarrow> u8 list hv" where
  "de_push c stack = hguard (length stack < DE_STACK_SIZE) (Inr (c # stack))"

function de_chain :: "decomp_state \<Rightarrow> int \<Rightarrow> u8 list \<Rightarrow> (int \<times> u8 list) hv" where
  "de_chain d code stack =
     (if code \<ge> 256
      then hguard (code < HSIZE \<and> length stack < DE_STACK_SIZE) (de_chain d (ds_prefix d code) (ds_suffix d code # stack))
      else Inr (code, stack))"
  by pat_completeness auto
termination by (relation "measure (\<lambda>(d, code, stack). DE_STACK_SIZE - length stack)") auto

declare de_chain.simps [simp del]

text \<open>The body of the main loop, from \<open>incode = code\<close> on.\<close>

definition de_string :: "int \<Rightarrow> decomp_state \<Rightarrow> (u8 \<times> u8 list) hv" where
  "de_string code d =
     hbind (if code \<ge> ds_free_ent d then hbind (de_push (of_int (ds_finchar d)) []) (\<lambda>stack. Inr (ds_prev d, stack)) else Inr (code, [])) (\<lambda>(code, stack).
     hbind (de_chain d code stack) (\<lambda>(code, stack).
     hguard (0 \<le> code) (hbind (de_push (ds_suffix d code) stack) (\<lambda>stack. Inr (ds_suffix d code, stack)))))"

definition de_enter :: "decomp_state \<Rightarrow> decomp_state" where
  "de_enter d =
     (if ds_free_ent d < maxmaxcode
      then d\<lparr> ds_prefix := (ds_prefix d)(ds_free_ent d := ds_prev d), ds_suffix := (ds_suffix d)(ds_free_ent d := of_int (ds_finchar d)),
        ds_free_ent := ds_free_ent d + 1 \<rparr>
      else d)"

definition de_widen :: "decomp_state \<Rightarrow> decomp_state" where
  "de_widen d =
     (if ds_free_ent d > ds_maxcode d
      then let n = ds_n_bits d + 1 in d\<lparr> ds_n_bits := n, ds_maxcode := if n = maxbits then maxmaxcode else MAXCODE n \<rparr>
      else d)"

definition de_body :: "int \<Rightarrow> decomp_state \<Rightarrow> decomp_state hv" where
  "de_body code d = hbind (de_string code d) (\<lambda>(fc, stack).
     Inr (de_widen ((de_enter (d\<lparr> ds_finchar := uint fc, ds_output := ds_output d @ stack \<rparr>))\<lparr> ds_prev := code \<rparr>)))"

definition de_clear :: "decomp_state \<Rightarrow> decomp_state" where
  "de_clear d = d\<lparr> ds_prefix := \<lambda>j. if 0 \<le> j \<and> j < 256 then 0 else ds_prefix d j, ds_n_bits := INIT_BITS,
     ds_maxcode := MAXCODE INIT_BITS, ds_free_ent := FIRST - 1 \<rparr>"

lemma getcode_loop_le: "length (snd (getcode_loop n c r bs)) \<le> length bs"
  by (induction n c r bs rule: getcode_loop.induct) (auto simp: Let_def le_SucI)

lemma getcode_loop_less: "fst (getcode_loop n c r bs) \<noteq> None \<Longrightarrow> length (snd (getcode_loop n c r bs)) < length bs"
  by (induction n c r bs rule: getcode_loop.induct) (auto simp: Let_def less_SucI split: if_splits)

lemma getcode_le: "getcode n d = (code, d') \<Longrightarrow> length (ds_input d') \<le> length (ds_input d)"
  using getcode_loop_le [of "int n" "ds_getcode_oldcode d" "ds_getcode_offset d" "ds_input d"]
  by (auto simp: getcode_def split: prod.splits option.splits)

lemma getcode_less: "getcode n d = (code, d') \<Longrightarrow> code \<noteq> - 1 \<Longrightarrow> length (ds_input d') < length (ds_input d)"
  using getcode_loop_less [of "int n" "ds_getcode_oldcode d" "ds_getcode_offset d" "ds_input d"]
  by (auto simp: getcode_def split: prod.splits option.splits)

lemma de_enter_input [simp]: "ds_input (de_enter d) = ds_input d" by (simp add: de_enter_def)
lemma de_widen_input [simp]: "ds_input (de_widen d) = ds_input d" by (simp add: de_widen_def Let_def)
lemma de_clear_input [simp]: "ds_input (de_clear d) = ds_input d" by (simp add: de_clear_def)

lemma de_body_input: "de_body code d = Inr d' \<Longrightarrow> ds_input d' = ds_input d"
  by (auto simp: de_body_def hbind_eq_Inr)

text \<open>The main loop.  What follows a \<open>CLEAR\<close> is treated as a string whatever code it is, \<open>END\<close> included.\<close>

function dec_loop :: "decomp_state \<Rightarrow> decomp_state hv" where
  "dec_loop d =
     (case getcode (ds_n_bits d) d of (code, d) \<Rightarrow>
        if \<not> (code > - 1 \<and> code \<noteq> END_CODE) then Inr d
        else if code = CLEAR_CODE
        then (case getcode INIT_BITS (de_clear d) of (code, d) \<Rightarrow>
                if code = - 1 then Inr d else hbind (de_body code d) dec_loop)
        else hbind (de_body code d) dec_loop)"
  by pat_completeness auto
termination
proof (relation "measure (length \<circ> ds_input)", goal_cases)
  case (2 d code d1 code2 d2 d3)
  then show ?case using getcode_less [of "ds_n_bits d" d code d1] getcode_less [of INIT_BITS "de_clear d1" code2 d2]
    by (auto dest!: de_body_input sym [of "(_, _)"])
next
  case (3 d code d1 d2)
  then show ?case using getcode_less [of "ds_n_bits d" d code d1]
    by (auto dest!: de_body_input sym [of "(_, _)"])
qed auto

declare dec_loop.simps [simp del]

definition decompress :: "u8 list \<Rightarrow> decomp_state \<Rightarrow> decomp_state hv" where
  "decompress src d =
     (let d = d\<lparr> ds_getcode_offset := 0, ds_getcode_oldcode := 0, ds_input := src, ds_output := [] \<rparr>;
          (m0, d) = getbyte d; (m1, d1) = getbyte d
      in hguard (m0 = uint (magic_header ! 0) \<and> m1 = uint (magic_header ! 1))
           (let (b, d) = getbyte d1 in hguard (b = int maxbits)
             (let d = d\<lparr> ds_n_bits := INIT_BITS, ds_maxcode := MAXCODE INIT_BITS,
                    ds_prefix := \<lambda>j. if 0 \<le> j \<and> j < 256 then 0 else ds_prefix d j,
                    ds_suffix := \<lambda>j. if 0 \<le> j \<and> j < 256 then of_int j else ds_suffix d j, ds_free_ent := FIRST \<rparr>;
                  (code, d) = getcode INIT_BITS d; d = d\<lparr> ds_finchar := code, ds_prev := code \<rparr>
              in hguard (code \<noteq> - 1 \<and> code \<noteq> END_CODE)
                   (dec_loop (d\<lparr> ds_output := ds_output d @ [of_int code] \<rparr>)))))"

definition decomp :: "u8 list \<Rightarrow> decomp_state \<Rightarrow> (int \<times> u8 list \<times> decomp_state) hv" where
  "decomp src d = hbind (decompress src d) (\<lambda>d. Inr (int (length (ds_output d)), ds_output d, d))"

definition decomp_static :: decomp_state where
  "decomp_static = \<lparr> ds_input = [], ds_getcode_offset = 0, ds_getcode_oldcode = 0, ds_suffix = (\<lambda>_. 0), ds_prefix = (\<lambda>_. 0),
     ds_n_bits = 0, ds_maxcode = 0, ds_free_ent = 0, ds_finchar = 0, ds_prev = 0, ds_output = [] \<rparr>"

end
