(* ===== verification/Lzw_Stream.thy ===== *)
theory Lzw_Stream
  imports Lzw
begin

text \<open>
  What \<open>comp\<close> writes, \<open>decomp\<close> reads back.  A stream of codes is looked at as one number, its
  first bit the least significant, with the count of its bits: \<open>putcode\<close> multiplies and adds,
  \<open>getcode\<close> takes the remainder and divides.
\<close>

subsection \<open>Bytes as numbers\<close>

primrec lval :: "u8 list \<Rightarrow> int" where
  "lval [] = 0"
| "lval (b # bs) = uint b + 256 * lval bs"

lemma uint_u8_bounds: "0 \<le> uint (b :: u8)" "uint b < 256"
  using uint_bounded [of b] by simp_all

lemma lval_append: "lval (xs @ ys) = lval xs + 2 ^ (8 * length xs) * lval ys"
  by (induction xs) (auto simp: algebra_simps power_add)

lemma lval_nonneg: "0 \<le> lval bs"
  by (induction bs) (auto simp: uint_u8_bounds)

lemma lval_less: "lval bs < 2 ^ (8 * length bs)"
proof (induction bs)
  case (Cons b bs)
  have "uint b + 256 * lval bs < 256 * 2 ^ (8 * length bs)"
    using Cons uint_u8_bounds(2) [of b] by linarith
  then show ?case by (simp add: power_add)
qed simp

lemma div_less_of_less_mult: "(x :: int) < m * k \<Longrightarrow> 0 < m \<Longrightarrow> x div m < k"
proof (rule ccontr)
  assume *: "x < m * k" "0 < m" "\<not> x div m < k"
  then have "m * k \<le> m * (x div m)" by simp
  also have "\<dots> \<le> x" using *(2) pos_mod_sign [of m x] by (simp add: minus_mod_eq_mult_div [symmetric])
  finally show False using *(1) by simp
qed

lemma lval_zeros: "lval (replicate n 0) = 0"
  by (induction n) auto

lemma uint_of_int_u8: "uint (of_int x :: u8) = x mod 256"
  by (simp add: uint_word_of_int)

subsection \<open>The writer\<close>

definition cpos :: "comp_state \<Rightarrow> int" where
  "cpos s = 8 * int (length (cs_out s)) + cs_offset s"

definition cval :: "comp_state \<Rightarrow> int" where
  "cval s = lval (cs_out s) + cs_oldcode s * 2 ^ (8 * length (cs_out s))"

text \<open>The bits not yet written: fewer than 8, and no more than \<open>cs_offset\<close> says.\<close>

definition cwf :: "comp_state \<Rightarrow> bool" where
  "cwf s \<longleftrightarrow> 0 \<le> cs_offset s \<and> cs_offset s < 8 \<and> 0 \<le> cs_oldcode s \<and> cs_oldcode s < 2 ^ nat (cs_offset s)"

definition emits :: "comp_state \<Rightarrow> comp_state \<Rightarrow> int \<Rightarrow> nat \<Rightarrow> bool" where
  "emits s s' w n \<longleftrightarrow> (\<exists>ys. cs_out s' = cs_out s @ ys) \<and> cval s' = cval s + 2 ^ nat (cpos s) * w \<and> cpos s' = cpos s + int n \<and> cwf s'"

lemma emits_trans:
  assumes "emits s t w n" and "emits t u v m" and "cwf s"
  shows "emits s u (w + 2 ^ n * v) (n + m)"
proof -
  have "0 \<le> cpos s" using assms(3) by (simp add: cwf_def cpos_def)
  then have "2 ^ nat (cpos t) = 2 ^ nat (cpos s) * (2 ^ n :: int)"
    using assms(1) by (simp add: emits_def nat_add_distrib power_add)
  then show ?thesis using assms(1,2) by (auto simp: emits_def algebra_simps)
qed

lemma putcode_loop_emits:
  assumes "8 \<le> off" and "0 \<le> r" and "r < 2 ^ nat off"
  shows "let s' = putcode_loop r off s in
    (\<exists>ys. cs_out s' = cs_out s @ ys) \<and> cval s' = lval (cs_out s) + r * 2 ^ (8 * length (cs_out s)) \<and>
    cpos s' = 8 * int (length (cs_out s)) + off \<and> cwf s'"
  using assms
proof (induction r off s rule: putcode_loop.induct)
  case (1 r off s)
  let ?s = "(comp_putchar (r mod 256) s)\<lparr> cs_alloutbytes := cs_alloutbytes s + 1, cs_bytes_out := cs_bytes_out s + 1 \<rparr>"
  have o: "nat off = 8 + nat (off - 8)" using 1(2) by simp
  have "r < 256 * 2 ^ nat (off - 8)" using 1(4) unfolding o power_add by simp
  then have r: "0 \<le> r div 256" "r div 256 < 2 ^ nat (off - 8)" using 1(3) by auto
  have v: "lval (cs_out ?s) + (r div 256) * 2 ^ (8 * length (cs_out ?s)) = lval (cs_out s) + r * 2 ^ (8 * length (cs_out s))"
  proof -
    define x :: int where "x = 2 ^ (8 * length (cs_out s))"
    have "r * x = (r mod 256 + 256 * (r div 256)) * x" by (simp only: mod_mult_div_eq)
    then have "lval (cs_out s) + x * (r mod 256) + (r div 256) * (256 * x) = lval (cs_out s) + r * x"
      by (simp only: distrib_left distrib_right ac_simps)
    moreover have "2 ^ (8 * length (cs_out ?s)) = 256 * x" by (simp add: comp_putchar_def x_def power_add)
    ultimately show ?thesis by (simp add: comp_putchar_def lval_append uint_of_int_u8 x_def [symmetric])
  qed
  show ?case
  proof (cases "off - 8 \<ge> 8")
    case True
    then show ?thesis using 1(1) [OF refl refl refl True] r v
      by (subst putcode_loop.simps) (auto simp add: Let_def comp_putchar_def)
  next
    case False
    then show ?thesis using 1(2) r v
      by (subst putcode_loop.simps) (simp add: Let_def comp_putchar_def cval_def cpos_def cwf_def)
  qed
qed

text \<open>What \<open>putcode\<close> leaves alone.\<close>

lemma putcode_loop_frame [simp]:
  "cs_htab (putcode_loop r off s) = cs_htab s" "cs_codetab (putcode_loop r off s) = cs_codetab s"
  "cs_n_bits (putcode_loop r off s) = cs_n_bits s" "cs_maxcode (putcode_loop r off s) = cs_maxcode s"
  "cs_free_ent (putcode_loop r off s) = cs_free_ent s" "cs_in_count (putcode_loop r off s) = cs_in_count s"
proof (induction r off s rule: putcode_loop.induct)
  case (1 r off s)
  note IH = 1 [OF refl refl refl]
  case 1 show ?case using IH(1) by (subst putcode_loop.simps) (simp add: Let_def comp_putchar_def)
  case 2 show ?case using IH(2) by (subst putcode_loop.simps) (simp add: Let_def comp_putchar_def)
  case 3 show ?case using IH(3) by (subst putcode_loop.simps) (simp add: Let_def comp_putchar_def)
  case 4 show ?case using IH(4) by (subst putcode_loop.simps) (simp add: Let_def comp_putchar_def)
  case 5 show ?case using IH(5) by (subst putcode_loop.simps) (simp add: Let_def comp_putchar_def)
  case 6 show ?case using IH(6) by (subst putcode_loop.simps) (simp add: Let_def comp_putchar_def)
qed

lemma putcode_frame [simp]:
  "cs_htab (putcode c s) = cs_htab s" "cs_codetab (putcode c s) = cs_codetab s"
  "cs_n_bits (putcode c s) = cs_n_bits s" "cs_maxcode (putcode c s) = cs_maxcode s"
  "cs_free_ent (putcode c s) = cs_free_ent s" "cs_in_count (putcode c s) = cs_in_count s"
  by (simp_all add: putcode_def)

lemma putcode_emits:
  assumes "cwf s" and "8 \<le> cs_n_bits s" and "0 \<le> c" and "c < 2 ^ cs_n_bits s"
  shows "emits s (putcode c s) c (cs_n_bits s)"
proof -
  let ?o = "cs_offset s" and ?n = "cs_n_bits s"
  have o: "0 \<le> ?o" and old: "0 \<le> cs_oldcode s" "cs_oldcode s < 2 ^ nat ?o" using assms(1) by (auto simp: cwf_def)
  have "nat (?o + int ?n) = nat ?o + ?n" using o by (simp add: nat_add_distrib)
  have "(c + 1) * 2 ^ nat ?o \<le> 2 ^ ?n * 2 ^ nat ?o" using assms(4) by (intro mult_right_mono) auto
  then have "c * 2 ^ nat ?o + cs_oldcode s < 2 ^ nat (?o + int ?n)"
    using old(2) o by (simp add: nat_add_distrib power_add algebra_simps)
  from putcode_loop_emits [OF _ _ this, of s] show ?thesis
    using assms o old
    by (simp add: putcode_def Let_def emits_def cval_def cpos_def algebra_simps nat_add_distrib nat_mult_distrib power_add)
qed

subsection \<open>The reader\<close>

definition drem :: "decomp_state \<Rightarrow> int" where
  "drem d = ds_getcode_oldcode d + 2 ^ nat (ds_getcode_offset d) * lval (ds_input d)"

definition davail :: "decomp_state \<Rightarrow> int" where
  "davail d = ds_getcode_offset d + 8 * int (length (ds_input d))"

definition dwf :: "decomp_state \<Rightarrow> bool" where
  "dwf d \<longleftrightarrow> 0 \<le> ds_getcode_offset d \<and> ds_getcode_offset d < 8 \<and> 0 \<le> ds_getcode_oldcode d \<and> ds_getcode_oldcode d < 2 ^ nat (ds_getcode_offset d)"

lemma getcode_loop_enough:
  assumes "0 \<le> off" and "off < n" and "n \<le> off + 8 * int (length bs)" and "0 \<le> c" and "c < 2 ^ nat off"
  shows "\<exists>x off' rest. getcode_loop n c off bs = (Some (x, off'), rest) \<and> n \<le> off' \<and> off' < n + 8 \<and> 0 \<le> x \<and> x < 2 ^ nat off' \<and>
    x + 2 ^ nat off' * lval rest = c + 2 ^ nat off * lval bs \<and> off' + 8 * int (length rest) = off + 8 * int (length bs)"
  using assms
proof (induction n c off bs rule: getcode_loop.induct)
  case (2 n c off b bs)
  let ?c = "c + uint b * 2 ^ nat off"
  have p: "(2::int) ^ nat (off + 8) = 256 * 2 ^ nat off" using 2(2) by (simp add: nat_add_distrib power_add)
  have "uint b + 1 \<le> 256" using uint_u8_bounds(2) [of b] by simp
  then have "(uint b + 1) * 2 ^ nat off \<le> 256 * 2 ^ nat off" by (rule mult_right_mono) simp
  then have "?c < 2 ^ nat (off + 8)" using 2(6) unfolding p distrib_right by linarith
  then have c: "0 \<le> ?c" "?c < 2 ^ nat (off + 8)" using 2(5) uint_u8_bounds(1) [of b] by auto
  show ?case
  proof (cases "off + 8 < n")
    case True
    then show ?thesis using 2(1) [OF refl refl True] 2(2-) c
      by (simp add: Let_def p algebra_simps)
  next
    case False
    then show ?thesis using 2(2-) c by (auto simp: Let_def p algebra_simps)
  qed
qed simp

lemma getcode_loop_short:
  assumes "off + 8 * int (length bs) < n"
  shows "fst (getcode_loop n c off bs) = None"
  using assms by (induction n c off bs rule: getcode_loop.induct) (auto simp: Let_def)

lemma getcode_enough:
  assumes "dwf d" and "8 \<le> n" and "int n \<le> davail d"
  shows "\<exists>d'. getcode n d = (drem d mod 2 ^ n, d') \<and> dwf d' \<and> drem d' = drem d div 2 ^ n \<and> davail d' = davail d - int n \<and>
    (\<exists>i o1 c. d' = d\<lparr> ds_input := i, ds_getcode_oldcode := c, ds_getcode_offset := o1 \<rparr>)"
proof -
  obtain x off rest where g: "getcode_loop (int n) (ds_getcode_oldcode d) (ds_getcode_offset d) (ds_input d) = (Some (x, off), rest)"
    and off: "int n \<le> off" "off < int n + 8" and x: "0 \<le> x" "x < 2 ^ nat off"
    and v: "x + 2 ^ nat off * lval rest = drem d" and a: "off + 8 * int (length rest) = davail d"
    using getcode_loop_enough [of "ds_getcode_offset d" "int n" "ds_input d" "ds_getcode_oldcode d"] assms
    by (auto simp: dwf_def davail_def drem_def)
  have o: "nat off = n + nat (off - int n)" using off by simp
  have e: "x + 2 ^ nat off * lval rest = x + 2 ^ n * (2 ^ nat (off - int n) * lval rest)"
    by (subst o) (simp add: power_add)
  have "x mod 2 ^ n = drem d mod 2 ^ n" unfolding v [symmetric] e by simp
  moreover have "x div 2 ^ n + 2 ^ nat (off - int n) * lval rest = drem d div 2 ^ n" unfolding v [symmetric] e by simp
  moreover have "x div 2 ^ n < 2 ^ nat (off - int n)"
    using x unfolding o power_add by (intro div_less_of_less_mult) simp_all
  moreover have "0 \<le> x div 2 ^ n" using x by (simp add: pos_imp_zdiv_nonneg_iff)
  ultimately show ?thesis using g off a
    by (simp add: getcode_def dwf_def drem_def davail_def) blast
qed

end
