(* ===== verification/Lzw_Hash.thy ===== *)
theory Lzw_Hash
  imports Lzw_Stream
begin

text \<open>
  The compressor's dictionary.  A ghost function \<open>T\<close> says which string each code stands for;
  \<open>einv\<close> ties the hash table to it.  The search ends because the table is never full and the
  probes of the secondary hash, a distance relatively prime to its size apart, reach every slot.
\<close>

subsection \<open>The dictionary\<close>

definition vcode :: "int \<Rightarrow> int \<Rightarrow> bool" where
  "vcode f k \<longleftrightarrow> 0 \<le> k \<and> (k < 256 \<or> 258 \<le> k \<and> k < f)"

definition dict :: "(int \<Rightarrow> u8 list) \<Rightarrow> int \<Rightarrow> bool" where
  "dict T f \<longleftrightarrow> (\<forall>k. 0 \<le> k \<longrightarrow> k < 256 \<longrightarrow> T k = [of_int k]) \<and>
     (\<forall>k. 258 \<le> k \<longrightarrow> k < f \<longrightarrow> (\<exists>p c. vcode k p \<and> T k = T p @ [c]))"

definition slot_ok :: "(int \<Rightarrow> u8 list) \<Rightarrow> int \<Rightarrow> int \<Rightarrow> int \<Rightarrow> bool" where
  "slot_ok T f h k \<longleftrightarrow> h < 0 \<or> 258 \<le> k \<and> k < f \<and>
     (\<exists>p c. 0 \<le> c \<and> c < 256 \<and> vcode f p \<and> h = c * 2 ^ 14 + p \<and> T k = T p @ [of_int c])"

definition used_slots :: "comp_state \<Rightarrow> int set" where
  "used_slots s = {i. 0 \<le> i \<and> i < HSIZE \<and> 0 \<le> cs_htab s i}"

definition widths_ok :: "comp_state \<Rightarrow> bool" where
  "widths_ok s \<longleftrightarrow> 9 \<le> cs_n_bits s \<and> cs_n_bits s \<le> 14 \<and> cs_maxcode s = (if cs_n_bits s = 14 then 2 ^ 14 else 2 ^ cs_n_bits s - 1) \<and>
     258 \<le> cs_free_ent s \<and> cs_free_ent s \<le> 2 ^ cs_n_bits s"

definition einv :: "(int \<Rightarrow> u8 list) \<Rightarrow> comp_state \<Rightarrow> bool" where
  "einv T s \<longleftrightarrow> cwf s \<and> widths_ok s \<and> dict T (cs_free_ent s) \<and>
     (\<forall>i. 0 \<le> i \<longrightarrow> i < HSIZE \<longrightarrow> slot_ok T (cs_free_ent s) (cs_htab s i) (cs_codetab s i)) \<and>
     card (used_slots s) \<le> nat (cs_free_ent s - 258)"

lemma vcode_mono: "vcode f k \<Longrightarrow> f \<le> f' \<Longrightarrow> vcode f' k"
  by (auto simp: vcode_def)

lemma vcode_nonneg: "vcode f k \<Longrightarrow> 0 \<le> k"
  by (simp add: vcode_def)

lemma widths_ok_free: "widths_ok s \<Longrightarrow> cs_free_ent s \<le> 2 ^ 14"
  using power_increasing [of "cs_n_bits s" 14 "2::int"] by (auto simp: widths_ok_def)

lemma vcode_less: "vcode f k \<Longrightarrow> 258 \<le> f \<Longrightarrow> f \<le> m \<Longrightarrow> k < m"
  by (auto simp: vcode_def)

lemma dict_byte: "dict T f \<Longrightarrow> 0 \<le> k \<Longrightarrow> k < 256 \<Longrightarrow> T k = [of_int k]"
  by (simp add: dict_def)

lemma dict_nonempty: "dict T f \<Longrightarrow> vcode f k \<Longrightarrow> T k \<noteq> []"
  unfolding dict_def vcode_def by (metis append_is_Nil_conv list.distinct(1))

lemma slot_ok_mono: "slot_ok T f h k \<Longrightarrow> f \<le> f' \<Longrightarrow> slot_ok T f' h k"
  using vcode_mono by (fastforce simp: slot_ok_def)

text \<open>A new entry.\<close>

lemma vcode_upd_same: "vcode f k \<Longrightarrow> 258 \<le> f \<Longrightarrow> (T(f := w)) k = T k"
  by (auto simp: vcode_def)

lemma dict_upd:
  assumes "dict T f" and "258 \<le> f" and "vcode f p"
  shows "dict (T(f := T p @ [c])) (f + 1)"
proof -
  have "\<exists>q d. vcode k q \<and> (T(f := T p @ [c])) k = (T(f := T p @ [c])) q @ [d]" if "258 \<le> k" "k < f + 1" for k
  proof (cases "k = f")
    note k = that
    case True
    then show ?thesis using assms vcode_upd_same [of f p T] by (intro exI [of _ p] exI [of _ c]) simp
  next
    note k = that
    case False
    then have "k < f" using k by simp
    then obtain q d where q: "vcode k q" "T k = T q @ [d]" using assms(1) k(1) unfolding dict_def by meson
    then have "q \<noteq> f" using \<open>k < f\<close> k by (auto simp: vcode_def)
    then show ?thesis using q False by auto
  qed
  then show ?thesis using assms by (auto simp: dict_def)
qed

lemma slot_ok_upd:
  assumes "slot_ok T f h k" and "258 \<le> f"
  shows "slot_ok (T(f := w)) (f + 1) h k"
proof (cases "h < 0")
  case False
  then obtain p c where "258 \<le> k" "k < f" "0 \<le> c" "c < 256" "vcode f p" "h = c * 2 ^ 14 + p" "T k = T p @ [of_int c]"
    using assms by (auto simp: slot_ok_def)
  moreover from this have "(T(f := w)) k = (T(f := w)) p @ [of_int c]" using assms vcode_upd_same [of f p T w] by simp
  moreover have "vcode (f + 1) p" using \<open>vcode f p\<close> by (rule vcode_mono) simp
  ultimately show ?thesis unfolding slot_ok_def by (intro disjI2 conjI exI [of _ p] exI [of _ c]) simp_all
qed (simp add: slot_ok_def)

subsection \<open>The search\<close>

lemma hsize_prime: "\<forall>x\<in>set [2..134]. \<not> x dvd HSIZE"
  by code_simp

lemma hsize_coprime:
  assumes "0 < d" and "d < HSIZE"
  shows "coprime d HSIZE"
proof -
  define g where "g = gcd d HSIZE"
  have g: "g dvd HSIZE" "0 < g" "g \<le> d" using assms by (auto simp: g_def zdvd_imp_le)
  then obtain h where h: "HSIZE = g * h" by (auto elim: dvdE)
  then have "0 < h" using g(2) assms by (simp add: HSIZE_def) (metis zero_less_mult_pos zero_less_numeral)
  have "h \<noteq> 1" using h g(3) assms(2) by auto
  have small: "\<not> (2 \<le> x \<and> x \<le> 134)" if "x dvd HSIZE" for x
  proof
    assume "2 \<le> x \<and> x \<le> 134"
    then have "x \<in> set [2..134]" by (simp only: set_upto atLeastAtMost_iff)
    then show False using hsize_prime that by blast
  qed
  have "g = 1"
  proof (rule ccontr)
    assume "g \<noteq> 1"
    moreover have "h dvd HSIZE" by (subst h) (rule dvd_triv_right)
    ultimately have "135 \<le> g" "135 \<le> h" using small [of g] small [of h] g \<open>0 < h\<close> \<open>h \<noteq> 1\<close> by linarith+
    then have "135 * 135 \<le> g * h" by (intro mult_mono) auto
    then show False using h by (simp add: HSIZE_def)
  qed
  then show ?thesis by (simp add: g_def coprime_iff_gcd_eq_1)
qed

lemma probes_distinct:
  assumes "0 < d" and "d < HSIZE"
  shows "inj_on (\<lambda>k. (i - int k * d) mod HSIZE) {1..nat HSIZE}"
proof (rule inj_onI)
  fix k k' assume k: "k \<in> {1..nat HSIZE}" "k' \<in> {1..nat HSIZE}" and "(i - int k * d) mod HSIZE = (i - int k' * d) mod HSIZE"
  then have "HSIZE dvd (i - int k * d) - (i - int k' * d)" by (simp add: mod_eq_dvd_iff)
  then have "HSIZE dvd (int k' - int k) * d" by (simp add: algebra_simps)
  then have "HSIZE dvd int k' - int k" using hsize_coprime [OF assms] by (simp add: coprime_dvd_mult_left_iff coprime_commute)
  moreover have "\<bar>int k' - int k\<bar> < HSIZE" using k by (auto simp: HSIZE_def)
  ultimately show "k = k'" using dvd_imp_le_int [of "int k' - int k" HSIZE] by (cases "k = k'") (auto simp: HSIZE_def)
qed

lemma probes_all:
  assumes "0 < d" and "d < HSIZE" and "\<forall>k\<in>{1..nat HSIZE}. P ((i - int k * d) mod HSIZE)" and "0 \<le> j" and "j < HSIZE"
  shows "P j"
proof -
  let ?f = "\<lambda>k. (i - int k * d) mod HSIZE"
  have "?f ` {1..nat HSIZE} \<subseteq> {0..<HSIZE}" by (auto simp: HSIZE_def)
  moreover have "card (?f ` {1..nat HSIZE}) = card {0..<HSIZE}"
    using card_image [OF probes_distinct [OF assms(1,2)]] by simp
  ultimately have "?f ` {1..nat HSIZE} = {0..<HSIZE}" by (intro card_subset_eq) auto
  then have "j \<in> ?f ` {1..nat HSIZE}" using assms(4,5) by simp
  then show ?thesis using assms(3) by auto
qed

definition probe_next :: "int \<Rightarrow> int \<Rightarrow> int" where
  "probe_next disp i = (i - disp) mod HSIZE"

lemma probe_step_next:
  assumes "0 < disp" and "disp < HSIZE" and "0 \<le> i" and "i < HSIZE"
  shows "probe_step s fcode disp i = (let i = probe_next disp i in
     if cs_htab s i = fcode then Inr (Inr (Inl (cs_codetab s i))) else if cs_htab s i > 0 then Inl i else Inr (Inr (Inr i)))"
proof -
  have "(if i - disp < 0 then i - disp + HSIZE else i - disp) = probe_next disp i"
    using assms mod_add_self2 [of "i - disp" HSIZE] mod_pos_pos_trivial [of "i - disp + HSIZE" HSIZE]
      mod_pos_pos_trivial [of "i - disp" HSIZE] by (auto simp: probe_next_def)
  moreover have "0 \<le> probe_next disp i" "probe_next disp i < HSIZE" by (simp_all add: probe_next_def HSIZE_def)
  ultimately show ?thesis by (simp add: probe_step_def Let_def)
qed

lemma probe_run:
  assumes "0 < disp" and "disp < HSIZE" and "0 \<le> i" and "i < HSIZE"
  shows "(\<exists>j. 0 \<le> j \<and> j < HSIZE \<and> cs_htab s j = fcode \<and> hloop (probe_step s fcode disp) n i = Inr (Inl (cs_codetab s j))) \<or>
    (\<exists>j. 0 \<le> j \<and> j < HSIZE \<and> cs_htab s j \<le> 0 \<and> hloop (probe_step s fcode disp) n i = Inr (Inr j)) \<or>
    (\<forall>k\<in>{1..n}. 0 < cs_htab s ((i - int k * disp) mod HSIZE))"
  using assms(3,4)
proof (induction n arbitrary: i)
  case (Suc n)
  let ?i = "probe_next disp i"
  have i: "0 \<le> ?i" "?i < HSIZE" by (simp_all add: probe_next_def HSIZE_def)
  have st: "probe_step s fcode disp i = (if cs_htab s ?i = fcode then Inr (Inr (Inl (cs_codetab s ?i)))
      else if cs_htab s ?i > 0 then Inl ?i else Inr (Inr (Inr ?i)))"
    using probe_step_next [OF assms(1,2) Suc.prems] by (simp add: Let_def)
  show ?case
  proof (cases "cs_htab s ?i \<noteq> fcode \<and> 0 < cs_htab s ?i")
    case False
    then show ?thesis using i st by (auto simp del: hloop.simps simp add: hloop.simps)
  next
    case True
    have sh: "(?i - int k * disp) mod HSIZE = (i - int (Suc k) * disp) mod HSIZE" for k
      by (simp add: probe_next_def mod_diff_left_eq algebra_simps)
    have all: "(\<forall>k\<in>{1..Suc n}. P k) \<longleftrightarrow> P 1 \<and> (\<forall>k\<in>{1..n}. P (Suc k))" for P
      by (auto simp: Ball_def) (metis Suc_le_D Suc_le_mono not_less_eq_eq One_nat_def le_antisym)
    have "0 < cs_htab s ((i - int 1 * disp) mod HSIZE)" using True by (simp add: probe_next_def)
    then show ?thesis using Suc.IH [OF i] True st unfolding all sh by simp
  qed
qed simp

lemma slot_unique:
  assumes "c * 2 ^ 14 + p = c' * 2 ^ 14 + (p' :: int)" and "0 \<le> p" "p < 2 ^ 14" "0 \<le> p'" "p' < 2 ^ 14"
  shows "c = c' \<and> p = p'"
proof -
  have "p = (c * 2 ^ 14 + p) mod 2 ^ 14" "p' = (c' * 2 ^ 14 + p') mod 2 ^ 14" using assms(2-) by simp_all
  then have "p = p'" using assms(1) by metis
  then show ?thesis using assms(1) by simp
qed

lemma hash_find_ok:
  assumes inv: "einv T s" and ent: "vcode (cs_free_ent s) ent" and c: "0 \<le> c" "c < 256"
  shows "(\<exists>code. hash_find s (push_bit maxbits c + ent) c ent = Inr (Inl code) \<and> 258 \<le> code \<and> code < cs_free_ent s \<and> T code = T ent @ [of_int c]) \<or>
    (\<exists>i. hash_find s (push_bit maxbits c + ent) c ent = Inr (Inr i) \<and> 0 \<le> i \<and> i < HSIZE)"
proof -
  let ?f = "push_bit maxbits c + ent" and ?i = "push_bit hash_shift c XOR ent"
  have f: "?f = c * 2 ^ 14 + ent" by (simp add: push_bit_eq_mult maxbits_def)
  have fr: "258 \<le> cs_free_ent s" "cs_free_ent s \<le> 2 ^ 14" using inv widths_ok_free by (auto simp: einv_def widths_ok_def)
  then have e: "0 \<le> ent" "ent < 2 ^ 14" using ent vcode_less [OF ent] by (auto simp: vcode_def)
  have p: "0 \<le> push_bit hash_shift c" "push_bit hash_shift c < 2 ^ 14" using c by (simp_all add: push_bit_eq_mult hash_shift_def)
  have i: "0 \<le> ?i" "?i < HSIZE" using XOR_lower [OF p(1) e(1)] XOR_upper [OF p(1) p(2) e(2)] by (simp_all add: HSIZE_def)
  have hit: "258 \<le> cs_codetab s j \<and> cs_codetab s j < cs_free_ent s \<and> T (cs_codetab s j) = T ent @ [of_int c]"
    if j: "0 \<le> j" "j < HSIZE" "cs_htab s j = ?f" for j
  proof -
    have "slot_ok T (cs_free_ent s) ?f (cs_codetab s j)" using inv j by (auto simp: einv_def)
    moreover have "\<not> ?f < 0" unfolding f using c e by simp
    ultimately obtain q d where q: "258 \<le> cs_codetab s j" "cs_codetab s j < cs_free_ent s" "vcode (cs_free_ent s) q"
        "?f = d * 2 ^ 14 + q" "T (cs_codetab s j) = T q @ [of_int d]"
      by (auto simp: slot_ok_def)
    then have "d = c \<and> q = ent" using slot_unique [of c ent d q] e f vcode_nonneg [OF q(3)] vcode_less [OF q(3) fr] by metis
    then show ?thesis using q by simp
  qed
  define disp where "disp = (if ?i = 0 then 1 else HSIZE - ?i)"
  have d: "0 < disp" "disp < HSIZE" using i by (auto simp: disp_def HSIZE_def order_less_le)
  show ?thesis
  proof (cases "cs_htab s ?i = ?f \<or> cs_htab s ?i < 0")
    case True
    then show ?thesis using hit [OF i] i by (auto simp: hash_find_def Let_def)
  next
    case False
    then have h: "hash_find s ?f c ent = hloop (probe_step s ?f disp) (nat HSIZE) ?i"
      using i by (simp add: hash_find_def Let_def disp_def)
    have "\<not> (\<forall>k\<in>{1..nat HSIZE}. 0 < cs_htab s ((?i - int k * disp) mod HSIZE))"
    proof
      assume "\<forall>k\<in>{1..nat HSIZE}. 0 < cs_htab s ((?i - int k * disp) mod HSIZE)"
      then have "used_slots s = {0..<HSIZE}"
        using probes_all [OF d, of "\<lambda>j. 0 < cs_htab s j" ?i] by (auto simp: used_slots_def order_less_imp_le)
      then have "nat HSIZE \<le> nat (cs_free_ent s - 258)" using inv by (simp add: einv_def)
      then show False using fr by (simp add: HSIZE_def)
    qed
    then show ?thesis using probe_run [OF d i, of s ?f "nat HSIZE"] hit unfolding h by auto
  qed
qed

end
