(* ===== verification/Lzw_Sync.thy ===== *)
theory Lzw_Sync
  imports Lzw_Hash
begin

text \<open>
  The compressor and the decompressor in step.  The first part says what the compressor does when
  it puts a code out, the second what the decompressor does with it, and the last that the
  decompressor's tables, one entry behind, hold the same strings.
\<close>

subsection \<open>Clearing the table\<close>

lemma cl_hash_loop_clears:
  "cl_hash_loop i p h = (i', p', h') \<Longrightarrow> p = i + 16 \<Longrightarrow> 0 \<le> i \<Longrightarrow>
     p' = i' + 16 \<and> 0 \<le> p' \<and> p' \<le> p \<and> (\<forall>j. h' j = (if p' \<le> j \<and> j < p then - 1 else h j))"
proof (induction i p h arbitrary: i' p' h' rule: cl_hash_loop.induct)
  case (1 i p h)
  let ?h = "\<lambda>j. if p - 16 \<le> j \<and> j < p then - 1 else h j"
  show ?case
  proof (cases "i - 16 \<ge> 0")
    case True
    with 1(2) have r: "cl_hash_loop (i - 16) (p - 16) ?h = (i', p', h')"
      by (simp add: cl_hash_loop.simps [of i p h] Let_def)
    then have "p' = i' + 16 \<and> 0 \<le> p' \<and> p' \<le> p - 16 \<and> (\<forall>j. h' j = (if p' \<le> j \<and> j < p - 16 then - 1 else ?h j))"
      by (intro 1(1) [OF refl refl refl True]) (use 1(3) True in auto)
    then show ?thesis by auto
  next
    case False
    then show ?thesis using 1(2-) by (subst (asm) cl_hash_loop.simps) (auto simp: Let_def)
  qed
qed

lemma cl_hash_clears:
  assumes "16 \<le> n"
  shows "\<exists>h. cl_hash n s = s\<lparr> cs_htab := h \<rparr> \<and> (\<forall>j. 0 \<le> j \<longrightarrow> j < n \<longrightarrow> h j = - 1)"
proof -
  obtain i p h where l: "cl_hash_loop (n - 16) n (cs_htab s) = (i, p, h)" by (metis prod_cases3)
  from cl_hash_loop_clears [OF this] assms have "p = i + 16" "\<And>j. h j = (if p \<le> j \<and> j < n then - 1 else cs_htab s j)"
    by auto
  then show ?thesis using l by (auto simp: cl_hash_def)
qed

subsection \<open>Putting a code out\<close>

lemma emits_same_out:
  "emits s t w n \<Longrightarrow> cs_out u = cs_out t \<Longrightarrow> cs_offset u = cs_offset t \<Longrightarrow> cs_oldcode u = cs_oldcode t \<Longrightarrow> emits s u w n"
  by (simp add: emits_def cval_def cpos_def cwf_def)

lemma emits_from_same:
  "emits s t w n \<Longrightarrow> cs_out s' = cs_out s \<Longrightarrow> cs_offset s' = cs_offset s \<Longrightarrow> cs_oldcode s' = cs_oldcode s \<Longrightarrow> emits s' t w n"
  by (simp add: emits_def cval_def cpos_def)

text \<open>The width of the next code, as both sides compute it.\<close>

definition wnext :: "int \<Rightarrow> nat \<Rightarrow> int \<Rightarrow> nat \<times> int" where
  "wnext f n m = (if f > m then (n + 1, if n + 1 = maxbits then maxmaxcode else MAXCODE (n + 1)) else (n, m))"

lemma cl_block_cases:
  assumes s: "cwf s" "cs_n_bits s = 14"
  shows "(\<exists>p r. cl_block s = s\<lparr> cs_checkpoint := p, cs_ratio := r \<rparr>) \<or>
    emits s (cl_block s) CLEAR_CODE 14 \<and> cs_free_ent (cl_block s) = 258 \<and> cs_n_bits (cl_block s) = 9 \<and> cs_maxcode (cl_block s) = 511 \<and>
      (\<forall>j. 0 \<le> j \<longrightarrow> j < HSIZE \<longrightarrow> cs_htab (cl_block s) j = - 1)"
proof -
  define s1 where "s1 = s\<lparr> cs_checkpoint := cs_in_count s + CHECK_GAP \<rparr>"
  define rat where "rat = (if cs_in_count s1 > 0x7fffff
                 then let rat = cs_bytes_out s1 div 256 in if rat = 0 then 0x7fffffff else cs_in_count s1 div rat
                 else cs_in_count s1 * 256 div cs_bytes_out s1)"
  have b: "cl_block s = (if rat > cs_ratio s1 then s1\<lparr> cs_ratio := rat \<rparr>
         else (putcode CLEAR_CODE ((cl_hash HSIZE (s1\<lparr> cs_ratio := 0 \<rparr>))\<lparr> cs_free_ent := FIRST \<rparr>))\<lparr> cs_n_bits := INIT_BITS, cs_maxcode := MAXCODE INIT_BITS \<rparr>)"
    unfolding cl_block_def s1_def [symmetric] Let_def rat_def by (simp add: Let_def)
  show ?thesis
  proof (cases "rat > cs_ratio s1")
    case True
    then show ?thesis unfolding b by (auto simp: s1_def)
  next
    case False
    obtain h where h: "cl_hash HSIZE (s1\<lparr> cs_ratio := 0 \<rparr>) = s1\<lparr> cs_ratio := 0, cs_htab := h \<rparr>" "\<And>j. 0 \<le> j \<Longrightarrow> j < HSIZE \<Longrightarrow> h j = - 1"
      using cl_hash_clears [of HSIZE "s1\<lparr> cs_ratio := 0 \<rparr>"] by (auto simp: HSIZE_def)
    let ?t = "s1\<lparr> cs_ratio := 0, cs_htab := h, cs_free_ent := FIRST \<rparr>"
    have bl: "cl_block s = (putcode CLEAR_CODE ?t)\<lparr> cs_n_bits := INIT_BITS, cs_maxcode := MAXCODE INIT_BITS \<rparr>"
      using False h(1) by (simp add: b)
    have t: "cwf ?t" "cs_n_bits ?t = 14" "cs_out s = cs_out ?t" "cs_offset s = cs_offset ?t" "cs_oldcode s = cs_oldcode ?t"
      using s by (simp_all add: s1_def cwf_def)
    have "emits ?t (putcode CLEAR_CODE ?t) CLEAR_CODE 14"
      using putcode_emits [OF t(1), of CLEAR_CODE] t(2) by (simp add: CLEAR_CODE_def)
    then have "emits s (putcode CLEAR_CODE ?t) CLEAR_CODE 14" by (rule emits_from_same) (rule t)+
    then have "emits s (cl_block s) CLEAR_CODE 14" by (rule emits_same_out) (simp_all add: bl)
    moreover have "cs_free_ent (cl_block s) = 258" "cs_n_bits (cl_block s) = 9" "cs_maxcode (cl_block s) = 511"
      by (simp_all add: bl FIRST_def INIT_BITS_def MAXCODE_def)
    moreover have "cs_htab (cl_block s) = h" by (simp add: bl)
    ultimately show ?thesis using h(2) by simp
  qed
qed

lemma einv_fresh:
  assumes "cwf s" "cs_free_ent s = 258" "cs_n_bits s = 9" "cs_maxcode s = 511" "dict T f" "\<And>j. 0 \<le> j \<Longrightarrow> j < HSIZE \<Longrightarrow> cs_htab s j = - 1"
  shows "einv T s"
proof -
  have "used_slots s = {}" using assms(6) by (auto simp: used_slots_def)
  then show ?thesis using assms by (auto simp: einv_def widths_ok_def dict_def slot_ok_def)
qed

lemma finite_used: "finite (used_slots s)"
  by (rule finite_subset [of _ "{0..<HSIZE}"]) (auto simp: used_slots_def)

lemma einv_entry:
  assumes "einv T s" and "vcode (cs_free_ent s) ent" and "0 \<le> c" "c < 256" and "cs_free_ent s < 2 ^ 14"
    and s1: "cwf s1" "cs_htab s1 = (cs_htab s)(i := c * 2 ^ 14 + ent)" "cs_codetab s1 = (cs_codetab s)(i := cs_free_ent s)"
      "cs_free_ent s1 = cs_free_ent s + 1" "(cs_n_bits s1, cs_maxcode s1) = wnext (cs_free_ent s) (cs_n_bits s) (cs_maxcode s)"
  shows "einv (T(cs_free_ent s := T ent @ [of_int c])) s1"
proof -
  let ?f = "cs_free_ent s" and ?T = "T(cs_free_ent s := T ent @ [of_int c])"
  have w: "widths_ok s" "dict T ?f" "card (used_slots s) \<le> nat (?f - 258)" using assms(1) by (auto simp: einv_def)
  then have f: "258 \<le> ?f" by (simp add: widths_ok_def)
  have ne: "cs_n_bits s \<noteq> 14 \<Longrightarrow> cs_n_bits s \<le> 13" using w by (simp add: widths_ok_def)
  have "widths_ok s1"
  proof (cases "?f > cs_maxcode s")
    case True
    then have n: "cs_n_bits s \<le> 13" "?f = 2 ^ cs_n_bits s" using w ne assms(5) by (auto simp: widths_ok_def split: if_splits)
    moreover have "(2::int) ^ cs_n_bits s + 1 \<le> 2 ^ (cs_n_bits s + 1)" by simp
    ultimately show ?thesis using True s1(4,5) w f
      by (auto simp: wnext_def widths_ok_def maxbits_def maxmaxcode_def MAXCODE_def)
  next
    case False
    then show ?thesis using s1(4,5) w f assms(5) by (auto simp: wnext_def widths_ok_def split: if_splits)
  qed
  moreover have "used_slots s1 \<subseteq> insert i (used_slots s)" using s1(2) by (auto simp: used_slots_def)
  then have "card (used_slots s1) \<le> Suc (card (used_slots s))"
    using card_mono [of "insert i (used_slots s)" "used_slots s1"] card_insert_if [OF finite_used, of i s] finite_used
    by (auto split: if_splits)
  moreover have "slot_ok ?T (?f + 1) (cs_htab s1 j) (cs_codetab s1 j)" if "0 \<le> j" "j < HSIZE" for j
  proof (cases "j = i")
    case True
    have "?T ent = T ent" using vcode_upd_same [OF assms(2) f] .
    then show ?thesis using True s1(2,3) f assms(3,4) vcode_mono [OF assms(2), of "?f + 1"]
      unfolding slot_ok_def by (intro disjI2 conjI exI [of _ ent] exI [of _ c]) simp_all
  next
    case False
    then show ?thesis using s1(2,3) assms(1) that slot_ok_upd [OF _ f] by (simp add: einv_def)
  qed
  ultimately show ?thesis using s1(1,4) w f dict_upd [OF w(2) f assms(2)] by (simp add: einv_def)
qed

text \<open>The three ways a search that found nothing can end: with a new entry, with none, or with a cleared table.\<close>

lemma comp_nomatch_cases:
  assumes inv: "einv T s" and ent: "vcode (cs_free_ent s) ent" and c: "0 \<le> c" "c < 256" and i: "0 \<le> i" "i < HSIZE"
  defines "s1 \<equiv> comp_nomatch i (push_bit maxbits c + ent) ent s"
  shows
    "cs_free_ent s < 2 ^ 14 \<and> emits s s1 ent (cs_n_bits s) \<and> einv (T(cs_free_ent s := T ent @ [of_int c])) s1 \<and>
       cs_free_ent s1 = cs_free_ent s + 1 \<and> (cs_n_bits s1, cs_maxcode s1) = wnext (cs_free_ent s) (cs_n_bits s) (cs_maxcode s) \<or>
     cs_free_ent s = 2 ^ 14 \<and> emits s s1 ent 14 \<and> einv T s1 \<and> cs_free_ent s1 = 2 ^ 14 \<and> cs_n_bits s = 14 \<and>
       cs_n_bits s1 = 14 \<and> cs_maxcode s1 = cs_maxcode s \<or>
     cs_free_ent s = 2 ^ 14 \<and> emits s s1 (ent + 2 ^ 14 * CLEAR_CODE) 28 \<and> einv T s1 \<and> cs_n_bits s = 14 \<and>
       cs_free_ent s1 = 258 \<and> cs_n_bits s1 = 9 \<and> cs_maxcode s1 = 511"
proof -
  let ?p = "putcode ent s"
  have w: "widths_ok s" "cwf s" "dict T (cs_free_ent s)" using inv by (auto simp: einv_def)
  have f: "258 \<le> cs_free_ent s" "cs_free_ent s \<le> 2 ^ 14" "cs_free_ent s \<le> 2 ^ cs_n_bits s"
    using w widths_ok_free by (auto simp: widths_ok_def)
  have e: "emits s ?p ent (cs_n_bits s)"
    using putcode_emits [OF w(2), of ent] w(1) vcode_nonneg [OF ent] vcode_less [OF ent f(1,3)] by (simp add: widths_ok_def)
  define s0 where "s0 = (if cs_free_ent ?p > cs_maxcode ?p
               then let n = cs_n_bits ?p + 1 in ?p\<lparr> cs_n_bits := n, cs_maxcode := if n = maxbits then maxmaxcode else MAXCODE n \<rparr>
               else ?p)"
  have s0: "cs_out s0 = cs_out ?p" "cs_offset s0 = cs_offset ?p" "cs_oldcode s0 = cs_oldcode ?p" "cs_htab s0 = cs_htab s"
    "cs_codetab s0 = cs_codetab s" "cs_free_ent s0 = cs_free_ent s" "(cs_n_bits s0, cs_maxcode s0) = wnext (cs_free_ent s) (cs_n_bits s) (cs_maxcode s)"
    by (simp_all add: s0_def wnext_def Let_def)
  have e0: "emits s s0 ent (cs_n_bits s)" by (rule emits_same_out [OF e]) (rule s0)+
  have s1: "s1 = (if cs_free_ent s0 < maxmaxcode
         then s0\<lparr> cs_codetab := (cs_codetab s0)(i := cs_free_ent s0), cs_free_ent := cs_free_ent s0 + 1, cs_htab := (cs_htab s0)(i := push_bit maxbits c + ent) \<rparr>
         else if cs_in_count s0 \<ge> cs_checkpoint s0 then cl_block s0 else s0)"
    unfolding s1_def comp_nomatch_def s0_def [symmetric] Let_def by (simp add: s0_def Let_def)
  show ?thesis
  proof (cases "cs_free_ent s < 2 ^ 14")
    case True
    then have s1': "s1 = s0\<lparr> cs_codetab := (cs_codetab s0)(i := cs_free_ent s0), cs_free_ent := cs_free_ent s0 + 1, cs_htab := (cs_htab s0)(i := push_bit maxbits c + ent) \<rparr>"
      by (simp add: s1 s0 maxmaxcode_def)
    have "emits s s1 ent (cs_n_bits s)" by (rule emits_same_out [OF e0]) (simp_all add: s1')
    moreover from this have "einv (T(cs_free_ent s := T ent @ [of_int c])) s1"
      by (intro einv_entry [OF inv ent c True, of _ i]) (use s0 in \<open>simp_all add: s1' emits_def push_bit_eq_mult maxbits_def\<close>)
    ultimately show ?thesis using True s0 by (simp add: s1')
  next
    case False
    then have f14: "cs_free_ent s = 2 ^ 14" using f by simp
    then have n14: "cs_n_bits s = 14" "cs_maxcode s = 2 ^ 14"
      using w(1) power_increasing_iff [of "2::int" 14 "cs_n_bits s"] by (auto simp: widths_ok_def simp del: power_increasing_iff)
    then have n0: "cs_n_bits s0 = 14" "cs_maxcode s0 = cs_maxcode s" using s0(7) f14 by (simp_all add: wnext_def)
    have c0: "cwf s0" using e0 by (simp add: emits_def)
    have inv0: "einv T s0"
      using inv c0 s0 n0 n14 by (simp add: einv_def widths_ok_def used_slots_def)
    have s1': "s1 = (if cs_in_count s0 \<ge> cs_checkpoint s0 then cl_block s0 else s0)"
      using f14 by (simp add: s1 s0 maxmaxcode_def)
    consider p r where "s1 = s0\<lparr> cs_checkpoint := p, cs_ratio := r \<rparr>"
      | "emits s0 s1 CLEAR_CODE 14" "cs_free_ent s1 = 258" "cs_n_bits s1 = 9" "cs_maxcode s1 = 511"
        "\<forall>j. 0 \<le> j \<longrightarrow> j < HSIZE \<longrightarrow> cs_htab s1 j = - 1"
    proof (cases "cs_in_count s0 \<ge> cs_checkpoint s0")
      case True
      then have "s1 = cl_block s0" by (simp add: s1')
      then show ?thesis using cl_block_cases [OF c0 n0(1)] that by metis
    next
      case False
      then have "s1 = s0\<lparr> cs_checkpoint := cs_checkpoint s0, cs_ratio := cs_ratio s0 \<rparr>" by (simp add: s1')
      then show ?thesis by (rule that(1))
    qed
    then show ?thesis
    proof cases
      case 1
      have "emits s s1 ent 14" by (rule emits_same_out [OF e0 [unfolded n14]]) (simp_all add: 1)
      moreover have "einv T s1" using inv0 by (simp add: 1 einv_def widths_ok_def used_slots_def cwf_def)
      ultimately show ?thesis using f14 n14 n0 s0 by (simp add: 1)
    next
      case 2
      have "emits s s1 (ent + 2 ^ 14 * CLEAR_CODE) (14 + 14)" using emits_trans [OF e0 [unfolded n14] 2(1) w(2)] .
      moreover have "einv T s1" using 2 w(3) by (intro einv_fresh) (auto simp: emits_def)
      ultimately show ?thesis using 2 f14 n14 by simp
    qed
  qed
qed

subsection \<open>Taking a code in\<close>

text \<open>The decompressor's tables hold the strings of the codes below \<open>f\<close>.\<close>

definition suffixes_ok :: "decomp_state \<Rightarrow> bool" where
  "suffixes_ok d \<longleftrightarrow> (\<forall>k. 0 \<le> k \<longrightarrow> k < 256 \<longrightarrow> ds_suffix d k = of_int k)"

definition dtab :: "(int \<Rightarrow> u8 list) \<Rightarrow> decomp_state \<Rightarrow> int \<Rightarrow> bool" where
  "dtab T d f \<longleftrightarrow> suffixes_ok d \<and>
     (\<forall>k. 258 \<le> k \<longrightarrow> k < f \<longrightarrow> vcode k (ds_prefix d k) \<and> T k = T (ds_prefix d k) @ [ds_suffix d k])"

lemma de_chain_ok:
  assumes "dict T f" and "dtab T d f" and "f \<le> 2 ^ 14"
  shows "vcode f k \<Longrightarrow> length stack + length (T k) \<le> DE_STACK_SIZE \<Longrightarrow>
    \<exists>b. de_chain d k stack = Inr (b, tl (T k) @ stack) \<and> 0 \<le> b \<and> b < 256 \<and> T k = of_int b # tl (T k)"
proof (induction "nat k" arbitrary: k stack rule: less_induct)
  case less
  show ?case
  proof (cases "k < 256")
    case True
    then have "T k = [of_int k]" using less.prems assms(1) by (simp add: dict_def vcode_def)
    then show ?thesis using True vcode_nonneg [OF less.prems(1)] by (subst de_chain.simps) simp
  next
    case False
    then have k: "258 \<le> k" "k < f" using less.prems(1) by (auto simp: vcode_def)
    let ?p = "ds_prefix d k" and ?x = "ds_suffix d k"
    have p: "vcode k ?p" "T k = T ?p @ [?x]" using assms(2) k by (auto simp: dtab_def)
    have pf: "vcode f ?p" by (rule vcode_mono [OF p(1)]) (use k in simp)
    have ne: "T ?p \<noteq> []" using assms(1) pf by (rule dict_nonempty)
    have lt: "nat ?p < nat k" using p(1) k by (auto simp: vcode_def)
    have l: "length (?x # stack) + length (T ?p) \<le> DE_STACK_SIZE" using less.prems(2) p(2) by simp
    then have ls: "length stack < DE_STACK_SIZE" by simp
    obtain b where b: "de_chain d ?p (?x # stack) = Inr (b, tl (T ?p) @ ?x # stack)" "0 \<le> b" "b < 256" "T ?p = of_int b # tl (T ?p)"
      using less.hyps [OF lt pf l] by blast
    have "de_chain d k stack = de_chain d ?p (?x # stack)"
      using False k assms(3) ls by (subst de_chain.simps) (simp add: HSIZE_def)
    moreover have "tl (T k) = tl (T ?p) @ [?x]" using p(2) ne by simp
    moreover have "T k = of_int b # tl (T k)" using b(4) p(2) ne by (metis append_Cons list.sel(3))
    ultimately show ?thesis using b by auto
  qed
qed

lemma de_string_known:
  assumes "dict T f" and "dtab T d f" and "f \<le> 2 ^ 14" and "ds_free_ent d = f" and "vcode f k" and "258 \<le> f" and "length (T k) \<le> DE_STACK_SIZE"
  shows "de_string k d = Inr (hd (T k), T k)"
proof -
  have k: "\<not> k \<ge> ds_free_ent d" using vcode_less [OF assms(5,6) order_refl] assms(4) by simp
  obtain b where b: "de_chain d k [] = Inr (b, tl (T k))" "0 \<le> b" "b < 256" "T k = of_int b # tl (T k)"
    using de_chain_ok [OF assms(1-3,5), of "[]"] assms(7) by auto
  have "ds_suffix d b = of_int b" using assms(2) b by (simp add: dtab_def suffixes_ok_def)
  moreover have "length (tl (T k)) < DE_STACK_SIZE" using assms(7) b(4) by (metis Suc_le_eq length_Cons)
  moreover have "hd (T k) = of_int b" by (subst b(4)) simp
  ultimately show ?thesis using b k by (simp add: de_string_def de_push_def)
qed

text \<open>The case of a code the decompressor has no entry for yet.\<close>

lemma de_string_next:
  assumes "dict T f" and "dtab T d f" and "f \<le> 2 ^ 14" and "ds_free_ent d = f" and "vcode f (ds_prev d)"
    and "T f = T (ds_prev d) @ [hd (T (ds_prev d))]" and "ds_finchar d = uint (hd (T (ds_prev d)))" and "length (T f) \<le> DE_STACK_SIZE"
  shows "de_string f d = Inr (hd (T f), T f)"
proof -
  let ?p = "ds_prev d" and ?x = "hd (T (ds_prev d))"
  have ne: "T ?p \<noteq> []" using assms(1,5) by (rule dict_nonempty)
  have l: "length [?x] + length (T ?p) \<le> DE_STACK_SIZE" using assms(6,8) by simp
  obtain b where b: "de_chain d ?p [?x] = Inr (b, tl (T ?p) @ [?x])" "0 \<le> b" "b < 256" "T ?p = of_int b # tl (T ?p)"
    using de_chain_ok [OF assms(1-3,5) l] by auto
  have "ds_suffix d b = of_int b" using assms(2) b by (simp add: dtab_def suffixes_ok_def)
  moreover have "length (tl (T ?p) @ [?x]) < DE_STACK_SIZE" using l ne by (cases "T ?p") auto
  moreover have "?x = of_int b" by (subst b(4)) simp
  moreover have "of_int (ds_finchar d) = ?x" using assms(7) by simp
  moreover have "T f = of_int b # tl (T ?p) @ [?x]" using b(4) assms(6) by (metis append_Cons)
  ultimately show ?thesis using b assms(4) by (simp add: de_string_def de_push_def DE_STACK_SIZE_def)
qed

text \<open>
  The decompressor waits for its first code, for the one that follows a \<open>CLEAR\<close>, or in its
  main loop.
\<close>

datatype dmode = Start | Cleared | Running

fun resume :: "dmode \<Rightarrow> decomp_state \<Rightarrow> decomp_state hv" where
  "resume Start d =
     (let (code, d) = getcode INIT_BITS d; d = d\<lparr> ds_finchar := code, ds_prev := code \<rparr>
      in hguard (code \<noteq> - 1 \<and> code \<noteq> END_CODE) (dec_loop (d\<lparr> ds_output := ds_output d @ [of_int code] \<rparr>)))"
| "resume Cleared d = (case getcode INIT_BITS d of (code, d) \<Rightarrow> if code = - 1 then Inr d else hbind (de_body code d) dec_loop)"
| "resume Running d = dec_loop d"

fun dsync :: "dmode \<Rightarrow> (int \<Rightarrow> u8 list) \<Rightarrow> comp_state \<Rightarrow> int \<Rightarrow> decomp_state \<Rightarrow> bool" where
  "dsync Start T s ent d \<longleftrightarrow> dwf d \<and> suffixes_ok d \<and> ds_n_bits d = 9 \<and> ds_maxcode d = 511 \<and> ds_free_ent d = 258 \<and>
     cs_n_bits s = 9 \<and> cs_maxcode s = 511 \<and> cs_free_ent s = 258"
| "dsync Cleared T s ent d \<longleftrightarrow> dwf d \<and> suffixes_ok d \<and> ds_n_bits d = 9 \<and> ds_maxcode d = 511 \<and> ds_free_ent d = 257 \<and>
     cs_n_bits s = 9 \<and> cs_maxcode s = 511 \<and> cs_free_ent s = 258"
| "dsync Running T s ent d \<longleftrightarrow> dwf d \<and> ds_n_bits d = cs_n_bits s \<and> ds_maxcode d = cs_maxcode s \<and> dtab T d (ds_free_ent d) \<and>
     (ds_free_ent d = cs_free_ent s - 1 \<and> 258 \<le> ds_free_ent d \<and> vcode (ds_free_ent d) (ds_prev d) \<and>
        T (ds_free_ent d) = T (ds_prev d) @ [hd (T ent)] \<and> ds_finchar d = uint (hd (T (ds_prev d))) \<or>
      cs_free_ent s = 2 ^ 14 \<and> ds_free_ent d = 2 ^ 14)"

text \<open>The decompressor has taken in \<open>ent\<close>, which the compressor has put out in the state \<open>s\<close>.\<close>

definition dafter :: "(int \<Rightarrow> u8 list) \<Rightarrow> comp_state \<Rightarrow> int \<Rightarrow> decomp_state \<Rightarrow> bool" where
  "dafter T s ent d \<longleftrightarrow> dwf d \<and> dtab T d (cs_free_ent s) \<and> ds_free_ent d = cs_free_ent s \<and> ds_prev d = ent \<and> ds_finchar d = uint (hd (T ent)) \<and>
     (ds_n_bits d, ds_maxcode d) = wnext (cs_free_ent s) (cs_n_bits s) (cs_maxcode s)"

lemma de_body_ok:
  assumes "de_string ent d = Inr (hd (T ent), T ent)"
  shows "\<exists>d'. de_body ent d = Inr d' \<and> ds_output d' = ds_output d @ T ent \<and> ds_prev d' = ent \<and> ds_finchar d' = uint (hd (T ent)) \<and>
    (ds_n_bits d', ds_maxcode d') = wnext (ds_free_ent d') (ds_n_bits d) (ds_maxcode d) \<and>
    drem d' = drem d \<and> davail d' = davail d \<and> dwf d' = dwf d \<and>
    (if ds_free_ent d < 2 ^ 14
     then ds_free_ent d' = ds_free_ent d + 1 \<and> ds_prefix d' = (ds_prefix d)(ds_free_ent d := ds_prev d) \<and>
       ds_suffix d' = (ds_suffix d)(ds_free_ent d := hd (T ent))
     else ds_free_ent d' = ds_free_ent d \<and> ds_prefix d' = ds_prefix d \<and> ds_suffix d' = ds_suffix d)"
  using assms by (simp add: de_body_def de_enter_def de_widen_def Let_def drem_def davail_def dwf_def wnext_def maxmaxcode_def)

end
