(* ===== verification/Lzw_Main.thy ===== *)
theory Lzw_Main
  imports Lzw_Sync
begin

text \<open>
  The round trip: the decompressor gives back what the compressor was given, whatever either
  was used for before.  Then two things that do not hold: the compressor's size is that of its own
  output only on its first call, and the decompressor is not safe on a stream that no compressor wrote.
\<close>

lemma getcode_first:
  assumes "dwf d" and "8 \<le> n" and "int n \<le> davail d" and "drem d = c + 2 ^ n * w" and "0 \<le> c" and "c < 2 ^ n"
  obtains i o1 c1 d' where "getcode n d = (c, d')" "d' = d\<lparr> ds_input := i, ds_getcode_oldcode := c1, ds_getcode_offset := o1 \<rparr>"
    "dwf d'" "drem d' = w" "davail d' = davail d - int n"
proof -
  have "drem d mod 2 ^ n = c" "drem d div 2 ^ n = w" using assms(4-) by auto
  then show ?thesis using getcode_enough [OF assms(1-3)] that by metis
qed

lemma dtab_bytes: "suffixes_ok d \<Longrightarrow> dtab T d 258"
  by (simp add: dtab_def)

lemma suffixes_upd: "suffixes_ok d \<Longrightarrow> 256 \<le> f \<Longrightarrow> ds_suffix d' = (ds_suffix d)(f := x) \<Longrightarrow> suffixes_ok d'"
  by (simp add: suffixes_ok_def)

lemma dtab_step:
  assumes "dtab T d f" and "258 \<le> f" and "vcode f p" and "T f = T p @ [x]"
    and "ds_prefix d' = (ds_prefix d)(f := p)" and "ds_suffix d' = (ds_suffix d)(f := x)"
  shows "dtab T d' (f + 1)"
  using assms by (auto simp: dtab_def suffixes_ok_def)

text \<open>The decompressor takes in the code of a string, whichever of the three ways it waits for it.\<close>

lemma resume_takes:
  assumes inv: "einv T s" and ent: "vcode (cs_free_ent s) ent" and len: "length (T ent) \<le> DE_STACK_SIZE"
    and sync: "dsync m T s ent d" and r: "drem d = ent + 2 ^ cs_n_bits s * w" and a: "int (cs_n_bits s) \<le> davail d"
  shows "\<exists>d1. resume m d = dec_loop d1 \<and> drem d1 = w \<and> davail d1 = davail d - int (cs_n_bits s) \<and>
    ds_output d1 = ds_output d @ T ent \<and> dafter T s ent d1"
proof -
  let ?f = "cs_free_ent s" and ?n = "cs_n_bits s"
  have w: "widths_ok s" "dict T ?f" using inv by (auto simp: einv_def)
  have f: "258 \<le> ?f" "?f \<le> 2 ^ 14" "?f \<le> 2 ^ ?n" "8 \<le> ?n" using w widths_ok_free by (auto simp: widths_ok_def)
  have e: "0 \<le> ent" "ent < 2 ^ ?n" using vcode_nonneg [OF ent] vcode_less [OF ent f(1,3)] by auto
  have dw: "dwf d" using sync by (cases m) auto
  obtain i o1 c1 d0 where g: "getcode ?n d = (ent, d0)" and d0: "d0 = d\<lparr> ds_input := i, ds_getcode_oldcode := c1, ds_getcode_offset := o1 \<rparr>"
    "dwf d0" "drem d0 = w" "davail d0 = davail d - int ?n"
    by (rule getcode_first [OF dw f(4) a r e])
  have byte: "T ent = [of_int ent]" "ent < 256" if "?f = 258"
    using ent w(2) that by (auto simp: vcode_def dict_def)
  show ?thesis
  proof (cases m)
    case Start
    with sync have s: "suffixes_ok d" "ds_n_bits d = 9" "ds_maxcode d = 511" "ds_free_ent d = 258" "?n = 9" "cs_maxcode s = 511" "?f = 258" by auto
    note b = byte [OF s(7)]
    let ?d = "d0\<lparr> ds_finchar := ent, ds_prev := ent, ds_output := ds_output d0 @ [of_int ent] \<rparr>"
    have "resume m d = dec_loop ?d"
      using g e b s by (simp add: Start INIT_BITS_def END_CODE_def)
    moreover have "dafter T s ent ?d"
      using d0 s b e by (simp add: dafter_def dwf_def dtab_def suffixes_ok_def wnext_def uint_of_int_u8)
    ultimately show ?thesis using d0 b by (intro exI [of _ ?d]) (simp add: drem_def davail_def)
  next
    case Cleared
    with sync have s: "suffixes_ok d" "ds_n_bits d = 9" "ds_maxcode d = 511" "ds_free_ent d = 257" "?n = 9" "cs_maxcode s = 511" "?f = 258" by auto
    note b = byte [OF s(7)]
    have "ds_suffix d0 ent = of_int ent" "ds_free_ent d0 = 257" using s(1,4) b e d0(1) by (simp_all add: suffixes_ok_def)
    moreover have "de_chain d0 ent [] = Inr (ent, [])" using b(2) by (subst de_chain.simps) simp
    ultimately have st: "de_string ent d0 = Inr (hd (T ent), T ent)"
      using b e by (simp add: de_string_def de_push_def DE_STACK_SIZE_def)
    obtain d1 where d1: "de_body ent d0 = Inr d1" "ds_output d1 = ds_output d0 @ T ent" "ds_prev d1 = ent" "ds_finchar d1 = uint (hd (T ent))"
      "(ds_n_bits d1, ds_maxcode d1) = wnext (ds_free_ent d1) (ds_n_bits d0) (ds_maxcode d0)"
      "drem d1 = drem d0" "davail d1 = davail d0" "dwf d1 = dwf d0"
      "(if ds_free_ent d0 < 2 ^ 14
     then ds_free_ent d1 = ds_free_ent d0 + 1 \<and> ds_prefix d1 = (ds_prefix d0)(ds_free_ent d0 := ds_prev d0) \<and>
       ds_suffix d1 = (ds_suffix d0)(ds_free_ent d0 := hd (T ent))
     else ds_free_ent d1 = ds_free_ent d0 \<and> ds_prefix d1 = ds_prefix d0 \<and> ds_suffix d1 = ds_suffix d0)"
      using de_body_ok [where T = T, OF st] by (elim exE conjE) (rule that)
    have f0: "ds_free_ent d0 = 257" using s(4) d0(1) by simp
    then have d19: "ds_free_ent d1 = 258" "ds_suffix d1 = (ds_suffix d0)(257 := hd (T ent))" using d1(9) by simp_all
    have "resume m d = dec_loop d1" using g s e d1(1) by (simp add: Cleared INIT_BITS_def)
    moreover have "suffixes_ok d0" using s(1) d0(1) by (simp add: suffixes_ok_def)
    then have "suffixes_ok d1" by (rule suffixes_upd [OF _ _ d19(2)]) simp
    moreover have "dwf d1" "wnext 258 9 511 = (ds_n_bits d1, ds_maxcode d1)" using d1(5,8) d0(1,2) d19(1) s by simp_all
    ultimately show ?thesis using d1(1-4,6,7) d0 d19(1) s by (intro exI [of _ d1]) (simp add: dafter_def dtab_bytes)
  next
    case Running
    with sync have s: "ds_n_bits d = ?n" "ds_maxcode d = cs_maxcode s" "dtab T d (ds_free_ent d)"
      and alt: "ds_free_ent d = ?f - 1 \<and> 258 \<le> ds_free_ent d \<and> vcode (ds_free_ent d) (ds_prev d) \<and>
        T (ds_free_ent d) = T (ds_prev d) @ [hd (T ent)] \<and> ds_finchar d = uint (hd (T (ds_prev d))) \<or>
      ?f = 2 ^ 14 \<and> ds_free_ent d = 2 ^ 14"
      by auto
    have t0: "dtab T d0 (ds_free_ent d)" using s(3) d0(1) by (simp add: dtab_def suffixes_ok_def)
    have dl: "dict T g" if "g \<le> ?f" for g using w(2) that by (auto simp: dict_def)
    have ne: "T ent \<noteq> []" using w(2) ent by (rule dict_nonempty)
    have st: "de_string ent d0 = Inr (hd (T ent), T ent)"
    proof (cases "vcode (ds_free_ent d) ent")
      case True
      show ?thesis
        by (rule de_string_known [OF dl t0]) (use alt f True len d0(1) in auto)
    next
      case False
      with alt ent have k: "ds_free_ent d = ?f - 1" "ent = ds_free_ent d" "vcode (ds_free_ent d) (ds_prev d)"
        "T (ds_free_ent d) = T (ds_prev d) @ [hd (T ent)]" "ds_finchar d = uint (hd (T (ds_prev d)))"
        by (auto simp: vcode_def)
      have "T (ds_prev d) \<noteq> []" using dl [of "ds_free_ent d"] k by (intro dict_nonempty) auto
      then have "hd (T ent) = hd (T (ds_prev d))" using k(2,4) by (metis hd_append2)
      then show ?thesis
        using de_string_next [OF dl t0, of] k f len d0(1) by simp
    qed
    have nc: "ent \<noteq> CLEAR_CODE" "ent \<noteq> END_CODE" using ent by (auto simp: vcode_def CLEAR_CODE_def END_CODE_def)
    obtain d1 where d1: "de_body ent d0 = Inr d1" "ds_output d1 = ds_output d0 @ T ent" "ds_prev d1 = ent" "ds_finchar d1 = uint (hd (T ent))"
      "(ds_n_bits d1, ds_maxcode d1) = wnext (ds_free_ent d1) (ds_n_bits d0) (ds_maxcode d0)"
      "drem d1 = drem d0" "davail d1 = davail d0" "dwf d1 = dwf d0"
      "(if ds_free_ent d0 < 2 ^ 14
     then ds_free_ent d1 = ds_free_ent d0 + 1 \<and> ds_prefix d1 = (ds_prefix d0)(ds_free_ent d0 := ds_prev d0) \<and>
       ds_suffix d1 = (ds_suffix d0)(ds_free_ent d0 := hd (T ent))
     else ds_free_ent d1 = ds_free_ent d0 \<and> ds_prefix d1 = ds_prefix d0 \<and> ds_suffix d1 = ds_suffix d0)"
      using de_body_ok [where T = T, OF st] by (elim exE conjE) (rule that)
    have "resume m d = dec_loop d1"
      using g s e nc d1(1) by (subst Running) (simp add: dec_loop.simps [of d])
    moreover have "ds_free_ent d1 = ?f \<and> dtab T d1 ?f"
    proof (cases "ds_free_ent d < 2 ^ 14")
      case True
      then have k: "ds_free_ent d = ?f - 1" "258 \<le> ds_free_ent d" "vcode (ds_free_ent d) (ds_prev d)"
        "T (ds_free_ent d) = T (ds_prev d) @ [hd (T ent)]" using alt by auto
      show ?thesis using dtab_step [OF t0 k(2-4), of d1] d1(9) True k(1) d0(1) by simp
    next
      case False
      then show ?thesis using alt f d1(9) t0 d0(1) by (auto simp: dtab_def suffixes_ok_def)
    qed
    ultimately show ?thesis using d1 d0 s by (intro exI [of _ d1]) (simp add: dafter_def)
  qed
qed

text \<open>The codes \<open>END\<close> and \<open>CLEAR\<close>.\<close>

lemma dec_loop_end:
  assumes "dwf d" and "9 \<le> ds_n_bits d" and "drem d = END_CODE + 2 ^ ds_n_bits d * g"
  shows "\<exists>d'. dec_loop d = Inr d' \<and> ds_output d' = ds_output d"
proof (cases "int (ds_n_bits d) \<le> davail d")
  case True
  have lt: "END_CODE < 2 ^ ds_n_bits d" using assms(2) power_increasing [of 9 "ds_n_bits d" "2::int"] by (simp add: END_CODE_def)
  obtain i o1 c d' where "getcode (ds_n_bits d) d = (END_CODE, d')" "d' = d\<lparr> ds_input := i, ds_getcode_oldcode := c, ds_getcode_offset := o1 \<rparr>"
    by (rule getcode_first [OF assms(1) _ True, of END_CODE g]) (use assms lt in \<open>simp_all add: END_CODE_def\<close>)
  then show ?thesis by (simp add: dec_loop.simps [of d])
next
  case False
  then have "fst (getcode_loop (int (ds_n_bits d)) (ds_getcode_oldcode d) (ds_getcode_offset d) (ds_input d)) = None"
    by (intro getcode_loop_short) (simp add: davail_def)
  then obtain i where "getcode (ds_n_bits d) d = (- 1, d\<lparr> ds_input := i \<rparr>)"
    by (cases "getcode_loop (int (ds_n_bits d)) (ds_getcode_oldcode d) (ds_getcode_offset d) (ds_input d)") (auto simp: getcode_def)
  then show ?thesis by (simp add: dec_loop.simps [of d])
qed

lemma dec_loop_clear:
  assumes "dwf d" and "ds_n_bits d = 14" and "drem d = CLEAR_CODE + 2 ^ 14 * w" and "14 \<le> davail d" and "suffixes_ok d"
    and "cs_free_ent s = 258" "cs_n_bits s = 9" "cs_maxcode s = 511"
  shows "\<exists>d'. dec_loop d = resume Cleared d' \<and> dsync Cleared T s ent d' \<and> drem d' = w \<and> davail d' = davail d - 14 \<and> ds_output d' = ds_output d"
proof -
  obtain i o1 c d' where g: "getcode 14 d = (CLEAR_CODE, d')" and d': "d' = d\<lparr> ds_input := i, ds_getcode_oldcode := c, ds_getcode_offset := o1 \<rparr>"
    "dwf d'" "drem d' = w" "davail d' = davail d - 14"
    by (rule getcode_first [OF assms(1) _ _ assms(3)]) (use assms(4) in \<open>simp_all add: CLEAR_CODE_def\<close>)
  have "dec_loop d = resume Cleared (de_clear d')"
    using g assms(2) by (subst dec_loop.simps) (simp add: CLEAR_CODE_def END_CODE_def)
  moreover have "dsync Cleared T s ent (de_clear d')"
  proof -
    have "dwf (de_clear d') = dwf d'" by (simp add: de_clear_def dwf_def)
    moreover have "suffixes_ok (de_clear d')" using assms(5) d'(1) by (simp add: de_clear_def suffixes_ok_def)
    ultimately show ?thesis using d'(2) assms(6-) by (simp add: de_clear_def INIT_BITS_def MAXCODE_def FIRST_def)
  qed
  moreover have "drem (de_clear d') = w" "davail (de_clear d') = davail d - 14"
    using d'(3,4) by (simp_all add: de_clear_def drem_def davail_def)
  moreover have "ds_output (de_clear d') = ds_output d" using d'(1) by (simp add: de_clear_def)
  ultimately show ?thesis by blast
qed


subsection \<open>The whole run\<close>

lemma hd_snoc: "w \<noteq> [] \<Longrightarrow> hd (w @ [x]) = hd w"
  by (cases w) auto

text \<open>Reading on in the hash table keeps the two sides in step; before the first entry nothing is found.\<close>

lemma dsync_grow:
  assumes "dsync m T s ent d" and "T ent \<noteq> []" and "T code = T ent @ [b]" and "258 \<le> code" and "code < cs_free_ent s"
  shows "dsync m T s code d"
  using assms by (cases m) (auto simp: hd_snoc)

text \<open>After a code put out, the decompressor is in step again.\<close>

lemma dafter_entry:
  assumes a: "dafter T s ent d" and inv: "einv T s" and ent: "vcode (cs_free_ent s) ent" and c: "0 \<le> c" "c < 256"
    and s1: "cs_free_ent s1 = cs_free_ent s + 1" "(cs_n_bits s1, cs_maxcode s1) = wnext (cs_free_ent s) (cs_n_bits s) (cs_maxcode s)"
  shows "dsync Running (T(cs_free_ent s := T ent @ [of_int c])) s1 c d"
proof -
  let ?f = "cs_free_ent s" and ?T = "T(cs_free_ent s := T ent @ [of_int c])"
  have f: "258 \<le> ?f" and dict: "dict T ?f" using inv by (auto simp: einv_def widths_ok_def)
  have d: "dtab T d ?f" "dwf d" "ds_free_ent d = ?f" "ds_prev d = ent" "ds_finchar d = uint (hd (T ent))"
    "ds_n_bits d = cs_n_bits s1" "ds_maxcode d = cs_maxcode s1"
    using a s1(2) [symmetric] by (auto simp: dafter_def)
  have "dtab ?T d ?f"
  proof -
    have "vcode k (ds_prefix d k) \<and> ?T k = ?T (ds_prefix d k) @ [ds_suffix d k]" if "258 \<le> k" "k < ?f" for k
    proof -
      have "vcode k (ds_prefix d k)" "T k = T (ds_prefix d k) @ [ds_suffix d k]" using d(1) that by (auto simp: dtab_def)
      then show ?thesis using vcode_upd_same [of ?f "ds_prefix d k" T] vcode_mono [of k "ds_prefix d k" ?f] that f by auto
    qed
    then show ?thesis using d(1) by (simp add: dtab_def)
  qed
  moreover have "?T ent = T ent" using vcode_upd_same [OF ent f] .
  moreover have "?T c = [of_int c]" using dict_byte [OF dict c] c f by simp
  ultimately show ?thesis using d s1(1) f ent by simp
qed

lemma dafter_full:
  assumes "dafter T s ent d" and "cs_free_ent s = 2 ^ 14" and "cs_n_bits s = 14" and "widths_ok s"
    and "cs_free_ent s1 = 2 ^ 14" "cs_n_bits s1 = 14" "cs_maxcode s1 = cs_maxcode s"
  shows "dsync Running T s1 c d"
  using assms by (simp add: dafter_def wnext_def widths_ok_def)

text \<open>
  The stack of the decompressor suffices.  A string in the dictionary of length \<open>l\<close> takes
  \<open>l (l - 1) / 2\<close> bytes of input before it.
\<close>

definition budget :: "(int \<Rightarrow> u8 list) \<Rightarrow> int \<Rightarrow> nat \<Rightarrow> bool" where
  "budget T f n \<longleftrightarrow> (\<forall>k. vcode f k \<longrightarrow> length (T k) * (length (T k) - 1) \<le> 2 * n)"

lemma budget_stack:
  assumes "budget T f n" and "vcode f k" and "n + length (T k) \<le> 32012000"
  shows "length (T k) \<le> DE_STACK_SIZE"
proof (rule ccontr)
  let ?l = "length (T k)"
  assume "\<not> ?l \<le> DE_STACK_SIZE"
  then have l: "8001 \<le> ?l" by (simp add: DE_STACK_SIZE_def)
  have "?l * (?l - 1) \<le> 2 * n" using assms(1,2) by (simp add: budget_def)
  then have "?l * (?l - 1) + 2 * ?l \<le> 64024000" using assms(3) by simp
  moreover have "8001 * 8000 \<le> ?l * (?l - 1)" using l by (intro mult_mono) auto
  ultimately show False using l by simp
qed

lemma budget_entry:
  assumes "budget T f n" and "vcode f p" and "258 \<le> f"
  shows "budget (T(f := T p @ [c])) (f + 1) (n + length (T p))"
proof -
  let ?l = "length (T p)"
  have "?l * (?l - 1) \<le> 2 * n" using assms by (simp add: budget_def)
  then have "(?l + 1) * ?l \<le> 2 * (n + ?l)" by (cases ?l) simp_all
  moreover have "vcode f k" if "vcode (f + 1) k" "k \<noteq> f" for k using that by (auto simp: vcode_def)
  moreover from this assms(1) have "length (T k) * (length (T k) - 1) \<le> 2 * (n + ?l)" if "vcode (f + 1) k" "k \<noteq> f" for k
    using that unfolding budget_def by (meson le_add1 le_trans mult_le_mono2)
  ultimately show ?thesis unfolding budget_def by simp
qed

lemma budget_mono: "budget T f n \<Longrightarrow> n \<le> n' \<Longrightarrow> f' \<le> f \<Longrightarrow> budget T f' n'"
  unfolding budget_def by (meson le_trans mult_le_mono2 vcode_mono)

definition comp_finish :: "comp_state \<times> int \<Rightarrow> comp_state hv" where
  "comp_finish = (\<lambda>(s, ent). Inr (putcode END_CODE (putcode ent s)))"

text \<open>
  \<open>reads_back\<close>: whichever way the decompressor waits, the \<open>n\<close> bits \<open>w\<close>, and a zero bit, make it put out
  \<open>bs\<close> and end, whatever follows.  The bits end with \<open>END\<close>, so they are not all zero.
\<close>

definition reads_back :: "(int \<Rightarrow> u8 list) \<Rightarrow> comp_state \<Rightarrow> int \<Rightarrow> int \<Rightarrow> nat \<Rightarrow> u8 list \<Rightarrow> bool" where
  "reads_back T s ent w n bs \<longleftrightarrow> 2 ^ n \<le> 64 * w \<and>
     (\<forall>m d g. dsync m T s ent d \<longrightarrow> drem d = w + 2 ^ (n + 1) * g \<longrightarrow> int n \<le> davail d \<longrightarrow>
       (\<exists>d'. resume m d = Inr d' \<and> ds_output d' = ds_output d @ bs))"

lemma reads_backD:
  "reads_back T s ent w n bs \<Longrightarrow> dsync m T s ent d \<Longrightarrow> drem d = w + 2 ^ (n + 1) * g \<Longrightarrow> int n \<le> davail d \<Longrightarrow>
     \<exists>d'. resume m d = Inr d' \<and> ds_output d' = ds_output d @ bs"
  by (simp add: reads_back_def)

lemma reads_backI:
  "2 ^ n \<le> 64 * w \<Longrightarrow>
   (\<And>m d g. dsync m T s ent d \<Longrightarrow> drem d = w + 2 ^ (n + 1) * g \<Longrightarrow> int n \<le> davail d \<Longrightarrow>
     \<exists>d'. resume m d = Inr d' \<and> ds_output d' = ds_output d @ bs) \<Longrightarrow> reads_back T s ent w n bs"
  by (simp add: reads_back_def)

lemma finish_reads_back:
  assumes inv: "einv T s" and ent: "vcode (cs_free_ent s) ent" and len: "length (T ent) \<le> DE_STACK_SIZE"
  shows "\<exists>s' w n. comp_finish (s, ent) = Inr s' \<and> emits s s' w n \<and> reads_back T s ent w n (T ent)"
proof -
  let ?n = "cs_n_bits s"
  have w: "widths_ok s" "cwf s" using inv by (auto simp: einv_def)
  then have n: "9 \<le> ?n" and f: "258 \<le> cs_free_ent s" "cs_free_ent s \<le> 2 ^ ?n" by (auto simp: widths_ok_def)
  have e: "emits s (putcode ent s) ent ?n"
    using putcode_emits [OF w(2), of ent] n vcode_nonneg [OF ent] vcode_less [OF ent f] by simp
  have "emits (putcode ent s) (putcode END_CODE (putcode ent s)) END_CODE ?n"
    using putcode_emits [of "putcode ent s" END_CODE] e n f by (simp add: emits_def END_CODE_def)
  from emits_trans [OF e this w(2)]
  have em: "emits s (putcode END_CODE (putcode ent s)) (ent + 2 ^ ?n * END_CODE) (?n + ?n)" .
  have "reads_back T s ent (ent + 2 ^ ?n * END_CODE) (?n + ?n) (T ent)"
  proof (rule reads_backI)
    have "(2::int) ^ ?n \<le> 2 ^ 14" using w(1) by (intro power_increasing) (auto simp: widths_ok_def)
    then have "2 ^ ?n * 2 ^ ?n \<le> 2 ^ 14 * (2 ^ ?n :: int)" by (rule mult_right_mono) simp
    also have "\<dots> \<le> 64 * (ent + 2 ^ ?n * END_CODE)" using vcode_nonneg [OF ent] by (simp add: END_CODE_def)
    finally show "2 ^ (?n + ?n) \<le> 64 * (ent + 2 ^ ?n * END_CODE)" by (simp only: power_add)
  next
    fix m d g assume d: "dsync m T s ent d" "drem d = ent + 2 ^ ?n * END_CODE + 2 ^ (?n + ?n + 1) * g" "int (?n + ?n) \<le> davail d"
    have "drem d = ent + 2 ^ ?n * (END_CODE + 2 ^ (?n + 1) * g)" using d(2) by (simp add: power_add algebra_simps)
    then obtain d1 where d1: "resume m d = dec_loop d1" "drem d1 = END_CODE + 2 ^ (?n + 1) * g" "ds_output d1 = ds_output d @ T ent" "dafter T s ent d1"
      using resume_takes [OF inv ent len d(1)] d(3) by fastforce
    have "ds_n_bits d1 = ?n \<or> ds_n_bits d1 = ?n + 1" using d1(4) by (auto simp: dafter_def wnext_def split: if_splits)
    then obtain h where "drem d1 = END_CODE + 2 ^ ds_n_bits d1 * h" "9 \<le> ds_n_bits d1" using d1(2) n by (auto simp: mult.assoc)
    then show "\<exists>d'. resume m d = Inr d' \<and> ds_output d' = ds_output d @ T ent"
      using dec_loop_end [of d1] d1 by (auto simp: dafter_def)
  qed
  with em show ?thesis by (simp add: comp_finish_def) blast
qed

lemma reads_back_weight: "reads_back T s ent w n bs \<Longrightarrow> 2 ^ (k + n) \<le> 64 * (2 ^ k * w)"
  using mult_left_mono [of "2 ^ n" "64 * w" "2 ^ k :: int"] by (simp add: reads_back_def power_add mult.left_commute)

text \<open>One code put out in front of what reads back.\<close>

lemma reads_back_entry:
  assumes inv: "einv T s" and ent: "vcode (cs_free_ent s) ent" and len: "length (T ent) \<le> DE_STACK_SIZE"
    and next_sync: "\<And>d. dafter T s ent d \<Longrightarrow> dsync Running T' s1 c d" and rb: "reads_back T' s1 c w n bs"
  shows "reads_back T s ent (ent + 2 ^ cs_n_bits s * w) (cs_n_bits s + n) (T ent @ bs)"
proof (rule reads_backI)
  show "2 ^ (cs_n_bits s + n) \<le> 64 * (ent + 2 ^ cs_n_bits s * w)"
    using reads_back_weight [OF rb, of "cs_n_bits s"] vcode_nonneg [OF ent] by simp
next
  fix m d g assume d: "dsync m T s ent d" "drem d = ent + 2 ^ cs_n_bits s * w + 2 ^ (cs_n_bits s + n + 1) * g" "int (cs_n_bits s + n) \<le> davail d"
  have "drem d = ent + 2 ^ cs_n_bits s * (w + 2 ^ (n + 1) * g)" using d(2) by (simp add: power_add algebra_simps)
  then obtain d1 where d1: "resume m d = dec_loop d1" "drem d1 = w + 2 ^ (n + 1) * g" "davail d1 = davail d - int (cs_n_bits s)"
    "ds_output d1 = ds_output d @ T ent" "dafter T s ent d1"
    using resume_takes [OF inv ent len d(1)] d(3) by fastforce
  have "int n \<le> davail d1" using d(3) d1(3) by simp
  then show "\<exists>d'. resume m d = Inr d' \<and> ds_output d' = ds_output d @ T ent @ bs"
    using reads_backD [OF rb next_sync [OF d1(5)] d1(2)] d1(1,4) by simp
qed

lemma reads_back_clear:
  assumes inv: "einv T s" and ent: "vcode (cs_free_ent s) ent" and len: "length (T ent) \<le> DE_STACK_SIZE"
    and s: "cs_free_ent s = 2 ^ 14" "cs_n_bits s = 14" and s1: "cs_free_ent s1 = 258" "cs_n_bits s1 = 9" "cs_maxcode s1 = 511"
    and rb: "reads_back T s1 c w n bs"
  shows "reads_back T s ent (ent + 2 ^ 14 * (CLEAR_CODE + 2 ^ 14 * w)) (28 + n) (T ent @ bs)"
proof (rule reads_backI)
  show "2 ^ (28 + n) \<le> 64 * (ent + 2 ^ 14 * (CLEAR_CODE + 2 ^ 14 * w))"
    using reads_back_weight [OF rb, of 28] vcode_nonneg [OF ent] by (simp add: CLEAR_CODE_def)
next
  fix m d g assume d: "dsync m T s ent d" "drem d = ent + 2 ^ 14 * (CLEAR_CODE + 2 ^ 14 * w) + 2 ^ (28 + n + 1) * g" "int (28 + n) \<le> davail d"
  have "drem d = ent + 2 ^ cs_n_bits s * (CLEAR_CODE + 2 ^ 14 * (w + 2 ^ (n + 1) * g))" using d(2) s(2) by (simp add: power_add algebra_simps)
  then obtain d1 where d1: "resume m d = dec_loop d1" "drem d1 = CLEAR_CODE + 2 ^ 14 * (w + 2 ^ (n + 1) * g)" "davail d1 = davail d - 14"
    "ds_output d1 = ds_output d @ T ent" "dafter T s ent d1"
    using resume_takes [OF inv ent len d(1)] d(3) s(2) by fastforce
  have "ds_n_bits d1 = 14" using d1(5) s inv by (auto simp: dafter_def wnext_def einv_def widths_ok_def split: if_splits)
  then obtain d2 where d2: "dec_loop d1 = resume Cleared d2" "dsync Cleared T s1 c d2" "drem d2 = w + 2 ^ (n + 1) * g" "davail d2 = davail d1 - 14"
    "ds_output d2 = ds_output d1"
    using dec_loop_clear [OF _ _ d1(2) _ _ s1, of T c] d1 d(3) by (auto simp: dafter_def dtab_def)
  have "int n \<le> davail d2" using d(3) d1(3) d2(4) by simp
  then show "\<exists>d'. resume m d = Inr d' \<and> ds_output d' = ds_output d @ T ent @ bs"
    using reads_backD [OF rb d2(2,3)] d1(1,4) d2(1,5) by simp
qed


lemma comp_finish_bind: "hbind (compress_loop s ent []) comp_finish = comp_finish (s, ent)"
  by simp

lemma compress_loop_step:
  "hbind (compress_loop s ent (b # bs)) comp_finish =
     (let s = s\<lparr> cs_in_count := cs_in_count s + 1 \<rparr>
      in hbind (hash_find s (push_bit maxbits (uint b) + ent) (uint b) ent) (\<lambda>r. case r of
           Inl code \<Rightarrow> hbind (compress_loop s code bs) comp_finish
         | Inr i \<Rightarrow> hbind (compress_loop (comp_nomatch i (push_bit maxbits (uint b) + ent) ent s) (uint b) bs) comp_finish))"
  by (simp add: Let_def hbind_assoc) (auto intro!: hbind_cong split: sum.splits)

lemma in_count_same [simp]:
  "einv T (s\<lparr> cs_in_count := n \<rparr>) = einv T s" "dsync m T (s\<lparr> cs_in_count := n \<rparr>) ent d = dsync m T s ent d"
  "emits (s\<lparr> cs_in_count := n \<rparr>) s' w k = emits s s' w k"
  by (simp_all add: einv_def widths_ok_def used_slots_def cwf_def emits_def cval_def cpos_def) (cases m; simp)

lemma reads_back_in_count [simp]: "reads_back T (s\<lparr> cs_in_count := i \<rparr>) ent w n bs = reads_back T s ent w n bs"
  by (simp add: reads_back_def)

lemma compress_reads_back:
  assumes "einv T s" and "vcode (cs_free_ent s) ent" and "budget T (cs_free_ent s) e" and "e + length (T ent) + length bs \<le> 32012000"
  shows "\<exists>s' w n. hbind (compress_loop s ent bs) comp_finish = Inr s' \<and> emits s s' w n \<and> reads_back T s ent w n (T ent @ bs)"
  using assms
proof (induction bs arbitrary: T s ent e)
  case Nil
  have "length (T ent) \<le> DE_STACK_SIZE" by (rule budget_stack [OF Nil(3,2)]) (use Nil(4) in simp)
  then show ?case using finish_reads_back [OF Nil(1,2)] by (simp del: compress_loop.simps add: comp_finish_bind)
next
  case (Cons b bs)
  let ?c = "uint b"
  define t where "t = s\<lparr> cs_in_count := cs_in_count s + 1 \<rparr>"
  have t12: "cs_free_ent t = cs_free_ent s" "einv T t" using Cons.prems(1) by (simp_all add: t_def)
  then have t: "cs_free_ent t = cs_free_ent s" "einv T t" "cwf t" "widths_ok t" "dict T (cs_free_ent t)" by (auto simp: einv_def)
  have ent: "vcode (cs_free_ent t) ent" using Cons.prems(2) t(1) by simp
  have f: "258 \<le> cs_free_ent t" using t(4) by (simp add: widths_ok_def)
  have c: "0 \<le> ?c" "?c < 256" by (rule uint_u8_bounds)+
  have len: "length (T ent) \<le> DE_STACK_SIZE" by (rule budget_stack [OF Cons.prems(3,2)]) (use Cons.prems(4) in simp)
  have inc: "emits s s' w n = emits t s' w n" "reads_back T s ent w n x = reads_back T t ent w n x" for s' w n x
    by (simp_all add: t_def)
  from hash_find_ok [OF t(2) ent c] show ?case
  proof (elim disjE exE conjE)
    fix code assume h: "hash_find t (push_bit maxbits ?c + ent) ?c ent = Inr (Inl code)" "258 \<le> code" "code < cs_free_ent t"
      "T code = T ent @ [word_of_int ?c]"
    have v: "vcode (cs_free_ent t) code" using h by (simp add: vcode_def)
    have b: "budget T (cs_free_ent t) e" using Cons.prems(3) t(1) by simp
    have l: "e + length (T code) + length bs \<le> 32012000" using h(4) Cons.prems(4) by simp
    obtain s' w n where r: "hbind (compress_loop t code bs) comp_finish = Inr s'" "emits t s' w n" "reads_back T t code w n (T code @ bs)"
      using Cons.IH [OF t(2) v b l] by blast
    have "reads_back T t ent w n (T ent @ b # bs)"
      using r(3) dsync_grow [of _ T t ent _ code, OF _ dict_nonempty [OF t(5) ent] h(4,2,3)] h(4) by (simp add: reads_back_def)
    then show ?thesis using r h(1) unfolding inc compress_loop_step t_def [symmetric] by (auto simp: Let_def)
  next
    fix i assume h: "hash_find t (push_bit maxbits ?c + ent) ?c ent = Inr (Inr i)" "0 \<le> i" "i < HSIZE"
    let ?s1 = "comp_nomatch i (push_bit maxbits ?c + ent) ent t"
    have st: "hbind (compress_loop s ent (b # bs)) comp_finish = hbind (compress_loop ?s1 ?c bs) comp_finish"
      unfolding compress_loop_step t_def [symmetric] by (simp add: h(1))
    have vc: "vcode g ?c" for g using c by (simp add: vcode_def)
    have l: "e + length (T ent) + length [b] + length bs \<le> 32012000" using Cons.prems(4) by simp
    have bT: "budget T (cs_free_ent t) (e + length (T ent))" "budget T 258 (e + length (T ent))"
      using Cons.prems(3) t(1) f by (auto intro: budget_mono)
    have Tc: "T ?c = [b]" using dict_byte [OF t(5) c] by simp
    from comp_nomatch_cases [OF t(2) ent c h(2,3)] show ?thesis
    proof (elim disjE conjE)
      let ?T = "T(cs_free_ent t := T ent @ [word_of_int ?c])"
      assume n: "cs_free_ent t < 2 ^ 14" "emits t ?s1 ent (cs_n_bits t)" "einv ?T ?s1" "cs_free_ent ?s1 = cs_free_ent t + 1"
        "(cs_n_bits ?s1, cs_maxcode ?s1) = wnext (cs_free_ent t) (cs_n_bits t) (cs_maxcode t)"
      have bd: "budget ?T (cs_free_ent ?s1) (e + length (T ent))"
        unfolding n(4) by (rule budget_entry) (use Cons.prems(3) t(1) ent f in simp_all)
      have Tc': "?T ?c = [b]" using Tc c f by simp
      obtain s' w k where r: "hbind (compress_loop ?s1 ?c bs) comp_finish = Inr s'" "emits ?s1 s' w k" "reads_back ?T ?s1 ?c w k (?T ?c @ bs)"
        using Cons.IH [OF n(3) vc bd] l Tc' by fastforce
      have "reads_back T t ent (ent + 2 ^ cs_n_bits t * w) (cs_n_bits t + k) (T ent @ ?T ?c @ bs)"
        by (rule reads_back_entry [OF t(2) ent len dafter_entry [OF _ t(2) ent c n(4,5)] r(3)])
      then show ?thesis using r(1) emits_trans [OF n(2) r(2) t(3)] unfolding inc st Tc' by auto
    next
      assume n: "cs_free_ent t = 2 ^ 14" "emits t ?s1 ent 14" "einv T ?s1" "cs_free_ent ?s1 = 2 ^ 14" "cs_n_bits t = 14"
        "cs_n_bits ?s1 = 14" "cs_maxcode ?s1 = cs_maxcode t"
      have bd: "budget T (cs_free_ent ?s1) (e + length (T ent))" using bT n by simp
      obtain s' w k where r: "hbind (compress_loop ?s1 ?c bs) comp_finish = Inr s'" "emits ?s1 s' w k" "reads_back T ?s1 ?c w k (T ?c @ bs)"
        using Cons.IH [OF n(3) vc bd] l Tc by fastforce
      have "reads_back T t ent (ent + 2 ^ cs_n_bits t * w) (cs_n_bits t + k) (T ent @ T ?c @ bs)"
        by (rule reads_back_entry [OF t(2) ent len dafter_full [OF _ n(1,5) t(4) n(4,6,7)] r(3)])
      then show ?thesis using r(1) emits_trans [OF n(2) r(2) t(3)] n(5) unfolding inc st Tc by auto
    next
      assume n: "cs_free_ent t = 2 ^ 14" "emits t ?s1 (ent + 2 ^ 14 * CLEAR_CODE) 28" "einv T ?s1" "cs_n_bits t = 14"
        "cs_free_ent ?s1 = 258" "cs_n_bits ?s1 = 9" "cs_maxcode ?s1 = 511"
      have bd: "budget T (cs_free_ent ?s1) (e + length (T ent))" using bT n by simp
      obtain s' w k where r: "hbind (compress_loop ?s1 ?c bs) comp_finish = Inr s'" "emits ?s1 s' w k" "reads_back T ?s1 ?c w k (T ?c @ bs)"
        using Cons.IH [OF n(3) vc bd] l Tc by fastforce
      have "reads_back T t ent (ent + 2 ^ 14 * (CLEAR_CODE + 2 ^ 14 * w)) (28 + k) (T ent @ T ?c @ bs)"
        by (rule reads_back_clear [OF t(2) ent len n(1,4,5,6,7) r(3)])
      moreover have "ent + 2 ^ 14 * (CLEAR_CODE + 2 ^ 14 * w) = ent + 2 ^ 14 * CLEAR_CODE + 2 ^ 28 * w" by simp
      ultimately show ?thesis using r(1) emits_trans [OF n(2) r(2) t(3)] unfolding inc st Tc by (auto simp: add.assoc)
    qed
  qed
qed


subsection \<open>A file\<close>

lemma fold_zeros:
  "fold (\<lambda>_ s. s\<lparr> cs_alloutbytes := cs_alloutbytes s + 1, cs_out := cs_out s @ [0] \<rparr>) xs s =
     s\<lparr> cs_alloutbytes := cs_alloutbytes s + int (length xs), cs_out := cs_out s @ replicate (length xs) 0 \<rparr>"
  by (induction xs arbitrary: s) simp_all

lemma endout_value:
  assumes "cwf s"
  shows "\<exists>ys. cs_out (endout s) = cs_out s @ ys" and "lval (cs_out (endout s)) = cval s" and "cpos s \<le> 8 * int (length (cs_out (endout s)))"
proof -
  have o: "0 \<le> cs_offset s" "cs_offset s < 8" "0 \<le> cs_oldcode s" "cs_oldcode s < 2 ^ nat (cs_offset s)" using assms by (auto simp: cwf_def)
  have "(2::int) ^ nat (cs_offset s) \<le> 2 ^ 8" using o by (intro power_increasing) auto
  then have c: "cs_oldcode s < 256" using o(4) by simp
  define ys where "ys = (if cs_offset s \<noteq> 0 then [word_of_int (cs_oldcode s)] else [] :: u8 list)"
  obtain k where k: "cs_out (endout s) = cs_out s @ ys @ replicate k 0"
    by (cases "cs_offset s = 0") (auto simp: endout_def Let_def fold_zeros comp_putchar_def ys_def)
  have "lval ys = cs_oldcode s" using o c by (auto simp: ys_def uint_of_int_u8)
  then show "lval (cs_out (endout s)) = cval s" unfolding k by (simp add: lval_append lval_zeros cval_def mult.commute)
  show "\<exists>ys. cs_out (endout s) = cs_out s @ ys" unfolding k by blast
  show "cpos s \<le> 8 * int (length (cs_out (endout s)))" unfolding k using o by (auto simp: cpos_def ys_def)
qed

lemma build_hdr_out: "cs_out (build_hdr s) = cs_out s @ [0x1f, 0x9e, 14]"
  by (simp add: build_hdr_def comp_putchar_def magic_header_def maxbits_def Let_def)

definition compress_init :: "comp_state \<Rightarrow> comp_state" where
  "compress_init s = cl_hash HSIZE ((initout s)\<lparr> cs_n_bits := INIT_BITS, cs_maxcode := MAXCODE INIT_BITS, cs_free_ent := FIRST \<rparr>)"

lemma compress_cons:
  "compress (b # bs) s = hbind (hbind (compress_loop (compress_init s) (uint b) bs) comp_finish) (\<lambda>s. Inr (endout s))"
  by (simp add: compress_def compress_init_def Let_def hbind_assoc comp_finish_def split_def)

lemma compress_init_ok:
  "einv (\<lambda>k. [word_of_int k]) (compress_init s) \<and> cs_free_ent (compress_init s) = 258 \<and> cs_n_bits (compress_init s) = 9 \<and>
   cs_maxcode (compress_init s) = 511 \<and> cs_out (compress_init s) = cs_out s \<and>
   cpos (compress_init s) = 8 * int (length (cs_out s)) \<and> cval (compress_init s) = lval (cs_out s)"
proof -
  let ?t = "(initout s)\<lparr> cs_n_bits := INIT_BITS, cs_maxcode := MAXCODE INIT_BITS, cs_free_ent := FIRST \<rparr>"
  obtain h where h: "compress_init s = ?t\<lparr> cs_htab := h \<rparr>" "\<forall>j. 0 \<le> j \<longrightarrow> j < HSIZE \<longrightarrow> h j = - 1"
    using cl_hash_clears [of HSIZE ?t] by (auto simp: compress_init_def HSIZE_def)
  have "einv (\<lambda>k. [word_of_int k]) (compress_init s)"
    by (rule einv_fresh [where f = 258]) (use h in \<open>auto simp: cwf_def initout_def dict_def FIRST_def INIT_BITS_def MAXCODE_def\<close>)
  then show ?thesis using h by (simp add: initout_def FIRST_def INIT_BITS_def MAXCODE_def cpos_def cval_def)
qed

lemma decompress_header:
  "decompress (0x1f # 0x9e # 14 # rest) d = resume Start (d\<lparr> ds_getcode_offset := 0, ds_getcode_oldcode := 0, ds_output := [], ds_input := rest,
     ds_n_bits := INIT_BITS, ds_maxcode := MAXCODE INIT_BITS, ds_prefix := \<lambda>j. if 0 \<le> j \<and> j < 256 then 0 else ds_prefix d j,
     ds_suffix := \<lambda>j. if 0 \<le> j \<and> j < 256 then of_int j else ds_suffix d j, ds_free_ent := FIRST \<rparr>)"
  by (simp add: decompress_def getbyte_def magic_header_def maxbits_def Let_def cong: if_cong)

text \<open>What \<open>comp\<close> writes: the header, and bits that read back.\<close>

lemma comp_writes:
  assumes "bs \<noteq> []" and "length bs \<le> 32012000"
  obtains s1 s' rest n where "comp bs s = Inr (cs_alloutbytes s', 0x1f # 0x9e # 14 # rest, s')"
    and "reads_back (\<lambda>k. [word_of_int k]) s1 (uint (hd bs)) (lval rest) n bs" and "int n \<le> 8 * int (length rest)"
    and "cs_free_ent s1 = 258" and "cs_n_bits s1 = 9" and "cs_maxcode s1 = 511"
proof -
  obtain b xs where bs: "bs = b # xs" using assms(1) by (cases bs) auto
  let ?T = "\<lambda>k. [word_of_int k :: u8]"
  define s0 where "s0 = build_hdr (s\<lparr> cs_out := [] \<rparr>)"
  define s1 where "s1 = compress_init s0"
  have o: "cs_out s0 = [0x1f, 0x9e, 14]" by (simp add: s0_def build_hdr_out)
  have i: "einv ?T s1" "cs_free_ent s1 = 258" "cs_n_bits s1 = 9" "cs_maxcode s1 = 511" "cs_out s1 = [0x1f, 0x9e, 14]"
    "cpos s1 = 24" "cval s1 = lval [0x1f, 0x9e, 14]"
    using compress_init_ok [of s0] o by (simp_all add: s1_def)
  have "vcode (cs_free_ent s1) (uint b)" using uint_u8_bounds [of b] by (simp add: vcode_def)
  moreover have "budget ?T (cs_free_ent s1) 0" by (simp add: budget_def)
  ultimately obtain s' w n where r: "hbind (compress_loop s1 (uint b) xs) comp_finish = Inr s'" "emits s1 s' w n"
    "reads_back ?T s1 (uint b) w n (?T (uint b) @ xs)"
    using compress_reads_back [OF i(1), of "uint b" 0 xs] assms(2) bs by auto
  let ?e = "endout s'"
  have e: "lval (cs_out ?e) = cval s1 + 2 ^ 24 * w" "24 + int n \<le> 8 * int (length (cs_out ?e))"
    using endout_value [of s'] r(2) i(6) by (auto simp: emits_def)
  obtain rest where rest: "cs_out ?e = 0x1f # 0x9e # 14 # rest"
    using endout_value(1) [of s'] r(2) i(5) by (auto simp: emits_def)
  have "lval rest = w" "int n \<le> 8 * int (length rest)" using e i(7) unfolding rest by simp_all
  moreover have "comp bs s = Inr (cs_alloutbytes ?e, 0x1f # 0x9e # 14 # rest, ?e)"
    using r(1) by (simp add: comp_def bs s0_def [symmetric] compress_cons s1_def [symmetric] rest)
  ultimately show ?thesis using r(3) i that bs by simp
qed

text \<open>
  What \<open>comp\<close> writes reads back, also when other bytes follow, provided a zero bit does; a last
  byte of zero, which is padding, is enough.
\<close>

lemma decomp_reads_back:
  assumes "reads_back (\<lambda>k. [word_of_int k]) s1 ent w n bs" and "lval rest = w + 2 ^ (n + 1) * g" and "int n \<le> 8 * int (length rest)"
    and "cs_free_ent s1 = 258" and "cs_n_bits s1 = 9" and "cs_maxcode s1 = 511"
  shows "\<exists>d'. decomp (0x1f # 0x9e # 14 # rest) d = Inr (int (length bs), bs, d')"
proof -
  let ?d = "d\<lparr> ds_getcode_offset := 0, ds_getcode_oldcode := 0, ds_output := [], ds_input := rest,
     ds_n_bits := INIT_BITS, ds_maxcode := MAXCODE INIT_BITS, ds_prefix := \<lambda>j. if 0 \<le> j \<and> j < 256 then 0 else ds_prefix d j,
     ds_suffix := \<lambda>j. if 0 \<le> j \<and> j < 256 then of_int j else ds_suffix d j, ds_free_ent := FIRST \<rparr>"
  have "dsync Start (\<lambda>k. [word_of_int k]) s1 ent ?d" "drem ?d = lval rest" "int n \<le> davail ?d"
    using assms(3-) by (simp_all add: dwf_def suffixes_ok_def INIT_BITS_def MAXCODE_def FIRST_def drem_def davail_def)
  then obtain d' where "resume Start ?d = Inr d'" "ds_output d' = bs"
    using reads_backD [OF assms(1), of Start ?d g] assms(2) by auto
  then show ?thesis by (simp add: decomp_def decompress_header)
qed

lemma comp_decomp_inverse:
  assumes "bs \<noteq> []" and "length bs \<le> 32012000"
  obtains out s' where "comp bs s = Inr (cs_alloutbytes s', out, s')" and "\<And>d. \<exists>d'. decomp out d = Inr (int (length bs), bs, d')"
    and "\<And>junk d. last out = 0 \<Longrightarrow> \<exists>d'. decomp (out @ junk) d = Inr (int (length bs), bs, d')"
proof -
  obtain s1 s' rest n where c: "comp bs s = Inr (cs_alloutbytes s', 0x1f # 0x9e # 14 # rest, s')"
    and r: "reads_back (\<lambda>k. [word_of_int k]) s1 (uint (hd bs)) (lval rest) n bs" "int n \<le> 8 * int (length rest)"
    and s1: "cs_free_ent s1 = 258" "cs_n_bits s1 = 9" "cs_maxcode s1 = 511"
    by (rule comp_writes [OF assms])
  have "\<exists>d'. decomp ((0x1f # 0x9e # 14 # rest) @ junk) d = Inr (int (length bs), bs, d')" if z: "last (0x1f # 0x9e # 14 # rest) = 0" for junk d
  proof -
    obtain xs where xs: "rest = xs @ [0]" using z by (cases rest rule: rev_cases) auto
    have "2 ^ n \<le> 64 * lval rest" using r(1) by (simp add: reads_back_def)
    also have "\<dots> < 2 ^ 6 * 2 ^ (8 * length xs)" using lval_less [of xs] by (simp add: xs lval_append)
    finally have "(2::int) ^ n < 2 ^ (8 * length xs + 6)" by (simp add: power_add)
    then have "n < 8 * length xs + 6" by (simp only: power_strict_increasing_iff)
    then have "n + 1 \<le> 8 * length rest" by (simp add: xs)
    then obtain k where k: "8 * length rest = (n + 1) + k" by (rule le_Suc_ex [THEN exE])
    have "lval (rest @ junk) = lval rest + 2 ^ (n + 1) * (2 ^ k * lval junk)" by (simp add: lval_append k power_add)
    then show ?thesis using decomp_reads_back [OF r(1), of "rest @ junk"] r(2) s1 by simp
  qed
  moreover have "\<exists>d'. decomp (0x1f # 0x9e # 14 # rest) d = Inr (int (length bs), bs, d')" for d
    using decomp_reads_back [OF r(1) _ r(2) s1, of 0] by simp
  ultimately show ?thesis using that c by blast
qed

text \<open>
  C34. Compression loses nothing: from any state of their static variables, \<open>comp\<close> returns on every
  input that is not empty and has at most 32012000 bytes (what the decompressor's stack of 8000 bytes is
  enough for), and \<open>decomp\<close> on exactly its output gives the input back, without leaving any of its tables.
  When the last byte written is zero, which it is when there is padding, bytes behind the output change nothing.
\<close>

theorem comp_decomp_roundtrip:
  assumes "bs \<noteq> []" and "length bs \<le> 32012000"
  shows "\<exists>n out s'. comp bs s = Inr (n, out, s') \<and> (\<exists>d'. decomp out d = Inr (int (length bs), bs, d')) \<and>
    (last out = 0 \<longrightarrow> (\<exists>d'. decomp (out @ junk) d = Inr (int (length bs), bs, d')))"
  by (rule comp_decomp_inverse [OF assms, of s]) blast

theorem comp_decomp_roundtrip_witness:
  "\<exists>n out s'. comp (replicate 300 65 @ [66, 67]) comp_static = Inr (n, out, s') \<and>
     (\<exists>d'. decomp out decomp_static = Inr (302, replicate 300 65 @ [66, 67], d')) \<and>
     (last out = 0 \<longrightarrow> (\<exists>d'. decomp (out @ [1, 2]) decomp_static = Inr (302, replicate 300 65 @ [66, 67], d')))"
  using comp_decomp_roundtrip [of "replicate 300 65 @ [66, 67]" comp_static decomp_static "[1, 2]"] by simp

subsection \<open>The size \<open>comp\<close> returns\<close>

text \<open>No code is put out without being counted.\<close>

definition cexcess :: "comp_state \<Rightarrow> int" where
  "cexcess s = cs_alloutbytes s - int (length (cs_out s))"

lemma putcode_excess [simp]: "cexcess (putcode c s) = cexcess s"
proof -
  have "cexcess (putcode_loop r off s) = cexcess s" for r off s
  proof (induction r off s rule: putcode_loop.induct)
    case (1 r off s)
    show ?case
    proof (cases "off - 8 \<ge> 8")
      case True
      then show ?thesis using 1 [OF refl refl refl True]
        by (subst putcode_loop.simps) (simp add: Let_def cexcess_def comp_putchar_def)
    qed (subst putcode_loop.simps, simp add: Let_def cexcess_def comp_putchar_def)
  qed
  then show ?thesis by (simp add: putcode_def)
qed

lemma cl_hash_excess [simp]: "cexcess (cl_hash n s) = cexcess s"
  by (simp add: cl_hash_def cexcess_def split: prod.splits)

lemma cexcess_upd [simp]:
  "cexcess (s\<lparr> cs_htab := h \<rparr>) = cexcess s" "cexcess (s\<lparr> cs_codetab := h \<rparr>) = cexcess s" "cexcess (s\<lparr> cs_n_bits := n \<rparr>) = cexcess s"
  "cexcess (s\<lparr> cs_maxcode := c \<rparr>) = cexcess s" "cexcess (s\<lparr> cs_free_ent := c \<rparr>) = cexcess s" "cexcess (s\<lparr> cs_in_count := c \<rparr>) = cexcess s"
  "cexcess (s\<lparr> cs_checkpoint := c \<rparr>) = cexcess s" "cexcess (s\<lparr> cs_ratio := c \<rparr>) = cexcess s" "cexcess (s\<lparr> cs_oldcode := c \<rparr>) = cexcess s"
  "cexcess (s\<lparr> cs_offset := c \<rparr>) = cexcess s" "cexcess (s\<lparr> cs_bytes_out := c \<rparr>) = cexcess s"
  by (simp_all add: cexcess_def)

lemma comp_nomatch_excess [simp]: "cexcess (comp_nomatch i f ent s) = cexcess s"
  by (simp add: comp_nomatch_def cl_block_def Let_def)

lemma compress_loop_excess: "compress_loop s ent bs = Inr (s', ent') \<Longrightarrow> cexcess s' = cexcess s"
proof (induction bs arbitrary: s ent)
  case (Cons b bs)
  let ?t = "s\<lparr> cs_in_count := cs_in_count s + 1 \<rparr>"
  obtain r where "hash_find ?t (push_bit maxbits (uint b) + ent) (uint b) ent = Inr r"
    and r: "(case r of Inl code \<Rightarrow> compress_loop ?t code bs
      | Inr i \<Rightarrow> compress_loop (comp_nomatch i (push_bit maxbits (uint b) + ent) ent ?t) (uint b) bs) = Inr (s', ent')"
    using Cons.prems by (auto simp: Let_def hbind_eq_Inr)
  show ?case using r by (cases r) (auto dest: Cons.IH)
qed simp

lemma endout_excess [simp]: "cexcess (endout s) = cexcess s"
  by (simp add: endout_def Let_def comp_putchar_def fold_zeros) (simp add: cexcess_def)

lemma compress_excess: "compress bs s = Inr s' \<Longrightarrow> cexcess s' = cexcess s"
  by (auto simp: compress_def Let_def hbind_eq_Inr initout_def split: list.splits dest!: compress_loop_excess)

lemma comp_size:
  assumes "comp bs s = Inr (n, out, s')"
  shows "n = cs_alloutbytes s + int (length out) \<and> cs_alloutbytes s' = n"
proof -
  have "cexcess (build_hdr (s\<lparr> cs_out := [] \<rparr>)) = cs_alloutbytes s"
    by (simp add: build_hdr_def Let_def comp_putchar_def cexcess_def)
  then show ?thesis using assms compress_excess by (fastforce simp: comp_def hbind_eq_Inr cexcess_def)
qed

text \<open>
  What \<open>comp\<close> returns is not the size of what it wrote but the sum over all calls so far: the
  count is never set to zero.
\<close>

theorem comp_returned_size:
  assumes "comp bs s = Inr (n, out, s')"
  shows "n = cs_alloutbytes s + int (length out) \<and> cs_alloutbytes s' = n"
  using assms by (rule comp_size)

theorem comp_returned_size_witness:
  "\<exists>out s'. comp [1, 2, 3] (comp_static\<lparr> cs_alloutbytes := 8 \<rparr>) = Inr (8 + int (length out), out, s')"
proof -
  obtain n out s' where c: "comp [1, 2, 3] (comp_static\<lparr> cs_alloutbytes := 8 \<rparr>) = Inr (n, out, s')"
    by (rule comp_writes [of "[1, 2, 3]" "comp_static\<lparr> cs_alloutbytes := 8 \<rparr>"]) auto
  then show ?thesis using comp_returned_size [OF c] by (simp add: comp_static_def)
qed

subsection \<open>A stream the compressor never writes\<close>

lemma de_chain_cycle: "ds_prefix d k = k \<Longrightarrow> 256 \<le> k \<Longrightarrow> de_chain d k stack = Inl Bad_access"
proof (induction d k stack rule: de_chain.induct)
  case (1 d k stack)
  have "hguard (k < HSIZE \<and> length stack < DE_STACK_SIZE) (de_chain d k (ds_suffix d k # stack)) = Inl Bad_access"
    using 1 by (simp add: hguard_def)
  then show ?case using 1(2,3) by (subst de_chain.simps) simp
qed

lemma getcode_upd:
  "getcode n (d\<lparr> ds_finchar := a, ds_prev := b, ds_output := out \<rparr>) =
     (case getcode n d of (c, d') \<Rightarrow> (c, d'\<lparr> ds_finchar := a, ds_prev := b, ds_output := out \<rparr>))"
  by (simp add: getcode_def split: prod.splits option.splits)

text \<open>
  C40. The decompressor trusts its input.  The first code need not be a character, and what is not yet
  entered is taken for the string that is entered next: on every stream whose first three codes are 258, a
  character and 258, whatever follows, the first code becomes the prefix of the first entry, which gets
  number 258.  The entry is its own prefix: following it pushes a byte and is back at the same
  entry, so the decompressor writes past the end of its stack.
\<close>

theorem decomp_cycle:
  assumes "4 \<le> length bs" and "lval bs mod 2 ^ 27 = 258 + 2 ^ 9 * x + 2 ^ 18 * 258" and "0 \<le> x" "x < 256"
  shows "\<exists>d'. decompress (0x1f # 0x9e # 14 # bs) d = dec_loop d' \<and> fst (getcode (ds_n_bits d') d') = 258 \<and>
    ds_free_ent d' = 259 \<and> ds_prefix d' 258 = 258 \<and>
    (\<forall>stack. de_chain d' 258 stack =
       (if length stack < DE_STACK_SIZE then de_chain d' 258 (ds_suffix d' 258 # stack) else Inl Bad_access)) \<and>
    decomp (0x1f # 0x9e # 14 # bs) d = Inl Bad_access"
proof -
  define w where "w = lval bs div 2 ^ 27"
  have "lval bs = (258 + 2 ^ 9 * x + 2 ^ 18 * 258) + 2 ^ 27 * w"
    using mult_div_mod_eq [of "2 ^ 27" "lval bs"] by (simp only: w_def assms(2) [symmetric])
  then have v: "lval bs = 258 + 2 ^ 9 * (x + 2 ^ 9 * (258 + 2 ^ 9 * w))" by simp
  define d0 where "d0 = d\<lparr> ds_getcode_offset := 0, ds_getcode_oldcode := 0, ds_output := [], ds_input := bs,
     ds_n_bits := 9, ds_maxcode := 511, ds_prefix := \<lambda>j. if 0 \<le> j \<and> j < 256 then 0 else ds_prefix d j,
     ds_suffix := \<lambda>j. if 0 \<le> j \<and> j < 256 then of_int j else ds_suffix d j, ds_free_ent := 258 \<rparr>"
  have s0: "dwf d0" "drem d0 = 258 + 2 ^ 9 * (x + 2 ^ 9 * (258 + 2 ^ 9 * w))" "davail d0 = 8 * int (length bs)"
    using v by (simp_all add: d0_def dwf_def drem_def davail_def)
  obtain i1 o1 c1 d1 where g1: "getcode 9 d0 = (258, d1)" "d1 = d0\<lparr> ds_input := i1, ds_getcode_oldcode := c1, ds_getcode_offset := o1 \<rparr>"
    "dwf d1" "drem d1 = x + 2 ^ 9 * (258 + 2 ^ 9 * w)" "davail d1 = 8 * int (length bs) - 9"
    by (rule getcode_first [OF s0(1) _ _ s0(2)]) (use assms(1) s0(3) in auto)
  obtain i2 o2 c2 d2 where g2: "getcode 9 d1 = (x, d2)" "d2 = d1\<lparr> ds_input := i2, ds_getcode_oldcode := c2, ds_getcode_offset := o2 \<rparr>"
    "dwf d2" "drem d2 = 258 + 2 ^ 9 * w" "davail d2 = 8 * int (length bs) - 18"
    by (rule getcode_first [OF g1(3) _ _ g1(4)]) (use assms g1(5) in auto)
  define e1 where "e1 = d1\<lparr> ds_finchar := 258, ds_prev := 258, ds_output := [of_int 258] \<rparr>"
  define e2 where "e2 = d2\<lparr> ds_finchar := 258, ds_prev := 258, ds_output := [of_int 258] \<rparr>"
  define d' where "d' = e2\<lparr> ds_finchar := uint (ds_suffix e2 x), ds_output := ds_output e2 @ [ds_suffix e2 x],
     ds_prefix := (ds_prefix e2)(258 := 258), ds_suffix := (ds_suffix e2)(258 := ds_suffix e2 x), ds_free_ent := 259, ds_prev := x \<rparr>"
  have f: "ds_n_bits d2 = 9" "ds_maxcode d2 = 511" "ds_free_ent d2 = 258" "ds_n_bits d1 = 9" by (simp_all add: g2(2) g1(2) d0_def)
  have start: "decompress (0x1f # 0x9e # 14 # bs) d = dec_loop e1"
  proof -
    have "ds_output d1 = []" by (simp add: g1(2) d0_def)
    then show ?thesis using g1(1)
      by (simp add: decompress_def getbyte_def magic_header_def maxbits_def Let_def INIT_BITS_def MAXCODE_def FIRST_def END_CODE_def d0_def e1_def hguard_def cong: if_cong)
  qed
  have n1: "ds_n_bits e1 = 9" "getcode 9 e1 = (x, e2)" using f g2(1) by (simp_all add: e1_def e2_def getcode_upd)
  have body: "de_body x e2 = Inr d'"
    using assms(3,4) f
    by (simp add: de_body_def de_string_def de_chain.simps [of _ x] de_push_def DE_STACK_SIZE_def hguard_def de_enter_def de_widen_def maxmaxcode_def d'_def e2_def)
  have loop: "dec_loop e1 = dec_loop d'"
    using assms(3,4) n1 body by (subst dec_loop.simps) (simp add: END_CODE_def CLEAR_CODE_def)
  have s3: "dwf d'" "drem d' = 258 + 2 ^ 9 * w" "davail d' = 8 * int (length bs) - 18"
    using g2(3-5) by (simp_all add: d'_def e2_def dwf_def drem_def davail_def)
  obtain i3 o3 c3 d3 where g3: "getcode 9 d' = (258, d3)" "d3 = d'\<lparr> ds_input := i3, ds_getcode_oldcode := c3, ds_getcode_offset := o3 \<rparr>"
    by (rule getcode_first [OF s3(1) _ _ s3(2)]) (use assms(1) s3(3) in auto)
  have n': "ds_n_bits d' = 9" "ds_free_ent d' = 259" "ds_prefix d' 258 = 258" using f by (simp_all add: d'_def e2_def)
  have chain: "de_chain d' 258 stack = (if length stack < DE_STACK_SIZE then de_chain d' 258 (ds_suffix d' 258 # stack) else Inl Bad_access)" for stack
    by (subst de_chain.simps) (simp add: n'(3) hguard_def HSIZE_def)
  have "de_body 258 d3 = Inl Bad_access"
    using n' by (simp add: g3(2) de_body_def de_string_def de_chain_cycle)
  then have "dec_loop d' = Inl Bad_access"
    using g3(1) n'(1) by (subst dec_loop.simps) (simp add: END_CODE_def CLEAR_CODE_def)
  then have "decomp (0x1f # 0x9e # 14 # bs) d = Inl Bad_access" using start loop by (simp add: decomp_def)
  then show ?thesis using start loop g3(1) n' chain by (intro exI [of _ d']) simp
qed

theorem decomp_cycle_witness:
  "decomp [0x1f, 0x9e, 14, 2, 131, 8, 4] decomp_static = Inl Bad_access"
proof -
  have "4 \<le> length [2, 131, 8, 4 :: u8]" "lval [2, 131, 8, 4] mod 2 ^ 27 = 258 + 2 ^ 9 * 65 + 2 ^ 18 * 258" "0 \<le> (65 :: int)" "(65 :: int) < 256"
    by simp_all
  from decomp_cycle [OF this, of decomp_static] show ?thesis by blast
qed

end
