(* ===== verification/Lzw_Run.thy ===== *)
theory Lzw_Run
  imports Lzw_Main
begin

text \<open>
  An input that gets shorter: a run of 40 equal bytes, whose compressed form has 18 bytes and ends with
  padding.  Each new code stands for one more byte of the run.
\<close>

definition run_code :: "nat \<Rightarrow> int" where
  "run_code m = (if m = 0 then 65 else 257 + int m)"

definition run_slot :: "nat \<Rightarrow> int" where
  "run_slot m = push_bit hash_shift 65 XOR run_code m"

definition run_key :: "nat \<Rightarrow> int" where
  "run_key m = push_bit maxbits 65 + run_code m"

definition run_ok :: "nat \<Rightarrow> comp_state \<Rightarrow> bool" where
  "run_ok k s \<longleftrightarrow> k \<le> 9 \<and> cs_n_bits s = 9 \<and> cs_maxcode s = 511 \<and> cs_free_ent s = 258 + int k \<and> cwf s \<and>
     (\<forall>m<k. cs_htab s (run_slot m) = run_key m \<and> cs_codetab s (run_slot m) = run_code (Suc m)) \<and>
     (\<forall>m. k \<le> m \<longrightarrow> m < 9 \<longrightarrow> cs_htab s (run_slot m) = - 1)"

lemma run_slot_inject: "run_slot m = run_slot n \<longleftrightarrow> m = n"
proof -
  have "run_slot m = run_slot n \<Longrightarrow> run_code m = run_code n"
    unfolding run_slot_def by (metis xor.assoc xor.left_neutral xor_self_eq)
  then show ?thesis by (auto simp: run_code_def split: if_splits)
qed

lemma run_slot_range: "m < 9 \<Longrightarrow> 0 \<le> run_slot m \<and> run_slot m < HSIZE"
  by (auto simp: run_slot_def run_code_def hash_shift_def HSIZE_def less_Suc_eq numeral_eq_Suc)

lemma run_key_pos: "0 < run_key m"
  by (simp add: run_key_def run_code_def maxbits_def)

lemma run_ok_in_count [simp]: "run_ok k (s\<lparr> cs_in_count := x \<rparr>) = run_ok k s"
  by (simp add: run_ok_def cwf_def)

lemma run_find_match: "run_ok k s \<Longrightarrow> m < k \<Longrightarrow> hash_find s (run_key m) 65 (run_code m) = Inr (Inl (run_code (Suc m)))"
  using run_slot_range [of m] by (simp add: hash_find_def run_slot_def [symmetric] run_ok_def Let_def hguard_def)

lemma run_find_new: "run_ok k s \<Longrightarrow> k < 9 \<Longrightarrow> hash_find s (run_key k) 65 (run_code k) = Inr (Inr (run_slot k))"
  using run_slot_range [of k] run_key_pos [of k] by (simp add: hash_find_def run_slot_def [symmetric] run_ok_def Let_def hguard_def)

lemma run_match:
  "run_ok k s \<Longrightarrow> m + n \<le> k \<Longrightarrow> compress_loop s (run_code m) (replicate n 65 @ bs) =
     compress_loop (s\<lparr> cs_in_count := cs_in_count s + int n \<rparr>) (run_code (m + n)) bs"
proof (induction n arbitrary: s m)
  case (Suc n)
  let ?s = "s\<lparr> cs_in_count := cs_in_count s + 1 \<rparr>"
  have "hash_find ?s (run_key m) 65 (run_code m) = Inr (Inl (run_code (Suc m)))"
    using Suc.prems by (intro run_find_match) auto
  then have "compress_loop s (run_code m) (replicate (Suc n) 65 @ bs) = compress_loop ?s (run_code (Suc m)) (replicate n 65 @ bs)"
    by (simp add: Let_def run_key_def)
  also have "\<dots> = compress_loop (?s\<lparr> cs_in_count := cs_in_count ?s + int n \<rparr>) (run_code (Suc m + n)) bs"
    using Suc.prems by (intro Suc.IH) auto
  finally show ?case by (simp add: add.assoc)
qed simp

lemma run_new:
  assumes "run_ok k s" and "k < 9"
  shows "\<exists>s'. compress_loop s (run_code k) (65 # bs) = compress_loop s' 65 bs \<and> run_ok (Suc k) s' \<and> cpos s' = cpos s + 9 \<and> cexcess s' = cexcess s"
proof -
  let ?s = "s\<lparr> cs_in_count := cs_in_count s + 1 \<rparr>"
  let ?p = "putcode (run_code k) ?s"
  define s' where "s' = comp_nomatch (run_slot k) (run_key k) (run_code k) ?s"
  have c: "0 \<le> run_code k" "run_code k < 2 ^ 9" using assms(2) by (simp_all add: run_code_def)
  have ok: "run_ok k ?s" using assms(1) by simp
  then have e: "emits ?s ?p (run_code k) 9" using putcode_emits [of ?s "run_code k"] c by (simp add: run_ok_def)
  have s': "s' = ?p\<lparr> cs_codetab := (cs_codetab s)(run_slot k := 258 + int k), cs_free_ent := 258 + int k + 1, cs_htab := (cs_htab s)(run_slot k := run_key k) \<rparr>"
    using ok assms(2) by (simp add: s'_def comp_nomatch_def Let_def run_ok_def maxmaxcode_def)
  have "cwf s'" "cpos s' = cpos s + 9" using e by (simp_all add: s' emits_def cwf_def cpos_def)
  moreover have "run_ok (Suc k) s'"
    using ok assms(2) \<open>cwf s'\<close> by (auto simp: run_ok_def s' less_Suc_eq run_slot_inject run_code_def)
  moreover have "compress_loop s (run_code k) (65 # bs) = compress_loop s' 65 bs"
    using run_find_new [OF ok assms(2)] by (simp add: Let_def s'_def run_key_def)
  moreover have "cexcess s' = cexcess s" by (simp add: s'_def)
  ultimately show ?thesis by blast
qed

lemma run_block:
  assumes "run_ok k s" and "k < 9"
  shows "\<exists>s'. compress_loop s 65 (replicate (Suc k) 65 @ bs) = compress_loop s' 65 bs \<and> run_ok (Suc k) s' \<and> cpos s' = cpos s + 9 \<and> cexcess s' = cexcess s"
proof -
  let ?s = "s\<lparr> cs_in_count := cs_in_count s + int k \<rparr>"
  have "replicate (Suc k) (65 :: u8) @ bs = replicate k 65 @ 65 # bs" by (simp add: replicate_app_Cons_same)
  then have "compress_loop s 65 (replicate (Suc k) 65 @ bs) = compress_loop ?s (run_code k) (65 # bs)"
    using run_match [OF assms(1), of 0 k "65 # bs"] by (simp add: run_code_def)
  moreover have "cpos ?s = cpos s" "cexcess ?s = cexcess s" by (simp_all add: cpos_def)
  ultimately show ?thesis using run_new [of k ?s bs] assms by simp
qed

lemma run_blocks:
  assumes "run_ok 0 s"
  shows "k \<le> 9 \<Longrightarrow> \<exists>s'. compress_loop s 65 (concat (map (\<lambda>i. replicate (Suc i) 65) [0..<k]) @ bs) = compress_loop s' 65 bs \<and>
    run_ok k s' \<and> cpos s' = cpos s + 9 * int k \<and> cexcess s' = cexcess s"
proof (induction k arbitrary: bs)
  case 0
  then show ?case using assms by auto
next
  case (Suc k)
  then obtain s1 where s1: "compress_loop s 65 (concat (map (\<lambda>i. replicate (Suc i) 65) [0..<k]) @ (replicate (Suc k) 65 @ bs)) =
      compress_loop s1 65 (replicate (Suc k) 65 @ bs)" "run_ok k s1" "cpos s1 = cpos s + 9 * int k" "cexcess s1 = cexcess s"
    by (metis Suc_leD)
  from run_block [OF s1(2), of bs] Suc.prems obtain s2 where "compress_loop s1 65 (replicate (Suc k) 65 @ bs) = compress_loop s2 65 bs"
    "run_ok (Suc k) s2" "cpos s2 = cpos s1 + 9" "cexcess s2 = cexcess s1" by auto
  then show ?case using s1 by (intro exI [of _ s2]) (simp del: replicate_Suc)
qed

lemma endout_padded:
  assumes "cwf s" and "cpos s = 114" and "cexcess s = 0"
  shows "length (cs_out (endout s)) = 18 \<and> last (cs_out (endout s)) = 0"
proof -
  have o: "cs_offset s = 114 - 8 * int (length (cs_out s))" "0 \<le> cs_offset s" "cs_offset s < 8" using assms(1,2) by (auto simp: cwf_def cpos_def)
  then have l: "length (cs_out s) = 14" by linarith
  with o have "cs_offset s = 2" by simp
  moreover have "cs_alloutbytes s = 14" using assms(3) l by (simp add: cexcess_def)
  ultimately show ?thesis using l by (simp add: endout_def Let_def fold_zeros comp_putchar_def ROUNDOUT_def numeral_eq_Suc)
qed

lemma run_compressed:
  assumes "comp (replicate 40 65) comp_static = Inr (n, out, s')"
  shows "length out = 18 \<and> last out = 0"
proof -
  define s0 where "s0 = compress_init (build_hdr (comp_static\<lparr> cs_out := [] \<rparr>))"
  obtain h where h: "s0 = (initout (build_hdr (comp_static\<lparr> cs_out := [] \<rparr>)))\<lparr> cs_n_bits := INIT_BITS, cs_maxcode := MAXCODE INIT_BITS, cs_free_ent := FIRST, cs_htab := h \<rparr>"
    "\<forall>j. 0 \<le> j \<longrightarrow> j < HSIZE \<longrightarrow> h j = - 1"
    using cl_hash_clears [of HSIZE "(initout (build_hdr (comp_static\<lparr> cs_out := [] \<rparr>)))\<lparr> cs_n_bits := INIT_BITS, cs_maxcode := MAXCODE INIT_BITS, cs_free_ent := FIRST \<rparr>"]
    by (auto simp: s0_def compress_init_def HSIZE_def)
  have ok: "run_ok 0 s0" using h run_slot_range
    by (simp add: run_ok_def initout_def build_hdr_def comp_putchar_def Let_def INIT_BITS_def MAXCODE_def FIRST_def cwf_def)
  have p: "cpos s0 = 24" "cexcess s0 = 0"
    by (simp_all add: h(1) cpos_def cexcess_def initout_def build_hdr_def comp_putchar_def Let_def comp_static_def)
  have r: "replicate 39 (65 :: u8) = concat (map (\<lambda>i. replicate (Suc i) 65) [0..<8]) @ replicate 3 65 @ []"
    by (simp add: upt_rec numeral_eq_Suc)
  obtain s1 where s1: "compress_loop s0 65 (replicate 39 65) = compress_loop s1 65 (replicate 3 65 @ [])" "run_ok 8 s1" "cpos s1 = 96" "cexcess s1 = 0"
    using run_blocks [OF ok, of 8 "replicate 3 65 @ []"] p unfolding r by auto
  define s2 where "s2 = s1\<lparr> cs_in_count := cs_in_count s1 + int 3 \<rparr>"
  have "compress_loop s0 65 (replicate 39 65) = compress_loop s2 (run_code 3) []"
    unfolding s1(1) s2_def using run_match [OF s1(2), of 0 3 "[]"] by (simp add: run_code_def del: compress_loop.simps)
  then have l: "compress_loop s0 65 (replicate 39 65) = Inr (s2, 260)" by (simp add: run_code_def)
  have w: "cwf s2" "cs_n_bits s2 = 9" "cpos s2 = 96" "cexcess s2 = 0" using s1(2-4) by (simp_all add: s2_def run_ok_def cwf_def cpos_def)
  let ?s3 = "putcode 260 s2"
  have "emits s2 ?s3 260 9" using putcode_emits [of s2 260] w by simp
  moreover have "cs_n_bits ?s3 = 9" using w by simp
  ultimately have s3: "cwf ?s3" "cpos ?s3 = 105" "cexcess ?s3 = 0" using w by (simp_all add: emits_def)
  let ?s4 = "putcode END_CODE ?s3"
  have "emits ?s3 ?s4 END_CODE 9" using putcode_emits [of ?s3 END_CODE] s3 w by (simp add: END_CODE_def)
  then have s4: "cwf ?s4" "cpos ?s4 = 114" "cexcess ?s4 = 0" using s3 by (simp_all add: emits_def)
  have e: "replicate 40 (65 :: u8) = 65 # replicate 39 65" by (simp add: numeral_eq_Suc)
  have "compress (replicate 40 65) (build_hdr (comp_static\<lparr> cs_out := [] \<rparr>)) = Inr (endout ?s4)"
    unfolding e compress_cons using l by (simp add: s0_def [symmetric] comp_finish_def del: compress_loop.simps)
  then have "out = cs_out (endout ?s4)" using assms by (auto simp: comp_def)
  then show ?thesis using endout_padded [OF s4] by simp
qed

end
