(* ===== verification/Checksum.thy ===== *)
theory Checksum
  imports Prelude
begin

text \<open>
  The two checks of the firmware's tools: the Internet checksum (\<open>obp/tools/checksum/checksum.c\<close>), over
  half-words in the byte order of SPARC, and CRC-32 by table (\<open>crc32.c\<close>).  The first is shown to make the
  sum a multiple of 65535 where its 32 bits suffice, the second to be the register of the polynomial
  shifted bit by bit.
\<close>

subsection \<open>The Internet checksum\<close>

fun checksum_add :: "u8 list \<Rightarrow> u32 \<Rightarrow> u32" where
  "checksum_add (a # b # bs) acc = checksum_add bs (acc + word_of_int (uint a * 256 + uint b))"
| "checksum_add [a] acc = acc + word_of_int (uint a)"
| "checksum_add [] acc = acc"

lemma uint_high: "uint (drop_bit 16 (s :: u32)) = uint s div 2 ^ 16"
proof -
  have "take_bit 32 (uint s) = uint s" by (rule take_bit_int_eq_self) (use uint_bounded [of s] in simp_all)
  then show ?thesis by (simp only: unsigned_drop_bit_eq) (simp add: drop_bit_eq_div)
qed

lemma uint_low: "uint ((s :: u32) AND 0xffff) = uint s mod 2 ^ 16"
proof -
  have "s AND 0xffff = take_bit 16 s" by (simp add: take_bit_eq_mask mask_eq_exp_minus_1)
  then have "uint (s AND 0xffff) = take_bit 16 (uint s)" by (simp only: unsigned_take_bit_eq)
  then show ?thesis by (simp only: take_bit_eq_mod)
qed

lemma uint_add_small: "uint (s :: u32) + x < 2 ^ 32 \<Longrightarrow> 0 \<le> x \<Longrightarrow> uint (s + word_of_int x) = uint s + x"
proof -
  assume *: "uint s + x < 2 ^ 32" "0 \<le> x"
  have "uint (s + word_of_int x) = (uint s + x) mod 2 ^ 32" by (simp add: uint_word_ariths uint_word_of_int mod_simps)
  then show ?thesis using * by (simp add: mod_pos_pos_trivial)
qed

lemma uint_fold: "uint (((s :: u32) AND 0xffff) + drop_bit 16 s) = uint s mod 2 ^ 16 + uint s div 2 ^ 16"
proof -
  have "0 \<le> uint s" "uint s < 2 ^ 32" using uint_bounded [of s] by simp_all
  then have b: "0 \<le> uint s div 2 ^ 16" "uint s div 2 ^ 16 < 2 ^ 16" by (simp_all add: pos_imp_zdiv_nonneg_iff)
  moreover have "uint s mod 2 ^ 16 < 2 ^ 16" by simp
  ultimately have "uint s mod 2 ^ 16 + uint s div 2 ^ 16 < 2 ^ 32" by simp
  then have "uint ((s AND 0xffff) + word_of_int (uint (drop_bit 16 s))) = uint s mod 2 ^ 16 + uint s div 2 ^ 16"
    using uint_add_small [of "s AND 0xffff" "uint (drop_bit 16 s)"] b unfolding uint_low uint_high by blast
  then show ?thesis by (simp only: word_of_int_uint)
qed

lemma fold_less:
  assumes "drop_bit 16 (s :: u32) \<noteq> 0"
  shows "unat ((s AND 0xffff) + drop_bit 16 s) < unat s"
proof -
  have "uint s div 2 ^ 16 \<noteq> 0" using assms uint_high [of s] by (metis uint_0_iff)
  then have "0 < uint s div 2 ^ 16" by (simp add: order_less_le pos_imp_zdiv_nonneg_iff)
  moreover have "m + q < m + 2 ^ 16 * q" if "0 < q" for m q :: int using that by simp
  ultimately have "uint s mod 2 ^ 16 + uint s div 2 ^ 16 < uint s mod 2 ^ 16 + 2 ^ 16 * (uint s div 2 ^ 16)" by blast
  also have "\<dots> = uint s" by (rule mod_mult_div_eq)
  finally have "((s AND 0xffff) + drop_bit 16 s) < s" by (simp only: uint_fold [symmetric] word_less_def)
  then show ?thesis by (simp only: word_less_nat_alt)
qed

function checksum_fold :: "u32 \<Rightarrow> u32" where
  "checksum_fold acc = (if drop_bit 16 acc \<noteq> 0 then checksum_fold ((acc AND 0xffff) + drop_bit 16 acc) else acc)"
  by pat_completeness auto
termination by (relation "measure unat") (use fold_less in auto)

declare checksum_fold.simps [simp del]

definition checksum :: "u8 list \<Rightarrow> u16" where
  "checksum bs = (let acc = NOT (checksum_fold (checksum_add bs 0)) AND 0xffff in if acc = 0 then 0xffff else ucast acc)"

text \<open>The sum itself, as a number.\<close>

fun half_sum :: "u8 list \<Rightarrow> int" where
  "half_sum (a # b # bs) = uint a * 256 + uint b + half_sum bs"
| "half_sum [a] = uint a"
| "half_sum [] = 0"

lemma byte_bounds: "0 \<le> uint (b :: u8)" "uint b \<le> 255"
  using uint_bounded [of b] by simp_all

lemma half_sum_nonneg: "0 \<le> half_sum bs"
  by (induction bs rule: half_sum.induct) (auto simp: byte_bounds add_nonneg_nonneg)

lemma half_sum_bound: "half_sum bs \<le> 65535 * int ((length bs + 1) div 2)"
proof (induction bs rule: half_sum.induct)
  case (1 a b bs)
  then show ?case using byte_bounds [of a] byte_bounds [of b] by simp
next
  case (2 a)
  then show ?case using byte_bounds [of a] by simp
qed simp

text \<open>The addition of 32 bits is exact as long as the sum is below \<open>2 ^ 32\<close>.\<close>

lemma checksum_add_exact: "uint s + half_sum bs < 2 ^ 32 \<Longrightarrow> uint (checksum_add bs s) = uint s + half_sum bs"
proof (induction bs s rule: checksum_add.induct)
  case (1 a b bs s)
  have "uint (s + word_of_int (uint a * 256 + uint b)) = uint s + (uint a * 256 + uint b)"
    by (rule uint_add_small) (use 1(2) half_sum_nonneg [of bs] byte_bounds in \<open>simp_all add: add_nonneg_nonneg\<close>)
  then show ?case using 1 by simp
next
  case (2 a s)
  then show ?case using uint_add_small [of s "uint a"] byte_bounds [of a] by simp
qed simp

text \<open>Folding keeps the sum modulo \<open>2 ^ 16 - 1\<close>.\<close>

lemma checksum_fold_mod: "uint (checksum_fold s) < 2 ^ 16 \<and> uint (checksum_fold s) mod 65535 = uint s mod 65535"
proof (induction s rule: checksum_fold.induct)
  case (1 s)
  show ?case
  proof (cases "drop_bit 16 s = 0")
    case True
    then have "uint s div 2 ^ 16 = 0" using uint_high [of s] by simp
    then have "uint s < 2 ^ 16" by (simp add: div_eq_0_iff)
    then show ?thesis using True by (simp add: checksum_fold.simps [of s])
  next
    case False
    note uint_fold [of s]
    moreover have "(uint s mod 2 ^ 16 + uint s div 2 ^ 16) mod 65535 = uint s mod 65535"
    proof -
      have "uint s = uint s mod 2 ^ 16 + uint s div 2 ^ 16 + 65535 * (uint s div 2 ^ 16)"
        using mult_div_mod_eq [of "2 ^ 16" "uint s"] by simp
      then show ?thesis by (metis mod_mult_self2)
    qed
    ultimately show ?thesis using 1 False by (simp add: checksum_fold.simps [of s])
  qed
qed

text \<open>The complement of the sum, and never 0.\<close>

lemma checksum_value:
  assumes "half_sum bs < 2 ^ 32"
  shows "1 \<le> uint (checksum bs) \<and> (uint (checksum bs) + half_sum bs) mod 65535 = 0"
proof -
  define f where "f = checksum_fold (checksum_add bs 0)"
  have f: "0 \<le> uint f" "uint f < 2 ^ 16" "uint f mod 65535 = half_sum bs mod 65535"
    using checksum_fold_mod [of "checksum_add bs 0"] checksum_add_exact [of 0 bs] assms by (simp_all add: f_def)
  have "NOT f AND 0xffff = take_bit 16 (NOT f)" by (simp add: take_bit_eq_mask mask_eq_exp_minus_1 and.commute)
  then have "uint (NOT f AND 0xffff) = take_bit 16 (uint (NOT f))" by (simp add: unsigned_take_bit_eq)
  also have "\<dots> = take_bit 16 (NOT (uint f))" by (simp add: unsigned_not_eq min_def)
  also have "\<dots> = 65535 - uint f" using f(1,2) by (simp add: take_bit_not_eq_mask_diff mask_eq_exp_minus_1 take_bit_int_eq_self)
  finally have n: "uint (NOT f AND 0xffff) = 65535 - uint f" .
  have m: "(65535 - uint f + half_sum bs) mod 65535 = 0"
  proof -
    have "65535 dvd half_sum bs - uint f" using f(3) [symmetric] by (simp only: mod_eq_dvd_iff)
    then have "65535 dvd (half_sum bs - uint f) + 65535" by (rule dvd_add) simp
    then show ?thesis by (simp add: algebra_simps)
  qed
  show ?thesis
  proof (cases "NOT f AND 0xffff = 0")
    case True
    then have "uint f = 65535" using n by simp
    then show ?thesis using True m by (simp add: checksum_def Let_def f_def [symmetric])
  next
    case False
    then have "uint (NOT f AND 0xffff) \<noteq> 0" by (simp add: uint_0_iff)
    moreover have "take_bit 16 (65535 - uint f) = 65535 - uint f" 
    proof (rule take_bit_int_eq_self)
      show "0 \<le> 65535 - uint f" using f(2) by simp
      show "65535 - uint f < 2 ^ 16" 
      proof -
        have "65535 - x < 2 ^ 16" if "0 \<le> x" for x :: int using that by simp
        then show ?thesis using uint_ge_0 .
      qed
    qed
    then have "uint (ucast (NOT f AND 0xffff) :: u16) = 65535 - uint f" using n by (simp add: unsigned_ucast_eq)
    ultimately show ?thesis using False n m f(2) by (simp add: checksum_def Let_def f_def [symmetric])
  qed
qed

text \<open>
  Up to 128 KB the checksum is never zero and makes the sum of the half-words a multiple of 65535, as the
  Internet checksum is to; beyond, the 32-bit sum of the code can wrap.
\<close>

theorem checksum_complement:
  assumes "length bs \<le> 131072"
  shows "1 \<le> uint (checksum bs) \<and> (uint (checksum bs) + half_sum bs) mod 65535 = 0"
proof (rule checksum_value)
  have "65535 * int ((length bs + 1) div 2) \<le> 65535 * 65536" using assms by simp
  then show "half_sum bs < 2 ^ 32" using half_sum_bound [of bs] by simp
qed

theorem checksum_complement_witness: "1 \<le> uint (checksum [0x4f, 0x42, 1]) \<and> (uint (checksum [0x4f, 0x42, 1]) + 20291) mod 65535 = 0"
  using checksum_complement [of "[0x4f, 0x42, 1]"] by simp

subsection \<open>CRC-32\<close>

definition crc32tab :: "u32 list" where
  "crc32tab = [
     0x00000000, 0x77073096, 0xEE0E612C, 0x990951BA, 0x076DC419, 0x706AF48F, 0xE963A535, 0x9E6495A3,
     0x0EDB8832, 0x79DCB8A4, 0xE0D5E91E, 0x97D2D988, 0x09B64C2B, 0x7EB17CBD, 0xE7B82D07, 0x90BF1D91,
     0x1DB71064, 0x6AB020F2, 0xF3B97148, 0x84BE41DE, 0x1ADAD47D, 0x6DDDE4EB, 0xF4D4B551, 0x83D385C7,
     0x136C9856, 0x646BA8C0, 0xFD62F97A, 0x8A65C9EC, 0x14015C4F, 0x63066CD9, 0xFA0F3D63, 0x8D080DF5,
     0x3B6E20C8, 0x4C69105E, 0xD56041E4, 0xA2677172, 0x3C03E4D1, 0x4B04D447, 0xD20D85FD, 0xA50AB56B,
     0x35B5A8FA, 0x42B2986C, 0xDBBBC9D6, 0xACBCF940, 0x32D86CE3, 0x45DF5C75, 0xDCD60DCF, 0xABD13D59,
     0x26D930AC, 0x51DE003A, 0xC8D75180, 0xBFD06116, 0x21B4F4B5, 0x56B3C423, 0xCFBA9599, 0xB8BDA50F,
     0x2802B89E, 0x5F058808, 0xC60CD9B2, 0xB10BE924, 0x2F6F7C87, 0x58684C11, 0xC1611DAB, 0xB6662D3D,
     0x76DC4190, 0x01DB7106, 0x98D220BC, 0xEFD5102A, 0x71B18589, 0x06B6B51F, 0x9FBFE4A5, 0xE8B8D433,
     0x7807C9A2, 0x0F00F934, 0x9609A88E, 0xE10E9818, 0x7F6A0DBB, 0x086D3D2D, 0x91646C97, 0xE6635C01,
     0x6B6B51F4, 0x1C6C6162, 0x856530D8, 0xF262004E, 0x6C0695ED, 0x1B01A57B, 0x8208F4C1, 0xF50FC457,
     0x65B0D9C6, 0x12B7E950, 0x8BBEB8EA, 0xFCB9887C, 0x62DD1DDF, 0x15DA2D49, 0x8CD37CF3, 0xFBD44C65,
     0x4DB26158, 0x3AB551CE, 0xA3BC0074, 0xD4BB30E2, 0x4ADFA541, 0x3DD895D7, 0xA4D1C46D, 0xD3D6F4FB,
     0x4369E96A, 0x346ED9FC, 0xAD678846, 0xDA60B8D0, 0x44042D73, 0x33031DE5, 0xAA0A4C5F, 0xDD0D7CC9,
     0x5005713C, 0x270241AA, 0xBE0B1010, 0xC90C2086, 0x5768B525, 0x206F85B3, 0xB966D409, 0xCE61E49F,
     0x5EDEF90E, 0x29D9C998, 0xB0D09822, 0xC7D7A8B4, 0x59B33D17, 0x2EB40D81, 0xB7BD5C3B, 0xC0BA6CAD,
     0xEDB88320, 0x9ABFB3B6, 0x03B6E20C, 0x74B1D29A, 0xEAD54739, 0x9DD277AF, 0x04DB2615, 0x73DC1683,
     0xE3630B12, 0x94643B84, 0x0D6D6A3E, 0x7A6A5AA8, 0xE40ECF0B, 0x9309FF9D, 0x0A00AE27, 0x7D079EB1,
     0xF00F9344, 0x8708A3D2, 0x1E01F268, 0x6906C2FE, 0xF762575D, 0x806567CB, 0x196C3671, 0x6E6B06E7,
     0xFED41B76, 0x89D32BE0, 0x10DA7A5A, 0x67DD4ACC, 0xF9B9DF6F, 0x8EBEEFF9, 0x17B7BE43, 0x60B08ED5,
     0xD6D6A3E8, 0xA1D1937E, 0x38D8C2C4, 0x4FDFF252, 0xD1BB67F1, 0xA6BC5767, 0x3FB506DD, 0x48B2364B,
     0xD80D2BDA, 0xAF0A1B4C, 0x36034AF6, 0x41047A60, 0xDF60EFC3, 0xA867DF55, 0x316E8EEF, 0x4669BE79,
     0xCB61B38C, 0xBC66831A, 0x256FD2A0, 0x5268E236, 0xCC0C7795, 0xBB0B4703, 0x220216B9, 0x5505262F,
     0xC5BA3BBE, 0xB2BD0B28, 0x2BB45A92, 0x5CB36A04, 0xC2D7FFA7, 0xB5D0CF31, 0x2CD99E8B, 0x5BDEAE1D,
     0x9B64C2B0, 0xEC63F226, 0x756AA39C, 0x026D930A, 0x9C0906A9, 0xEB0E363F, 0x72076785, 0x05005713,
     0x95BF4A82, 0xE2B87A14, 0x7BB12BAE, 0x0CB61B38, 0x92D28E9B, 0xE5D5BE0D, 0x7CDCEFB7, 0x0BDBDF21,
     0x86D3D2D4, 0xF1D4E242, 0x68DDB3F8, 0x1FDA836E, 0x81BE16CD, 0xF6B9265B, 0x6FB077E1, 0x18B74777,
     0x88085AE6, 0xFF0F6A70, 0x66063BCA, 0x11010B5C, 0x8F659EFF, 0xF862AE69, 0x616BFFD3, 0x166CCF45,
     0xA00AE278, 0xD70DD2EE, 0x4E048354, 0x3903B3C2, 0xA7672661, 0xD06016F7, 0x4969474D, 0x3E6E77DB,
     0xAED16A4A, 0xD9D65ADC, 0x40DF0B66, 0x37D83BF0, 0xA9BCAE53, 0xDEBB9EC5, 0x47B2CF7F, 0x30B5FFE9,
     0xBDBDF21C, 0xCABAC28A, 0x53B39330, 0x24B4A3A6, 0xBAD03605, 0xCDD70693, 0x54DE5729, 0x23D967BF,
     0xB3667A2E, 0xC4614AB8, 0x5D681B02, 0x2A6F2B94, 0xB40BBE37, 0xC30C8EA1, 0x5A05DF1B, 0x2D02EF8D]"

fun crc32 :: "u8 list \<Rightarrow> u32 \<Rightarrow> u32" where
  "crc32 [] crc = crc"
| "crc32 (b # bs) crc =
     (let ch = b XOR ucast (crc AND 0xFF); crc = drop_bit 8 crc; crc = crc XOR crc32tab ! unat ch in crc32 bs crc)"

text \<open>The polynomial division the table stands for, one bit at a time, the lowest first.\<close>

definition crc_bit :: "u32 \<Rightarrow> u32" where
  "crc_bit c = (if bit c 0 then drop_bit 1 c XOR 0xEDB88320 else drop_bit 1 c)"

definition crc_byte :: "u32 \<Rightarrow> u8 \<Rightarrow> u32" where
  "crc_byte c b = (crc_bit ^^ 8) (c XOR ucast b)"

text \<open>The table is checked on integers, where the steps are quick to compute.\<close>

definition crc_bit_int :: "int \<Rightarrow> int" where
  "crc_bit_int c = (if odd c then c div 2 XOR 0xEDB88320 else c div 2)"

lemma crc_bit_int_simps:
  "crc_bit_int 0 = 0" "crc_bit_int 1 = 0xEDB88320" "crc_bit_int (numeral (num.Bit0 n)) = numeral n"
  "crc_bit_int (numeral (num.Bit1 n)) = numeral n XOR 0xEDB88320"
  by (simp_all add: crc_bit_int_def)

lemma crc_bit_int: "uint (crc_bit c) = crc_bit_int (uint c)"
proof -
  have d: "uint (drop_bit 1 c) = uint c div 2"
  proof -
    have "take_bit 32 (uint c) = uint c" by (rule take_bit_int_eq_self) (use uint_bounded [of c] in simp_all)
    then show ?thesis by (simp only: unsigned_drop_bit_eq) (simp add: drop_bit_eq_div)
  qed
  have "bit c 0 \<longleftrightarrow> odd (uint c)" by (simp add: bit_uint_iff flip: bit_0)
  then show ?thesis using d by (simp add: crc_bit_def crc_bit_int_def unsigned_xor_eq)
qed

lemma crc_bits_int: "uint ((crc_bit ^^ n) c) = (crc_bit_int ^^ n) (uint c)"
  by (induction n) (simp_all add: crc_bit_int)

lemma crc32tab_values: "map uint crc32tab = map (\<lambda>c. crc_bit_int (crc_bit_int (crc_bit_int (crc_bit_int
    (crc_bit_int (crc_bit_int (crc_bit_int (crc_bit_int c)))))))) [0..255]"
  by (simp add: crc32tab_def crc_bit_int_simps upto.simps)

lemma crc32tab_ok: "i < 256 \<Longrightarrow> crc32tab ! i = (crc_bit ^^ 8) (word_of_nat i)"
proof -
  assume i: "i < 256"
  have l: "length crc32tab = 256" using arg_cong [OF crc32tab_values, of length] by simp
  have "uint (crc32tab ! i) = map uint crc32tab ! i" using i l by simp
  also have "\<dots> = (crc_bit_int ^^ 8) (int i)"
    unfolding crc32tab_values using i by (simp add: nth_upto eval_nat_numeral)
  also have "\<dots> = uint ((crc_bit ^^ 8) (word_of_nat i))"
    using i by (simp only: crc_bits_int) (simp add: unsigned_of_nat take_bit_nat_eq_self)
  finally show ?thesis by (simp only: word_uint_eq_iff)
qed

lemma crc_bit_xor: "crc_bit (a XOR b) = crc_bit a XOR crc_bit b"
  by (simp add: crc_bit_def bit_xor_iff drop_bit_xor) (simp add: ac_simps xor.left_commute)

lemma crc_bits_xor: "(crc_bit ^^ n) (a XOR b) = (crc_bit ^^ n) a XOR (crc_bit ^^ n) b"
  by (induction n) (simp_all add: crc_bit_xor)

lemma crc_bits_high: "\<forall>i<n. \<not> bit c i \<Longrightarrow> (crc_bit ^^ n) c = drop_bit n c"
proof (induction n)
  case (Suc n)
  then have "(crc_bit ^^ n) c = drop_bit n c" "\<not> bit c n" by auto
  then have "(crc_bit ^^ Suc n) c = crc_bit (drop_bit n c)" "\<not> bit (drop_bit n c) 0" by (simp_all add: bit_drop_bit_eq)
  then show ?case by (simp only:) (simp add: crc_bit_def)
qed simp

lemma crc_byte_table: "crc_byte crc b = drop_bit 8 crc XOR crc32tab ! unat (b XOR ucast (crc AND 0xFF))"
proof -
  define ch where "ch = b XOR ucast (crc AND 0xFF)"
  define low :: u32 where "low = 0xFF"
  have "low = mask 8" by (simp add: low_def mask_eq_exp_minus_1)
  then have m: "bit low i \<longleftrightarrow> i < 8" for i by (simp only: bit_mask_iff) auto
  have e: "crc XOR ucast b = (crc AND NOT low) XOR (ucast ch :: u32)"
    by (rule bit_word_eqI) (auto simp: bit_xor_iff bit_and_iff bit_not_iff bit_ucast_iff ch_def m simp flip: low_def)
  have "\<forall>i<8. \<not> bit (crc AND NOT low) i" by (auto simp: bit_and_iff bit_not_iff m)
  then have h: "(crc_bit ^^ 8) (crc AND NOT low) = drop_bit 8 (crc AND NOT low)" by (rule crc_bits_high)
  have d: "drop_bit 8 (crc AND NOT low) = drop_bit 8 crc"
    by (rule bit_word_eqI) (auto simp: bit_drop_bit_eq bit_and_iff bit_not_iff m dest: bit_imp_le_length)
  have "unat ch < 256" using unsigned_less [of ch, where 'a = nat] by simp
  then have "crc32tab ! unat ch = (crc_bit ^^ 8) (word_of_nat (unat ch))"
    by (rule crc32tab_ok)
  moreover have "word_of_nat (unat ch) = (ucast ch :: u32)" by (simp add: unsigned_def)
  ultimately have t: "crc32tab ! unat ch = (crc_bit ^^ 8) (ucast ch)" by simp
  show ?thesis unfolding crc_byte_def e crc_bits_xor h d ch_def [symmetric] t ..
qed

text \<open>
  C38. The table-driven CRC is CRC-32: on all bytes and from all seeds it is the register that is shifted
  right a bit at a time and XORed with the polynomial when a one falls out.
\<close>

theorem crc32_bitwise: "crc32 bs seed = foldl crc_byte seed bs"
proof (induction bs arbitrary: seed)
  case (Cons b bs)
  then show ?case unfolding crc32.simps Let_def crc_byte_table [symmetric] by simp
qed simp

end
