(* ===== verification/Dropin.thy ===== *)
theory Dropin
  imports Lzw_Run Checksum
begin

text \<open>
  Drop-ins: the files of the boot PROM.  \<open>make_dropin\<close> of \<open>obp/tools/makedi.c\<close> puts a header, the
  checksum and the data, compressed if that helps, into a buffer; \<open>obp/tools/dropin/finddropin.c\<close> finds a
  drop-in by its path and gives its data back.  Memory is a list of bytes from a pointer to the end
  of the object it points into; a pointer that goes back before the list is \<open>Bad_access\<close>.  Numbers are
  stored in the byte order of SPARC.  Messages are left out.

  Shown here: what was made can be found and read back, with its checksum right; two ways in which the
  search goes wrong.
\<close>

subsection \<open>Memory\<close>

definition be32 :: "int \<Rightarrow> u8 list" where
  "be32 x = [of_int (x div 2 ^ 24), of_int (x div 2 ^ 16), of_int (x div 2 ^ 8), of_int x]"

definition be16 :: "int \<Rightarrow> u8 list" where
  "be16 x = [of_int (x div 2 ^ 8), of_int x]"

definition put :: "nat \<Rightarrow> u8 list \<Rightarrow> u8 list \<Rightarrow> u8 list hv" where
  "put off bs mem = hguard (off + length bs \<le> length mem) (Inr (take off mem @ bs @ drop (off + length bs) mem))"

definition get32 :: "u8 list \<Rightarrow> nat \<Rightarrow> int hv" where
  "get32 mem off = hguard (off + 4 \<le> length mem)
     (Inr (((uint (mem ! off) * 256 + uint (mem ! (off + 1))) * 256 + uint (mem ! (off + 2))) * 256 + uint (mem ! (off + 3))))"

text \<open>A field of type \<open>int\<close> holds its number with a sign.\<close>

definition signed32 :: "int \<Rightarrow> int" where
  "signed32 x = (if x < 2 ^ 31 then x else x - 2 ^ 32)"

definition OBMD_HDR :: nat where "OBMD_HDR = 32"
definition COMP_HDR :: nat where "COMP_HDR = 16"
definition OBMD :: "u8 list" where "OBMD = [0x4f, 0x42, 0x4d, 0x44]"
definition OBME_MAGIC :: int where "OBME_MAGIC = 0x4f424d45"
definition COMP_MAGIC :: int where "COMP_MAGIC = 0x434f4d50"

subsection \<open>Making a drop-in\<close>

text \<open>The data: what is written behind the header, and its size.\<close>

definition make_data :: "bool \<Rightarrow> u8 list \<Rightarrow> u8 list \<Rightarrow> comp_state \<Rightarrow> (int \<times> u8 list \<times> comp_state) hv" where
  "make_data compressing mem buffer s =
     (if compressing
      then hbind (put OBMD_HDR (be32 COMP_MAGIC) mem) (\<lambda>mem.
           hbind (put (OBMD_HDR + 8) (be32 COMP_MAGIC) mem) (\<lambda>mem.
           hbind (put (OBMD_HDR + 12) (be32 (int (length buffer))) mem) (\<lambda>mem.
           hbind (comp buffer s) (\<lambda>(clen, out, s).
           hbind (put (OBMD_HDR + COMP_HDR) out mem) (\<lambda>mem.
           let clen = clen + int COMP_HDR in
           hbind (put (OBMD_HDR + 4) (be32 clen) mem) (\<lambda>mem.
             if clen \<ge> int (length buffer)
             then hbind (put OBMD_HDR buffer mem) (\<lambda>mem. Inr (int (length buffer), mem, s))
             else Inr (clen, mem, s)))))))
      else hbind (put OBMD_HDR buffer mem) (\<lambda>mem. Inr (int (length buffer), mem, s)))"

text \<open>\<open>mem\<close> is the memory from \<open>prom\<close> on. The checksum is taken while its field is zero.\<close>

definition make_dropin :: "bool \<Rightarrow> u8 list \<Rightarrow> u8 list \<Rightarrow> u8 list \<Rightarrow> comp_state \<Rightarrow> (int \<times> u8 list \<times> comp_state) hv" where
  "make_dropin compressing name mem buffer s =
     hbind (put 0 (replicate OBMD_HDR 0) mem) (\<lambda>mem.
     hbind (make_data compressing mem buffer s) (\<lambda>(clen, mem, s).
     hbind (put 0 OBMD mem) (\<lambda>mem.
     hbind (put 4 (be32 clen) mem) (\<lambda>mem.
     hbind (put 8 (be16 0) mem) (\<lambda>mem.
     hbind (put 12 (be32 0) mem) (\<lambda>mem.
     hbind (put 10 (be16 0) mem) (\<lambda>mem.
     if length name > 15 then Inl Fatal
     else
     hbind (put 16 (replicate 16 0) mem) (\<lambda>mem.
     hbind (put 16 name mem) (\<lambda>mem.
     let n = nat clen + OBMD_HDR in
     hguard (n \<le> length mem)
       (let crc = checksum (take n mem) in
        hbind (put 10 (be16 (uint crc)) mem) (\<lambda>mem.
          if n mod 4 \<noteq> 0
          then hbind (put n (replicate (4 - n mod 4) 1) mem) (\<lambda>mem. Inr (int (n + (4 - n mod 4)), mem, s))
          else Inr (int n, mem, s))))))))))))"

text \<open>The name of the file: what follows the last slash, up to the last dot, and \<open>.di\<close>, in a buffer of 40 bytes.\<close>

definition make_dropin_name :: "u8 list \<Rightarrow> u8 list hv" where
  "make_dropin_name name =
     (let outname = rev (takeWhile (\<lambda>c. c \<noteq> 0x2f) (rev name))
      in hguard (length outname < 40)
           (let outname = (if 0x2e \<in> set outname then rev (tl (dropWhile (\<lambda>c. c \<noteq> 0x2e) (rev outname))) else outname)
            in hguard (length outname + 3 < 40) (Inr (outname @ [0x2e, 0x64, 0x69]))))"

subsection \<open>Taking it apart\<close>

text \<open>
  \<open>do_lempel_ziv\<close> decompresses into a buffer of \<open>dlen\<close> bytes and copies all of it; bytes that were
  not written are undefined.  When the memory ends before \<open>len\<close> bytes, a byte stands for what is
  behind it: a run that takes this byte has read past the end.
\<close>

definition do_lempel_ziv :: "u8 list \<Rightarrow> nat \<Rightarrow> int \<Rightarrow> decomp_state \<Rightarrow> (u8 list \<times> decomp_state) hv" where
  "do_lempel_ziv src len dlen d =
     hbind (decomp (if length src < len then src @ [0] else take len src) d) (\<lambda>(nlen, out, d).
       if length src < len \<and> ds_input d = [] then Inl Bad_access
       else if nlen > dlen then Inl Bad_access else if nlen < dlen then Inl Undefined else Inr (out, d))"

text \<open>The pointer and the size \<open>di_getdata\<close> fills in: the memory from the pointer on, and a number.\<close>

definition di_getdata :: "u8 list \<Rightarrow> decomp_state \<Rightarrow> (u8 list \<times> int \<times> decomp_state) hv" where
  "di_getdata src d =
     hbind (get32 src 4) (\<lambda>size.
     let data = drop OBMD_HDR src in
     hbind (get32 data 0) (\<lambda>magic.
     hbind (if magic = COMP_MAGIC then hbind (get32 data 4) (\<lambda>comp_size. Inr (size = comp_size)) else Inr False) (\<lambda>compressed.
     hbind (if compressed
            then hbind (get32 data 8) (\<lambda>type. hbind (get32 data 12) (\<lambda>dlen.
                   if type = COMP_MAGIC
                   then hbind (do_lempel_ziv (drop COMP_HDR data) (nat (signed32 size)) (signed32 dlen) d) (\<lambda>(data, d). Inr (data, signed32 dlen, d))
                   else Inr (data, signed32 dlen, d)))
            else Inr (data, signed32 size, d)) (\<lambda>(data, dlen, d).
     hbind (get32 data 0) (\<lambda>first.
       if first = OBME_MAGIC then Inr (drop 4 data, dlen - 4, d) else Inr (data, dlen, d))))))"

text \<open>
  \<open>extract_string\<close>: the data as a string, if it fits 128 bytes with its end.  \<open>strncpy\<close> takes a
  negative size for a huge one and writes that many bytes.
\<close>

definition extract_string :: "u8 list \<Rightarrow> int \<Rightarrow> u8 list option hv" where
  "extract_string data n =
     (if n < 0 \<or> n = 2 ^ 31 - 1 then Inl Bad_access
      else if n + 1 > 0x80 then Inr None
      else hguard (nat n \<le> length data \<or> 0 \<in> set data) (Inr (Some (takeWhile (\<lambda>c. c \<noteq> 0) (take (nat n) data)))))"

definition di_isdropin :: "u8 list \<Rightarrow> bool" where
  "di_isdropin src \<longleftrightarrow> take 4 src = OBMD"

definition di_islevel2 :: "u8 list \<Rightarrow> bool hv" where
  "di_islevel2 src = (if di_isdropin src then hbind (get32 (drop OBMD_HDR src) 0) (\<lambda>w. Inr (w = OBME_MAGIC)) else Inr False)"

text \<open>The name in a header, a string that ends with the first zero.\<close>

definition di_name :: "u8 list \<Rightarrow> u8 list" where
  "di_name src = takeWhile (\<lambda>c. c \<noteq> 0) (drop 16 src)"

text \<open>
  \<open>strcmp\<close> and \<open>strncmp\<close> read until two bytes differ or the string ends; memory that ends while it
  agrees with the string is read past its end.
\<close>

definition ends_within :: "u8 list \<Rightarrow> u8 list \<Rightarrow> bool" where
  "ends_within mem s \<longleftrightarrow> length mem < length s \<and> mem = take (length mem) s"

text \<open>
  The loop of \<open>di_iterate\<close>: where the pointer is in \<open>mem\<close>, the bytes passed and the number found.  A
  negative size takes the pointer back, so the loop need not end; there are no more states than the fuel.
\<close>

definition di_step :: "u8 list \<Rightarrow> u8 list \<Rightarrow> int \<Rightarrow> int \<Rightarrow> int \<times> int \<times> int \<Rightarrow> int \<times> int \<times> int + u8 list option hv" where
  "di_step name mem sz instance = (\<lambda>(off, bytes, num).
     if \<not> (bytes < sz \<and> num \<le> instance) then Inr (Inr None)
     else if \<not> (0 \<le> off \<and> off < int (length mem)) then Inr (Inl Bad_access)
     else let src = drop (nat off) mem; pad = length (takeWhile (\<lambda>c. c = 1) src);
              src = drop pad src; off = off + int pad; bytes = bytes + int pad
          in if ends_within src OBMD then Inr (Inl Bad_access)
          else if \<not> di_isdropin src then Inr (Inr None)
          else if ends_within (drop 16 src) (name @ [0]) then Inr (Inl Bad_access)
          else if di_name src = name \<and> instance = num then Inr (Inr (Some src))
          else case get32 src 4 of Inl e \<Rightarrow> Inr (Inl e)
          | Inr n \<Rightarrow> let num = (if di_name src = name then num + 1 else num); dlen = signed32 n + int OBMD_HDR
                    in Inl (off + dlen, bytes + dlen, num))"

definition di_iterate :: "u8 list \<Rightarrow> u8 list \<Rightarrow> int \<Rightarrow> int \<Rightarrow> u8 list option hv" where
  "di_iterate name mem sz instance = hloop (di_step name mem sz instance) (Suc (nat sz * nat instance)) (0, 0, 1)"

text \<open>
  The loop of \<open>di_finddropin\<close>: each turn looks for the first drop-in of the name, from one drop-in further
  on than the turn before.
\<close>

fun di_instances :: "nat \<Rightarrow> u8 list \<Rightarrow> u8 list \<Rightarrow> int \<Rightarrow> int \<Rightarrow> u8 list option \<Rightarrow> u8 list option hv" where
  "di_instances 0 container mem filesize off data = Inr data"
| "di_instances (Suc n) container mem filesize off data =
     hguard (0 \<le> off \<and> off \<le> int (length mem))
       (hbind (di_iterate container (drop (nat off) mem) filesize 1) (\<lambda>data.
        hbind (get32 (drop (nat off) mem) 4) (\<lambda>size.
        di_instances n container mem filesize (off + (signed32 size + int OBMD_HDR)) data)))"

lemma path_shorter:
  "name \<noteq> [] \<Longrightarrow> length (dropWhile P name) - Suc 0 < length name"
  "name \<noteq> [] \<Longrightarrow> length (dropWhile P (tl name)) - Suc 0 < length name"
  using length_dropWhile_le [of P name] length_dropWhile_le [of P "tl name"] by (cases name; simp; linarith)+

text \<open>A name that starts with a slash descends into the data of the first drop-in, and each further slash into what was found.\<close>

function di_finddropin :: "u8 list \<Rightarrow> u8 list \<Rightarrow> int \<Rightarrow> int \<Rightarrow> decomp_state \<Rightarrow> (u8 list option \<times> decomp_state) hv" where
  "di_finddropin name src filesize instance d =
     (let src = dropWhile (\<lambda>c. c = 1) src; inside = name \<noteq> [] \<and> hd name = 0x2f; name = (if inside then tl name else name)
      in hguard (src \<noteq> [])
        (hbind (if inside then di_getdata src d else Inr (src, filesize, d)) (\<lambda>(src, size, d).
           if name = [] then Inr (None, d)
           else if ends_within src OBMD then Inl Bad_access
           else if \<not> di_isdropin src \<or> size \<le> 0 then Inr (None, d)
           else let container = takeWhile (\<lambda>c. c \<noteq> 0x2f) name; rest = dropWhile (\<lambda>c. c \<noteq> 0x2f) name
             in hbind (di_instances (nat instance) container src filesize 0 None) (\<lambda>data. case data of
                  None \<Rightarrow> Inr (None, d)
                | Some p \<Rightarrow> if rest = [] then Inr (Some p, d)
                    else hbind (di_getdata p d) (\<lambda>(new, new_size, d). di_finddropin (tl rest) new new_size 1 d)))))"
  by pat_completeness auto
termination
  by (relation "measure (\<lambda>(name, src, sz, k, d). length name)") (auto simp: path_shorter)

declare di_finddropin.simps [simp del]

subsection \<open>Bytes in their places\<close>

lemma be32_length [simp]: "length (be32 x) = 4" and be16_length [simp]: "length (be16 x) = 2"
  by (simp_all add: be32_def be16_def)

lemma put_middle: "length xs = off \<Longrightarrow> length ys = length bs \<Longrightarrow> put off bs (xs @ ys @ zs) = Inr (xs @ bs @ zs)"
  by (simp add: put_def)

lemma put_end: "length xs = off \<Longrightarrow> length bs \<le> length ys \<Longrightarrow> put off bs (xs @ ys) = Inr (xs @ bs @ drop (length bs) ys)"
  by (simp add: put_def)

lemma get32_be32:
  assumes "0 \<le> x" and "x < 2 ^ 32"
  shows "get32 (be32 x @ ys) 0 = Inr x"
proof -
  define x1 x2 x3 where d: "x1 = x div 256" "x2 = x1 div 256" "x3 = x2 div 256"
  have s: "x div 2 ^ 8 = x1" "x div 2 ^ 16 = x2" "x div 2 ^ 24 = x3"
    using zdiv_zmult2_eq [of 256 x 256] zdiv_zmult2_eq [of 65536 x 256] zdiv_zmult2_eq [of 256 "x div 256" 256] by (simp_all add: d)
  have "0 \<le> x3" "x3 < 256" using assms by (simp_all add: s(3) [symmetric] pos_imp_zdiv_nonneg_iff)
  then have m: "x3 mod 256 = x3" by simp
  have h: "x3 * 256 + x2 mod 256 = x2" "x2 * 256 + x1 mod 256 = x1" "x1 * 256 + x mod 256 = x" unfolding d by (rule div_mult_mod_eq)+
  have "get32 (be32 x @ ys) 0 = Inr (((x3 mod 256 * 256 + x2 mod 256) * 256 + x1 mod 256) * 256 + x mod 256)"
    by (simp only: be32_def s append_Cons) (simp add: get32_def uint_word_of_int)
  then show ?thesis by (simp only: m h)
qed

lemma get32_append: "length xs = off \<Longrightarrow> get32 (xs @ ys) off = get32 ys 0"
  by (auto simp: get32_def nth_append numeral_2_eq_2 numeral_3_eq_3)

lemma get32_range: "get32 mem off = Inr x \<Longrightarrow> 0 \<le> x \<and> x < 2 ^ 32"
  using uint_u8_bounds [of "mem ! off"] uint_u8_bounds [of "mem ! (off + 1)"] uint_u8_bounds [of "mem ! (off + 2)"]
    uint_u8_bounds [of "mem ! (off + 3)"] by (auto simp: get32_def hguard_eq_Inr)

text \<open>The header of a compressed drop-in's data.\<close>

definition comp_hdr :: "int \<Rightarrow> int \<Rightarrow> u8 list" where
  "comp_hdr clen dlen = be32 COMP_MAGIC @ be32 clen @ be32 COMP_MAGIC @ be32 dlen"

definition comp_out :: "u8 list \<Rightarrow> comp_state \<Rightarrow> u8 list" where
  "comp_out buffer s = (case comp buffer s of Inr (n, out, s') \<Rightarrow> out | Inl e \<Rightarrow> [])"

text \<open>What is stored: the compressed data if that is shorter.\<close>

definition stored :: "bool \<Rightarrow> u8 list \<Rightarrow> comp_state \<Rightarrow> u8 list" where
  "stored compressing buffer s =
     (if compressing \<and> length (comp_out buffer s) + 16 < length buffer
      then comp_hdr (int (length (comp_out buffer s)) + 16) (int (length buffer)) @ comp_out buffer s else buffer)"

lemma make_data_ok:
  assumes "length hdr = 32" and "buffer \<noteq> []" and "length buffer \<le> 32012000" and "length buffer \<le> length rest"
    and "compressing \<Longrightarrow> cs_alloutbytes s = 0 \<and> length (comp_out buffer s) + 16 \<le> length rest"
  shows "\<exists>rest' s'. make_data compressing (hdr @ rest) buffer s = Inr (int (length (stored compressing buffer s)), hdr @ stored compressing buffer s @ rest', s') \<and>
    length (stored compressing buffer s) + length rest' = length rest"
proof (cases compressing)
  case False
  then show ?thesis using assms
    by (intro exI [of _ "drop (length buffer) rest"] exI [of _ s]) (simp add: make_data_def put_end OBMD_HDR_def stored_def)
next
  case True
  obtain out s' where c: "comp buffer s = Inr (cs_alloutbytes s', out, s')" by (rule comp_decomp_inverse [OF assms(2,3), of s])
  then have out: "comp_out buffer s = out" "cs_alloutbytes s' = int (length out)"
    using comp_size [OF c] assms(5) True by (simp_all add: comp_out_def)
  define h1 h2 h3 h4 where h: "h1 = take 4 rest" "h2 = take 4 (drop 4 rest)" "h3 = take 4 (drop 8 rest)" "h4 = take 4 (drop 12 rest)"
  have l: "length out + 16 \<le> length rest" using assms(5) True out by simp
  have "drop 12 rest = h4 @ drop 16 rest" "drop 8 rest = h3 @ drop 12 rest" "drop 4 rest = h2 @ drop 8 rest" "rest = h1 @ drop 4 rest"
    using append_take_drop_id [of 4 "drop 12 rest"] append_take_drop_id [of 4 "drop 8 rest"] append_take_drop_id [of 4 "drop 4 rest"]
      append_take_drop_id [of 4 rest] by (simp_all add: h)
  then have "rest = h1 @ h2 @ h3 @ h4 @ drop 16 rest" by metis
  then obtain t16 where r: "rest = h1 @ h2 @ h3 @ h4 @ t16" by blast
  have hl: "length h1 = 4" "length h2 = 4" "length h3 = 4" "length h4 = 4" using l by (simp_all add: h)
  have tl: "length out \<le> length t16" using l hl arg_cong [OF r, of length] by simp
  let ?t = t16 and ?n = "int (length out) + 16" and ?m = "be32 COMP_MAGIC" and ?d = "be32 (int (length buffer))"
  let ?r = "drop (length out) ?t"
  have p1: "put OBMD_HDR ?m (hdr @ h1 @ h2 @ h3 @ h4 @ ?t) = Inr (hdr @ ?m @ h2 @ h3 @ h4 @ ?t)"
    using put_middle [of hdr 32 h1 ?m] assms(1) hl by (simp add: OBMD_HDR_def)
  have p2: "put (OBMD_HDR + 8) ?m (hdr @ ?m @ h2 @ h3 @ h4 @ ?t) = Inr (hdr @ ?m @ h2 @ ?m @ h4 @ ?t)"
    using put_middle [of "hdr @ ?m @ h2" 40 h3 ?m] assms(1) hl by (simp add: OBMD_HDR_def)
  have p3: "put (OBMD_HDR + 12) ?d (hdr @ ?m @ h2 @ ?m @ h4 @ ?t) = Inr (hdr @ ?m @ h2 @ ?m @ ?d @ ?t)"
    using put_middle [of "hdr @ ?m @ h2 @ ?m" 44 h4 ?d] assms(1) hl by (simp add: OBMD_HDR_def)
  have p4: "put (OBMD_HDR + COMP_HDR) out (hdr @ ?m @ h2 @ ?m @ ?d @ ?t) = Inr (hdr @ ?m @ h2 @ ?m @ ?d @ out @ ?r)"
    using put_end [of "hdr @ ?m @ h2 @ ?m @ ?d" 48 out ?t] assms(1) hl tl by (simp add: OBMD_HDR_def COMP_HDR_def)
  have p5: "put (OBMD_HDR + 4) (be32 ?n) (hdr @ ?m @ h2 @ ?m @ ?d @ out @ ?r) = Inr (hdr @ ?m @ be32 ?n @ ?m @ ?d @ out @ ?r)"
    using put_middle [of "hdr @ ?m" 36 h2 "be32 ?n"] assms(1) hl by (simp add: OBMD_HDR_def)
  define all where "all = ?m @ be32 ?n @ ?m @ ?d @ out @ ?r"
  have al: "length all = length rest" using tl hl arg_cong [OF r, of length] by (simp add: all_def)
  have ch: "int COMP_HDR = 16" by (simp add: COMP_HDR_def)
  have m: "make_data compressing (hdr @ rest) buffer s = (if ?n \<ge> int (length buffer)
      then hbind (put OBMD_HDR buffer (hdr @ all)) (\<lambda>mem. Inr (int (length buffer), mem, s')) else Inr (?n, hdr @ all, s'))"
    unfolding make_data_def by (subst r) (simp add: True p1 p2 p3 c p4 out(2) ch p5 Let_def all_def)
  show ?thesis
  proof (cases "?n \<ge> int (length buffer)")
    case True
    have "put OBMD_HDR buffer (hdr @ all) = Inr (hdr @ buffer @ drop (length buffer) all)"
      by (rule put_end) (use assms(1,4) al in \<open>simp_all add: OBMD_HDR_def\<close>)
    then show ?thesis using m True al assms(4) out(1)
      by (intro exI [of _ "drop (length buffer) all"] exI [of _ s']) (simp add: stored_def)
  next
    case False
    then have st: "stored compressing buffer s = comp_hdr ?n (int (length buffer)) @ out" using \<open>compressing\<close> out(1) by (simp add: stored_def)
    show ?thesis using m False l al unfolding st by (intro exI [of _ ?r] exI [of _ s']) (simp add: comp_hdr_def all_def)
  qed
qed


text \<open>A drop-in in memory: the fields in their places, and up to three bytes of 1 behind.\<close>

definition header :: "u8 list \<Rightarrow> u8 list \<Rightarrow> int \<Rightarrow> u8 list" where
  "header name chk n = OBMD @ be32 n @ be16 0 @ chk @ be32 0 @ name @ replicate (16 - length name) 0"

definition dropin_bytes :: "u8 list \<Rightarrow> u8 list \<Rightarrow> u8 list" where
  "dropin_bytes name dat =
     (let n = int (length dat); chk = be16 (uint (checksum (header name (be16 0) n @ dat)))
      in header name chk n @ dat @ (if (length dat + 32) mod 4 = 0 then [] else replicate (4 - (length dat + 32) mod 4) 1))"

lemma header_length: "length name \<le> 15 \<Longrightarrow> length chk = 2 \<Longrightarrow> length (header name chk n) = 32"
  by (simp add: header_def OBMD_def)

lemma zeros_split: "replicate 32 (0::u8) = replicate 4 0 @ replicate 4 0 @ replicate 2 0 @ replicate 2 0 @ replicate 4 0 @ replicate 16 0"
  by (simp add: eval_nat_numeral)

lemma be_zero: "be16 0 = replicate 2 0" "be32 0 = replicate 4 0"
  by (simp_all add: be16_def be32_def eval_nat_numeral)

lemma put_header:
  assumes "length name \<le> 15" and "length z = 32" and "z = replicate 32 0"
  shows "hbind (put 0 OBMD (z @ rest)) (\<lambda>mem. hbind (put 4 (be32 n) mem) (\<lambda>mem. hbind (put 8 (be16 0) mem) (\<lambda>mem.
     hbind (put 12 (be32 0) mem) (\<lambda>mem. hbind (put 10 (be16 0) mem) (\<lambda>mem.
     hbind (put 16 (replicate 16 0) mem) (\<lambda>mem. hbind (put 16 name mem) k)))))) = k (header name (be16 0) n @ rest)"
proof -
  let ?z = "\<lambda>n. replicate n (0::u8)"
  have z: "z = ?z 4 @ ?z 4 @ ?z 2 @ ?z 2 @ ?z 4 @ ?z 16" using assms(3) zeros_split by simp
  have l: "length OBMD = 4" by (simp add: OBMD_def)
  have n16: "?z 16 = ?z (length name) @ ?z (16 - length name)" using assms(1) by (simp flip: replicate_add)
  have q: "put 0 OBMD (?z 4 @ ys) = Inr (OBMD @ ys)" for ys using put_middle [of "[]" 0 "?z 4" OBMD ys] l by simp
  have q4: "put 4 (be32 n) (OBMD @ ?z 4 @ ys) = Inr (OBMD @ be32 n @ ys)" for ys using put_middle [of OBMD 4 "?z 4" "be32 n" ys] l by simp
  have q8: "put 8 (be16 0) (OBMD @ be32 n @ ?z 2 @ ys) = Inr (OBMD @ be32 n @ be16 0 @ ys)" for ys
    using put_middle [of "OBMD @ be32 n" 8 "?z 2" "be16 0" ys] l by simp
  have q12: "put 12 (be32 0) (OBMD @ be32 n @ be16 0 @ ?z 2 @ ?z 4 @ ys) = Inr (OBMD @ be32 n @ be16 0 @ ?z 2 @ be32 0 @ ys)" for ys
    using put_middle [of "OBMD @ be32 n @ be16 0 @ ?z 2" 12 "?z 4" "be32 0" ys] l by simp
  have q10: "put 10 (be16 0) (OBMD @ be32 n @ be16 0 @ ?z 2 @ ys) = Inr (OBMD @ be32 n @ be16 0 @ be16 0 @ ys)" for ys
    using put_middle [of "OBMD @ be32 n @ be16 0" 10 "?z 2" "be16 0" ys] l by simp
  have q16: "put 16 (?z 16) (OBMD @ be32 n @ be16 0 @ be16 0 @ be32 0 @ ?z 16 @ ys) = Inr (OBMD @ be32 n @ be16 0 @ be16 0 @ be32 0 @ ?z 16 @ ys)" for ys
    using put_middle [of "OBMD @ be32 n @ be16 0 @ be16 0 @ be32 0" 16 "?z 16" "?z 16" ys] l by simp
  have qn: "put 16 name (OBMD @ be32 n @ be16 0 @ be16 0 @ be32 0 @ ?z 16 @ ys) = Inr (OBMD @ be32 n @ be16 0 @ be16 0 @ be32 0 @ name @ ?z (16 - length name) @ ys)" for ys
    using put_middle [of "OBMD @ be32 n @ be16 0 @ be16 0 @ be32 0" 16 "?z (length name)" name "?z (16 - length name) @ ys"] l unfolding n16 by simp
  show ?thesis unfolding z by (simp add: q q4 q8 q12 q10 q16 qn header_def)
qed

text \<open>What \<open>make_dropin\<close> leaves in memory and returns.\<close>

lemma make_dropin_bytes:
  assumes "length name \<le> 15" and "buffer \<noteq> []" and "length buffer \<le> 32012000" and "length buffer + 35 \<le> length mem"
    and "compressing \<Longrightarrow> cs_alloutbytes s = 0 \<and> length (comp_out buffer s) + 48 \<le> length mem"
  shows "\<exists>rest s'. make_dropin compressing name mem buffer s =
     Inr (int (length (dropin_bytes name (stored compressing buffer s))), dropin_bytes name (stored compressing buffer s) @ rest, s')"
proof -
  let ?d = "stored compressing buffer s" and ?z = "replicate 32 (0 :: u8)"
  let ?n = "int (length ?d)"
  have p0: "put 0 (replicate OBMD_HDR 0) mem = Inr (?z @ drop 32 mem)"
    using assms(4) by (simp add: put_def OBMD_HDR_def)
  obtain rest s' where md: "make_data compressing (?z @ drop 32 mem) buffer s = Inr (?n, ?z @ ?d @ rest, s')"
    and rl: "length ?d + length rest = length mem - 32"
  proof -
    have "length buffer \<le> length (drop 32 mem)" using assms(4) by simp
    moreover have "cs_alloutbytes s = 0 \<and> length (comp_out buffer s) + 16 \<le> length (drop 32 mem)" if compressing
      using assms(5) [OF that] by auto
    ultimately show ?thesis using make_data_ok [of ?z buffer "drop 32 mem" compressing s] assms(2,3) that by auto
  qed
  have dl: "length ?d \<le> length buffer" by (simp add: stored_def comp_hdr_def)
  have r3: "3 \<le> length rest" using rl dl assms(4) by simp
  let ?h0 = "header name (be16 0) ?n"
  let ?chk = "be16 (uint (checksum (?h0 @ ?d)))"
  have hl: "length ?h0 = 32" by (rule header_length) (use assms(1) in simp_all)
  have tk: "take (length ?d + 32) (?h0 @ ?d @ rest) = ?h0 @ ?d" using hl by simp
  have pc: "put 10 ?chk (?h0 @ ?d @ rest) = Inr (header name ?chk ?n @ ?d @ rest)"
    using put_middle [of "OBMD @ be32 ?n @ be16 0" 10 "be16 0" ?chk] by (simp add: header_def OBMD_def)
  let ?k = "(length ?d + 32) mod 4"
  have kl: "4 - ?k \<le> 3" if "?k \<noteq> 0" using that by linarith
  have hc: "length (header name ?chk ?n) = 32" by (rule header_length) (use assms(1) in simp_all)
  have pp: "put (length ?d + 32) (replicate (4 - ?k) 1) (header name ?chk ?n @ ?d @ rest) =
      Inr (header name ?chk ?n @ ?d @ replicate (4 - ?k) 1 @ drop (4 - ?k) rest)" if "?k \<noteq> 0"
    using put_end [of "header name ?chk ?n @ ?d" "length ?d + 32" "replicate (4 - ?k) 1" rest] hc kl [OF that] r3 by simp
  have *: "make_dropin compressing name mem buffer s =
     hguard (length ?d + 32 \<le> length (?h0 @ ?d @ rest)) (hbind (put 10 ?chk (?h0 @ ?d @ rest)) (\<lambda>mem.
       if ?k \<noteq> 0 then hbind (put (length ?d + 32) (replicate (4 - ?k) 1) mem) (\<lambda>mem. Inr (int (length ?d + 32 + (4 - ?k)), mem, s'))
       else Inr (int (length ?d + 32), mem, s')))"
  proof -
    have nm: "\<not> length name > 15" and nn: "nat ?n + OBMD_HDR = length ?d + 32" using assms(1) by (simp_all add: OBMD_HDR_def)
    show ?thesis unfolding make_dropin_def p0 hbind_Inr md prod.case if_not_P [OF nm] Let_def nn
      by (subst put_header [OF assms(1)]) (simp_all only: length_replicate tk)
  qed
  show ?thesis
  proof (cases "?k = 0")
    case True
    then show ?thesis using hl hc by (simp add: * pc dropin_bytes_def Let_def) 
  next
    case False
    then show ?thesis using hl hc pp kl by (simp add: * pc dropin_bytes_def Let_def)
  qed
qed

lemma put_length: "put off bs mem = Inr mem' \<Longrightarrow> length mem' = length mem"
  by (auto simp: put_def hguard_eq_Inr)

lemma make_data_length: "make_data compressing mem buffer s = Inr (n, mem', s') \<Longrightarrow> length mem' = length mem"
  by (auto simp: make_data_def hbind_eq_Inr Let_def dest!: put_length split: if_splits)

lemma make_dropin_length: "make_dropin compressing name mem buffer s = Inr (n, mem', s') \<Longrightarrow> length mem' = length mem"
  by (auto simp: make_dropin_def hbind_eq_Inr Let_def hguard_eq_Inr dest!: put_length make_data_length split: if_splits)

lemma signed32_small: "0 \<le> x \<Longrightarrow> x < 2 ^ 31 \<Longrightarrow> signed32 x = x"
  by (simp add: signed32_def)

lemma dropin_bytes_size:
  assumes "length name \<le> 15" and "length dat < 2 ^ 31"
  shows "get32 (dropin_bytes name dat @ rest) 4 = Inr (int (length dat))"
    and "\<exists>pad. drop 32 (dropin_bytes name dat @ rest) = dat @ pad @ rest"
proof -
  let ?chk = "be16 (uint (checksum (header name (be16 0) (int (length dat)) @ dat)))"
  obtain pad where b: "dropin_bytes name dat = header name ?chk (int (length dat)) @ dat @ pad" by (simp add: dropin_bytes_def Let_def)
  have "get32 (OBMD @ be32 (int (length dat)) @ ys) 4 = Inr (int (length dat))" for ys
    using get32_append [of OBMD 4] get32_be32 [of "int (length dat)"] assms(2) by (simp add: OBMD_def)
  then show "get32 (dropin_bytes name dat @ rest) 4 = Inr (int (length dat))" by (simp add: b header_def)
  show "\<exists>pad. drop 32 (dropin_bytes name dat @ rest) = dat @ pad @ rest"
    using header_length [OF assms(1), of ?chk] by (simp add: b)
qed

lemma get32_prefix: "4 \<le> length xs \<Longrightarrow> get32 (xs @ ys) 0 = get32 xs 0"
  by (cases xs) (auto simp: get32_def nth_append)

lemma be32_bytes: "be32 (((uint a * 256 + uint b) * 256 + uint c) * 256 + uint d) = [a, b, c, d]"
proof -
  let ?x = "((uint a * 256 + uint b) * 256 + uint c) * 256 + uint d"
  have w: "of_int ((k * 256 + uint e) :: int) = e" for k and e :: u8
    using uint_u8_bounds [of e] by (simp only: word_uint_eq_iff uint_of_int_u8) simp
  have q: "(k * 256 + uint e) div 256 = k" for k and e :: u8
    using uint_u8_bounds [of e] by simp
  have p: "(2::int) ^ 8 = 256" "(2::int) ^ 16 = 256 * 256" "(2::int) ^ 24 = 256 * 256 * 256" by simp_all
  have "?x div 2 ^ 8 = (uint a * 256 + uint b) * 256 + uint c" unfolding p by (rule q)
  moreover have "?x div 2 ^ 16 = uint a * 256 + uint b" unfolding p by (subst zdiv_zmult2_eq) (simp, simp only: q)
  moreover have "?x div 2 ^ 24 = uint a" unfolding p
    by (subst zdiv_zmult2_eq, simp, subst zdiv_zmult2_eq, simp, simp only: q)
  ultimately show ?thesis unfolding be32_def by (simp only: w) simp
qed

lemma get32_take4: "get32 xs 0 = Inr x \<longleftrightarrow> 4 \<le> length xs \<and> take 4 xs = be32 x \<and> 0 \<le> x \<and> x < 2 ^ 32"
proof
  assume g: "get32 xs 0 = Inr x"
  then have l: "4 \<le> length xs" and r: "0 \<le> x" "x < 2 ^ 32" using get32_range [OF g] by (auto simp: get32_def hguard_eq_Inr)
  then obtain a b c d ys where xs: "xs = a # b # c # d # ys"
    by (auto simp: numeral_eq_Suc Suc_le_length_iff)
  have "x = ((uint a * 256 + uint b) * 256 + uint c) * 256 + uint d" using g by (simp add: get32_def xs)
  then show "4 \<le> length xs \<and> take 4 xs = be32 x \<and> 0 \<le> x \<and> x < 2 ^ 32" using l r be32_bytes by (simp add: xs)
next
  assume *: "4 \<le> length xs \<and> take 4 xs = be32 x \<and> 0 \<le> x \<and> x < 2 ^ 32"
  then have "xs = be32 x @ drop 4 xs" by (metis append_take_drop_id)
  then show "get32 xs 0 = Inr x" using get32_be32 * by metis
qed

text \<open>Data that are stored as they are come back as they are.\<close>

lemma getdata_plain:
  assumes "length name \<le> 15" and "4 \<le> length dat" and "length dat < 2 ^ 31" and "take 4 dat \<noteq> be32 COMP_MAGIC"
  shows "\<exists>mem. di_getdata (dropin_bytes name dat @ rest) d = Inr (mem,
      if take 4 dat = be32 OBME_MAGIC then int (length dat) - 4 else int (length dat), d) \<and>
    take (length (if take 4 dat = be32 OBME_MAGIC then drop 4 dat else dat)) mem = (if take 4 dat = be32 OBME_MAGIC then drop 4 dat else dat)"
proof -
  obtain pad where p: "drop 32 (dropin_bytes name dat @ rest) = dat @ pad @ rest" using dropin_bytes_size(2) [OF assms(1,3)] by blast
  obtain x where x: "get32 dat 0 = Inr x" using assms(2) by (simp add: get32_def)
  then have t: "take 4 dat = be32 x" "0 \<le> x" "x < 2 ^ 32" by (simp_all add: get32_take4)
  have m: "x \<noteq> COMP_MAGIC" using t assms(4) by auto
  have o: "x = OBME_MAGIC \<longleftrightarrow> take 4 dat = be32 OBME_MAGIC"
  proof
    assume "take 4 dat = be32 OBME_MAGIC"
    then have "get32 dat 0 = Inr OBME_MAGIC" using assms(2) by (simp add: get32_take4 OBME_MAGIC_def)
    then show "x = OBME_MAGIC" using x by simp
  qed (use t in simp)
  have g: "get32 (dat @ pad @ rest) 0 = Inr x" using x assms(2) by (simp add: get32_prefix)
  define M where "M = dropin_bytes name dat @ rest"
  have "drop 32 M = dat @ pad @ rest" "get32 M 4 = Inr (int (length dat))"
    using p dropin_bytes_size(1) [OF assms(1,3)] by (simp_all only: M_def)
  then have "di_getdata M d = (if x = OBME_MAGIC then Inr (drop 4 (dat @ pad @ rest), int (length dat) - 4, d)
      else Inr (dat @ pad @ rest, int (length dat), d))"
    using m assms(3) by (simp add: di_getdata_def OBMD_HDR_def Let_def g signed32_small)
  then show ?thesis unfolding o M_def using assms(2) by simp
qed

lemma comp_hdr_fields:
  assumes "0 \<le> a" "a < 2 ^ 32" "0 \<le> b" "b < 2 ^ 32"
  shows "get32 (comp_hdr a b @ ys) 0 = Inr COMP_MAGIC" "get32 (comp_hdr a b @ ys) 4 = Inr a" "get32 (comp_hdr a b @ ys) 8 = Inr COMP_MAGIC"
    "get32 (comp_hdr a b @ ys) 12 = Inr b" "drop 16 (comp_hdr a b @ ys) = ys"
proof -
  let ?m = "be32 COMP_MAGIC"
  have m: "0 \<le> COMP_MAGIC" "COMP_MAGIC < 2 ^ 32" by (simp_all add: COMP_MAGIC_def)
  show "get32 (comp_hdr a b @ ys) 0 = Inr COMP_MAGIC" using get32_be32 [OF m] by (simp add: comp_hdr_def)
  show "get32 (comp_hdr a b @ ys) 4 = Inr a" using get32_append [of ?m 4] get32_be32 [OF assms(1,2)] by (simp add: comp_hdr_def)
  show "get32 (comp_hdr a b @ ys) 8 = Inr COMP_MAGIC" using get32_append [of "?m @ be32 a" 8] get32_be32 [OF m] by (simp add: comp_hdr_def)
  show "get32 (comp_hdr a b @ ys) 12 = Inr b" using get32_append [of "?m @ be32 a @ ?m" 12] get32_be32 [OF assms(3,4)] by (simp add: comp_hdr_def)
  show "drop 16 (comp_hdr a b @ ys) = ys" by (simp add: comp_hdr_def)
qed

lemma getdata_compressed:
  assumes "length name \<le> 15" and "4 \<le> length buffer" and "length buffer \<le> 32012000" and "cs_alloutbytes s = 0"
    and "length (comp_out buffer s) + 16 < length buffer" and "last (comp_out buffer s) = 0"
    and "length (comp_out buffer s) + 64 \<le> length (dropin_bytes name (comp_hdr (int (length (comp_out buffer s)) + 16) (int (length buffer)) @ comp_out buffer s) @ rest)"
  shows "\<exists>mem d'. di_getdata (dropin_bytes name (comp_hdr (int (length (comp_out buffer s)) + 16) (int (length buffer)) @ comp_out buffer s) @ rest) d =
      Inr (mem, if take 4 buffer = be32 OBME_MAGIC then int (length buffer) - 4 else int (length buffer), d') \<and>
    take (length (if take 4 buffer = be32 OBME_MAGIC then drop 4 buffer else buffer)) mem = (if take 4 buffer = be32 OBME_MAGIC then drop 4 buffer else buffer)"
proof -
  let ?out = "comp_out buffer s" and ?n = "int (length (comp_out buffer s)) + 16" and ?b = "int (length buffer)"
  let ?dat = "comp_hdr ?n ?b @ ?out"
  have ne: "buffer \<noteq> []" using assms(2) by auto
  obtain s' where "comp buffer s = Inr (cs_alloutbytes s', ?out, s')"
    and inverse: "\<And>junk d. last ?out = 0 \<Longrightarrow> \<exists>d'. decomp (?out @ junk) d = Inr (?b, buffer, d')"
    by (rule comp_decomp_inverse [OF ne assms(3), of s]) (auto simp: comp_out_def)
  have l: "length ?dat = length ?out + 16" by (simp add: comp_hdr_def)
  then have "length ?dat < 2 ^ 31" using assms(3,5) by simp
  note sz = dropin_bytes_size [OF assms(1) this, of rest]
  obtain pad where p: "drop 32 (dropin_bytes name ?dat @ rest) = comp_hdr ?n ?b @ ?out @ pad @ rest" using sz(2) by auto
  have h: "0 \<le> ?n" "?n < 2 ^ 32" "0 \<le> ?b" "?b < 2 ^ 32" using assms(3,5) by simp_all
  note f = comp_hdr_fields [OF h, of "?out @ pad @ rest"]
  have sg: "signed32 ?n = ?n" "signed32 ?b = ?b" using assms(3,5) by (simp_all add: signed32_small)
  define R where "R = ?out @ pad @ rest"
  have "length (comp_hdr ?n ?b @ ?out @ pad @ rest) = length (dropin_bytes name ?dat @ rest) - 32" by (simp only: p [symmetric] length_drop)
  then have nl: "\<not> length R < nat ?n" using assms(7) by (simp add: R_def comp_hdr_def)
  obtain j where j: "take (nat ?n) R = ?out @ j" by (simp add: nat_add_distrib R_def)
  obtain d' where d': "decomp (?out @ j) d = Inr (?b, buffer, d')" using inverse [OF assms(6)] by blast
  obtain x where x: "get32 buffer 0 = Inr x" using assms(2) by (simp add: get32_def)
  then have t: "take 4 buffer = be32 x" by (simp add: get32_take4)
  have o: "x = OBME_MAGIC \<longleftrightarrow> take 4 buffer = be32 OBME_MAGIC"
  proof
    assume "take 4 buffer = be32 OBME_MAGIC"
    then have "get32 buffer 0 = Inr OBME_MAGIC" using assms(2) by (simp add: get32_take4 OBME_MAGIC_def)
    then show "x = OBME_MAGIC" using x by simp
  qed (use t in simp)
  define M where "M = dropin_bytes name ?dat @ rest"
  define Q where "Q = comp_hdr ?n ?b @ R"
  have "drop 32 M = Q" "get32 M 4 = Inr ?n" using p sz(1) l by (simp_all only: M_def Q_def R_def) simp
  then have "di_getdata M d = (if x = OBME_MAGIC then Inr (drop 4 buffer, ?b - 4, d') else Inr (buffer, ?b, d'))"
    by (simp add: di_getdata_def OBMD_HDR_def COMP_HDR_def Let_def f [folded R_def, folded Q_def] sg do_lempel_ziv_def nl j d' x)
  then show ?thesis unfolding o M_def using assms(2) by auto
qed

subsection \<open>What was made can be taken apart\<close>

text \<open>
  C35. A drop-in can be read back, under four conditions.  (1) The name has at most 15 bytes, the data 4 to
  32012000, and the buffer has room.  (2) If data are to be compressed, it is the first
  compression of the run: \<open>comp\<close> counts its output from zero only then, and returns wrong sizes later.
  (3) Data that compression does not make smaller, or that are not to be compressed, are stored as they are;
  they must not start with \<open>COMP\<close>.  (4) The output of the compressor, if it is what is stored, must
  end with a zero byte, as it does when \<open>endout\<close> pads it, since \<open>di_getdata\<close> lets the decompressor read 16
  bytes too many.  Then \<open>make_dropin\<close> returns, and \<open>di_getdata\<close> on what it leaves gives the data it was made from
  but for the marker of a level-2 drop-in, which is skipped.
\<close>

theorem dropin_roundtrip:
  assumes "length name \<le> 15" and "4 \<le> length buffer" and "length buffer \<le> 32012000" and "length buffer + 35 \<le> length mem"
    and "compressing \<Longrightarrow> cs_alloutbytes s = 0 \<and> length (comp_out buffer s) + 64 \<le> length mem"
    and "if stored compressing buffer s = buffer then take 4 buffer \<noteq> be32 COMP_MAGIC else last (comp_out buffer s) = 0"
  shows "\<exists>dlen mem' s' data n d'. make_dropin compressing name mem buffer s = Inr (dlen, mem', s') \<and> di_getdata mem' d = Inr (data, n, d') \<and>
    take (nat n) data = (if take 4 buffer = be32 OBME_MAGIC then drop 4 buffer else buffer)"
proof -
  have ne: "buffer \<noteq> []" using assms(2) by auto
  obtain rest s' where m: "make_dropin compressing name mem buffer s =
     Inr (int (length (dropin_bytes name (stored compressing buffer s))), dropin_bytes name (stored compressing buffer s) @ rest, s')"
    using make_dropin_bytes [OF assms(1) ne assms(3,4), of compressing s] assms(5) by fastforce
  show ?thesis
  proof (cases "stored compressing buffer s = buffer")
    case True
    then have "take 4 buffer \<noteq> be32 COMP_MAGIC" using assms(6) by simp
    then show ?thesis using m getdata_plain [OF assms(1,2), of rest d] assms(2,3) unfolding True by (fastforce simp: nat_diff_distrib)
  next
    case False
    then have c: "compressing" "length (comp_out buffer s) + 16 < length buffer" "last (comp_out buffer s) = 0"
      using assms(6) by (auto simp: stored_def split: if_splits)
    have st: "stored compressing buffer s = comp_hdr (int (length (comp_out buffer s)) + 16) (int (length buffer)) @ comp_out buffer s"
      using c by (simp add: stored_def)
    have "length (comp_out buffer s) + 64 \<le> length (dropin_bytes name (stored compressing buffer s) @ rest)"
      using make_dropin_length [OF m] assms(5) c(1) by simp
    then show ?thesis using m getdata_compressed [OF assms(1-3) _ c(2,3), where rest = rest and d = d] assms(2,5) c(1) unfolding st by (fastforce simp: nat_diff_distrib)
  qed
qed

text \<open>Forty equal bytes are stored in 34; five bytes are stored as they are.\<close>

theorem dropin_roundtrip_witness:
  "stored True (replicate 40 65) comp_static \<noteq> replicate 40 65 \<and>
   (\<exists>dlen mem' s' data n d'. make_dropin True [0x61] (replicate 100 0xff) (replicate 40 65) comp_static = Inr (dlen, mem', s') \<and>
      di_getdata mem' decomp_static = Inr (data, n, d') \<and> take (nat n) data = replicate 40 65) \<and>
   stored True [1, 2, 3, 4, 5] comp_static = [1, 2, 3, 4, 5] \<and>
   (\<exists>dlen mem' s' data n d'. make_dropin False [0x61] (replicate 100 0xff) [1, 2, 3, 4, 5] comp_static = Inr (dlen, mem', s') \<and>
      di_getdata mem' decomp_static = Inr (data, n, d') \<and> take (nat n) data = [1, 2, 3, 4, 5])"
proof -
  let ?b = "replicate 40 65 :: u8 list"
  have magic: "be32 COMP_MAGIC = [67, 79, 77, 80]" "be32 OBME_MAGIC = [79, 66, 77, 69]"
    by (simp_all add: be32_def COMP_MAGIC_def OBME_MAGIC_def)
  have zero: "cs_alloutbytes comp_static = 0" by (simp add: comp_static_def)
  have "?b \<noteq> []" "length ?b \<le> 32012000" by simp_all
  then obtain n out s' where "comp ?b comp_static = Inr (n, out, s')" by (rule comp_decomp_inverse [of ?b comp_static]) auto
  then have out: "length (comp_out ?b comp_static) = 18" "last (comp_out ?b comp_static) = 0"
    using run_compressed by (simp_all add: comp_out_def)
  then have "length (stored True ?b comp_static) = 34" by (simp add: stored_def comp_hdr_def)
  then have st: "stored True ?b comp_static \<noteq> ?b" by (metis length_replicate numeral_eq_iff semiring_norm(84,87,88,90))
  have "take 4 ?b = replicate 4 65" by simp
  then have t: "take 4 ?b \<noteq> be32 OBME_MAGIC" by (simp add: magic numeral_eq_Suc)
  have "\<exists>dlen mem' s' data n d'. make_dropin True [0x61] (replicate 100 0xff) ?b comp_static = Inr (dlen, mem', s') \<and>
      di_getdata mem' decomp_static = Inr (data, n, d') \<and> take (nat n) data = ?b"
    using dropin_roundtrip [of "[0x61]" ?b "replicate 100 0xff" True comp_static decomp_static] st out zero
    unfolding if_not_P [OF t] by simp
  moreover have "\<exists>dlen mem' s' data n d'. make_dropin False [0x61] (replicate 100 0xff) [1, 2, 3, 4, 5] comp_static = Inr (dlen, mem', s') \<and>
      di_getdata mem' decomp_static = Inr (data, n, d') \<and> take (nat n) data = [1, 2, 3, 4, 5]"
    using dropin_roundtrip [of "[0x61]" "[1, 2, 3, 4, 5]" "replicate 100 0xff" False comp_static decomp_static]
    by (simp add: stored_def magic)
  ultimately show ?thesis using st by (simp add: stored_def)
qed

subsection \<open>The checksum\<close>

lemma half_sum_append: "even (length xs) \<Longrightarrow> half_sum (xs @ ys) = half_sum xs + half_sum ys"
  by (induction xs rule: half_sum.induct) auto

lemma half_sum_be16: "0 \<le> x \<Longrightarrow> x < 2 ^ 16 \<Longrightarrow> half_sum (be16 x) = x"
proof -
  assume *: "0 \<le> x" "x < 2 ^ 16"
  then have "x div 256 mod 256 = x div 256" by (intro mod_pos_pos_trivial) (auto simp: pos_imp_zdiv_nonneg_iff)
  then show ?thesis by (simp add: be16_def uint_of_int_u8)
qed

lemma half_sum_10: "length xs = 10 \<Longrightarrow> half_sum (xs @ be16 x @ ys) = half_sum xs + half_sum (be16 x) + half_sum ys"
  by (simp add: half_sum_append)

lemma put_keeps: "put off bs mem = Inr mem' \<Longrightarrow> k \<le> off \<Longrightarrow> take k mem' = take k mem"
  by (auto simp: put_def hguard_eq_Inr)

lemma put_puts: "put off bs mem = Inr mem' \<Longrightarrow> take (off + length bs) mem' = take off mem @ bs"
  by (auto simp: put_def hguard_eq_Inr)

lemma put_Inr: "put off bs mem = Inr mem' \<Longrightarrow> mem' = take off mem @ bs @ drop (off + length bs) mem \<and> off + length bs \<le> length mem"
  by (auto simp: put_def hguard_eq_Inr)

lemma make_data_size:
  assumes "make_data compressing mem buffer s = Inr (clen, mem', s')" and "0 \<le> cs_alloutbytes s"
  shows "0 \<le> clen"
  using assms by (auto simp: make_data_def hbind_eq_Inr Let_def COMP_HDR_def dest!: comp_size split: if_splits)

text \<open>The memory \<open>make_dropin\<close> takes the checksum of: the size of the data is in it, the checksum is not yet.\<close>

lemma make_dropin_sums:
  assumes "make_dropin compressing name mem buffer s = Inr (dlen, mem', s')" and "0 \<le> cs_alloutbytes s"
  obtains clen n M where "0 \<le> clen" "n = nat clen + 32" "n \<le> length mem" "length M = length mem"
    "take 12 M = take 4 M @ be32 clen @ be16 0 @ be16 0"
    "take n mem' = take n (take 10 M @ be16 (uint (checksum (take n M))) @ drop 12 M)"
proof -
  from assms(1) obtain m0 clen m1 m2 m3 m4 m5 m6 m7 M M1 where
    p: "put 0 (replicate OBMD_HDR 0) mem = Inr m0" "make_data compressing m0 buffer s = Inr (clen, m1, s')" "put 0 OBMD m1 = Inr m2"
    "put 4 (be32 clen) m2 = Inr m3" "put 8 (be16 0) m3 = Inr m4" "put 12 (be32 0) m4 = Inr m5" "put 10 (be16 0) m5 = Inr m6"
    "put 16 (replicate 16 0) m6 = Inr m7" "put 16 name m7 = Inr M" and n: "nat clen + OBMD_HDR \<le> length M"
    and M1: "put 10 (be16 (uint (checksum (take (nat clen + OBMD_HDR) M)))) M = Inr M1"
    and e: "mem' = M1 \<or> put (nat clen + OBMD_HDR) (replicate (4 - (nat clen + OBMD_HDR) mod 4) 1) M1 = Inr mem'"
    unfolding make_dropin_def by (auto simp: hbind_eq_Inr Let_def hguard_eq_Inr split: if_splits)
  let ?n = "nat clen + OBMD_HDR"
  have l: "length M = length mem" using p by (auto dest!: put_length make_data_length)
  have t3: "take 8 m3 = take 4 m2 @ be32 clen" using put_puts [OF p(4)] by simp
  have t4: "take 10 m4 = take 8 m3 @ be16 0" using put_puts [OF p(5)] by simp
  have t6: "take 12 m6 = take 10 m5 @ be16 0" using put_puts [OF p(7)] by simp
  have t12: "take 12 M = take 12 m6" using put_keeps [OF p(8), of 12] put_keeps [OF p(9), of 12] by simp
  have "take 10 m5 = take 10 m4" using put_keeps [OF p(6), of 10] by simp
  then have M12: "take 12 M = take 4 m2 @ be32 clen @ be16 0 @ be16 0" using t3 t4 t6 t12 by simp
  have "4 \<le> length m2" using put_Inr [OF p(4)] by simp
  then have "take 4 (take 12 M) = take 4 m2" unfolding M12 by simp
  then have M4: "take 4 M = take 4 m2" by (simp add: min_def)
  have "take ?n mem' = take ?n M1" using e put_keeps by blast
  moreover have "M1 = take 10 M @ be16 (uint (checksum (take ?n M))) @ drop 12 M" using put_Inr [OF M1] by simp
  moreover have "0 \<le> clen" by (rule make_data_size [OF p(2) assms(2)])
  ultimately show thesis using that [of clen ?n M] M12 M4 l n by (simp add: OBMD_HDR_def)
qed

text \<open>
  C37. The checksum of every drop-in with at most 131040 bytes of data is right.  Whatever \<open>make_dropin\<close> was
  called with and however often before (with a buffer below 2 GB, and a count of output bytes that has not
  wrapped to a negative one), when it returns and the size in the header it made is that small, the half-words
  of the header and of as many bytes behind it as the size says add up, with the checksum in its place, to a
  multiple of 65535.  With more data the 32-bit sum of \<open>checksum\<close> can wrap, so nothing is said of them.
\<close>

theorem dropin_checksum:
  assumes "make_dropin compressing name mem buffer s = Inr (dlen, mem', s')" and "0 \<le> cs_alloutbytes s" and "length mem < 2 ^ 31"
    and "get32 mem' 4 = Inr n" and "n \<le> 131040"
  shows "half_sum (take (nat n + 32) mem') mod 65535 = 0"
proof -
  obtain clen k M where c: "0 \<le> clen" "k = nat clen + 32" "k \<le> length mem" "length M = length mem"
    and M12: "take 12 M = take 4 M @ be32 clen @ be16 0 @ be16 0"
    and mem': "take k mem' = take k (take 10 M @ be16 (uint (checksum (take k M))) @ drop 12 M)"
    by (rule make_dropin_sums [OF assms(1,2)])
  define x where "x = uint (checksum (take k M))"
  define A where "A = take 4 M @ be32 clen @ be16 0"
  define Y where "Y = take (k - 12) (drop 12 M)"
  have x: "0 \<le> x" "x < 2 ^ 16" using uint_bounded [of "checksum (take k M)"] by (simp_all add: x_def)
  have l: "length (take 4 M) = 4" "32 \<le> k" "12 + (k - 12) = k" using c by simp_all
  have lA: "length A = 10" using l by (simp add: A_def)
  have M12': "take 12 M = A @ be16 0" using M12 by (simp add: A_def)
  have "take k M = take 12 M @ Y" using take_add [of 12 "k - 12" M] by (simp only: l Y_def)
  then have kM: "take k M = A @ be16 0 @ Y" by (simp only: M12' append_assoc)
  have "take 10 M = take 10 (take 12 M)" by simp
  then have "take 10 M = A" unfolding M12' using lA by simp
  then have m: "take k mem' = take k (A @ be16 x @ drop 12 M)" using mem' by (simp only: x_def)
  have "take k (A @ be16 x @ drop 12 M) = A @ be16 x @ Y" using lA l by (simp add: Y_def take_Cons')
  with m have kmem: "take k mem' = A @ be16 x @ Y" by simp
  have "mem' = take 4 M @ (be32 clen @ be16 0 @ be16 x @ Y @ drop k mem')"
    using append_take_drop_id [of k mem'] unfolding kmem A_def by simp
  then have "get32 mem' 4 = get32 (be32 clen @ be16 0 @ be16 x @ Y @ drop k mem') 0" using get32_append [OF l(1)] by metis
  moreover have "clen < 2 ^ 32" using c assms(3) by simp
  ultimately have n: "n = clen" using assms(4) get32_be32 [OF c(1)] by simp
  have "length (take k M) \<le> 131072" using c(2) n assms(5) by simp
  then have "65535 * int ((length (take k M) + 1) div 2) \<le> 65535 * 65536" by simp
  then have "half_sum (take k M) < 2 ^ 32" using half_sum_bound [of "take k M"] by simp
  then have "(x + half_sum (take k M)) mod 65535 = 0" unfolding x_def by (rule checksum_value [THEN conjunct2])
  moreover have "half_sum (take k mem') = x + half_sum (take k M)"
    unfolding kmem kM by (simp only: half_sum_10 [OF lA] half_sum_be16 [OF x] half_sum_be16 [of 0, simplified])
  ultimately show ?thesis using c(2) n by simp
qed

theorem dropin_checksum_witness:
  "\<exists>dlen mem' s'. make_dropin False [0x61] (replicate 100 0xff) [1, 2, 3, 4, 5] comp_static = Inr (dlen, mem', s') \<and>
     get32 mem' 4 = Inr 5 \<and> half_sum (take 37 mem') mod 65535 = 0"
proof -
  have st: "stored False [1, 2, 3, 4, 5] comp_static = [1, 2, 3, 4, 5]" by (simp add: stored_def)
  obtain rest s' where m: "make_dropin False [0x61] (replicate 100 0xff) [1, 2, 3, 4, 5] comp_static =
     Inr (int (length (dropin_bytes [0x61] [1, 2, 3, 4, 5])), dropin_bytes [0x61] [1, 2, 3, 4, 5] @ rest, s')"
    using make_dropin_bytes [of "[0x61]" "[1, 2, 3, 4, 5]" "replicate 100 0xff" False comp_static] unfolding st by auto
  have g: "get32 (dropin_bytes [0x61] [1, 2, 3, 4, 5] @ rest) 4 = Inr 5"
    using dropin_bytes_size(1) [of "[0x61]" "[1, 2, 3, 4, 5]" rest] by simp
  have "half_sum (take (nat 5 + 32) (dropin_bytes [0x61] [1, 2, 3, 4, 5] @ rest)) mod 65535 = 0"
    by (rule dropin_checksum [OF m _ _ g]) (simp_all add: comp_static_def)
  then show ?thesis using m g by simp
qed

subsection \<open>Finding a drop-in\<close>

definition entry_ok :: "u8 list \<times> u8 list \<Rightarrow> bool" where
  "entry_ok = (\<lambda>(name, dat). length name \<le> 15 \<and> 0 \<notin> set name \<and> length dat < 2 ^ 31)"

definition file_of :: "(u8 list \<times> u8 list) list \<Rightarrow> u8 list" where
  "file_of ds = concat (map (\<lambda>(name, dat). dropin_bytes name dat) ds)"

definition pad_of :: "u8 list \<Rightarrow> u8 list" where
  "pad_of dat = (if (length dat + 32) mod 4 = 0 then [] else replicate (4 - (length dat + 32) mod 4) 1)"

lemma takeWhile_name: "0 \<notin> set name \<Longrightarrow> takeWhile (\<lambda>c. c \<noteq> (0::u8)) (name @ 0 # ys) = name"
  by (induction name) auto

lemma dropin_bytes_parts:
  assumes "entry_ok (name, dat)"
  shows "\<exists>h. dropin_bytes name dat = h @ dat @ pad_of dat \<and> length h = 32 \<and> di_isdropin (h @ ys) \<and> h \<noteq> [] \<and> hd h \<noteq> 1 \<and>
    di_name (h @ ys) = name \<and> 0 \<in> set (drop 16 (h @ ys)) \<and> get32 (h @ ys) 4 = Inr (int (length dat))"
proof -
  have a: "length name \<le> 15" "0 \<notin> set name" "length dat < 2 ^ 31" using assms by (auto simp: entry_ok_def)
  let ?chk = "be16 (uint (checksum (header name (be16 0) (int (length dat)) @ dat)))"
  let ?h = "header name ?chk (int (length dat))"
  have l: "length ?h = 32" by (rule header_length) (use a in simp_all)
  have r: "replicate (16 - length name) (0::u8) = 0 # replicate (15 - length name) 0"
    using a(1) by (simp add: Suc_diff_le flip: replicate_Suc)
  have d: "drop 16 (?h @ ys) = name @ 0 # replicate (15 - length name) 0 @ ys"
    by (simp add: header_def OBMD_def r)
  have "di_name (?h @ ys) = name" unfolding di_name_def d using a(2) by (rule takeWhile_name)
  moreover have "get32 (?h @ ys) 4 = Inr (int (length dat))"
    using get32_append [of OBMD 4] get32_be32 [of "int (length dat)"] a(3) by (simp add: OBMD_def header_def)
  moreover have "di_isdropin (?h @ ys)" "?h \<noteq> []" "hd ?h \<noteq> 1" by (simp_all add: di_isdropin_def header_def OBMD_def)
  ultimately show ?thesis using l d by (intro exI [of _ ?h]) (simp add: dropin_bytes_def Let_def pad_of_def)
qed

lemma takeWhile_pads: "set p \<subseteq> {1} \<Longrightarrow> h \<noteq> [] \<Longrightarrow> hd h \<noteq> 1 \<Longrightarrow> takeWhile (\<lambda>c. c = (1::u8)) (p @ h @ ys) = p"
  by (induction p) (auto simp: neq_Nil_conv)

lemma zero_ends: "0 \<in> set mem \<Longrightarrow> 0 \<notin> set name \<Longrightarrow> \<not> ends_within mem (name @ [0])"
proof
  assume z: "0 \<in> set mem" "0 \<notin> set name" and e: "ends_within mem (name @ [0])"
  then have l: "length mem \<le> length name" by (simp add: ends_within_def)
  have "mem = take (length mem) (name @ [0])" using e unfolding ends_within_def by blast
  then have "set mem \<subseteq> set name" using l set_take_subset [of "length mem" name] by (metis append.right_neutral diff_is_0_eq take0 take_append)
  then show False using z by blast
qed

lemma entry_ok_name: "entry_ok (name, dat) \<Longrightarrow> 0 \<notin> set name"
  by (simp add: entry_ok_def)

text \<open>One turn of the loop at a drop-in, behind the padding of the one before.\<close>

lemma di_step_at:
  assumes "entry_ok (name', dat)" and "set p \<subseteq> {1}" and "drop (nat off) mem = p @ dropin_bytes name' dat @ ys"
    and "0 \<le> off" and "bytes < sz" and "num \<le> instance" and "0 \<notin> set name"
  shows "di_step name mem sz instance (off, bytes, num) =
    (if name' = name \<and> instance = num then Inr (Inr (Some (dropin_bytes name' dat @ ys)))
     else Inl (off + int (length p) + int (length dat) + 32, bytes + int (length p) + int (length dat) + 32, if name' = name then num + 1 else num))"
proof -
  obtain h where h: "dropin_bytes name' dat = h @ dat @ pad_of dat" "length h = 32" "di_isdropin (h @ dat @ pad_of dat @ ys)" "h \<noteq> []" "hd h \<noteq> 1"
    "di_name (h @ dat @ pad_of dat @ ys) = name'" "0 \<in> set (drop 16 (h @ dat @ pad_of dat @ ys))" "get32 (h @ dat @ pad_of dat @ ys) 4 = Inr (int (length dat))"
    using dropin_bytes_parts [OF assms(1), of "dat @ pad_of dat @ ys"] by auto
  have tw: "takeWhile (\<lambda>c. c = 1) (drop (nat off) mem) = p"
    unfolding assms(3) h(1) using takeWhile_pads [OF assms(2) h(4,5)] by simp
  have "drop (nat off) mem \<noteq> []" using h(4) by (simp add: assms(3) h(1))
  then have o: "off < int (length mem)" using assms(4) by simp
  define B where "B = dropin_bytes name' dat @ ys"
  have dr: "drop (length p) (drop (nat off) mem) = B" by (simp add: assms(3) B_def)
  have b: "di_isdropin B" "di_name B = name'" "0 \<in> set (drop 16 B)" "get32 B 4 = Inr (int (length dat))"
    using h by (simp_all add: B_def)
  have "36 \<le> length B + 4" using h(2) by (simp add: B_def h(1))
  then have e: "\<not> ends_within B OBMD" "\<not> ends_within (drop 16 B) (name @ [0])"
    using assms(7) zero_ends [OF b(3)] by (simp_all add: ends_within_def OBMD_def)
  have sg: "signed32 (int (length dat)) = int (length dat)" using assms(1) by (simp add: entry_ok_def signed32_small)
  show ?thesis using assms(4-6) o b e unfolding di_step_def prod.case tw Let_def dr B_def [symmetric]
    by (simp add: sg OBMD_HDR_def)
qed

lemma di_loop_finds:
  assumes "\<forall>e \<in> set pre. entry_ok e" and "entry_ok (name, dat)" and "set p \<subseteq> {1}"
    and "drop (nat off) mem = p @ file_of pre @ dropin_bytes name dat @ ys" and "0 \<le> off"
    and "off + int (length p + length (file_of pre)) < sz" and "instance = num + int (length (filter (\<lambda>e. fst e = name) pre))" and "length pre < n"
  shows "hloop (di_step name mem sz instance) n (off, off, num) = Inr (Some (dropin_bytes name dat @ ys))"
  using assms
proof (induction pre arbitrary: p off num n)
  case Nil
  then obtain k where "n = Suc k" by (cases n) auto
  then show ?case using di_step_at [OF Nil(2,3), of off mem ys off sz num num name] Nil entry_ok_name [OF Nil(2)] by (simp add: file_of_def)
next
  case (Cons e pre)
  obtain nm dt where e: "e = (nm, dt)" by (cases e)
  obtain k where k: "n = Suc k" "length pre < k" using Cons.prems(8) by (cases n) auto
  have ok: "entry_ok (nm, dt)" using Cons.prems(1) e by simp
  have m: "drop (nat off) mem = p @ dropin_bytes nm dt @ (file_of pre @ dropin_bytes name dat @ ys)"
    using Cons.prems(4) by (simp add: file_of_def e)
  let ?m = "int (length (filter (\<lambda>e. fst e = name) pre))"
  have nm: "num \<le> instance" "\<not> (nm = name \<and> instance = num)" using Cons.prems(7) e by auto
  let ?off = "off + int (length p) + int (length dt) + 32" and ?num = "if nm = name then num + 1 else num"
  have st: "di_step name mem sz instance (off, off, num) = Inl (?off, ?off, ?num)"
    using di_step_at [OF ok Cons.prems(3) m Cons.prems(5), of off sz num "instance" name] Cons.prems(6) nm entry_ok_name [OF Cons.prems(2)] by (simp add: file_of_def)
  obtain h where h: "dropin_bytes nm dt = h @ dt @ pad_of dt" "length h = 32" using dropin_bytes_parts [OF ok, of "[]"] by auto
  have no: "nat ?off = nat off + (length p + (32 + length dt))" using Cons.prems(5) by simp
  have "drop (nat ?off) mem = drop (length p + (32 + length dt)) (drop (nat off) mem)" unfolding no by (simp add: add.commute)
  also have "\<dots> = pad_of dt @ file_of pre @ dropin_bytes name dat @ ys" unfolding m h(1) using h(2) by simp
  finally have dr: "drop (nat ?off) mem = pad_of dt @ file_of pre @ dropin_bytes name dat @ ys" .
  have "hloop (di_step name mem sz instance) k (?off, ?off, ?num) = Inr (Some (dropin_bytes name dat @ ys))"
  proof (rule Cons.IH [OF _ Cons.prems(2) _ dr])
    show "\<forall>e\<in>set pre. entry_ok e" using Cons.prems(1) by simp
    show "set (pad_of dt) \<subseteq> {1}" by (auto simp: pad_of_def)
    show "0 \<le> ?off" using Cons.prems(5) by simp
    show "?off + int (length (pad_of dt) + length (file_of pre)) < sz" using Cons.prems(6) h by (simp add: file_of_def e)
    show "instance = ?num + ?m" using Cons.prems(7) e by auto
    show "length pre < k" by (rule k)
  qed
  then show ?case using st k(1) by simp
qed

lemma file_of_length: "\<forall>e \<in> set ds. entry_ok e \<Longrightarrow> length ds \<le> length (file_of ds)"
proof (induction ds)
  case (Cons e ds)
  obtain nm dt where e: "e = (nm, dt)" by (cases e)
  then obtain h where "dropin_bytes nm dt = h @ dt @ pad_of dt" "length h = 32"
    using dropin_bytes_parts [of nm dt "[]"] Cons.prems by auto
  then show ?case using Cons e by (simp add: file_of_def)
qed (simp add: file_of_def)

lemma di_iterate_at:
  assumes "\<forall>e \<in> set pre. entry_ok e" and "entry_ok (name, dat)" and "int (length (file_of pre)) < sz"
    and "instance = 1 + int (length (filter (\<lambda>e. fst e = name) pre))"
  shows "di_iterate name (file_of pre @ dropin_bytes name dat @ ys) sz instance = Inr (Some (dropin_bytes name dat @ ys))"
proof -
  have "1 \<le> nat instance" using assms(4) by (simp add: nat_add_distrib)
  then have "nat sz \<le> nat sz * nat instance" by simp
  moreover have "length pre < nat sz" using file_of_length [OF assms(1)] assms(3) by simp
  ultimately have n: "length pre < Suc (nat sz * nat instance)" by linarith
  show ?thesis unfolding di_iterate_def
    by (rule di_loop_finds [OF assms(1,2), of "[]"]) (use assms n in simp_all)
qed

text \<open>The search by a path of one name.\<close>

lemma file_of_Cons: "file_of ((nm, dt) # pre) = dropin_bytes nm dt @ file_of pre"
  by (simp add: file_of_def)

lemma dropin_first:
  assumes "entry_ok (nm, dt)"
  shows "dropWhile (\<lambda>c. c = 1) (dropin_bytes nm dt @ ys) = dropin_bytes nm dt @ ys" "di_isdropin (dropin_bytes nm dt @ ys)"
    "\<not> ends_within (dropin_bytes nm dt @ ys) OBMD" "dropin_bytes nm dt @ ys \<noteq> []" "\<exists>n. get32 (dropin_bytes nm dt @ ys) 4 = Inr n"
proof -
  obtain h where h: "dropin_bytes nm dt = h @ dt @ pad_of dt" "length h = 32" "di_isdropin (h @ dt @ pad_of dt @ ys)" "h \<noteq> []" "hd h \<noteq> 1"
    "get32 (h @ dt @ pad_of dt @ ys) 4 = Inr (int (length dt))"
    using dropin_bytes_parts [OF assms, of "dt @ pad_of dt @ ys"] by auto
  show "dropWhile (\<lambda>c. c = 1) (dropin_bytes nm dt @ ys) = dropin_bytes nm dt @ ys" using h(4,5) unfolding h(1) by (cases h) auto
  show "di_isdropin (dropin_bytes nm dt @ ys)" "\<not> ends_within (dropin_bytes nm dt @ ys) OBMD" "dropin_bytes nm dt @ ys \<noteq> []"
    "\<exists>n. get32 (dropin_bytes nm dt @ ys) 4 = Inr n"
    using h by (simp_all add: ends_within_def OBMD_def)
qed

lemma di_instances_first:
  assumes "\<forall>e \<in> set pre. entry_ok e" and "entry_ok (name, dat)" and "int (length (file_of pre)) < sz" and "name \<notin> fst ` set pre"
  shows "di_instances (Suc 0) name (file_of pre @ dropin_bytes name dat @ ys) sz 0 data = Inr (Some (dropin_bytes name dat @ ys))"
proof -
  have "filter (\<lambda>e. fst e = name) pre = []" using assms(4) by (auto simp: filter_empty_conv)
  then have it: "di_iterate name (file_of pre @ dropin_bytes name dat @ ys) sz 1 = Inr (Some (dropin_bytes name dat @ ys))"
    by (intro di_iterate_at [OF assms(1-3)]) simp
  have "\<exists>n. get32 (file_of pre @ dropin_bytes name dat @ ys) 4 = Inr n"
  proof (cases pre)
    case Nil
    then show ?thesis using dropin_first(5) [OF assms(2), of ys] by (simp add: file_of_def)
  next
    case (Cons e pre')
    then have "entry_ok (fst e, snd e)" using assms(1) by simp
    then show ?thesis using dropin_first(5) [of "fst e" "snd e" "file_of pre' @ dropin_bytes name dat @ ys"] file_of_Cons [of "fst e" "snd e" pre'] Cons by simp
  qed
  then show ?thesis using it by auto
qed

text \<open>
  C36. In a file of drop-ins, each with its padding, \<open>di_finddropin\<close> returns and finds the first drop-in of the
  name, wherever it is and whatever follows it.
\<close>

theorem di_finddropin_finds:
  assumes "\<forall>e \<in> set pre. entry_ok e" and "entry_ok (name, dat)" and "int (length (file_of pre)) < sz" and "name \<notin> fst ` set pre"
    and "name \<noteq> []" and "0x2f \<notin> set name"
  shows "di_finddropin name (file_of pre @ dropin_bytes name dat @ ys) sz 1 d = Inr (Some (dropin_bytes name dat @ ys), d)"
proof -
  define M where "M = file_of pre @ dropin_bytes name dat @ ys"
  have m: "dropWhile (\<lambda>c. c = 1) M = M" "di_isdropin M" "\<not> ends_within M OBMD" "M \<noteq> []"
  proof -
    obtain nm dt zs where "entry_ok (nm, dt)" "M = dropin_bytes nm dt @ zs"
    proof (cases pre)
      case Nil
      then show ?thesis using that assms(2) by (simp add: M_def file_of_def)
    next
      case (Cons e pre')
      then show ?thesis using that [of "fst e" "snd e"] file_of_Cons [of "fst e" "snd e" pre'] assms(1) by (simp add: M_def)
    qed
    then show "dropWhile (\<lambda>c. c = 1) M = M" "di_isdropin M" "\<not> ends_within M OBMD" "M \<noteq> []" using dropin_first by simp_all
  qed
  have "hd name \<noteq> 0x2f" using assms(6) hd_in_set [OF assms(5)] by metis
  moreover have "takeWhile (\<lambda>c. c \<noteq> 0x2f) name = name" "dropWhile (\<lambda>c. c \<noteq> 0x2f) name = []"
    using assms(6) by (auto simp: takeWhile_eq_all_conv dropWhile_eq_Nil_conv)
  ultimately have n: "hd name \<noteq> 0x2f" "takeWhile (\<lambda>c. c \<noteq> 0x2f) name = name" "dropWhile (\<lambda>c. c \<noteq> 0x2f) name = []" by blast+
  have "0 < sz" using assms(3) by simp
  moreover have "di_instances (nat 1) name M sz 0 None = Inr (Some (dropin_bytes name dat @ ys))"
    unfolding M_def using di_instances_first [OF assms(1-4)] by (simp del: di_instances.simps)
  ultimately show ?thesis using assms(5) unfolding M_def [symmetric]
    by (subst di_finddropin.simps) (simp add: Let_def m n del: di_instances.simps)
qed

theorem di_finddropin_finds_witness:
  "di_finddropin [0x62] (file_of [([0x61], [1, 2, 3]), ([0x63], [4])] @ dropin_bytes [0x62] [5, 6] @ [0xff]) 1000 1 decomp_static = Inr (Some (dropin_bytes [0x62] [5, 6] @ [0xff]), decomp_static)"
proof -
  have "length (file_of [([0x61], [1, 2, 3]), ([0x63], [4])]) = 72"
    by (simp add: file_of_def dropin_bytes_def Let_def header_def OBMD_def)
  then show ?thesis using di_finddropin_finds [of "[([0x61], [1, 2, 3]), ([0x63], [4])]" "[0x62]" "[5, 6]" 1000 "[0xff]" decomp_static]
    by (simp add: entry_ok_def)
qed

text \<open>
  With drop-ins \<open>c\<close>, \<open>a\<close>, \<open>a\<close> the second instance of \<open>a\<close> is taken to be the first one, because it is the
  first one from the second drop-in on; \<open>di_iterate\<close> asked for it finds the second.
\<close>

theorem di_finddropin_instance:
  "hbind (di_finddropin [0x61] (file_of [([0x63], [0, 0, 0, 0]), ([0x61], [1, 1, 1, 1]), ([0x61], [2, 2, 2, 2])]) 108 2 decomp_static)
       (\<lambda>(found, d). Inr found) = Inr (Some (file_of [([0x61], [1, 1, 1, 1]), ([0x61], [2, 2, 2, 2])])) \<and>
   di_iterate [0x61] (file_of [([0x63], [0, 0, 0, 0]), ([0x61], [1, 1, 1, 1]), ([0x61], [2, 2, 2, 2])]) 108 2 =
     Inr (Some (file_of [([0x61], [2, 2, 2, 2])]))"
  by code_simp

text \<open>A drop-in whose size is \<open>- 32\<close> keeps the loop where it is.\<close>

definition looping_dropin :: "u8 list" where
  "looping_dropin = OBMD @ [0xff, 0xff, 0xff, 0xe0] @ replicate 8 0 @ [0x62] @ replicate 15 0"

text \<open>A file can so make \<open>di_iterate\<close> run forever, with any fuel.\<close>

theorem di_iterate_hangs: "hloop (di_step [0x61] looping_dropin 32 1) n (0, 0, 1) = Inl Hang \<and> di_iterate [0x61] looping_dropin 32 1 = Inl Hang"
proof -
  have "di_step [0x61] looping_dropin 32 1 (0, 0, 1) = Inl (0, 0, 1)" by code_simp
  then have "hloop (di_step [0x61] looping_dropin 32 1) n (0, 0, 1) = Inl Hang" for n by (induction n) simp_all
  then show ?thesis by (simp add: di_iterate_def del: hloop.simps)
qed

end
