(* ===== verification/Spec2Isabelle.thy ===== *)
theory Spec2Isabelle
  imports Boot Mdlint Dropin
begin

text \<open>
  The core of the OpenPiton (sun4v) hypervisor, the compiler and the checker of the descriptions it
  is configured by, all under \<open>src/subos/hypervisor/src\<close>, and the tools that make and read the
  drop-ins of the boot PROM, under \<open>src/subos/obp/tools\<close>.

  \<^bold>\<open>The program.\<close>  The hypervisor runs guests on the strands of one machine.  What the
  guests have (memory blocks, virtual cpus, channels between them, consoles, crypto units)
  is written in a \<^emph>\<open>machine description\<close> (MD), a graph of nodes with properties.  At power
  on \<open>c_start\<close> configures the machine from a first MD and starts the guests.  Later a domain
  manager talks to the hypervisor over a control channel: it starts, stops and watches
  guests, and hands over new MDs.  A new MD is first checked against the running machine
  (prepare, parse, postparse), which only writes what is \<^emph>\<open>pending\<close> for each resource (its
  \<open>pip\<close>); when all kinds of resources accept, the pending operations are committed in four
  phases (unconfigure, configure, rebind, modify), at once or when a guest exits.  MDs are written as text and
  compiled to their binary form by the tool \<open>mdgen\<close>; the scanner of the hypervisor reads
  that form, and the tool \<open>mdlint\<close> checks it.

  The boot firmware is stored in the PROM as \<^emph>\<open>drop-ins\<close>, files with a name, a checksum and data that
  may be compressed.  \<open>makedi\<close> makes them with the compressor \<open>comp.c\<close>; the library in
  \<open>dropin/finddropin.c\<close> finds them and calls the decompressor \<open>decomp.c\<close>.

  \<^bold>\<open>The theories\<close>, in the order they import each other.  Definitions carry the names of the
  functions, structures and constants they model; a part of a long C function has a name of
  its own, with a comment where that is not obvious.

  \<^item> \<open>Prelude\<close>: integer types as words, faults as values (\<open>hv_fault\<close>, \<open>hv\<close>), sequencing,
    \<open>ASSERT\<close>, counted loops and loops with fuel, the rule collections \<open>hv_simps\<close> and \<open>hpost_rules\<close>.
  \<^item> \<open>Md\<close>: \<open>common/src/mdsup.c\<close>, \<open>include/md/md_impl.h\<close>, the scanner of MDs.
  \<^item> \<open>Hv_State\<close>: one record per C structure, and \<open>config\<close> that holds them all.
  \<^item> \<open>Resource\<close>: what the resource kinds share, with the locales \<open>resource_commit\<close> and
    \<open>resource_kind\<close>, the contract of a commit function.
  \<^item> \<open>Res_Memory\<close>, \<open>Res_Guest\<close>, \<open>Res_Vcpu\<close>, \<open>Res_Ldc\<close>, \<open>Res_Console\<close>, \<open>Res_Mau\<close>: the kinds, from
    \<open>common/src/res_*.c\<close>.  Each has its init, prep, parse, postparse and commit functions and
    interprets \<open>resource_kind\<close> for its commit step.
  \<^item> \<open>Reconf\<close>: \<open>common/src/reconf.c\<close>, the table of kinds, \<open>op_reconfig\<close>, \<open>op_cancel_reconfig\<close>,
    \<open>commit_reconfig\<close>.
  \<^item> \<open>Commit\<close>: the commit of all kinds together (locale \<open>settling_kind\<close>, interpreted for each).
  \<^item> \<open>Ignition\<close>: \<open>common/src/init.c\<close>, starting a guest.
  \<^item> \<open>Hvcontrol\<close>, \<open>Channel\<close>, \<open>Guest_Ops\<close>: \<open>common/src/hvcontrol.c\<close>, the control channel; the
    protocol automaton it refines (locale \<open>simulation\<close>); the commands on guests and vcpus.
  \<^item> \<open>Guest_Exit\<close>: \<open>c_guest_exit\<close> of \<open>init.c\<close>.
  \<^item> \<open>Boot\<close>: \<open>c_start\<close> and \<open>init_hv_internals\<close> of \<open>init.c\<close>, the \<open>config_\<close> functions of \<open>reconf.c\<close>.
  \<^item> \<open>Mdgen_Dag\<close>, \<open>Mdgen_Parse\<close>, \<open>Mdgen_Read\<close>, \<open>Mdgen_Out\<close>: \<open>support/mdgen/mdmain.c\<close>, \<open>mdparse.c\<close>
    and \<open>output_bin.c\<close>; \<open>Mdgen_Image\<close> and \<open>Mdgen_Main\<close> connect the images with the scanner of \<open>Md\<close>.
  \<^item> \<open>Mdlint\<close>: \<open>support/mdlint/mdlint.c\<close>.
  \<^item> \<open>Lzw\<close>: \<open>comp.c\<close> and \<open>decomp.c\<close>; \<open>Lzw_Stream\<close> (the bits of the codes as one number), \<open>Lzw_Hash\<close>
    (the compressor's dictionary and its hash table), \<open>Lzw_Sync\<close> (compressor and decompressor in
    step) and \<open>Lzw_Main\<close> (the round trip) are the layers of its proof.  \<open>Lzw_Run\<close> follows the
    compressor along a run of equal bytes, an input that gets shorter.
  \<^item> \<open>Checksum\<close>: \<open>checksum/checksum.c\<close> and \<open>crc32.c\<close>.  \<open>Dropin\<close>: \<open>make_dropin\<close> of \<open>makedi.c\<close>, and \<open>finddropin.c\<close>.

  \<^bold>\<open>State and operations.\<close>  \<open>config\<close> is the C structure of that name with the global arrays it
  points to; an array is a function on indices, a pointer into one is an index or \<open>None\<close>.
  An operation takes the configuration and gives the new one in the sum \<open>hv\<close>, whose left
  side says how the C code fails to return: \<open>c_hvabort\<close>, a failed \<open>ASSERT\<close> (builds with
  \<open>DEBUG\<close>), an access through NULL or outside an array, or a loop that never ends.  Error
  codes the code itself returns are values of the result.  Integers have their C width;
  where C converts, so does the model.  Physical memory that holds MDs is \<open>cfg_md_mem\<close>.  What C
  leaves uninitialised is a parameter or \<open>None\<close>.  Messages handed to the assembler layer are
  logged in the configuration (\<open>cfg_mondo_log\<close>).

  The build is that of the Piton (\<open>greatlakes/ontario/t1_fpga/Makefile\<close> with
  \<open>Makefile.platform\<close>): \<open>DEBUG\<close>, \<open>PITON_NET\<close>, \<open>CONFIG_DISK\<close>, \<open>CONFIG_SVC\<close>, \<open>CONFIG_HVUART\<close>,
  \<open>CONFIG_CN_UART\<close>, \<open>CONFIG_CRYPTO\<close> and \<open>SIMULATION\<close> are set; \<open>CONFIG_FPGA\<close>, \<open>CONFIG_PCIE\<close> and
  \<open>STANDALONE_NET_DEVICES\<close> are not.

  \<^bold>\<open>What is shown\<close>, by group.

  \<^item> Memory: a configured block translates exactly its addresses; a removed one no longer does
    and leaves the others alone; a block that moves to where a later one moves away from, as when two swap
    their places, loses its mapping.
  \<^item> Guests, vcpus, channels, consoles, crypto units: what parsing may change and elect, the
    state a configured resource is left in, the consistency of the tables that point to each
    other, and where the code follows a null pointer.
  \<^item> Reconfiguration: a refused one keeps the live machine but for two permissions of guests that are
    written while parsing, a delayed one is recorded and keeps as much, one error path keeps a lock for ever, a commit leaves nothing pending.
  \<^item> Control channel: it refines an automaton of three states, whatever packets arrive; commands are
    only carried out after a handshake and in sequence; which states of guests they change;
    accounting and notifications.
  \<^item> Start and exit: starting returns and schedules the right vcpu; an exit returns when the other strands
    answer, stops all vcpus of the guest and commits what waited for it.
  \<^item> Power on: the initial state satisfies the invariants the other properties assume, and a
    vcpu configured by the boot code is the one a reconfiguration would have configured.
  \<^item> \<open>mdgen\<close>: what it writes is well formed for the scanner and reads back as the graph it was
    made of; reading expressions ends; their value is a fold from left to right.  \<open>mdlint\<close> accepts all
    it writes from names of fewer than 255 bytes, but also some descriptions the scanner cannot bear.
  \<^item> Drop-ins: what the compressor writes, the decompressor reads back; a drop-in that was made can be
    found and, under conditions its property lists, read, and its checksum is right up to 128 KB; the CRC is the one of its polynomial; on bytes that
    were not made by these tools, the decompressor leaves its stack and the search does not end.

  \<^bold>\<open>Loops and fuel.\<close>  Counted loops are folds over their index range, and the scanner's loops
  that follow offsets recurse on a measure, the distance to the end of the elements.
  \<open>md_find_node\<close> follows next-node offsets of the MD, which may form a cycle: it has one
  step of fuel more than there are elements, and running out is shown to be a real endless
  loop (\<open>Hang\<close>).  \<open>parse_expr\<close> has eight steps per token and four more, the other loops of the
  parser one more than there are tokens, and the loops over the list of nodes two more than
  the nodes ever made.  \<open>md_count_step\<close> of \<open>mdlint\<close> jumps from node to node: no description of n bytes
  has as many nodes as the fuel n + 2, so running out is a real loop.  The probes of the compressor's
  hash table have as many steps as slots, and are shown to end; \<open>di_iterate\<close> has one step for each
  position and count it can be at, and one more.  That expressions never run out of fuel is a property; for the rest of
  the parser it is a lemma (\<open>Mdgen_Read\<close>) for builds without the optional features.  The exit of a
  guest waits for other strands: whether a wait ends is a parameter (\<open>gx_wait\<close>), and the
  property on it says under which behaviour of the strands.

  \<^bold>\<open>Not modelled.\<close>  The assembler layer (\<open>*.s\<close>: traps, hypercalls, LDC queues, interrupts,
  strand commands), apart from the routine of \<open>hcall_ncs.s\<close> through which C binds a strand to a
  crypto unit.  The other platform (\<open>greatlakes/huron\<close>), PCIe and network resources, which the
  Piton build leaves out.  The start-up of the service channels and \<open>support.c\<close>, which work on
  devices and registers.  In \<open>mdgen\<close>, the lexer, which is generated (its tokens are the input),
  the text outputs and wrappers of \<open>malloc\<close> and \<open>write\<close>.  The tools \<open>aschk\<close> and \<open>stabs\<close>.  The options and
  files of \<open>makedi\<close>, and the rest of \<open>src/subos\<close> outside the hypervisor: boot firmware in Forth with its
  simulator and build tools, and trace tools in C++.
  Debug output is left out everywhere.  Interleaving with other strands is not modelled:
  one operation runs at a time, as under the locks the code takes, but for the places
  where the code itself waits.
\<close>

end
